(* ===== verification/Prelude.thy ===== *)
theory Prelude
  imports Main "HOL-Library.Word" "HOL-Library.Monad_Syntax" "HOL-Library.Sublist"
begin

text \<open>
  Shared vocabulary of the development.

  Go's fixed-width integers are words (\<open>byte\<close>, \<open>uint64\<close>); a Go \<^verbatim>\<open>[]byte\<close> is a list of
  bytes, in which the nil slice and the empty slice are identified; \<^verbatim>\<open>*big.Int\<close> is
  \<^typ>\<open>int\<close>; the fixed arrays \<^verbatim>\<open>common.Hash\<close> and \<^verbatim>\<open>common.Address\<close> are the words of the same
  width, read big-endian.  A Go panic (index out of range, nil dereference, explicit
  \<^verbatim>\<open>panic\<close>) is the value \<^term>\<open>None\<close> of an option type, so that "does not panic" is a
  statement of the form \<open>\<exists>r. f x = Some r\<close>; a Go \<^verbatim>\<open>error\<close> result is an ordinary value.

  The theory then models the part of Go's \<^verbatim>\<open>math/big\<close> that the sources use
  (\<open>BitLen\<close>, \<open>Uint64\<close>, \<open>Int64\<close>, \<open>SetBytes\<close>, \<open>Bytes\<close>), slices, and \<^verbatim>\<open>sort.Search\<close>,
  with the lemmas that the components share.
\<close>

type_synonym byte = "8 word"
type_synonym uint64 = "64 word"
type_synonym bytes = "byte list"
type_synonym Hash = "256 word"
type_synonym Address = "160 word"

named_theorems go_simps "unfolding rules for the Go operations used throughout"
named_theorems go_splits "case splits for the values Go functions return"

section \<open>Arbitrary precision integers\<close>

fun bit_len_nat :: "nat \<Rightarrow> nat" where
  "bit_len_nat n = (if n = 0 then 0 else Suc (bit_len_nat (n div 2)))"

declare bit_len_nat.simps [simp del]

definition BitLen :: "int \<Rightarrow> nat" where
  "BitLen x = bit_len_nat (nat \<bar>x\<bar>)"

definition Uint64 :: "int \<Rightarrow> uint64" where
  "Uint64 x = word_of_int \<bar>x\<bar>"

definition Int64 :: "int \<Rightarrow> int" where
  "Int64 x = sint (word_of_int x :: uint64)"

definition SetBytes :: "bytes \<Rightarrow> int" where
  "SetBytes bs = foldl (\<lambda>a b. a * 256 + uint b) 0 bs"

fun bytes_of_nat :: "nat \<Rightarrow> bytes" where
  "bytes_of_nat n = (if n = 0 then [] else bytes_of_nat (n div 256) @ [of_nat (n mod 256)])"

declare bytes_of_nat.simps [simp del]

definition big_Bytes :: "int \<Rightarrow> bytes" where
  "big_Bytes x = bytes_of_nat (nat \<bar>x\<bar>)"

section \<open>Slices\<close>

text \<open>
  \<^verbatim>\<open>s[lo:hi]\<close>.  Go also accepts an upper bound between the length and the capacity; no
  slice expression of the modelled code relies on it, and the model treats it as the
  panic it is for a slice whose capacity is its length.
\<close>

definition slice :: "'a list \<Rightarrow> nat \<Rightarrow> nat \<Rightarrow> 'a list option" where
  "slice xs lo hi = (if lo \<le> hi \<and> hi \<le> length xs then Some (take (hi - lo) (drop lo xs)) else None)"

text \<open>\<^verbatim>\<open>copy(dst[off:], src)\<close> for an offset within the destination.\<close>

definition copy_at :: "'a list \<Rightarrow> nat \<Rightarrow> 'a list \<Rightarrow> 'a list" where
  "copy_at dst off src =
     take off dst @ take (length dst - off) src @ drop (off + length src) dst"

section \<open>Binary search\<close>

text \<open>\<^verbatim>\<open>sort.Search\<close>: the least index at which a monotone predicate holds.\<close>

function search_loop :: "(nat \<Rightarrow> bool) \<Rightarrow> nat \<Rightarrow> nat \<Rightarrow> nat" where
  "search_loop f i j =
     (if i < j then
        let h = (i + j) div 2 in
        if \<not> f h then search_loop f (h + 1) j else search_loop f i h
      else i)"
  by pat_completeness auto
termination
  by (relation "measure (\<lambda>(f, i, j). j - i)") auto

declare search_loop.simps [simp del]

definition sort_Search :: "nat \<Rightarrow> (nat \<Rightarrow> bool) \<Rightarrow> nat" where
  "sort_Search n f = search_loop f 0 n"

section \<open>Lemmas on integers and bit lengths\<close>

lemma bit_len_nat_le_iff: "bit_len_nat n \<le> k \<longleftrightarrow> n < 2 ^ k"
proof (induction n arbitrary: k rule: bit_len_nat.induct)
  case (1 n)
  show ?case
  proof (cases "n = 0")
    case True
    then show ?thesis by (simp add: bit_len_nat.simps)
  next
    case False
    show ?thesis
    proof (cases k)
      case 0
      with False show ?thesis by (simp add: bit_len_nat.simps [of n])
    next
      case (Suc m)
      have "bit_len_nat n \<le> k \<longleftrightarrow> n div 2 < 2 ^ m"
        using False Suc 1 by (simp add: bit_len_nat.simps [of n])
      also have "\<dots> \<longleftrightarrow> n < 2 ^ k"
        using Suc by (simp add: div_less_iff_less_mult mult.commute)
      finally show ?thesis .
    qed
  qed
qed

lemma BitLen_le_iff: "BitLen x \<le> k \<longleftrightarrow> \<bar>x\<bar> < 2 ^ k"
proof -
  have "nat \<bar>x\<bar> < 2 ^ k \<longleftrightarrow> \<bar>x\<bar> < 2 ^ k"
    by (metis abs_ge_zero nat_less_eq_zless nat_power_eq nat_numeral zero_le_numeral)
  then show ?thesis by (simp add: BitLen_def bit_len_nat_le_iff)
qed

lemma BitLen_less_iff: "k < BitLen x \<longleftrightarrow> 2 ^ k \<le> \<bar>x\<bar>"
  using BitLen_le_iff [of x k] by linarith

lemma BitLen_eq_0 [simp]: "BitLen x = 0 \<longleftrightarrow> x = 0"
  using BitLen_le_iff [of x 0] by auto

lemma uint_Uint64: "0 \<le> x \<Longrightarrow> x < 2 ^ 64 \<Longrightarrow> uint (Uint64 x) = x"
  by (simp add: Uint64_def uint_word_of_int_eq take_bit_int_eq_self)

lemma unat_Uint64: "0 \<le> x \<Longrightarrow> x < 2 ^ 64 \<Longrightarrow> unat (Uint64 x) = nat x"
  by (simp add: uint_Uint64 flip: nat_uint_eq)

lemma unat_of_nat_small: "n < 2 ^ 64 \<Longrightarrow> unat (of_nat n :: uint64) = n"
  by (simp add: unat_of_nat)

lemma Uint64_of_uint [simp]: "Uint64 (uint w) = w"
  by (simp add: Uint64_def)

lemma Int64_small: "0 \<le> x \<Longrightarrow> x < 2 ^ 63 \<Longrightarrow> Int64 x = x"
  by (simp add: Int64_def sint_uint uint_word_of_int_eq take_bit_int_eq_self signed_take_bit_int_eq_self)

section \<open>Lemmas on big-endian bytes\<close>

lemma SetBytes_Nil [simp]: "SetBytes [] = 0"
  by (simp add: SetBytes_def)

lemma SetBytes_snoc [simp]: "SetBytes (bs @ [b]) = SetBytes bs * 256 + uint b"
  by (simp add: SetBytes_def)

lemma SetBytes_append: "SetBytes (xs @ ys) = SetBytes xs * 256 ^ length ys + SetBytes ys"
  by (induction ys rule: rev_induct) (auto simp: algebra_simps simp flip: append_assoc)

lemma SetBytes_nonneg [simp]: "0 \<le> SetBytes bs"
  by (induction bs rule: rev_induct) auto

lemma SetBytes_less: "SetBytes bs < 256 ^ length bs"
proof (induction bs rule: rev_induct)
  case Nil
  then show ?case by simp
next
  case (snoc b bs)
  have "uint b < 256"
    using uint_lt2p [of b] by simp
  with snoc show ?case by simp
qed

lemma SetBytes_bytes_of_nat [simp]: "SetBytes (bytes_of_nat n) = int n"
proof (induction n rule: bytes_of_nat.induct)
  case (1 n)
  show ?case
  proof (cases "n = 0")
    case True
    then show ?thesis by (simp add: bytes_of_nat.simps)
  next
    case False
    have "uint (of_nat (n mod 256) :: byte) = int (n mod 256)"
      by (simp add: uint_nat unat_of_nat)
    moreover have "int (n div 256) * 256 + int (n mod 256) = int n"
      by (metis div_mult_mod_eq of_nat_add of_nat_mult of_nat_numeral)
    ultimately show ?thesis
      using False 1 by (simp add: bytes_of_nat.simps [of n])
  qed
qed

lemma SetBytes_big_Bytes: "0 \<le> x \<Longrightarrow> SetBytes (big_Bytes x) = x"
  by (simp add: big_Bytes_def)

section \<open>Lemmas on slices\<close>

lemma slice_eq_Some_iff:
  "slice xs lo hi = Some ys \<longleftrightarrow> lo \<le> hi \<and> hi \<le> length xs \<and> ys = take (hi - lo) (drop lo xs)"
  by (auto simp: slice_def)

lemma length_slice: "slice xs lo hi = Some ys \<Longrightarrow> length ys = hi - lo"
  by (auto simp: slice_eq_Some_iff)

lemma length_copy_at [simp]:
  "off + length src \<le> length dst \<Longrightarrow> length (copy_at dst off src) = length dst"
  by (simp add: copy_at_def)

lemma take_drop_copy_at:
  "off + length src \<le> length dst \<Longrightarrow> take (length src) (drop off (copy_at dst off src)) = src"
  by (simp add: copy_at_def)

section \<open>Correctness of binary search\<close>

lemma search_loop_le: "i \<le> j \<Longrightarrow> search_loop f i j \<le> j"
  by (induction f i j rule: search_loop.induct) (subst search_loop.simps, fastforce simp: Let_def)

lemma sort_Search_le: "sort_Search n f \<le> n"
  by (simp add: sort_Search_def search_loop_le)

lemma search_loop_correct:
  assumes "\<forall>a b. a \<le> b \<longrightarrow> f a \<longrightarrow> f b" and "i \<le> j"
    and "\<forall>k<i. \<not> f k" and "\<forall>k\<ge>j. k < n \<longrightarrow> f k" and "j \<le> n"
  shows "search_loop f i j \<le> n \<and>
         (\<forall>k < search_loop f i j. \<not> f k) \<and> (\<forall>k \<ge> search_loop f i j. k < n \<longrightarrow> f k)"
  using assms
proof (induction f i j rule: search_loop.induct)
  case (1 f i j)
  let ?h = "(i + j) div 2"
  note mono = "1.prems"(1)
  show ?case
  proof (cases "i < j")
    case False
    then have "search_loop f i j = i" by (simp add: search_loop.simps)
    with False "1.prems" show ?thesis by simp
  next
    case True
    then have h: "i \<le> ?h" "?h < j" by auto
    show ?thesis
    proof (cases "f ?h")
      case fh: True
      then have above: "\<forall>k\<ge>?h. k < n \<longrightarrow> f k" using mono by blast
      have eq: "search_loop f i j = search_loop f i ?h"
        using True fh by (subst search_loop.simps) (simp add: Let_def)
      show ?thesis unfolding eq
        by (rule "1.IH"(2) [OF True refl _ mono h(1) "1.prems"(3) above])
           (use fh h "1.prems"(5) in simp_all)
    next
      case fh: False
      then have below: "\<forall>k < ?h + 1. \<not> f k"
        using mono by (metis Suc_eq_plus1 less_Suc_eq_le)
      have eq: "search_loop f i j = search_loop f (?h + 1) j"
        using True fh by (subst search_loop.simps) (simp add: Let_def)
      show ?thesis unfolding eq
        by (rule "1.IH"(1) [OF True refl fh mono _ below "1.prems"(4,5)])
           (use h in simp)
    qed
  qed
qed

lemma sort_Search_correct:
  assumes "\<forall>a b. a \<le> b \<longrightarrow> f a \<longrightarrow> f b"
  shows "sort_Search n f \<le> n \<and> (\<forall>k < sort_Search n f. \<not> f k) \<and>
         (\<forall>k \<ge> sort_Search n f. k < n \<longrightarrow> f k)"
  unfolding sort_Search_def by (rule search_loop_correct) (use assms in simp_all)

end
