(* ===== verification/Trie_Interface.thy ===== *)
theory Trie_Interface
  imports Prelude
begin

text \<open>
  The interface between the state database and the trie package: \<^verbatim>\<open>state.Trie\<close> in
  \<^verbatim>\<open>core/state/database.go\<close>, with the operations \<^verbatim>\<open>TryGet\<close>, \<^verbatim>\<open>TryUpdate\<close> and \<^verbatim>\<open>TryDelete\<close>.

  A trie is seen from its client: the partial map it holds and the set of keys whose path
  runs into a node that the node database lacks (\<^verbatim>\<open>trie.MissingNodeError\<close>).  A read or
  write of such a key returns the error and leaves the trie as it is.  The locale
  \<open>kv_store\<close> states the laws the clients use; the interpretation at the end shows that
  the client view satisfies them.
\<close>

datatype DbError = MissingNode | CodeNotFound

record ('k, 'v) Trie =
  kv :: "'k \<rightharpoonup> 'v"
  missing :: "'k \<Rightarrow> bool"

definition emptyTrie :: "('k, 'v) Trie" where
  "emptyTrie = \<lparr>kv = Map.empty, missing = (\<lambda>_. False)\<rparr>"

definition TryGet :: "('k, 'v) Trie \<Rightarrow> 'k \<Rightarrow> DbError + 'v option" where
  "TryGet t k = (if missing t k then Inl MissingNode else Inr (kv t k))"

definition TryUpdate :: "('k, 'v) Trie \<Rightarrow> 'k \<Rightarrow> 'v \<Rightarrow> DbError option \<times> ('k, 'v) Trie" where
  "TryUpdate t k v =
     (if missing t k then (Some MissingNode, t) else (None, t\<lparr>kv := (kv t)(k \<mapsto> v)\<rparr>))"

definition TryDelete :: "('k, 'v) Trie \<Rightarrow> 'k \<Rightarrow> DbError option \<times> ('k, 'v) Trie" where
  "TryDelete t k =
     (if missing t k then (Some MissingNode, t) else (None, t\<lparr>kv := (kv t)(k := None)\<rparr>))"

section \<open>The laws of the interface\<close>

text \<open>
  \<open>okt\<close> is the invariant of the provider and \<open>okv\<close> describes the values that may be stored.  An update fails only on
  a key that cannot be read; a deletion may fail on other keys too, because it may have to load a sibling.
\<close>

locale kv_store =
  fixes okt :: "'t \<Rightarrow> bool"
    and okv :: "'v \<Rightarrow> bool"
    and tget :: "'t \<Rightarrow> 'k \<Rightarrow> 'f + 'v option"
    and tupd :: "'t \<Rightarrow> 'k \<Rightarrow> 'v \<Rightarrow> 'e option \<times> 't"
    and tdel :: "'t \<Rightarrow> 'k \<Rightarrow> 'e option \<times> 't"
  assumes get_upd: "okt t \<Longrightarrow> okv v \<Longrightarrow> tupd t k v = (None, t') \<Longrightarrow> okt t' \<and> tget t' k' = (if k' = k then Inr (Some v) else tget t k')"
    and get_del: "okt t \<Longrightarrow> tdel t k = (None, t') \<Longrightarrow> okt t' \<and> tget t' k' = (if k' = k then Inr None else tget t k')"
    and upd_err: "okt t \<Longrightarrow> okv v \<Longrightarrow> tupd t k v = (Some e, t') \<Longrightarrow> t' = t \<and> (\<exists>e'. tget t k = Inl e')"
    and del_err: "okt t \<Longrightarrow> tdel t k = (Some e, t') \<Longrightarrow> t' = t"
begin

text \<open>A sequence of writes: \<open>Some v\<close> stores a value, \<open>None\<close> deletes the key.\<close>

definition put :: "'t \<Rightarrow> 'k \<times> 'v option \<Rightarrow> 'e option \<times> 't" where
  "put t w = (case w of (k, Some v) \<Rightarrow> tupd t k v | (k, None) \<Rightarrow> tdel t k)"

definition okw :: "'k \<times> 'v option \<Rightarrow> bool" where
  "okw w = (case snd w of Some v \<Rightarrow> okv v | None \<Rightarrow> True)"

lemma put_cases:
  assumes "okt t" "okw w"
  obtains (stored) "okt (snd (put t w))" "\<And>k'. tget (snd (put t w)) k' = (if k' = fst w then Inr (snd w) else tget t k')"
    | (failed) "snd (put t w) = t"
proof (cases "snd w")
  case None
  then have p: "put t w = tdel t (fst w)" by (simp add: put_def case_prod_beta)
  obtain e t' where r: "tdel t (fst w) = (e, t')" by (cases "tdel t (fst w)")
  show ?thesis
  proof (cases e)
    case None: None
    show ?thesis using get_del [OF assms(1) r [unfolded None]] \<open>snd w = None\<close> by (intro stored) (auto simp: p r)
  next
    case (Some err)
    show ?thesis using del_err [OF assms(1) r [unfolded Some]] by (intro failed) (simp add: p r)
  qed
next
  case (Some v)
  then have p: "put t w = tupd t (fst w) v" and v: "okv v" using assms(2) by (simp_all add: put_def okw_def case_prod_beta)
  obtain e t' where r: "tupd t (fst w) v = (e, t')" by (cases "tupd t (fst w) v")
  show ?thesis
  proof (cases e)
    case None
    show ?thesis using get_upd [OF assms(1) v r [unfolded None]] Some by (intro stored) (auto simp: p r)
  next
    case (Some err)
    show ?thesis using upd_err [OF assms(1) v r [unfolded Some]] by (intro failed) (simp add: p r)
  qed
qed

lemma put_okt: "okt t \<Longrightarrow> okw w \<Longrightarrow> okt (snd (put t w))"
  by (cases rule: put_cases [of t w]) auto

lemma put_other: "okt t \<Longrightarrow> okw w \<Longrightarrow> k' \<noteq> fst w \<Longrightarrow> tget (snd (put t w)) k' = tget t k'"
  by (cases rule: put_cases [of t w]) auto

lemma update_readable: "okt t \<Longrightarrow> okv v \<Longrightarrow> tget t k = Inr x \<Longrightarrow> tget (snd (tupd t k v)) k = Inr (Some v)"
  by (cases "tupd t k v"; cases "fst (tupd t k v)") (auto simp: get_upd dest: upd_err)

text \<open>Whatever is written to other keys, a key keeps its value.\<close>

lemma writes_frame:
  "okt t \<Longrightarrow> \<forall>w \<in> set ws. okw w \<and> fst w \<noteq> k \<Longrightarrow> tget (fold (\<lambda>w t. snd (put t w)) ws t) k = tget t k"
  by (induction ws arbitrary: t) (auto simp: put_okt put_other)

end

interpretation client_trie: kv_store "\<lambda>_. True" "\<lambda>_. True" TryGet TryUpdate TryDelete
  by unfold_locales (auto simp: TryGet_def TryUpdate_def TryDelete_def split: if_splits)

end
