(* ===== verification/Common_Types.thy ===== *)
theory Common_Types
  imports Prelude
begin

text \<open>
  \<^verbatim>\<open>common/types.go\<close> and \<^verbatim>\<open>common/bytes.go\<close>: hashes and addresses, their conversions from and
  to byte slices and big integers, and the padding helpers.

  A \<^verbatim>\<open>common.Hash\<close> is a fixed array of 32 bytes and a \<^verbatim>\<open>common.Address\<close> one of 20; the model
  keeps them as words of 256 and 160 bits, whose big-endian bytes are \<open>Hash_Bytes\<close> and
  \<open>Address_Bytes\<close>.  The lemmas show that the conversions through bytes that the code
  performs are the expected ones on numbers (truncation modulo \<open>2^256\<close> and \<open>2^160\<close>) and
  that they are inverse to each other.
\<close>

section \<open>Byte representation of words\<close>

definition word_bytes :: "nat \<Rightarrow> 'a::len word \<Rightarrow> bytes" where
  "word_bytes n w = map (\<lambda>i. ucast (drop_bit (8 * i) w)) (rev [0..<n])"

definition crop_left :: "nat \<Rightarrow> bytes \<Rightarrow> bytes" where
  "crop_left n b = (if length b > n then drop (length b - n) b else b)"

section \<open>common.Hash\<close>

definition HashLength :: nat where "HashLength = 32"

definition AddressLength :: nat where "AddressLength = 20"

definition Hash_SetBytes :: "bytes \<Rightarrow> Hash" where
  "Hash_SetBytes b = word_of_int (SetBytes (crop_left HashLength b))"

definition BytesToHash :: "bytes \<Rightarrow> Hash" where
  "BytesToHash b = Hash_SetBytes b"

definition BigToHash :: "int \<Rightarrow> Hash" where
  "BigToHash b = BytesToHash (big_Bytes b)"

definition Hash_Bytes :: "Hash \<Rightarrow> bytes" where
  "Hash_Bytes h = word_bytes HashLength h"

definition Hash_Big :: "Hash \<Rightarrow> int" where
  "Hash_Big h = SetBytes (Hash_Bytes h)"

section \<open>common.Address\<close>

definition Address_SetBytes :: "bytes \<Rightarrow> Address" where
  "Address_SetBytes b = word_of_int (SetBytes (crop_left AddressLength b))"

definition BytesToAddress :: "bytes \<Rightarrow> Address" where
  "BytesToAddress b = Address_SetBytes b"

definition BigToAddress :: "int \<Rightarrow> Address" where
  "BigToAddress b = BytesToAddress (big_Bytes b)"

definition Address_Bytes :: "Address \<Rightarrow> bytes" where
  "Address_Bytes a = word_bytes AddressLength a"

definition Address_Big :: "Address \<Rightarrow> int" where
  "Address_Big a = SetBytes (Address_Bytes a)"

definition Address_Hash :: "Address \<Rightarrow> Hash" where
  "Address_Hash a = BytesToHash (Address_Bytes a)"

section \<open>Padding (common/bytes.go)\<close>

text \<open>The length is a Go \<^verbatim>\<open>int\<close>: a negative one, as the conversion of a huge \<^verbatim>\<open>uint64\<close> gives, pads nothing.\<close>

definition RightPadBytes :: "bytes \<Rightarrow> int \<Rightarrow> bytes" where
  "RightPadBytes xs l = (if l \<le> int (length xs) then xs else copy_at (replicate (nat l) 0) 0 xs)"

definition LeftPadBytes :: "bytes \<Rightarrow> int \<Rightarrow> bytes" where
  "LeftPadBytes xs l =
     (if l \<le> int (length xs) then xs else copy_at (replicate (nat l) 0) (nat l - length xs) xs)"

section \<open>Lemmas\<close>

lemma length_word_bytes [simp]: "length (word_bytes n w) = n"
  by (simp add: word_bytes_def)

lemma word_bytes_Suc: "word_bytes (Suc n) w = word_bytes n (drop_bit 8 w) @ [ucast w]"
proof -
  have "rev [0..<Suc n] = map Suc (rev [0..<n]) @ [0]"
    unfolding rev_map [symmetric] map_Suc_upt by (simp add: upt_rec)
  then show ?thesis
    by (simp add: word_bytes_def comp_def add.commute)
qed

lemma SetBytes_word_bytes: "SetBytes (word_bytes n w) = uint w mod 256 ^ n"
proof (induction n arbitrary: w)
  case 0
  then show ?case by (simp add: word_bytes_def)
next
  case (Suc n)
  have 1: "uint (drop_bit 8 w) = uint w div 256"
    unfolding unsigned_drop_bit_eq by (simp add: drop_bit_eq_div take_bit_int_eq_self)
  have 2: "uint (ucast w :: byte) = uint w mod 256"
    by (simp add: unsigned_ucast_eq take_bit_eq_mod)
  have "uint w mod 256 ^ Suc n = 256 * (uint w div 256 mod 256 ^ n) + uint w mod 256"
    by (simp add: zmod_zmult2_eq)
  with Suc [of "drop_bit 8 w"] show ?case
    by (simp add: word_bytes_Suc 1 2)
qed

lemma Hash_Big_uint [simp]: "Hash_Big h = uint h"
proof -
  have "uint h < 256 ^ 32"
    using uint_lt2p [of h] by simp
  then show ?thesis
    by (simp add: Hash_Big_def Hash_Bytes_def HashLength_def SetBytes_word_bytes)
qed

lemma Address_Big_uint [simp]: "Address_Big a = uint a"
proof -
  have "uint a < 256 ^ 20"
    using uint_lt2p [of a] by simp
  then show ?thesis
    by (simp add: Address_Big_def Address_Bytes_def AddressLength_def SetBytes_word_bytes)
qed

lemma SetBytes_crop_left: "SetBytes (crop_left n b) = SetBytes b mod 256 ^ n"
proof (cases "length b > n")
  case True
  define k where "k = length b - n"
  have "b = take k b @ drop k b" and "length (drop k b) = n"
    using True by (simp_all add: k_def)
  then have "SetBytes b = SetBytes (take k b) * 256 ^ n + SetBytes (drop k b)"
    using SetBytes_append [of "take k b" "drop k b"] by simp
  moreover have "SetBytes (drop k b) < 256 ^ n"
    using SetBytes_less [of "drop k b"] \<open>length (drop k b) = n\<close> by simp
  ultimately have "SetBytes (drop k b) = SetBytes b mod 256 ^ n"
    by simp
  then show ?thesis
    using True by (simp add: crop_left_def k_def)
next
  case False
  have "SetBytes b < 256 ^ length b" by (rule SetBytes_less)
  also have "(256::int) ^ length b \<le> 256 ^ n"
    using False by (intro power_increasing) auto
  finally show ?thesis
    using False by (simp add: crop_left_def)
qed

lemma BytesToHash_eq: "BytesToHash b = word_of_int (SetBytes b)"
proof -
  have "(word_of_int (SetBytes b mod 2 ^ 256) :: Hash) = word_of_int (SetBytes b)"
    by (rule word_uint_eqI) (simp add: uint_word_of_int)
  then show ?thesis
    by (simp add: BytesToHash_def Hash_SetBytes_def SetBytes_crop_left HashLength_def)
qed

lemma BytesToAddress_eq: "BytesToAddress b = word_of_int (SetBytes b)"
proof -
  have "(word_of_int (SetBytes b mod 2 ^ 160) :: Address) = word_of_int (SetBytes b)"
    by (rule word_uint_eqI) (simp add: uint_word_of_int)
  then show ?thesis
    by (simp add: BytesToAddress_def Address_SetBytes_def SetBytes_crop_left AddressLength_def)
qed

lemma BigToHash_eq: "0 \<le> x \<Longrightarrow> BigToHash x = word_of_int x"
  by (simp add: BigToHash_def BytesToHash_eq SetBytes_big_Bytes)

lemma BigToAddress_eq: "0 \<le> x \<Longrightarrow> BigToAddress x = word_of_int x"
  by (simp add: BigToAddress_def BytesToAddress_eq SetBytes_big_Bytes)

lemma BytesToHash_Hash_Bytes [simp]: "BytesToHash (Hash_Bytes h) = h"
  unfolding BytesToHash_eq by (fold Hash_Big_def) simp

lemma BytesToAddress_Address_Bytes [simp]: "BytesToAddress (Address_Bytes a) = a"
  unfolding BytesToAddress_eq by (fold Address_Big_def) simp

lemma length_RightPadBytes [simp]: "length (RightPadBytes xs l) = max (nat l) (length xs)"
  by (auto simp: RightPadBytes_def)

lemma RightPadBytes_eq: "RightPadBytes xs l = xs @ replicate (nat l - length xs) 0"
  by (auto simp: RightPadBytes_def copy_at_def)

lemma length_LeftPadBytes [simp]: "length (LeftPadBytes xs l) = max (nat l) (length xs)"
  by (auto simp: LeftPadBytes_def)

lemma LeftPadBytes_eq: "LeftPadBytes xs l = replicate (nat l - length xs) 0 @ xs"
  by (auto simp: LeftPadBytes_def copy_at_def)

lemma SetBytes_replicate_0 [simp]: "SetBytes (replicate n 0) = 0"
proof (induction n)
  case (Suc n)
  have "replicate (Suc n) (0::byte) = replicate n 0 @ [0]"
    by (simp add: replicate_append_same)
  with Suc show ?case by (simp del: replicate.simps)
qed simp

lemma SetBytes_LeftPadBytes [simp]: "SetBytes (LeftPadBytes xs l) = SetBytes xs"
  by (simp add: LeftPadBytes_eq SetBytes_append)

end
