(* ===== verification/State_Object.thy ===== *)
theory State_Object
  imports Trie_Interface Common_Types
begin

text \<open>
  \<^verbatim>\<open>core/state/state_object.go\<close>: an account that is being modified.  A \<^verbatim>\<open>stateObject\<close> caches
  the account record, its code and the storage slots read (\<open>originStorage\<close>) and written
  (\<open>dirtyStorage\<close>) on top of the storage trie.

  Every method that reads through the database may fill a cache or record a database
  error, so readers return the updated object.  The functions the code takes from outside
  (the Keccak hash, the storage tries and code blobs of the node database) are the fields
  of the record \<open>Backend\<close>; it stands for \<^verbatim>\<open>state.Database\<close> and \<^verbatim>\<open>crypto.Keccak256Hash\<close>.

  The fields \<^verbatim>\<open>Balance\<close> and \<^verbatim>\<open>CodeHash\<close> of \<^verbatim>\<open>Account\<close> are nil only in the literal \<^verbatim>\<open>Account{}\<close>
  passed to \<^verbatim>\<open>newObject\<close>, which replaces them; \<open>emptyAccount\<close> is the result of that step.
\<close>

section \<open>Data\<close>

record Account =
  Nonce :: uint64
  Balance :: int
  Root :: Hash
  CodeHash :: Hash

type_synonym Storage = "Hash \<rightharpoonup> Hash"
type_synonym StorageTrie = "(Hash, Hash) Trie"

record Backend =
  Keccak256Hash :: "bytes \<Rightarrow> Hash"
  OpenStorageTrie :: "Hash \<Rightarrow> StorageTrie option"
  ContractCode :: "Hash \<Rightarrow> bytes option"
  StorageRoot :: "StorageTrie \<Rightarrow> Hash"

record stateObject =
  address :: Address
  data :: Account
  so_dbErr :: "DbError option"
  so_trie :: "StorageTrie option"
  so_code :: "bytes option"
  originStorage :: Storage
  dirtyStorage :: Storage
  dirtyCode :: bool
  suicided :: bool
  deleted :: bool

definition emptyCodeHash :: "Backend \<Rightarrow> Hash" where
  "emptyCodeHash db = Keccak256Hash db []"

section \<open>Operations\<close>

definition so_empty :: "Backend \<Rightarrow> stateObject \<Rightarrow> bool" where
  "so_empty db s \<longleftrightarrow> Nonce (data s) = 0 \<and> Balance (data s) = 0 \<and> CodeHash (data s) = emptyCodeHash db"

definition emptyAccount :: "Backend \<Rightarrow> Account" where
  "emptyAccount db = \<lparr>Nonce = 0, Balance = 0, Root = 0, CodeHash = emptyCodeHash db\<rparr>"

definition newObject :: "Address \<Rightarrow> Account \<Rightarrow> stateObject" where
  "newObject addr acc =
     \<lparr>address = addr, data = acc, so_dbErr = None, so_trie = None, so_code = None,
      originStorage = Map.empty, dirtyStorage = Map.empty,
      dirtyCode = False, suicided = False, deleted = False\<rparr>"

definition so_setError :: "stateObject \<Rightarrow> DbError option \<Rightarrow> stateObject" where
  "so_setError self err = (if so_dbErr self = None then self\<lparr>so_dbErr := err\<rparr> else self)"

definition markSuicided :: "stateObject \<Rightarrow> stateObject" where
  "markSuicided self = self\<lparr>suicided := True\<rparr>"

definition getTrie :: "Backend \<Rightarrow> stateObject \<Rightarrow> StorageTrie \<times> stateObject" where
  "getTrie db c =
     (case so_trie c of
        Some tr \<Rightarrow> (tr, c)
      | None \<Rightarrow>
          (case OpenStorageTrie db (Root (data c)) of
             Some tr \<Rightarrow> (tr, c\<lparr>so_trie := Some tr\<rparr>)
           | None \<Rightarrow> (emptyTrie, so_setError (c\<lparr>so_trie := Some emptyTrie\<rparr>) (Some MissingNode))))"

definition so_GetCommittedState :: "Backend \<Rightarrow> stateObject \<Rightarrow> Hash \<Rightarrow> Hash \<times> stateObject" where
  "so_GetCommittedState db self key =
     (case originStorage self key of
        Some value \<Rightarrow> (value, self)
      | None \<Rightarrow>
          let (tr, self) = getTrie db self in
          (case TryGet tr key of
             Inl err \<Rightarrow> (0, so_setError self (Some err))
           | Inr enc \<Rightarrow>
               let value = (case enc of None \<Rightarrow> 0 | Some content \<Rightarrow> content) in
               (value, self\<lparr>originStorage := (originStorage self)(key \<mapsto> value)\<rparr>)))"

definition so_GetState :: "Backend \<Rightarrow> stateObject \<Rightarrow> Hash \<Rightarrow> Hash \<times> stateObject" where
  "so_GetState db self key =
     (case dirtyStorage self key of
        Some value \<Rightarrow> (value, self)
      | None \<Rightarrow> so_GetCommittedState db self key)"

definition setState :: "stateObject \<Rightarrow> Hash \<Rightarrow> Hash \<Rightarrow> stateObject" where
  "setState self key value = self\<lparr>dirtyStorage := (dirtyStorage self)(key \<mapsto> value)\<rparr>"

definition setBalance :: "stateObject \<Rightarrow> int \<Rightarrow> stateObject" where
  "setBalance self amount = self\<lparr>data := (data self)\<lparr>Balance := amount\<rparr>\<rparr>"

definition setNonce :: "stateObject \<Rightarrow> uint64 \<Rightarrow> stateObject" where
  "setNonce self nonce = self\<lparr>data := (data self)\<lparr>Nonce := nonce\<rparr>\<rparr>"

definition setCode :: "stateObject \<Rightarrow> Hash \<Rightarrow> bytes option \<Rightarrow> stateObject" where
  "setCode self codeHash code =
     self\<lparr>so_code := code, data := (data self)\<lparr>CodeHash := codeHash\<rparr>, dirtyCode := True\<rparr>"

text \<open>\<^verbatim>\<open>Code\<close> returns nil for an account without code; the option keeps nil apart from a blob.\<close>

definition so_Code :: "Backend \<Rightarrow> stateObject \<Rightarrow> bytes option \<times> stateObject" where
  "so_Code db self =
     (case so_code self of
        Some code \<Rightarrow> (Some code, self)
      | None \<Rightarrow>
          if CodeHash (data self) = emptyCodeHash db then (None, self)
          else
            (case ContractCode db (CodeHash (data self)) of
               Some code \<Rightarrow> (Some code, self\<lparr>so_code := Some code\<rparr>)
             | None \<Rightarrow> (None, so_setError self (Some CodeNotFound))))"

text \<open>
  \<^verbatim>\<open>updateTrie\<close> ranges over the map \<^verbatim>\<open>dirtyStorage\<close>, whose iteration order Go leaves open:
  \<open>order\<close> lists the keys in the order of the iteration.
\<close>

definition updateTrie_key :: "StorageTrie \<times> stateObject \<Rightarrow> Hash \<Rightarrow> StorageTrie \<times> stateObject" where
  "updateTrie_key st key =
     (let (tr, self) = st in
      case dirtyStorage self key of
        None \<Rightarrow> (tr, self)
      | Some value \<Rightarrow>
          let self = self\<lparr>dirtyStorage := (dirtyStorage self)(key := None)\<rparr> in
          if value = (case originStorage self key of None \<Rightarrow> 0 | Some v \<Rightarrow> v) then (tr, self)
          else
            let self = self\<lparr>originStorage := (originStorage self)(key \<mapsto> value)\<rparr>;
                (err, tr) = (if value = 0 then TryDelete tr key else TryUpdate tr key value)
            in (tr, so_setError self err))"

definition updateTrie :: "Backend \<Rightarrow> Hash list \<Rightarrow> stateObject \<Rightarrow> StorageTrie \<times> stateObject" where
  "updateTrie db order self =
     (let (tr, self) = foldl updateTrie_key (getTrie db self) order
      in (tr, self\<lparr>so_trie := Some tr\<rparr>))"

definition updateRoot :: "Backend \<Rightarrow> Hash list \<Rightarrow> stateObject \<Rightarrow> stateObject" where
  "updateRoot db order self =
     (let (tr, self) = updateTrie db order self
      in self\<lparr>data := (data self)\<lparr>Root := StorageRoot db tr\<rparr>\<rparr>)"

definition deepCopy :: "stateObject \<Rightarrow> stateObject" where
  "deepCopy self =
     (let stateObject = newObject (address self) (data self)
      in stateObject
           \<lparr>so_trie := so_trie self, so_code := so_code self,
            dirtyStorage := dirtyStorage self, originStorage := originStorage self,
            suicided := suicided self, dirtyCode := dirtyCode self, deleted := deleted self\<rparr>)"

section \<open>What an object answers\<close>

text \<open>
  The pure readings of an object: the committed and the current value of a slot and the
  code, as \<^verbatim>\<open>GetCommittedState\<close>, \<^verbatim>\<open>GetState\<close> and \<^verbatim>\<open>Code\<close> return them, without the cache effects.
\<close>

definition obj_trie :: "Backend \<Rightarrow> stateObject \<Rightarrow> StorageTrie" where
  "obj_trie db c = fst (getTrie db c)"

definition committed :: "Backend \<Rightarrow> stateObject \<Rightarrow> Hash \<Rightarrow> Hash" where
  "committed db o' key = fst (so_GetCommittedState db o' key)"

definition current :: "Backend \<Rightarrow> stateObject \<Rightarrow> Hash \<Rightarrow> Hash" where
  "current db o' key = fst (so_GetState db o' key)"

definition code_of :: "Backend \<Rightarrow> stateObject \<Rightarrow> bytes" where
  "code_of db o' = (case fst (so_Code db o') of None \<Rightarrow> [] | Some c \<Rightarrow> c)"

record acctview =
  v_nonce :: uint64
  v_balance :: int
  v_codeHash :: Hash
  v_code :: bytes
  v_storage :: "Hash \<Rightarrow> Hash"
  v_committed :: "Hash \<Rightarrow> Hash"
  v_suicided :: bool

definition oview :: "Backend \<Rightarrow> stateObject \<Rightarrow> acctview" where
  "oview db o' =
     \<lparr>v_nonce = Nonce (data o'), v_balance = Balance (data o'), v_codeHash = CodeHash (data o'),
      v_code = code_of db o', v_storage = current db o', v_committed = committed db o',
      v_suicided = suicided o'\<rparr>"

definition code_value :: "Backend \<Rightarrow> Hash \<Rightarrow> bytes option \<Rightarrow> bytes" where
  "code_value db h c =
     (case c of
        Some code \<Rightarrow> code
      | None \<Rightarrow> if h = emptyCodeHash db then []
                else (case ContractCode db h of None \<Rightarrow> [] | Some code \<Rightarrow> code))"

section \<open>Lemmas: readers keep the view, writers change one field of it\<close>

named_theorems so_defs "definitions of the state object's methods"

lemmas [so_defs] =
  so_setError_def getTrie_def so_GetCommittedState_def so_GetState_def so_Code_def
  setState_def setBalance_def setNonce_def setCode_def markSuicided_def

lemma code_of_eq: "code_of db o' = code_value db (CodeHash (data o')) (so_code o')"
  by (auto simp: code_of_def so_Code_def code_value_def split: option.splits)

lemma code_value_so_Code: "code_value db (CodeHash (data o')) (fst (so_Code db o')) = code_of db o'"
  by (auto simp: code_of_def so_Code_def code_value_def split: option.splits)

lemma obj_trie_eq:
  "obj_trie db c =
     (case so_trie c of Some tr \<Rightarrow> tr
      | None \<Rightarrow> (case OpenStorageTrie db (Root (data c)) of Some tr \<Rightarrow> tr | None \<Rightarrow> emptyTrie))"
  by (simp add: obj_trie_def getTrie_def split: option.splits)

lemma committed_eq:
  "committed db c key =
     (case originStorage c key of Some v \<Rightarrow> v
      | None \<Rightarrow> (case TryGet (obj_trie db c) key of Inr (Some v) \<Rightarrow> v | _ \<Rightarrow> 0))"
  by (auto simp: committed_def so_GetCommittedState_def obj_trie_def
      split: option.splits sum.splits prod.splits)

lemma current_eq:
  "current db c key = (case dirtyStorage c key of Some v \<Rightarrow> v | None \<Rightarrow> committed db c key)"
  by (simp add: current_def so_GetState_def committed_def split: option.splits)

lemma getTrie_frame [simp]:
  "address (snd (getTrie db c)) = address c" "data (snd (getTrie db c)) = data c"
  "so_code (snd (getTrie db c)) = so_code c" "originStorage (snd (getTrie db c)) = originStorage c"
  "dirtyStorage (snd (getTrie db c)) = dirtyStorage c" "suicided (snd (getTrie db c)) = suicided c"
  "deleted (snd (getTrie db c)) = deleted c" "obj_trie db (snd (getTrie db c)) = obj_trie db c"
  by (auto simp: getTrie_def so_setError_def obj_trie_eq split: option.splits)

lemma so_setError_frame [simp]:
  "address (so_setError c e) = address c" "data (so_setError c e) = data c"
  "so_code (so_setError c e) = so_code c" "originStorage (so_setError c e) = originStorage c"
  "dirtyStorage (so_setError c e) = dirtyStorage c" "suicided (so_setError c e) = suicided c"
  "deleted (so_setError c e) = deleted c" "so_trie (so_setError c e) = so_trie c"
  by (simp_all add: so_setError_def)

lemma obj_trie_setError [simp]: "obj_trie db (so_setError c e) = obj_trie db c"
  by (simp add: obj_trie_eq cong: option.case_cong)

lemma so_GetCommittedState_frame [simp]:
  "address (snd (so_GetCommittedState db c k)) = address c"
  "data (snd (so_GetCommittedState db c k)) = data c"
  "so_code (snd (so_GetCommittedState db c k)) = so_code c"
  "dirtyStorage (snd (so_GetCommittedState db c k)) = dirtyStorage c"
  "suicided (snd (so_GetCommittedState db c k)) = suicided c"
  "deleted (snd (so_GetCommittedState db c k)) = deleted c"
  by (auto simp: so_GetCommittedState_def Let_def case_prod_beta split: option.splits sum.splits)

lemma obj_trie_originStorage [simp]: "obj_trie db (c\<lparr>originStorage := m\<rparr>) = obj_trie db c"
  by (simp add: obj_trie_eq cong: option.case_cong)

lemma obj_trie_GetCommittedState [simp]:
  "obj_trie db (snd (so_GetCommittedState db c k)) = obj_trie db c"
  by (auto simp: so_GetCommittedState_def Let_def case_prod_beta split: option.splits sum.splits)

lemma committed_GetCommittedState [simp]:
  "committed db (snd (so_GetCommittedState db c k)) = committed db c"
proof
  fix k'
  show "committed db (snd (so_GetCommittedState db c k)) k' = committed db c k'"
    unfolding committed_eq [of db _ k'] obj_trie_GetCommittedState
    by (auto simp: so_GetCommittedState_def Let_def case_prod_beta obj_trie_def [symmetric]
        split: option.splits sum.splits)
qed

lemma oview_GetCommittedState [simp]: "oview db (snd (so_GetCommittedState db c k)) = oview db c"
  by (simp add: oview_def code_of_eq current_eq fun_eq_iff cong: option.case_cong)

lemma so_GetState_frame [simp]:
  "oview db (snd (so_GetState db c k)) = oview db c"
  "address (snd (so_GetState db c k)) = address c"
  "deleted (snd (so_GetState db c k)) = deleted c"
  by (auto simp: so_GetState_def split: option.splits)

lemma so_Code_frame [simp]:
  "address (snd (so_Code db c)) = address c" "data (snd (so_Code db c)) = data c"
  "originStorage (snd (so_Code db c)) = originStorage c"
  "dirtyStorage (snd (so_Code db c)) = dirtyStorage c" "suicided (snd (so_Code db c)) = suicided c"
  "deleted (snd (so_Code db c)) = deleted c" "so_trie (snd (so_Code db c)) = so_trie c"
  by (auto simp: so_Code_def split: option.splits)

lemma oview_Code [simp]: "oview db (snd (so_Code db c)) = oview db c"
proof -
  have "code_of db (snd (so_Code db c)) = code_of db c"
    by (auto simp: code_of_def so_Code_def so_setError_def split: option.splits)
  then show ?thesis
    by (simp add: oview_def committed_eq current_eq obj_trie_eq fun_eq_iff
      cong: option.case_cong)
qed

lemma setBalance_view [simp]:
  "oview db (setBalance c b) = (oview db c)\<lparr>v_balance := b\<rparr>"
  "address (setBalance c b) = address c" "deleted (setBalance c b) = deleted c"
  by (simp_all add: setBalance_def oview_def code_of_eq current_eq committed_eq obj_trie_eq fun_eq_iff
      cong: option.case_cong)

lemma setNonce_view [simp]:
  "oview db (setNonce c n) = (oview db c)\<lparr>v_nonce := n\<rparr>"
  "address (setNonce c n) = address c" "deleted (setNonce c n) = deleted c"
  by (simp_all add: setNonce_def oview_def code_of_eq current_eq committed_eq obj_trie_eq fun_eq_iff
      cong: option.case_cong)

lemma setCode_view [simp]:
  "oview db (setCode c h code) = (oview db c)\<lparr>v_codeHash := h, v_code := code_value db h code\<rparr>"
  "address (setCode c h code) = address c" "deleted (setCode c h code) = deleted c"
  by (simp_all add: setCode_def oview_def code_of_eq current_eq committed_eq obj_trie_eq fun_eq_iff
      cong: option.case_cong)

lemma setState_view [simp]:
  "oview db (setState c k v) = (oview db c)\<lparr>v_storage := (v_storage (oview db c))(k := v)\<rparr>"
  "address (setState c k v) = address c" "deleted (setState c k v) = deleted c"
  by (simp_all add: setState_def oview_def code_of_eq current_eq committed_eq obj_trie_eq fun_eq_iff
      cong: option.case_cong)

lemma suicided_view:
  "oview db (c\<lparr>suicided := b\<rparr>) = (oview db c)\<lparr>v_suicided := b\<rparr>"
  by (simp add: oview_def code_of_eq current_eq committed_eq obj_trie_eq fun_eq_iff
      cong: option.case_cong)

lemma markSuicided_view [simp]:
  "oview db (markSuicided c) = (oview db c)\<lparr>v_suicided := True\<rparr>"
  "address (markSuicided c) = address c" "deleted (markSuicided c) = deleted c"
  by (simp_all add: markSuicided_def suicided_view)

lemma newObject_fields [simp]:
  "address (newObject a acc) = a" "deleted (newObject a acc) = False"
  "data (newObject a acc) = acc" "suicided (newObject a acc) = False"
  by (simp_all add: newObject_def)

lemma oview_fields [simp]:
  "v_nonce (oview db c) = Nonce (data c)" "v_balance (oview db c) = Balance (data c)"
  "v_codeHash (oview db c) = CodeHash (data c)" "v_code (oview db c) = code_of db c"
  "v_storage (oview db c) = current db c" "v_committed (oview db c) = committed db c"
  "v_suicided (oview db c) = suicided c"
  by (simp_all add: oview_def)

lemma deepCopy_view [simp]: "oview db (deepCopy c) = oview db c"
  by (simp add: deepCopy_def newObject_def oview_def code_of_eq current_eq committed_eq obj_trie_eq
      Let_def fun_eq_iff cong: option.case_cong)

end
