(* ===== verification/State_DB.thy ===== *)
theory State_DB
  imports State_Object
begin

text \<open>
  \<^verbatim>\<open>core/state/statedb.go\<close> and \<^verbatim>\<open>core/state/journal.go\<close>: the world state that transactions
  modify, with its journal of changes, snapshots and reverts.

  The map of live objects holds values instead of pointers: a method of an object that the
  code calls through its pointer is followed in the model by \<open>setStateObject\<close>, which stores
  the changed object under its address.  An object that \<^verbatim>\<open>createObject\<close> replaces is
  reachable only from its journal entry and no longer changes, so holding it by value there
  is exact.  Methods that may panic return an option.

  The account trie is seen through \<^theory_text>\<open>Trie_Interface\<close>: the bytes it stores are the RLP
  encoding of \<^verbatim>\<open>Account\<close>, which the model keeps decoded.
\<close>

section \<open>Data\<close>

record Log =
  log_Address :: Address
  log_Topics :: "Hash list"
  log_Data :: bytes
  log_BlockNumber :: uint64
  log_TxHash :: Hash
  log_TxIndex :: nat
  log_BlockHash :: Hash
  log_Index :: uint64

datatype journalEntry =
    createObjectChange Address
  | resetObjectChange stateObject
  | suicideChange Address bool int
  | balanceChange Address int
  | nonceChange Address uint64
  | storageChange Address Hash Hash
  | codeChange Address "bytes option" Hash
  | refundChange uint64
  | addLogChange Hash
  | addPreimageChange Hash
  | touchChange Address

record journal =
  entries :: "journalEntry list"
  dirties :: "Address \<rightharpoonup> int"

record revision =
  rev_id :: nat
  journalIndex :: nat

record StateDB =
  db :: Backend
  acct_trie :: "(Address, Account) Trie"
  stateObjects :: "Address \<rightharpoonup> stateObject"
  stateObjectsDirty :: "Address \<Rightarrow> bool"
  dbErr :: "DbError option"
  refund :: uint64
  thash :: Hash
  bhash :: Hash
  txIndex :: nat
  logs :: "Hash \<rightharpoonup> Log list"
  logSize :: uint64
  preimages :: "Hash \<rightharpoonup> bytes"
  journal :: journal
  validRevisions :: "revision list"
  nextRevisionId :: nat

section \<open>The journal\<close>

definition newJournal :: journal where
  "newJournal = \<lparr>entries = [], dirties = Map.empty\<rparr>"

fun dirtied :: "journalEntry \<Rightarrow> Address option" where
  "dirtied (createObjectChange account) = Some account"
| "dirtied (resetObjectChange prev) = None"
| "dirtied (suicideChange account prev prevbalance) = Some account"
| "dirtied (balanceChange account prev) = Some account"
| "dirtied (nonceChange account prev) = Some account"
| "dirtied (storageChange account key prevalue) = Some account"
| "dirtied (codeChange account prevcode prevhash) = Some account"
| "dirtied (refundChange prev) = None"
| "dirtied (addLogChange txhash) = None"
| "dirtied (addPreimageChange hash) = None"
| "dirtied (touchChange account) = Some account"

definition dirty_count :: "(Address \<rightharpoonup> int) \<Rightarrow> Address \<Rightarrow> int" where
  "dirty_count m addr = (case m addr of None \<Rightarrow> 0 | Some n \<Rightarrow> n)"

definition journal_dirty :: "journal \<Rightarrow> Address \<Rightarrow> journal" where
  "journal_dirty j addr = j\<lparr>dirties := (dirties j)(addr \<mapsto> dirty_count (dirties j) addr + 1)\<rparr>"

definition journal_append :: "journal \<Rightarrow> journalEntry \<Rightarrow> journal" where
  "journal_append j entry =
     (let j = j\<lparr>entries := entries j @ [entry]\<rparr>
      in case dirtied entry of None \<Rightarrow> j | Some addr \<Rightarrow> journal_dirty j addr)"

definition journal_length :: "journal \<Rightarrow> nat" where
  "journal_length j = length (entries j)"

text \<open>Dropping the dirty tracking of a reverted entry.\<close>

definition journal_undirty :: "journal \<Rightarrow> journalEntry \<Rightarrow> journal" where
  "journal_undirty j entry =
     (case dirtied entry of
        None \<Rightarrow> j
      | Some addr \<Rightarrow>
          let n = dirty_count (dirties j) addr - 1
          in j\<lparr>dirties := (if n = 0 then (dirties j)(addr := None) else (dirties j)(addr \<mapsto> n))\<rparr>)"

definition journal_add :: "StateDB \<Rightarrow> journalEntry \<Rightarrow> StateDB" where
  "journal_add s entry = s\<lparr>journal := journal_append (journal s) entry\<rparr>"

section \<open>Objects of the state\<close>

definition New :: "Backend \<Rightarrow> (Address, Account) Trie \<Rightarrow> StateDB" where
  "New d tr =
     \<lparr>db = d, acct_trie = tr, stateObjects = Map.empty, stateObjectsDirty = (\<lambda>_. False),
      dbErr = None, refund = 0, thash = 0, bhash = 0, txIndex = 0, logs = Map.empty, logSize = 0,
      preimages = Map.empty, journal = newJournal, validRevisions = [], nextRevisionId = 0\<rparr>"

definition setError :: "StateDB \<Rightarrow> DbError option \<Rightarrow> StateDB" where
  "setError self err = (if dbErr self = None then self\<lparr>dbErr := err\<rparr> else self)"

definition setStateObject :: "StateDB \<Rightarrow> stateObject \<Rightarrow> StateDB" where
  "setStateObject self object = self\<lparr>stateObjects := (stateObjects self)(address object \<mapsto> object)\<rparr>"

definition getStateObject :: "StateDB \<Rightarrow> Address \<Rightarrow> stateObject option \<times> StateDB" where
  "getStateObject self addr =
     (case stateObjects self addr of
        Some obj \<Rightarrow> (if deleted obj then None else Some obj, self)
      | None \<Rightarrow>
          (case TryGet (acct_trie self) addr of
             Inl err \<Rightarrow> (None, setError self (Some err))
           | Inr None \<Rightarrow> (None, setError self None)
           | Inr (Some acc) \<Rightarrow>
               let obj = newObject addr acc in (Some obj, setStateObject self obj)))"

definition createObject :: "StateDB \<Rightarrow> Address \<Rightarrow> (stateObject \<times> stateObject option) \<times> StateDB" where
  "createObject self addr =
     (let (prev, self) = getStateObject self addr;
          newobj = setNonce (newObject addr (emptyAccount (db self))) 0;
          self = (case prev of
                    None \<Rightarrow> journal_add self (createObjectChange addr)
                  | Some p \<Rightarrow> journal_add self (resetObjectChange p))
      in ((newobj, prev), setStateObject self newobj))"

definition GetOrNewStateObject :: "StateDB \<Rightarrow> Address \<Rightarrow> stateObject \<times> StateDB" where
  "GetOrNewStateObject self addr =
     (case getStateObject self addr of
        (Some obj, self) \<Rightarrow>
          if deleted obj then (let ((n, _), self) = createObject self addr in (n, self))
          else (obj, self)
      | (None, self) \<Rightarrow> (let ((n, _), self) = createObject self addr in (n, self)))"

definition CreateAccount :: "StateDB \<Rightarrow> Address \<Rightarrow> StateDB" where
  "CreateAccount self addr =
     (let ((new, prev), self) = createObject self addr
      in case prev of
           None \<Rightarrow> self
         | Some p \<Rightarrow> setStateObject self (setBalance new (Balance (data p))))"

section \<open>Methods of an object that journal their change\<close>

definition ripemd :: Address where "ripemd = 3"

definition touch :: "StateDB \<Rightarrow> stateObject \<Rightarrow> StateDB" where
  "touch s c =
     (let s = journal_add s (touchChange (address c))
      in if address c = ripemd then s\<lparr>journal := journal_dirty (journal s) (address c)\<rparr> else s)"

definition so_SetBalance :: "StateDB \<Rightarrow> stateObject \<Rightarrow> int \<Rightarrow> StateDB" where
  "so_SetBalance s self amount =
     setStateObject (journal_add s (balanceChange (address self) (Balance (data self))))
       (setBalance self amount)"

definition so_AddBalance :: "StateDB \<Rightarrow> stateObject \<Rightarrow> int \<Rightarrow> StateDB" where
  "so_AddBalance s c amount =
     (if amount = 0 then (if so_empty (db s) c then touch s c else s)
      else so_SetBalance s c (Balance (data c) + amount))"

definition so_SubBalance :: "StateDB \<Rightarrow> stateObject \<Rightarrow> int \<Rightarrow> StateDB" where
  "so_SubBalance s c amount =
     (if amount = 0 then s else so_SetBalance s c (Balance (data c) - amount))"

definition so_SetNonce :: "StateDB \<Rightarrow> stateObject \<Rightarrow> uint64 \<Rightarrow> StateDB" where
  "so_SetNonce s self nonce =
     setStateObject (journal_add s (nonceChange (address self) (Nonce (data self)))) (setNonce self nonce)"

definition so_SetCode :: "StateDB \<Rightarrow> stateObject \<Rightarrow> Hash \<Rightarrow> bytes option \<Rightarrow> StateDB" where
  "so_SetCode s self codeHash code =
     (let (prevcode, self) = so_Code (db s) self
      in setStateObject
           (journal_add s (codeChange (address self) prevcode (CodeHash (data self))))
           (setCode self codeHash code))"

definition so_SetState :: "StateDB \<Rightarrow> stateObject \<Rightarrow> Hash \<Rightarrow> Hash \<Rightarrow> StateDB" where
  "so_SetState s self key value =
     (let (prev, self) = so_GetState (db s) self key
      in if prev = value then setStateObject s self
         else setStateObject (journal_add s (storageChange (address self) key prev))
                (setState self key value))"

section \<open>Readers of the state\<close>

definition Exist :: "StateDB \<Rightarrow> Address \<Rightarrow> bool \<times> StateDB" where
  "Exist self addr = (let (so, self) = getStateObject self addr in (so \<noteq> None, self))"

definition Empty :: "StateDB \<Rightarrow> Address \<Rightarrow> bool \<times> StateDB" where
  "Empty self addr =
     (let (so, self) = getStateObject self addr
      in (case so of None \<Rightarrow> True | Some so \<Rightarrow> so_empty (db self) so, self))"

definition GetBalance :: "StateDB \<Rightarrow> Address \<Rightarrow> int \<times> StateDB" where
  "GetBalance self addr =
     (let (so, self) = getStateObject self addr
      in (case so of None \<Rightarrow> 0 | Some so \<Rightarrow> Balance (data so), self))"

definition GetNonce :: "StateDB \<Rightarrow> Address \<Rightarrow> uint64 \<times> StateDB" where
  "GetNonce self addr =
     (let (so, self) = getStateObject self addr
      in (case so of None \<Rightarrow> 0 | Some so \<Rightarrow> Nonce (data so), self))"

definition GetCode :: "StateDB \<Rightarrow> Address \<Rightarrow> bytes \<times> StateDB" where
  "GetCode self addr =
     (let (so, self) = getStateObject self addr
      in case so of
           None \<Rightarrow> ([], self)
         | Some so \<Rightarrow>
             let (code, so) = so_Code (db self) so
             in (case code of None \<Rightarrow> [] | Some c \<Rightarrow> c, setStateObject self so))"

definition GetCodeSize :: "StateDB \<Rightarrow> Address \<Rightarrow> nat \<times> StateDB" where
  "GetCodeSize self addr =
     (let (so, self) = getStateObject self addr
      in case so of
           None \<Rightarrow> (0, self)
         | Some so \<Rightarrow>
             (case so_code so of
                Some code \<Rightarrow> (length code, self)
              | None \<Rightarrow>
                  (case ContractCode (db self) (CodeHash (data so)) of
                     Some code \<Rightarrow> (length code, self)
                   | None \<Rightarrow> (0, setError self (Some CodeNotFound)))))"

definition GetCodeHash :: "StateDB \<Rightarrow> Address \<Rightarrow> Hash \<times> StateDB" where
  "GetCodeHash self addr =
     (let (so, self) = getStateObject self addr
      in (case so of None \<Rightarrow> 0 | Some so \<Rightarrow> CodeHash (data so), self))"

definition GetState :: "StateDB \<Rightarrow> Address \<Rightarrow> Hash \<Rightarrow> Hash \<times> StateDB" where
  "GetState self addr hash =
     (let (so, self) = getStateObject self addr
      in case so of
           None \<Rightarrow> (0, self)
         | Some so \<Rightarrow> let (v, so) = so_GetState (db self) so hash in (v, setStateObject self so))"

definition GetCommittedState :: "StateDB \<Rightarrow> Address \<Rightarrow> Hash \<Rightarrow> Hash \<times> StateDB" where
  "GetCommittedState self addr hash =
     (let (so, self) = getStateObject self addr
      in case so of
           None \<Rightarrow> (0, self)
         | Some so \<Rightarrow> let (v, so) = so_GetCommittedState (db self) so hash in (v, setStateObject self so))"

definition HasSuicided :: "StateDB \<Rightarrow> Address \<Rightarrow> bool \<times> StateDB" where
  "HasSuicided self addr =
     (let (so, self) = getStateObject self addr
      in (case so of None \<Rightarrow> False | Some so \<Rightarrow> suicided so, self))"

definition GetRefund :: "StateDB \<Rightarrow> uint64" where
  "GetRefund self = refund self"

definition GetLogs :: "StateDB \<Rightarrow> Hash \<Rightarrow> Log list" where
  "GetLogs self hash = (case logs self hash of None \<Rightarrow> [] | Some ls \<Rightarrow> ls)"

section \<open>Writers of the state\<close>

definition AddBalance :: "StateDB \<Rightarrow> Address \<Rightarrow> int \<Rightarrow> StateDB" where
  "AddBalance self addr amount =
     (let (so, self) = GetOrNewStateObject self addr in so_AddBalance self so amount)"

definition SubBalance :: "StateDB \<Rightarrow> Address \<Rightarrow> int \<Rightarrow> StateDB" where
  "SubBalance self addr amount =
     (let (so, self) = GetOrNewStateObject self addr in so_SubBalance self so amount)"

definition SetBalance :: "StateDB \<Rightarrow> Address \<Rightarrow> int \<Rightarrow> StateDB" where
  "SetBalance self addr amount =
     (let (so, self) = GetOrNewStateObject self addr in so_SetBalance self so amount)"

definition SetNonce :: "StateDB \<Rightarrow> Address \<Rightarrow> uint64 \<Rightarrow> StateDB" where
  "SetNonce self addr nonce =
     (let (so, self) = GetOrNewStateObject self addr in so_SetNonce self so nonce)"

text \<open>A nil code slice (here: an empty one) stays nil in the object's \<^verbatim>\<open>code\<close> field.\<close>

definition SetCode :: "StateDB \<Rightarrow> Address \<Rightarrow> bytes \<Rightarrow> StateDB" where
  "SetCode self addr code =
     (let (so, self) = GetOrNewStateObject self addr
      in so_SetCode self so (Keccak256Hash (db self) code) (if code = [] then None else Some code))"

definition SetState :: "StateDB \<Rightarrow> Address \<Rightarrow> Hash \<Rightarrow> Hash \<Rightarrow> StateDB" where
  "SetState self addr key value =
     (let (so, self) = GetOrNewStateObject self addr in so_SetState self so key value)"

definition Suicide :: "StateDB \<Rightarrow> Address \<Rightarrow> bool \<times> StateDB" where
  "Suicide self addr =
     (let (so, self) = getStateObject self addr
      in case so of
           None \<Rightarrow> (False, self)
         | Some so \<Rightarrow>
             (True,
              setStateObject
                (journal_add self (suicideChange addr (suicided so) (Balance (data so))))
                (setBalance (markSuicided so) 0)))"

definition AddLog :: "StateDB \<Rightarrow> Log \<Rightarrow> StateDB" where
  "AddLog self l =
     (let self = journal_add self (addLogChange (thash self));
          l = l\<lparr>log_TxHash := thash self, log_BlockHash := bhash self,
                log_TxIndex := txIndex self, log_Index := logSize self\<rparr>
      in self\<lparr>logs := (logs self)(thash self \<mapsto> GetLogs self (thash self) @ [l]),
              logSize := logSize self + 1\<rparr>)"

definition AddPreimage :: "StateDB \<Rightarrow> Hash \<Rightarrow> bytes \<Rightarrow> StateDB" where
  "AddPreimage self hash preimage =
     (case preimages self hash of
        Some _ \<Rightarrow> self
      | None \<Rightarrow>
          let self = journal_add self (addPreimageChange hash)
          in self\<lparr>preimages := (preimages self)(hash \<mapsto> preimage)\<rparr>)"

definition AddRefund :: "StateDB \<Rightarrow> uint64 \<Rightarrow> StateDB" where
  "AddRefund self gas =
     (let self = journal_add self (refundChange (refund self)) in self\<lparr>refund := refund self + gas\<rparr>)"

definition SubRefund :: "StateDB \<Rightarrow> uint64 \<Rightarrow> StateDB option" where
  "SubRefund self gas =
     (let self = journal_add self (refundChange (refund self))
      in if gas > refund self then None else Some (self\<lparr>refund := refund self - gas\<rparr>))"

definition Prepare :: "StateDB \<Rightarrow> Hash \<Rightarrow> Hash \<Rightarrow> nat \<Rightarrow> StateDB" where
  "Prepare self th bh ti = self\<lparr>thash := th, bhash := bh, txIndex := ti\<rparr>"

section \<open>Snapshots\<close>

definition modify_object :: "StateDB \<Rightarrow> Address \<Rightarrow> (stateObject \<Rightarrow> stateObject) \<Rightarrow> StateDB option" where
  "modify_object s addr f =
     (case getStateObject s addr of
        (None, s) \<Rightarrow> None
      | (Some obj, s) \<Rightarrow> Some (setStateObject s (f obj)))"

fun revert :: "journalEntry \<Rightarrow> StateDB \<Rightarrow> StateDB option" where
  "revert (createObjectChange account) s =
     Some (s\<lparr>stateObjects := (stateObjects s)(account := None),
             stateObjectsDirty := (stateObjectsDirty s)(account := False)\<rparr>)"
| "revert (resetObjectChange prev) s = Some (setStateObject s prev)"
| "revert (suicideChange account prev prevbalance) s =
     (case getStateObject s account of
        (None, s) \<Rightarrow> Some s
      | (Some obj, s) \<Rightarrow> Some (setStateObject s (setBalance (obj\<lparr>suicided := prev\<rparr>) prevbalance)))"
| "revert (touchChange account) s = Some s"
| "revert (balanceChange account prev) s = modify_object s account (\<lambda>obj. setBalance obj prev)"
| "revert (nonceChange account prev) s = modify_object s account (\<lambda>obj. setNonce obj prev)"
| "revert (codeChange account prevcode prevhash) s =
     modify_object s account (\<lambda>obj. setCode obj prevhash prevcode)"
| "revert (storageChange account key prevalue) s =
     modify_object s account (\<lambda>obj. setState obj key prevalue)"
| "revert (refundChange prev) s = Some (s\<lparr>refund := prev\<rparr>)"
| "revert (addLogChange txhash) s =
     (let ls = GetLogs s txhash in
      if ls = [] then None
      else Some (s\<lparr>logs := (if length ls = 1 then (logs s)(txhash := None)
                            else (logs s)(txhash \<mapsto> take (length ls - 1) ls)),
                   logSize := logSize s - 1\<rparr>))"
| "revert (addPreimageChange hash) s = Some (s\<lparr>preimages := (preimages s)(hash := None)\<rparr>)"

text \<open>The loop of \<^verbatim>\<open>journal.revert\<close>, over the entries from the newest down.\<close>

fun revert_entries :: "journalEntry list \<Rightarrow> StateDB \<Rightarrow> StateDB option" where
  "revert_entries [] s = Some s"
| "revert_entries (e # es) s =
     do { s \<leftarrow> revert e s;
          revert_entries es (s\<lparr>journal := journal_undirty (journal s) e\<rparr>) }"

definition journal_revert :: "StateDB \<Rightarrow> nat \<Rightarrow> StateDB option" where
  "journal_revert s snapshot =
     do { s \<leftarrow> revert_entries (rev (drop snapshot (entries (journal s)))) s;
          Some (s\<lparr>journal := (journal s)\<lparr>entries := take snapshot (entries (journal s))\<rparr>\<rparr>) }"

definition Snapshot :: "StateDB \<Rightarrow> nat \<times> StateDB" where
  "Snapshot self =
     (let id = nextRevisionId self
      in (id, self\<lparr>nextRevisionId := nextRevisionId self + 1,
                   validRevisions := validRevisions self @
                     [\<lparr>rev_id = id, journalIndex = journal_length (journal self)\<rparr>]\<rparr>))"

definition RevertToSnapshot :: "StateDB \<Rightarrow> nat \<Rightarrow> StateDB option" where
  "RevertToSnapshot self revid =
     (let idx = sort_Search (length (validRevisions self))
                  (\<lambda>i. i < length (validRevisions self) \<longrightarrow> rev_id (validRevisions self ! i) \<ge> revid)
      in if idx = length (validRevisions self) \<or> rev_id (validRevisions self ! idx) \<noteq> revid then None
         else
           let snapshot = journalIndex (validRevisions self ! idx) in
           do { self \<leftarrow> journal_revert self snapshot;
                Some (self\<lparr>validRevisions := take idx (validRevisions self)\<rparr>) })"

section \<open>End of a transaction\<close>

definition clearJournalAndRefund :: "StateDB \<Rightarrow> StateDB" where
  "clearJournalAndRefund s = s\<lparr>journal := newJournal, validRevisions := [], refund := 0\<rparr>"

definition updateStateObject :: "StateDB \<Rightarrow> stateObject \<Rightarrow> StateDB" where
  "updateStateObject self so =
     (let (err, tr) = TryUpdate (acct_trie self) (address so) (data so)
      in setError (self\<lparr>acct_trie := tr\<rparr>) err)"

definition deleteStateObject :: "StateDB \<Rightarrow> stateObject \<Rightarrow> StateDB" where
  "deleteStateObject self so =
     (let self = setStateObject self (so\<lparr>deleted := True\<rparr>);
          (err, tr) = TryDelete (acct_trie self) (address so)
      in setError (self\<lparr>acct_trie := tr\<rparr>) err)"

text \<open>
  \<^verbatim>\<open>Finalise\<close> ranges over the map \<^verbatim>\<open>journal.dirties\<close>; \<open>order\<close> lists its addresses in the order
  of the iteration, each with the order in which \<^verbatim>\<open>updateTrie\<close> visits its dirty slots.
\<close>

definition Finalise_addr :: "bool \<Rightarrow> StateDB \<Rightarrow> Address \<times> Hash list \<Rightarrow> StateDB" where
  "Finalise_addr deleteEmptyObjects s ak =
     (let (addr, keys) = ak in
      case stateObjects s addr of
        None \<Rightarrow> s
      | Some so \<Rightarrow>
          let s = (if suicided so \<or> deleteEmptyObjects \<and> so_empty (db s) so then deleteStateObject s so
                   else let so = updateRoot (db s) keys so in updateStateObject (setStateObject s so) so)
          in s\<lparr>stateObjectsDirty := (stateObjectsDirty s)(addr := True)\<rparr>)"

definition Finalise :: "bool \<Rightarrow> (Address \<times> Hash list) list \<Rightarrow> StateDB \<Rightarrow> StateDB" where
  "Finalise deleteEmptyObjects order s =
     clearJournalAndRefund (foldl (Finalise_addr deleteEmptyObjects) s order)"

definition Reset :: "StateDB \<Rightarrow> (Address, Account) Trie option \<Rightarrow> DbError + StateDB" where
  "Reset self opened =
     (case opened of
        None \<Rightarrow> Inl MissingNode
      | Some tr \<Rightarrow>
          Inr (clearJournalAndRefund
                 (self\<lparr>acct_trie := tr, stateObjects := Map.empty, stateObjectsDirty := (\<lambda>_. False),
                       thash := 0, bhash := 0, txIndex := 0, logs := Map.empty, logSize := 0,
                       preimages := Map.empty\<rparr>)))"

end
