(* ===== verification/State_Refine.thy ===== *)
theory State_Refine
  imports State_DB
begin

text \<open>
  What \<^verbatim>\<open>StateDB\<close> promises to its clients.

  The abstraction \<open>world\<close> of a state forgets every cache: an account is the live object if
  there is one and the account of the trie otherwise.  Every operation of the interface
  has a specification on the world, and a snapshot is specified by copying the whole
  world.  The theory shows that the journal implements this: undoing the entries that an
  operation appended leads back to the world before it (\<open>evolves\<close>), so a state refines the
  machine that keeps copies (\<open>simulates\<close>), with the same answers and the same panics.
\<close>

section \<open>The world\<close>

record World =
  w_accts :: "Address \<rightharpoonup> acctview"
  w_refund :: uint64
  w_logs :: "Hash \<Rightarrow> Log list"
  w_logSize :: uint64
  w_preimages :: "Hash \<rightharpoonup> bytes"
  w_thash :: Hash
  w_bhash :: Hash
  w_txIndex :: nat

definition base :: "StateDB \<Rightarrow> Address \<Rightarrow> acctview option" where
  "base s a =
     (case TryGet (acct_trie s) a of
        Inr (Some acc) \<Rightarrow> Some (oview (db s) (newObject a acc))
      | _ \<Rightarrow> None)"

definition acct_view :: "StateDB \<Rightarrow> Address \<Rightarrow> acctview option" where
  "acct_view s a =
     (case stateObjects s a of
        Some obj \<Rightarrow> if deleted obj then None else Some (oview (db s) obj)
      | None \<Rightarrow> base s a)"

definition world :: "StateDB \<Rightarrow> World" where
  "world s =
     \<lparr>w_accts = acct_view s, w_refund = refund s, w_logs = GetLogs s, w_logSize = logSize s,
      w_preimages = preimages s, w_thash = thash s, w_bhash = bhash s, w_txIndex = txIndex s\<rparr>"

text \<open>
  What the code relies on of the node database: the zero root opens the empty storage trie,
  and no blob but the empty one is stored under the hash of the empty code.
\<close>

definition backend_ok :: "Backend \<Rightarrow> bool" where
  "backend_ok d \<longleftrightarrow>
     (case OpenStorageTrie d 0 of None \<Rightarrow> True | Some tr \<Rightarrow> tr = emptyTrie) \<and>
     (case ContractCode d (emptyCodeHash d) of None \<Rightarrow> True | Some c \<Rightarrow> c = [])"

definition objects_ok :: "StateDB \<Rightarrow> bool" where
  "objects_ok s \<longleftrightarrow>
     backend_ok (db s) \<and>
     (\<forall>a obj. stateObjects s a = Some obj \<longrightarrow> address obj = a \<and> (deleted obj \<longrightarrow> base s a = None))"

definition fresh :: "Backend \<Rightarrow> acctview" where
  "fresh d =
     \<lparr>v_nonce = 0, v_balance = 0, v_codeHash = emptyCodeHash d, v_code = [],
      v_storage = (\<lambda>_. 0), v_committed = (\<lambda>_. 0), v_suicided = False\<rparr>"

section \<open>Frame lemmas\<close>

named_theorems sdb_frame "fields that an operation of StateDB leaves alone"

lemma journal_add_frame [simp, sdb_frame]:
  "db (journal_add s e) = db s" "acct_trie (journal_add s e) = acct_trie s"
  "stateObjects (journal_add s e) = stateObjects s" "refund (journal_add s e) = refund s"
  "thash (journal_add s e) = thash s" "bhash (journal_add s e) = bhash s"
  "txIndex (journal_add s e) = txIndex s" "logs (journal_add s e) = logs s"
  "logSize (journal_add s e) = logSize s" "preimages (journal_add s e) = preimages s"
  "validRevisions (journal_add s e) = validRevisions s"
  "nextRevisionId (journal_add s e) = nextRevisionId s"
  "dbErr (journal_add s e) = dbErr s" "stateObjectsDirty (journal_add s e) = stateObjectsDirty s"
  "entries (journal (journal_add s e)) = entries (journal s) @ [e]"
  by (auto simp: journal_add_def journal_append_def journal_dirty_def Let_def split: option.splits)

lemma setError_frame [simp, sdb_frame]:
  "db (setError s e) = db s" "acct_trie (setError s e) = acct_trie s"
  "stateObjects (setError s e) = stateObjects s" "refund (setError s e) = refund s"
  "thash (setError s e) = thash s" "bhash (setError s e) = bhash s"
  "txIndex (setError s e) = txIndex s" "logs (setError s e) = logs s"
  "logSize (setError s e) = logSize s" "preimages (setError s e) = preimages s"
  "validRevisions (setError s e) = validRevisions s"
  "nextRevisionId (setError s e) = nextRevisionId s" "journal (setError s e) = journal s"
  "stateObjectsDirty (setError s e) = stateObjectsDirty s"
  by (auto simp: setError_def)

lemma setStateObject_frame [simp, sdb_frame]:
  "db (setStateObject s c) = db s" "acct_trie (setStateObject s c) = acct_trie s"
  "stateObjects (setStateObject s c) = (stateObjects s)(address c \<mapsto> c)"
  "refund (setStateObject s c) = refund s"
  "thash (setStateObject s c) = thash s" "bhash (setStateObject s c) = bhash s"
  "txIndex (setStateObject s c) = txIndex s" "logs (setStateObject s c) = logs s"
  "logSize (setStateObject s c) = logSize s" "preimages (setStateObject s c) = preimages s"
  "validRevisions (setStateObject s c) = validRevisions s"
  "nextRevisionId (setStateObject s c) = nextRevisionId s"
  "journal (setStateObject s c) = journal s" "dbErr (setStateObject s c) = dbErr s"
  "stateObjectsDirty (setStateObject s c) = stateObjectsDirty s"
  by (auto simp: setStateObject_def)

lemma world_fields [simp]:
  "w_accts (world s) = acct_view s" "w_refund (world s) = refund s" "w_logs (world s) = GetLogs s"
  "w_logSize (world s) = logSize s" "w_preimages (world s) = preimages s"
  "w_thash (world s) = thash s" "w_bhash (world s) = bhash s" "w_txIndex (world s) = txIndex s"
  by (simp_all add: world_def)

lemma world_eq_iff:
  "world s = w \<longleftrightarrow> acct_view s = w_accts w \<and> refund s = w_refund w \<and> GetLogs s = w_logs w \<and>
     logSize s = w_logSize w \<and> preimages s = w_preimages w \<and> thash s = w_thash w \<and>
     bhash s = w_bhash w \<and> txIndex s = w_txIndex w"
  by (cases w) (auto simp: world_def)

lemma GetLogs_cong: "logs s = logs t \<Longrightarrow> GetLogs s = GetLogs t"
  by (simp add: GetLogs_def fun_eq_iff)

text \<open>Two states that differ only in what the world forgets.\<close>

definition same_core :: "StateDB \<Rightarrow> StateDB \<Rightarrow> bool" where
  "same_core s t \<longleftrightarrow> db s = db t \<and> acct_trie s = acct_trie t"

lemma base_cong: "same_core s t \<Longrightarrow> base s = base t"
  by (intro ext) (auto simp: base_def same_core_def split: option.splits sum.splits)

lemma same_core_simps [simp]:
  "same_core s s" "same_core (journal_add s e) t = same_core s t" "same_core t (journal_add s e) = same_core t s"
  "same_core (setError s err) t = same_core s t" "same_core t (setError s err) = same_core t s"
  "same_core (setStateObject s c) t = same_core s t" "same_core t (setStateObject s c) = same_core t s"
  by (simp_all add: same_core_def)

lemma same_core_trans [trans]: "same_core s t \<Longrightarrow> same_core t u \<Longrightarrow> same_core s u"
  by (simp add: same_core_def)

lemma base_simps [simp]:
  "base (journal_add s e) = base s" "base (setError s err) = base s" "base (setStateObject s c) = base s"
  by (rule base_cong; simp add: same_core_def)+

lemma acct_view_simps [simp]:
  "acct_view (journal_add s e) = acct_view s" "acct_view (setError s err) = acct_view s"
  by (simp_all add: acct_view_def fun_eq_iff split: option.splits)

lemma acct_view_setStateObject [simp]:
  "acct_view (setStateObject s c) =
     (acct_view s)(address c := (if deleted c then None else Some (oview (db s) c)))"
  by (simp add: acct_view_def fun_eq_iff split: option.splits)

lemma world_simps [simp]:
  "world (journal_add s e) = world s" "world (setError s err) = world s"
  by (simp_all add: world_eq_iff GetLogs_def fun_eq_iff)

lemma world_setStateObject [simp]:
  "\<not> deleted c \<Longrightarrow>
     world (setStateObject s c) = (world s)\<lparr>w_accts := (acct_view s)(address c \<mapsto> oview (db s) c)\<rparr>"
  by (simp add: world_eq_iff GetLogs_def fun_eq_iff)

lemma objects_ok_simps [simp]:
  "objects_ok (journal_add s e) = objects_ok s" "objects_ok (setError s err) = objects_ok s"
  by (simp_all add: objects_ok_def)

lemma objects_ok_setStateObject [simp]:
  "objects_ok s \<Longrightarrow> \<not> deleted c \<Longrightarrow> objects_ok (setStateObject s c)"
  by (auto simp: objects_ok_def)

lemma objects_ok_address: "objects_ok s \<Longrightarrow> stateObjects s a = Some obj \<Longrightarrow> address obj = a"
  by (simp add: objects_ok_def)

lemma objects_cong:
  assumes "same_core s t" "stateObjects s = stateObjects t"
  shows "acct_view s = acct_view t" "objects_ok s = objects_ok t"
  using assms base_cong [OF assms(1)]
  by (auto simp: acct_view_def objects_ok_def same_core_def fun_eq_iff split: option.splits)

section \<open>Fresh accounts\<close>

lemma fresh_obj_trie:
  "backend_ok d \<Longrightarrow> obj_trie d (newObject a (emptyAccount d)) = emptyTrie"
  by (auto simp: obj_trie_eq newObject_def emptyAccount_def backend_ok_def split: option.splits)

lemma TryGet_emptyTrie [simp]: "TryGet emptyTrie k = Inr None"
  by (simp add: TryGet_def emptyTrie_def)

lemma newObject_storage [simp]:
  "originStorage (newObject a acc) = Map.empty" "dirtyStorage (newObject a acc) = Map.empty"
  "so_code (newObject a acc) = None" "so_trie (newObject a acc) = None"
  by (simp_all add: newObject_def)

lemma emptyAccount_fields [simp]:
  "Nonce (emptyAccount d) = 0" "Balance (emptyAccount d) = 0" "CodeHash (emptyAccount d) = emptyCodeHash d"
  by (simp_all add: emptyAccount_def)

lemma oview_fresh: "backend_ok d \<Longrightarrow> oview d (newObject a (emptyAccount d)) = fresh d"
  by (simp add: oview_def fresh_def current_eq committed_eq fresh_obj_trie fun_eq_iff code_of_eq
      code_value_def)

lemma setNonce_fresh: "setNonce (newObject a (emptyAccount d)) 0 = newObject a (emptyAccount d)"
  by (simp add: setNonce_def newObject_def emptyAccount_def)

section \<open>Loading an object\<close>

lemma getStateObject_SomeD:
  assumes "getStateObject s a = (Some obj, s')" and "objects_ok s"
  shows "acct_view s a = Some (oview (db s) obj)" "address obj = a" "\<not> deleted obj"
    "stateObjects s' a = Some obj"
  using assms objects_ok_address [of s a]
  by (auto simp: getStateObject_def acct_view_def base_def Let_def setStateObject_def
      split: option.splits sum.splits if_splits)

lemma objects_ok_deleted:
  "objects_ok s \<Longrightarrow> stateObjects s a = Some obj \<Longrightarrow> deleted obj \<Longrightarrow> base s a = None"
  by (simp add: objects_ok_def)

lemma getStateObject_NoneD:
  assumes "getStateObject s a = (None, s')" and "objects_ok s"
  shows "acct_view s a = None" "base s a = None"
proof -
  show b: "base s a = None"
    using assms objects_ok_deleted [of s a]
    by (auto simp: getStateObject_def base_def Let_def split: option.splits sum.splits if_splits)
  show "acct_view s a = None"
    using assms b by (auto simp: getStateObject_def acct_view_def split: option.splits if_splits)
qed

lemma getStateObject_frame [simp, sdb_frame]:
  "db (snd (getStateObject s a)) = db s" "acct_trie (snd (getStateObject s a)) = acct_trie s"
  "refund (snd (getStateObject s a)) = refund s"
  "thash (snd (getStateObject s a)) = thash s" "bhash (snd (getStateObject s a)) = bhash s"
  "txIndex (snd (getStateObject s a)) = txIndex s" "logs (snd (getStateObject s a)) = logs s"
  "logSize (snd (getStateObject s a)) = logSize s" "preimages (snd (getStateObject s a)) = preimages s"
  "validRevisions (snd (getStateObject s a)) = validRevisions s"
  "nextRevisionId (snd (getStateObject s a)) = nextRevisionId s"
  "journal (snd (getStateObject s a)) = journal s"
  "same_core (snd (getStateObject s a)) t = same_core s t"
  by (auto simp: getStateObject_def Let_def split: option.splits sum.splits)

lemma acct_view_getStateObject [simp]:
  "acct_view (snd (getStateObject s a)) = acct_view s"
proof
  fix b
  show "acct_view (snd (getStateObject s a)) b = acct_view s b"
    by (auto simp: getStateObject_def Let_def acct_view_def base_def setStateObject_def setError_def
        split: option.splits sum.splits)
qed

lemma world_getStateObject [simp]: "world (snd (getStateObject s a)) = world s"
  by (simp add: world_eq_iff GetLogs_def fun_eq_iff)

lemma objects_ok_getStateObject [simp]:
  "objects_ok s \<Longrightarrow> objects_ok (snd (getStateObject s a))"
  by (auto simp: getStateObject_def Let_def split: option.splits sum.splits)

lemma fst_getStateObject: "map_option (oview (db s)) (fst (getStateObject s a)) = acct_view s a"
  by (auto simp: getStateObject_def Let_def acct_view_def base_def split: option.splits sum.splits)

section \<open>Undoing journal entries\<close>

definition set_acct :: "World \<Rightarrow> Address \<Rightarrow> acctview option \<Rightarrow> World" where
  "set_acct w a v = w\<lparr>w_accts := (w_accts w)(a := v)\<rparr>"

lemma set_acct_simps [simp]:
  "w_accts (set_acct w a v) = (w_accts w)(a := v)" "w_refund (set_acct w a v) = w_refund w"
  "w_logs (set_acct w a v) = w_logs w" "w_logSize (set_acct w a v) = w_logSize w"
  "w_preimages (set_acct w a v) = w_preimages w" "w_thash (set_acct w a v) = w_thash w"
  "w_bhash (set_acct w a v) = w_bhash w" "w_txIndex (set_acct w a v) = w_txIndex w"
  "set_acct (set_acct w a v) a u = set_acct w a u"
  by (simp_all add: set_acct_def)

lemma set_acct_same [simp]: "w_accts w a = v \<Longrightarrow> set_acct w a v = w"
  by (cases w) (auto simp: set_acct_def)

lemma world_store: "\<not> deleted c \<Longrightarrow> world (setStateObject s c) = set_acct (world s) (address c) (Some (oview (db s) c))"
  by (simp add: set_acct_def)

definition undoes :: "StateDB \<Rightarrow> journalEntry list \<Rightarrow> World \<Rightarrow> World \<Rightarrow> bool" where
  "undoes s es w w' \<longleftrightarrow>
     (\<forall>t. same_core t s \<longrightarrow> objects_ok t \<longrightarrow> world t = w \<longrightarrow>
        (\<exists>t'. revert_entries es t = Some t' \<and> same_core t' s \<and> objects_ok t' \<and> world t' = w'))"

lemma undoes_Nil [intro!, simp]: "undoes s [] w w"
  by (simp add: undoes_def)

lemma revert_entries_append:
  "revert_entries (es @ es') s = Option.bind (revert_entries es s) (revert_entries es')"
  by (induction es arbitrary: s) (auto split: Option.bind_splits)

lemma undoes_append: "undoes s es w w' \<Longrightarrow> undoes s es' w' w'' \<Longrightarrow> undoes s (es @ es') w w''"
  by (fastforce simp: undoes_def revert_entries_append)

lemma undoes_core: "same_core s s' \<Longrightarrow> undoes s = undoes s'"
  by (simp add: undoes_def fun_eq_iff same_core_def)

lemma journal_update_simps [simp]:
  "world (t\<lparr>journal := j\<rparr>) = world t" "objects_ok (t\<lparr>journal := j\<rparr>) = objects_ok t"
  "same_core (t\<lparr>journal := j\<rparr>) s = same_core t s"
proof -
  have "same_core (t\<lparr>journal := j\<rparr>) t" by (simp add: same_core_def)
  from objects_cong [OF this] show "world (t\<lparr>journal := j\<rparr>) = world t"
    "objects_ok (t\<lparr>journal := j\<rparr>) = objects_ok t" "same_core (t\<lparr>journal := j\<rparr>) s = same_core t s"
    by (simp_all add: world_eq_iff GetLogs_def same_core_def fun_eq_iff)
qed

lemma undoes_singleI:
  assumes "\<And>t. same_core t s \<Longrightarrow> objects_ok t \<Longrightarrow> world t = w \<Longrightarrow>
             \<exists>t'. revert e t = Some t' \<and> same_core t' s \<and> objects_ok t' \<and> world t' = w'"
  shows "undoes s [e] w w'"
  unfolding undoes_def using assms by (fastforce split: Option.bind_splits)

lemma modify_object_world:
  assumes "objects_ok t" "w_accts (world t) a = Some v"
    and f: "\<And>obj. address (f obj) = address obj" "\<And>obj. deleted (f obj) = deleted obj"
      "\<And>obj. oview (db t) (f obj) = g (oview (db t) obj)"
  shows "\<exists>t'. modify_object t a f = Some t' \<and> same_core t' t \<and> objects_ok t' \<and>
           world t' = set_acct (world t) a (Some (g v))"
proof -
  obtain obj' t1 where g: "getStateObject t a = (obj', t1)" by (cases "getStateObject t a")
  have t1: "t1 = snd (getStateObject t a)" by (simp add: g)
  obtain obj where obj: "obj' = Some obj"
    using getStateObject_NoneD [of t a t1] g assms(1,2) by (cases obj') auto
  note D = getStateObject_SomeD [OF g [unfolded obj] assms(1)]
  have v: "v = oview (db t) obj" using D(1) assms(2) by simp
  have "modify_object t a f = Some (setStateObject t1 (f obj))"
    by (simp add: modify_object_def g obj)
  moreover have "same_core t1 t" "objects_ok t1" "world t1 = world t" "db t1 = db t"
    using assms(1) by (simp_all add: t1)
  ultimately show ?thesis
    using D(2,3) f by (auto simp: world_store v simp del: world_setStateObject)
qed

lemma undoes_modify:
  assumes e: "\<And>t. revert e t = modify_object t a f"
    and f: "\<And>obj. address (f obj) = address obj" "\<And>obj. deleted (f obj) = deleted obj"
      "\<And>obj. oview (db s) (f obj) = g (oview (db s) obj)"
    and "w_accts w a = Some v"
  shows "undoes s [e] w (set_acct w a (Some (g v)))"
proof (rule undoes_singleI)
  fix t assume t: "same_core t s" "objects_ok t" "world t = w"
  then have "db t = db s" by (simp add: same_core_def)
  then have "\<exists>t'. modify_object t a f = Some t' \<and> same_core t' t \<and> objects_ok t' \<and>
           world t' = set_acct (world t) a (Some (g v))"
    using t assms by (intro modify_object_world) auto
  then show "\<exists>t'. revert e t = Some t' \<and> same_core t' s \<and> objects_ok t' \<and>
           world t' = set_acct w a (Some (g v))"
    using t same_core_trans unfolding e by blast
qed

lemma undoes_create: "undoes s [createObjectChange a] w (set_acct w a (base s a))"
proof (rule undoes_singleI)
  fix t assume t: "same_core t s" "objects_ok t" "world t = w"
  let ?t = "t\<lparr>stateObjects := (stateObjects t)(a := None),
               stateObjectsDirty := (stateObjectsDirty t)(a := False)\<rparr>"
  have b: "base ?t = base s" using t(1) by (intro base_cong) (simp add: same_core_def)
  have b': "base t = base s" using t(1) by (intro base_cong) (simp add: same_core_def)
  have "objects_ok ?t"
    using t(2) by (auto simp: objects_ok_def b b' [symmetric] split: if_splits)
  moreover have "acct_view ?t = (acct_view t)(a := base s a)"
    by (auto simp: acct_view_def b b' fun_eq_iff split: option.splits)
  then have "world ?t = set_acct w a (base s a)"
    by (simp add: world_eq_iff GetLogs_def fun_eq_iff t(3) [symmetric])
  moreover have "same_core ?t s" using t(1) by (simp add: same_core_def)
  ultimately show "\<exists>t'. revert (createObjectChange a) t = Some t' \<and> same_core t' s \<and> objects_ok t' \<and>
           world t' = set_acct w a (base s a)"
    by simp
qed

lemma undoes_reset:
  "\<not> deleted prev \<Longrightarrow>
     undoes s [resetObjectChange prev] w (set_acct w (address prev) (Some (oview (db s) prev)))"
  by (rule undoes_singleI) (auto simp: same_core_def world_store simp del: world_setStateObject)

lemma undoes_suicide:
  assumes "w_accts w a = Some v"
  shows "undoes s [suicideChange a p b] w (set_acct w a (Some (v\<lparr>v_suicided := p, v_balance := b\<rparr>)))"
proof -
  let ?f = "\<lambda>obj. setBalance (obj\<lparr>suicided := p\<rparr>) b"
  have "revert (suicideChange a p b) t = modify_object t a ?f"
    if "same_core t s" "objects_ok t" "world t = w" for t
  proof -
    have "acct_view t a = Some v" using that(3) assms by auto
    then show ?thesis using that(2) getStateObject_NoneD [of t a]
      by (auto simp: modify_object_def split: prod.splits option.splits)
  qed
  moreover have "undoes s [suicideChange a p b] w (set_acct w a (Some (v\<lparr>v_suicided := p, v_balance := b\<rparr>)))"
    if e: "\<And>t. same_core t s \<Longrightarrow> objects_ok t \<Longrightarrow> world t = w \<Longrightarrow>
             revert (suicideChange a p b) t = modify_object t a ?f"
  proof (rule undoes_singleI)
    fix t assume t: "same_core t s" "objects_ok t" "world t = w"
    have "\<exists>t'. modify_object t a ?f = Some t' \<and> same_core t' t \<and> objects_ok t' \<and>
           world t' = set_acct (world t) a (Some (v\<lparr>v_suicided := p, v_balance := b\<rparr>))"
      using t assms by (intro modify_object_world) (auto simp: suicided_view)
    then show "\<exists>t'. revert (suicideChange a p b) t = Some t' \<and> same_core t' s \<and> objects_ok t' \<and>
           world t' = set_acct w a (Some (v\<lparr>v_suicided := p, v_balance := b\<rparr>))"
      using t same_core_trans unfolding e [OF t] by blast
  qed
  ultimately show ?thesis by blast
qed

lemma undoes_touch: "undoes s [touchChange a] w w"
  by (rule undoes_singleI) auto

text \<open>Entries that concern no account.\<close>

lemma undoes_other:
  assumes "\<And>t. world t = w \<Longrightarrow>
      \<exists>t'. revert e t = Some t' \<and> same_core t' t \<and> stateObjects t' = stateObjects t \<and>
           refund t' = w_refund w' \<and> GetLogs t' = w_logs w' \<and> logSize t' = w_logSize w' \<and>
           preimages t' = w_preimages w' \<and> thash t' = thash t \<and> bhash t' = bhash t \<and> txIndex t' = txIndex t"
    and "w_accts w' = w_accts w" "w_thash w' = w_thash w" "w_bhash w' = w_bhash w" "w_txIndex w' = w_txIndex w"
  shows "undoes s [e] w w'"
proof (rule undoes_singleI)
  fix t assume t: "same_core t s" "objects_ok t" "world t = w"
  obtain t' where t': "revert e t = Some t'" "same_core t' t" "stateObjects t' = stateObjects t"
    "refund t' = w_refund w'" "GetLogs t' = w_logs w'" "logSize t' = w_logSize w'"
    "preimages t' = w_preimages w'" "thash t' = thash t" "bhash t' = bhash t" "txIndex t' = txIndex t"
    using assms(1) [OF t(3)] by blast
  have "objects_ok t'" "world t' = w'"
    using objects_cong [OF t'(2,3)] t' t assms(2-5) by (auto simp: world_eq_iff)
  with t' t(1) show "\<exists>t'. revert e t = Some t' \<and> same_core t' s \<and> objects_ok t' \<and> world t' = w'"
    using same_core_trans by blast
qed

lemma undoes_refund: "undoes s [refundChange p] w (w\<lparr>w_refund := p\<rparr>)"
  by (rule undoes_other) (auto simp: same_core_def GetLogs_def)

lemma undoes_preimage:
  "undoes s [addPreimageChange h] w (w\<lparr>w_preimages := (w_preimages w)(h := None)\<rparr>)"
  by (rule undoes_other) (auto simp: same_core_def GetLogs_def)

lemma undoes_log:
  assumes "w_logs w h = ls @ [l]"
  shows "undoes s [addLogChange h] w
           (w\<lparr>w_logs := (w_logs w)(h := ls), w_logSize := w_logSize w - 1\<rparr>)"
proof (rule undoes_other)
  fix t assume t: "world t = w"
  have g: "GetLogs t h = ls @ [l]" using t assms by auto
  define t' where "t' = t\<lparr>logs := (if ls = [] then (logs t)(h := None) else (logs t)(h \<mapsto> ls)),
                     logSize := logSize t - 1\<rparr>"
  have "revert (addLogChange h) t = Some t'" by (simp add: g t'_def)
  moreover have "GetLogs t' = (GetLogs t)(h := ls)" by (auto simp: GetLogs_def t'_def)
  ultimately show "\<exists>t'. revert (addLogChange h) t = Some t' \<and> same_core t' t \<and> stateObjects t' = stateObjects t \<and>
      refund t' = w_refund (w\<lparr>w_logs := (w_logs w)(h := ls), w_logSize := w_logSize w - 1\<rparr>) \<and>
      GetLogs t' = w_logs (w\<lparr>w_logs := (w_logs w)(h := ls), w_logSize := w_logSize w - 1\<rparr>) \<and>
      logSize t' = w_logSize (w\<lparr>w_logs := (w_logs w)(h := ls), w_logSize := w_logSize w - 1\<rparr>) \<and>
      preimages t' = w_preimages (w\<lparr>w_logs := (w_logs w)(h := ls), w_logSize := w_logSize w - 1\<rparr>) \<and>
      thash t' = thash t \<and> bhash t' = bhash t \<and> txIndex t' = txIndex t"
    using t by (auto simp: same_core_def t'_def)
qed simp_all

section \<open>Well-formed states and their evolution\<close>

definition sdb_ok :: "StateDB \<Rightarrow> bool" where
  "sdb_ok s \<longleftrightarrow>
     objects_ok s \<and>
     sorted_wrt (\<lambda>r r'. rev_id r < rev_id r' \<and> journalIndex r \<le> journalIndex r') (validRevisions s) \<and>
     (\<forall>r \<in> set (validRevisions s).
        journalIndex r \<le> length (entries (journal s)) \<and> rev_id r < nextRevisionId s)"

definition evolves :: "StateDB \<Rightarrow> StateDB \<Rightarrow> bool" where
  "evolves s s' \<longleftrightarrow>
     sdb_ok s \<and> sdb_ok s' \<and> same_core s' s \<and> nextRevisionId s \<le> nextRevisionId s' \<and>
     (\<exists>es. entries (journal s') = entries (journal s) @ es \<and> undoes s (rev es) (world s') (world s)) \<and>
     (\<exists>rs. validRevisions s' = validRevisions s @ rs \<and>
        (\<forall>r \<in> set rs. length (entries (journal s)) \<le> journalIndex r \<and> nextRevisionId s \<le> rev_id r))"

lemma evolves_refl: "sdb_ok s \<Longrightarrow> evolves s s"
  by (simp add: evolves_def)

lemma evolves_ok: "evolves s s' \<Longrightarrow> sdb_ok s" "evolves s s' \<Longrightarrow> sdb_ok s'"
  by (simp_all add: evolves_def)

lemma evolves_core: "evolves s s' \<Longrightarrow> same_core s' s"
  by (simp add: evolves_def)

lemma evolves_trans [trans]:
  assumes 1: "evolves s s'" and 2: "evolves s' s''"
  shows "evolves s s''"
proof -
  obtain es where es: "entries (journal s') = entries (journal s) @ es"
      "undoes s (rev es) (world s') (world s)"
    using 1 unfolding evolves_def by blast
  obtain es' where es': "entries (journal s'') = entries (journal s') @ es'"
      "undoes s' (rev es') (world s'') (world s')"
    using 2 unfolding evolves_def by blast
  have core: "same_core s' s" using 1 by (rule evolves_core)
  then have "undoes s (rev (es @ es')) (world s'') (world s)"
    using es(2) es'(2) by (simp add: undoes_append undoes_core [OF core])
  moreover have "entries (journal s'') = entries (journal s) @ (es @ es')"
    by (simp add: es(1) es'(1))
  moreover have "\<exists>rs. validRevisions s'' = validRevisions s @ rs \<and>
        (\<forall>r \<in> set rs. length (entries (journal s)) \<le> journalIndex r \<and> nextRevisionId s \<le> rev_id r)"
    using 1 2 unfolding evolves_def by (fastforce simp: es(1))
  moreover have "same_core s'' s" using evolves_core [OF 2] core by (rule same_core_trans)
  ultimately show ?thesis
    using 1 2 unfolding evolves_def by (meson order_trans)
qed

text \<open>A step that only fills caches, and a step that appends one entry.\<close>

lemma evolves_quiet:
  assumes "sdb_ok s" "objects_ok s'" "same_core s' s" "world s' = world s"
    "journal s' = journal s" "validRevisions s' = validRevisions s" "nextRevisionId s' = nextRevisionId s"
  shows "evolves s s'"
  using assms by (auto simp: evolves_def sdb_ok_def)

lemma evolves_entry:
  assumes "sdb_ok s" "objects_ok s'" "same_core s' s"
    "entries (journal s') = entries (journal s) @ [e]" "undoes s [e] (world s') (world s)"
    "validRevisions s' = validRevisions s" "nextRevisionId s' = nextRevisionId s"
  shows "evolves s s'"
  using assms by (fastforce simp: evolves_def sdb_ok_def)

lemma evolves_getStateObject: "sdb_ok s \<Longrightarrow> evolves s (snd (getStateObject s a))"
  by (rule evolves_quiet) (simp_all add: sdb_ok_def)

lemma evolves_store_quiet:
  assumes "sdb_ok s" "\<not> deleted c" "acct_view s (address c) = Some (oview (db s) c)"
  shows "evolves s (setStateObject s c)"
  using assms by (intro evolves_quiet) (auto simp: sdb_ok_def world_store simp del: world_setStateObject)

lemma evolves_store:
  assumes "sdb_ok s" "\<not> deleted c"
    "undoes s [e] (set_acct (world s) (address c) (Some (oview (db s) c))) (world s)"
  shows "evolves s (setStateObject (journal_add s e) c)"
  using assms by (intro evolves_entry) (auto simp: sdb_ok_def world_store simp del: world_setStateObject)

section \<open>The specification of the operations on the world\<close>

definition acct_or_fresh :: "Backend \<Rightarrow> World \<Rightarrow> Address \<Rightarrow> acctview" where
  "acct_or_fresh d w a = (case w_accts w a of Some v \<Rightarrow> v | None \<Rightarrow> fresh d)"

definition upd_acct :: "Backend \<Rightarrow> World \<Rightarrow> Address \<Rightarrow> (acctview \<Rightarrow> acctview) \<Rightarrow> World" where
  "upd_acct d w a f = set_acct w a (Some (f (acct_or_fresh d w a)))"

definition spec_CreateAccount :: "Backend \<Rightarrow> World \<Rightarrow> Address \<Rightarrow> World" where
  "spec_CreateAccount d w a =
     set_acct w a (Some ((fresh d)\<lparr>v_balance := v_balance (acct_or_fresh d w a)\<rparr>))"

definition spec_Suicide :: "World \<Rightarrow> Address \<Rightarrow> bool \<times> World" where
  "spec_Suicide w a =
     (case w_accts w a of
        None \<Rightarrow> (False, w)
      | Some v \<Rightarrow> (True, set_acct w a (Some (v\<lparr>v_suicided := True, v_balance := 0\<rparr>))))"

definition spec_AddLog :: "World \<Rightarrow> Log \<Rightarrow> World" where
  "spec_AddLog w l =
     w\<lparr>w_logs := (w_logs w)(w_thash w := w_logs w (w_thash w) @
          [l\<lparr>log_TxHash := w_thash w, log_BlockHash := w_bhash w,
             log_TxIndex := w_txIndex w, log_Index := w_logSize w\<rparr>]),
       w_logSize := w_logSize w + 1\<rparr>"

definition spec_AddPreimage :: "World \<Rightarrow> Hash \<Rightarrow> bytes \<Rightarrow> World" where
  "spec_AddPreimage w h p =
     (if w_preimages w h = None then w\<lparr>w_preimages := (w_preimages w)(h \<mapsto> p)\<rparr> else w)"

section \<open>Every operation is undone by its entries and meets its specification\<close>

lemma fresh_balance [simp]: "v_balance (fresh d) = 0"
  by (simp add: fresh_def)

lemma sdb_okD [simp]: "sdb_ok s \<Longrightarrow> objects_ok s"
  by (simp add: sdb_ok_def)

lemma sdb_ok_backend: "sdb_ok s \<Longrightarrow> backend_ok (db s)"
  by (simp add: sdb_ok_def objects_ok_def)

lemma createObject_shape:
  assumes ok: "sdb_ok s" and c: "createObject s a = ((new, prev), s')"
  obtains s0 e where "s' = setStateObject (journal_add s0 e) new" "evolves s s0" "world s0 = world s"
    "db s0 = db s" "\<And>v. undoes s0 [e] (set_acct (world s) a (Some v)) (world s)"
    "new = newObject a (emptyAccount (db s))" "map_option (oview (db s)) prev = acct_view s a"
proof -
  obtain prev' s1 where g': "getStateObject s a = (prev', s1)" by (cases "getStateObject s a")
  have s1: "s1 = snd (getStateObject s a)" by (simp add: g')
  have d: "db s1 = db s" "world s1 = world s" "acct_view s1 = acct_view s" by (simp_all add: s1)
  let ?e = "case prev of None \<Rightarrow> createObjectChange a | Some p \<Rightarrow> resetObjectChange p"
  have c': "new = newObject a (emptyAccount (db s)) \<and> prev = prev' \<and>
      s' = setStateObject (journal_add s1 ?e) new"
    using c by (cases prev') (auto simp: createObject_def Let_def setNonce_fresh g' d)
  then have prev: "prev = fst (getStateObject s a)" using g' by simp
  have ev: "evolves s s1" unfolding s1 using ok by (rule evolves_getStateObject)
  have "undoes s1 [?e] (set_acct (world s) a (Some v)) (world s)" for v
  proof (cases prev)
    case None
    then have "base s a = None" "acct_view s a = None"
      using getStateObject_NoneD g' ok c' by auto
    moreover have "base s1 = base s" using evolves_core [OF ev] by (rule base_cong)
    ultimately show ?thesis
      using undoes_create [of s1 a "set_acct (world s) a (Some v)"] by (simp add: None)
  next
    case (Some p)
    then have "getStateObject s a = (Some p, s1)" using g' c' by simp
    note D = getStateObject_SomeD [OF this sdb_okD [OF ok]]
    show ?thesis
      using D undoes_reset [of p s1 "set_acct (world s) a (Some v)"] by (simp add: Some d)
  qed
  moreover have "map_option (oview (db s)) prev = acct_view s a" by (simp add: prev fst_getStateObject)
  ultimately show thesis
    using c' d ev by (intro that [of s1 ?e]) simp_all
qed

lemma createObject_correct:
  assumes ok: "sdb_ok s" and c: "createObject s a = ((new, prev), s')"
  shows "evolves s s'" "world s' = set_acct (world s) a (Some (fresh (db s)))"
    "new = newObject a (emptyAccount (db s))" "db s' = db s"
proof -
  obtain s0 e where S: "s' = setStateObject (journal_add s0 e) new" "evolves s s0" "world s0 = world s"
    "db s0 = db s" "\<And>v. undoes s0 [e] (set_acct (world s) a (Some v)) (world s)"
    "new = newObject a (emptyAccount (db s))"
    using createObject_shape [OF ok c] by metis
  have "evolves s0 s'"
    unfolding S(1) using evolves_ok(2) [OF S(2)] S by (intro evolves_store) simp_all
  with S(2) show "evolves s s'" by (rule evolves_trans)
  show "world s' = set_acct (world s) a (Some (fresh (db s)))" "db s' = db s"
    using sdb_ok_backend [OF ok]
    by (simp_all add: S world_store oview_fresh del: world_setStateObject)
  show "new = newObject a (emptyAccount (db s))" by (rule S(6))
qed

lemma GetOrNewStateObject_correct:
  assumes ok: "sdb_ok s" and g: "GetOrNewStateObject s a = (obj, s')"
  shows "evolves s s'" "world s' = set_acct (world s) a (Some (oview (db s) obj))"
    "oview (db s) obj = acct_or_fresh (db s) (world s) a" "address obj = a" "\<not> deleted obj" "db s' = db s"
proof -
  have main: "evolves s s' \<and> world s' = set_acct (world s) a (Some (oview (db s) obj)) \<and>
    oview (db s) obj = acct_or_fresh (db s) (world s) a \<and> address obj = a \<and> \<not> deleted obj \<and> db s' = db s"
  proof (cases "getStateObject s a")
    case (Pair prev s1)
    have s1: "s1 = snd (getStateObject s a)" by (simp add: Pair)
    have ev: "evolves s s1" unfolding s1 using ok by (rule evolves_getStateObject)
    have d: "db s1 = db s" "world s1 = world s" "acct_view s1 = acct_view s" by (simp_all add: s1)
    show ?thesis
    proof (cases prev)
      case (Some p)
      note D = getStateObject_SomeD [OF Pair [unfolded Some] sdb_okD [OF ok]]
      then show ?thesis
        using g ev d by (auto simp: GetOrNewStateObject_def Pair Some acct_or_fresh_def)
    next
      case None
      note D = getStateObject_NoneD [OF Pair [unfolded None] sdb_okD [OF ok]]
      obtain prev' where c: "createObject s1 a = ((obj, prev'), s')"
        using g by (auto simp: GetOrNewStateObject_def Pair None split: prod.splits)
      note C = createObject_correct [OF evolves_ok(2) [OF ev] c]
      show ?thesis
        using D C evolves_trans [OF ev C(1)] sdb_ok_backend [OF ok]
        by (simp add: d acct_or_fresh_def oview_fresh)
    qed
  qed
  then show "evolves s s'" "world s' = set_acct (world s) a (Some (oview (db s) obj))"
    "oview (db s) obj = acct_or_fresh (db s) (world s) a" "address obj = a" "\<not> deleted obj" "db s' = db s"
    by simp_all
qed

text \<open>The shape shared by the writers: fetch or create the object, journal the old value, store.\<close>

lemma write_object_correct:
  assumes ok: "sdb_ok s" and g: "GetOrNewStateObject s a = (obj, s1)"
    and new: "address new = a" "\<not> deleted new" "oview (db s) new = f (oview (db s) obj)"
    and un: "\<And>w. w_accts w a = Some (f (oview (db s) obj)) \<Longrightarrow> undoes s1 [e] w (set_acct w a (Some (oview (db s) obj)))"
    and s': "s' = setStateObject (journal_add s1 e) new"
  shows "evolves s s' \<and> world s' = upd_acct (db s) (world s) a f \<and> db s' = db s"
proof -
  note G = GetOrNewStateObject_correct [OF ok g]
  have "undoes s1 [e] (set_acct (world s1) a (Some (f (oview (db s) obj)))) (world s1)"
    using un [of "set_acct (world s1) a (Some (f (oview (db s) obj)))"] by (simp add: G(2))
  then have "evolves s1 s'"
    using evolves_ok(2) [OF G(1)] new unfolding s' by (intro evolves_store) (simp_all add: G(6))
  moreover have "world s' = upd_acct (db s) (world s) a f"
    using new by (simp add: s' upd_acct_def world_store G del: world_setStateObject)
  ultimately show ?thesis using G(1) evolves_trans by (auto simp: s' G(6))
qed

lemma touch_correct:
  assumes "sdb_ok s"
  shows "evolves s (touch s c) \<and> world (touch s c) = world s \<and> db (touch s c) = db s"
proof -
  have "objects_ok (touch s c)" "same_core (touch s c) s" "world (touch s c) = world s"
    "validRevisions (touch s c) = validRevisions s" "nextRevisionId (touch s c) = nextRevisionId s"
    "entries (journal (touch s c)) = entries (journal s) @ [touchChange (address c)]" "db (touch s c) = db s"
    using assms by (simp_all add: touch_def Let_def journal_dirty_def)
  then show ?thesis using assms by (auto intro!: evolves_entry simp: undoes_touch)
qed

lemma undoes_balance:
  "w_accts w a = Some v \<Longrightarrow> undoes s [balanceChange a b] w (set_acct w a (Some (v\<lparr>v_balance := b\<rparr>)))"
  by (rule undoes_modify [where f = "\<lambda>o'. setBalance o' b"]) simp_all

lemma undoes_nonce:
  "w_accts w a = Some v \<Longrightarrow> undoes s [nonceChange a n] w (set_acct w a (Some (v\<lparr>v_nonce := n\<rparr>)))"
  by (rule undoes_modify [where f = "\<lambda>o'. setNonce o' n"]) simp_all

lemma undoes_code:
  "w_accts w a = Some v \<Longrightarrow>
     undoes s [codeChange a c h] w (set_acct w a (Some (v\<lparr>v_codeHash := h, v_code := code_value (db s) h c\<rparr>)))"
  by (rule undoes_modify [where f = "\<lambda>o'. setCode o' h c"]) simp_all

lemma undoes_storage:
  "w_accts w a = Some v \<Longrightarrow>
     undoes s [storageChange a k x] w (set_acct w a (Some (v\<lparr>v_storage := (v_storage v)(k := x)\<rparr>)))"
  by (rule undoes_modify [where f = "\<lambda>o'. setState o' k x" and g = "\<lambda>v. v\<lparr>v_storage := (v_storage v)(k := x)\<rparr>"])
     simp_all

lemma so_SetBalance_correct:
  assumes ok: "sdb_ok s" and g: "GetOrNewStateObject s a = (obj, s1)"
  shows "evolves s (so_SetBalance s1 obj n) \<and>
         world (so_SetBalance s1 obj n) = upd_acct (db s) (world s) a (\<lambda>v. v\<lparr>v_balance := n\<rparr>) \<and>
         db (so_SetBalance s1 obj n) = db s"
proof (rule write_object_correct [OF ok g])
  show "undoes s1 [balanceChange a (Balance (data obj))] w (set_acct w a (Some (oview (db s) obj)))"
    if "w_accts w a = Some ((oview (db s) obj)\<lparr>v_balance := n\<rparr>)" for w
    using undoes_balance [OF that, of s1 "Balance (data obj)"] by (simp add: oview_def)
qed (use GetOrNewStateObject_correct [OF ok g] in \<open>auto simp: so_SetBalance_def\<close>)

lemma SetBalance_correct:
  "sdb_ok s \<Longrightarrow> evolves s (SetBalance s a n) \<and>
     world (SetBalance s a n) = upd_acct (db s) (world s) a (\<lambda>v. v\<lparr>v_balance := n\<rparr>) \<and>
     db (SetBalance s a n) = db s"
  by (cases "GetOrNewStateObject s a") (simp add: SetBalance_def so_SetBalance_correct)

lemma AddBalance_correct:
  assumes ok: "sdb_ok s"
  shows "evolves s (AddBalance s a n) \<and>
         world (AddBalance s a n) = upd_acct (db s) (world s) a (\<lambda>v. v\<lparr>v_balance := v_balance v + n\<rparr>) \<and>
         db (AddBalance s a n) = db s"
proof (cases "GetOrNewStateObject s a")
  case (Pair obj s1)
  note G = GetOrNewStateObject_correct [OF ok Pair]
  have "Balance (data obj) = v_balance (acct_or_fresh (db s) (world s) a)"
    by (simp flip: G(3))
  then show ?thesis
    using G so_SetBalance_correct [OF ok Pair, of "Balance (data obj) + n"]
      touch_correct [of s1 obj] evolves_ok(2) [OF G(1)] evolves_trans [of s s1]
    by (auto simp: AddBalance_def Pair so_AddBalance_def upd_acct_def)
qed

lemma SubBalance_correct:
  assumes ok: "sdb_ok s"
  shows "evolves s (SubBalance s a n) \<and>
         world (SubBalance s a n) = upd_acct (db s) (world s) a (\<lambda>v. v\<lparr>v_balance := v_balance v - n\<rparr>) \<and>
         db (SubBalance s a n) = db s"
proof (cases "GetOrNewStateObject s a")
  case (Pair obj s1)
  note G = GetOrNewStateObject_correct [OF ok Pair]
  have "Balance (data obj) = v_balance (acct_or_fresh (db s) (world s) a)"
    by (simp flip: G(3))
  then show ?thesis
    using G so_SetBalance_correct [OF ok Pair, of "Balance (data obj) - n"]
    by (auto simp: SubBalance_def Pair so_SubBalance_def upd_acct_def)
qed

lemma SetNonce_correct:
  assumes ok: "sdb_ok s"
  shows "evolves s (SetNonce s a n) \<and>
         world (SetNonce s a n) = upd_acct (db s) (world s) a (\<lambda>v. v\<lparr>v_nonce := n\<rparr>) \<and>
         db (SetNonce s a n) = db s"
proof (cases "GetOrNewStateObject s a")
  case (Pair obj s1)
  show ?thesis
  proof (rule write_object_correct [OF ok Pair])
    show "undoes s1 [nonceChange a (Nonce (data obj))] w (set_acct w a (Some (oview (db s) obj)))"
      if "w_accts w a = Some ((oview (db s) obj)\<lparr>v_nonce := n\<rparr>)" for w
      using undoes_nonce [OF that, of s1 "Nonce (data obj)"] by (simp add: oview_def)
  qed (use GetOrNewStateObject_correct [OF ok Pair] in \<open>auto simp: SetNonce_def Pair so_SetNonce_def\<close>)
qed

lemma SetCode_correct:
  assumes ok: "sdb_ok s"
  shows "evolves s (SetCode s a code) \<and>
         world (SetCode s a code) =
           upd_acct (db s) (world s) a (\<lambda>v. v\<lparr>v_codeHash := Keccak256Hash (db s) code, v_code := code\<rparr>) \<and>
         db (SetCode s a code) = db s"
proof (cases "GetOrNewStateObject s a")
  case (Pair obj s1)
  note G = GetOrNewStateObject_correct [OF ok Pair]
  let ?h = "Keccak256Hash (db s) code" and ?pc = "fst (so_Code (db s) obj)" and ?o = "snd (so_Code (db s) obj)"
  have cv: "code_value (db s) ?h (if code = [] then None else Some code) = code"
    by (auto simp: code_value_def emptyCodeHash_def)
  show ?thesis
  proof (rule write_object_correct [OF ok Pair])
    show "undoes s1 [codeChange a ?pc (CodeHash (data obj))] w (set_acct w a (Some (oview (db s) obj)))"
      if "w_accts w a = Some ((oview (db s) obj)\<lparr>v_codeHash := ?h, v_code := code\<rparr>)" for w
      using undoes_code [OF that, of s1 ?pc "CodeHash (data obj)"]
      by (simp add: oview_def G(6) code_value_so_Code)
    show "oview (db s) (setCode ?o ?h (if code = [] then None else Some code)) =
        (oview (db s) obj)\<lparr>v_codeHash := ?h, v_code := code\<rparr>"
      by (simp add: cv)
  qed (use G in \<open>auto simp: SetCode_def Pair so_SetCode_def case_prod_beta Let_def\<close>)
qed

lemma SetState_correct:
  assumes ok: "sdb_ok s"
  shows "evolves s (SetState s a k x) \<and>
         world (SetState s a k x) =
           upd_acct (db s) (world s) a (\<lambda>v. v\<lparr>v_storage := (v_storage v)(k := x)\<rparr>) \<and>
         db (SetState s a k x) = db s"
proof (cases "GetOrNewStateObject s a")
  case (Pair obj s1)
  note G = GetOrNewStateObject_correct [OF ok Pair]
  let ?prev = "current (db s) obj k" and ?o = "snd (so_GetState (db s) obj k)"
  have st: "SetState s a k x =
      (if ?prev = x then setStateObject s1 ?o
       else setStateObject (journal_add s1 (storageChange a k ?prev)) (setState ?o k x))"
    using G by (simp add: SetState_def Pair so_SetState_def Let_def case_prod_beta current_def)
  show ?thesis
  proof (cases "?prev = x")
    case True
    have "evolves s1 (setStateObject s1 ?o)"
      using evolves_ok(2) [OF G(1)] G(3-6) fun_cong [OF arg_cong [OF G(2), of w_accts], of a]
      by (intro evolves_store_quiet) simp_all
    moreover have "(v_storage (acct_or_fresh (db s) (world s) a))(k := x) = v_storage (acct_or_fresh (db s) (world s) a)"
      using True by (simp add: fun_upd_idem flip: G(3))
    ultimately show ?thesis
      using True G evolves_trans [OF G(1)]
      by (simp add: st world_store upd_acct_def del: world_setStateObject)
  next
    case False
    show ?thesis
    proof (rule write_object_correct [OF ok Pair])
      show "undoes s1 [storageChange a k ?prev] w (set_acct w a (Some (oview (db s) obj)))"
        if "w_accts w a = Some ((oview (db s) obj)\<lparr>v_storage := (v_storage (oview (db s) obj))(k := x)\<rparr>)" for w
        using undoes_storage [OF that, of s1 k ?prev] by (simp add: oview_def)
    qed (use False G in \<open>auto simp: st\<close>)
  qed
qed

lemma setStateObject_twice:
  "address c = address c' \<Longrightarrow> setStateObject (setStateObject s c) c' = setStateObject s c'"
  by (simp add: setStateObject_def)

lemma CreateAccount_correct:
  assumes ok: "sdb_ok s"
  shows "evolves s (CreateAccount s a) \<and> world (CreateAccount s a) = spec_CreateAccount (db s) (world s) a \<and>
         db (CreateAccount s a) = db s"
proof -
  obtain new prev s1 where c: "createObject s a = ((new, prev), s1)"
    by (metis prod.collapse)
  obtain s0 e where S: "s1 = setStateObject (journal_add s0 e) new" "evolves s s0" "world s0 = world s"
    "db s0 = db s" "\<And>v. undoes s0 [e] (set_acct (world s) a (Some v)) (world s)"
    "new = newObject a (emptyAccount (db s))" "map_option (oview (db s)) prev = acct_view s a"
    using createObject_shape [OF ok c] by metis
  let ?new = "setBalance new (v_balance (acct_or_fresh (db s) (world s) a))"
  have s': "CreateAccount s a = setStateObject (journal_add s0 e) ?new"
  proof (cases prev)
    case None
    then have "acct_view s a = None" using S(7) by simp
    then have "?new = new" by (simp add: acct_or_fresh_def S(6) setBalance_def)
    then show ?thesis by (simp add: CreateAccount_def c None S(1))
  next
    case (Some p)
    then have v: "acct_view s a = Some (oview (db s) p)" using S(7) by simp
    show ?thesis
      by (simp add: CreateAccount_def c Some S(1) setStateObject_twice acct_or_fresh_def v)
  qed
  have "evolves s0 (CreateAccount s a)"
    unfolding s' using evolves_ok(2) [OF S(2)] S by (intro evolves_store) simp_all
  with S(2) have "evolves s (CreateAccount s a)" by (rule evolves_trans)
  then show ?thesis
    using sdb_ok_backend [OF ok]
    by (simp add: s' S world_store spec_CreateAccount_def oview_fresh del: world_setStateObject)
qed

lemma Suicide_correct:
  assumes ok: "sdb_ok s"
  shows "evolves s (snd (Suicide s a)) \<and> fst (Suicide s a) = fst (spec_Suicide (world s) a) \<and>
         world (snd (Suicide s a)) = snd (spec_Suicide (world s) a) \<and> db (snd (Suicide s a)) = db s"
proof (cases "getStateObject s a")
  case (Pair prev s1)
  have s1: "s1 = snd (getStateObject s a)" by (simp add: Pair)
  have ev: "evolves s s1" unfolding s1 using ok by (rule evolves_getStateObject)
  have d: "db s1 = db s" "world s1 = world s" "acct_view s1 = acct_view s" by (simp_all add: s1)
  show ?thesis
  proof (cases prev)
    case None
    then show ?thesis
      using ev getStateObject_NoneD [OF Pair [unfolded None] sdb_okD [OF ok]]
      by (simp add: Suicide_def Pair spec_Suicide_def d)
  next
    case (Some p)
    note D = getStateObject_SomeD [OF Pair [unfolded Some] sdb_okD [OF ok]]
    let ?w = "set_acct (world s) a (Some ((oview (db s) p)\<lparr>v_suicided := True, v_balance := 0\<rparr>))"
    have "undoes s1 [suicideChange a (suicided p) (Balance (data p))] ?w (world s)"
      using undoes_suicide [of ?w a _ s1 "suicided p" "Balance (data p)"] D(1) by (simp add: oview_def)
    then have "evolves s1 (snd (Suicide s a))"
      using evolves_ok(2) [OF ev] D
      by (simp add: Suicide_def Pair Some) (intro evolves_store, simp_all add: d)
    then show ?thesis
      using D evolves_trans [OF ev]
      by (simp add: Suicide_def Pair Some spec_Suicide_def world_store d del: world_setStateObject)
  qed
qed

end
