(* ===== verification/State_Snapshot.thy ===== *)
theory State_Snapshot
  imports State_Refine
begin

text \<open>
  Snapshots of the world state: \<^verbatim>\<open>Snapshot\<close> and \<^verbatim>\<open>RevertToSnapshot\<close> on top of the undo property of
  the single operations.  The locale \<open>snapshot_state\<close> is the contract that the EVM relies on;
  it is interpreted on \<^typ>\<open>StateDB\<close>.  The second half is the refinement to the machine that
  keeps a copy of the world per snapshot.
\<close>

section \<open>Logs, preimages and refunds\<close>

lemma evolves_entry_other:
  assumes ok: "sdb_ok s" and "same_core s' s" "stateObjects s' = stateObjects s"
    "journal s' = journal (journal_add s e)" "undoes s [e] (world s') (world s)"
    "validRevisions s' = validRevisions s" "nextRevisionId s' = nextRevisionId s"
  shows "evolves s s'"
  using assms objects_cong [of s' s] by (intro evolves_entry) auto

lemma world_idem [simp]:
  "(world s)\<lparr>w_refund := refund s\<rparr> = world s" "(world s)\<lparr>w_preimages := preimages s\<rparr> = world s"
  "(world s)\<lparr>w_logs := GetLogs s, w_logSize := logSize s\<rparr> = world s"
  by (simp_all add: world_def)

lemma AddRefund_correct:
  assumes "sdb_ok s"
  shows "evolves s (AddRefund s g) \<and> world (AddRefund s g) = (world s)\<lparr>w_refund := refund s + g\<rparr> \<and>
         db (AddRefund s g) = db s"
proof -
  let ?s = "AddRefund s g"
  have c: "same_core ?s s" "stateObjects ?s = stateObjects s" by (simp_all add: AddRefund_def same_core_def)
  have w: "world ?s = (world s)\<lparr>w_refund := refund s + g\<rparr>"
    using objects_cong [OF c] by (simp add: world_eq_iff GetLogs_def fun_eq_iff AddRefund_def)
  moreover have "undoes s [refundChange (refund s)] (world ?s) (world s)"
    using undoes_refund [of s "refund s" "world ?s"] by (simp add: w)
  ultimately show ?thesis
    using evolves_entry_other [OF assms c, of "refundChange (refund s)"] by (simp add: AddRefund_def)
qed

lemma SubRefund_correct:
  assumes "sdb_ok s"
  shows "(case SubRefund s g of
            None \<Rightarrow> refund s < g
          | Some s' \<Rightarrow> g \<le> refund s \<and> evolves s s' \<and> world s' = (world s)\<lparr>w_refund := refund s - g\<rparr> \<and> db s' = db s)"
proof (cases "g > refund s")
  case True
  then show ?thesis by (simp add: SubRefund_def)
next
  case False
  define s' where "s' = (journal_add s (refundChange (refund s)))\<lparr>refund := refund s - g\<rparr>"
  have c: "same_core s' s" "stateObjects s' = stateObjects s" by (simp_all add: s'_def same_core_def)
  have w: "world s' = (world s)\<lparr>w_refund := refund s - g\<rparr>"
    using objects_cong [OF c] by (simp add: world_eq_iff GetLogs_def fun_eq_iff s'_def)
  moreover have "undoes s [refundChange (refund s)] (world s') (world s)"
    using undoes_refund [of s "refund s" "world s'"] by (simp add: w)
  ultimately have "evolves s s'"
    using evolves_entry_other [OF assms c, of "refundChange (refund s)"] by (simp add: s'_def)
  then show ?thesis using False w by (simp add: SubRefund_def Let_def s'_def)
qed

lemma AddPreimage_correct:
  assumes "sdb_ok s"
  shows "evolves s (AddPreimage s h p) \<and> world (AddPreimage s h p) = spec_AddPreimage (world s) h p \<and>
         db (AddPreimage s h p) = db s"
proof (cases "preimages s h")
  case (Some x)
  then show ?thesis using assms by (simp add: AddPreimage_def spec_AddPreimage_def evolves_refl)
next
  case None
  let ?s = "AddPreimage s h p"
  have c: "same_core ?s s" "stateObjects ?s = stateObjects s"
    using None by (simp_all add: AddPreimage_def same_core_def)
  have w: "world ?s = (world s)\<lparr>w_preimages := (preimages s)(h \<mapsto> p)\<rparr>"
    using objects_cong [OF c] None by (simp add: world_eq_iff GetLogs_def fun_eq_iff AddPreimage_def)
  have "(preimages s)(h := None) = preimages s" using None by auto
  then have "undoes s [addPreimageChange h] (world ?s) (world s)"
    using undoes_preimage [of s h "world ?s"] by (simp add: w)
  then show ?thesis
    using evolves_entry_other [OF assms c, of "addPreimageChange h"] None w
    by (simp add: AddPreimage_def spec_AddPreimage_def)
qed

lemma AddLog_correct:
  assumes "sdb_ok s"
  shows "evolves s (AddLog s l) \<and> world (AddLog s l) = spec_AddLog (world s) l \<and> db (AddLog s l) = db s"
proof -
  let ?s = "AddLog s l"
  let ?l = "l\<lparr>log_TxHash := thash s, log_BlockHash := bhash s, log_TxIndex := txIndex s, log_Index := logSize s\<rparr>"
  have c: "same_core ?s s" "stateObjects ?s = stateObjects s" by (simp_all add: AddLog_def same_core_def Let_def)
  have "GetLogs ?s = (GetLogs s)(thash s := GetLogs s (thash s) @ [?l])"
    by (simp add: AddLog_def GetLogs_def fun_eq_iff Let_def)
  then have w: "world ?s = spec_AddLog (world s) l"
    using objects_cong [OF c] by (simp add: world_eq_iff spec_AddLog_def AddLog_def Let_def)
  moreover have "undoes s [addLogChange (thash s)] (world ?s) (world s)"
    using undoes_log [of "world ?s" "thash s" "GetLogs s (thash s)" ?l s]
    by (simp add: w spec_AddLog_def)
  ultimately show ?thesis
    using evolves_entry_other [OF assms c, of "addLogChange (thash s)"] by (simp add: AddLog_def Let_def)
qed

section \<open>Snapshot and revert\<close>

lemma Snapshot_correct:
  assumes "sdb_ok s"
  shows "evolves s (snd (Snapshot s)) \<and> world (snd (Snapshot s)) = world s \<and> db (snd (Snapshot s)) = db s \<and>
         fst (Snapshot s) = nextRevisionId s"
proof -
  let ?s = "snd (Snapshot s)"
  have c: "same_core ?s s" "stateObjects ?s = stateObjects s" by (simp_all add: Snapshot_def same_core_def Let_def)
  have w: "world ?s = world s"
    using objects_cong [OF c] by (simp add: world_eq_iff GetLogs_def fun_eq_iff Snapshot_def Let_def)
  have "sdb_ok ?s"
    using assms objects_cong [OF c]
    by (auto simp: sdb_ok_def Snapshot_def journal_length_def Let_def sorted_wrt_append less_Suc_eq)
  then have "evolves s ?s"
    using assms c w by (auto simp: evolves_def Snapshot_def journal_length_def Let_def)
  then show ?thesis using w by (simp add: Snapshot_def Let_def)
qed

lemma getStateObject_snd_frame:
  "getStateObject s a = (x, s') \<Longrightarrow>
     journal s' = journal s \<and> validRevisions s' = validRevisions s \<and> nextRevisionId s' = nextRevisionId s"
  using getStateObject_frame(10-12) [of s a] by simp

lemma modify_object_frame:
  "modify_object s a f = Some s' \<Longrightarrow>
     journal s' = journal s \<and> validRevisions s' = validRevisions s \<and> nextRevisionId s' = nextRevisionId s"
  by (auto simp: modify_object_def split: prod.splits option.splits dest: getStateObject_snd_frame)

lemma revert_frame:
  "revert e s = Some s' \<Longrightarrow>
     journal s' = journal s \<and> validRevisions s' = validRevisions s \<and> nextRevisionId s' = nextRevisionId s"
  by (cases e) (auto dest: getStateObject_snd_frame modify_object_frame simp: Let_def
      split: prod.splits option.splits if_splits)

lemma revert_entries_frame:
  "revert_entries es s = Some s' \<Longrightarrow>
     entries (journal s') = entries (journal s) \<and> validRevisions s' = validRevisions s \<and>
     nextRevisionId s' = nextRevisionId s"
proof (induction es arbitrary: s)
  case (Cons e es)
  then obtain s1 where s1: "revert e s = Some s1"
    "revert_entries es (s1\<lparr>journal := journal_undirty (journal s1) e\<rparr>) = Some s'"
    by (auto split: Option.bind_splits)
  have "entries (journal_undirty j e) = entries j" for j
    by (simp add: journal_undirty_def Let_def split: option.splits)
  then show ?case using Cons.IH [OF s1(2)] revert_frame [OF s1(1)] by simp
qed simp

text \<open>The binary search finds the revision with the given id, if it is valid.\<close>

definition revision_index :: "revision list \<Rightarrow> nat \<Rightarrow> nat" where
  "revision_index rs revid = sort_Search (length rs) (\<lambda>i. i < length rs \<longrightarrow> rev_id (rs ! i) \<ge> revid)"

lemma revision_index_hit:
  assumes s: "sorted_wrt (\<lambda>r r'. rev_id r < rev_id r') rs" and i: "i < length rs" "rev_id (rs ! i) = revid"
  shows "revision_index rs revid = i"
proof -
  let ?f = "\<lambda>i. i < length rs \<longrightarrow> rev_id (rs ! i) \<ge> revid"
  have lt: "rev_id (rs ! a) < rev_id (rs ! b)" if "a < b" "b < length rs" for a b
    using s that by (simp add: sorted_wrt_iff_nth_less)
  have le: "rev_id (rs ! a) \<le> rev_id (rs ! b)" if "a \<le> b" "b < length rs" for a b
    using lt [of a b] that by (cases "a = b") auto
  have mono: "\<forall>a b. a \<le> b \<longrightarrow> ?f a \<longrightarrow> ?f b"
  proof (intro allI impI)
    fix a b assume "a \<le> b" "?f a" "b < length rs"
    then show "rev_id (rs ! b) \<ge> revid" using le [of a b] by simp
  qed
  have C: "\<forall>k < revision_index rs revid. \<not> ?f k" "\<forall>k \<ge> revision_index rs revid. k < length rs \<longrightarrow> ?f k"
    using sort_Search_correct [OF mono, of "length rs"] unfolding revision_index_def by blast+
  have "\<not> i < revision_index rs revid" using C(1) i by blast
  moreover have "\<not> revision_index rs revid < i"
  proof
    assume a: "revision_index rs revid < i"
    then have "rev_id (rs ! revision_index rs revid) \<ge> revid" using C(2) i(1) by (meson less_trans order_refl)
    with lt [OF a i(1)] i(2) show False by simp
  qed
  ultimately show ?thesis by simp
qed

lemma RevertToSnapshot_unfold:
  "RevertToSnapshot s revid =
     (let idx = revision_index (validRevisions s) revid in
      if idx = length (validRevisions s) \<or> rev_id (validRevisions s ! idx) \<noteq> revid then None
      else do { s' \<leftarrow> journal_revert s (journalIndex (validRevisions s ! idx));
                Some (s'\<lparr>validRevisions := take idx (validRevisions s')\<rparr>) })"
  by (simp add: RevertToSnapshot_def revision_index_def Let_def)

lemma sdb_ok_sorted: "sdb_ok s \<Longrightarrow> sorted_wrt (\<lambda>r r'. rev_id r < rev_id r') (validRevisions s)"
  unfolding sdb_ok_def by (rule sorted_wrt_mono_rel [where P = "\<lambda>r r'. rev_id r < rev_id r' \<and> journalIndex r \<le> journalIndex r'"]) auto

lemma RevertToSnapshot_hit:
  assumes ok: "sdb_ok s" and i: "i < length (validRevisions s)" "rev_id (validRevisions s ! i) = revid"
    and un: "undoes s (rev (drop (journalIndex (validRevisions s ! i)) (entries (journal s)))) (world s) w"
  obtains s' where "RevertToSnapshot s revid = Some s'" "world s' = w" "objects_ok s'" "same_core s' s"
    "entries (journal s') = take (journalIndex (validRevisions s ! i)) (entries (journal s))"
    "validRevisions s' = take i (validRevisions s)" "nextRevisionId s' = nextRevisionId s"
proof -
  let ?k = "journalIndex (validRevisions s ! i)"
  have idx: "revision_index (validRevisions s) revid = i"
    using revision_index_hit [OF sdb_ok_sorted [OF ok] i] .
  obtain t where t: "revert_entries (rev (drop ?k (entries (journal s)))) s = Some t" "same_core t s"
    "objects_ok t" "world t = w"
    using un [unfolded undoes_def, rule_format, of s] ok by auto
  note F = revert_entries_frame [OF t(1)]
  define s' where "s' = t\<lparr>journal := (journal t)\<lparr>entries := take ?k (entries (journal t))\<rparr>,
                          validRevisions := take i (validRevisions t)\<rparr>"
  have r: "RevertToSnapshot s revid = Some s'"
    using i by (simp add: RevertToSnapshot_unfold idx journal_revert_def t(1) s'_def)
  have c: "same_core s' t" "stateObjects s' = stateObjects t" by (simp_all add: s'_def same_core_def)
  have "world s' = w" "objects_ok s'"
    using objects_cong [OF c] t by (auto simp: world_eq_iff GetLogs_def fun_eq_iff s'_def)
  with r show thesis
    using that F same_core_trans [OF c(1) t(2)] by (simp add: s'_def)
qed

lemma RevertToSnapshot_correct:
  assumes ok: "sdb_ok s" and ev: "evolves (snd (Snapshot s)) s2"
  shows "\<exists>s3. RevertToSnapshot s2 (fst (Snapshot s)) = Some s3 \<and> world s3 = world s \<and> evolves s s3"
proof -
  let ?s1 = "snd (Snapshot s)" and ?n = "length (validRevisions s)"
  note S = Snapshot_correct [OF ok]
  obtain rs es where rs: "validRevisions s2 = validRevisions ?s1 @ rs"
    and es: "entries (journal s2) = entries (journal ?s1) @ es" "undoes ?s1 (rev es) (world s2) (world ?s1)"
    using ev unfolding evolves_def by blast
  have r1: "validRevisions ?s1 = validRevisions s @
      [\<lparr>rev_id = nextRevisionId s, journalIndex = length (entries (journal s))\<rparr>]"
    and j1: "journal ?s1 = journal s"
    by (simp_all add: Snapshot_def journal_length_def Let_def)
  have hit: "?n < length (validRevisions s2)" "rev_id (validRevisions s2 ! ?n) = fst (Snapshot s)"
    "journalIndex (validRevisions s2 ! ?n) = length (entries (journal s))"
    by (simp_all add: rs r1 nth_append, simp_all add: Snapshot_def Let_def)
  have un: "undoes s2 (rev (drop (length (entries (journal s))) (entries (journal s2)))) (world s2) (world s)"
    using es S undoes_core [OF evolves_core [OF ev]] by (simp add: j1)
  from RevertToSnapshot_hit [OF evolves_ok(2) [OF ev] hit(1,2) un [folded hit(3)]]
  obtain s3 where s3: "RevertToSnapshot s2 (fst (Snapshot s)) = Some s3" "world s3 = world s" "objects_ok s3"
    "same_core s3 s2" "entries (journal s3) = entries (journal s)" "validRevisions s3 = validRevisions s"
    "nextRevisionId s3 = nextRevisionId s2"
    unfolding hit(3) by (auto simp: es(1) j1 rs r1)
  have le: "nextRevisionId s \<le> nextRevisionId s2"
    using ev S unfolding evolves_def by (simp add: Snapshot_def Let_def)
  have "same_core s3 s"
    using s3(4) evolves_core [OF ev] S unfolding evolves_def by (meson same_core_trans)
  moreover have "sdb_ok s3"
    using ok s3 le unfolding sdb_ok_def by fastforce
  ultimately have "evolves s s3"
    using ok s3 le by (simp add: evolves_def)
  with s3(1,2) show ?thesis by blast
qed

section \<open>The contract of a state with snapshots\<close>

text \<open>
  What \<^verbatim>\<open>vm.StateDB\<close> guarantees to \<^verbatim>\<open>EVM.Call\<close> and its siblings, which bracket every nested call with
  a snapshot: whatever happened since, the snapshot can be reverted, and doing so restores
  the world and is itself an evolution of the earlier state.
\<close>

locale snapshot_state =
  fixes good :: "'s \<Rightarrow> bool" and view :: "'s \<Rightarrow> 'w" and evolve :: "'s \<Rightarrow> 's \<Rightarrow> bool"
    and snap :: "'s \<Rightarrow> 'i \<times> 's" and rollback :: "'s \<Rightarrow> 'i \<Rightarrow> 's option"
  assumes evolve_refl: "good s \<Longrightarrow> evolve s s"
    and evolve_trans: "evolve s s' \<Longrightarrow> evolve s' s'' \<Longrightarrow> evolve s s''"
    and evolve_good: "evolve s s' \<Longrightarrow> good s'"
    and snap_evolve: "good s \<Longrightarrow> evolve s (snd (snap s)) \<and> view (snd (snap s)) = view s"
    and rollback_snap: "good s \<Longrightarrow> evolve (snd (snap s)) s2 \<Longrightarrow>
          \<exists>s3. rollback s2 (fst (snap s)) = Some s3 \<and> view s3 = view s \<and> evolve s s3"
begin

definition bracket :: "'s \<Rightarrow> ('s \<Rightarrow> ('e option \<times> 's) option) \<Rightarrow> ('e option \<times> 's) option" where
  "bracket s body =
     (let (i, s1) = snap s in
      case body s1 of
        None \<Rightarrow> None
      | Some (None, s2) \<Rightarrow> Some (None, s2)
      | Some (Some e, s2) \<Rightarrow> map_option (Pair (Some e)) (rollback s2 i))"

lemma bracket_total:
  assumes "good s" and "body (snd (snap s)) = Some (r, s2)" and "evolve (snd (snap s)) s2"
  shows "\<exists>s3. bracket s body = Some (r, s3) \<and> evolve s s3 \<and> (r \<noteq> None \<longrightarrow> view s3 = view s)"
proof (cases r)
  case None
  then show ?thesis
    using assms snap_evolve [OF assms(1)] evolve_trans by (auto simp: bracket_def split: prod.splits)
next
  case (Some e)
  then show ?thesis
    using assms rollback_snap [OF assms(1,3)] by (auto simp: bracket_def split: prod.splits)
qed

text \<open>An inner bracket that failed does not disturb the outer snapshot.\<close>

lemma nested_rollback:
  assumes "good s" "evolve (snd (snap s)) t" "evolve (snd (snap t)) t2" "rollback t2 (fst (snap t)) = Some t3"
  shows "\<exists>s3. rollback t3 (fst (snap s)) = Some s3 \<and> view s3 = view s \<and> evolve s s3"
proof -
  have "good t" using assms(2) by (rule evolve_good)
  then have "evolve t t3" using rollback_snap [OF _ assms(3)] assms(4) by auto
  then show ?thesis using rollback_snap [OF assms(1)] evolve_trans [OF assms(2)] by blast
qed

end

interpretation sdb: snapshot_state sdb_ok world evolves Snapshot RevertToSnapshot
  by unfold_locales
     (use evolves_refl evolves_trans evolves_ok(2) Snapshot_correct RevertToSnapshot_correct in blast)+

section \<open>The calls of the interface and their answers\<close>

datatype answer =
    NoAnswer | ABool bool | AInt int | AUint uint64 | ANat nat | AHash Hash | ABytes bytes

datatype state_call =
    DoCreateAccount Address
  | DoSubBalance Address int | DoAddBalance Address int | DoSetBalance Address int | DoGetBalance Address
  | DoGetNonce Address | DoSetNonce Address uint64
  | DoGetCodeHash Address | DoGetCode Address | DoSetCode Address bytes | DoGetCodeSize Address
  | DoAddRefund uint64 | DoSubRefund uint64 | DoGetRefund
  | DoGetCommittedState Address Hash | DoGetState Address Hash | DoSetState Address Hash Hash
  | DoSuicide Address | DoHasSuicided Address
  | DoExist Address | DoEmpty Address
  | DoRevertToSnapshot nat | DoSnapshot
  | DoAddLog Log | DoAddPreimage Hash bytes

fun perform :: "state_call \<Rightarrow> StateDB \<Rightarrow> (answer \<times> StateDB) option" where
  "perform (DoCreateAccount a) s = Some (NoAnswer, CreateAccount s a)"
| "perform (DoSubBalance a n) s = Some (NoAnswer, SubBalance s a n)"
| "perform (DoAddBalance a n) s = Some (NoAnswer, AddBalance s a n)"
| "perform (DoSetBalance a n) s = Some (NoAnswer, SetBalance s a n)"
| "perform (DoGetBalance a) s = Some (map_prod AInt id (GetBalance s a))"
| "perform (DoGetNonce a) s = Some (map_prod AUint id (GetNonce s a))"
| "perform (DoSetNonce a n) s = Some (NoAnswer, SetNonce s a n)"
| "perform (DoGetCodeHash a) s = Some (map_prod AHash id (GetCodeHash s a))"
| "perform (DoGetCode a) s = Some (map_prod ABytes id (GetCode s a))"
| "perform (DoSetCode a c) s = Some (NoAnswer, SetCode s a c)"
| "perform (DoGetCodeSize a) s = Some (map_prod ANat id (GetCodeSize s a))"
| "perform (DoAddRefund g) s = Some (NoAnswer, AddRefund s g)"
| "perform (DoSubRefund g) s = map_option (Pair NoAnswer) (SubRefund s g)"
| "perform DoGetRefund s = Some (AUint (GetRefund s), s)"
| "perform (DoGetCommittedState a k) s = Some (map_prod AHash id (GetCommittedState s a k))"
| "perform (DoGetState a k) s = Some (map_prod AHash id (GetState s a k))"
| "perform (DoSetState a k v) s = Some (NoAnswer, SetState s a k v)"
| "perform (DoSuicide a) s = Some (map_prod ABool id (Suicide s a))"
| "perform (DoHasSuicided a) s = Some (map_prod ABool id (HasSuicided s a))"
| "perform (DoExist a) s = Some (map_prod ABool id (Exist s a))"
| "perform (DoEmpty a) s = Some (map_prod ABool id (Empty s a))"
| "perform (DoRevertToSnapshot i) s = map_option (Pair NoAnswer) (RevertToSnapshot s i)"
| "perform DoSnapshot s = Some (map_prod ANat id (Snapshot s))"
| "perform (DoAddLog l) s = Some (NoAnswer, AddLog s l)"
| "perform (DoAddPreimage h p) s = Some (NoAnswer, AddPreimage s h p)"

fun perform_all :: "state_call list \<Rightarrow> StateDB \<Rightarrow> (answer list \<times> StateDB) option" where
  "perform_all [] s = Some ([], s)"
| "perform_all (c # cs) s =
     do { (x, s) \<leftarrow> perform c s; (xs, s) \<leftarrow> perform_all cs s; Some (x # xs, s) }"

section \<open>The specification: a copy of the world per snapshot\<close>

record SpecState =
  sp_world :: World
  sp_snaps :: "(nat \<times> World) list"
  sp_next :: nat

definition spec_empty :: "Backend \<Rightarrow> acctview \<Rightarrow> bool" where
  "spec_empty d v \<longleftrightarrow> v_nonce v = 0 \<and> v_balance v = 0 \<and> v_codeHash v = emptyCodeHash d"

definition spec_write :: "SpecState \<Rightarrow> World \<Rightarrow> (answer \<times> SpecState) option" where
  "spec_write p w = Some (NoAnswer, p\<lparr>sp_world := w\<rparr>)"

definition spec_read :: "SpecState \<Rightarrow> Address \<Rightarrow> answer \<Rightarrow> (acctview \<Rightarrow> answer) \<Rightarrow> (answer \<times> SpecState) option" where
  "spec_read p a none f = Some (case w_accts (sp_world p) a of None \<Rightarrow> none | Some v \<Rightarrow> f v, p)"

fun spec_perform :: "Backend \<Rightarrow> state_call \<Rightarrow> SpecState \<Rightarrow> (answer \<times> SpecState) option" where
  "spec_perform d (DoCreateAccount a) p = spec_write p (spec_CreateAccount d (sp_world p) a)"
| "spec_perform d (DoSubBalance a n) p =
     spec_write p (upd_acct d (sp_world p) a (\<lambda>v. v\<lparr>v_balance := v_balance v - n\<rparr>))"
| "spec_perform d (DoAddBalance a n) p =
     spec_write p (upd_acct d (sp_world p) a (\<lambda>v. v\<lparr>v_balance := v_balance v + n\<rparr>))"
| "spec_perform d (DoSetBalance a n) p =
     spec_write p (upd_acct d (sp_world p) a (\<lambda>v. v\<lparr>v_balance := n\<rparr>))"
| "spec_perform d (DoGetBalance a) p = spec_read p a (AInt 0) (\<lambda>v. AInt (v_balance v))"
| "spec_perform d (DoGetNonce a) p = spec_read p a (AUint 0) (\<lambda>v. AUint (v_nonce v))"
| "spec_perform d (DoSetNonce a n) p = spec_write p (upd_acct d (sp_world p) a (\<lambda>v. v\<lparr>v_nonce := n\<rparr>))"
| "spec_perform d (DoGetCodeHash a) p = spec_read p a (AHash 0) (\<lambda>v. AHash (v_codeHash v))"
| "spec_perform d (DoGetCode a) p = spec_read p a (ABytes []) (\<lambda>v. ABytes (v_code v))"
| "spec_perform d (DoSetCode a c) p =
     spec_write p (upd_acct d (sp_world p) a (\<lambda>v. v\<lparr>v_codeHash := Keccak256Hash d c, v_code := c\<rparr>))"
| "spec_perform d (DoGetCodeSize a) p = spec_read p a (ANat 0) (\<lambda>v. ANat (length (v_code v)))"
| "spec_perform d (DoAddRefund g) p =
     spec_write p ((sp_world p)\<lparr>w_refund := w_refund (sp_world p) + g\<rparr>)"
| "spec_perform d (DoSubRefund g) p =
     (if g > w_refund (sp_world p) then None
      else spec_write p ((sp_world p)\<lparr>w_refund := w_refund (sp_world p) - g\<rparr>))"
| "spec_perform d DoGetRefund p = Some (AUint (w_refund (sp_world p)), p)"
| "spec_perform d (DoGetCommittedState a k) p = spec_read p a (AHash 0) (\<lambda>v. AHash (v_committed v k))"
| "spec_perform d (DoGetState a k) p = spec_read p a (AHash 0) (\<lambda>v. AHash (v_storage v k))"
| "spec_perform d (DoSetState a k x) p =
     spec_write p (upd_acct d (sp_world p) a (\<lambda>v. v\<lparr>v_storage := (v_storage v)(k := x)\<rparr>))"
| "spec_perform d (DoSuicide a) p =
     Some (ABool (fst (spec_Suicide (sp_world p) a)), p\<lparr>sp_world := snd (spec_Suicide (sp_world p) a)\<rparr>)"
| "spec_perform d (DoHasSuicided a) p = spec_read p a (ABool False) (\<lambda>v. ABool (v_suicided v))"
| "spec_perform d (DoExist a) p = spec_read p a (ABool False) (\<lambda>v. ABool True)"
| "spec_perform d (DoEmpty a) p = spec_read p a (ABool True) (\<lambda>v. ABool (spec_empty d v))"
| "spec_perform d (DoRevertToSnapshot i) p =
     (case map_of (sp_snaps p) i of
        None \<Rightarrow> None
      | Some w \<Rightarrow> Some (NoAnswer, p\<lparr>sp_world := w, sp_snaps := takeWhile (\<lambda>x. fst x \<noteq> i) (sp_snaps p)\<rparr>))"
| "spec_perform d DoSnapshot p =
     Some (ANat (sp_next p),
           p\<lparr>sp_snaps := sp_snaps p @ [(sp_next p, sp_world p)], sp_next := sp_next p + 1\<rparr>)"
| "spec_perform d (DoAddLog l) p = spec_write p (spec_AddLog (sp_world p) l)"
| "spec_perform d (DoAddPreimage h x) p = spec_write p (spec_AddPreimage (sp_world p) h x)"

fun spec_perform_all :: "Backend \<Rightarrow> state_call list \<Rightarrow> SpecState \<Rightarrow> (answer list \<times> SpecState) option" where
  "spec_perform_all d [] p = Some ([], p)"
| "spec_perform_all d (c # cs) p =
     do { (x, p) \<leftarrow> spec_perform d c p; (xs, p) \<leftarrow> spec_perform_all d cs p; Some (x # xs, p) }"

end
