(* ===== verification/State_Correct.thy ===== *)
theory State_Correct
  imports State_Snapshot
begin

text \<open>
  The journaled state refines the machine that copies the world at every snapshot.  The
  simulation relation says of every valid revision that undoing the journal down to its
  index yields the world that was saved; the main result is an equation between the answers
  and panics of the two machines on any sequence of calls.
\<close>

section \<open>Readers\<close>

lemma read_object:
  assumes "sdb_ok s"
  shows "evolves s (snd (getStateObject s a))" "world (snd (getStateObject s a)) = world s"
    "db (snd (getStateObject s a)) = db s" "sdb_ok (snd (getStateObject s a))"
    "\<And>obj. fst (getStateObject s a) = Some obj \<Longrightarrow>
       acct_view s a = Some (oview (db s) obj) \<and> address obj = a \<and> \<not> deleted obj"
    "fst (getStateObject s a) = None \<Longrightarrow> acct_view s a = None"
  using evolves_getStateObject [OF assms, of a] evolves_ok(2) getStateObject_SomeD [of s a] getStateObject_NoneD [of s a]
    assms by (auto simp: prod_eq_iff)

text \<open>The common shape of a reader: its answer is a function of the account's view, the world stays.\<close>

definition reads :: "StateDB \<Rightarrow> Address \<Rightarrow> 'a \<Rightarrow> (acctview \<Rightarrow> 'a) \<Rightarrow> 'a \<times> StateDB \<Rightarrow> bool" where
  "reads s a none f r \<longleftrightarrow>
     fst r = (case acct_view s a of None \<Rightarrow> none | Some v \<Rightarrow> f v) \<and>
     evolves s (snd r) \<and> world (snd r) = world s \<and> db (snd r) = db s \<and>
     nextRevisionId (snd r) = nextRevisionId s"

lemma reads_plain:
  assumes ok: "sdb_ok s" and f: "\<And>obj. g obj = f (oview (db s) obj)"
  shows "reads s a none f (case fst (getStateObject s a) of None \<Rightarrow> none | Some obj \<Rightarrow> g obj, snd (getStateObject s a))"
  using read_object [OF ok, of a] f
  by (cases "fst (getStateObject s a)") (auto simp: reads_def)

lemma reads_cached:
  assumes ok: "sdb_ok s"
    and f: "\<And>obj. fst (g obj) = f (oview (db s) obj)" "\<And>obj. oview (db s) (snd (g obj)) = oview (db s) obj"
      "\<And>obj. address (snd (g obj)) = address obj" "\<And>obj. deleted (snd (g obj)) = deleted obj"
  shows "reads s a none f
           (case fst (getStateObject s a) of
              None \<Rightarrow> (none, snd (getStateObject s a))
            | Some obj \<Rightarrow> (fst (g obj), setStateObject (snd (getStateObject s a)) (snd (g obj))))"
proof (cases "fst (getStateObject s a)")
  case None
  then show ?thesis using read_object [OF ok, of a] by (auto simp: reads_def)
next
  case (Some obj)
  note R = read_object [OF ok, of a]
  let ?s1 = "snd (getStateObject s a)"
  have v: "acct_view s a = Some (oview (db s) obj)" "address obj = a" "\<not> deleted obj"
    using R(5) [OF Some] by simp_all
  have "evolves ?s1 (setStateObject ?s1 (snd (g obj)))"
    using R(4) v f by (intro evolves_store_quiet) simp_all
  then have "evolves s (setStateObject ?s1 (snd (g obj)))" using R(1) evolves_trans by blast
  then show ?thesis
    using v f Some by (simp add: reads_def world_store del: world_setStateObject)
qed

lemma so_empty_view: "so_empty d obj = spec_empty d (oview d obj)"
  by (simp add: so_empty_def spec_empty_def)

lemma Exist_reads: "sdb_ok s \<Longrightarrow> reads s a False (\<lambda>_. True) (Exist s a)"
  using reads_plain [of s "\<lambda>_. True" "\<lambda>_. True" a False]
  by (cases "fst (getStateObject s a)") (simp_all add: Exist_def case_prod_beta Let_def)

lemma Empty_reads: "sdb_ok s \<Longrightarrow> reads s a True (spec_empty (db s)) (Empty s a)"
  using reads_plain [of s "so_empty (db s)" "spec_empty (db s)" a True]
  by (simp add: Empty_def case_prod_beta Let_def so_empty_view cong: option.case_cong)

lemma GetBalance_reads: "sdb_ok s \<Longrightarrow> reads s a 0 v_balance (GetBalance s a)"
  using reads_plain [of s "\<lambda>c. Balance (data c)" v_balance a 0]
  by (simp add: GetBalance_def case_prod_beta Let_def)

lemma GetNonce_reads: "sdb_ok s \<Longrightarrow> reads s a 0 v_nonce (GetNonce s a)"
  using reads_plain [of s "\<lambda>c. Nonce (data c)" v_nonce a 0]
  by (simp add: GetNonce_def case_prod_beta Let_def)

lemma GetCodeHash_reads: "sdb_ok s \<Longrightarrow> reads s a 0 v_codeHash (GetCodeHash s a)"
  using reads_plain [of s "\<lambda>c. CodeHash (data c)" v_codeHash a 0]
  by (simp add: GetCodeHash_def case_prod_beta Let_def)

lemma HasSuicided_reads: "sdb_ok s \<Longrightarrow> reads s a False v_suicided (HasSuicided s a)"
  using reads_plain [of s suicided v_suicided a False]
  by (simp add: HasSuicided_def case_prod_beta Let_def)

lemma GetState_reads: "sdb_ok s \<Longrightarrow> reads s a 0 (\<lambda>v. v_storage v k) (GetState s a k)"
  using reads_cached [of s "\<lambda>c. so_GetState (db s) c k" "\<lambda>v. v_storage v k" a 0]
  by (simp add: GetState_def case_prod_beta Let_def current_def cong: option.case_cong)

lemma GetCommittedState_reads: "sdb_ok s \<Longrightarrow> reads s a 0 (\<lambda>v. v_committed v k) (GetCommittedState s a k)"
  using reads_cached [of s "\<lambda>c. so_GetCommittedState (db s) c k" "\<lambda>v. v_committed v k" a 0]
  by (simp add: GetCommittedState_def case_prod_beta Let_def committed_def cong: option.case_cong)

lemma GetCode_reads: "sdb_ok s \<Longrightarrow> reads s a [] v_code (GetCode s a)"
  using reads_cached [of s "\<lambda>c. (code_of (db s) c, snd (so_Code (db s) c))" v_code a "[]"]
  by (simp add: GetCode_def case_prod_beta Let_def code_of_def cong: option.case_cong)

lemma GetCodeSize_reads:
  assumes ok: "sdb_ok s"
  shows "reads s a 0 (\<lambda>v. length (v_code v)) (GetCodeSize s a)"
proof (cases "fst (getStateObject s a)")
  case None
  then show ?thesis using read_object [OF ok, of a] by (simp add: reads_def GetCodeSize_def case_prod_beta)
next
  case (Some obj)
  note R = read_object [OF ok, of a]
  let ?s1 = "snd (getStateObject s a)"
  have v: "acct_view s a = Some (oview (db s) obj)" using R(5) [OF Some] by simp
  have e: "ContractCode (db s) (emptyCodeHash (db s)) = Some c \<Longrightarrow> c = []" for c
    using sdb_ok_backend [OF ok] by (simp add: backend_ok_def)
  have ev: "evolves s (setError ?s1 err)" for err
    by (rule evolves_trans [OF R(1)], rule evolves_quiet) (use R in auto)
  show ?thesis
    using R(1) v e ev Some
    by (auto simp: reads_def GetCodeSize_def case_prod_beta code_of_eq code_value_def split: option.splits)
qed

section \<open>The simulation\<close>

text \<open>The journal positions that matter: those of the valid revisions, and the end; with their worlds.\<close>

definition marks :: "StateDB \<Rightarrow> nat list" where
  "marks s = map journalIndex (validRevisions s) @ [length (entries (journal s))]"

definition worlds :: "SpecState \<Rightarrow> World list" where
  "worlds p = map snd (sp_snaps p) @ [sp_world p]"

definition segment :: "StateDB \<Rightarrow> nat \<Rightarrow> nat \<Rightarrow> journalEntry list" where
  "segment s k l = drop k (take l (entries (journal s)))"

definition simulates :: "StateDB \<Rightarrow> SpecState \<Rightarrow> bool" where
  "simulates s p \<longleftrightarrow>
     sdb_ok s \<and> world s = sp_world p \<and> nextRevisionId s = sp_next p \<and>
     map rev_id (validRevisions s) = map fst (sp_snaps p) \<and>
     (\<forall>j < length (marks s). \<forall>i \<le> j.
        undoes s (rev (segment s (marks s ! i) (marks s ! j))) (worlds p ! j) (worlds p ! i))"

lemma simulates_length: "simulates s p \<Longrightarrow> length (validRevisions s) = length (sp_snaps p)"
  unfolding simulates_def by (metis length_map)

lemma marks_le:
  assumes "sdb_ok s" "i < length (marks s)"
  shows "marks s ! i \<le> length (entries (journal s))"
  using assms by (auto simp: marks_def sdb_ok_def nth_append)

lemma marks_mono:
  assumes "sdb_ok s" "i \<le> j" "j < length (marks s)"
  shows "marks s ! i \<le> marks s ! j"
proof (cases "j < length (validRevisions s) \<and> i < j")
  case True
  then show ?thesis
    using assms(1) by (auto simp: marks_def sdb_ok_def nth_append sorted_wrt_iff_nth_less)
next
  case False
  then have "i = j \<or> marks s ! j = length (entries (journal s))"
    using assms by (auto simp: marks_def nth_append less_Suc_eq)
  then show ?thesis using marks_le [OF assms(1), of i] assms by auto
qed

lemma evolves_same_revisions:
  assumes "evolves s s'" "nextRevisionId s' = nextRevisionId s"
  shows "validRevisions s' = validRevisions s"
proof -
  obtain rs where rs: "validRevisions s' = validRevisions s @ rs" "\<forall>r \<in> set rs. nextRevisionId s \<le> rev_id r"
    using assms(1) unfolding evolves_def by blast
  have "\<forall>r \<in> set rs. rev_id r < nextRevisionId s"
    using assms rs(1) unfolding evolves_def sdb_ok_def by auto
  with rs(2) have "rs = []" by (metis leD list.set_intros(1) neq_Nil_conv)
  with rs(1) show ?thesis by simp
qed

lemma simulates_evolve:
  assumes sim: "simulates s p" and ev: "evolves s s'" and n: "nextRevisionId s' = nextRevisionId s"
  shows "simulates s' (p\<lparr>sp_world := world s'\<rparr>)"
proof -
  have ok: "sdb_ok s" using sim by (simp add: simulates_def)
  note r = evolves_same_revisions [OF ev n] and len = simulates_length [OF sim]
  let ?n = "length (validRevisions s)"
  obtain es where es: "entries (journal s') = entries (journal s) @ es" "undoes s (rev es) (world s') (world s)"
    using ev unfolding evolves_def by blast
  have "undoes s (rev (segment s' (marks s' ! i) (marks s' ! j)))
      (worlds (p\<lparr>sp_world := world s'\<rparr>) ! j) (worlds (p\<lparr>sp_world := world s'\<rparr>) ! i)"
    if ij: "j < length (marks s')" "i \<le> j" for i j
  proof -
    have j: "j < length (marks s)" using ij by (simp add: marks_def r)
    note old = marks_le [OF ok, of i] marks_le [OF ok, of j]
    have IH: "undoes s (rev (segment s (marks s ! i) (marks s ! j))) (worlds p ! j) (worlds p ! i)"
      using sim j ij by (simp add: simulates_def)
    show ?thesis
    proof (cases "j < ?n")
      case True
      then have "segment s' (marks s' ! i) (marks s' ! j) = segment s (marks s ! i) (marks s ! j)"
        using old ij by (simp add: segment_def marks_def r nth_append es(1))
      then show ?thesis using IH True ij len by (simp add: worlds_def nth_append)
    next
      case False
      with j have jn: "j = ?n" by (simp add: marks_def)
      show ?thesis
      proof (cases "i = ?n")
        case True
        then show ?thesis by (simp add: jn segment_def marks_def r nth_append)
      next
        case i: False
        have "segment s' (marks s' ! i) (marks s' ! j) = segment s (marks s ! i) (marks s ! j) @ es"
          using old ij i j by (simp add: segment_def marks_def r nth_append es(1) jn)
        moreover have "worlds p ! j = world s" using jn len sim by (simp add: worlds_def simulates_def nth_append)
        ultimately show ?thesis
          using undoes_append [OF es(2)] IH i ij len jn by (simp add: worlds_def nth_append)
      qed
    qed
  qed
  then show ?thesis
    using sim n evolves_ok(2) [OF ev] unfolding undoes_core [OF evolves_core [OF ev], symmetric]
    by (simp add: simulates_def r undoes_core [OF evolves_core [OF ev]])
qed

lemma simulates_Snapshot:
  assumes sim: "simulates s p"
  shows "simulates (snd (Snapshot s))
           (p\<lparr>sp_snaps := sp_snaps p @ [(sp_next p, sp_world p)], sp_next := sp_next p + 1\<rparr>)"
proof -
  let ?s = "snd (Snapshot s)" and ?n = "length (validRevisions s)"
  let ?p = "p\<lparr>sp_snaps := sp_snaps p @ [(sp_next p, sp_world p)], sp_next := Suc (sp_next p)\<rparr>"
  have ok: "sdb_ok s" using sim by (simp add: simulates_def)
  note S = Snapshot_correct [OF ok] and len = simulates_length [OF sim]
  have r: "validRevisions ?s = validRevisions s @
      [\<lparr>rev_id = nextRevisionId s, journalIndex = length (entries (journal s))\<rparr>]"
    "nextRevisionId ?s = Suc (nextRevisionId s)" "journal ?s = journal s"
    by (simp_all add: Snapshot_def journal_length_def Let_def)
  have m: "marks ?s ! i = marks s ! min i ?n" "worlds ?p ! i = worlds p ! min i ?n" if "i \<le> Suc ?n" for i
    using that len by (auto simp: marks_def worlds_def r nth_append min_def nth_Cons' less_Suc_eq_le le_Suc_eq)
  have "undoes s (rev (segment ?s (marks ?s ! i) (marks ?s ! j))) (worlds ?p ! j) (worlds ?p ! i)"
    if "j < length (marks ?s)" "i \<le> j" for i j
  proof -
    have "i \<le> Suc ?n" "j \<le> Suc ?n" using that by (simp_all add: marks_def r)
    moreover have "min j ?n < length (marks s)" "min i ?n \<le> min j ?n" using that by (auto simp: marks_def)
    moreover have "segment ?s = segment s" by (simp add: segment_def r fun_eq_iff)
    moreover have "undoes s (rev (segment s (marks s ! a) (marks s ! b))) (worlds p ! b) (worlds p ! a)"
      if "b < length (marks s)" "a \<le> b" for a b using sim that by (simp add: simulates_def)
    ultimately show ?thesis by (simp add: m)
  qed
  then show ?thesis
    using sim S evolves_ok(2) [of s ?s] evolves_core [of s ?s]
    by (simp add: simulates_def r undoes_core [of ?s s])
qed

lemma simulates_Revert_Some:
  assumes sim: "simulates s p" and w: "map_of (sp_snaps p) revid = Some w"
  shows "\<exists>s'. RevertToSnapshot s revid = Some s' \<and> db s' = db s \<and>
             simulates s' (p\<lparr>sp_world := w, sp_snaps := takeWhile (\<lambda>x. fst x \<noteq> revid) (sp_snaps p)\<rparr>)"
proof -
  have ok: "sdb_ok s" using sim by (simp add: simulates_def)
  note len = simulates_length [OF sim]
  have ids: "map rev_id (validRevisions s) = map fst (sp_snaps p)" using sim by (simp add: simulates_def)
  obtain i where i: "i < length (sp_snaps p)" "sp_snaps p ! i = (revid, w)"
    using w by (metis in_set_conv_nth map_of_SomeD)
  have rid: "rev_id (validRevisions s ! i) = revid"
    using arg_cong [OF ids, of "\<lambda>xs. xs ! i"] i len by simp
  have tw: "takeWhile (\<lambda>x. fst x \<noteq> revid) (sp_snaps p) = take i (sp_snaps p)"
  proof (rule takeWhile_eq_take_P_nth)
    fix j assume j: "j < i"
    then have "rev_id (validRevisions s ! j) < rev_id (validRevisions s ! i)"
      using sdb_ok_sorted [OF ok] i len by (simp add: sorted_wrt_iff_nth_less)
    then show "fst (sp_snaps p ! j) \<noteq> revid"
      using arg_cong [OF ids, of "\<lambda>xs. xs ! j"] rid i j len by simp
  qed (use i in simp)
  let ?k = "journalIndex (validRevisions s ! i)"
  let ?p = "p\<lparr>sp_world := w, sp_snaps := take i (sp_snaps p)\<rparr>"
  have mi: "marks s ! i = ?k" "i < length (marks s)" "worlds p ! i = w"
    using i len by (simp_all add: marks_def worlds_def nth_append)
  have U: "undoes s (rev (segment s (marks s ! a) (marks s ! b))) (worlds p ! b) (worlds p ! a)"
    if "b < length (marks s)" "a \<le> b" for a b using sim that by (simp add: simulates_def)
  have "undoes s (rev (drop ?k (entries (journal s)))) (world s) w"
    using U [of "length (validRevisions s)" i] i len sim
    by (simp add: segment_def marks_def worlds_def nth_append simulates_def)
  then obtain s' where s': "RevertToSnapshot s revid = Some s'" "world s' = w" "objects_ok s'" "same_core s' s"
    "entries (journal s') = take ?k (entries (journal s))"
    "validRevisions s' = take i (validRevisions s)" "nextRevisionId s' = nextRevisionId s"
    using RevertToSnapshot_hit [OF ok _ rid, of w] i len by metis
  have kle: "?k \<le> length (entries (journal s))" using marks_le [OF ok mi(2)] mi(1) by simp
  have m': "marks s' ! a = marks s ! a" "worlds ?p ! a = worlds p ! a" if "a \<le> i" for a
    using that i len kle mi by (auto simp: marks_def worlds_def nth_append s'(5,6) min_def)
  have lm: "length (marks s') = Suc i" using i len by (simp add: marks_def s'(6))
  have "undoes s' (rev (segment s' (marks s' ! a) (marks s' ! b))) (worlds ?p ! b) (worlds ?p ! a)"
    if ab: "b < length (marks s')" "a \<le> b" for a b
  proof -
    have "marks s ! b \<le> ?k" using marks_mono [OF ok, of b i] mi ab lm by simp
    then have "segment s' (marks s' ! a) (marks s' ! b) = segment s (marks s ! a) (marks s ! b)"
      using ab lm by (simp add: segment_def m' s'(5) min_def)
    then show ?thesis
      using U [of b a] ab lm mi(2) undoes_core [OF s'(4)] by (simp add: m')
  qed
  moreover have "sdb_ok s'"
  proof -
    have "r \<in> set (take i (validRevisions s)) \<Longrightarrow> journalIndex r \<le> ?k" for r
      using ok i len by (auto simp: sdb_ok_def in_set_conv_nth sorted_wrt_iff_nth_less)
    then show ?thesis
      using ok s' kle by (auto simp: sdb_ok_def sorted_wrt_take dest: in_set_takeD)
  qed
  ultimately have "simulates s' ?p"
    using sim s' ids by (simp add: simulates_def flip: take_map)
  with s'(1,4) show ?thesis by (simp add: tw same_core_def)
qed

lemma simulates_Revert_None:
  assumes sim: "simulates s p" and w: "map_of (sp_snaps p) revid = None"
  shows "RevertToSnapshot s revid = None"
proof -
  have "revid \<notin> set (map rev_id (validRevisions s))"
    using sim w by (simp add: simulates_def map_of_eq_None_iff)
  then have "rev_id (validRevisions s ! i) \<noteq> revid" if "i < length (validRevisions s)" for i
    using that by (metis in_set_conv_nth length_map nth_map)
  moreover have "revision_index (validRevisions s) revid \<le> length (validRevisions s)"
    by (simp add: revision_index_def sort_Search_le)
  ultimately show ?thesis by (auto simp: RevertToSnapshot_unfold Let_def order_le_less)
qed

section \<open>The calls one by one\<close>

lemma createObject_next [simp]: "nextRevisionId (snd (createObject s a)) = nextRevisionId s"
  by (simp add: createObject_def Let_def case_prod_beta split: option.splits)

lemma GetOrNewStateObject_next [simp]: "nextRevisionId (snd (GetOrNewStateObject s a)) = nextRevisionId s"
  using getStateObject_frame(11) [of s a]
  by (auto simp: GetOrNewStateObject_def Let_def case_prod_beta simp del: getStateObject_frame
      split: option.splits prod.splits)

lemma writers_next [simp]:
  "nextRevisionId (CreateAccount s a) = nextRevisionId s"
  "nextRevisionId (AddBalance s a n) = nextRevisionId s"
  "nextRevisionId (SubBalance s a n) = nextRevisionId s"
  "nextRevisionId (SetBalance s a n) = nextRevisionId s"
  "nextRevisionId (SetNonce s a g) = nextRevisionId s"
  "nextRevisionId (SetCode s a c) = nextRevisionId s"
  "nextRevisionId (SetState s a k x) = nextRevisionId s"
  "nextRevisionId (snd (Suicide s a)) = nextRevisionId s"
  "nextRevisionId (AddLog s l) = nextRevisionId s"
  "nextRevisionId (AddPreimage s h p) = nextRevisionId s"
  "nextRevisionId (AddRefund s g) = nextRevisionId s"
  by (simp_all add: CreateAccount_def AddBalance_def SubBalance_def SetBalance_def SetNonce_def SetCode_def
      SetState_def Suicide_def AddLog_def AddPreimage_def AddRefund_def so_AddBalance_def so_SubBalance_def
      so_SetBalance_def so_SetNonce_def so_SetCode_def so_SetState_def touch_def Let_def case_prod_beta
      split: option.splits)

definition matches :: "Backend \<Rightarrow> (answer \<times> StateDB) option \<Rightarrow> (answer \<times> SpecState) option \<Rightarrow> bool" where
  "matches d r r' \<longleftrightarrow>
     (case r of
        None \<Rightarrow> r' = None
      | Some (x, s') \<Rightarrow> db s' = d \<and> (\<exists>p'. r' = Some (x, p') \<and> simulates s' p'))"

lemma matches_write:
  assumes "simulates s p" "evolves s s' \<and> world s' = w \<and> db s' = db s" "nextRevisionId s' = nextRevisionId s"
  shows "matches (db s) (Some (NoAnswer, s')) (spec_write p w)"
  using assms simulates_evolve [OF assms(1), of s'] by (auto simp: matches_def spec_write_def)

lemma matches_read:
  assumes "simulates s p" "reads s a none f r"
  shows "matches (db s) (Some (map_prod g id r)) (spec_read p a (g none) (\<lambda>v. g (f v)))"
proof -
  have "simulates (snd r) (p\<lparr>sp_world := world s\<rparr>)"
    using assms simulates_evolve [OF assms(1), of "snd r"] by (simp add: reads_def)
  moreover have "p\<lparr>sp_world := world s\<rparr> = p" using assms(1) by (simp add: simulates_def)
  moreover have "acct_view s = w_accts (sp_world p)"
    using assms(1) unfolding simulates_def by (metis world_fields(1))
  ultimately show ?thesis
    using assms(2) by (cases r) (auto simp: matches_def spec_read_def reads_def split: option.splits)
qed

lemma perform_matches:
  assumes sim: "simulates s p"
  shows "matches (db s) (perform c s) (spec_perform (db s) c p)"
proof -
  have ok: "sdb_ok s" and w: "sp_world p = world s" "nextRevisionId s = sp_next p"
    using sim by (simp_all add: simulates_def)
  note W = matches_write [OF sim] and R = matches_read [OF sim]
  show ?thesis
  proof (cases c)
    case (DoCreateAccount a)
    then show ?thesis using W [OF CreateAccount_correct [OF ok]] by (simp add: w)
  next
    case (DoSubBalance a n)
    then show ?thesis using W [OF SubBalance_correct [OF ok]] by (simp add: w)
  next
    case (DoAddBalance a n)
    then show ?thesis using W [OF AddBalance_correct [OF ok]] by (simp add: w)
  next
    case (DoSetBalance a n)
    then show ?thesis using W [OF SetBalance_correct [OF ok]] by (simp add: w)
  next
    case (DoSetNonce a n)
    then show ?thesis using W [OF SetNonce_correct [OF ok]] by (simp add: w)
  next
    case (DoSetCode a c)
    then show ?thesis using W [OF SetCode_correct [OF ok]] by (simp add: w)
  next
    case (DoSetState a k x)
    then show ?thesis using W [OF SetState_correct [OF ok]] by (simp add: w)
  next
    case (DoAddRefund g)
    then show ?thesis using W [OF AddRefund_correct [OF ok]] by (simp add: w)
  next
    case (DoAddLog l)
    then show ?thesis using W [OF AddLog_correct [OF ok]] by (simp add: w)
  next
    case (DoAddPreimage h x)
    then show ?thesis using W [OF AddPreimage_correct [OF ok]] by (simp add: w)
  next
    case (DoSubRefund g)
    show ?thesis
    proof (cases "refund s < g")
      case True
      then show ?thesis using DoSubRefund by (simp add: SubRefund_def matches_def w)
    next
      case False
      then obtain s' where s': "SubRefund s g = Some s'" by (simp add: SubRefund_def Let_def)
      then have "nextRevisionId s' = nextRevisionId s" by (auto simp: SubRefund_def Let_def split: if_splits)
      then show ?thesis
        using W [of s' "(world s)\<lparr>w_refund := refund s - g\<rparr>"] SubRefund_correct [OF ok, of g] False s' by (simp add: DoSubRefund w)
    qed
  next
    case (DoSuicide a)
    then show ?thesis
      using simulates_evolve [OF sim, of "snd (Suicide s a)"] Suicide_correct [OF ok, of a] writers_next(8) [of s a]
      by (cases "Suicide s a") (auto simp: matches_def w)
  next
    case DoSnapshot
    then show ?thesis
      using simulates_Snapshot [OF sim] Snapshot_correct [OF ok]
      by (cases "Snapshot s") (auto simp: matches_def w)
  next
    case (DoRevertToSnapshot i)
    show ?thesis
    proof (cases "map_of (sp_snaps p) i")
      case None
      then show ?thesis using simulates_Revert_None [OF sim] by (simp add: DoRevertToSnapshot matches_def)
    next
      case (Some w')
      then show ?thesis using simulates_Revert_Some [OF sim Some] by (auto simp: DoRevertToSnapshot matches_def)
    qed
  next
    case DoGetRefund
    then show ?thesis using sim by (simp add: matches_def GetRefund_def w)
  next
    case (DoGetBalance a)
    then show ?thesis using R [OF GetBalance_reads [OF ok]] by simp
  next
    case (DoGetNonce a)
    then show ?thesis using R [OF GetNonce_reads [OF ok]] by simp
  next
    case (DoGetCodeHash a)
    then show ?thesis using R [OF GetCodeHash_reads [OF ok]] by simp
  next
    case (DoGetCode a)
    then show ?thesis using R [OF GetCode_reads [OF ok]] by simp
  next
    case (DoGetCodeSize a)
    then show ?thesis using R [OF GetCodeSize_reads [OF ok]] by simp
  next
    case (DoGetCommittedState a k)
    then show ?thesis using R [OF GetCommittedState_reads [OF ok]] by simp
  next
    case (DoGetState a k)
    then show ?thesis using R [OF GetState_reads [OF ok]] by simp
  next
    case (DoHasSuicided a)
    then show ?thesis using R [OF HasSuicided_reads [OF ok]] by simp
  next
    case (DoExist a)
    then show ?thesis using R [OF Exist_reads [OF ok]] by simp
  next
    case (DoEmpty a)
    then show ?thesis using R [OF Empty_reads [OF ok]] by simp
  qed
qed

section \<open>Sequences of calls\<close>

lemma perform_all_matches:
  assumes "simulates s p"
  shows "case perform_all cs s of
           None \<Rightarrow> spec_perform_all (db s) cs p = None
         | Some (xs, s') \<Rightarrow> \<exists>p'. spec_perform_all (db s) cs p = Some (xs, p') \<and> simulates s' p'"
  using assms
proof (induction cs arbitrary: s p)
  case (Cons c cs)
  note M = perform_matches [OF Cons.prems, of c]
  show ?case
  proof (cases "perform c s")
    case None
    then show ?thesis using M by (simp add: matches_def)
  next
    case (Some xs)
    then obtain x s1 p1 where 1: "perform c s = Some (x, s1)" "db s1 = db s"
      "spec_perform (db s) c p = Some (x, p1)" "simulates s1 p1"
      using M by (auto simp: matches_def split: prod.splits)
    show ?thesis using Cons.IH [OF 1(4)] 1 by (auto split: option.splits)
  qed
qed simp

definition spec_init :: "StateDB \<Rightarrow> SpecState" where
  "spec_init s = \<lparr>sp_world = world s, sp_snaps = [], sp_next = nextRevisionId s\<rparr>"

lemma simulates_init: "sdb_ok s \<Longrightarrow> validRevisions s = [] \<Longrightarrow> simulates s (spec_init s)"
  by (simp add: simulates_def spec_init_def marks_def segment_def)

lemma sdb_ok_New: "backend_ok d \<Longrightarrow> sdb_ok (New d tr)"
  by (simp add: sdb_ok_def objects_ok_def New_def)


text \<open>A node database without content, for the witnesses.\<close>

definition void_backend :: Backend where
  "void_backend =
     \<lparr>Keccak256Hash = (\<lambda>bs. word_of_int (SetBytes bs + 7)), OpenStorageTrie = (\<lambda>_. None),
      ContractCode = (\<lambda>_. None), StorageRoot = (\<lambda>_. 0)\<rparr>"

lemma void_backend_ok: "backend_ok void_backend"
  by (simp add: backend_ok_def void_backend_def)




end
