(* ===== verification/Common_Math.thy ===== *)
theory Common_Math
  imports Prelude
begin

text \<open>
  \<^verbatim>\<open>common/math/big.go\<close> and \<^verbatim>\<open>common/math/integer.go\<close>: the 256-bit arithmetic of the EVM on
  arbitrary precision integers, and the overflow-checked arithmetic on \<^verbatim>\<open>uint64\<close>.

  \<^verbatim>\<open>big.Int.Bits\<close> is the list of 64-bit digits of the absolute value, least significant first,
  without leading zero digits.  Mutating methods return the value they leave in the receiver.
\<close>

section \<open>Limits\<close>

definition tt255 :: int where "tt255 = 2 ^ 255"
definition tt256 :: int where "tt256 = 2 ^ 256"
definition tt256m1 :: int where "tt256m1 = tt256 - 1"
definition tt63 :: int where "tt63 = 2 ^ 63"
definition MaxBig256 :: int where "MaxBig256 = tt256m1"
definition MaxBig63 :: int where "MaxBig63 = tt63 - 1"
definition MaxUint64 :: uint64 where "MaxUint64 = 2 ^ 64 - 1"

definition wordBits :: nat where "wordBits = 64"
definition wordBytes :: nat where "wordBytes = 8"

fun bits_of_nat :: "nat \<Rightarrow> uint64 list" where
  "bits_of_nat n = (if n = 0 then [] else of_nat n # bits_of_nat (n div 2 ^ 64))"

declare bits_of_nat.simps [simp del]

definition big_Bits :: "int \<Rightarrow> uint64 list" where
  "big_Bits x = bits_of_nat (nat \<bar>x\<bar>)"

section \<open>Big integers\<close>

definition BigPow :: "int \<Rightarrow> int \<Rightarrow> int" where
  "BigPow a b = (if b \<le> 0 then 1 else a ^ nat b)"

definition BigMax :: "int \<Rightarrow> int \<Rightarrow> int" where
  "BigMax x y = (if x < y then y else x)"

definition BigMin :: "int \<Rightarrow> int \<Rightarrow> int" where
  "BigMin x y = (if x > y then y else x)"

fun FirstBitSet_loop :: "int \<Rightarrow> nat list \<Rightarrow> nat" where
  "FirstBitSet_loop v [] = BitLen v"
| "FirstBitSet_loop v (i # is) = (if bit v i then i else FirstBitSet_loop v is)"

definition FirstBitSet :: "int \<Rightarrow> nat" where
  "FirstBitSet v = FirstBitSet_loop v [0..<BitLen v]"

definition bigEndianByteAt :: "int \<Rightarrow> nat \<Rightarrow> byte" where
  "bigEndianByteAt bigint n =
     (let words = big_Bits bigint; i = n div wordBytes in
      if i \<ge> length words then 0
      else ucast (drop_bit (8 * (n mod wordBytes)) (words ! i)))"

definition math_Byte :: "int \<Rightarrow> int \<Rightarrow> int \<Rightarrow> byte" where
  "math_Byte bigint padlength n =
     (if n \<ge> padlength then 0 else bigEndianByteAt bigint (nat (padlength - 1 - n)))"

text \<open>The two loops of \<^verbatim>\<open>ReadBits\<close>; the state is the write position and the buffer.\<close>

fun ReadBits_word :: "nat \<Rightarrow> uint64 \<Rightarrow> nat \<times> bytes \<Rightarrow> nat \<times> bytes" where
  "ReadBits_word 0 d (i, buf) = (i, buf)"
| "ReadBits_word (Suc j) d (i, buf) =
     (if i > 0 then ReadBits_word j (drop_bit 8 d) (i - 1, buf[i - 1 := ucast d]) else (i, buf))"

definition ReadBits :: "int \<Rightarrow> bytes \<Rightarrow> bytes" where
  "ReadBits bigint buf =
     snd (foldl (\<lambda>st d. ReadBits_word wordBytes d st) (length buf, buf) (big_Bits bigint))"

definition PaddedBigBytes :: "int \<Rightarrow> nat \<Rightarrow> bytes" where
  "PaddedBigBytes bigint n =
     (if BitLen bigint div 8 \<ge> n then big_Bytes bigint else ReadBits bigint (replicate n 0))"

definition U256 :: "int \<Rightarrow> int" where
  "U256 x = Bit_Operations.and x tt256m1"

definition S256 :: "int \<Rightarrow> int" where
  "S256 x = (if x < tt255 then x else x - tt256)"

fun Exp_word :: "nat \<Rightarrow> uint64 \<Rightarrow> int \<times> int \<Rightarrow> int \<times> int" where
  "Exp_word 0 word (result, base) = (result, base)"
| "Exp_word (Suc i) word (result, base) =
     Exp_word i (drop_bit 1 word)
       (if Bit_Operations.and word 1 = 1 then U256 (result * base) else result, U256 (base * base))"

definition math_Exp :: "int \<Rightarrow> int \<Rightarrow> int" where
  "math_Exp base exponent =
     fst (foldl (\<lambda>st word. Exp_word wordBits word st) (1, base) (big_Bits exponent))"

section \<open>Checked arithmetic on uint64\<close>

definition SafeSub :: "uint64 \<Rightarrow> uint64 \<Rightarrow> uint64 \<times> bool" where
  "SafeSub x y = (x - y, x < y)"

definition SafeAdd :: "uint64 \<Rightarrow> uint64 \<Rightarrow> uint64 \<times> bool" where
  "SafeAdd x y = (x + y, y > MaxUint64 - x)"

definition SafeMul :: "uint64 \<Rightarrow> uint64 \<Rightarrow> uint64 \<times> bool" where
  "SafeMul x y = (if x = 0 \<or> y = 0 then (0, False) else (x * y, y > MaxUint64 div x))"

section \<open>256-bit wrap-around and sign\<close>

lemma tt256m1_mask: "tt256m1 = mask 256"
  by (simp add: mask_eq_exp_minus_1 tt256m1_def tt256_def)

lemma U256_mod: "U256 x = x mod 2 ^ 256"
  by (simp only: U256_def tt256m1_mask flip: take_bit_eq_mask take_bit_eq_mod)

lemma U256_range [simp]: "0 \<le> U256 x" "U256 x < 2 ^ 256"
  by (simp_all add: U256_mod)

declare U256_range(2) [simplified, simp]

lemma U256_id: "0 \<le> x \<Longrightarrow> x < 2 ^ 256 \<Longrightarrow> U256 x = x"
  by (simp add: U256_mod)

lemma U256_word: "U256 x = uint (word_of_int x :: Hash)"
  by (simp add: U256_mod uint_word_of_int)

lemma S256_sint: "S256 (uint (w :: Hash)) = sint w"
proof -
  have r: "0 \<le> uint w" "uint w < 2 ^ 256" using uint_lt2p [of w] by simp_all
  have s: "sint w = (uint w + 2 ^ 255) mod 2 ^ 256 - 2 ^ 255"
    by (simp add: sint_uint signed_take_bit_eq_take_bit_shift take_bit_eq_mod)
  show ?thesis
  proof (cases "uint w < 2 ^ 255")
    case True
    then have "(uint w + 2 ^ 255) mod 2 ^ 256 = uint w + 2 ^ 255" using r by simp
    with True s show ?thesis by (simp add: S256_def tt255_def)
  next
    case False
    have "(uint w + 2 ^ 255) mod 2 ^ 256 = (uint w - 2 ^ 255 + 2 ^ 256) mod 2 ^ 256" by (simp add: add.commute)
    also have "\<dots> = uint w - 2 ^ 255" using False r by (subst mod_add_self2) simp
    finally show ?thesis using False s by (simp add: S256_def tt255_def tt256_def)
  qed
qed

section \<open>The digits of a big integer\<close>

fun digits_value :: "uint64 list \<Rightarrow> nat" where
  "digits_value [] = 0"
| "digits_value (d # ds) = unat d + 2 ^ 64 * digits_value ds"

lemma digits_value_bits: "digits_value (bits_of_nat n) = n"
proof (induction n rule: bits_of_nat.induct)
  case (1 n)
  show ?case
  proof (cases "n = 0")
    case False
    have "unat (of_nat n :: uint64) = n mod 2 ^ 64" by (simp add: unat_of_nat)
    then show ?thesis using 1 [OF False] False by (simp add: bits_of_nat.simps [of n])
  qed (simp add: bits_of_nat.simps)
qed

lemma digits_value_big_Bits: "digits_value (big_Bits x) = nat \<bar>x\<bar>"
  by (simp add: big_Bits_def digits_value_bits)

section \<open>Exponentiation by squaring\<close>

lemma pow_mod_cong: "(a :: int) mod m = b mod m \<Longrightarrow> a ^ n mod m = b ^ n mod m"
  by (metis power_mod)

lemma mult_pow_cong:
  "(r :: int) mod m = r' mod m \<Longrightarrow> b mod m = b' mod m \<Longrightarrow> r * b ^ n mod m = r' * b' ^ n mod m"
  by (rule mod_mult_cong) (auto intro: pow_mod_cong)

lemma and_1_word: "Bit_Operations.and w 1 = (1 :: uint64) \<longleftrightarrow> odd (unat w)"
proof -
  have "Bit_Operations.and w 1 = of_bool (odd w)" by (simp add: and_one_eq mod2_eq_if)
  moreover have "odd w \<longleftrightarrow> odd (unat w)" by transfer (simp add: even_nat_iff)
  ultimately show ?thesis by simp
qed

lemma unat_drop_bit_1: "unat (drop_bit 1 (w :: uint64)) = unat w div 2"
  by (subst unat_drop_bit_eq) (simp add: drop_bit_eq_div)

lemma Exp_word_correct:
  "fst (Exp_word n w (r, b)) mod 2 ^ 256 = r * b ^ (unat w mod 2 ^ n) mod 2 ^ 256 \<and>
   snd (Exp_word n w (r, b)) mod 2 ^ 256 = b ^ (2 ^ n) mod 2 ^ 256 \<and>
   (0 \<le> r \<and> r < 2 ^ 256 \<longrightarrow> 0 \<le> fst (Exp_word n w (r, b)) \<and> fst (Exp_word n w (r, b)) < 2 ^ 256)"
proof (induction n arbitrary: w r b)
  case 0
  then show ?case by simp
next
  case (Suc n)
  define k where "k = unat w div 2 mod 2 ^ n"
  have e: "unat w mod 2 ^ Suc n = unat w mod 2 + 2 * k"
    by (simp add: k_def mod_mult2_eq)
  let ?r = "if odd (unat w) then U256 (r * b) else r" and ?b = "U256 (b * b)"
  have b: "?b mod 2 ^ 256 = b ^ 2 mod 2 ^ 256" by (simp add: U256_mod power2_eq_square)
  have r: "?r mod 2 ^ 256 = r * b ^ (unat w mod 2) mod 2 ^ 256"
    by (simp add: U256_mod mod2_eq_if)
  have "?r * ?b ^ k mod 2 ^ 256 = (r * b ^ (unat w mod 2)) * (b ^ 2) ^ k mod 2 ^ 256"
    using mult_pow_cong [OF r b] .
  also have "\<dots> = r * b ^ (unat w mod 2 ^ Suc n) mod 2 ^ 256"
    by (simp only: e power_add power_mult mult.assoc)
  finally have 1: "?r * ?b ^ k mod 2 ^ 256 = r * b ^ (unat w mod 2 ^ Suc n) mod 2 ^ 256" .
  have 2: "?b ^ (2 ^ n) mod 2 ^ 256 = b ^ (2 ^ Suc n) mod 2 ^ 256"
    using pow_mod_cong [OF b, of "2 ^ n"] by (simp only: power_mult [symmetric] power_Suc)
  have 3: "0 \<le> r \<and> r < 2 ^ 256 \<longrightarrow> 0 \<le> ?r \<and> ?r < 2 ^ 256" by simp
  have st: "Exp_word (Suc n) w (r, b) = Exp_word n (drop_bit 1 w) (?r, ?b)"
    by (simp only: Exp_word.simps and_1_word)
  show ?case
    unfolding st using Suc.IH [of "drop_bit 1 w" ?r ?b] 1 2 3
    by (simp only: unat_drop_bit_1 k_def [symmetric]) blast
qed

lemma Exp_loop_correct:
  assumes "0 \<le> r" "r < 2 ^ 256"
  shows "fst (foldl (\<lambda>st w. Exp_word wordBits w st) (r, b) ds) = r * b ^ digits_value ds mod 2 ^ 256"
  using assms
proof (induction ds arbitrary: r b)
  case Nil
  then show ?case by simp
next
  case (Cons d ds)
  obtain r' b' where rb: "Exp_word wordBits d (r, b) = (r', b')" by (cases "Exp_word wordBits d (r, b)")
  have "unat d mod 2 ^ wordBits = unat d"
    using unsigned_less [of d, where ?'a = nat] by (simp add: wordBits_def)
  then have E: "r' mod 2 ^ 256 = r * b ^ unat d mod 2 ^ 256" "b' mod 2 ^ 256 = b ^ (2 ^ 64) mod 2 ^ 256"
    "0 \<le> r'" "r' < 2 ^ 256"
    using Exp_word_correct [of wordBits d r b] Cons.prems by (simp_all add: rb [unfolded wordBits_def] wordBits_def)
  have "fst (foldl (\<lambda>st w. Exp_word wordBits w st) (r, b) (d # ds)) = r' * b' ^ digits_value ds mod 2 ^ 256"
    using Cons.IH [OF E(3,4)] by (simp add: rb)
  also have "\<dots> = (r * b ^ unat d) * (b ^ (2 ^ 64)) ^ digits_value ds mod 2 ^ 256"
    by (rule mult_pow_cong [OF E(1,2)])
  finally show ?case by (simp only: digits_value.simps power_add power_mult mult.assoc)
qed

lemma math_Exp_eq: "0 \<le> e \<Longrightarrow> math_Exp b e = b ^ nat e mod 2 ^ 256"
  by (simp add: math_Exp_def Exp_loop_correct digits_value_big_Bits)

section \<open>Big-endian encodings\<close>

text \<open>The bytes of a digit and of a list of digits, least significant first.\<close>

definition digit_bytes :: "nat \<Rightarrow> uint64 \<Rightarrow> bytes" where
  "digit_bytes j d = map (\<lambda>k. ucast (drop_bit (8 * k) d)) [0..<j]"

definition digits_bytes :: "uint64 list \<Rightarrow> bytes" where
  "digits_bytes ds = concat (map (digit_bytes 8) ds)"

definition byte_at :: "nat \<Rightarrow> nat \<Rightarrow> byte" where
  "byte_at n k = of_nat (n div 256 ^ k)"

lemma digit_bytes_Suc: "digit_bytes (Suc j) d = ucast d # digit_bytes j (drop_bit 8 d)"
  by (simp add: digit_bytes_def upt_conv_Cons del: upt_Suc)
     (simp add: map_Suc_upt [symmetric] comp_def algebra_simps del: upt_Suc)

lemma length_digit_bytes [simp]: "length (digit_bytes j d) = j"
  by (simp add: digit_bytes_def)

lemma ReadBits_word_eq:
  "i \<le> length buf \<Longrightarrow>
     ReadBits_word j d (i, buf) = (i - j, take (i - j) buf @ rev (take i (digit_bytes j d)) @ drop i buf)"
proof (induction j arbitrary: d i buf)
  case 0
  then show ?case by (simp add: digit_bytes_def)
next
  case (Suc j)
  show ?case
  proof (cases i)
    case 0
    then show ?thesis by simp
  next
    case (Suc i')
    have "drop i' (buf[i' := x]) = x # drop i buf" for x :: byte
      using Suc Suc.prems by (simp add: drop_update_cancel Cons_nth_drop_Suc [symmetric])
    then show ?thesis
      using Suc Suc.prems Suc.IH [of i' "buf[i' := ucast d]" "drop_bit 8 d"]
      by (simp add: digit_bytes_Suc)
  qed
qed

lemma length_digits_bytes [simp]: "length (digits_bytes ds) = 8 * length ds"
  by (induction ds) (simp_all add: digits_bytes_def)

lemma ReadBits_loop_eq:
  "i \<le> length buf \<Longrightarrow>
     foldl (\<lambda>st d. ReadBits_word wordBytes d st) (i, buf) ds =
       (i - 8 * length ds, take (i - 8 * length ds) buf @ rev (take i (digits_bytes ds)) @ drop i buf)"
proof (induction ds arbitrary: i buf)
  case Nil
  then show ?case by (simp add: digits_bytes_def)
next
  case (Cons d ds)
  let ?buf = "take (i - 8) buf @ rev (take i (digit_bytes 8 d)) @ drop i buf"
  have len: "i - 8 \<le> length ?buf" using Cons.prems by simp
  have take: "take i (digits_bytes (d # ds)) = take i (digit_bytes 8 d) @ take (i - 8) (digits_bytes ds)"
    by (simp add: digits_bytes_def)
  have t: "take (i - 8 - 8 * length ds) ?buf = take (i - 8 - 8 * length ds) buf"
    using Cons.prems by (cases "i \<le> 8") simp_all
  have d: "drop (i - 8) ?buf = rev (take i (digit_bytes 8 d)) @ drop i buf"
    using Cons.prems by simp
  have c: "i - 8 * length (d # ds) = i - 8 - 8 * length ds" by simp
  have f: "foldl (\<lambda>st d. ReadBits_word wordBytes d st) (i, buf) (d # ds) =
      foldl (\<lambda>st d. ReadBits_word wordBytes d st) (i - 8, ?buf) ds"
    using Cons.prems by (simp add: ReadBits_word_eq wordBytes_def)
  show ?case
    unfolding f Cons.IH [OF len] t d c take rev_append append_assoc ..
qed

lemma byte_at_digit: "digit_bytes j d = map (byte_at (unat d)) [0..<j]"
proof -
  have "(ucast (drop_bit (8 * k) d) :: byte) = of_nat (unat d div 256 ^ k)" for k
  proof -
    have "unat (drop_bit (8 * k) d) = unat d div 256 ^ k"
      by (subst unat_drop_bit_eq) (simp add: drop_bit_eq_div power_mult)
    then show ?thesis by (metis of_nat_unat)
  qed
  then show ?thesis by (simp add: digit_bytes_def byte_at_def)
qed

lemma byte_at_split:
  assumes "k < 8"
  shows "byte_at (u + 2 ^ 64 * n) k = byte_at u k"
proof -
  have "64 = 8 + 8 * (7 - k) + 8 * k" using assms by simp
  then have "(2 :: nat) ^ 64 = 2 ^ 8 * 2 ^ (8 * (7 - k)) * 2 ^ (8 * k)" by (metis power_add)
  moreover have "(2 :: nat) ^ (8 * k) = 256 ^ k" by (simp add: power_mult)
  ultimately have e: "(2 :: nat) ^ 64 * n = (256 * 2 ^ (8 * (7 - k)) * n) * 256 ^ k" by simp
  have "(u + 2 ^ 64 * n) div 256 ^ k = u div 256 ^ k + 256 * 2 ^ (8 * (7 - k)) * n"
    unfolding e by (subst div_mult_self1) auto
  moreover have "of_nat (256 * m) = (0 :: byte)" for m
    by (simp add: word_unat_eq_iff unat_of_nat del: of_nat_mult)
  ultimately show ?thesis by (simp only: byte_at_def of_nat_add mult.assoc add_0_right)
qed

lemma digits_bytes_eq: "digits_bytes ds = map (byte_at (digits_value ds)) [0..<8 * length ds]"
proof (induction ds)
  case Nil
  then show ?case by (simp add: digits_bytes_def)
next
  case (Cons d ds)
  let ?N = "digits_value (d # ds)"
  have hi: "byte_at ?N (8 + k) = byte_at (digits_value ds) k" for k
  proof -
    have "?N div 256 ^ (8 + k) = ?N div 2 ^ 64 div 256 ^ k"
      by (simp add: power_add div_mult2_eq)
    moreover have "?N div 2 ^ 64 = digits_value ds"
      using unsigned_less [of d, where ?'a = nat] by simp
    ultimately show ?thesis by (simp add: byte_at_def)
  qed
  have lo: "map (byte_at ?N) [0..<8] = digit_bytes 8 d"
    unfolding byte_at_digit by (rule map_cong [OF refl]) (simp add: byte_at_split [simplified])
  have "[0..<8 * length (d # ds)] = [0..<8] @ map (\<lambda>k. 8 + k) [0..<8 * length ds]"
    by (simp add: map_add_upt upt_add_eq_append [symmetric] add.commute)
  then have "map (byte_at ?N) [0..<8 * length (d # ds)] = digit_bytes 8 d @ map (byte_at (digits_value ds)) [0..<8 * length ds]"
    by (simp only: map_append lo map_map comp_def hi)
  then show ?case using Cons by (simp add: digits_bytes_def)
qed

lemma SetBytes_byte_at: "SetBytes (rev (map (byte_at N) [0..<n])) = int (N mod 256 ^ n)"
proof (induction n)
  case (Suc n)
  have "uint (byte_at N n) = int (N div 256 ^ n mod 256)"
    by (simp add: byte_at_def uint_nat unat_of_nat)
  moreover have "N mod 256 ^ Suc n = N div 256 ^ n mod 256 * 256 ^ n + N mod 256 ^ n"
    using mod_mult2_eq [of N "256 ^ n" 256] by (simp add: mult.commute)
  ultimately show ?case
    using Suc SetBytes_append [of "[byte_at N n]" "rev (map (byte_at N) [0..<n])"]
      SetBytes_snoc [of "[]" "byte_at N n"] by simp
qed simp

lemma length_ReadBits [simp]: "length (ReadBits x buf) = length buf"
  by (simp add: ReadBits_def ReadBits_loop_eq)

lemma SetBytes_ReadBits:
  assumes "\<bar>x\<bar> < 256 ^ n"
  shows "SetBytes (ReadBits x (replicate n 0)) = \<bar>x\<bar>"
proof -
  let ?ds = "big_Bits x" and ?N = "nat \<bar>x\<bar>"
  have N: "?N < 256 ^ n" using assms by (metis abs_ge_zero nat_less_eq_zless nat_power_eq nat_numeral zero_le_numeral)
  have "SetBytes (replicate m 0 @ bs) = SetBytes bs" for m bs
    by (induction bs rule: rev_induct; induction m) (auto simp: SetBytes_def)
  then have "SetBytes (ReadBits x (replicate n 0)) = SetBytes (rev (take n (digits_bytes ?ds)))"
    by (simp add: ReadBits_def ReadBits_loop_eq)
  also have "take n (digits_bytes ?ds) = map (byte_at ?N) [0..<min n (8 * length ?ds)]"
    by (simp add: digits_bytes_eq digits_value_big_Bits take_map min_def)
  also have "SetBytes (rev \<dots>) = int (?N mod 256 ^ min n (8 * length ?ds))"
    by (rule SetBytes_byte_at)
  also have "?N mod 256 ^ min n (8 * length ?ds) = ?N"
  proof -
    have "digits_value ds < 2 ^ (64 * length ds)" for ds
    proof (induction ds)
      case (Cons d ds)
      have "unat d + 2 ^ 64 * digits_value ds < 2 ^ 64 * (digits_value ds + 1)"
        using unsigned_less [of d, where ?'a = nat] by simp
      also have "\<dots> \<le> 2 ^ 64 * 2 ^ (64 * length ds)" using Cons by (intro mult_le_mono2) simp
      finally show ?case by (simp add: power_add)
    qed simp
    moreover have "(256 :: nat) ^ (8 * m) = 2 ^ (64 * m)" for m by (simp add: power_mult)
    ultimately have "?N < 256 ^ (8 * length ?ds)"
      using digits_value_big_Bits [of x] by metis
    with N show ?thesis by (simp add: min_def)
  qed
  finally show ?thesis by simp
qed

lemma SetBytes_PaddedBigBytes: "SetBytes (PaddedBigBytes x n) = \<bar>x\<bar>"
proof (cases "BitLen x div 8 \<ge> n")
  case True
  then show ?thesis by (simp add: PaddedBigBytes_def big_Bytes_def)
next
  case False
  then have "BitLen x \<le> 8 * n" by simp
  then have "\<bar>x\<bar> < 2 ^ (8 * n)" by (simp add: BitLen_le_iff)
  then have "\<bar>x\<bar> < 256 ^ n" by (simp add: power_mult)
  then show ?thesis using False by (simp add: PaddedBigBytes_def SetBytes_ReadBits)
qed

section \<open>Single bytes\<close>

lemma nth_digits_bytes:
  "n < 8 * length ds \<Longrightarrow> digits_bytes ds ! n = ucast (drop_bit (8 * (n mod 8)) (ds ! (n div 8)))"
proof (induction ds arbitrary: n)
  case (Cons d ds)
  show ?case
  proof (cases "n < 8")
    case True
    then show ?thesis by (simp add: digits_bytes_def digit_bytes_def nth_append)
  next
    case False
    then have "n mod 8 = (n - 8) mod 8" "n div 8 = Suc ((n - 8) div 8)" by (auto simp: le_mod_geq le_div_geq)
    with False Cons show ?thesis
      by (simp add: digits_bytes_def nth_append)
  qed
qed simp

lemma digits_value_less: "digits_value ds < 256 ^ (8 * length ds)"
proof (induction ds)
  case (Cons d ds)
  have "unat d + 2 ^ 64 * digits_value ds < 2 ^ 64 * (digits_value ds + 1)"
    using unsigned_less [of d, where ?'a = nat] by simp
  also have "\<dots> \<le> 2 ^ 64 * 256 ^ (8 * length ds)" using Cons by (intro mult_le_mono2) simp
  finally show ?case by (simp add: power_add)
qed simp

lemma bigEndianByteAt_eq: "bigEndianByteAt x n = byte_at (nat \<bar>x\<bar>) n"
proof (cases "n div 8 < length (big_Bits x)")
  case True
  then have n: "n < 8 * length (big_Bits x)" by (simp add: div_less_iff_less_mult)
  have "bigEndianByteAt x n = digits_bytes (big_Bits x) ! n"
    using True by (simp add: bigEndianByteAt_def nth_digits_bytes [OF n] wordBytes_def)
  then show ?thesis using n by (simp add: digits_bytes_eq digits_value_big_Bits)
next
  case False
  then have "8 * length (big_Bits x) \<le> n" by (simp add: not_less less_eq_div_iff_mult_less_eq)
  then have "(256 :: nat) ^ (8 * length (big_Bits x)) \<le> 256 ^ n" by (simp add: power_increasing)
  with digits_value_less [of "big_Bits x"] have "nat \<bar>x\<bar> < 256 ^ n"
    unfolding digits_value_big_Bits by (rule less_le_trans)
  with False show ?thesis by (simp add: bigEndianByteAt_def byte_at_def wordBytes_def)
qed

lemma length_bytes_of_nat: "n < 256 ^ k \<Longrightarrow> length (bytes_of_nat n) \<le> k"
proof (induction n arbitrary: k rule: bytes_of_nat.induct)
  case (1 n)
  show ?case
  proof (cases "n = 0")
    case False
    then obtain m where k: "k = Suc m" using 1 by (cases k) auto
    have "n div 256 < 256 ^ m" using "1.prems" k by (simp add: div_less_iff_less_mult mult.commute)
    then show ?thesis using "1.IH" [OF False] False k by (simp add: bytes_of_nat.simps [of n])
  qed (simp add: bytes_of_nat.simps)
qed

lemma length_PaddedBigBytes:
  assumes "\<bar>x\<bar> < 256 ^ n" "0 < n"
  shows "length (PaddedBigBytes x n) = n"
proof -
  have "\<bar>x\<bar> < 2 ^ (8 * n)" using assms(1) by (simp add: power_mult)
  then have "BitLen x \<le> 8 * n" by (simp add: BitLen_le_iff)
  show ?thesis
  proof (cases "BitLen x div 8 \<ge> n")
    case True
    then have "\<not> BitLen x \<le> 8 * n - 1" using assms(2) by (auto simp: not_le)
    then have big: "2 ^ (8 * n - 1) \<le> \<bar>x\<bar>" by (simp add: BitLen_le_iff)
    have "n \<le> length (bytes_of_nat (nat \<bar>x\<bar>))"
    proof (rule ccontr)
      assume "\<not> n \<le> length (bytes_of_nat (nat \<bar>x\<bar>))"
      then have "SetBytes (bytes_of_nat (nat \<bar>x\<bar>)) < 256 ^ (n - 1)"
        using SetBytes_less [of "bytes_of_nat (nat \<bar>x\<bar>)"]
          power_increasing [of "length (bytes_of_nat (nat \<bar>x\<bar>))" "n - 1" "256 :: int"] by linarith
      then have "\<bar>x\<bar> < 2 ^ (8 * (n - 1))" by (simp add: power_mult)
      also have "(2 :: int) ^ (8 * (n - 1)) \<le> 2 ^ (8 * n - 1)" by (rule power_increasing) auto
      finally show False using big by simp
    qed
    moreover have "nat \<bar>x\<bar> < 256 ^ n"
      using assms(1) by (metis abs_ge_zero nat_less_eq_zless nat_power_eq nat_numeral zero_le_numeral)
    ultimately have "length (bytes_of_nat (nat \<bar>x\<bar>)) = n" using length_bytes_of_nat le_antisym by blast
    then show ?thesis using True by (simp add: PaddedBigBytes_def big_Bytes_def)
  qed (simp add: PaddedBigBytes_def)
qed

section \<open>Overflow flags\<close>

lemma MaxUint64_max: "unat MaxUint64 = 2 ^ 64 - 1"
  by (simp add: MaxUint64_def)

lemma SafeAdd_iff: "snd (SafeAdd x y) \<longleftrightarrow> 2 ^ 64 \<le> unat x + unat y"
proof -
  have "unat (MaxUint64 - x) = 2 ^ 64 - 1 - unat x"
    using unsigned_less [of x, where ?'a = nat]
    by (subst unat_sub) (simp_all add: MaxUint64_max word_le_nat_alt)
  then show ?thesis
    using unsigned_less [of x, where ?'a = nat] by (auto simp: SafeAdd_def word_less_nat_alt)
qed

lemma SafeAdd_no_overflow: "\<not> snd (SafeAdd x y) \<Longrightarrow> unat (fst (SafeAdd x y)) = unat x + unat y"
  by (simp add: SafeAdd_iff) (simp add: SafeAdd_def unat_word_ariths)

lemma SafeMul_iff: "snd (SafeMul x y) \<longleftrightarrow> 2 ^ 64 \<le> unat x * unat y"
proof (cases "x = 0 \<or> y = 0")
  case False
  then have x: "0 < unat x" by (auto simp: unat_gt_0)
  have "y > MaxUint64 div x \<longleftrightarrow> (2 ^ 64 - 1) div unat x < unat y"
    by (simp add: word_less_nat_alt unat_div MaxUint64_max)
  also have "\<dots> \<longleftrightarrow> 2 ^ 64 - 1 < unat y * unat x"
    using x by (simp add: div_less_iff_less_mult)
  finally show ?thesis using False by (auto simp: SafeMul_def mult.commute)
qed (auto simp: SafeMul_def)

lemma SafeMul_no_overflow: "\<not> snd (SafeMul x y) \<Longrightarrow> unat (fst (SafeMul x y)) = unat x * unat y"
  by (simp add: SafeMul_iff) (auto simp: SafeMul_def unat_word_ariths)

lemma SafeSub_no_underflow: "\<not> snd (SafeSub x y) \<Longrightarrow> unat (fst (SafeSub x y)) = unat x - unat y"
  by (simp add: SafeSub_def unat_sub not_less)

end
