(* ===== verification/Params.thy ===== *)
theory Params
  imports Prelude
begin

text \<open>
  \<^verbatim>\<open>params/protocol_params.go\<close>, \<^verbatim>\<open>params/gas_table.go\<close> and \<^verbatim>\<open>params/config.go\<close>: the constants of the
  protocol, the gas tables of the hard forks, and the chain configuration that decides
  which fork is active at a block and whether two configurations can follow each other.

  A nil \<^verbatim>\<open>*big.Int\<close> in a configuration (a fork that is not scheduled) is \<^term>\<open>None\<close>.
\<close>

section \<open>Protocol constants\<close>

definition GasLimitBoundDivisor :: uint64 where "GasLimitBoundDivisor = 1024"
definition MinGasLimit :: uint64 where "MinGasLimit = 5000"
definition GenesisGasLimit :: uint64 where "GenesisGasLimit = 4712388"
definition MaximumExtraDataSize :: uint64 where "MaximumExtraDataSize = 32"
definition ExpByteGas :: uint64 where "ExpByteGas = 10"
definition SloadGas :: uint64 where "SloadGas = 50"
definition CallValueTransferGas :: uint64 where "CallValueTransferGas = 9000"
definition CallNewAccountGas :: uint64 where "CallNewAccountGas = 25000"
definition TxGas :: uint64 where "TxGas = 21000"
definition TxGasContractCreation :: uint64 where "TxGasContractCreation = 53000"
definition TxDataZeroGas :: uint64 where "TxDataZeroGas = 4"
definition QuadCoeffDiv :: uint64 where "QuadCoeffDiv = 512"
definition LogDataGas :: uint64 where "LogDataGas = 8"
definition CallStipend :: uint64 where "CallStipend = 2300"
definition Sha3Gas :: uint64 where "Sha3Gas = 30"
definition Sha3WordGas :: uint64 where "Sha3WordGas = 6"
definition SstoreSetGas :: uint64 where "SstoreSetGas = 20000"
definition SstoreResetGas :: uint64 where "SstoreResetGas = 5000"
definition SstoreClearGas :: uint64 where "SstoreClearGas = 5000"
definition SstoreRefundGas :: uint64 where "SstoreRefundGas = 15000"
definition NetSstoreNoopGas :: uint64 where "NetSstoreNoopGas = 200"
definition NetSstoreInitGas :: uint64 where "NetSstoreInitGas = 20000"
definition NetSstoreCleanGas :: uint64 where "NetSstoreCleanGas = 5000"
definition NetSstoreDirtyGas :: uint64 where "NetSstoreDirtyGas = 200"
definition NetSstoreClearRefund :: uint64 where "NetSstoreClearRefund = 15000"
definition NetSstoreResetRefund :: uint64 where "NetSstoreResetRefund = 4800"
definition NetSstoreResetClearRefund :: uint64 where "NetSstoreResetClearRefund = 19800"
definition JumpdestGas :: uint64 where "JumpdestGas = 1"
definition EpochDuration :: uint64 where "EpochDuration = 30000"
definition CallGas :: uint64 where "CallGas = 40"
definition CreateDataGas :: uint64 where "CreateDataGas = 200"
definition CallCreateDepth :: uint64 where "CallCreateDepth = 1024"
definition ExpGas :: uint64 where "ExpGas = 10"
definition LogGas :: uint64 where "LogGas = 375"
definition CopyGas :: uint64 where "CopyGas = 3"
definition StackLimit :: uint64 where "StackLimit = 1024"
definition TierStepGas :: uint64 where "TierStepGas = 0"
definition LogTopicGas :: uint64 where "LogTopicGas = 375"
definition CreateGas :: uint64 where "CreateGas = 32000"
definition Create2Gas :: uint64 where "Create2Gas = 32000"
definition SuicideRefundGas :: uint64 where "SuicideRefundGas = 24000"
definition MemoryGas :: uint64 where "MemoryGas = 3"
definition TxDataNonZeroGas :: uint64 where "TxDataNonZeroGas = 68"
definition MaxCodeSize :: nat where "MaxCodeSize = 24576"
definition EcrecoverGas :: uint64 where "EcrecoverGas = 3000"
definition Sha256BaseGas :: uint64 where "Sha256BaseGas = 60"
definition Sha256PerWordGas :: uint64 where "Sha256PerWordGas = 12"
definition Ripemd160BaseGas :: uint64 where "Ripemd160BaseGas = 600"
definition Ripemd160PerWordGas :: uint64 where "Ripemd160PerWordGas = 120"
definition IdentityBaseGas :: uint64 where "IdentityBaseGas = 15"
definition IdentityPerWordGas :: uint64 where "IdentityPerWordGas = 3"
definition ModExpQuadCoeffDiv :: uint64 where "ModExpQuadCoeffDiv = 20"
definition Bn256AddGas :: uint64 where "Bn256AddGas = 500"
definition Bn256ScalarMulGas :: uint64 where "Bn256ScalarMulGas = 40000"
definition Bn256PairingBaseGas :: uint64 where "Bn256PairingBaseGas = 100000"
definition Bn256PairingPerPointGas :: uint64 where "Bn256PairingPerPointGas = 80000"
definition DifficultyBoundDivisor :: int where "DifficultyBoundDivisor = 2048"
definition GenesisDifficulty :: int where "GenesisDifficulty = 131072"
definition MinimumDifficulty :: int where "MinimumDifficulty = 131072"
definition DurationLimit :: int where "DurationLimit = 13"

lemmas protocol_params =
  GasLimitBoundDivisor_def
  MinGasLimit_def
  GenesisGasLimit_def
  MaximumExtraDataSize_def
  ExpByteGas_def
  SloadGas_def
  CallValueTransferGas_def
  CallNewAccountGas_def
  TxGas_def
  TxGasContractCreation_def
  TxDataZeroGas_def
  QuadCoeffDiv_def
  LogDataGas_def
  CallStipend_def
  Sha3Gas_def
  Sha3WordGas_def
  SstoreSetGas_def
  SstoreResetGas_def
  SstoreClearGas_def
  SstoreRefundGas_def
  NetSstoreNoopGas_def
  NetSstoreInitGas_def
  NetSstoreCleanGas_def
  NetSstoreDirtyGas_def
  NetSstoreClearRefund_def
  NetSstoreResetRefund_def
  NetSstoreResetClearRefund_def
  JumpdestGas_def
  EpochDuration_def
  CallGas_def
  CreateDataGas_def
  CallCreateDepth_def
  ExpGas_def
  LogGas_def
  CopyGas_def
  StackLimit_def
  TierStepGas_def
  LogTopicGas_def
  CreateGas_def
  Create2Gas_def
  SuicideRefundGas_def
  MemoryGas_def
  TxDataNonZeroGas_def
  MaxCodeSize_def
  EcrecoverGas_def
  Sha256BaseGas_def
  Sha256PerWordGas_def
  Ripemd160BaseGas_def
  Ripemd160PerWordGas_def
  IdentityBaseGas_def
  IdentityPerWordGas_def
  ModExpQuadCoeffDiv_def
  Bn256AddGas_def
  Bn256ScalarMulGas_def
  Bn256PairingBaseGas_def
  Bn256PairingPerPointGas_def
  DifficultyBoundDivisor_def
  GenesisDifficulty_def
  MinimumDifficulty_def
  DurationLimit_def

section \<open>Gas tables\<close>

record GasTable =
  ExtcodeSize :: uint64
  ExtcodeCopy :: uint64
  ExtcodeHash :: uint64
  BalanceGas :: uint64
  SLoad :: uint64
  Calls :: uint64
  SuicideGas :: uint64
  ExpByte :: uint64
  CreateBySuicide :: uint64

definition GasTableHomestead :: GasTable where
  "GasTableHomestead =
     \<lparr>ExtcodeSize = 20, ExtcodeCopy = 20, ExtcodeHash = 0, BalanceGas = 20, SLoad = 50, Calls = 40,
      SuicideGas = 0, ExpByte = 10, CreateBySuicide = 0\<rparr>"

definition GasTableEIP150 :: GasTable where
  "GasTableEIP150 =
     \<lparr>ExtcodeSize = 700, ExtcodeCopy = 700, ExtcodeHash = 0, BalanceGas = 400, SLoad = 200, Calls = 700,
      SuicideGas = 5000, ExpByte = 10, CreateBySuicide = 25000\<rparr>"

definition GasTableEIP158 :: GasTable where
  "GasTableEIP158 =
     \<lparr>ExtcodeSize = 700, ExtcodeCopy = 700, ExtcodeHash = 0, BalanceGas = 400, SLoad = 200, Calls = 700,
      SuicideGas = 5000, ExpByte = 50, CreateBySuicide = 25000\<rparr>"

definition GasTableConstantinople :: GasTable where
  "GasTableConstantinople =
     \<lparr>ExtcodeSize = 700, ExtcodeCopy = 700, ExtcodeHash = 400, BalanceGas = 400, SLoad = 200, Calls = 700,
      SuicideGas = 5000, ExpByte = 50, CreateBySuicide = 25000\<rparr>"

section \<open>Chain configuration\<close>

record ChainConfig =
  ChainID :: "int option"
  HomesteadBlock :: "int option"
  DAOForkBlock :: "int option"
  DAOForkSupport :: bool
  EIP150Block :: "int option"
  EIP150Hash :: Hash
  EIP155Block :: "int option"
  EIP158Block :: "int option"
  ByzantiumBlock :: "int option"
  ConstantinopleBlock :: "int option"
  EWASMBlock :: "int option"

definition isForked :: "int option \<Rightarrow> int option \<Rightarrow> bool" where
  "isForked s head =
     (case (s, head) of (Some s, Some head) \<Rightarrow> s \<le> head | _ \<Rightarrow> False)"

definition IsHomestead :: "ChainConfig \<Rightarrow> int \<Rightarrow> bool" where
  "IsHomestead c num = isForked (HomesteadBlock c) (Some num)"

definition IsDAOFork :: "ChainConfig \<Rightarrow> int \<Rightarrow> bool" where
  "IsDAOFork c num = isForked (DAOForkBlock c) (Some num)"

definition IsEIP150 :: "ChainConfig \<Rightarrow> int \<Rightarrow> bool" where
  "IsEIP150 c num = isForked (EIP150Block c) (Some num)"

definition IsEIP155 :: "ChainConfig \<Rightarrow> int \<Rightarrow> bool" where
  "IsEIP155 c num = isForked (EIP155Block c) (Some num)"

definition IsEIP158 :: "ChainConfig \<Rightarrow> int \<Rightarrow> bool" where
  "IsEIP158 c num = isForked (EIP158Block c) (Some num)"

definition IsByzantium :: "ChainConfig \<Rightarrow> int \<Rightarrow> bool" where
  "IsByzantium c num = isForked (ByzantiumBlock c) (Some num)"

definition IsConstantinople :: "ChainConfig \<Rightarrow> int \<Rightarrow> bool" where
  "IsConstantinople c num = isForked (ConstantinopleBlock c) (Some num)"

definition IsEWASM :: "ChainConfig \<Rightarrow> int \<Rightarrow> bool" where
  "IsEWASM c num = isForked (EWASMBlock c) (Some num)"

definition ChainConfig_GasTable :: "ChainConfig \<Rightarrow> int option \<Rightarrow> GasTable" where
  "ChainConfig_GasTable c num =
     (case num of
        None \<Rightarrow> GasTableHomestead
      | Some num \<Rightarrow>
          if IsConstantinople c num then GasTableConstantinople
          else if IsEIP158 c num then GasTableEIP158
          else if IsEIP150 c num then GasTableEIP150
          else GasTableHomestead)"

record Rules =
  rules_ChainID :: int
  rules_IsHomestead :: bool
  rules_IsEIP150 :: bool
  rules_IsEIP155 :: bool
  rules_IsEIP158 :: bool
  rules_IsByzantium :: bool
  rules_IsConstantinople :: bool

definition ChainConfig_Rules :: "ChainConfig \<Rightarrow> int \<Rightarrow> Rules" where
  "ChainConfig_Rules c num =
     \<lparr>rules_ChainID = (case ChainID c of None \<Rightarrow> 0 | Some x \<Rightarrow> x),
      rules_IsHomestead = IsHomestead c num, rules_IsEIP150 = IsEIP150 c num,
      rules_IsEIP155 = IsEIP155 c num, rules_IsEIP158 = IsEIP158 c num,
      rules_IsByzantium = IsByzantium c num, rules_IsConstantinople = IsConstantinople c num\<rparr>"

section \<open>Compatibility of configurations\<close>

definition configNumEqual :: "int option \<Rightarrow> int option \<Rightarrow> bool" where
  "configNumEqual x y =
     (case x of
        None \<Rightarrow> y = None
      | Some a \<Rightarrow> (case y of None \<Rightarrow> False | Some b \<Rightarrow> a = b))"

definition isForkIncompatible :: "int option \<Rightarrow> int option \<Rightarrow> int \<Rightarrow> bool" where
  "isForkIncompatible s1 s2 head \<longleftrightarrow>
     (isForked s1 (Some head) \<or> isForked s2 (Some head)) \<and> \<not> configNumEqual s1 s2"

record ConfigCompatError =
  What :: string
  StoredConfig :: "int option"
  NewConfig :: "int option"
  RewindTo :: uint64

definition newCompatError :: "string \<Rightarrow> int option \<Rightarrow> int option \<Rightarrow> ConfigCompatError" where
  "newCompatError what storedblock newblock =
     (let rew = (case storedblock of
                   None \<Rightarrow> newblock
                 | Some s \<Rightarrow> (case newblock of
                                None \<Rightarrow> Some s
                              | Some n \<Rightarrow> if s < n then Some s else Some n))
      in \<lparr>What = what, StoredConfig = storedblock, NewConfig = newblock,
          RewindTo = (case rew of Some r \<Rightarrow> if r > 0 then Uint64 r - 1 else 0 | None \<Rightarrow> 0)\<rparr>)"

definition checkCompatible :: "ChainConfig \<Rightarrow> ChainConfig \<Rightarrow> int \<Rightarrow> ConfigCompatError option" where
  "checkCompatible c newcfg head =
     (if isForkIncompatible (HomesteadBlock c) (HomesteadBlock newcfg) head
      then Some (newCompatError ''Homestead fork block'' (HomesteadBlock c) (HomesteadBlock newcfg))
      else if isForkIncompatible (DAOForkBlock c) (DAOForkBlock newcfg) head
      then Some (newCompatError ''DAO fork block'' (DAOForkBlock c) (DAOForkBlock newcfg))
      else if IsDAOFork c head \<and> DAOForkSupport c \<noteq> DAOForkSupport newcfg
      then Some (newCompatError ''DAO fork support flag'' (DAOForkBlock c) (DAOForkBlock newcfg))
      else if isForkIncompatible (EIP150Block c) (EIP150Block newcfg) head
      then Some (newCompatError ''EIP150 fork block'' (EIP150Block c) (EIP150Block newcfg))
      else if isForkIncompatible (EIP155Block c) (EIP155Block newcfg) head
      then Some (newCompatError ''EIP155 fork block'' (EIP155Block c) (EIP155Block newcfg))
      else if isForkIncompatible (EIP158Block c) (EIP158Block newcfg) head
      then Some (newCompatError ''EIP158 fork block'' (EIP158Block c) (EIP158Block newcfg))
      else if IsEIP158 c head \<and> \<not> configNumEqual (ChainID c) (ChainID newcfg)
      then Some (newCompatError ''EIP158 chain ID'' (EIP158Block c) (EIP158Block newcfg))
      else if isForkIncompatible (ByzantiumBlock c) (ByzantiumBlock newcfg) head
      then Some (newCompatError ''Byzantium fork block'' (ByzantiumBlock c) (ByzantiumBlock newcfg))
      else if isForkIncompatible (ConstantinopleBlock c) (ConstantinopleBlock newcfg) head
      then Some (newCompatError ''Constantinople fork block'' (ConstantinopleBlock c) (ConstantinopleBlock newcfg))
      else if isForkIncompatible (EWASMBlock c) (EWASMBlock newcfg) head
      then Some (newCompatError ''ewasm fork block'' (EWASMBlock c) (EWASMBlock newcfg))
      else None)"

section \<open>Every conflict rewinds below the head\<close>

lemma newCompatError_rewind:
  assumes "isForked s (Some head) \<or> isForked n (Some head)" "0 \<le> head" "head < 2 ^ 64"
  shows "uint (RewindTo (newCompatError what s n)) < head \<or> RewindTo (newCompatError what s n) = 0"
proof -
  have "uint (Uint64 r - 1) < head" if "0 < r" "r \<le> head" for r
  proof -
    have "uint (Uint64 r) = r" using that assms by (intro uint_Uint64) auto
    then have "uint (Uint64 r - 1) = r - 1" using that by (simp add: uint_sub_if_size word_size)
    then show ?thesis using that by simp
  qed
  then show ?thesis
    using assms(1) by (auto simp: newCompatError_def isForked_def Let_def split: option.splits if_splits)
qed

lemma checkCompatible_rewind:
  assumes "checkCompatible c n head = Some e" "0 \<le> head" "head < 2 ^ 64"
  shows "uint (RewindTo e) < head \<or> RewindTo e = 0"
proof -
  define low where "low r \<longleftrightarrow> uint r < head \<or> r = 0" for r :: uint64
  have F: "low (RewindTo (newCompatError w s1 s2))" if "isForked s1 (Some head) \<or> isForked s2 (Some head)" for w s1 s2
    using newCompatError_rewind [OF that assms(2,3)] by (simp add: low_def)
  then have I: "low (RewindTo (newCompatError w s1 s2))" if "isForkIncompatible s1 s2 head" for w s1 s2
    using that by (simp add: isForkIncompatible_def)
  have "low (RewindTo e)"
    using assms(1) F I unfolding checkCompatible_def IsDAOFork_def IsEIP158_def by (auto split: if_splits)
  then show ?thesis by (simp add: low_def)
qed

text \<open>
  The loop of \<^verbatim>\<open>CheckCompatible\<close>.  The head strictly decreases with every conflict until it is 0,
  where the same conflict is found twice and ends the loop.
\<close>

function CheckCompatible_loop ::
  "ChainConfig \<Rightarrow> ChainConfig \<Rightarrow> ConfigCompatError option \<Rightarrow> uint64 \<Rightarrow> ConfigCompatError option" where
  "CheckCompatible_loop c newcfg lasterr bhead =
     (case checkCompatible c newcfg (uint bhead) of
        None \<Rightarrow> lasterr
      | Some err \<Rightarrow>
          if lasterr \<noteq> None \<and> RewindTo err = RewindTo (the lasterr) then lasterr
          else CheckCompatible_loop c newcfg (Some err) (RewindTo err))"
  by pat_completeness auto
termination
proof (relation "measure (\<lambda>(c, n, lasterr, h).
    2 * unat h + (case lasterr of None \<Rightarrow> 1 | Some l \<Rightarrow> if RewindTo l = 0 then 0 else 1))", goal_cases)
  case (2 c n lasterr h err)
  then have "uint (RewindTo err) < uint h \<or> RewindTo err = 0"
    using checkCompatible_rewind [of c n "uint h" err] uint_lt2p [of h] by simp
  then have "unat (RewindTo err) < unat h \<or> RewindTo err = 0"
    by (simp add: word_less_nat_alt flip: word_less_def)
  moreover have "h \<noteq> 0 \<Longrightarrow> 0 < unat h" by (simp add: unat_gt_0)
  ultimately show ?case using 2 by (cases "h = 0") (auto split: option.splits)
qed simp

definition CheckCompatible :: "ChainConfig \<Rightarrow> ChainConfig \<Rightarrow> uint64 \<Rightarrow> ConfigCompatError option" where
  "CheckCompatible c newcfg height = CheckCompatible_loop c newcfg None height"

declare CheckCompatible_loop.simps [simp del]

lemma checkCompatible_rewind_le:
  assumes "checkCompatible c n (uint h) = Some e"
  shows "RewindTo e < h \<or> RewindTo e = 0"
  using checkCompatible_rewind [OF assms] uint_lt2p [of h] by (auto simp: word_less_def)

lemma CheckCompatible_loop_correct:
  "RewindTo l = h \<Longrightarrow>
     \<exists>e. CheckCompatible_loop c n (Some l) h = Some e \<and> RewindTo e \<le> h \<and>
         (checkCompatible c n (uint (RewindTo e)) = None \<or> RewindTo e = 0)"
proof (induction c n "Some l" h arbitrary: l rule: CheckCompatible_loop.induct)
  case (1 c n h)
  show ?case
  proof (cases "checkCompatible c n (uint h)")
    case None
    then show ?thesis using 1 by (subst CheckCompatible_loop.simps) simp
  next
    case (Some err)
    note low = checkCompatible_rewind_le [OF Some]
    show ?thesis
    proof (cases "RewindTo err = RewindTo l")
      case True
      then have "RewindTo l = 0" using low "1.prems" by auto
      then show ?thesis using Some True "1.prems" by (subst CheckCompatible_loop.simps) simp
    next
      case False
      obtain e where e: "CheckCompatible_loop c n (Some err) (RewindTo err) = Some e" "RewindTo e \<le> RewindTo err"
        "checkCompatible c n (uint (RewindTo e)) = None \<or> RewindTo e = 0"
        using "1.hyps" [OF Some _ refl] False by auto
      have "CheckCompatible_loop c n (Some l) h = Some e"
        using Some False e(1) by (subst CheckCompatible_loop.simps) simp
      moreover have "RewindTo e \<le> h" using e(2) low by auto
      ultimately show ?thesis using e(3) by blast
    qed
  qed
qed

text \<open>
  \<^verbatim>\<open>CheckCompatible\<close> finds a conflict exactly if there is one at the current height, and the height
  it asks to rewind to is not above the current one and is free of conflicts (or it is the genesis).
\<close>

theorem CheckCompatible_lowest:
  "case CheckCompatible c newcfg height of
     None \<Rightarrow> checkCompatible c newcfg (uint height) = None
   | Some e \<Rightarrow> checkCompatible c newcfg (uint height) \<noteq> None \<and> RewindTo e \<le> height \<and>
       (RewindTo e = 0 \<or> checkCompatible c newcfg (uint (RewindTo e)) = None)"
proof (cases "checkCompatible c newcfg (uint height)")
  case None
  then show ?thesis by (simp add: CheckCompatible_def CheckCompatible_loop.simps)
next
  case (Some err)
  obtain e where e: "CheckCompatible_loop c newcfg (Some err) (RewindTo err) = Some e" "RewindTo e \<le> RewindTo err"
    "checkCompatible c newcfg (uint (RewindTo e)) = None \<or> RewindTo e = 0"
    using CheckCompatible_loop_correct [where l = err and c = c and n = newcfg, OF refl] by auto
  moreover have "CheckCompatible c newcfg height = Some e"
    unfolding CheckCompatible_def using Some e(1) by (subst CheckCompatible_loop.simps) simp
  moreover have "RewindTo e \<le> height" using e(2) checkCompatible_rewind_le [OF Some] by auto
  ultimately show ?thesis using Some by auto
qed

end
