(* ===== verification/Opcodes.thy ===== *)
theory Opcodes
  imports Prelude
begin

text \<open>
  \<^verbatim>\<open>core/vm/opcodes.go\<close>: the instructions of the EVM, their encoding as bytes and their names.
\<close>

type_synonym OpCode = byte

section \<open>The opcodes\<close>

definition STOP :: OpCode where "STOP = 0x00"
definition ADD :: OpCode where "ADD = 0x01"
definition MUL :: OpCode where "MUL = 0x02"
definition SUB :: OpCode where "SUB = 0x03"
definition DIV :: OpCode where "DIV = 0x04"
definition SDIV :: OpCode where "SDIV = 0x05"
definition MOD :: OpCode where "MOD = 0x06"
definition SMOD :: OpCode where "SMOD = 0x07"
definition ADDMOD :: OpCode where "ADDMOD = 0x08"
definition MULMOD :: OpCode where "MULMOD = 0x09"
definition EXP :: OpCode where "EXP = 0x0A"
definition SIGNEXTEND :: OpCode where "SIGNEXTEND = 0x0B"
definition LT :: OpCode where "LT = 0x10"
definition GT :: OpCode where "GT = 0x11"
definition SLT :: OpCode where "SLT = 0x12"
definition SGT :: OpCode where "SGT = 0x13"
definition EQ :: OpCode where "EQ = 0x14"
definition ISZERO :: OpCode where "ISZERO = 0x15"
definition AND :: OpCode where "AND = 0x16"
definition OR :: OpCode where "OR = 0x17"
definition XOR :: OpCode where "XOR = 0x18"
definition NOT :: OpCode where "NOT = 0x19"
definition BYTE :: OpCode where "BYTE = 0x1A"
definition SHL :: OpCode where "SHL = 0x1B"
definition SHR :: OpCode where "SHR = 0x1C"
definition SAR :: OpCode where "SAR = 0x1D"
definition SHA3 :: OpCode where "SHA3 = 0x20"
definition ADDRESS :: OpCode where "ADDRESS = 0x30"
definition BALANCE :: OpCode where "BALANCE = 0x31"
definition ORIGIN :: OpCode where "ORIGIN = 0x32"
definition CALLER :: OpCode where "CALLER = 0x33"
definition CALLVALUE :: OpCode where "CALLVALUE = 0x34"
definition CALLDATALOAD :: OpCode where "CALLDATALOAD = 0x35"
definition CALLDATASIZE :: OpCode where "CALLDATASIZE = 0x36"
definition CALLDATACOPY :: OpCode where "CALLDATACOPY = 0x37"
definition CODESIZE :: OpCode where "CODESIZE = 0x38"
definition CODECOPY :: OpCode where "CODECOPY = 0x39"
definition GASPRICE :: OpCode where "GASPRICE = 0x3A"
definition EXTCODESIZE :: OpCode where "EXTCODESIZE = 0x3B"
definition EXTCODECOPY :: OpCode where "EXTCODECOPY = 0x3C"
definition RETURNDATASIZE :: OpCode where "RETURNDATASIZE = 0x3D"
definition RETURNDATACOPY :: OpCode where "RETURNDATACOPY = 0x3E"
definition EXTCODEHASH :: OpCode where "EXTCODEHASH = 0x3F"
definition BLOCKHASH :: OpCode where "BLOCKHASH = 0x40"
definition COINBASE :: OpCode where "COINBASE = 0x41"
definition TIMESTAMP :: OpCode where "TIMESTAMP = 0x42"
definition NUMBER :: OpCode where "NUMBER = 0x43"
definition DIFFICULTY :: OpCode where "DIFFICULTY = 0x44"
definition GASLIMIT :: OpCode where "GASLIMIT = 0x45"
definition POP :: OpCode where "POP = 0x50"
definition MLOAD :: OpCode where "MLOAD = 0x51"
definition MSTORE :: OpCode where "MSTORE = 0x52"
definition MSTORE8 :: OpCode where "MSTORE8 = 0x53"
definition SLOAD :: OpCode where "SLOAD = 0x54"
definition SSTORE :: OpCode where "SSTORE = 0x55"
definition JUMP :: OpCode where "JUMP = 0x56"
definition JUMPI :: OpCode where "JUMPI = 0x57"
definition PC :: OpCode where "PC = 0x58"
definition MSIZE :: OpCode where "MSIZE = 0x59"
definition GAS :: OpCode where "GAS = 0x5A"
definition JUMPDEST :: OpCode where "JUMPDEST = 0x5B"
definition PUSH1 :: OpCode where "PUSH1 = 0x60"
definition PUSH2 :: OpCode where "PUSH2 = 0x61"
definition PUSH3 :: OpCode where "PUSH3 = 0x62"
definition PUSH4 :: OpCode where "PUSH4 = 0x63"
definition PUSH5 :: OpCode where "PUSH5 = 0x64"
definition PUSH6 :: OpCode where "PUSH6 = 0x65"
definition PUSH7 :: OpCode where "PUSH7 = 0x66"
definition PUSH8 :: OpCode where "PUSH8 = 0x67"
definition PUSH9 :: OpCode where "PUSH9 = 0x68"
definition PUSH10 :: OpCode where "PUSH10 = 0x69"
definition PUSH11 :: OpCode where "PUSH11 = 0x6A"
definition PUSH12 :: OpCode where "PUSH12 = 0x6B"
definition PUSH13 :: OpCode where "PUSH13 = 0x6C"
definition PUSH14 :: OpCode where "PUSH14 = 0x6D"
definition PUSH15 :: OpCode where "PUSH15 = 0x6E"
definition PUSH16 :: OpCode where "PUSH16 = 0x6F"
definition PUSH17 :: OpCode where "PUSH17 = 0x70"
definition PUSH18 :: OpCode where "PUSH18 = 0x71"
definition PUSH19 :: OpCode where "PUSH19 = 0x72"
definition PUSH20 :: OpCode where "PUSH20 = 0x73"
definition PUSH21 :: OpCode where "PUSH21 = 0x74"
definition PUSH22 :: OpCode where "PUSH22 = 0x75"
definition PUSH23 :: OpCode where "PUSH23 = 0x76"
definition PUSH24 :: OpCode where "PUSH24 = 0x77"
definition PUSH25 :: OpCode where "PUSH25 = 0x78"
definition PUSH26 :: OpCode where "PUSH26 = 0x79"
definition PUSH27 :: OpCode where "PUSH27 = 0x7A"
definition PUSH28 :: OpCode where "PUSH28 = 0x7B"
definition PUSH29 :: OpCode where "PUSH29 = 0x7C"
definition PUSH30 :: OpCode where "PUSH30 = 0x7D"
definition PUSH31 :: OpCode where "PUSH31 = 0x7E"
definition PUSH32 :: OpCode where "PUSH32 = 0x7F"
definition DUP1 :: OpCode where "DUP1 = 0x80"
definition DUP2 :: OpCode where "DUP2 = 0x81"
definition DUP3 :: OpCode where "DUP3 = 0x82"
definition DUP4 :: OpCode where "DUP4 = 0x83"
definition DUP5 :: OpCode where "DUP5 = 0x84"
definition DUP6 :: OpCode where "DUP6 = 0x85"
definition DUP7 :: OpCode where "DUP7 = 0x86"
definition DUP8 :: OpCode where "DUP8 = 0x87"
definition DUP9 :: OpCode where "DUP9 = 0x88"
definition DUP10 :: OpCode where "DUP10 = 0x89"
definition DUP11 :: OpCode where "DUP11 = 0x8A"
definition DUP12 :: OpCode where "DUP12 = 0x8B"
definition DUP13 :: OpCode where "DUP13 = 0x8C"
definition DUP14 :: OpCode where "DUP14 = 0x8D"
definition DUP15 :: OpCode where "DUP15 = 0x8E"
definition DUP16 :: OpCode where "DUP16 = 0x8F"
definition SWAP1 :: OpCode where "SWAP1 = 0x90"
definition SWAP2 :: OpCode where "SWAP2 = 0x91"
definition SWAP3 :: OpCode where "SWAP3 = 0x92"
definition SWAP4 :: OpCode where "SWAP4 = 0x93"
definition SWAP5 :: OpCode where "SWAP5 = 0x94"
definition SWAP6 :: OpCode where "SWAP6 = 0x95"
definition SWAP7 :: OpCode where "SWAP7 = 0x96"
definition SWAP8 :: OpCode where "SWAP8 = 0x97"
definition SWAP9 :: OpCode where "SWAP9 = 0x98"
definition SWAP10 :: OpCode where "SWAP10 = 0x99"
definition SWAP11 :: OpCode where "SWAP11 = 0x9A"
definition SWAP12 :: OpCode where "SWAP12 = 0x9B"
definition SWAP13 :: OpCode where "SWAP13 = 0x9C"
definition SWAP14 :: OpCode where "SWAP14 = 0x9D"
definition SWAP15 :: OpCode where "SWAP15 = 0x9E"
definition SWAP16 :: OpCode where "SWAP16 = 0x9F"
definition LOG0 :: OpCode where "LOG0 = 0xA0"
definition LOG1 :: OpCode where "LOG1 = 0xA1"
definition LOG2 :: OpCode where "LOG2 = 0xA2"
definition LOG3 :: OpCode where "LOG3 = 0xA3"
definition LOG4 :: OpCode where "LOG4 = 0xA4"
definition PUSH :: OpCode where "PUSH = 0xB0"
definition DUP :: OpCode where "DUP = 0xB1"
definition SWAP :: OpCode where "SWAP = 0xB2"
definition CREATE :: OpCode where "CREATE = 0xF0"
definition CALL :: OpCode where "CALL = 0xF1"
definition CALLCODE :: OpCode where "CALLCODE = 0xF2"
definition RETURN :: OpCode where "RETURN = 0xF3"
definition DELEGATECALL :: OpCode where "DELEGATECALL = 0xF4"
definition CREATE2 :: OpCode where "CREATE2 = 0xF5"
definition STATICCALL :: OpCode where "STATICCALL = 0xFA"
definition REVERT :: OpCode where "REVERT = 0xFD"
definition SELFDESTRUCT :: OpCode where "SELFDESTRUCT = 0xFF"

lemmas opcode_defs =
  STOP_def ADD_def MUL_def SUB_def DIV_def SDIV_def MOD_def SMOD_def
  ADDMOD_def MULMOD_def EXP_def SIGNEXTEND_def LT_def GT_def SLT_def SGT_def
  EQ_def ISZERO_def AND_def OR_def XOR_def NOT_def BYTE_def SHL_def
  SHR_def SAR_def SHA3_def ADDRESS_def BALANCE_def ORIGIN_def CALLER_def CALLVALUE_def
  CALLDATALOAD_def CALLDATASIZE_def CALLDATACOPY_def CODESIZE_def CODECOPY_def GASPRICE_def EXTCODESIZE_def EXTCODECOPY_def
  RETURNDATASIZE_def RETURNDATACOPY_def EXTCODEHASH_def BLOCKHASH_def COINBASE_def TIMESTAMP_def NUMBER_def DIFFICULTY_def
  GASLIMIT_def POP_def MLOAD_def MSTORE_def MSTORE8_def SLOAD_def SSTORE_def JUMP_def
  JUMPI_def PC_def MSIZE_def GAS_def JUMPDEST_def PUSH1_def PUSH2_def PUSH3_def
  PUSH4_def PUSH5_def PUSH6_def PUSH7_def PUSH8_def PUSH9_def PUSH10_def PUSH11_def
  PUSH12_def PUSH13_def PUSH14_def PUSH15_def PUSH16_def PUSH17_def PUSH18_def PUSH19_def
  PUSH20_def PUSH21_def PUSH22_def PUSH23_def PUSH24_def PUSH25_def PUSH26_def PUSH27_def
  PUSH28_def PUSH29_def PUSH30_def PUSH31_def PUSH32_def DUP1_def DUP2_def DUP3_def
  DUP4_def DUP5_def DUP6_def DUP7_def DUP8_def DUP9_def DUP10_def DUP11_def
  DUP12_def DUP13_def DUP14_def DUP15_def DUP16_def SWAP1_def SWAP2_def SWAP3_def
  SWAP4_def SWAP5_def SWAP6_def SWAP7_def SWAP8_def SWAP9_def SWAP10_def SWAP11_def
  SWAP12_def SWAP13_def SWAP14_def SWAP15_def SWAP16_def LOG0_def LOG1_def LOG2_def
  LOG3_def LOG4_def PUSH_def DUP_def SWAP_def CREATE_def CALL_def CALLCODE_def
  RETURN_def DELEGATECALL_def CREATE2_def STATICCALL_def REVERT_def SELFDESTRUCT_def

definition IsPush :: "OpCode \<Rightarrow> bool" where
  "IsPush op \<longleftrightarrow>
     op \<in> set [PUSH1, PUSH2, PUSH3, PUSH4, PUSH5, PUSH6, PUSH7, PUSH8, PUSH9, PUSH10, PUSH11, PUSH12, PUSH13,
      PUSH14, PUSH15, PUSH16, PUSH17, PUSH18, PUSH19, PUSH20, PUSH21, PUSH22, PUSH23, PUSH24,
      PUSH25, PUSH26, PUSH27, PUSH28, PUSH29, PUSH30, PUSH31, PUSH32]"

definition IsStaticJump :: "OpCode \<Rightarrow> bool" where
  "IsStaticJump op \<longleftrightarrow> op = JUMP"

section \<open>Names\<close>

definition opCodeToString :: "(OpCode \<times> string) list" where
  "opCodeToString =
    [(STOP, ''STOP''), (ADD, ''ADD''), (MUL, ''MUL''), (SUB, ''SUB''), (DIV, ''DIV''),
      (SDIV, ''SDIV''), (MOD, ''MOD''), (SMOD, ''SMOD''), (EXP, ''EXP''), (NOT, ''NOT''),
      (LT, ''LT''), (GT, ''GT''), (SLT, ''SLT''), (SGT, ''SGT''), (EQ, ''EQ''),
      (ISZERO, ''ISZERO''), (SIGNEXTEND, ''SIGNEXTEND''), (AND, ''AND''), (OR, ''OR''),
      (XOR, ''XOR''), (BYTE, ''BYTE''), (SHL, ''SHL''), (SHR, ''SHR''), (SAR, ''SAR''),
      (ADDMOD, ''ADDMOD''), (MULMOD, ''MULMOD''), (SHA3, ''SHA3''), (ADDRESS, ''ADDRESS''),
      (BALANCE, ''BALANCE''), (ORIGIN, ''ORIGIN''), (CALLER, ''CALLER''),
      (CALLVALUE, ''CALLVALUE''), (CALLDATALOAD, ''CALLDATALOAD''),
      (CALLDATASIZE, ''CALLDATASIZE''), (CALLDATACOPY, ''CALLDATACOPY''), (CODESIZE, ''CODESIZE''),
      (CODECOPY, ''CODECOPY''), (GASPRICE, ''GASPRICE''), (EXTCODESIZE, ''EXTCODESIZE''),
      (EXTCODECOPY, ''EXTCODECOPY''), (RETURNDATASIZE, ''RETURNDATASIZE''),
      (RETURNDATACOPY, ''RETURNDATACOPY''), (EXTCODEHASH, ''EXTCODEHASH''),
      (BLOCKHASH, ''BLOCKHASH''), (COINBASE, ''COINBASE''), (TIMESTAMP, ''TIMESTAMP''),
      (NUMBER, ''NUMBER''), (DIFFICULTY, ''DIFFICULTY''), (GASLIMIT, ''GASLIMIT''), (POP, ''POP''),
      (MLOAD, ''MLOAD''), (MSTORE, ''MSTORE''), (MSTORE8, ''MSTORE8''), (SLOAD, ''SLOAD''),
      (SSTORE, ''SSTORE''), (JUMP, ''JUMP''), (JUMPI, ''JUMPI''), (PC, ''PC''), (MSIZE, ''MSIZE''),
      (GAS, ''GAS''), (JUMPDEST, ''JUMPDEST''), (PUSH1, ''PUSH1''), (PUSH2, ''PUSH2''),
      (PUSH3, ''PUSH3''), (PUSH4, ''PUSH4''), (PUSH5, ''PUSH5''), (PUSH6, ''PUSH6''),
      (PUSH7, ''PUSH7''), (PUSH8, ''PUSH8''), (PUSH9, ''PUSH9''), (PUSH10, ''PUSH10''),
      (PUSH11, ''PUSH11''), (PUSH12, ''PUSH12''), (PUSH13, ''PUSH13''), (PUSH14, ''PUSH14''),
      (PUSH15, ''PUSH15''), (PUSH16, ''PUSH16''), (PUSH17, ''PUSH17''), (PUSH18, ''PUSH18''),
      (PUSH19, ''PUSH19''), (PUSH20, ''PUSH20''), (PUSH21, ''PUSH21''), (PUSH22, ''PUSH22''),
      (PUSH23, ''PUSH23''), (PUSH24, ''PUSH24''), (PUSH25, ''PUSH25''), (PUSH26, ''PUSH26''),
      (PUSH27, ''PUSH27''), (PUSH28, ''PUSH28''), (PUSH29, ''PUSH29''), (PUSH30, ''PUSH30''),
      (PUSH31, ''PUSH31''), (PUSH32, ''PUSH32''), (DUP1, ''DUP1''), (DUP2, ''DUP2''),
      (DUP3, ''DUP3''), (DUP4, ''DUP4''), (DUP5, ''DUP5''), (DUP6, ''DUP6''), (DUP7, ''DUP7''),
      (DUP8, ''DUP8''), (DUP9, ''DUP9''), (DUP10, ''DUP10''), (DUP11, ''DUP11''),
      (DUP12, ''DUP12''), (DUP13, ''DUP13''), (DUP14, ''DUP14''), (DUP15, ''DUP15''),
      (DUP16, ''DUP16''), (SWAP1, ''SWAP1''), (SWAP2, ''SWAP2''), (SWAP3, ''SWAP3''),
      (SWAP4, ''SWAP4''), (SWAP5, ''SWAP5''), (SWAP6, ''SWAP6''), (SWAP7, ''SWAP7''),
      (SWAP8, ''SWAP8''), (SWAP9, ''SWAP9''), (SWAP10, ''SWAP10''), (SWAP11, ''SWAP11''),
      (SWAP12, ''SWAP12''), (SWAP13, ''SWAP13''), (SWAP14, ''SWAP14''), (SWAP15, ''SWAP15''),
      (SWAP16, ''SWAP16''), (LOG0, ''LOG0''), (LOG1, ''LOG1''), (LOG2, ''LOG2''), (LOG3, ''LOG3''),
      (LOG4, ''LOG4''), (CREATE, ''CREATE''), (CALL, ''CALL''), (RETURN, ''RETURN''),
      (CALLCODE, ''CALLCODE''), (DELEGATECALL, ''DELEGATECALL''), (CREATE2, ''CREATE2''),
      (STATICCALL, ''STATICCALL''), (REVERT, ''REVERT''), (SELFDESTRUCT, ''SELFDESTRUCT''),
      (PUSH, ''PUSH''), (DUP, ''DUP''), (SWAP, ''SWAP'')]"

definition stringToOp :: "(string \<times> OpCode) list" where
  "stringToOp =
    [(''STOP'', STOP), (''ADD'', ADD), (''MUL'', MUL), (''SUB'', SUB), (''DIV'', DIV),
      (''SDIV'', SDIV), (''MOD'', MOD), (''SMOD'', SMOD), (''EXP'', EXP), (''NOT'', NOT),
      (''LT'', LT), (''GT'', GT), (''SLT'', SLT), (''SGT'', SGT), (''EQ'', EQ),
      (''ISZERO'', ISZERO), (''SIGNEXTEND'', SIGNEXTEND), (''AND'', AND), (''OR'', OR),
      (''XOR'', XOR), (''BYTE'', BYTE), (''SHL'', SHL), (''SHR'', SHR), (''SAR'', SAR),
      (''ADDMOD'', ADDMOD), (''MULMOD'', MULMOD), (''SHA3'', SHA3), (''ADDRESS'', ADDRESS),
      (''BALANCE'', BALANCE), (''ORIGIN'', ORIGIN), (''CALLER'', CALLER),
      (''CALLVALUE'', CALLVALUE), (''CALLDATALOAD'', CALLDATALOAD),
      (''CALLDATASIZE'', CALLDATASIZE), (''CALLDATACOPY'', CALLDATACOPY),
      (''DELEGATECALL'', DELEGATECALL), (''STATICCALL'', STATICCALL), (''CODESIZE'', CODESIZE),
      (''CODECOPY'', CODECOPY), (''GASPRICE'', GASPRICE), (''EXTCODESIZE'', EXTCODESIZE),
      (''EXTCODECOPY'', EXTCODECOPY), (''RETURNDATASIZE'', RETURNDATASIZE),
      (''RETURNDATACOPY'', RETURNDATACOPY), (''EXTCODEHASH'', EXTCODEHASH),
      (''BLOCKHASH'', BLOCKHASH), (''COINBASE'', COINBASE), (''TIMESTAMP'', TIMESTAMP),
      (''NUMBER'', NUMBER), (''DIFFICULTY'', DIFFICULTY), (''GASLIMIT'', GASLIMIT), (''POP'', POP),
      (''MLOAD'', MLOAD), (''MSTORE'', MSTORE), (''MSTORE8'', MSTORE8), (''SLOAD'', SLOAD),
      (''SSTORE'', SSTORE), (''JUMP'', JUMP), (''JUMPI'', JUMPI), (''PC'', PC), (''MSIZE'', MSIZE),
      (''GAS'', GAS), (''JUMPDEST'', JUMPDEST), (''PUSH1'', PUSH1), (''PUSH2'', PUSH2),
      (''PUSH3'', PUSH3), (''PUSH4'', PUSH4), (''PUSH5'', PUSH5), (''PUSH6'', PUSH6),
      (''PUSH7'', PUSH7), (''PUSH8'', PUSH8), (''PUSH9'', PUSH9), (''PUSH10'', PUSH10),
      (''PUSH11'', PUSH11), (''PUSH12'', PUSH12), (''PUSH13'', PUSH13), (''PUSH14'', PUSH14),
      (''PUSH15'', PUSH15), (''PUSH16'', PUSH16), (''PUSH17'', PUSH17), (''PUSH18'', PUSH18),
      (''PUSH19'', PUSH19), (''PUSH20'', PUSH20), (''PUSH21'', PUSH21), (''PUSH22'', PUSH22),
      (''PUSH23'', PUSH23), (''PUSH24'', PUSH24), (''PUSH25'', PUSH25), (''PUSH26'', PUSH26),
      (''PUSH27'', PUSH27), (''PUSH28'', PUSH28), (''PUSH29'', PUSH29), (''PUSH30'', PUSH30),
      (''PUSH31'', PUSH31), (''PUSH32'', PUSH32), (''DUP1'', DUP1), (''DUP2'', DUP2),
      (''DUP3'', DUP3), (''DUP4'', DUP4), (''DUP5'', DUP5), (''DUP6'', DUP6), (''DUP7'', DUP7),
      (''DUP8'', DUP8), (''DUP9'', DUP9), (''DUP10'', DUP10), (''DUP11'', DUP11),
      (''DUP12'', DUP12), (''DUP13'', DUP13), (''DUP14'', DUP14), (''DUP15'', DUP15),
      (''DUP16'', DUP16), (''SWAP1'', SWAP1), (''SWAP2'', SWAP2), (''SWAP3'', SWAP3),
      (''SWAP4'', SWAP4), (''SWAP5'', SWAP5), (''SWAP6'', SWAP6), (''SWAP7'', SWAP7),
      (''SWAP8'', SWAP8), (''SWAP9'', SWAP9), (''SWAP10'', SWAP10), (''SWAP11'', SWAP11),
      (''SWAP12'', SWAP12), (''SWAP13'', SWAP13), (''SWAP14'', SWAP14), (''SWAP15'', SWAP15),
      (''SWAP16'', SWAP16), (''LOG0'', LOG0), (''LOG1'', LOG1), (''LOG2'', LOG2), (''LOG3'', LOG3),
      (''LOG4'', LOG4), (''CREATE'', CREATE), (''CREATE2'', CREATE2), (''CALL'', CALL),
      (''RETURN'', RETURN), (''CALLCODE'', CALLCODE), (''REVERT'', REVERT),
      (''SELFDESTRUCT'', SELFDESTRUCT)]"

text \<open>
  \<^verbatim>\<open>OpCode.String\<close>; \<open>missing\<close> is the text \<^verbatim>\<open>fmt.Sprintf\<close> makes of an opcode without a name.
\<close>

definition OpCode_String :: "(OpCode \<Rightarrow> string) \<Rightarrow> OpCode \<Rightarrow> string" where
  "OpCode_String missing op =
     (let str = (case map_of opCodeToString op of None \<Rightarrow> [] | Some s \<Rightarrow> s)
      in if length str = 0 then missing op else str)"

definition StringToOp :: "string \<Rightarrow> OpCode" where
  "StringToOp str = (case map_of stringToOp str of None \<Rightarrow> 0 | Some op \<Rightarrow> op)"

end
