(* ===== verification/VM_Data.thy ===== *)
theory VM_Data
  imports Common_Types Common_Math Params Opcodes State_DB
begin

text \<open>
  The data of the virtual machine: errors (\<^verbatim>\<open>core/vm/errors.go\<close> and the error values of the other
  files), the stack (\<^verbatim>\<open>stack.go\<close>, \<^verbatim>\<open>stack_table.go\<close>), the memory (\<^verbatim>\<open>memory.go\<close>), the contract in
  execution (\<^verbatim>\<open>contract.go\<close>), the helpers of \<^verbatim>\<open>common.go\<close> and the jump destination analysis
  (\<^verbatim>\<open>analysis.go\<close>).

  The stack is a list with its top first.  A \<^verbatim>\<open>*big.Int\<close> on the stack is used by one owner at a
  time (an instruction pops it or overwrites the slot it peeked at), so values stand for the
  pointers, and the \<^verbatim>\<open>intPool\<close> that recycles them has no counterpart.
\<close>

section \<open>Errors\<close>

datatype vmerr =
    ErrOutOfGas
  | ErrCodeStoreOutOfGas
  | ErrDepth
  | ErrTraceLimitReached
  | ErrInsufficientBalance
  | ErrContractAddressCollision
  | ErrNoCompatibleInterpreter
  | errWriteProtection
  | errReturnDataOutOfBounds
  | errExecutionReverted
  | errMaxCodeSizeExceeded
  | errGasUintOverflow
  | errBadPairingInput
  | errInvalidOpcode OpCode
  | errStackUnderflow nat nat
  | errStackLimit nat
  | errInvalidJump OpCode int
  | errPrecompile

section \<open>Stack\<close>

type_synonym Stack = "int list"

definition newstack :: Stack where "newstack = []"

definition stack_push :: "int \<Rightarrow> Stack \<Rightarrow> Stack" where
  "stack_push d st = d # st"

fun stack_pop :: "Stack \<Rightarrow> (int \<times> Stack) option" where
  "stack_pop [] = None"
| "stack_pop (x # st) = Some (x, st)"

definition stack_Back :: "Stack \<Rightarrow> nat \<Rightarrow> int option" where
  "stack_Back st n = (if n < length st then Some (st ! n) else None)"

definition stack_peek :: "Stack \<Rightarrow> int option" where
  "stack_peek st = stack_Back st 0"

text \<open>Overwriting the value that \<^verbatim>\<open>peek\<close> returned.\<close>

definition stack_poke :: "int \<Rightarrow> Stack \<Rightarrow> Stack" where
  "stack_poke v st = st[0 := v]"

definition stack_swap :: "nat \<Rightarrow> Stack \<Rightarrow> Stack option" where
  "stack_swap n st =
     (if 0 < n \<and> n \<le> length st then Some (st[0 := st ! (n - 1), n - 1 := st ! 0]) else None)"

definition stack_dup :: "nat \<Rightarrow> Stack \<Rightarrow> Stack option" where
  "stack_dup n st = (if 0 < n \<and> n \<le> length st then Some (stack_push (st ! (n - 1)) st) else None)"

definition stack_require :: "nat \<Rightarrow> Stack \<Rightarrow> vmerr option" where
  "stack_require n st = (if length st < n then Some (errStackUnderflow (length st) n) else None)"

definition makeStackFunc :: "nat \<Rightarrow> nat \<Rightarrow> Stack \<Rightarrow> vmerr option" where
  "makeStackFunc pop push stack =
     (case stack_require pop stack of
        Some err \<Rightarrow> Some err
      | None \<Rightarrow>
          if int (length stack) + int push - int pop > uint StackLimit
          then Some (errStackLimit (length stack)) else None)"

definition makeDupStackFunc :: "nat \<Rightarrow> Stack \<Rightarrow> vmerr option" where
  "makeDupStackFunc n = makeStackFunc n (n + 1)"

definition makeSwapStackFunc :: "nat \<Rightarrow> Stack \<Rightarrow> vmerr option" where
  "makeSwapStackFunc n = makeStackFunc n n"

section \<open>Memory\<close>

record Memory =
  store :: bytes
  lastGasCost :: uint64

definition NewMemory :: Memory where
  "NewMemory = \<lparr>store = [], lastGasCost = 0\<rparr>"

definition mem_Len :: "Memory \<Rightarrow> nat" where
  "mem_Len m = length (store m)"

text \<open>
  \<^verbatim>\<open>copy\<close> into the slice \<^verbatim>\<open>store[offset:offset+sz]\<close> moves at most \<^verbatim>\<open>sz\<close> bytes; the slice expression
  panics when the (wrapping) sum is below the offset.
\<close>

definition mem_Set :: "uint64 \<Rightarrow> uint64 \<Rightarrow> bytes \<Rightarrow> Memory \<Rightarrow> Memory option" where
  "mem_Set offset sz value m =
     (if sz > 0 then
        if offset + sz > of_nat (length (store m)) then None
        else if offset > offset + sz then None
        else Some (m\<lparr>store := copy_at (store m) (unat offset) (take (unat sz) value)\<rparr>)
      else Some m)"

definition mem_Set32 :: "uint64 \<Rightarrow> int \<Rightarrow> Memory \<Rightarrow> Memory option" where
  "mem_Set32 offset val m =
     (if offset + 32 > of_nat (length (store m)) then None
      else if offset > offset + 32 then None
      else
        let window = ReadBits val (replicate 32 0)
        in Some (m\<lparr>store := copy_at (store m) (unat offset) window\<rparr>))"

definition mem_Resize :: "uint64 \<Rightarrow> Memory \<Rightarrow> Memory" where
  "mem_Resize sz m =
     (if of_nat (mem_Len m) < sz
      then m\<lparr>store := store m @ replicate (unat (sz - of_nat (mem_Len m))) 0\<rparr> else m)"

definition mem_Get :: "int \<Rightarrow> int \<Rightarrow> Memory \<Rightarrow> bytes option" where
  "mem_Get offset sz m =
     (if sz = 0 then Some []
      else if int (length (store m)) > offset then
        (if offset < 0 \<or> sz < 0 then None
         else slice (store m) (nat offset) (nat (offset + sz)))
      else Some [])"

definition mem_GetPtr :: "int \<Rightarrow> int \<Rightarrow> Memory \<Rightarrow> bytes option" where
  "mem_GetPtr offset sz m =
     (if sz = 0 then Some []
      else if int (length (store m)) > offset then
        (if offset < 0 \<or> sz < 0 then None
         else slice (store m) (nat offset) (nat (offset + sz)))
      else Some [])"

text \<open>\<^verbatim>\<open>memory.store[off] = b\<close>\<close>

definition mem_put :: "int \<Rightarrow> byte \<Rightarrow> Memory \<Rightarrow> Memory option" where
  "mem_put off b m =
     (if 0 \<le> off \<and> off < int (length (store m)) then Some (m\<lparr>store := (store m)[nat off := b]\<rparr>) else None)"

section \<open>Contracts\<close>

text \<open>
  \<^verbatim>\<open>ContractRef\<close> is an account or a running contract; of a contract, the callee reads its address
  and, for a delegate call, its caller and value.
\<close>

datatype ContractRef =
    AccountRef Address
  | ContractOf Address Address int

fun ref_Address :: "ContractRef \<Rightarrow> Address" where
  "ref_Address (AccountRef a) = a"
| "ref_Address (ContractOf a _ _) = a"

record Contract =
  CallerAddress :: Address
  caller :: ContractRef
  self :: ContractRef
  Code :: bytes
  c_CodeHash :: Hash
  CodeAddr :: "Address option"
  Input :: bytes
  Gas :: uint64
  c_value :: int
  DelegateCall :: bool

definition NewContract :: "ContractRef \<Rightarrow> ContractRef \<Rightarrow> int \<Rightarrow> uint64 \<Rightarrow> Contract" where
  "NewContract clr object value gas =
     \<lparr>CallerAddress = ref_Address clr, caller = clr, self = object, Code = [], c_CodeHash = 0,
      CodeAddr = None, Input = [], Gas = gas, c_value = value, DelegateCall = False\<rparr>"

definition AsDelegate :: "Contract \<Rightarrow> Contract option" where
  "AsDelegate c =
     (case caller c of
        AccountRef _ \<Rightarrow> None
      | ContractOf _ pcaller pvalue \<Rightarrow>
          Some (c\<lparr>DelegateCall := True, CallerAddress := pcaller, c_value := pvalue\<rparr>))"

definition GetByte :: "Contract \<Rightarrow> uint64 \<Rightarrow> byte" where
  "GetByte c n = (if unat n < length (Code c) then Code c ! unat n else 0)"

definition GetOp :: "Contract \<Rightarrow> uint64 \<Rightarrow> OpCode" where
  "GetOp c n = GetByte c n"

definition Caller :: "Contract \<Rightarrow> Address" where
  "Caller c = CallerAddress c"

definition UseGas :: "uint64 \<Rightarrow> Contract \<Rightarrow> bool \<times> Contract" where
  "UseGas gas c = (if Gas c < gas then (False, c) else (True, c\<lparr>Gas := Gas c - gas\<rparr>))"

definition c_Address :: "Contract \<Rightarrow> Address" where
  "c_Address c = ref_Address (self c)"

definition SetCallCode :: "Address \<Rightarrow> Hash \<Rightarrow> bytes \<Rightarrow> Contract \<Rightarrow> Contract" where
  "SetCallCode addr hash code c = c\<lparr>Code := code, c_CodeHash := hash, CodeAddr := Some addr\<rparr>"

text \<open>The reference to a running contract that its calls pass on.\<close>

definition contract_ref :: "Contract \<Rightarrow> ContractRef" where
  "contract_ref c = ContractOf (c_Address c) (CallerAddress c) (c_value c)"

section \<open>Helpers\<close>

definition calcMemSize :: "int \<Rightarrow> int \<Rightarrow> int" where
  "calcMemSize off l = (if l = 0 then 0 else off + l)"

definition getData :: "bytes \<Rightarrow> uint64 \<Rightarrow> uint64 \<Rightarrow> bytes option" where
  "getData dat start sz =
     (let length' = of_nat (length dat) :: uint64;
          start = (if start > length' then length' else start);
          end = start + sz;
          end = (if end > length' then length' else end)
      in do { s \<leftarrow> slice dat (unat start) (unat end); Some (RightPadBytes s (sint sz)) })"

definition getDataBig :: "bytes \<Rightarrow> int \<Rightarrow> int \<Rightarrow> bytes option" where
  "getDataBig dat start sz =
     (let dlen = int (length dat);
          s = BigMin start dlen;
          e = BigMin (s + sz) dlen
      in do { d \<leftarrow> slice dat (unat (Uint64 s)) (unat (Uint64 e));
              Some (RightPadBytes d (sint (Uint64 sz))) })"

definition bigUint64 :: "int \<Rightarrow> uint64 \<times> bool" where
  "bigUint64 v = (Uint64 v, BitLen v > 64)"

definition toWordSize :: "uint64 \<Rightarrow> uint64" where
  "toWordSize sz =
     (if sz > MaxUint64 - 31 then MaxUint64 div 32 + 1 else (sz + 31) div 32)"

definition allZero :: "bytes \<Rightarrow> bool" where
  "allZero b = list_all (\<lambda>x. x = 0) b"

section \<open>Jump destination analysis\<close>

type_synonym bitvec = bytes
type_synonym destinations = "Hash \<rightharpoonup> bitvec"

definition bitvec_or :: "bitvec \<Rightarrow> nat \<Rightarrow> byte \<Rightarrow> bitvec option" where
  "bitvec_or bits i b =
     (if i < length bits then Some (bits[i := Bit_Operations.or (bits ! i) b]) else None)"

definition bitvec_set :: "bitvec \<Rightarrow> nat \<Rightarrow> bitvec option" where
  "bitvec_set bits pos = bitvec_or bits (pos div 8) (drop_bit (pos mod 8) 0x80)"

definition bitvec_set8 :: "bitvec \<Rightarrow> nat \<Rightarrow> bitvec option" where
  "bitvec_set8 bits pos =
     do { bits \<leftarrow> bitvec_or bits (pos div 8) (drop_bit (pos mod 8) 0xFF);
          bitvec_or bits (pos div 8 + 1) (Bit_Operations.not (drop_bit (pos mod 8) 0xFF)) }"

definition codeSegment :: "bitvec \<Rightarrow> nat \<Rightarrow> bool option" where
  "codeSegment bits pos =
     (if pos div 8 < length bits
      then Some (Bit_Operations.and (bits ! (pos div 8)) (drop_bit (pos mod 8) 0x80) = 0) else None)"

text \<open>The two inner loops of \<^verbatim>\<open>codeBitmap\<close>, over the number of bits left to set.\<close>

fun mark_bits :: "nat \<Rightarrow> nat \<Rightarrow> bitvec \<Rightarrow> (nat \<times> bitvec) option" where
  "mark_bits numbits pc bits =
     (if numbits \<ge> 8 then do { bits \<leftarrow> bitvec_set8 bits pc; mark_bits (numbits - 8) (pc + 8) bits }
      else if numbits > 0 then do { bits \<leftarrow> bitvec_set bits pc; mark_bits (numbits - 1) (pc + 1) bits }
      else Some (pc, bits))"

declare mark_bits.simps [simp del]

lemma mark_bits_pc: "mark_bits n pc bits = Some (pc', bits') \<Longrightarrow> pc' = pc + n"
proof (induction n pc bits rule: mark_bits.induct)
  case (1 n pc bits)
  then show ?case
    by (subst (asm) (3) mark_bits.simps) (auto split: if_splits Option.bind_splits)
qed

function codeBitmap_loop :: "bytes \<Rightarrow> nat \<Rightarrow> bitvec \<Rightarrow> bitvec option" where
  "codeBitmap_loop code pc bits =
     (if pc < length code then
        let op = code ! pc in
        if op \<ge> PUSH1 \<and> op \<le> PUSH32 then
          (case mark_bits (unat (op - PUSH1 + 1)) (pc + 1) bits of
             None \<Rightarrow> None
           | Some (pc, bits) \<Rightarrow> codeBitmap_loop code pc bits)
        else codeBitmap_loop code (pc + 1) bits
      else Some bits)"
  by pat_completeness auto
termination
  by (relation "measure (\<lambda>(code, pc, bits). length code - pc)") (auto dest: mark_bits_pc)

declare codeBitmap_loop.simps [simp del]

definition codeBitmap :: "bytes \<Rightarrow> bitvec option" where
  "codeBitmap code = codeBitmap_loop code 0 (replicate (length code div 8 + 1 + 4) 0)"

text \<open>\<^verbatim>\<open>destinations.has\<close>, with the map of analysed codes it fills.\<close>

definition destinations_has :: "destinations \<Rightarrow> Hash \<Rightarrow> bytes \<Rightarrow> int \<Rightarrow> (bool \<times> destinations) option" where
  "destinations_has d codehash code dest =
     (let udest = Uint64 dest in
      if BitLen dest \<ge> 63 \<or> udest \<ge> of_nat (length code) then Some (False, d)
      else
        do { (m, d) \<leftarrow> (case d codehash of
                         Some m \<Rightarrow> Some (m, d)
                       | None \<Rightarrow> map_option (\<lambda>m. (m, d(codehash \<mapsto> m))) (codeBitmap code));
             if code ! unat udest = JUMPDEST
             then do { b \<leftarrow> codeSegment m (unat udest); Some (b, d) }
             else Some (False, d) })"

end
