(* ===== verification/VM_Analysis.thy ===== *)
theory VM_Analysis
  imports VM_Data
begin

text \<open>
  Correctness of the jump destination analysis (\<^verbatim>\<open>core/vm/analysis.go\<close>): the bitmap that
  \<^verbatim>\<open>codeBitmap\<close> computes eight bits at a time marks exactly the bytes that are arguments of
  PUSH instructions, and \<^verbatim>\<open>destinations.has\<close> accepts exactly the JUMPDEST instructions, with
  or without a cached bitmap.  The loops never index outside the bitmap.
\<close>

section \<open>The specification: walking over the instructions\<close>

definition push_len :: "OpCode \<Rightarrow> nat" where
  "push_len op = (if op \<ge> PUSH1 \<and> op \<le> PUSH32 then unat (op - PUSH1 + 1) else 0)"

definition next_op :: "bytes \<Rightarrow> nat \<Rightarrow> nat" where
  "next_op code p = p + 1 + (if p < length code then push_len (code ! p) else 0)"

definition op_start :: "bytes \<Rightarrow> nat \<Rightarrow> bool" where
  "op_start code p \<longleftrightarrow> (\<exists>k \<in> {0..p}. (next_op code ^^ k) 0 = p)"

definition valid_jumpdest :: "bytes \<Rightarrow> int \<Rightarrow> bool" where
  "valid_jumpdest code dest \<longleftrightarrow>
     0 \<le> dest \<and> dest < int (length code) \<and> code ! nat dest = JUMPDEST \<and> op_start code (nat dest)"

lemma next_op_gt: "p < next_op code p"
  by (simp add: next_op_def)

lemma next_op_funpow_ge: "k \<le> (next_op code ^^ k) 0"
proof (induction k)
  case (Suc k)
  then show ?case using next_op_gt [of "(next_op code ^^ k) 0" code] by simp
qed simp

lemma op_start_iff: "op_start code p \<longleftrightarrow> (\<exists>k. (next_op code ^^ k) 0 = p)"
  using next_op_funpow_ge [of _ code] by (auto simp: op_start_def)

lemma next_op_funpow_mono: "i < j \<Longrightarrow> next_op code ((next_op code ^^ i) 0) \<le> (next_op code ^^ j) 0"
proof (induction j)
  case (Suc j)
  then show ?case
    using next_op_gt [of "(next_op code ^^ j) 0" code] by (cases "i = j") auto
qed simp

lemma op_start_0: "op_start code 0"
  unfolding op_start_iff by (rule exI [of _ 0]) simp

lemma op_start_next: "op_start code p \<Longrightarrow> op_start code (next_op code p)"
  unfolding op_start_iff by (metis comp_apply funpow.simps(2))

lemma no_op_start_between:
  assumes "op_start code p" "p < q" "q < next_op code p"
  shows "\<not> op_start code q"
proof
  assume "op_start code q"
  then obtain i j where ij: "(next_op code ^^ i) 0 = p" "(next_op code ^^ j) 0 = q"
    using assms(1) by (auto simp: op_start_iff)
  have "i < j"
  proof (rule ccontr)
    assume "\<not> i < j"
    then have "q \<le> p"
      using next_op_funpow_mono [of j i code] next_op_gt [of q code] ij by (cases "i = j") auto
    with assms show False by simp
  qed
  then show False using next_op_funpow_mono [of i j code] ij assms by simp
qed

section \<open>Bits of the bitmap\<close>

definition bit_get :: "bitvec \<Rightarrow> nat \<Rightarrow> bool" where
  "bit_get bits p = bit (bits ! (p div 8)) (7 - p mod 8)"

lemma bit_0x80: "r < 8 \<Longrightarrow> drop_bit r (0x80 :: byte) = 2 ^ (7 - r)"
proof -
  assume "r < 8"
  moreover have "(0x80 :: byte) = 2 ^ 7" by simp
  ultimately show ?thesis by (simp only: drop_bit_exp_eq) simp
qed

lemma byte_0xFF: "(0xFF :: byte) = - 1"
  by simp

lemma bitvec_or_get:
  assumes "bitvec_or bits i b = Some bits'"
  shows "length bits' = length bits"
    "p div 8 < length bits \<Longrightarrow> bit_get bits' p \<longleftrightarrow> bit_get bits p \<or> (p div 8 = i \<and> bit b (7 - p mod 8))"
  using assms by (auto simp: bitvec_or_def bit_get_def nth_list_update bit_or_iff split: if_splits)

lemma bitvec_or_total: "i < length bits \<Longrightarrow> \<exists>bits'. bitvec_or bits i b = Some bits'"
  by (simp add: bitvec_or_def)

lemma bitvec_set_get:
  assumes "bitvec_set bits pos = Some bits'"
  shows "length bits' = length bits"
    "p div 8 < length bits \<Longrightarrow> bit_get bits' p \<longleftrightarrow> bit_get bits p \<or> p = pos"
proof -
  note O = bitvec_or_get [OF assms [unfolded bitvec_set_def]]
  show "length bits' = length bits" by (rule O(1))
  have "p div 8 = pos div 8 \<and> bit (drop_bit (pos mod 8) (0x80 :: byte)) (7 - p mod 8) \<longleftrightarrow> p = pos"
  proof -
    have "bit (drop_bit (pos mod 8) (0x80 :: byte)) (7 - p mod 8) \<longleftrightarrow> 7 - pos mod 8 = 7 - p mod 8"
      by (subst bit_0x80) (auto simp: bit_exp_iff)
    also have "\<dots> \<longleftrightarrow> p mod 8 = pos mod 8"
      using mod_less_divisor [of 8 p] mod_less_divisor [of 8 pos] by linarith
    finally show ?thesis by (metis div_mult_mod_eq)
  qed
  then show "p div 8 < length bits \<Longrightarrow> bit_get bits' p \<longleftrightarrow> bit_get bits p \<or> p = pos"
    using O(2) [of p] by blast
qed

lemma window_iff:
  fixes a b q r :: nat
  assumes "q < 8" "r < 8"
  shows "(a = b \<and> r \<le> q \<or> a = b + 1 \<and> q < r) \<longleftrightarrow> (8 * b + r \<le> 8 * a + q \<and> 8 * a + q < 8 * b + r + 8)"
  using assms by (cases "a < b"; cases "a = b"; cases "a = b + 1") auto

lemma bitvec_set8_get:
  assumes "bitvec_set8 bits pos = Some bits'"
  shows "length bits' = length bits"
    "p div 8 < length bits \<Longrightarrow> bit_get bits' p \<longleftrightarrow> bit_get bits p \<or> pos \<le> p \<and> p < pos + 8"
proof -
  obtain b1 where b1: "bitvec_or bits (pos div 8) (drop_bit (pos mod 8) 0xFF) = Some b1"
    "bitvec_or b1 (pos div 8 + 1) (Bit_Operations.not (drop_bit (pos mod 8) 0xFF)) = Some bits'"
    using assms by (auto simp: bitvec_set8_def split: Option.bind_splits)
  note O1 = bitvec_or_get [OF b1(1)] and O2 = bitvec_or_get [OF b1(2)]
  show "length bits' = length bits" using O1(1) O2(1) by simp
  let ?r = "pos mod 8" and ?q = "p mod 8"
  have lo: "bit (drop_bit ?r (0xFF :: byte)) (7 - ?q) \<longleftrightarrow> ?r \<le> ?q"
    using mod_less_divisor [of 8 p] mod_less_divisor [of 8 pos]
    by (simp add: byte_0xFF bit_simps) linarith
  have hi: "bit (Bit_Operations.not (drop_bit ?r (0xFF :: byte))) (7 - ?q) \<longleftrightarrow> ?q < ?r"
    using lo by (auto simp: bit_not_iff)
  have "p div 8 = pos div 8 \<and> ?r \<le> ?q \<or> p div 8 = pos div 8 + 1 \<and> ?q < ?r \<longleftrightarrow> pos \<le> p \<and> p < pos + 8"
    using window_iff [of ?q ?r "p div 8" "pos div 8"] by simp
  then show "p div 8 < length bits \<Longrightarrow> bit_get bits' p \<longleftrightarrow> bit_get bits p \<or> pos \<le> p \<and> p < pos + 8"
    using O1 O2 lo hi by auto
qed

lemma bitvec_set_total: "pos div 8 < length bits \<Longrightarrow> \<exists>bits'. bitvec_set bits pos = Some bits'"
  by (simp add: bitvec_set_def bitvec_or_def)

lemma bitvec_set8_total: "pos div 8 + 1 < length bits \<Longrightarrow> \<exists>bits'. bitvec_set8 bits pos = Some bits'"
  by (simp add: bitvec_set8_def bitvec_or_def)

lemma codeSegment_get: "p div 8 < length bits \<Longrightarrow> codeSegment bits p = Some (\<not> bit_get bits p)"
  by (simp add: codeSegment_def bit_get_def bit_0x80 and_exp_eq_0_iff_not_bit)

section \<open>The loops\<close>

lemma mark_bits_correct:
  "(pc + n) div 8 < length bits \<Longrightarrow>
     \<exists>bits'. mark_bits n pc bits = Some (pc + n, bits') \<and> length bits' = length bits \<and>
       (\<forall>p. p div 8 < length bits \<longrightarrow> (bit_get bits' p \<longleftrightarrow> bit_get bits p \<or> pc \<le> p \<and> p < pc + n))"
proof (induction n pc bits rule: mark_bits.induct)
  case (1 n pc bits)
  have r: "pc div 8 \<le> (pc + n) div 8" by (simp add: div_le_mono)
  show ?case
  proof (cases "n \<ge> 8")
    case True
    have "pc div 8 + 1 \<le> (pc + n) div 8" using div_le_mono [of "pc + 8" "pc + n" 8] True by simp
    then obtain b1 where b1: "bitvec_set8 bits pc = Some b1"
      using bitvec_set8_total [of pc bits] "1.prems" r by auto
    note G = bitvec_set8_get [OF b1]
    obtain b2 where b2: "mark_bits (n - 8) (pc + 8) b1 = Some (pc + 8 + (n - 8), b2)" "length b2 = length b1"
      "\<forall>p. p div 8 < length b1 \<longrightarrow> (bit_get b2 p \<longleftrightarrow> bit_get b1 p \<or> pc + 8 \<le> p \<and> p < pc + 8 + (n - 8))"
      using "1.IH"(1) [OF True b1] "1.prems" True G(1) by auto
    have "mark_bits n pc bits = Some (pc + n, b2)"
      using True b1 b2(1) by (subst mark_bits.simps) simp
    then show ?thesis using b2(2,3) G True by auto
  next
    case False
    show ?thesis
    proof (cases "n = 0")
      case True
      then show ?thesis by (subst mark_bits.simps) auto
    next
      case n: False
      obtain b1 where b1: "bitvec_set bits pc = Some b1"
        using bitvec_set_total [of pc bits] "1.prems" r by auto
      note G = bitvec_set_get [OF b1]
      obtain b2 where b2: "mark_bits (n - 1) (pc + 1) b1 = Some (pc + 1 + (n - 1), b2)" "length b2 = length b1"
        "\<forall>p. p div 8 < length b1 \<longrightarrow> (bit_get b2 p \<longleftrightarrow> bit_get b1 p \<or> pc + 1 \<le> p \<and> p < pc + 1 + (n - 1))"
        using "1.IH"(2) [OF False _ b1] n "1.prems" G(1) by auto
      have "mark_bits n pc bits = Some (pc + n, b2)"
        using False n b1 b2(1) by (subst mark_bits.simps) simp
      then show ?thesis using b2(2,3) G n by (auto simp: Suc_le_eq)
    qed
  qed
qed

lemma push_len_le: "push_len op \<le> 32"
proof -
  have "unat (op - PUSH1 + 1) \<le> 32" if "PUSH1 \<le> op" "op \<le> PUSH32"
  proof -
    have "unat (op - PUSH1) = unat op - unat PUSH1" using that by (simp add: unat_sub)
    moreover have "unat op \<le> unat PUSH32" "unat PUSH1 \<le> unat op" using that by (simp_all add: word_le_nat_alt)
    moreover have "unat PUSH1 = 96" "unat PUSH32 = 127" by (simp_all add: PUSH1_def PUSH32_def)
    ultimately show ?thesis by (simp add: unat_word_ariths)
  qed
  then show ?thesis by (simp add: push_len_def)
qed

lemma codeBitmap_loop_correct:
  assumes "op_start code pc" "length bits = length code div 8 + 5"
    "\<forall>p. p div 8 < length bits \<longrightarrow> (bit_get bits p \<longleftrightarrow> p < pc \<and> \<not> op_start code p)"
  shows "\<exists>bits'. codeBitmap_loop code pc bits = Some bits' \<and> length bits' = length bits \<and>
           (\<forall>p < length code. bit_get bits' p \<longleftrightarrow> \<not> op_start code p)"
  using assms
proof (induction code pc bits rule: codeBitmap_loop.induct)
  case (1 code pc bits)
  show ?case
  proof (cases "pc < length code")
    case False
    have "p div 8 < length bits" if "p < length code" for p
    proof -
      have "p div 8 \<le> length code div 8" using that by (simp add: div_le_mono)
      then show ?thesis using "1.prems"(2) by simp
    qed
    moreover have "codeBitmap_loop code pc bits = Some bits" using False by (subst codeBitmap_loop.simps) simp
    ultimately show ?thesis using "1.prems"(3) False by auto
  next
    case True
    let ?op = "code ! pc"
    have nx: "next_op code pc = pc + 1 + push_len ?op" using True by (simp add: next_op_def)
    note st = op_start_next [OF "1.prems"(1)]
    have upto: "(p < next_op code pc \<and> \<not> op_start code p) \<longleftrightarrow>
        (p < pc \<and> \<not> op_start code p) \<or> (pc + 1 \<le> p \<and> p < next_op code pc)" for p
      using no_op_start_between [OF "1.prems"(1), of p] "1.prems"(1) next_op_gt [of pc code]
      by (cases "p = pc") auto
    show ?thesis
    proof (cases "?op \<ge> PUSH1 \<and> ?op \<le> PUSH32")
      case False
      then have n1: "next_op code pc = pc + 1" by (auto simp: nx push_len_def)
      have "\<forall>p. p div 8 < length bits \<longrightarrow> (bit_get bits p \<longleftrightarrow> p < pc + 1 \<and> \<not> op_start code p)"
        using "1.prems"(3) upto by (auto simp: n1)
      then have "\<exists>bits'. codeBitmap_loop code (pc + 1) bits = Some bits' \<and> length bits' = length bits \<and>
           (\<forall>p < length code. bit_get bits' p \<longleftrightarrow> \<not> op_start code p)"
        using "1.IH"(2) [OF True refl False _ "1.prems"(2)] st by (simp add: n1)
      moreover have "codeBitmap_loop code pc bits = codeBitmap_loop code (pc + 1) bits"
        using True False by (subst codeBitmap_loop.simps) (auto simp: Let_def)
      ultimately show ?thesis by simp
    next
      case push: True
      then have pl: "push_len ?op = unat (?op - PUSH1 + 1)" by (simp add: push_len_def)
      have "(pc + 1 + push_len ?op) div 8 \<le> (length code + 32) div 8"
        using True push_len_le [of ?op] by (intro div_le_mono) simp
      then have "(pc + 1 + push_len ?op) div 8 < length bits" using "1.prems"(2) by simp
      then obtain b1 where b1: "mark_bits (push_len ?op) (pc + 1) bits = Some (next_op code pc, b1)"
        "length b1 = length bits"
        "\<forall>p. p div 8 < length bits \<longrightarrow> (bit_get b1 p \<longleftrightarrow> bit_get bits p \<or> pc + 1 \<le> p \<and> p < next_op code pc)"
        using mark_bits_correct [of "pc + 1" "push_len ?op" bits] by (auto simp: nx)
      have "\<forall>p. p div 8 < length b1 \<longrightarrow> (bit_get b1 p \<longleftrightarrow> p < next_op code pc \<and> \<not> op_start code p)"
        using "1.prems"(3) upto b1(2,3) by auto
      then have "\<exists>bits'. codeBitmap_loop code (next_op code pc) b1 = Some bits' \<and> length bits' = length b1 \<and>
           (\<forall>p < length code. bit_get bits' p \<longleftrightarrow> \<not> op_start code p)"
        using "1.IH"(1) [OF True refl push b1(1) [unfolded pl] refl] st "1.prems"(2) b1(2) by simp
      moreover have "codeBitmap_loop code pc bits = codeBitmap_loop code (next_op code pc) b1"
        using True push b1(1) by (subst codeBitmap_loop.simps) (simp add: Let_def pl)
      ultimately show ?thesis using b1(2) by simp
    qed
  qed
qed

lemma codeBitmap_bits:
  "\<exists>bits. codeBitmap code = Some bits \<and> length bits = length code div 8 + 5 \<and>
     (\<forall>p < length code. bit_get bits p \<longleftrightarrow> \<not> op_start code p)"
proof -
  let ?b = "replicate (length code div 8 + 1 + 4) 0 :: bitvec"
  have "\<forall>p. p div 8 < length ?b \<longrightarrow> (bit_get ?b p \<longleftrightarrow> p < 0 \<and> \<not> op_start code p)"
    by (auto simp: bit_get_def)
  from codeBitmap_loop_correct [OF op_start_0 _ this] show ?thesis
    by (auto simp: codeBitmap_def)
qed


text \<open>
  C28.  \<^verbatim>\<open>codeBitmap\<close> returns for every code without indexing out of its bitmap, and the bitmap classifies
  every byte of the code as the walk over the instructions does: a code segment is the start of an
  instruction, everything else is the argument of a PUSH.
\<close>

theorem codeBitmap_correct:
  "\<exists>bits. codeBitmap code = Some bits \<and>
     map (codeSegment bits) [0..<length code] = map (\<lambda>p. Some (op_start code p)) [0..<length code]"
proof -
  obtain bits where b: "codeBitmap code = Some bits" "length bits = length code div 8 + 5"
    "\<forall>p < length code. bit_get bits p \<longleftrightarrow> \<not> op_start code p"
    using codeBitmap_bits by blast
  have "p div 8 < length bits" if "p < length code" for p
  proof -
    have "p div 8 \<le> length code div 8" using that by (simp add: div_le_mono)
    then show ?thesis using b(2) by simp
  qed
  with b show ?thesis by (auto simp: codeSegment_get)
qed

section \<open>Valid jumps\<close>

text \<open>
  The cache of a call chain: every entry is the bitmap of the code with that hash.  \<open>code_of_hash\<close>
  is the code a hash stands for, so the statement presupposes no collision among the codes met.
\<close>

definition dests_ok :: "(Hash \<Rightarrow> bytes) \<Rightarrow> destinations \<Rightarrow> bool" where
  "dests_ok code_of_hash d \<longleftrightarrow> (\<forall>h m. d h = Some m \<longrightarrow> codeBitmap (code_of_hash h) = Some m)"

lemma dests_ok_empty [simp]: "dests_ok f Map.empty"
  by (simp add: dests_ok_def)

lemma destinations_has_eq:
  assumes d: "dests_ok f d" and f: "f h = code" and r: "0 \<le> dest" and len: "length code < 2 ^ 62"
  shows "\<exists>d'. destinations_has d h code dest = Some (valid_jumpdest code dest, d') \<and> dests_ok f d'"
proof (cases "BitLen dest \<ge> 63 \<or> Uint64 dest \<ge> of_nat (length code)")
  case True
  have "\<not> dest < int (length code)"
  proof
    assume l: "dest < int (length code)"
    then have "dest < 2 ^ 62" using len by auto
    then have 1: "BitLen dest \<le> 62" using r by (simp add: BitLen_le_iff)
    have "unat (Uint64 dest) = nat dest" using r \<open>dest < 2 ^ 62\<close> by (intro unat_Uint64) auto
    moreover have "unat (of_nat (length code) :: uint64) = length code"
      using len by (intro unat_of_nat_small) simp
    ultimately show False using True 1 l r by (auto simp: word_le_nat_alt)
  qed
  then show ?thesis using True d by (auto simp: destinations_has_def valid_jumpdest_def Let_def)
next
  case False
  then have "BitLen dest \<le> 62" by simp
  then have small: "dest < 2 ^ 62" using r by (simp add: BitLen_le_iff)
  then have u: "unat (Uint64 dest) = nat dest" using r by (intro unat_Uint64) auto
  moreover have "unat (of_nat (length code) :: uint64) = length code"
    using len by (intro unat_of_nat_small) simp
  ultimately have lt: "nat dest < length code" using False by (simp add: word_le_nat_alt)
  obtain bits where b: "codeBitmap code = Some bits" "length bits = length code div 8 + 5"
    "\<forall>p < length code. bit_get bits p \<longleftrightarrow> \<not> op_start code p"
    using codeBitmap_bits by blast
  obtain d' where d': "(case d h of Some m \<Rightarrow> Some (m, d)
      | None \<Rightarrow> map_option (\<lambda>m. (m, d(h \<mapsto> m))) (codeBitmap code)) = Some (bits, d')" "dests_ok f d'"
    using d f b(1) by (cases "d h") (auto simp: dests_ok_def)
  have "nat dest div 8 \<le> length code div 8" using lt by (simp add: div_le_mono)
  then have "codeSegment bits (nat dest) = Some (op_start code (nat dest))"
    using b lt by (subst codeSegment_get) auto
  then show ?thesis
    using False d' u lt r by (auto simp: destinations_has_def valid_jumpdest_def Let_def)
qed

end
