(* ===== verification/VM_Precompiles.thy ===== *)
theory VM_Precompiles
  imports VM_Data
begin

text \<open>
  \<^verbatim>\<open>core/vm/contracts.go\<close>: the precompiled contracts.  The cryptographic functions they call (the
  secp256k1 library, SHA-256, RIPEMD-160, the bn256 curve) are the fields of the record \<open>Crypto\<close>;
  curve points are opaque and stand for themselves as byte strings.  \<^verbatim>\<open>big.Int.Exp\<close> with a modulus is
  modular exponentiation.

  A contract returns its output or an error; \<^term>\<open>None\<close> is a panic of a slice expression.
\<close>

record Crypto =
  ValidateSignatureValues :: "byte \<Rightarrow> int \<Rightarrow> int \<Rightarrow> bool \<Rightarrow> bool"
  Ecrecover :: "bytes \<Rightarrow> bytes \<Rightarrow> bytes option"
  sha256_Sum256 :: "bytes \<Rightarrow> bytes"
  ripemd160_Sum :: "bytes \<Rightarrow> bytes"
  G1_Unmarshal :: "bytes \<Rightarrow> bytes option"
  G1_Add :: "bytes \<Rightarrow> bytes \<Rightarrow> bytes"
  G1_ScalarMult :: "bytes \<Rightarrow> int \<Rightarrow> bytes"
  G1_Marshal :: "bytes \<Rightarrow> bytes"
  G2_Unmarshal :: "bytes \<Rightarrow> bytes option"
  PairingCheck :: "bytes list \<Rightarrow> bytes list \<Rightarrow> bool"

datatype PrecompiledContract =
    ecrecover | sha256hash | ripemd160hash | dataCopy | bigModExp | bn256Add | bn256ScalarMul | bn256Pairing

section \<open>Gas\<close>

definition word_gas :: "bytes \<Rightarrow> uint64 \<Rightarrow> uint64 \<Rightarrow> uint64" where
  "word_gas input per base = of_nat (length input + 31) div 32 * per + base"

text \<open>\<^verbatim>\<open>input[96:]\<close>, or the empty slice for a short input.\<close>

definition modexp_rest :: "bytes \<Rightarrow> bytes" where
  "modexp_rest input = (if length input > 96 then drop 96 input else [])"

definition modexp_len :: "bytes \<Rightarrow> uint64 \<Rightarrow> int option" where
  "modexp_len input off = map_option SetBytes (getData input off 32)"

definition bigModExp_RequiredGas :: "bytes \<Rightarrow> uint64 option" where
  "bigModExp_RequiredGas input =
     do { baseLen \<leftarrow> modexp_len input 0;
          expLen \<leftarrow> modexp_len input 32;
          modLen \<leftarrow> modexp_len input 64;
          let input = modexp_rest input;
          expHead \<leftarrow> (if int (length input) \<le> baseLen then Some 0
                      else if expLen > 32
                      then map_option SetBytes (getData input (Uint64 baseLen) 32)
                      else map_option SetBytes (getData input (Uint64 baseLen) (Uint64 expLen)));
          let msb = (if BitLen expHead > 0 then int (BitLen expHead) - 1 else 0);
          let adjExpLen = (if expLen > 32 then 8 * (expLen - 32) else 0) + msb;
          let gas = BigMax modLen baseLen;
          let gas = (if gas \<le> 64 then gas * gas
                     else if gas \<le> 1024 then gas * gas div 4 + (96 * gas - 3072)
                     else gas * gas div 16 + (480 * gas - 199680));
          let gas = gas * BigMax adjExpLen 1;
          let gas = gas div uint ModExpQuadCoeffDiv;
          Some (if BitLen gas > 64 then MaxUint64 else Uint64 gas) }"

definition RequiredGas :: "PrecompiledContract \<Rightarrow> bytes \<Rightarrow> uint64 option" where
  "RequiredGas p input =
     (case p of
        ecrecover \<Rightarrow> Some EcrecoverGas
      | sha256hash \<Rightarrow> Some (word_gas input Sha256PerWordGas Sha256BaseGas)
      | ripemd160hash \<Rightarrow> Some (word_gas input Ripemd160PerWordGas Ripemd160BaseGas)
      | dataCopy \<Rightarrow> Some (word_gas input IdentityPerWordGas IdentityBaseGas)
      | bigModExp \<Rightarrow> bigModExp_RequiredGas input
      | bn256Add \<Rightarrow> Some Bn256AddGas
      | bn256ScalarMul \<Rightarrow> Some Bn256ScalarMulGas
      | bn256Pairing \<Rightarrow> Some (Bn256PairingBaseGas + of_nat (length input div 192) * Bn256PairingPerPointGas))"

section \<open>Execution\<close>

type_synonym precompile_result = "(bytes \<times> vmerr option) option"

definition ecrecover_Run :: "Backend \<Rightarrow> Crypto \<Rightarrow> bytes \<Rightarrow> precompile_result" where
  "ecrecover_Run d cr input =
     (let input = RightPadBytes input 128 in
      do { rb \<leftarrow> slice input 64 96;
           sb \<leftarrow> slice input 96 128;
           z \<leftarrow> slice input 32 63;
           h \<leftarrow> slice input 0 32;
           rs \<leftarrow> slice input 64 128;
           let r = SetBytes rb;
           let s = SetBytes sb;
           let v = input ! 63 - 27;
           if \<not> allZero z \<or> \<not> ValidateSignatureValues cr v r s False then Some ([], None)
           else
             case Ecrecover cr h (rs @ [v]) of
               None \<Rightarrow> Some ([], None)
             | Some pubKey \<Rightarrow>
                 do { pk \<leftarrow> slice pubKey 1 (length pubKey);
                      Some (LeftPadBytes (drop 12 (Hash_Bytes (Keccak256Hash d pk))) 32, None) } })"

definition sha256hash_Run :: "Crypto \<Rightarrow> bytes \<Rightarrow> precompile_result" where
  "sha256hash_Run cr input = Some (sha256_Sum256 cr input, None)"

definition ripemd160hash_Run :: "Crypto \<Rightarrow> bytes \<Rightarrow> precompile_result" where
  "ripemd160hash_Run cr input = Some (LeftPadBytes (ripemd160_Sum cr input) 32, None)"

definition dataCopy_Run :: "bytes \<Rightarrow> precompile_result" where
  "dataCopy_Run inp = Some (inp, None)"

definition big_ExpMod :: "int \<Rightarrow> int \<Rightarrow> int \<Rightarrow> int" where
  "big_ExpMod b e m = b ^ nat e mod m"

definition bigModExp_Run :: "bytes \<Rightarrow> precompile_result" where
  "bigModExp_Run input =
     do { baseLen \<leftarrow> map_option Uint64 (modexp_len input 0);
          expLen \<leftarrow> map_option Uint64 (modexp_len input 32);
          modLen \<leftarrow> map_option Uint64 (modexp_len input 64);
          let input = modexp_rest input;
          if baseLen = 0 \<and> modLen = 0 then Some ([], None)
          else
            do { base \<leftarrow> map_option SetBytes (getData input 0 baseLen);
                 exp \<leftarrow> map_option SetBytes (getData input baseLen expLen);
                 md \<leftarrow> map_option SetBytes (getData input (baseLen + expLen) modLen);
                 if BitLen md = 0 then Some (LeftPadBytes [] (sint modLen), None)
                 else Some (LeftPadBytes (big_Bytes (big_ExpMod base exp md)) (sint modLen), None) } }"

definition newCurvePoint :: "Crypto \<Rightarrow> bytes \<Rightarrow> vmerr + bytes" where
  "newCurvePoint cr blob = (case G1_Unmarshal cr blob of None \<Rightarrow> Inl errPrecompile | Some p \<Rightarrow> Inr p)"

definition newTwistPoint :: "Crypto \<Rightarrow> bytes \<Rightarrow> vmerr + bytes" where
  "newTwistPoint cr blob = (case G2_Unmarshal cr blob of None \<Rightarrow> Inl errPrecompile | Some p \<Rightarrow> Inr p)"

definition bn256Add_Run :: "Crypto \<Rightarrow> bytes \<Rightarrow> precompile_result" where
  "bn256Add_Run cr input =
     do { xb \<leftarrow> getData input 0 64;
          yb \<leftarrow> getData input 64 64;
          case newCurvePoint cr xb of
            Inl err \<Rightarrow> Some ([], Some err)
          | Inr x \<Rightarrow>
              (case newCurvePoint cr yb of
                 Inl err \<Rightarrow> Some ([], Some err)
               | Inr y \<Rightarrow> Some (G1_Marshal cr (G1_Add cr x y), None)) }"

definition bn256ScalarMul_Run :: "Crypto \<Rightarrow> bytes \<Rightarrow> precompile_result" where
  "bn256ScalarMul_Run cr input =
     do { pb \<leftarrow> getData input 0 64;
          sb \<leftarrow> getData input 64 32;
          case newCurvePoint cr pb of
            Inl err \<Rightarrow> Some ([], Some err)
          | Inr p \<Rightarrow> Some (G1_Marshal cr (G1_ScalarMult cr p (SetBytes sb)), None) }"

definition true32Byte :: bytes where "true32Byte = replicate 31 0 @ [1]"
definition false32Byte :: bytes where "false32Byte = replicate 32 0"

text \<open>The loop over the pairs of points, each 192 bytes of the input.\<close>

fun pairing_points :: "Crypto \<Rightarrow> nat \<Rightarrow> bytes \<Rightarrow> vmerr + (bytes list \<times> bytes list)" where
  "pairing_points cr 0 input = Inr ([], [])"
| "pairing_points cr (Suc n) input =
     (case newCurvePoint cr (take 64 input) of
        Inl err \<Rightarrow> Inl err
      | Inr c \<Rightarrow>
          (case newTwistPoint cr (take 128 (drop 64 input)) of
             Inl err \<Rightarrow> Inl err
           | Inr t \<Rightarrow>
               (case pairing_points cr n (drop 192 input) of
                  Inl err \<Rightarrow> Inl err
                | Inr (cs, ts) \<Rightarrow> Inr (c # cs, t # ts))))"

definition bn256Pairing_Run :: "Crypto \<Rightarrow> bytes \<Rightarrow> precompile_result" where
  "bn256Pairing_Run cr input =
     (if length input mod 192 > 0 then Some ([], Some errBadPairingInput)
      else
        case pairing_points cr (length input div 192) input of
          Inl err \<Rightarrow> Some ([], Some err)
        | Inr (cs, ts) \<Rightarrow> Some (if PairingCheck cr cs ts then true32Byte else false32Byte, None))"

definition precompile_Run :: "Backend \<Rightarrow> Crypto \<Rightarrow> PrecompiledContract \<Rightarrow> bytes \<Rightarrow> precompile_result" where
  "precompile_Run d cr p input =
     (case p of
        ecrecover \<Rightarrow> ecrecover_Run d cr input
      | sha256hash \<Rightarrow> sha256hash_Run cr input
      | ripemd160hash \<Rightarrow> ripemd160hash_Run cr input
      | dataCopy \<Rightarrow> dataCopy_Run input
      | bigModExp \<Rightarrow> bigModExp_Run input
      | bn256Add \<Rightarrow> bn256Add_Run cr input
      | bn256ScalarMul \<Rightarrow> bn256ScalarMul_Run cr input
      | bn256Pairing \<Rightarrow> bn256Pairing_Run cr input)"

section \<open>The sets of precompiled contracts\<close>

definition PrecompiledContractsHomestead :: "Address \<rightharpoonup> PrecompiledContract" where
  "PrecompiledContractsHomestead =
     map_of [(BytesToAddress [1], ecrecover), (BytesToAddress [2], sha256hash),
             (BytesToAddress [3], ripemd160hash), (BytesToAddress [4], dataCopy)]"

definition PrecompiledContractsByzantium :: "Address \<rightharpoonup> PrecompiledContract" where
  "PrecompiledContractsByzantium =
     map_of [(BytesToAddress [1], ecrecover), (BytesToAddress [2], sha256hash),
             (BytesToAddress [3], ripemd160hash), (BytesToAddress [4], dataCopy),
             (BytesToAddress [5], bigModExp), (BytesToAddress [6], bn256Add),
             (BytesToAddress [7], bn256ScalarMul), (BytesToAddress [8], bn256Pairing)]"

definition RunPrecompiledContract ::
  "Backend \<Rightarrow> Crypto \<Rightarrow> PrecompiledContract \<Rightarrow> bytes \<Rightarrow> Contract \<Rightarrow> (bytes \<times> vmerr option \<times> Contract) option" where
  "RunPrecompiledContract d cr p input contract =
     do { gas \<leftarrow> RequiredGas p input;
          let (ok, contract) = UseGas gas contract;
          if ok then do { (ret, err) \<leftarrow> precompile_Run d cr p input; Some (ret, err, contract) }
          else Some ([], Some ErrOutOfGas, contract) }"

end
