(* ===== verification/Rlp_Encode.thy ===== *)
theory Rlp_Encode
  imports Common_Types Common_Math
begin

text \<open>
  \<^verbatim>\<open>rlp/encode.go\<close>: the RLP encoder.  The code encodes in one pass into an \<^verbatim>\<open>encbuf\<close>, which keeps the
  string data apart from the list headers (the size of a list is known only at its end), and
  merges the two in \<^verbatim>\<open>toBytes\<close>.

  The writer that the code selects by reflection on the type of a value is selected here by the
  constructor of \<open>rlp_val\<close>.  A list header that is open is referred to by its index, where the
  code holds a pointer to it.
\<close>

section \<open>Values\<close>

datatype rlp_val =
    RUint uint64
  | RBool bool
  | RBig "int option"
  | RBytes bytes
  | RRaw bytes
  | RNilInterface
  | RList "rlp_val list"

datatype rlp_err = NegativeBigInt

section \<open>The buffer\<close>

record listhead =
  lh_offset :: nat
  lh_size :: int

record encbuf =
  str :: bytes
  lheads :: "listhead list"
  lhsize :: nat

definition encbuf_reset :: encbuf where
  "encbuf_reset = \<lparr>str = [], lheads = [], lhsize = 0\<rparr>"

text \<open>The bytes that \<^verbatim>\<open>putint\<close> writes.\<close>

definition putint :: "uint64 \<Rightarrow> bytes" where
  "putint i =
     (if i < 2 ^ 8 then word_bytes 1 i
      else if i < 2 ^ 16 then word_bytes 2 i
      else if i < 2 ^ 24 then word_bytes 3 i
      else if i < 2 ^ 32 then word_bytes 4 i
      else if i < 2 ^ 40 then word_bytes 5 i
      else if i < 2 ^ 48 then word_bytes 6 i
      else if i < 2 ^ 56 then word_bytes 7 i
      else word_bytes 8 i)"

text \<open>The loop of \<^verbatim>\<open>intsize\<close>; a \<^verbatim>\<open>uint64\<close> is zero after at most eight shifts.\<close>

function intsize_loop :: "nat \<Rightarrow> uint64 \<Rightarrow> nat" where
  "intsize_loop sz i = (let i' = drop_bit 8 i in if i' = 0 then sz else intsize_loop (sz + 1) i')"
  by pat_completeness auto
termination
proof (relation "measure (\<lambda>(sz, i). unat i)")
  fix sz and i x :: uint64
  assume "x = drop_bit 8 i" "x \<noteq> 0"
  moreover have "unat (drop_bit 8 i) = unat i div 256" by (subst unat_drop_bit_eq) (simp add: drop_bit_eq_div)
  ultimately have "unat x = unat i div 256" by simp
  moreover have "unat x \<noteq> 0" using \<open>x \<noteq> 0\<close> by (simp add: unat_eq_zero)
  ultimately show "((sz + 1, x), (sz, i)) \<in> measure (\<lambda>(sz, i). unat i)"
    by (simp add: div_less_dividend)
qed simp

declare intsize_loop.simps [simp del]

definition intsize :: "uint64 \<Rightarrow> nat" where
  "intsize i = intsize_loop 1 i"

definition headsize :: "uint64 \<Rightarrow> nat" where
  "headsize sz = (if sz < 56 then 1 else 1 + intsize sz)"

definition puthead :: "byte \<Rightarrow> byte \<Rightarrow> uint64 \<Rightarrow> bytes" where
  "puthead smalltag largetag sz =
     (if sz < 56 then [smalltag + ucast sz]
      else let b = putint sz in (largetag + of_nat (length b)) # b)"

definition listhead_encode :: "listhead \<Rightarrow> bytes" where
  "listhead_encode head = puthead 0xC0 0xF7 (word_of_int (lh_size head))"

definition encbuf_Write :: "bytes \<Rightarrow> encbuf \<Rightarrow> encbuf" where
  "encbuf_Write b w = w\<lparr>str := str w @ b\<rparr>"

definition encodeStringHeader :: "nat \<Rightarrow> encbuf \<Rightarrow> encbuf" where
  "encodeStringHeader sz w =
     (if sz < 56 then w\<lparr>str := str w @ [0x80 + of_nat sz]\<rparr>
      else let b = putint (of_nat sz)
           in w\<lparr>str := str w @ (0xB7 + of_nat (length b)) # b\<rparr>)"

definition encodeString :: "bytes \<Rightarrow> encbuf \<Rightarrow> encbuf" where
  "encodeString b w =
     (if length b = 1 \<and> b ! 0 \<le> 0x7F then w\<lparr>str := str w @ [b ! 0]\<rparr>
      else let w = encodeStringHeader (length b) w in w\<lparr>str := str w @ b\<rparr>)"

definition encbuf_size :: "encbuf \<Rightarrow> nat" where
  "encbuf_size w = length (str w) + lhsize w"

definition encbuf_list :: "encbuf \<Rightarrow> nat \<times> encbuf" where
  "encbuf_list w =
     (length (lheads w), w\<lparr>lheads := lheads w @ [\<lparr>lh_offset = length (str w), lh_size = int (lhsize w)\<rparr>]\<rparr>)"

definition encbuf_listEnd :: "nat \<Rightarrow> encbuf \<Rightarrow> encbuf" where
  "encbuf_listEnd i w =
     (let lh = lheads w ! i;
          sz = int (encbuf_size w) - int (lh_offset lh) - lh_size lh
      in w\<lparr>lheads := (lheads w)[i := lh\<lparr>lh_size := sz\<rparr>],
           lhsize := (if sz < 56 then lhsize w + 1 else lhsize w + (1 + intsize (word_of_int sz)))\<rparr>)"

text \<open>
  \<^verbatim>\<open>toBytes\<close>: the string data up to each header, the header, and the rest, copied into a buffer of the
  computed size.  \<^verbatim>\<open>copy\<close> stops at the end of the buffer; writing a header beyond it panics.
\<close>

fun toBytes_loop :: "bytes \<Rightarrow> nat \<Rightarrow> bytes \<Rightarrow> nat \<Rightarrow> listhead list \<Rightarrow> bytes option" where
  "toBytes_loop out pos s strpos [] =
     do { piece \<leftarrow> slice s strpos (length s);
          if pos > length out then None else Some (copy_at out pos piece) }"
| "toBytes_loop out pos s strpos (head # heads) =
     do { piece \<leftarrow> slice s strpos (lh_offset head);
          if pos > length out then None
          else
            let n = min (length out - pos) (length piece);
                out = copy_at out pos piece;
                pos = pos + n;
                strpos = strpos + n;
                enc = listhead_encode head in
            if pos + length enc > length out then None
            else toBytes_loop (copy_at out pos enc) (pos + length enc) s strpos heads }"

definition encbuf_toBytes :: "encbuf \<Rightarrow> bytes option" where
  "encbuf_toBytes w = toBytes_loop (replicate (encbuf_size w) 0) 0 (str w) 0 (lheads w)"

section \<open>Writers\<close>

definition writeUint :: "uint64 \<Rightarrow> encbuf \<Rightarrow> encbuf" where
  "writeUint i w =
     (if i = 0 then w\<lparr>str := str w @ [0x80]\<rparr>
      else if i < 128 then w\<lparr>str := str w @ [ucast i]\<rparr>
      else let b = putint i in w\<lparr>str := str w @ (0x80 + of_nat (length b)) # b\<rparr>)"

definition writeBool :: "bool \<Rightarrow> encbuf \<Rightarrow> encbuf" where
  "writeBool v w = w\<lparr>str := str w @ [if v then 0x01 else 0x80]\<rparr>"

definition writeBigInt :: "int \<Rightarrow> encbuf \<Rightarrow> rlp_err + encbuf" where
  "writeBigInt i w =
     (if i < 0 then Inl NegativeBigInt
      else if i = 0 then Inr (w\<lparr>str := str w @ [0x80]\<rparr>)
      else Inr (encodeString (big_Bytes i) w))"

definition writeBigIntPtr :: "int option \<Rightarrow> encbuf \<Rightarrow> rlp_err + encbuf" where
  "writeBigIntPtr p w =
     (case p of None \<Rightarrow> Inr (w\<lparr>str := str w @ [0x80]\<rparr>) | Some i \<Rightarrow> writeBigInt i w)"

fun write_val :: "rlp_val \<Rightarrow> encbuf \<Rightarrow> rlp_err + encbuf"
  and write_vals :: "rlp_val list \<Rightarrow> encbuf \<Rightarrow> rlp_err + encbuf" where
  "write_val (RUint i) w = Inr (writeUint i w)"
| "write_val (RBool b) w = Inr (writeBool b w)"
| "write_val (RBig p) w = writeBigIntPtr p w"
| "write_val (RBytes b) w = Inr (encodeString b w)"
| "write_val (RRaw b) w = Inr (encbuf_Write b w)"
| "write_val RNilInterface w = Inr (w\<lparr>str := str w @ [0xC0]\<rparr>)"
| "write_val (RList vs) w =
     (let (lh, w) = encbuf_list w in
      case write_vals vs w of
        Inl err \<Rightarrow> Inl err
      | Inr w \<Rightarrow> Inr (encbuf_listEnd lh w))"
| "write_vals [] w = Inr w"
| "write_vals (v # vs) w =
     (case write_val v w of
        Inl err \<Rightarrow> Inl err
      | Inr w \<Rightarrow> write_vals vs w)"

definition EncodeToBytes :: "rlp_val \<Rightarrow> (rlp_err + bytes) option" where
  "EncodeToBytes val =
     (case write_val val encbuf_reset of
        Inl err \<Rightarrow> Some (Inl err)
      | Inr eb \<Rightarrow> map_option Inr (encbuf_toBytes eb))"

end
