(* ===== verification/VM_Calls.thy ===== *)
theory VM_Calls
  imports VM_Precompiles Rlp_Encode
begin

text \<open>
  \<^verbatim>\<open>core/vm/evm.go\<close>: message calls and contract creation, with \<^verbatim>\<open>core/evm.go\<close> (balance checks and
  transfers) and the address derivation of \<^verbatim>\<open>crypto/crypto.go\<close>.

  What never changes during a call is the record \<open>Env\<close>; what does is \<open>EVM\<close>, which also holds the two
  fields of \<^verbatim>\<open>EVMInterpreter\<close> that outlive a call (\<open>readOnly\<close>, \<open>returnData\<close>) and the map of analysed
  jump destinations, which a contract shares by reference with the contracts it calls.

  The abort flag is written by another goroutine (\<^verbatim>\<open>Cancel\<close>).  Every load of it advances \<open>clock\<close>, and
  \<open>cancelled\<close> says what the load at each tick sees, so any interleaving is some \<open>cancelled\<close>.

  The functions take the interpreter of the nested call as an argument (\<open>run_interp\<close>); the knot is tied
  in \<^theory_text>\<open>VM_Interpreter\<close>.  The tracer is not modelled: it only observes.
\<close>

section \<open>Environment and state\<close>

record Context =
  GetHash :: "uint64 \<Rightarrow> Hash"
  Origin :: Address
  GasPrice :: int
  Coinbase :: Address
  GasLimit :: uint64
  BlockNumber :: int
  Time :: int
  Difficulty :: int

record Config =
  NoRecursion :: bool
  EnablePreimageRecording :: bool

record Env =
  ctx :: Context
  chainConfig :: ChainConfig
  vmConfig :: Config
  crypto :: Crypto
  cancelled :: "nat \<Rightarrow> bool"

record EVM =
  statedb :: StateDB
  depth :: nat
  callGasTemp :: uint64
  readOnly :: bool
  returnData :: bytes
  jumpdests :: destinations
  clock :: nat

type_synonym interp =
  "Contract \<Rightarrow> bytes \<Rightarrow> bool \<Rightarrow> EVM \<Rightarrow> (bytes \<times> vmerr option \<times> Contract \<times> EVM) option"

type_synonym call_result = "(bytes \<times> uint64 \<times> vmerr option \<times> EVM) option"

definition chainRules :: "Env \<Rightarrow> Rules" where
  "chainRules env = ChainConfig_Rules (chainConfig env) (BlockNumber (ctx env))"

definition gasTable :: "Env \<Rightarrow> GasTable" where
  "gasTable env = ChainConfig_GasTable (chainConfig env) (Some (BlockNumber (ctx env)))"

definition NewEVM :: "Env \<Rightarrow> StateDB \<Rightarrow> EVM option" where
  "NewEVM env s =
     (if IsEWASM (chainConfig env) (BlockNumber (ctx env)) then None
      else Some \<lparr>statedb = s, depth = 0, callGasTemp = 0, readOnly = False, returnData = [],
                 jumpdests = Map.empty, clock = 0\<rparr>)"

section \<open>Access to the state\<close>

definition upd_state :: "(StateDB \<Rightarrow> StateDB) \<Rightarrow> EVM \<Rightarrow> EVM" where
  "upd_state f e = e\<lparr>statedb := f (statedb e)\<rparr>"

definition query :: "(StateDB \<Rightarrow> 'a \<times> StateDB) \<Rightarrow> EVM \<Rightarrow> 'a \<times> EVM" where
  "query f e = (let (x, s) = f (statedb e) in (x, e\<lparr>statedb := s\<rparr>))"

definition revert_to :: "nat \<Rightarrow> EVM \<Rightarrow> EVM option" where
  "revert_to i e = map_option (\<lambda>s. e\<lparr>statedb := s\<rparr>) (RevertToSnapshot (statedb e) i)"

definition CanTransfer :: "StateDB \<Rightarrow> Address \<Rightarrow> int \<Rightarrow> bool \<times> StateDB" where
  "CanTransfer s addr amount = (let (b, s) = GetBalance s addr in (b \<ge> amount, s))"

definition Transfer :: "Address \<Rightarrow> Address \<Rightarrow> int \<Rightarrow> StateDB \<Rightarrow> StateDB" where
  "Transfer sender recipient amount s = AddBalance (SubBalance s sender amount) recipient amount"

section \<open>Addresses of new contracts\<close>

definition CreateAddress :: "Backend \<Rightarrow> Address \<Rightarrow> uint64 \<Rightarrow> Address option" where
  "CreateAddress d b nonce =
     do { r \<leftarrow> EncodeToBytes (RList [RBytes (Address_Bytes b), RUint nonce]);
          let dat = (case r of Inl _ \<Rightarrow> [] | Inr dat \<Rightarrow> dat);
          Some (BytesToAddress (drop 12 (Hash_Bytes (Keccak256Hash d dat)))) }"

definition CreateAddress2 :: "Backend \<Rightarrow> Address \<Rightarrow> Hash \<Rightarrow> bytes \<Rightarrow> Address" where
  "CreateAddress2 d b salt code =
     BytesToAddress (drop 12 (Hash_Bytes (Keccak256Hash d
       ([0xff] @ Address_Bytes b @ Hash_Bytes salt @ Hash_Bytes (Keccak256Hash d code)))))"

section \<open>Running a contract\<close>

definition precompiles :: "Env \<Rightarrow> Address \<rightharpoonup> PrecompiledContract" where
  "precompiles env =
     (if IsByzantium (chainConfig env) (BlockNumber (ctx env)) then PrecompiledContractsByzantium
      else PrecompiledContractsHomestead)"

definition run :: "Env \<Rightarrow> interp \<Rightarrow> interp" where
  "run env run_interp contract input ro e =
     (case Option.bind (CodeAddr contract) (precompiles env) of
        Some p \<Rightarrow>
          do { (ret, err, contract) \<leftarrow> RunPrecompiledContract (db (statedb e)) (crypto env) p input contract;
               Some (ret, err, contract, e) }
      | None \<Rightarrow> run_interp contract input ro e)"

definition new_dests :: "ContractRef \<Rightarrow> EVM \<Rightarrow> EVM" where
  "new_dests clr e =
     (case clr of AccountRef _ \<Rightarrow> e\<lparr>jumpdests := Map.empty\<rparr> | ContractOf _ _ _ \<Rightarrow> e)"

text \<open>The common end of the calls: on an error, revert and (unless the code reverted) burn the gas.\<close>

definition settle :: "nat \<Rightarrow> bytes \<times> vmerr option \<times> Contract \<times> EVM \<Rightarrow> call_result" where
  "settle snapshot res =
     (let (ret, err, contract, e) = res in
      case err of
        None \<Rightarrow> Some (ret, Gas contract, None, e)
      | Some er \<Rightarrow>
          do { e \<leftarrow> revert_to snapshot e;
               let contract = (if er \<noteq> errExecutionReverted then snd (UseGas (Gas contract) contract) else contract);
               Some (ret, Gas contract, Some er, e) })"

definition load_code :: "Address \<Rightarrow> Contract \<Rightarrow> EVM \<Rightarrow> Contract \<times> EVM" where
  "load_code addr contract e =
     (let (hash, e) = query (\<lambda>s. GetCodeHash s addr) e;
          (code, e) = query (\<lambda>s. GetCode s addr) e
      in (SetCallCode addr hash code contract, e))"

definition EVM_Call :: "Env \<Rightarrow> interp \<Rightarrow> ContractRef \<Rightarrow> Address \<Rightarrow> bytes \<Rightarrow> uint64 \<Rightarrow> int \<Rightarrow> EVM \<Rightarrow> call_result" where
  "EVM_Call env run_interp clr addr input gas value e =
     (if NoRecursion (vmConfig env) \<and> depth e > 0 then Some ([], gas, None, e)
      else if depth e > unat CallCreateDepth then Some ([], gas, Some ErrDepth, e)
      else
        let (can, e) = query (\<lambda>s. CanTransfer s (ref_Address clr) value) e in
        if \<not> can then Some ([], gas, Some ErrInsufficientBalance, e)
        else
          let (snapshot, e) = query Snapshot e;
              (exist, e) = query (\<lambda>s. Exist s addr) e in
          if \<not> exist \<and> precompiles env addr = None \<and>
             IsEIP158 (chainConfig env) (BlockNumber (ctx env)) \<and> value = 0
          then Some ([], gas, None, e)
          else
            let e = (if exist then e else upd_state (\<lambda>s. CreateAccount s addr) e);
                e = upd_state (Transfer (ref_Address clr) addr value) e;
                e = new_dests clr e;
                (contract, e) = load_code addr (NewContract clr (AccountRef addr) value gas) e
            in do { r \<leftarrow> run env run_interp contract input False e; settle snapshot r })"

definition EVM_CallCode :: "Env \<Rightarrow> interp \<Rightarrow> ContractRef \<Rightarrow> Address \<Rightarrow> bytes \<Rightarrow> uint64 \<Rightarrow> int \<Rightarrow> EVM \<Rightarrow> call_result" where
  "EVM_CallCode env run_interp clr addr input gas value e =
     (if NoRecursion (vmConfig env) \<and> depth e > 0 then Some ([], gas, None, e)
      else if depth e > unat CallCreateDepth then Some ([], gas, Some ErrDepth, e)
      else
        let (can, e) = query (\<lambda>s. CanTransfer s (ref_Address clr) value) e in
        if \<not> can then Some ([], gas, Some ErrInsufficientBalance, e)
        else
          let (snapshot, e) = query Snapshot e;
              e = new_dests clr e;
              (contract, e) = load_code addr (NewContract clr (AccountRef (ref_Address clr)) value gas) e
          in do { r \<leftarrow> run env run_interp contract input False e; settle snapshot r })"

definition EVM_DelegateCall :: "Env \<Rightarrow> interp \<Rightarrow> ContractRef \<Rightarrow> Address \<Rightarrow> bytes \<Rightarrow> uint64 \<Rightarrow> EVM \<Rightarrow> call_result" where
  "EVM_DelegateCall env run_interp clr addr input gas e =
     (if NoRecursion (vmConfig env) \<and> depth e > 0 then Some ([], gas, None, e)
      else if depth e > unat CallCreateDepth then Some ([], gas, Some ErrDepth, e)
      else
        let (snapshot, e) = query Snapshot e;
            e = new_dests clr e
        in do { contract \<leftarrow> AsDelegate (NewContract clr (AccountRef (ref_Address clr)) 0 gas);
                let (contract, e) = load_code addr contract e;
                r \<leftarrow> run env run_interp contract input False e;
                settle snapshot r })"

definition EVM_StaticCall :: "Env \<Rightarrow> interp \<Rightarrow> ContractRef \<Rightarrow> Address \<Rightarrow> bytes \<Rightarrow> uint64 \<Rightarrow> EVM \<Rightarrow> call_result" where
  "EVM_StaticCall env run_interp clr addr input gas e =
     (if NoRecursion (vmConfig env) \<and> depth e > 0 then Some ([], gas, None, e)
      else if depth e > unat CallCreateDepth then Some ([], gas, Some ErrDepth, e)
      else
        let (snapshot, e) = query Snapshot e;
            e = new_dests clr e;
            (contract, e) = load_code addr (NewContract clr (AccountRef addr) 0 gas) e
        in do { r \<leftarrow> run env run_interp contract input True e; settle snapshot r })"

section \<open>Creating a contract\<close>

type_synonym create_result = "(bytes \<times> Address \<times> uint64 \<times> vmerr option \<times> EVM) option"

text \<open>The part of \<^verbatim>\<open>create\<close> after the initialisation code has run.\<close>

definition create_finish ::
  "Env \<Rightarrow> Address \<Rightarrow> nat \<Rightarrow> bytes \<times> vmerr option \<times> Contract \<times> EVM \<Rightarrow> create_result" where
  "create_finish env addr snapshot res =
     (let (ret, err, contract, e) = res;
          maxCodeSizeExceeded =
            (IsEIP158 (chainConfig env) (BlockNumber (ctx env)) \<and> length ret > MaxCodeSize);
          (err, contract, e) =
            (if err = None \<and> \<not> maxCodeSizeExceeded then
               let createDataGas = of_nat (length ret) * CreateDataGas;
                   (ok, contract) = UseGas createDataGas contract
               in if ok then (None, contract, upd_state (\<lambda>s. SetCode s addr ret) e)
                  else (Some ErrCodeStoreOutOfGas, contract, e)
             else (err, contract, e))
      in do { (contract, e) \<leftarrow>
                (if maxCodeSizeExceeded \<or>
                    (err \<noteq> None \<and>
                     (IsHomestead (chainConfig env) (BlockNumber (ctx env)) \<or> err \<noteq> Some ErrCodeStoreOutOfGas))
                 then do { e \<leftarrow> revert_to snapshot e;
                           Some (if err \<noteq> Some errExecutionReverted
                                 then snd (UseGas (Gas contract) contract) else contract, e) }
                 else Some (contract, e));
              let err = (if maxCodeSizeExceeded \<and> err = None then Some errMaxCodeSizeExceeded else err);
              Some (ret, addr, Gas contract, err, e) })"

definition evm_create ::
  "Env \<Rightarrow> interp \<Rightarrow> ContractRef \<Rightarrow> bytes \<Rightarrow> uint64 \<Rightarrow> int \<Rightarrow> Address \<Rightarrow> EVM \<Rightarrow> create_result" where
  "evm_create env run_interp clr code gas value addr e =
     (if depth e > unat CallCreateDepth then Some ([], 0, gas, Some ErrDepth, e)
      else
        let (can, e) = query (\<lambda>s. CanTransfer s (ref_Address clr) value) e in
        if \<not> can then Some ([], 0, gas, Some ErrInsufficientBalance, e)
        else
          let (nonce, e) = query (\<lambda>s. GetNonce s (ref_Address clr)) e;
              e = upd_state (\<lambda>s. SetNonce s (ref_Address clr) (nonce + 1)) e;
              (contractHash, e) = query (\<lambda>s. GetCodeHash s addr) e;
              (anonce, e) = query (\<lambda>s. GetNonce s addr) e in
          if anonce \<noteq> 0 \<or> (contractHash \<noteq> 0 \<and> contractHash \<noteq> emptyCodeHash (db (statedb e)))
          then Some ([], 0, 0, Some ErrContractAddressCollision, e)
          else
            let (snapshot, e) = query Snapshot e;
                e = upd_state (\<lambda>s. CreateAccount s addr) e;
                e = (if IsEIP158 (chainConfig env) (BlockNumber (ctx env))
                     then upd_state (\<lambda>s. SetNonce s addr 1) e else e);
                e = upd_state (Transfer (ref_Address clr) addr value) e;
                e = new_dests clr e;
                contract = SetCallCode addr (Keccak256Hash (db (statedb e)) code) code
                             (NewContract clr (AccountRef addr) value gas) in
            if NoRecursion (vmConfig env) \<and> depth e > 0 then Some ([], addr, gas, None, e)
            else do { r \<leftarrow> run env run_interp contract [] False e; create_finish env addr snapshot r })"

definition EVM_Create :: "Env \<Rightarrow> interp \<Rightarrow> ContractRef \<Rightarrow> bytes \<Rightarrow> uint64 \<Rightarrow> int \<Rightarrow> EVM \<Rightarrow> create_result" where
  "EVM_Create env run_interp clr code gas value e =
     (let (nonce, e) = query (\<lambda>s. GetNonce s (ref_Address clr)) e
      in do { contractAddr \<leftarrow> CreateAddress (db (statedb e)) (ref_Address clr) nonce;
              evm_create env run_interp clr code gas value contractAddr e })"

definition EVM_Create2 ::
  "Env \<Rightarrow> interp \<Rightarrow> ContractRef \<Rightarrow> bytes \<Rightarrow> uint64 \<Rightarrow> int \<Rightarrow> int \<Rightarrow> EVM \<Rightarrow> create_result" where
  "EVM_Create2 env run_interp clr code gas endowment salt e =
     (let contractAddr = CreateAddress2 (db (statedb e)) (ref_Address clr) (BigToHash salt) code
      in evm_create env run_interp clr code gas endowment contractAddr e)"

end
