(* ===== verification/VM_Instructions.thy ===== *)
theory VM_Instructions
  imports VM_Calls
begin

text \<open>
  \<^verbatim>\<open>core/vm/instructions.go\<close>: what every instruction does.  An instruction works on the \<open>frame\<close> of
  the running contract, which bundles the arguments of the code's execution functions (program
  counter, interpreter, contract, memory, stack), and returns the bytes it yields, an error if there
  is one, and the frame it leaves.  \<^term>\<open>None\<close> is a panic: a pop from an empty stack, a slice or index
  out of range.
\<close>

record frame =
  f_pc :: uint64
  f_evm :: EVM
  f_contract :: Contract
  f_memory :: Memory
  f_stack :: Stack

type_synonym exec_result = "(bytes \<times> vmerr option \<times> frame) option"
type_synonym executionFunc = "Env \<Rightarrow> interp \<Rightarrow> frame \<Rightarrow> exec_result"

section \<open>Access to the frame\<close>

definition finish :: "frame \<Rightarrow> exec_result" where
  "finish f = Some ([], None, f)"

definition yields :: "bytes \<Rightarrow> frame \<Rightarrow> exec_result" where
  "yields ret f = Some (ret, None, f)"

definition fails :: "vmerr \<Rightarrow> frame \<Rightarrow> exec_result" where
  "fails err f = Some ([], Some err, f)"

definition pop :: "frame \<Rightarrow> (int \<times> frame) option" where
  "pop f = (case stack_pop (f_stack f) of None \<Rightarrow> None | Some (x, st) \<Rightarrow> Some (x, f\<lparr>f_stack := st\<rparr>))"

definition peek :: "frame \<Rightarrow> int option" where
  "peek f = stack_peek (f_stack f)"

definition push :: "int \<Rightarrow> frame \<Rightarrow> frame" where
  "push v f = f\<lparr>f_stack := stack_push v (f_stack f)\<rparr>"

definition poke :: "int \<Rightarrow> frame \<Rightarrow> frame" where
  "poke v f = f\<lparr>f_stack := stack_poke v (f_stack f)\<rparr>"

definition ask :: "(StateDB \<Rightarrow> 'a \<times> StateDB) \<Rightarrow> frame \<Rightarrow> 'a \<times> frame" where
  "ask q f = (let (x, e) = query q (f_evm f) in (x, f\<lparr>f_evm := e\<rparr>))"

definition tell :: "(StateDB \<Rightarrow> StateDB) \<Rightarrow> frame \<Rightarrow> frame" where
  "tell u f = f\<lparr>f_evm := upd_state u (f_evm f)\<rparr>"

definition set_memory :: "Memory \<Rightarrow> frame \<Rightarrow> frame" where
  "set_memory m f = f\<lparr>f_memory := m\<rparr>"

definition add_gas :: "uint64 \<Rightarrow> frame \<Rightarrow> frame" where
  "add_gas g f = f\<lparr>f_contract := (f_contract f)\<lparr>Gas := Gas (f_contract f) + g\<rparr>\<rparr>"

definition use_gas :: "uint64 \<Rightarrow> frame \<Rightarrow> frame" where
  "use_gas g f = f\<lparr>f_contract := snd (UseGas g (f_contract f))\<rparr>"

definition flag :: "bool \<Rightarrow> int" where
  "flag b = (if b then 1 else 0)"

section \<open>Arithmetic\<close>

definition opAdd :: executionFunc where
  "opAdd env ri f = do { (x, f) \<leftarrow> pop f; y \<leftarrow> peek f; finish (poke (U256 (x + y)) f) }"

definition opSub :: executionFunc where
  "opSub env ri f = do { (x, f) \<leftarrow> pop f; y \<leftarrow> peek f; finish (poke (U256 (x - y)) f) }"

definition opMul :: executionFunc where
  "opMul env ri f = do { (x, f) \<leftarrow> pop f; (y, f) \<leftarrow> pop f; finish (push (U256 (x * y)) f) }"

definition opDiv :: executionFunc where
  "opDiv env ri f =
     do { (x, f) \<leftarrow> pop f; y \<leftarrow> peek f;
          finish (poke (if y \<noteq> 0 then U256 (x div y) else 0) f) }"

definition opSdiv :: executionFunc where
  "opSdiv env ri f =
     do { (x, f) \<leftarrow> pop f; (y, f) \<leftarrow> pop f;
          let x = S256 x; let y = S256 y;
          if y = 0 \<or> x = 0 then finish (push 0 f)
          else
            let res = (if sgn x \<noteq> sgn y then - (\<bar>x\<bar> div \<bar>y\<bar>) else \<bar>x\<bar> div \<bar>y\<bar>)
            in finish (push (U256 res) f) }"

definition opMod :: executionFunc where
  "opMod env ri f =
     do { (x, f) \<leftarrow> pop f; (y, f) \<leftarrow> pop f;
          finish (push (if y = 0 then 0 else U256 (x mod y)) f) }"

definition opSmod :: executionFunc where
  "opSmod env ri f =
     do { (x, f) \<leftarrow> pop f; (y, f) \<leftarrow> pop f;
          let x = S256 x; let y = S256 y;
          if y = 0 then finish (push 0 f)
          else
            let res = (if x < 0 then - (\<bar>x\<bar> mod \<bar>y\<bar>) else \<bar>x\<bar> mod \<bar>y\<bar>)
            in finish (push (U256 res) f) }"

definition opExp :: executionFunc where
  "opExp env ri f =
     do { (base, f) \<leftarrow> pop f; (exponent, f) \<leftarrow> pop f; finish (push (math_Exp base exponent) f) }"

definition opSignExtend :: executionFunc where
  "opSignExtend env ri f =
     do { (back, f) \<leftarrow> pop f;
          if back < 31 then
            do { let b = unat (Uint64 back * 8 + 7);
                 (num, f) \<leftarrow> pop f;
                 let mask = 2 ^ b - 1;
                 let num = (if bit num b then Bit_Operations.or num (Bit_Operations.not mask)
                            else Bit_Operations.and num mask);
                 finish (push (U256 num) f) }
          else finish f }"

definition opNot :: executionFunc where
  "opNot env ri f = do { x \<leftarrow> peek f; finish (poke (U256 (Bit_Operations.not x)) f) }"

section \<open>Comparison and bitwise logic\<close>

definition opLt :: executionFunc where
  "opLt env ri f = do { (x, f) \<leftarrow> pop f; y \<leftarrow> peek f; finish (poke (flag (x < y)) f) }"

definition opGt :: executionFunc where
  "opGt env ri f = do { (x, f) \<leftarrow> pop f; y \<leftarrow> peek f; finish (poke (flag (x > y)) f) }"

definition opSlt :: executionFunc where
  "opSlt env ri f =
     do { (x, f) \<leftarrow> pop f; y \<leftarrow> peek f;
          finish (poke (if x \<ge> tt255 \<and> y < tt255 then 1
                      else if x < tt255 \<and> y \<ge> tt255 then 0
                      else flag (x < y)) f) }"

definition opSgt :: executionFunc where
  "opSgt env ri f =
     do { (x, f) \<leftarrow> pop f; y \<leftarrow> peek f;
          finish (poke (if x \<ge> tt255 \<and> y < tt255 then 0
                      else if x < tt255 \<and> y \<ge> tt255 then 1
                      else flag (x > y)) f) }"

definition opEq :: executionFunc where
  "opEq env ri f = do { (x, f) \<leftarrow> pop f; y \<leftarrow> peek f; finish (poke (flag (x = y)) f) }"

definition opIszero :: executionFunc where
  "opIszero env ri f = do { x \<leftarrow> peek f; finish (poke (if x > 0 then 0 else 1) f) }"

definition opAnd :: executionFunc where
  "opAnd env ri f = do { (x, f) \<leftarrow> pop f; (y, f) \<leftarrow> pop f; finish (push (Bit_Operations.and x y) f) }"

definition opOr :: executionFunc where
  "opOr env ri f = do { (x, f) \<leftarrow> pop f; y \<leftarrow> peek f; finish (poke (Bit_Operations.or x y) f) }"

definition opXor :: executionFunc where
  "opXor env ri f = do { (x, f) \<leftarrow> pop f; y \<leftarrow> peek f; finish (poke (Bit_Operations.xor x y) f) }"

definition opByte :: executionFunc where
  "opByte env ri f =
     do { (th, f) \<leftarrow> pop f; val \<leftarrow> peek f;
          finish (poke (if th < 32 then uint (math_Byte val 32 (Int64 th)) else 0) f) }"

definition opAddmod :: executionFunc where
  "opAddmod env ri f =
     do { (x, f) \<leftarrow> pop f; (y, f) \<leftarrow> pop f; (z, f) \<leftarrow> pop f;
          finish (push (if z > 0 then U256 ((x + y) mod z) else 0) f) }"

definition opMulmod :: executionFunc where
  "opMulmod env ri f =
     do { (x, f) \<leftarrow> pop f; (y, f) \<leftarrow> pop f; (z, f) \<leftarrow> pop f;
          finish (push (if z > 0 then U256 ((x * y) mod z) else 0) f) }"

definition opSHL :: executionFunc where
  "opSHL env ri f =
     do { (shift, f) \<leftarrow> pop f; v \<leftarrow> peek f;
          let shift = U256 shift; let v = U256 v;
          if shift \<ge> 256 then finish (poke 0 f)
          else finish (poke (U256 (push_bit (unat (Uint64 shift)) v)) f) }"

definition opSHR :: executionFunc where
  "opSHR env ri f =
     do { (shift, f) \<leftarrow> pop f; v \<leftarrow> peek f;
          let shift = U256 shift; let v = U256 v;
          if shift \<ge> 256 then finish (poke 0 f)
          else finish (poke (U256 (drop_bit (unat (Uint64 shift)) v)) f) }"

definition opSAR :: executionFunc where
  "opSAR env ri f =
     do { (shift, f) \<leftarrow> pop f; (v, f) \<leftarrow> pop f;
          let shift = U256 shift; let v = S256 v;
          if shift \<ge> 256 then finish (push (U256 (if v \<ge> 0 then 0 else - 1)) f)
          else finish (push (U256 (drop_bit (unat (Uint64 shift)) v)) f) }"

definition opSha3 :: executionFunc where
  "opSha3 env ri f =
     do { (offset, f) \<leftarrow> pop f; (sz, f) \<leftarrow> pop f;
          dat \<leftarrow> mem_Get (Int64 offset) (Int64 sz) (f_memory f);
          let hash = Hash_Bytes (Keccak256Hash (db (statedb (f_evm f))) dat);
          let f = (if EnablePreimageRecording (vmConfig env)
                   then tell (\<lambda>s. AddPreimage s (BytesToHash hash) dat) f else f);
          finish (push (SetBytes hash) f) }"

section \<open>Environment\<close>

definition opAddress :: executionFunc where
  "opAddress env ri f = finish (push (Address_Big (c_Address (f_contract f))) f)"

definition opBalance :: executionFunc where
  "opBalance env ri f =
     do { slot \<leftarrow> peek f;
          let (b, f) = ask (\<lambda>s. GetBalance s (BigToAddress slot)) f;
          finish (poke b f) }"

definition opOrigin :: executionFunc where
  "opOrigin env ri f = finish (push (Address_Big (Origin (ctx env))) f)"

definition opCaller :: executionFunc where
  "opCaller env ri f = finish (push (Address_Big (Caller (f_contract f))) f)"

definition opCallValue :: executionFunc where
  "opCallValue env ri f = finish (push (c_value (f_contract f)) f)"

definition opCallDataLoad :: executionFunc where
  "opCallDataLoad env ri f =
     do { (start, f) \<leftarrow> pop f;
          d \<leftarrow> getDataBig (Input (f_contract f)) start 32;
          finish (push (SetBytes d) f) }"

definition opCallDataSize :: executionFunc where
  "opCallDataSize env ri f = finish (push (int (length (Input (f_contract f)))) f)"

definition opCallDataCopy :: executionFunc where
  "opCallDataCopy env ri f =
     do { (memOffset, f) \<leftarrow> pop f; (dataOffset, f) \<leftarrow> pop f; (len, f) \<leftarrow> pop f;
          d \<leftarrow> getDataBig (Input (f_contract f)) dataOffset len;
          m \<leftarrow> mem_Set (Uint64 memOffset) (Uint64 len) d (f_memory f);
          finish (set_memory m f) }"

definition opReturnDataSize :: executionFunc where
  "opReturnDataSize env ri f = finish (push (int (length (returnData (f_evm f)))) f)"

definition opReturnDataCopy :: executionFunc where
  "opReturnDataCopy env ri f =
     do { (memOffset, f) \<leftarrow> pop f; (dataOffset, f) \<leftarrow> pop f; (len, f) \<leftarrow> pop f;
          let end = dataOffset + len;
          let rd = returnData (f_evm f);
          if BitLen end > 64 \<or> of_nat (length rd) < Uint64 end then fails errReturnDataOutOfBounds f
          else
            do { d \<leftarrow> slice rd (unat (Uint64 dataOffset)) (unat (Uint64 end));
                 m \<leftarrow> mem_Set (Uint64 memOffset) (Uint64 len) d (f_memory f);
                 finish (set_memory m f) } }"

definition opExtCodeSize :: executionFunc where
  "opExtCodeSize env ri f =
     do { slot \<leftarrow> peek f;
          let (n, f) = ask (\<lambda>s. GetCodeSize s (BigToAddress slot)) f;
          finish (poke (int n) f) }"

definition opCodeSize :: executionFunc where
  "opCodeSize env ri f = finish (push (int (length (Code (f_contract f)))) f)"

definition opCodeCopy :: executionFunc where
  "opCodeCopy env ri f =
     do { (memOffset, f) \<leftarrow> pop f; (codeOffset, f) \<leftarrow> pop f; (len, f) \<leftarrow> pop f;
          d \<leftarrow> getDataBig (Code (f_contract f)) codeOffset len;
          m \<leftarrow> mem_Set (Uint64 memOffset) (Uint64 len) d (f_memory f);
          finish (set_memory m f) }"

definition opExtCodeCopy :: executionFunc where
  "opExtCodeCopy env ri f =
     do { (a, f) \<leftarrow> pop f; (memOffset, f) \<leftarrow> pop f; (codeOffset, f) \<leftarrow> pop f; (len, f) \<leftarrow> pop f;
          let (code, f) = ask (\<lambda>s. GetCode s (BigToAddress a)) f;
          d \<leftarrow> getDataBig code codeOffset len;
          m \<leftarrow> mem_Set (Uint64 memOffset) (Uint64 len) d (f_memory f);
          finish (set_memory m f) }"

definition opExtCodeHash :: executionFunc where
  "opExtCodeHash env ri f =
     do { slot \<leftarrow> peek f;
          let (h, f) = ask (\<lambda>s. GetCodeHash s (BigToAddress slot)) f;
          finish (poke (SetBytes (Hash_Bytes h)) f) }"

definition opGasprice :: executionFunc where
  "opGasprice env ri f = finish (push (GasPrice (ctx env)) f)"

definition opBlockhash :: executionFunc where
  "opBlockhash env ri f =
     do { (num, f) \<leftarrow> pop f;
          let n = BlockNumber (ctx env) - 257;
          finish (push (if num > n \<and> num < BlockNumber (ctx env)
                      then Hash_Big (GetHash (ctx env) (Uint64 num)) else 0) f) }"

definition opCoinbase :: executionFunc where
  "opCoinbase env ri f = finish (push (Address_Big (Coinbase (ctx env))) f)"

definition opTimestamp :: executionFunc where
  "opTimestamp env ri f = finish (push (U256 (Time (ctx env))) f)"

definition opNumber :: executionFunc where
  "opNumber env ri f = finish (push (U256 (BlockNumber (ctx env))) f)"

definition opDifficulty :: executionFunc where
  "opDifficulty env ri f = finish (push (U256 (Difficulty (ctx env))) f)"

definition opGasLimit :: executionFunc where
  "opGasLimit env ri f = finish (push (U256 (uint (GasLimit (ctx env)))) f)"

section \<open>Stack, memory, storage and control flow\<close>

definition opPop :: executionFunc where
  "opPop env ri f = do { (_, f) \<leftarrow> pop f; finish f }"

definition opMload :: executionFunc where
  "opMload env ri f =
     do { (offset, f) \<leftarrow> pop f;
          d \<leftarrow> mem_Get (Int64 offset) 32 (f_memory f);
          finish (push (SetBytes d) f) }"

definition opMstore :: executionFunc where
  "opMstore env ri f =
     do { (mStart, f) \<leftarrow> pop f; (val, f) \<leftarrow> pop f;
          m \<leftarrow> mem_Set32 (Uint64 mStart) val (f_memory f);
          finish (set_memory m f) }"

definition opMstore8 :: executionFunc where
  "opMstore8 env ri f =
     do { (off, f) \<leftarrow> pop f; (val, f) \<leftarrow> pop f;
          m \<leftarrow> mem_put (Int64 off) (word_of_int (Int64 val)) (f_memory f);
          finish (set_memory m f) }"

definition opSload :: executionFunc where
  "opSload env ri f =
     do { loc \<leftarrow> peek f;
          let (v, f) = ask (\<lambda>s. GetState s (c_Address (f_contract f)) (BigToHash loc)) f;
          finish (poke (SetBytes (Hash_Bytes v)) f) }"

definition opSstore :: executionFunc where
  "opSstore env ri f =
     do { (loc, f) \<leftarrow> pop f; (val, f) \<leftarrow> pop f;
          finish (tell (\<lambda>s. SetState s (c_Address (f_contract f)) (BigToHash loc) (BigToHash val)) f) }"

text \<open>The guarded assignment of the program counter shared by JUMP and JUMPI.\<close>

definition jump_to :: "int \<Rightarrow> frame \<Rightarrow> exec_result" where
  "jump_to pos f =
     do { (ok, d) \<leftarrow> destinations_has (jumpdests (f_evm f)) (c_CodeHash (f_contract f)) (Code (f_contract f)) pos;
          let f = f\<lparr>f_evm := (f_evm f)\<lparr>jumpdests := d\<rparr>\<rparr>;
          if \<not> ok then fails (errInvalidJump (GetOp (f_contract f) (Uint64 pos)) pos) f
          else finish (f\<lparr>f_pc := Uint64 pos\<rparr>) }"

definition opJump :: executionFunc where
  "opJump env ri f = do { (pos, f) \<leftarrow> pop f; jump_to pos f }"

definition opJumpi :: executionFunc where
  "opJumpi env ri f =
     do { (pos, f) \<leftarrow> pop f; (cond, f) \<leftarrow> pop f;
          if cond \<noteq> 0 then jump_to pos f else finish (f\<lparr>f_pc := f_pc f + 1\<rparr>) }"

definition opJumpdest :: executionFunc where
  "opJumpdest env ri f = finish f"

definition opPc :: executionFunc where
  "opPc env ri f = finish (push (uint (f_pc f)) f)"

definition opMsize :: executionFunc where
  "opMsize env ri f = finish (push (int (mem_Len (f_memory f))) f)"

definition opGas :: executionFunc where
  "opGas env ri f = finish (push (uint (Gas (f_contract f))) f)"

section \<open>Creation and calls\<close>

definition opCreate :: executionFunc where
  "opCreate env ri f =
     do { (v, f) \<leftarrow> pop f; (offset, f) \<leftarrow> pop f; (sz, f) \<leftarrow> pop f;
          input \<leftarrow> mem_Get (Int64 offset) (Int64 sz) (f_memory f);
          let gas = Gas (f_contract f);
          let gas = (if IsEIP150 (chainConfig env) (BlockNumber (ctx env)) then gas - gas div 64 else gas);
          let f = use_gas gas f;
          (res, addr, returnGas, suberr, e) \<leftarrow>
            EVM_Create env ri (contract_ref (f_contract f)) input gas v (f_evm f);
          let f = f\<lparr>f_evm := e\<rparr>;
          let f = (if IsHomestead (chainConfig env) (BlockNumber (ctx env)) \<and> suberr = Some ErrCodeStoreOutOfGas
                   then push 0 f
                   else if suberr \<noteq> None \<and> suberr \<noteq> Some ErrCodeStoreOutOfGas then push 0 f
                   else push (Address_Big addr) f);
          let f = add_gas returnGas f;
          yields (if suberr = Some errExecutionReverted then res else []) f }"

definition opCreate2 :: executionFunc where
  "opCreate2 env ri f =
     do { (endowment, f) \<leftarrow> pop f; (offset, f) \<leftarrow> pop f; (sz, f) \<leftarrow> pop f; (salt, f) \<leftarrow> pop f;
          input \<leftarrow> mem_Get (Int64 offset) (Int64 sz) (f_memory f);
          let gas = Gas (f_contract f);
          let gas = gas - gas div 64;
          let f = use_gas gas f;
          (res, addr, returnGas, suberr, e) \<leftarrow>
            EVM_Create2 env ri (contract_ref (f_contract f)) input gas endowment salt (f_evm f);
          let f = f\<lparr>f_evm := e\<rparr>;
          let f = (if suberr \<noteq> None then push 0 f else push (Address_Big addr) f);
          let f = add_gas returnGas f;
          yields (if suberr = Some errExecutionReverted then res else []) f }"

text \<open>What the four call instructions do with the outcome of the call.\<close>

definition after_call :: "int \<Rightarrow> int \<Rightarrow> bytes \<times> uint64 \<times> vmerr option \<times> EVM \<Rightarrow> frame \<Rightarrow> exec_result" where
  "after_call retOffset retSize res f =
     (let (ret, returnGas, err, e) = res;
          f = push (if err \<noteq> None then 0 else 1) (f\<lparr>f_evm := e\<rparr>)
      in do { m \<leftarrow> (if err = None \<or> err = Some errExecutionReverted
                    then mem_Set (Uint64 retOffset) (Uint64 retSize) ret (f_memory f)
                    else Some (f_memory f));
              yields ret (add_gas returnGas (set_memory m f)) })"

definition opCall :: executionFunc where
  "opCall env ri f =
     do { (_, f) \<leftarrow> pop f;
          let gas = callGasTemp (f_evm f);
          (addr, f) \<leftarrow> pop f; (v, f) \<leftarrow> pop f; (inOffset, f) \<leftarrow> pop f; (inSize, f) \<leftarrow> pop f;
          (retOffset, f) \<leftarrow> pop f; (retSize, f) \<leftarrow> pop f;
          let toAddr = BigToAddress addr;
          let v = U256 v;
          args \<leftarrow> mem_Get (Int64 inOffset) (Int64 inSize) (f_memory f);
          let gas = (if v \<noteq> 0 then gas + CallStipend else gas);
          r \<leftarrow> EVM_Call env ri (contract_ref (f_contract f)) toAddr args gas v (f_evm f);
          after_call retOffset retSize r f }"

definition opCallCode :: executionFunc where
  "opCallCode env ri f =
     do { (_, f) \<leftarrow> pop f;
          let gas = callGasTemp (f_evm f);
          (addr, f) \<leftarrow> pop f; (v, f) \<leftarrow> pop f; (inOffset, f) \<leftarrow> pop f; (inSize, f) \<leftarrow> pop f;
          (retOffset, f) \<leftarrow> pop f; (retSize, f) \<leftarrow> pop f;
          let toAddr = BigToAddress addr;
          let v = U256 v;
          args \<leftarrow> mem_Get (Int64 inOffset) (Int64 inSize) (f_memory f);
          let gas = (if v \<noteq> 0 then gas + CallStipend else gas);
          r \<leftarrow> EVM_CallCode env ri (contract_ref (f_contract f)) toAddr args gas v (f_evm f);
          after_call retOffset retSize r f }"

definition opDelegateCall :: executionFunc where
  "opDelegateCall env ri f =
     do { (_, f) \<leftarrow> pop f;
          let gas = callGasTemp (f_evm f);
          (addr, f) \<leftarrow> pop f; (inOffset, f) \<leftarrow> pop f; (inSize, f) \<leftarrow> pop f;
          (retOffset, f) \<leftarrow> pop f; (retSize, f) \<leftarrow> pop f;
          let toAddr = BigToAddress addr;
          args \<leftarrow> mem_Get (Int64 inOffset) (Int64 inSize) (f_memory f);
          r \<leftarrow> EVM_DelegateCall env ri (contract_ref (f_contract f)) toAddr args gas (f_evm f);
          after_call retOffset retSize r f }"

definition opStaticCall :: executionFunc where
  "opStaticCall env ri f =
     do { (_, f) \<leftarrow> pop f;
          let gas = callGasTemp (f_evm f);
          (addr, f) \<leftarrow> pop f; (inOffset, f) \<leftarrow> pop f; (inSize, f) \<leftarrow> pop f;
          (retOffset, f) \<leftarrow> pop f; (retSize, f) \<leftarrow> pop f;
          let toAddr = BigToAddress addr;
          args \<leftarrow> mem_Get (Int64 inOffset) (Int64 inSize) (f_memory f);
          r \<leftarrow> EVM_StaticCall env ri (contract_ref (f_contract f)) toAddr args gas (f_evm f);
          after_call retOffset retSize r f }"

section \<open>Halting\<close>

definition opReturn :: executionFunc where
  "opReturn env ri f =
     do { (offset, f) \<leftarrow> pop f; (sz, f) \<leftarrow> pop f;
          ret \<leftarrow> mem_GetPtr (Int64 offset) (Int64 sz) (f_memory f);
          yields ret f }"

definition opRevert :: executionFunc where
  "opRevert env ri f =
     do { (offset, f) \<leftarrow> pop f; (sz, f) \<leftarrow> pop f;
          ret \<leftarrow> mem_GetPtr (Int64 offset) (Int64 sz) (f_memory f);
          yields ret f }"

definition opStop :: executionFunc where
  "opStop env ri f = finish f"

definition opSuicide :: executionFunc where
  "opSuicide env ri f =
     do { let (b, f) = ask (\<lambda>s. GetBalance s (c_Address (f_contract f))) f;
          (a, f) \<leftarrow> pop f;
          let f = tell (\<lambda>s. AddBalance s (BigToAddress a) b) f;
          finish (tell (\<lambda>s. snd (Suicide s (c_Address (f_contract f)))) f) }"

section \<open>Families of instructions\<close>

fun pop_topics :: "nat \<Rightarrow> frame \<Rightarrow> (Hash list \<times> frame) option" where
  "pop_topics 0 f = Some ([], f)"
| "pop_topics (Suc n) f =
     do { (x, f) \<leftarrow> pop f; (ts, f) \<leftarrow> pop_topics n f; Some (BigToHash x # ts, f) }"

definition makeLog :: "nat \<Rightarrow> executionFunc" where
  "makeLog sz env ri f =
     do { (mStart, f) \<leftarrow> pop f; (mSize, f) \<leftarrow> pop f;
          (topics, f) \<leftarrow> pop_topics sz f;
          d \<leftarrow> mem_Get (Int64 mStart) (Int64 mSize) (f_memory f);
          finish (tell (\<lambda>s. AddLog s
                  \<lparr>log_Address = c_Address (f_contract f), log_Topics = topics, log_Data = d,
                   log_BlockNumber = Uint64 (BlockNumber (ctx env)), log_TxHash = 0, log_TxIndex = 0,
                   log_BlockHash = 0, log_Index = 0\<rparr>) f) }"

text \<open>The conversion \<^verbatim>\<open>int(*pc+1)\<close> is a signed reading of the wrapped sum.\<close>

definition makePush :: "uint64 \<Rightarrow> nat \<Rightarrow> executionFunc" where
  "makePush sz pushByteSize env ri f =
     (let code = Code (f_contract f);
          codeLen = int (length code);
          startMin = (if sint (f_pc f + 1) < codeLen then sint (f_pc f + 1) else codeLen);
          endMin = (if startMin + int pushByteSize < codeLen then startMin + int pushByteSize else codeLen)
      in if startMin < 0 then None
         else
           do { d \<leftarrow> slice code (nat startMin) (nat endMin);
                let f = push (SetBytes (RightPadBytes d (int pushByteSize))) f;
                finish (f\<lparr>f_pc := f_pc f + sz\<rparr>) })"

definition makeDup :: "nat \<Rightarrow> executionFunc" where
  "makeDup sz env ri f = do { st \<leftarrow> stack_dup sz (f_stack f); finish (f\<lparr>f_stack := st\<rparr>) }"

definition makeSwap :: "nat \<Rightarrow> executionFunc" where
  "makeSwap sz env ri f = do { st \<leftarrow> stack_swap (sz + 1) (f_stack f); finish (f\<lparr>f_stack := st\<rparr>) }"

section \<open>Frames with a given stack\<close>

definition on_stack :: "int list \<Rightarrow> frame \<Rightarrow> frame" where
  "on_stack st f = f\<lparr>f_stack := st\<rparr>"

lemma on_stack_simps [simp]:
  "pop (on_stack (x # st) f) = Some (x, on_stack st f)"
  "peek (on_stack (x # st) f) = Some x"
  "push v (on_stack st f) = on_stack (v # st) f"
  "poke v (on_stack (x # st) f) = on_stack (v # st) f"
  "f_stack (on_stack st f) = st" "f_evm (on_stack st f) = f_evm f" "f_contract (on_stack st f) = f_contract f"
  "f_memory (on_stack st f) = f_memory f" "f_pc (on_stack st f) = f_pc f"
  "on_stack st (on_stack st' f) = on_stack st f" "on_stack (f_stack f) f = f"
  by (simp_all add: on_stack_def pop_def peek_def push_def poke_def stack_peek_def stack_Back_def
      stack_push_def stack_poke_def)

end
