(* ===== verification/VM_Gas.thy ===== *)
theory VM_Gas
  imports VM_Instructions
begin

text \<open>
  \<^verbatim>\<open>core/vm/gas_table.go\<close>, \<^verbatim>\<open>core/vm/gas.go\<close> and \<^verbatim>\<open>core/vm/memory_table.go\<close>: the price of every
  instruction and the memory it needs.  A gas function may change the state (the refund counter, the
  cached gas of a call, the memory's \<open>lastGasCost\<close>), so it returns the frame with its price or error;
  \<^term>\<open>None\<close> is a panic.
\<close>

type_synonym gas_result = "((vmerr + uint64) \<times> frame) option"
type_synonym gasFunc = "Env \<Rightarrow> uint64 \<Rightarrow> frame \<Rightarrow> gas_result"
type_synonym memorySizeFunc = "Stack \<Rightarrow> int option"

section \<open>Constants\<close>

definition GasQuickStep :: uint64 where "GasQuickStep = 2"
definition GasFastestStep :: uint64 where "GasFastestStep = 3"
definition GasFastStep :: uint64 where "GasFastStep = 5"
definition GasMidStep :: uint64 where "GasMidStep = 8"
definition GasSlowStep :: uint64 where "GasSlowStep = 10"
definition GasExtStep :: uint64 where "GasExtStep = 20"
definition GasReturn :: uint64 where "GasReturn = 0"
definition GasStop :: uint64 where "GasStop = 0"
definition GasContractByte :: uint64 where "GasContractByte = 200"

lemmas gas_steps =
  GasQuickStep_def GasFastestStep_def GasFastStep_def GasMidStep_def GasSlowStep_def GasExtStep_def
  GasReturn_def GasStop_def GasContractByte_def

section \<open>Memory sizes\<close>

definition mem_range :: "nat \<Rightarrow> nat \<Rightarrow> memorySizeFunc" where
  "mem_range off len stack =
     do { o' \<leftarrow> stack_Back stack off; l \<leftarrow> stack_Back stack len; Some (calcMemSize o' l) }"

definition memorySha3 :: memorySizeFunc where
  "memorySha3 stack = mem_range 0 1 stack"

definition memoryCallDataCopy :: memorySizeFunc where
  "memoryCallDataCopy stack = mem_range 0 2 stack"

definition memoryReturnDataCopy :: memorySizeFunc where
  "memoryReturnDataCopy stack = mem_range 0 2 stack"

definition memoryCodeCopy :: memorySizeFunc where
  "memoryCodeCopy stack = mem_range 0 2 stack"

definition memoryExtCodeCopy :: memorySizeFunc where
  "memoryExtCodeCopy stack = mem_range 1 3 stack"

definition memoryMLoad :: memorySizeFunc where
  "memoryMLoad stack = do { o' \<leftarrow> stack_Back stack 0; Some (calcMemSize o' 32) }"

definition memoryMStore8 :: memorySizeFunc where
  "memoryMStore8 stack = do { o' \<leftarrow> stack_Back stack 0; Some (calcMemSize o' 1) }"

definition memoryMStore :: memorySizeFunc where
  "memoryMStore stack = do { o' \<leftarrow> stack_Back stack 0; Some (calcMemSize o' 32) }"

definition memoryCreate :: memorySizeFunc where
  "memoryCreate stack = mem_range 1 2 stack"

definition memoryCreate2 :: memorySizeFunc where
  "memoryCreate2 stack = mem_range 1 2 stack"

definition memoryCall :: memorySizeFunc where
  "memoryCall stack = do { x \<leftarrow> mem_range 5 6 stack; y \<leftarrow> mem_range 3 4 stack; Some (BigMax x y) }"

definition memoryDelegateCall :: memorySizeFunc where
  "memoryDelegateCall stack = do { x \<leftarrow> mem_range 4 5 stack; y \<leftarrow> mem_range 2 3 stack; Some (BigMax x y) }"

definition memoryStaticCall :: memorySizeFunc where
  "memoryStaticCall stack = do { x \<leftarrow> mem_range 4 5 stack; y \<leftarrow> mem_range 2 3 stack; Some (BigMax x y) }"

definition memoryReturn :: memorySizeFunc where
  "memoryReturn stack = mem_range 0 1 stack"

definition memoryRevert :: memorySizeFunc where
  "memoryRevert stack = mem_range 0 1 stack"

definition memoryLog :: memorySizeFunc where
  "memoryLog stack = mem_range 0 1 stack"

section \<open>Composing prices\<close>

definition price :: "uint64 \<Rightarrow> frame \<Rightarrow> gas_result" where
  "price g f = Some (Inr g, f)"

definition no_price :: "vmerr \<Rightarrow> frame \<Rightarrow> gas_result" where
  "no_price err f = Some (Inl err, f)"

text \<open>\<^verbatim>\<open>gas, overflow = math.SafeAdd(gas, extra)\<close> with the early return on overflow.\<close>

definition plus_gas :: "uint64 \<Rightarrow> gas_result \<Rightarrow> gas_result" where
  "plus_gas extra r =
     (case r of
        Some (Inr gas, f) \<Rightarrow>
          let (g, overflow) = SafeAdd gas extra in
          if overflow then Some (Inl errGasUintOverflow, f) else Some (Inr g, f)
      | _ \<Rightarrow> r)"

definition memoryGasCost :: "Memory \<Rightarrow> uint64 \<Rightarrow> (vmerr + uint64) \<times> Memory" where
  "memoryGasCost mem newMemSize =
     (if newMemSize = 0 then (Inr 0, mem)
      else if newMemSize > 0xffffffffe0 then (Inl errGasUintOverflow, mem)
      else
        let newMemSizeWords = toWordSize newMemSize;
            newMemSize = newMemSizeWords * 32 in
        if newMemSize > of_nat (mem_Len mem) then
          let square = newMemSizeWords * newMemSizeWords;
              linCoef = newMemSizeWords * MemoryGas;
              quadCoef = square div QuadCoeffDiv;
              newTotalFee = linCoef + quadCoef;
              fee = newTotalFee - lastGasCost mem
          in (Inr fee, mem\<lparr>lastGasCost := newTotalFee\<rparr>)
        else (Inr 0, mem))"

definition mem_price :: "uint64 \<Rightarrow> frame \<Rightarrow> gas_result" where
  "mem_price memorySize f =
     (let (r, m) = memoryGasCost (f_memory f) memorySize in Some (r, f\<lparr>f_memory := m\<rparr>))"

text \<open>The price per word of the \<open>n\<close>-th stack item, added to a price.\<close>

definition word_price :: "nat \<Rightarrow> uint64 \<Rightarrow> gas_result \<Rightarrow> gas_result" where
  "word_price n per r =
     (case r of
        Some (Inr gas, f) \<Rightarrow>
          do { len \<leftarrow> stack_Back (f_stack f) n;
               let (words, overflow) = bigUint64 len;
               if overflow then no_price errGasUintOverflow f
               else
                 let (wordGas, overflow) = SafeMul (toWordSize words) per in
                 if overflow then no_price errGasUintOverflow f
                 else plus_gas wordGas r }
      | _ \<Rightarrow> r)"

definition constGasFunc :: "uint64 \<Rightarrow> gasFunc" where
  "constGasFunc gas env memorySize f = price gas f"

section \<open>Prices of the instructions\<close>

definition gasCallDataCopy :: gasFunc where
  "gasCallDataCopy env memorySize f = word_price 2 CopyGas (plus_gas GasFastestStep (mem_price memorySize f))"

definition gasReturnDataCopy :: gasFunc where
  "gasReturnDataCopy env memorySize f = word_price 2 CopyGas (plus_gas GasFastestStep (mem_price memorySize f))"

text \<open>The refund of a net metered store (EIP-1283), for an original, current and new value.\<close>

definition net_refund :: "Hash \<Rightarrow> Hash \<Rightarrow> Hash \<Rightarrow> StateDB \<Rightarrow> StateDB option" where
  "net_refund original cur value s =
     do { s \<leftarrow> (if original \<noteq> 0 then
                   if cur = 0 then SubRefund s NetSstoreClearRefund
                   else if value = 0 then Some (AddRefund s NetSstoreClearRefund) else Some s
                 else Some s);
          Some (if original = value then
                  if original = 0 then AddRefund s NetSstoreResetClearRefund
                  else AddRefund s NetSstoreResetRefund
                else s) }"

definition gasSStore :: gasFunc where
  "gasSStore env memorySize f =
     do { y \<leftarrow> stack_Back (f_stack f) 1; x \<leftarrow> stack_Back (f_stack f) 0;
          let (cur, f) = ask (\<lambda>s. GetState s (c_Address (f_contract f)) (BigToHash x)) f;
          if \<not> rules_IsConstantinople (chainRules env) then
            if cur = 0 \<and> y \<noteq> 0 then price SstoreSetGas f
            else if cur \<noteq> 0 \<and> y = 0 then price SstoreClearGas (tell (\<lambda>s. AddRefund s SstoreRefundGas) f)
            else price SstoreResetGas f
          else
            let value = BigToHash y in
            if cur = value then price NetSstoreNoopGas f
            else
              let (original, f) = ask (\<lambda>s. GetCommittedState s (c_Address (f_contract f)) (BigToHash x)) f in
              if original = cur then
                if original = 0 then price NetSstoreInitGas f
                else if value = 0 then price NetSstoreCleanGas (tell (\<lambda>s. AddRefund s NetSstoreClearRefund) f)
                else price NetSstoreCleanGas f
              else
                do { s \<leftarrow> net_refund original cur value (statedb (f_evm f));
                     price NetSstoreDirtyGas (tell (\<lambda>_. s) f) } }"

definition makeGasLog :: "uint64 \<Rightarrow> gasFunc" where
  "makeGasLog n env memorySize f =
     do { sz \<leftarrow> stack_Back (f_stack f) 1;
          let (requestedSize, overflow) = bigUint64 sz;
          if overflow then no_price errGasUintOverflow f
          else
            (case plus_gas (n * LogTopicGas) (plus_gas LogGas (mem_price memorySize f)) of
               Some (Inr gas, f) \<Rightarrow>
                 let (memorySizeGas, overflow) = SafeMul requestedSize LogDataGas in
                 if overflow then no_price errGasUintOverflow f
                 else plus_gas memorySizeGas (price gas f)
             | r \<Rightarrow> r) }"

definition gasSha3 :: gasFunc where
  "gasSha3 env memorySize f = word_price 1 Sha3WordGas (plus_gas Sha3Gas (mem_price memorySize f))"

definition gasCodeCopy :: gasFunc where
  "gasCodeCopy env memorySize f = word_price 2 CopyGas (plus_gas GasFastestStep (mem_price memorySize f))"

definition gasExtCodeCopy :: gasFunc where
  "gasExtCodeCopy env memorySize f =
     word_price 3 CopyGas (plus_gas (ExtcodeCopy (gasTable env)) (mem_price memorySize f))"

definition gasExtCodeHash :: gasFunc where
  "gasExtCodeHash env memorySize f = price (ExtcodeHash (gasTable env)) f"

definition gasMLoad :: gasFunc where
  "gasMLoad env memorySize f = plus_gas GasFastestStep (mem_price memorySize f)"

definition gasMStore8 :: gasFunc where
  "gasMStore8 env memorySize f = plus_gas GasFastestStep (mem_price memorySize f)"

definition gasMStore :: gasFunc where
  "gasMStore env memorySize f = plus_gas GasFastestStep (mem_price memorySize f)"

definition gasCreate :: gasFunc where
  "gasCreate env memorySize f = plus_gas CreateGas (mem_price memorySize f)"

definition gasCreate2 :: gasFunc where
  "gasCreate2 env memorySize f = plus_gas Create2Gas (mem_price memorySize f)"

definition gasBalance :: gasFunc where
  "gasBalance env memorySize f = price (BalanceGas (gasTable env)) f"

definition gasExtCodeSize :: gasFunc where
  "gasExtCodeSize env memorySize f = price (ExtcodeSize (gasTable env)) f"

definition gasSLoad :: gasFunc where
  "gasSLoad env memorySize f = price (SLoad (gasTable env)) f"

definition gasExp :: gasFunc where
  "gasExp env memorySize f =
     do { ex \<leftarrow> stack_Back (f_stack f) 1;
          let expByteLen = of_nat ((BitLen ex + 7) div 8);
          plus_gas GasSlowStep (price (expByteLen * ExpByte (gasTable env)) f) }"

section \<open>Prices of calls\<close>

definition callGas :: "GasTable \<Rightarrow> uint64 \<Rightarrow> uint64 \<Rightarrow> int \<Rightarrow> vmerr + uint64" where
  "callGas gt availableGas base callCost =
     (let availableGas' = availableGas - base;
          gas = availableGas' - availableGas' div 64 in
      if CreateBySuicide gt > 0 \<and> (BitLen callCost > 64 \<or> gas < Uint64 callCost) then Inr gas
      else if BitLen callCost > 64 then Inl errGasUintOverflow
      else Inr (Uint64 callCost))"

text \<open>The end of the four call prices: reserve the gas of the call and add it to the price.\<close>

definition reserve_call_gas :: "Env \<Rightarrow> gas_result \<Rightarrow> gas_result" where
  "reserve_call_gas env r =
     (case r of
        Some (Inr gas, f) \<Rightarrow>
          do { cost \<leftarrow> stack_Back (f_stack f) 0;
               (case callGas (gasTable env) (Gas (f_contract f)) gas cost of
                  Inl err \<Rightarrow> no_price err (f\<lparr>f_evm := (f_evm f)\<lparr>callGasTemp := 0\<rparr>\<rparr>)
                | Inr g \<Rightarrow> plus_gas g (price gas (f\<lparr>f_evm := (f_evm f)\<lparr>callGasTemp := g\<rparr>\<rparr>))) }
      | _ \<Rightarrow> r)"

text \<open>Adding the memory price to the base price of a call, as \<^verbatim>\<open>gasCall\<close> and \<^verbatim>\<open>gasCallCode\<close> do.\<close>

definition plus_memory :: "uint64 \<Rightarrow> uint64 \<Rightarrow> frame \<Rightarrow> gas_result" where
  "plus_memory gas memorySize f =
     (case mem_price memorySize f of
        Some (Inr memoryGas, f) \<Rightarrow> plus_gas memoryGas (price gas f)
      | r \<Rightarrow> r)"

definition gasCall :: gasFunc where
  "gasCall env memorySize f =
     do { v \<leftarrow> stack_Back (f_stack f) 2;
          a \<leftarrow> stack_Back (f_stack f) 1;
          let transfersValue = (v \<noteq> 0);
          let addr = BigToAddress a;
          let (newAccount, f) =
                (if IsEIP158 (chainConfig env) (BlockNumber (ctx env)) then
                   if transfersValue then ask (\<lambda>s. Empty s addr) f else (False, f)
                 else let (ex, f) = ask (\<lambda>s. Exist s addr) f in (\<not> ex, f));
          let gas = Calls (gasTable env);
          let gas = (if newAccount then gas + CallNewAccountGas else gas);
          let gas = (if transfersValue then gas + CallValueTransferGas else gas);
          reserve_call_gas env (plus_memory gas memorySize f) }"

definition gasCallCode :: gasFunc where
  "gasCallCode env memorySize f =
     do { v \<leftarrow> stack_Back (f_stack f) 2;
          let gas = Calls (gasTable env);
          let gas = (if v \<noteq> 0 then gas + CallValueTransferGas else gas);
          reserve_call_gas env (plus_memory gas memorySize f) }"

definition gasReturn :: gasFunc where
  "gasReturn env memorySize f = mem_price memorySize f"

definition gasRevert :: gasFunc where
  "gasRevert env memorySize f = mem_price memorySize f"

definition gasSuicide :: gasFunc where
  "gasSuicide env memorySize f =
     do { (gas, f) \<leftarrow>
            (if IsEIP150 (chainConfig env) (BlockNumber (ctx env)) then
               do { a \<leftarrow> stack_Back (f_stack f) 0;
                    let addr = BigToAddress a;
                    let (creates, f) =
                          (if IsEIP158 (chainConfig env) (BlockNumber (ctx env)) then
                             let (em, f) = ask (\<lambda>s. Empty s addr) f in
                             if em then
                               let (b, f) = ask (\<lambda>s. GetBalance s (c_Address (f_contract f))) f in (b \<noteq> 0, f)
                             else (False, f)
                           else let (ex, f) = ask (\<lambda>s. Exist s addr) f in (\<not> ex, f));
                    Some (if creates then SuicideGas (gasTable env) + CreateBySuicide (gasTable env)
                          else SuicideGas (gasTable env), f) }
             else Some (0, f));
          let (dead, f) = ask (\<lambda>s. HasSuicided s (c_Address (f_contract f))) f;
          price gas (if dead then f else tell (\<lambda>s. AddRefund s SuicideRefundGas) f) }"

definition gasDelegateCall :: gasFunc where
  "gasDelegateCall env memorySize f =
     reserve_call_gas env (plus_gas (Calls (gasTable env)) (mem_price memorySize f))"

definition gasStaticCall :: gasFunc where
  "gasStaticCall env memorySize f =
     reserve_call_gas env (plus_gas (Calls (gasTable env)) (mem_price memorySize f))"

definition gasPush :: gasFunc where
  "gasPush env memorySize f = price GasFastestStep f"

definition gasSwap :: gasFunc where
  "gasSwap env memorySize f = price GasFastestStep f"

definition gasDup :: gasFunc where
  "gasDup env memorySize f = price GasFastestStep f"

end
