(* ===== verification/VM_JumpTable.thy ===== *)
theory VM_JumpTable
  imports VM_Gas
begin

text \<open>
  \<^verbatim>\<open>core/vm/jump_table.go\<close>: the instruction sets of the hard forks.  The code's arrays are association
  lists from opcodes to operations here; an opcode without an entry is the zero \<^verbatim>\<open>operation\<close> of the
  array, whose flag \<^verbatim>\<open>valid\<close> is false.  The frontier table, one literal in the code, is split into
  consecutive groups.
\<close>

record operation =
  execute :: executionFunc
  gasCost :: gasFunc
  validateStack :: "Stack \<Rightarrow> vmerr option"
  memorySize :: "memorySizeFunc option"
  halts :: bool
  jumps :: bool
  writes :: bool
  valid :: bool
  reverts :: bool
  returns :: bool

type_synonym JumpTable = "(OpCode \<times> operation) list"

definition mk_operation :: "executionFunc \<Rightarrow> gasFunc \<Rightarrow> (Stack \<Rightarrow> vmerr option) \<Rightarrow> operation" where
  "mk_operation ex gas st =
     \<lparr>execute = ex, gasCost = gas, validateStack = st, memorySize = None, halts = False, jumps = False,
      writes = False, valid = True, reverts = False, returns = False\<rparr>"

definition zero_operation :: operation where
  "zero_operation = (mk_operation (\<lambda>_ _ _. None) (\<lambda>_ _ _. None) (\<lambda>_. None))\<lparr>valid := False\<rparr>"

definition lookup_op :: "JumpTable \<Rightarrow> OpCode \<Rightarrow> operation" where
  "lookup_op jt op = (case map_of jt op of None \<Rightarrow> zero_operation | Some o' \<Rightarrow> o')"

section \<open>The instruction sets\<close>

definition frontier_arithmetic :: JumpTable where
  "frontier_arithmetic =
     [
      (STOP, (mk_operation opStop (constGasFunc 0) (makeStackFunc 0 0))\<lparr>halts := True\<rparr>),
      (ADD, mk_operation opAdd (constGasFunc GasFastestStep) (makeStackFunc 2 1)),
      (MUL, mk_operation opMul (constGasFunc GasFastStep) (makeStackFunc 2 1)),
      (SUB, mk_operation opSub (constGasFunc GasFastestStep) (makeStackFunc 2 1)),
      (DIV, mk_operation opDiv (constGasFunc GasFastStep) (makeStackFunc 2 1)),
      (SDIV, mk_operation opSdiv (constGasFunc GasFastStep) (makeStackFunc 2 1)),
      (MOD, mk_operation opMod (constGasFunc GasFastStep) (makeStackFunc 2 1)),
      (SMOD, mk_operation opSmod (constGasFunc GasFastStep) (makeStackFunc 2 1)),
      (ADDMOD, mk_operation opAddmod (constGasFunc GasMidStep) (makeStackFunc 3 1)),
      (MULMOD, mk_operation opMulmod (constGasFunc GasMidStep) (makeStackFunc 3 1)),
      (EXP, mk_operation opExp gasExp (makeStackFunc 2 1)),
      (SIGNEXTEND, mk_operation opSignExtend (constGasFunc GasFastStep) (makeStackFunc 2 1)),
      (LT, mk_operation opLt (constGasFunc GasFastestStep) (makeStackFunc 2 1)),
      (GT, mk_operation opGt (constGasFunc GasFastestStep) (makeStackFunc 2 1)),
      (SLT, mk_operation opSlt (constGasFunc GasFastestStep) (makeStackFunc 2 1)),
      (SGT, mk_operation opSgt (constGasFunc GasFastestStep) (makeStackFunc 2 1)),
      (EQ, mk_operation opEq (constGasFunc GasFastestStep) (makeStackFunc 2 1)),
      (ISZERO, mk_operation opIszero (constGasFunc GasFastestStep) (makeStackFunc 1 1)),
      (AND, mk_operation opAnd (constGasFunc GasFastestStep) (makeStackFunc 2 1)),
      (XOR, mk_operation opXor (constGasFunc GasFastestStep) (makeStackFunc 2 1)),
      (OR, mk_operation opOr (constGasFunc GasFastestStep) (makeStackFunc 2 1)),
      (NOT, mk_operation opNot (constGasFunc GasFastestStep) (makeStackFunc 1 1)),
      (BYTE, mk_operation opByte (constGasFunc GasFastestStep) (makeStackFunc 2 1)),
      (SHA3, (mk_operation opSha3 gasSha3 (makeStackFunc 2 1))\<lparr>memorySize := Some memorySha3\<rparr>)]"

definition frontier_environment :: JumpTable where
  "frontier_environment =
     [
      (ADDRESS, mk_operation opAddress (constGasFunc GasQuickStep) (makeStackFunc 0 1)),
      (BALANCE, mk_operation opBalance gasBalance (makeStackFunc 1 1)),
      (ORIGIN, mk_operation opOrigin (constGasFunc GasQuickStep) (makeStackFunc 0 1)),
      (CALLER, mk_operation opCaller (constGasFunc GasQuickStep) (makeStackFunc 0 1)),
      (CALLVALUE, mk_operation opCallValue (constGasFunc GasQuickStep) (makeStackFunc 0 1)),
      (CALLDATALOAD, mk_operation opCallDataLoad (constGasFunc GasFastestStep) (makeStackFunc 1 1)),
      (CALLDATASIZE, mk_operation opCallDataSize (constGasFunc GasQuickStep) (makeStackFunc 0 1)),
      (CALLDATACOPY, (mk_operation opCallDataCopy gasCallDataCopy (makeStackFunc 3 0))\<lparr>memorySize := Some memoryCallDataCopy\<rparr>),
      (CODESIZE, mk_operation opCodeSize (constGasFunc GasQuickStep) (makeStackFunc 0 1)),
      (CODECOPY, (mk_operation opCodeCopy gasCodeCopy (makeStackFunc 3 0))\<lparr>memorySize := Some memoryCodeCopy\<rparr>),
      (GASPRICE, mk_operation opGasprice (constGasFunc GasQuickStep) (makeStackFunc 0 1)),
      (EXTCODESIZE, mk_operation opExtCodeSize gasExtCodeSize (makeStackFunc 1 1)),
      (EXTCODECOPY, (mk_operation opExtCodeCopy gasExtCodeCopy (makeStackFunc 4 0))\<lparr>memorySize := Some memoryExtCodeCopy\<rparr>),
      (BLOCKHASH, mk_operation opBlockhash (constGasFunc GasExtStep) (makeStackFunc 1 1)),
      (COINBASE, mk_operation opCoinbase (constGasFunc GasQuickStep) (makeStackFunc 0 1)),
      (TIMESTAMP, mk_operation opTimestamp (constGasFunc GasQuickStep) (makeStackFunc 0 1)),
      (NUMBER, mk_operation opNumber (constGasFunc GasQuickStep) (makeStackFunc 0 1)),
      (DIFFICULTY, mk_operation opDifficulty (constGasFunc GasQuickStep) (makeStackFunc 0 1)),
      (GASLIMIT, mk_operation opGasLimit (constGasFunc GasQuickStep) (makeStackFunc 0 1)),
      (POP, mk_operation opPop (constGasFunc GasQuickStep) (makeStackFunc 1 0)),
      (MLOAD, (mk_operation opMload gasMLoad (makeStackFunc 1 1))\<lparr>memorySize := Some memoryMLoad\<rparr>),
      (MSTORE, (mk_operation opMstore gasMStore (makeStackFunc 2 0))\<lparr>memorySize := Some memoryMStore\<rparr>),
      (MSTORE8, (mk_operation opMstore8 gasMStore8 (makeStackFunc 2 0))\<lparr>memorySize := Some memoryMStore8\<rparr>)]"

definition frontier_storage_push :: JumpTable where
  "frontier_storage_push =
     [
      (SLOAD, mk_operation opSload gasSLoad (makeStackFunc 1 1)),
      (SSTORE, (mk_operation opSstore gasSStore (makeStackFunc 2 0))\<lparr>writes := True\<rparr>),
      (JUMP, (mk_operation opJump (constGasFunc GasMidStep) (makeStackFunc 1 0))\<lparr>jumps := True\<rparr>),
      (JUMPI, (mk_operation opJumpi (constGasFunc GasSlowStep) (makeStackFunc 2 0))\<lparr>jumps := True\<rparr>),
      (PC, mk_operation opPc (constGasFunc GasQuickStep) (makeStackFunc 0 1)),
      (MSIZE, mk_operation opMsize (constGasFunc GasQuickStep) (makeStackFunc 0 1)),
      (GAS, mk_operation opGas (constGasFunc GasQuickStep) (makeStackFunc 0 1)),
      (JUMPDEST, mk_operation opJumpdest (constGasFunc JumpdestGas) (makeStackFunc 0 0)),
      (PUSH1, mk_operation (makePush 1 1) gasPush (makeStackFunc 0 1)),
      (PUSH2, mk_operation (makePush 2 2) gasPush (makeStackFunc 0 1)),
      (PUSH3, mk_operation (makePush 3 3) gasPush (makeStackFunc 0 1)),
      (PUSH4, mk_operation (makePush 4 4) gasPush (makeStackFunc 0 1)),
      (PUSH5, mk_operation (makePush 5 5) gasPush (makeStackFunc 0 1)),
      (PUSH6, mk_operation (makePush 6 6) gasPush (makeStackFunc 0 1)),
      (PUSH7, mk_operation (makePush 7 7) gasPush (makeStackFunc 0 1)),
      (PUSH8, mk_operation (makePush 8 8) gasPush (makeStackFunc 0 1)),
      (PUSH9, mk_operation (makePush 9 9) gasPush (makeStackFunc 0 1)),
      (PUSH10, mk_operation (makePush 10 10) gasPush (makeStackFunc 0 1)),
      (PUSH11, mk_operation (makePush 11 11) gasPush (makeStackFunc 0 1)),
      (PUSH12, mk_operation (makePush 12 12) gasPush (makeStackFunc 0 1)),
      (PUSH13, mk_operation (makePush 13 13) gasPush (makeStackFunc 0 1)),
      (PUSH14, mk_operation (makePush 14 14) gasPush (makeStackFunc 0 1)),
      (PUSH15, mk_operation (makePush 15 15) gasPush (makeStackFunc 0 1)),
      (PUSH16, mk_operation (makePush 16 16) gasPush (makeStackFunc 0 1))]"

definition frontier_push_dup :: JumpTable where
  "frontier_push_dup =
     [
      (PUSH17, mk_operation (makePush 17 17) gasPush (makeStackFunc 0 1)),
      (PUSH18, mk_operation (makePush 18 18) gasPush (makeStackFunc 0 1)),
      (PUSH19, mk_operation (makePush 19 19) gasPush (makeStackFunc 0 1)),
      (PUSH20, mk_operation (makePush 20 20) gasPush (makeStackFunc 0 1)),
      (PUSH21, mk_operation (makePush 21 21) gasPush (makeStackFunc 0 1)),
      (PUSH22, mk_operation (makePush 22 22) gasPush (makeStackFunc 0 1)),
      (PUSH23, mk_operation (makePush 23 23) gasPush (makeStackFunc 0 1)),
      (PUSH24, mk_operation (makePush 24 24) gasPush (makeStackFunc 0 1)),
      (PUSH25, mk_operation (makePush 25 25) gasPush (makeStackFunc 0 1)),
      (PUSH26, mk_operation (makePush 26 26) gasPush (makeStackFunc 0 1)),
      (PUSH27, mk_operation (makePush 27 27) gasPush (makeStackFunc 0 1)),
      (PUSH28, mk_operation (makePush 28 28) gasPush (makeStackFunc 0 1)),
      (PUSH29, mk_operation (makePush 29 29) gasPush (makeStackFunc 0 1)),
      (PUSH30, mk_operation (makePush 30 30) gasPush (makeStackFunc 0 1)),
      (PUSH31, mk_operation (makePush 31 31) gasPush (makeStackFunc 0 1)),
      (PUSH32, mk_operation (makePush 32 32) gasPush (makeStackFunc 0 1)),
      (DUP1, mk_operation (makeDup 1) gasDup (makeDupStackFunc 1)),
      (DUP2, mk_operation (makeDup 2) gasDup (makeDupStackFunc 2)),
      (DUP3, mk_operation (makeDup 3) gasDup (makeDupStackFunc 3)),
      (DUP4, mk_operation (makeDup 4) gasDup (makeDupStackFunc 4)),
      (DUP5, mk_operation (makeDup 5) gasDup (makeDupStackFunc 5)),
      (DUP6, mk_operation (makeDup 6) gasDup (makeDupStackFunc 6)),
      (DUP7, mk_operation (makeDup 7) gasDup (makeDupStackFunc 7)),
      (DUP8, mk_operation (makeDup 8) gasDup (makeDupStackFunc 8))]"

definition frontier_dup_swap :: JumpTable where
  "frontier_dup_swap =
     [
      (DUP9, mk_operation (makeDup 9) gasDup (makeDupStackFunc 9)),
      (DUP10, mk_operation (makeDup 10) gasDup (makeDupStackFunc 10)),
      (DUP11, mk_operation (makeDup 11) gasDup (makeDupStackFunc 11)),
      (DUP12, mk_operation (makeDup 12) gasDup (makeDupStackFunc 12)),
      (DUP13, mk_operation (makeDup 13) gasDup (makeDupStackFunc 13)),
      (DUP14, mk_operation (makeDup 14) gasDup (makeDupStackFunc 14)),
      (DUP15, mk_operation (makeDup 15) gasDup (makeDupStackFunc 15)),
      (DUP16, mk_operation (makeDup 16) gasDup (makeDupStackFunc 16)),
      (SWAP1, mk_operation (makeSwap 1) gasSwap (makeSwapStackFunc 2)),
      (SWAP2, mk_operation (makeSwap 2) gasSwap (makeSwapStackFunc 3)),
      (SWAP3, mk_operation (makeSwap 3) gasSwap (makeSwapStackFunc 4)),
      (SWAP4, mk_operation (makeSwap 4) gasSwap (makeSwapStackFunc 5)),
      (SWAP5, mk_operation (makeSwap 5) gasSwap (makeSwapStackFunc 6)),
      (SWAP6, mk_operation (makeSwap 6) gasSwap (makeSwapStackFunc 7)),
      (SWAP7, mk_operation (makeSwap 7) gasSwap (makeSwapStackFunc 8)),
      (SWAP8, mk_operation (makeSwap 8) gasSwap (makeSwapStackFunc 9)),
      (SWAP9, mk_operation (makeSwap 9) gasSwap (makeSwapStackFunc 10)),
      (SWAP10, mk_operation (makeSwap 10) gasSwap (makeSwapStackFunc 11)),
      (SWAP11, mk_operation (makeSwap 11) gasSwap (makeSwapStackFunc 12)),
      (SWAP12, mk_operation (makeSwap 12) gasSwap (makeSwapStackFunc 13)),
      (SWAP13, mk_operation (makeSwap 13) gasSwap (makeSwapStackFunc 14)),
      (SWAP14, mk_operation (makeSwap 14) gasSwap (makeSwapStackFunc 15)),
      (SWAP15, mk_operation (makeSwap 15) gasSwap (makeSwapStackFunc 16)),
      (SWAP16, mk_operation (makeSwap 16) gasSwap (makeSwapStackFunc 17))]"

definition frontier_log_system :: JumpTable where
  "frontier_log_system =
     [
      (LOG0, (mk_operation (makeLog 0) (makeGasLog 0) (makeStackFunc 2 0))\<lparr>memorySize := Some memoryLog, writes := True\<rparr>),
      (LOG1, (mk_operation (makeLog 1) (makeGasLog 1) (makeStackFunc 3 0))\<lparr>memorySize := Some memoryLog, writes := True\<rparr>),
      (LOG2, (mk_operation (makeLog 2) (makeGasLog 2) (makeStackFunc 4 0))\<lparr>memorySize := Some memoryLog, writes := True\<rparr>),
      (LOG3, (mk_operation (makeLog 3) (makeGasLog 3) (makeStackFunc 5 0))\<lparr>memorySize := Some memoryLog, writes := True\<rparr>),
      (LOG4, (mk_operation (makeLog 4) (makeGasLog 4) (makeStackFunc 6 0))\<lparr>memorySize := Some memoryLog, writes := True\<rparr>),
      (CREATE, (mk_operation opCreate gasCreate (makeStackFunc 3 1))\<lparr>memorySize := Some memoryCreate, writes := True, returns := True\<rparr>),
      (CALL, (mk_operation opCall gasCall (makeStackFunc 7 1))\<lparr>memorySize := Some memoryCall, returns := True\<rparr>),
      (CALLCODE, (mk_operation opCallCode gasCallCode (makeStackFunc 7 1))\<lparr>memorySize := Some memoryCall, returns := True\<rparr>),
      (RETURN, (mk_operation opReturn gasReturn (makeStackFunc 2 0))\<lparr>memorySize := Some memoryReturn, halts := True\<rparr>),
      (SELFDESTRUCT, (mk_operation opSuicide gasSuicide (makeStackFunc 1 0))\<lparr>halts := True, writes := True\<rparr>)]"

definition frontierInstructionSet :: JumpTable where
  "frontierInstructionSet =
     frontier_arithmetic @ frontier_environment @ frontier_storage_push @ frontier_push_dup @ frontier_dup_swap @ frontier_log_system"

text \<open>Assigning an entry of the array shadows the earlier one: the new entries come first.\<close>

definition homesteadInstructionSet :: JumpTable where
  "homesteadInstructionSet =
     [
      (DELEGATECALL, (mk_operation opDelegateCall gasDelegateCall (makeStackFunc 6 1))\<lparr>memorySize := Some memoryDelegateCall, returns := True\<rparr>)] @ frontierInstructionSet"

definition byzantiumInstructionSet :: JumpTable where
  "byzantiumInstructionSet =
     [
      (STATICCALL, (mk_operation opStaticCall gasStaticCall (makeStackFunc 6 1))\<lparr>memorySize := Some memoryStaticCall, returns := True\<rparr>),
      (RETURNDATASIZE, mk_operation opReturnDataSize (constGasFunc GasQuickStep) (makeStackFunc 0 1)),
      (RETURNDATACOPY, (mk_operation opReturnDataCopy gasReturnDataCopy (makeStackFunc 3 0))\<lparr>memorySize := Some memoryReturnDataCopy\<rparr>),
      (REVERT, (mk_operation opRevert gasRevert (makeStackFunc 2 0))\<lparr>memorySize := Some memoryRevert, reverts := True, returns := True\<rparr>)] @ homesteadInstructionSet"

definition constantinopleInstructionSet :: JumpTable where
  "constantinopleInstructionSet =
     [
      (SHL, mk_operation opSHL (constGasFunc GasFastestStep) (makeStackFunc 2 1)),
      (SHR, mk_operation opSHR (constGasFunc GasFastestStep) (makeStackFunc 2 1)),
      (SAR, mk_operation opSAR (constGasFunc GasFastestStep) (makeStackFunc 2 1)),
      (EXTCODEHASH, mk_operation opExtCodeHash gasExtCodeHash (makeStackFunc 1 1)),
      (CREATE2, (mk_operation opCreate2 gasCreate2 (makeStackFunc 4 1))\<lparr>memorySize := Some memoryCreate2, writes := True, returns := True\<rparr>)] @ byzantiumInstructionSet"

definition JumpTable_for :: "Env \<Rightarrow> JumpTable" where
  "JumpTable_for env =
     (if IsConstantinople (chainConfig env) (BlockNumber (ctx env)) then constantinopleInstructionSet
      else if IsByzantium (chainConfig env) (BlockNumber (ctx env)) then byzantiumInstructionSet
      else if IsHomestead (chainConfig env) (BlockNumber (ctx env)) then homesteadInstructionSet
      else frontierInstructionSet)"

end
