(* ===== verification/Network.thy ===== *)
theory Network
  imports VM_JumpTable State_Correct
begin

text \<open>
  The private network that the repository deploys, as a concrete instance for the witnesses: the chain
  configuration of \<^verbatim>\<open>docker-geth-network-master/files/genesis.json\<close> (Homestead, EIP 155 and EIP 158 from
  block 0, no later fork), its first block, and a state over an empty node database.
\<close>

definition genesis_config :: ChainConfig where
  "genesis_config =
     \<lparr>ChainID = Some 456719, HomesteadBlock = Some 0, DAOForkBlock = None, DAOForkSupport = False,
      EIP150Block = None, EIP150Hash = 0, EIP155Block = Some 0, EIP158Block = Some 0,
      ByzantiumBlock = None, ConstantinopleBlock = None, EWASMBlock = None\<rparr>"

definition first_block :: Context where
  "first_block =
     \<lparr>GetHash = (\<lambda>_. 0), Origin = 1, GasPrice = 1, Coinbase = 0x3333333333333333333333333333333333333333,
      GasLimit = 0xf000000, BlockNumber = 1, Time = 1, Difficulty = 0x6400\<rparr>"

text \<open>Cryptography that rejects every signature and curve point.\<close>

definition null_crypto :: Crypto where
  "null_crypto =
     \<lparr>ValidateSignatureValues = (\<lambda>_ _ _ _. False), Ecrecover = (\<lambda>_ _. None),
      sha256_Sum256 = (\<lambda>_. replicate 32 0), ripemd160_Sum = (\<lambda>_. replicate 20 0), G1_Unmarshal = (\<lambda>_. None),
      G1_Add = (\<lambda>x _. x), G1_ScalarMult = (\<lambda>x _. x), G1_Marshal = (\<lambda>_. replicate 64 0),
      G2_Unmarshal = (\<lambda>_. None), PairingCheck = (\<lambda>_ _. False)\<rparr>"

definition network_env :: Env where
  "network_env =
     \<lparr>ctx = first_block, chainConfig = genesis_config,
      vmConfig = \<lparr>NoRecursion = False, EnablePreimageRecording = False\<rparr>, crypto = null_crypto,
      cancelled = (\<lambda>_. False)\<rparr>"

lemma network_forks [simp]:
  "IsHomestead (chainConfig network_env) n = (0 \<le> n)"
  "IsEIP158 (chainConfig network_env) n = (0 \<le> n)"
  "\<not> IsEIP150 (chainConfig network_env) n"
  "\<not> IsByzantium (chainConfig network_env) n"
  "\<not> IsConstantinople (chainConfig network_env) n"
  "BlockNumber (ctx network_env) = 1"
  by (simp_all add: network_env_def genesis_config_def first_block_def IsHomestead_def IsEIP158_def IsEIP150_def
      IsByzantium_def IsConstantinople_def isForked_def)

lemma network_table: "JumpTable_for network_env = homesteadInstructionSet"
  by (simp add: JumpTable_for_def)

end
