(* ===== verification/VM_Arith.thy ===== *)
theory VM_Arith
  imports Network "HOL-Library.Signed_Division"
begin

text \<open>
  The arithmetic of the virtual machine.  The instructions compute on big integers which they
  truncate to 256 bits; the specification is modular arithmetic on 256-bit words, signed or unsigned.
  For every arithmetic, comparison and bit instruction the theory shows that the entry of the jump
  table computes the word function of its opcode.
\<close>

section \<open>Specification\<close>

definition truth :: "bool \<Rightarrow> Hash" where
  "truth b = (if b then 1 else 0)"

definition word_SDIV :: "Hash \<Rightarrow> Hash \<Rightarrow> Hash" where
  "word_SDIV a b = word_of_int (sint a sdiv sint b)"

definition word_SMOD :: "Hash \<Rightarrow> Hash \<Rightarrow> Hash" where
  "word_SMOD a b = (if b = 0 then 0 else word_of_int (sint a smod sint b))"

definition word_SIGNEXTEND :: "Hash \<Rightarrow> Hash \<Rightarrow> Hash" where
  "word_SIGNEXTEND k x = (if k < 31 then signed_take_bit (8 * unat k + 7) x else x)"

definition word_BYTE :: "Hash \<Rightarrow> Hash \<Rightarrow> Hash" where
  "word_BYTE k x = (if k < 32 then take_bit 8 (drop_bit (8 * (31 - unat k)) x) else 0)"

definition unops :: "(OpCode \<times> (Hash \<Rightarrow> Hash)) list" where
  "unops = [(ISZERO, \<lambda>a. truth (a = 0)), (NOT, Bit_Operations.not)]"

definition binops :: "(OpCode \<times> (Hash \<Rightarrow> Hash \<Rightarrow> Hash)) list" where
  "binops =
     [(ADD, (+)), (MUL, (*)), (SUB, (-)), (DIV, (div)), (SDIV, word_SDIV), (MOD, \<lambda>a b. if b = 0 then 0 else a mod b),
      (SMOD, word_SMOD), (EXP, \<lambda>a b. a ^ unat b), (SIGNEXTEND, word_SIGNEXTEND),
      (LT, \<lambda>a b. truth (a < b)), (GT, \<lambda>a b. truth (b < a)),
      (SLT, \<lambda>a b. truth (a <s b)), (SGT, \<lambda>a b. truth (b <s a)), (EQ, \<lambda>a b. truth (a = b)),
      (AND, Bit_Operations.and), (OR, Bit_Operations.or), (XOR, Bit_Operations.xor), (BYTE, word_BYTE),
      (SHL, \<lambda>k. push_bit (unat k)), (SHR, \<lambda>k. drop_bit (unat k)), (SAR, \<lambda>k. signed_drop_bit (unat k))]"

definition ternops :: "(OpCode \<times> (Hash \<Rightarrow> Hash \<Rightarrow> Hash \<Rightarrow> Hash)) list" where
  "ternops =
     [(ADDMOD, \<lambda>a b n. if n = 0 then 0 else word_of_int ((uint a + uint b) mod uint n)),
      (MULMOD, \<lambda>a b n. if n = 0 then 0 else word_of_int ((uint a * uint b) mod uint n))]"

section \<open>Running one instruction\<close>

definition computes1 :: "executionFunc \<Rightarrow> (Hash \<Rightarrow> Hash) \<Rightarrow> bool" where
  "computes1 ex g \<longleftrightarrow>
     (\<forall>env ri f a st. ex env ri (on_stack (uint a # st) f) = finish (on_stack (uint (g a) # st) f))"

definition computes2 :: "executionFunc \<Rightarrow> (Hash \<Rightarrow> Hash \<Rightarrow> Hash) \<Rightarrow> bool" where
  "computes2 ex g \<longleftrightarrow>
     (\<forall>env ri f a b st.
        ex env ri (on_stack (uint a # uint b # st) f) = finish (on_stack (uint (g a b) # st) f))"

definition computes3 :: "executionFunc \<Rightarrow> (Hash \<Rightarrow> Hash \<Rightarrow> Hash \<Rightarrow> Hash) \<Rightarrow> bool" where
  "computes3 ex g \<longleftrightarrow>
     (\<forall>env ri f a b c st.
        ex env ri (on_stack (uint a # uint b # uint c # st) f) = finish (on_stack (uint (g a b c) # st) f))"

lemma flag_truth: "flag b = uint (truth b)"
  by (simp add: flag_def truth_def)

lemma opAdd_word: "computes2 opAdd (+)"
  by (simp add: computes2_def opAdd_def U256_word)

lemma opSub_word: "computes2 opSub (-)"
  by (simp add: computes2_def opSub_def U256_word)

lemma opMul_word: "computes2 opMul (*)"
  by (simp add: computes2_def opMul_def U256_word)

lemma opDiv_word: "computes2 opDiv (div)"
  by (auto simp: computes2_def opDiv_def U256_word word_div_def)

lemma opMod_word: "computes2 opMod (\<lambda>a b. if b = 0 then 0 else a mod b)"
  by (auto simp: computes2_def opMod_def U256_word word_mod_def uint_0_iff)

lemma opExp_word: "computes2 opExp (\<lambda>a b. a ^ unat b)"
proof -
  have "math_Exp (uint a) (uint b) = uint (a ^ unat b)" for a b :: Hash
    by (simp only: math_Exp_eq uint_ge_0 U256_mod [symmetric] U256_word of_int_power word_of_int_uint nat_uint_eq)
  then show ?thesis by (simp add: computes2_def opExp_def)
qed

lemma opNot_word: "computes1 opNot Bit_Operations.not"
  by (simp add: computes1_def opNot_def U256_word of_int_not_eq)

lemma opIszero_word: "computes1 opIszero (\<lambda>a. truth (a = 0))"
proof -
  have "uint a > 0 \<longleftrightarrow> a \<noteq> 0" for a :: Hash by (simp add: word_neq_0_conv word_less_def)
  then show ?thesis by (simp add: computes1_def opIszero_def truth_def)
qed

lemma opLt_word: "computes2 opLt (\<lambda>a b. truth (a < b))"
  by (simp add: computes2_def opLt_def flag_truth word_less_def)

lemma opGt_word: "computes2 opGt (\<lambda>a b. truth (b < a))"
  by (simp add: computes2_def opGt_def flag_truth word_less_def)

lemma opEq_word: "computes2 opEq (\<lambda>a b. truth (a = b))"
  by (simp add: computes2_def opEq_def flag_truth word_uint_eq_iff)

lemma sint_cases:
  "sint (a :: Hash) = (if uint a < tt255 then uint a else uint a - tt256)"
  using S256_sint [of a] by (simp add: S256_def)

lemma opSlt_word: "computes2 opSlt (\<lambda>a b. truth (a <s b))"
proof -
  have "(if uint a \<ge> tt255 \<and> uint b < tt255 then 1 else if uint a < tt255 \<and> uint b \<ge> tt255 then 0
      else flag (uint a < uint b)) = uint (truth (a <s b))" for a b :: Hash
    using uint_lt2p [of a] uint_lt2p [of b]
    by (auto simp: word_sless_alt sint_cases truth_def flag_def tt255_def tt256_def;
        insert uint_ge_0 [of a] uint_ge_0 [of b]; linarith)
  then show ?thesis by (simp add: computes2_def opSlt_def)
qed

lemma opSgt_word: "computes2 opSgt (\<lambda>a b. truth (b <s a))"
proof -
  have "(if uint a \<ge> tt255 \<and> uint b < tt255 then 0 else if uint a < tt255 \<and> uint b \<ge> tt255 then 1
      else flag (uint a > uint b)) = uint (truth (b <s a))" for a b :: Hash
    using uint_lt2p [of a] uint_lt2p [of b]
    by (auto simp: word_sless_alt sint_cases truth_def flag_def tt255_def tt256_def;
        insert uint_ge_0 [of a] uint_ge_0 [of b]; linarith)
  then show ?thesis by (simp add: computes2_def opSgt_def)
qed

lemma opAnd_word: "computes2 opAnd Bit_Operations.and"
  by (simp add: computes2_def opAnd_def uint_and)

lemma opOr_word: "computes2 opOr Bit_Operations.or"
  by (simp add: computes2_def opOr_def uint_or)

lemma opXor_word: "computes2 opXor Bit_Operations.xor"
  by (simp add: computes2_def opXor_def uint_xor)

lemma computes2I:
  "(\<And>env ri f a b st. ex env ri (on_stack (uint a # uint b # st) f) = finish (on_stack (uint (g a b) # st) f)) \<Longrightarrow>
     computes2 ex g"
  by (simp add: computes2_def)

lemma opSdiv_word: "computes2 opSdiv word_SDIV"
proof (rule computes2I)
  fix env ri f st and a b :: Hash
  show "opSdiv env ri (on_stack (uint a # uint b # st) f) = finish (on_stack (uint (word_SDIV a b) # st) f)"
  proof (cases "sint b = 0 \<or> sint a = 0")
    case True
    then show ?thesis by (auto simp: opSdiv_def S256_sint word_SDIV_def)
  next
    case False
    let ?q = "if sgn (sint a) \<noteq> sgn (sint b) then - (\<bar>sint a\<bar> div \<bar>sint b\<bar>) else \<bar>sint a\<bar> div \<bar>sint b\<bar>"
    have "U256 ?q = uint (word_SDIV a b)"
      using False by (auto simp: word_SDIV_def U256_word signed_divide_int_def sgn_if)
    moreover have "opSdiv env ri (on_stack (uint a # uint b # st) f) = finish (on_stack (U256 ?q # st) f)"
      using False by (auto simp: opSdiv_def S256_sint)
    ultimately show ?thesis by simp
  qed
qed

lemma opSmod_word: "computes2 opSmod word_SMOD"
proof (rule computes2I)
  fix env ri f st and a b :: Hash
  show "opSmod env ri (on_stack (uint a # uint b # st) f) = finish (on_stack (uint (word_SMOD a b) # st) f)"
  proof (cases "b = 0")
    case True
    then show ?thesis by (simp add: opSmod_def S256_sint word_SMOD_def S256_def tt255_def)
  next
    case False
    let ?r = "if sint a < 0 then - (\<bar>sint a\<bar> mod \<bar>sint b\<bar>) else \<bar>sint a\<bar> mod \<bar>sint b\<bar>"
    have "U256 ?r = uint (word_SMOD a b)"
      using False by (auto simp: word_SMOD_def U256_word signed_modulo_int_def sgn_if)
    moreover have "opSmod env ri (on_stack (uint a # uint b # st) f) = finish (on_stack (U256 ?r # st) f)"
      using False by (simp add: opSmod_def S256_sint Let_def signed_eq_0_iff)
    ultimately show ?thesis by simp
  qed
qed

lemma sign_fill: "(if bit x b then Bit_Operations.or x (Bit_Operations.not (2 ^ b - 1))
    else Bit_Operations.and x (2 ^ b - 1)) = signed_take_bit b (x :: int)"
  by (rule bit_eqI)
     (auto simp: bit_signed_take_bit_iff bit_or_iff bit_and_iff bit_not_iff bit_mask_iff min_def
       simp flip: mask_eq_exp_minus_1)

lemma word_signed_take_bit:
  "word_of_int (signed_take_bit b (uint w)) = signed_take_bit b (w :: Hash)" if "b < 256"
  by (rule bit_word_eqI)
     (use that in \<open>auto simp: bit_signed_take_bit_iff bit_word_of_int_iff bit_uint_iff min_def\<close>)

lemma opSignExtend_word: "computes2 opSignExtend word_SIGNEXTEND"
proof -
  have b: "unat (Uint64 (uint k) * 8 + 7) = 8 * unat k + 7" if "k < 31" for k :: Hash
  proof -
    have k: "unat k < 31" using that by (simp add: word_less_nat_alt)
    have "uint k < 31" using that by (simp add: word_less_def)
    then have "unat (Uint64 (uint k)) = unat k" by (simp add: unat_Uint64)
    then show ?thesis using k by (simp add: unat_word_ariths)
  qed
  have "opSignExtend env ri (on_stack (uint k # uint x # st) f) = finish (on_stack (uint (word_SIGNEXTEND k x) # st) f)"
    for env ri f st and k x :: Hash
  proof (cases "k < 31")
    case True
    then have lt: "uint k < 31" by (simp add: word_less_def)
    have "8 * unat k + 7 < 256" using True by (simp add: word_less_nat_alt)
    then have "U256 (signed_take_bit (8 * unat k + 7) (uint x)) = uint (word_SIGNEXTEND k x)"
      using True by (simp only: word_SIGNEXTEND_def U256_word word_signed_take_bit if_True)
    then show ?thesis
      using lt by (simp add: opSignExtend_def b [OF True] Let_def sign_fill)
  next
    case False
    then have "\<not> uint k < 31" by (simp add: word_less_def)
    then show ?thesis using False by (simp add: opSignExtend_def word_SIGNEXTEND_def)
  qed
  then show ?thesis by (simp add: computes2_def)
qed

lemma opByte_word: "computes2 opByte word_BYTE"
proof (rule computes2I)
  fix env ri f st and k x :: Hash
  show "opByte env ri (on_stack (uint k # uint x # st) f) = finish (on_stack (uint (word_BYTE k x) # st) f)"
  proof (cases "k < 32")
    case True
    then have k: "uint k < 32" by (simp add: word_less_def)
    have i: "Int64 (uint k) = uint k" using k by (intro Int64_small) simp_all
    have n: "nat (31 - uint k) = 31 - unat k" by (simp add: nat_diff_distrib' flip: nat_uint_eq)
    have "uint (byte_at (unat x) j) = int (unat x div 256 ^ j mod 256)" for j
      by (simp add: byte_at_def uint_nat unat_of_nat)
    also have "int (unat x div 256 ^ j mod 256) = uint x div 256 ^ j mod 256" for j
      by (simp add: zmod_int zdiv_int)
    finally have "uint (math_Byte (uint x) 32 (uint k)) = uint x div 256 ^ (31 - unat k) mod 256"
      using k by (simp add: math_Byte_def bigEndianByteAt_eq n)
    also have "\<dots> = uint (word_BYTE k x)"
    proof -
      have "take_bit 8 (drop_bit (8 * j) (uint x)) = uint (take_bit 8 (drop_bit (8 * j) x))" for j
        by (rule bit_eqI) (auto simp: bit_uint_iff bit_drop_bit_eq bit_take_bit_iff dest: bit_imp_le_length)
      moreover have "take_bit 8 (drop_bit (8 * j) (uint x)) = uint x div 256 ^ j mod 256" for j
        by (simp add: take_bit_eq_mod drop_bit_eq_div power_mult)
      ultimately show ?thesis using True by (simp only: word_BYTE_def if_True)
    qed
    finally show ?thesis using k i by (simp add: opByte_def)
  next
    case False
    then have "\<not> uint k < 32" by (simp add: word_less_def)
    then show ?thesis using False by (simp add: opByte_def word_BYTE_def)
  qed
qed

lemma shift_amount:
  "unat (Uint64 (uint k)) = unat k" if "uint (k :: Hash) < 256"
  using that by (simp add: unat_Uint64)

lemma big_shift: "256 \<le> unat k" if "\<not> uint (k :: Hash) < 256"
  using that by (simp add: le_nat_iff not_less flip: nat_uint_eq)

lemma U256_uint [simp]: "U256 (uint (w :: Hash)) = uint w"
  by (simp add: U256_word)

lemma opSHL_word: "computes2 opSHL (\<lambda>k. push_bit (unat k))"
proof (rule computes2I)
  fix env ri f st and k x :: Hash
  have "word_of_int (push_bit n (uint x)) = push_bit n x" for n
    by (simp add: push_bit_eq_mult)
  then show "opSHL env ri (on_stack (uint k # uint x # st) f) = finish (on_stack (uint (push_bit (unat k) x) # st) f)"
    using big_shift [of k] by (cases "uint k < 256") (auto simp: opSHL_def shift_amount U256_word)
qed

lemma opSHR_word: "computes2 opSHR (\<lambda>k. drop_bit (unat k))"
proof (rule computes2I)
  fix env ri f st and k x :: Hash
  have word: "uint (drop_bit n x) = drop_bit n (uint x)" for n
    by (rule bit_eqI) (auto simp: bit_uint_iff bit_drop_bit_eq dest: bit_imp_le_length)
  show "opSHR env ri (on_stack (uint k # uint x # st) f) = finish (on_stack (uint (drop_bit (unat k) x) # st) f)"
    using big_shift [of k] 
    by (cases "uint k < 256") (auto simp: opSHR_def shift_amount simp flip: word)
qed

lemma opSAR_word: "computes2 opSAR (\<lambda>k. signed_drop_bit (unat k))"
proof (rule computes2I)
  fix env ri f st and k x :: Hash
  have w: "word_of_int (drop_bit n (sint x)) = signed_drop_bit n x" for n
    by (simp flip: sint_signed_drop_bit_eq)
  have big: "drop_bit n (sint x) = (if sint x \<ge> 0 then 0 else - 1)" if "256 \<le> n" for n
  proof -
    have "(2 :: int) ^ 255 \<le> 2 ^ n" using that by (intro power_increasing) simp_all
    then have "- (2 ^ n) \<le> sint x" "sint x < 2 ^ n"
      using sint_greater_eq [of x] sint_less [of x] by simp_all
    then show ?thesis by (auto simp: drop_bit_eq_div div_pos_pos_trivial div_eq_minus1 zdiv_eq_0_iff div_int_pos_iff
        intro!: int_div_pos_eq [of _ _ _ "sint x + 2 ^ n"])
  qed
  show "opSAR env ri (on_stack (uint k # uint x # st) f) = finish (on_stack (uint (signed_drop_bit (unat k) x) # st) f)"
    using big [OF big_shift [of k]]
    by (cases "uint k < 256") (auto simp: opSAR_def shift_amount S256_sint U256_word simp flip: w split: if_splits)
qed

lemma word_gt_0_uint: "n \<noteq> 0 \<longleftrightarrow> 0 < uint (n :: Hash)"
  using uint_ge_0 [of n] uint_0_iff [of n] by linarith

lemma opAddmod_word:
  "computes3 opAddmod (\<lambda>a b n. if n = 0 then 0 else word_of_int ((uint a + uint b) mod uint n))"
  by (auto simp: computes3_def opAddmod_def U256_word simp flip: word_gt_0_uint)

lemma opMulmod_word:
  "computes3 opMulmod (\<lambda>a b n. if n = 0 then 0 else word_of_int ((uint a * uint b) mod uint n))"
  by (auto simp: computes3_def opMulmod_def U256_word simp flip: word_gt_0_uint)

lemmas word_ops =
  opAdd_word opMul_word opSub_word opDiv_word opSdiv_word opMod_word opSmod_word opExp_word opSignExtend_word
  opLt_word opGt_word opSlt_word opSgt_word opEq_word opAnd_word opOr_word opXor_word opByte_word
  opSHL_word opSHR_word opSAR_word opNot_word opIszero_word opAddmod_word opMulmod_word

section \<open>The entries of the jump table\<close>

text \<open>An opcode either has the entry that is wanted, or none at all.\<close>

definition entry_ok :: "(operation \<Rightarrow> bool) \<Rightarrow> JumpTable \<Rightarrow> OpCode \<Rightarrow> bool" where
  "entry_ok P jt op \<longleftrightarrow> (case map_of jt op of None \<Rightarrow> True | Some o' \<Rightarrow> P o')"

lemma entry_ok_append: "entry_ok P xs op \<Longrightarrow> entry_ok P ys op \<Longrightarrow> entry_ok P (xs @ ys) op"
  by (auto simp: entry_ok_def map_add_def split: option.splits)

lemma entry_ok_lookup: "entry_ok P jt op \<Longrightarrow> valid (lookup_op jt op) \<Longrightarrow> P (lookup_op jt op)"
  by (auto simp: entry_ok_def lookup_op_def zero_operation_def split: option.splits)

lemma entry_ok_Cons: "entry_ok P ((k, o') # jt) op \<longleftrightarrow> (if op = k then P o' else entry_ok P jt op)"
  by (simp add: entry_ok_def)

lemma entry_ok_Nil: "entry_ok P [] op"
  by (simp add: entry_ok_def)

lemmas entry_ok_simps = entry_ok_Cons entry_ok_Nil opcode_defs mk_operation_def word_ops
lemmas instruction_sets =
  constantinopleInstructionSet_def byzantiumInstructionSet_def homesteadInstructionSet_def frontierInstructionSet_def

text \<open>The same statement for every table and for lists of expected functions.\<close>

definition table_ok :: "(operation \<Rightarrow> 'a \<Rightarrow> bool) \<Rightarrow> (OpCode \<times> 'a) list \<Rightarrow> JumpTable \<Rightarrow> bool" where
  "table_ok P gs jt \<longleftrightarrow> list_all (\<lambda>(op, g). entry_ok (\<lambda>o'. P o' g) jt op) gs"

lemma table_ok_append: "table_ok P gs xs \<Longrightarrow> table_ok P gs ys \<Longrightarrow> table_ok P gs (xs @ ys)"
  by (auto simp: table_ok_def list_all_iff intro!: entry_ok_append)

lemma table_ok_all:
  assumes "table_ok P gs frontier_arithmetic" "table_ok P gs frontier_environment"
    "table_ok P gs frontier_storage_push" "table_ok P gs frontier_push_dup" "table_ok P gs frontier_dup_swap"
    "table_ok P gs frontier_log_system"
    "table_ok P gs (take 1 homesteadInstructionSet)" "table_ok P gs (take 4 byzantiumInstructionSet)"
    "table_ok P gs (take 5 constantinopleInstructionSet)"
  shows "table_ok P gs (JumpTable_for env)"
proof -
  have f: "table_ok P gs frontierInstructionSet"
    unfolding frontierInstructionSet_def using assms(1-6) by (intro table_ok_append)
  have "homesteadInstructionSet = take 1 homesteadInstructionSet @ frontierInstructionSet"
    by (simp add: homesteadInstructionSet_def)
  with f assms(7) have h: "table_ok P gs homesteadInstructionSet" by (metis table_ok_append)
  have "byzantiumInstructionSet = take 4 byzantiumInstructionSet @ homesteadInstructionSet"
    by (simp add: byzantiumInstructionSet_def)
  with h assms(8) have b: "table_ok P gs byzantiumInstructionSet" by (metis table_ok_append)
  have "constantinopleInstructionSet = take 5 constantinopleInstructionSet @ byzantiumInstructionSet"
    by (simp add: constantinopleInstructionSet_def)
  with b assms(9) have "table_ok P gs constantinopleInstructionSet" by (metis table_ok_append)
  with f h b show ?thesis by (simp add: JumpTable_for_def)
qed

lemma table_ok_lookup:
  "table_ok P gs jt \<Longrightarrow> (op, g) \<in> set gs \<Longrightarrow> valid (lookup_op jt op) \<Longrightarrow> P (lookup_op jt op) g"
  using entry_ok_lookup [of "\<lambda>o'. P o' g" jt op] by (auto simp: table_ok_def list_all_iff)

lemmas table_groups =
  frontier_arithmetic_def frontier_environment_def frontier_storage_push_def frontier_push_dup_def
  frontier_dup_swap_def frontier_log_system_def

lemma binops_table: "table_ok (\<lambda>o'. computes2 (execute o')) binops (JumpTable_for env)"
  by (rule table_ok_all; unfold table_ok_def binops_def table_groups;
      simp add: entry_ok_simps homesteadInstructionSet_def byzantiumInstructionSet_def constantinopleInstructionSet_def)

lemma unops_table: "table_ok (\<lambda>o'. computes1 (execute o')) unops (JumpTable_for env)"
  by (rule table_ok_all; unfold table_ok_def unops_def table_groups;
      simp add: entry_ok_simps homesteadInstructionSet_def byzantiumInstructionSet_def constantinopleInstructionSet_def)

lemma ternops_table: "table_ok (\<lambda>o'. computes3 (execute o')) ternops (JumpTable_for env)"
  by (rule table_ok_all; unfold table_ok_def ternops_def table_groups;
      simp add: entry_ok_simps homesteadInstructionSet_def byzantiumInstructionSet_def constantinopleInstructionSet_def)

text \<open>
  C6.  The binary instructions compute on 256-bit words.  On any table of any fork, an arithmetic,
  comparison or bit instruction that the table has takes the two operands from the top of the stack and
  leaves the result of the word function of its opcode (wrap-around addition, multiplication, subtraction
  and exponentiation, unsigned and signed division and remainder with result 0 for the divisor 0, sign
  extension, signed and unsigned comparison, bitwise logic, byte extraction and the three shifts), and
  changes nothing else.
\<close>

theorem binary_instructions_word:
  assumes "(op, g) \<in> set binops" and "valid (lookup_op (JumpTable_for env) op)"
  shows "execute (lookup_op (JumpTable_for env) op) env ri (on_stack (uint a # uint b # st) f) =
         Some ([], None, on_stack (uint (g a b) # st) f)"
  using table_ok_lookup [OF binops_table assms] by (simp add: computes2_def finish_def)

lemma network_lookup_SUB: "lookup_op (JumpTable_for network_env) SUB = mk_operation opSub (constGasFunc GasFastestStep) (makeStackFunc 2 1)"
  by (simp add: network_table homesteadInstructionSet_def frontierInstructionSet_def frontier_arithmetic_def lookup_op_def opcode_defs map_add_def)

theorem binary_instructions_word_witness:
  "\<forall>ri f. execute (lookup_op (JumpTable_for network_env) SUB) network_env ri (on_stack [uint (3 :: Hash), uint (5 :: Hash)] f) =
     Some ([], None, on_stack [2 ^ 256 - 2] f)"
proof (intro allI)
  fix ri f
  have "(SUB, (-)) \<in> set binops" by (simp add: binops_def)
  moreover have "valid (lookup_op (JumpTable_for network_env) SUB)"
    by (simp add: network_lookup_SUB mk_operation_def)
  ultimately show "execute (lookup_op (JumpTable_for network_env) SUB) network_env ri
      (on_stack [uint (3 :: Hash), uint (5 :: Hash)] f) = Some ([], None, on_stack [2 ^ 256 - 2] f)"
    using binary_instructions_word [of SUB "(-)" network_env ri 3 5 "[]" f] by simp
qed

text \<open>
  C35.  The unary and ternary instructions compute on 256-bit words too: NOT, ISZERO, and ADDMOD and MULMOD,
  whose intermediate sum and product are not truncated.
\<close>

theorem modular_instructions_word:
  "(\<forall>(op, g) \<in> set unops. valid (lookup_op (JumpTable_for env) op) \<longrightarrow>
      execute (lookup_op (JumpTable_for env) op) env ri (on_stack (uint a # st) f) =
        Some ([], None, on_stack (uint (g a) # st) f)) \<and>
   (\<forall>(op, g) \<in> set ternops. valid (lookup_op (JumpTable_for env) op) \<longrightarrow>
      execute (lookup_op (JumpTable_for env) op) env ri (on_stack (uint a # uint b # uint n # st) f) =
        Some ([], None, on_stack (uint (g a b n) # st) f))"
  using table_ok_lookup [OF unops_table] table_ok_lookup [OF ternops_table]
  by (auto simp: computes1_def computes3_def finish_def)

lemma network_lookup_ADDMOD:
  "lookup_op (JumpTable_for network_env) ADDMOD = mk_operation opAddmod (constGasFunc GasMidStep) (makeStackFunc 3 1)"
  by (simp add: network_table homesteadInstructionSet_def frontierInstructionSet_def frontier_arithmetic_def
      lookup_op_def opcode_defs map_add_def)

theorem modular_instructions_word_witness:
  "\<forall>ri f. execute (lookup_op (JumpTable_for network_env) ADDMOD) network_env ri
     (on_stack [uint (- 1 :: Hash), uint (2 :: Hash), uint (7 :: Hash)] f) = Some ([], None, on_stack [3] f)"
proof (intro allI)
  fix ri f
  have "valid (lookup_op (JumpTable_for network_env) ADDMOD)"
    by (simp add: network_lookup_ADDMOD mk_operation_def)
  moreover have "uint (- 1 :: Hash) = 2 ^ 256 - 1" by (simp add: unsigned_minus_1_eq_mask mask_eq_exp_minus_1)
  ultimately show "execute (lookup_op (JumpTable_for network_env) ADDMOD) network_env ri
     (on_stack [uint (- 1 :: Hash), uint (2 :: Hash), uint (7 :: Hash)] f) = Some ([], None, on_stack [3] f)"
    using modular_instructions_word [of network_env ri "- 1" "[]" f 2 7] by (auto simp: ternops_def)
qed

end
