(* ===== verification/Rlp_Spec.thy ===== *)
theory Rlp_Spec
  imports Rlp_Encode
begin

text \<open>
  The RLP encoding as the recursive function of the specification, and the proof that the single-pass
  encoder with its separate list of headers produces it: the sizes it records while writing are those of
  the encoded lists, the buffer that \<^verbatim>\<open>toBytes\<close> allocates has exactly the right length, and merging never
  writes outside of it.
\<close>

section \<open>Specification\<close>

definition rlp_head :: "byte \<Rightarrow> byte \<Rightarrow> nat \<Rightarrow> bytes" where
  "rlp_head small large n =
     (if n < 56 then [small + of_nat n]
      else (large + of_nat (length (bytes_of_nat n))) # bytes_of_nat n)"

definition rlp_string :: "bytes \<Rightarrow> bytes" where
  "rlp_string b = (if length b = 1 \<and> hd b < 0x80 then b else rlp_head 0x80 0xB7 (length b) @ b)"

fun rlp_spec :: "rlp_val \<Rightarrow> bytes" where
  "rlp_spec (RUint i) = rlp_string (bytes_of_nat (unat i))"
| "rlp_spec (RBool b) = rlp_string (if b then [1] else [])"
| "rlp_spec (RBig None) = rlp_string []"
| "rlp_spec (RBig (Some i)) = rlp_string (bytes_of_nat (nat i))"
| "rlp_spec (RBytes b) = rlp_string b"
| "rlp_spec (RRaw b) = b"
| "rlp_spec RNilInterface = rlp_head 0xC0 0xF7 0"
| "rlp_spec (RList vs) = (let p = concat (map rlp_spec vs) in rlp_head 0xC0 0xF7 (length p) @ p)"

fun encodable :: "rlp_val \<Rightarrow> bool" where
  "encodable (RBig (Some i)) = (0 \<le> i)"
| "encodable (RList vs) = list_all encodable vs"
| "encodable _ = True"

section \<open>Integers\<close>

lemma bytes_of_nat_Suc: "n \<noteq> 0 \<Longrightarrow> bytes_of_nat n = bytes_of_nat (n div 256) @ [of_nat n]"
proof -
  assume "n \<noteq> 0"
  moreover have "of_nat (n mod 256) = (of_nat n :: byte)"
    by (simp add: word_unat_eq_iff unat_of_nat)
  ultimately show ?thesis by (simp add: bytes_of_nat.simps [of n])
qed

lemma bytes_of_nat_0 [simp]: "bytes_of_nat 0 = []"
  by (simp add: bytes_of_nat.simps)

lemma word_bytes_of_nat:
  "256 ^ k \<le> unat (w :: uint64) \<Longrightarrow> unat w < 256 ^ Suc k \<Longrightarrow> word_bytes (Suc k) w = bytes_of_nat (unat w)"
proof (induction k arbitrary: w)
  case 0
  then show ?case
    by (simp add: word_bytes_Suc bytes_of_nat_Suc word_bytes_def)
next
  case (Suc k)
  have d: "unat (drop_bit 8 w) = unat w div 256" by (subst unat_drop_bit_eq) (simp add: drop_bit_eq_div)
  have "256 ^ k \<le> unat (drop_bit 8 w)" using div_le_mono [OF Suc.prems(1), of 256] by (simp add: d)
  moreover have "unat (drop_bit 8 w) < 256 ^ Suc k"
    using Suc.prems(2) by (simp add: d div_less_iff_less_mult)
  ultimately have IH: "word_bytes (Suc k) (drop_bit 8 w) = bytes_of_nat (unat w div 256)"
    using Suc.IH d by simp
  have "unat w \<noteq> 0" using Suc.prems(1) by (metis not_le zero_less_numeral zero_less_power)
  then show ?case
    by (simp add: word_bytes_Suc [of "Suc k"] IH bytes_of_nat_Suc [of "unat w"])
qed

lemma word_bytes_of_nat':
  "0 < k \<Longrightarrow> \<not> unat (w :: uint64) < 256 ^ (k - 1) \<Longrightarrow> unat w < 256 ^ k \<Longrightarrow> word_bytes k w = bytes_of_nat (unat w)"
  using word_bytes_of_nat [of "k - 1" w] by (cases k) (simp_all add: not_less)

lemma putint_eq: "i \<noteq> 0 \<Longrightarrow> putint i = bytes_of_nat (unat i)"
proof -
  assume "i \<noteq> 0"
  then have 0: "\<not> unat i < 256 ^ 0" by (simp add: unat_eq_zero)
  have L: "i < 2 ^ 8 \<longleftrightarrow> unat i < 256 ^ 1" "i < 2 ^ 16 \<longleftrightarrow> unat i < 256 ^ 2" "i < 2 ^ 24 \<longleftrightarrow> unat i < 256 ^ 3"
    "i < 2 ^ 32 \<longleftrightarrow> unat i < 256 ^ 4" "i < 2 ^ 40 \<longleftrightarrow> unat i < 256 ^ 5" "i < 2 ^ 48 \<longleftrightarrow> unat i < 256 ^ 6"
    "i < 2 ^ 56 \<longleftrightarrow> unat i < 256 ^ 7"
    by (simp_all add: word_less_nat_alt)
  have 8: "unat i < 256 ^ 8" using unsigned_less [of i, where ?'a = nat] by simp
  note W = word_bytes_of_nat' [of 1 i] word_bytes_of_nat' [of 2 i] word_bytes_of_nat' [of 3 i] word_bytes_of_nat' [of 4 i]
    word_bytes_of_nat' [of 5 i] word_bytes_of_nat' [of 6 i] word_bytes_of_nat' [of 7 i] word_bytes_of_nat' [of 8 i]
  show ?thesis unfolding putint_def L using 0 8 W by simp
qed

lemma intsize_loop_eq: "i \<noteq> 0 \<Longrightarrow> intsize_loop sz i + 1 = sz + length (bytes_of_nat (unat i))"
proof (induction sz i rule: intsize_loop.induct)
  case (1 sz i)
  have d: "unat (drop_bit 8 i) = unat i div 256" by (subst unat_drop_bit_eq) (simp add: drop_bit_eq_div)
  have n: "unat i \<noteq> 0" using "1.prems" by (simp add: unat_eq_zero)
  show ?case
  proof (cases "drop_bit 8 i = 0")
    case True
    then have "unat i div 256 = 0" using d by simp
    then show ?thesis using True n by (simp add: intsize_loop.simps [of sz i] bytes_of_nat_Suc [of "unat i"])
  next
    case False
    then show ?thesis
      using "1.IH" [OF refl False False] n d
      by (simp add: intsize_loop.simps [of sz i] bytes_of_nat_Suc [of "unat i"] Let_def)
  qed
qed

lemma intsize_eq: "i \<noteq> 0 \<Longrightarrow> intsize i = length (bytes_of_nat (unat i))"
  using intsize_loop_eq [of i 1] by (simp add: intsize_def)

lemma rlp_head_puthead: "n < 2 ^ 64 \<Longrightarrow> puthead small large (of_nat n) = rlp_head small large n"
proof -
  assume n: "n < 2 ^ 64"
  then have u: "unat (of_nat n :: uint64) = n" by (rule unat_of_nat_small)
  then have lt: "(of_nat n :: uint64) < 56 \<longleftrightarrow> n < 56" by (simp add: word_less_nat_alt)
  have nz: "\<not> n < 56 \<Longrightarrow> (of_nat n :: uint64) \<noteq> 0" using u by (metis unat_0 zero_less_numeral)
  have "ucast (of_nat n :: uint64) = (of_nat n :: byte)" by (metis of_nat_unat u)
  then show ?thesis
    using nz by (auto simp: puthead_def rlp_head_def lt putint_eq u Let_def)
qed

lemma length_rlp_head:
  "n < 2 ^ 64 \<Longrightarrow> length (rlp_head small large n) = (if n < 56 then 1 else 1 + intsize (of_nat n))"
proof -
  assume n: "n < 2 ^ 64"
  then have u: "unat (of_nat n :: uint64) = n" by (rule unat_of_nat_small)
  then have "\<not> n < 56 \<Longrightarrow> (of_nat n :: uint64) \<noteq> 0" by (metis unat_0 zero_less_numeral)
  then show ?thesis using u by (simp add: rlp_head_def intsize_eq)
qed

section \<open>Merging string data and list headers\<close>

text \<open>
  \<open>merge b S hs\<close> inserts the headers into the string data \<open>S\<close>, which starts at position \<open>b\<close> of the buffer.
\<close>

fun merge :: "nat \<Rightarrow> bytes \<Rightarrow> listhead list \<Rightarrow> bytes" where
  "merge b S [] = S"
| "merge b S (h # hs) =
     take (lh_offset h - b) S @ listhead_encode h @ merge (lh_offset h) (drop (lh_offset h - b) S) hs"

lemma merge_append:
  "sorted (b # map lh_offset H1 @ [b + length S1]) \<Longrightarrow> \<forall>h \<in> set H2. b + length S1 \<le> lh_offset h \<Longrightarrow>
     merge b (S1 @ S2) (H1 @ H2) = merge b S1 H1 @ merge (b + length S1) S2 H2"
proof (induction H1 arbitrary: b S1)
  case Nil
  then show ?case by (cases H2) auto
next
  case (Cons h H1)
  let ?k = "lh_offset h - b"
  have k: "b \<le> lh_offset h" "?k \<le> length S1" using Cons.prems(1) by auto
  then have e: "lh_offset h + length (drop ?k S1) = b + length S1" by simp
  have "merge (lh_offset h) (drop ?k S1 @ S2) (H1 @ H2) =
      merge (lh_offset h) (drop ?k S1) H1 @ merge (b + length S1) S2 H2"
    using Cons.IH [of "lh_offset h" "drop ?k S1"] Cons.prems unfolding e by simp
  then show ?case using k by simp
qed

text \<open>Writing the encoding \<open>out\<close> into a buffer.\<close>

definition writes :: "encbuf \<Rightarrow> encbuf \<Rightarrow> bytes \<Rightarrow> bool" where
  "writes w w' out \<longleftrightarrow>
     (\<exists>S H. str w' = str w @ S \<and> lheads w' = lheads w @ H \<and>
        lhsize w' + length S = lhsize w + length out \<and>
        sorted (length (str w) # map lh_offset H @ [length (str w')]) \<and>
        merge (length (str w)) S H = out)"

lemma writes_refl [simp]: "writes w w []"
  by (auto simp: writes_def intro!: exI [of _ "[]"])

lemma writes_str: "writes w (w\<lparr>str := str w @ b\<rparr>) b"
  by (auto simp: writes_def intro!: exI [of _ b] exI [of _ "[]"])

lemma writes_trans:
  assumes "writes w w1 out" "writes w1 w2 out'"
  shows "writes w w2 (out @ out')"
proof -
  obtain S H where 1: "str w1 = str w @ S" "lheads w1 = lheads w @ H"
    "lhsize w1 + length S = lhsize w + length out"
    "sorted (length (str w) # map lh_offset H @ [length (str w1)])" "merge (length (str w)) S H = out"
    using assms(1) unfolding writes_def by blast
  obtain S' H' where 2: "str w2 = str w1 @ S'" "lheads w2 = lheads w1 @ H'"
    "lhsize w2 + length S' = lhsize w1 + length out'"
    "sorted (length (str w1) # map lh_offset H' @ [length (str w2)])" "merge (length (str w1)) S' H' = out'"
    using assms(2) unfolding writes_def by blast
  have "merge (length (str w)) (S @ S') (H @ H') = out @ out'"
    using 1 2 by (subst merge_append) auto
  moreover have "sorted (length (str w) # map lh_offset (H @ H') @ [length (str w2)])"
    using 1(4) 2(4) by (auto simp: sorted_append) (meson order_trans)
  ultimately show ?thesis
    unfolding writes_def using 1 2 by (intro exI [of _ "S @ S'"] exI [of _ "H @ H'"]) simp
qed

lemma writes_list:
  assumes w: "writes (snd (encbuf_list w)) w1 p" and p: "length p < 2 ^ 64"
  shows "writes w (encbuf_listEnd (fst (encbuf_list w)) w1) (rlp_head 0xC0 0xF7 (length p) @ p)"
proof -
  define h0 where "h0 = \<lparr>lh_offset = length (str w), lh_size = int (lhsize w)\<rparr>"
  have l: "snd (encbuf_list w) = w\<lparr>lheads := lheads w @ [h0]\<rparr>" by (simp add: encbuf_list_def h0_def)
  obtain S H where "str w1 = str (snd (encbuf_list w)) @ S" "lheads w1 = lheads (snd (encbuf_list w)) @ H"
    "lhsize w1 + length S = lhsize (snd (encbuf_list w)) + length p"
    "sorted (length (str (snd (encbuf_list w))) # map lh_offset H @ [length (str w1)])"
    "merge (length (str (snd (encbuf_list w)))) S H = p"
    using w unfolding writes_def by blast
  then have 1: "str w1 = str w @ S" "lheads w1 = lheads w @ h0 # H"
    "lhsize w1 + length S = lhsize w + length p"
    "sorted (length (str w) # map lh_offset H @ [length (str w1)])" "merge (length (str w)) S H = p"
    by (simp_all add: l)
  define h where "h = h0\<lparr>lh_size := int (length p)\<rparr>"
  have sz: "int (encbuf_size w1) - int (lh_offset h0) - lh_size h0 = int (length p)"
    using 1(1,3) by (simp add: encbuf_size_def h0_def)
  let ?w = "encbuf_listEnd (fst (encbuf_list w)) w1"
  have w': "str ?w = str w1" "lheads ?w = lheads w @ h # H"
    "lhsize ?w = lhsize w1 + length (rlp_head 0xC0 0xF7 (length p))"
    using 1(2) sz p by (simp_all add: encbuf_listEnd_def encbuf_list_def h_def Let_def length_rlp_head)
  have "listhead_encode h = rlp_head 0xC0 0xF7 (length p)"
    using rlp_head_puthead [OF p] by (simp add: listhead_encode_def h_def)
  then have "merge (length (str w)) S (h # H) = rlp_head 0xC0 0xF7 (length p) @ p"
    using 1(5) by (simp add: h_def h0_def)
  moreover have "sorted (length (str w) # map lh_offset (h # H) @ [length (str ?w)])"
    using 1(4) w'(1) by (simp add: h_def h0_def)
  ultimately show ?thesis
    unfolding writes_def using 1 w' by (intro exI [of _ S] exI [of _ "h # H"]) simp
qed

section \<open>Writers\<close>

lemma encodeStringHeader_eq:
  "n < 2 ^ 64 \<Longrightarrow> encodeStringHeader n w = w\<lparr>str := str w @ rlp_head 0x80 0xB7 n\<rparr>"
proof -
  assume n: "n < 2 ^ 64"
  then have u: "unat (of_nat n :: uint64) = n" by (rule unat_of_nat_small)
  then have "\<not> n < 56 \<Longrightarrow> (of_nat n :: uint64) \<noteq> 0" by (metis unat_0 zero_less_numeral)
  then show ?thesis by (simp add: encodeStringHeader_def rlp_head_def putint_eq u Let_def)
qed

lemma byte_le_7F: "(b :: byte) \<le> 0x7F \<longleftrightarrow> b < 0x80"
  by (auto simp: word_le_nat_alt word_less_nat_alt)

lemma encodeString_eq:
  "length b < 2 ^ 64 \<Longrightarrow> encodeString b w = w\<lparr>str := str w @ rlp_string b\<rparr>"
  by (cases b) (auto simp: encodeString_def rlp_string_def encodeStringHeader_eq byte_le_7F Let_def)

lemma length_bytes_uint64: "length (bytes_of_nat (unat (i :: uint64))) \<le> 8"
  using unsigned_less [of i, where ?'a = nat] by (intro length_bytes_of_nat) simp

lemma bytes_of_nat_small: "0 < n \<Longrightarrow> n < 256 \<Longrightarrow> bytes_of_nat n = [of_nat n]"
  by (simp add: bytes_of_nat_Suc)

lemma writeUint_eq: "writeUint i w = w\<lparr>str := str w @ rlp_string (bytes_of_nat (unat i))\<rparr>"
proof -
  consider (zero) "i = 0" | (small) "i \<noteq> 0" "unat i < 128" | (large) "128 \<le> unat i"
    by (cases "i = 0"; cases "unat i < 128") auto
  then show ?thesis
  proof cases
    case zero
    then show ?thesis by (simp add: writeUint_def rlp_string_def rlp_head_def)
  next
    case small
    then have "i < 128" "0 < unat i" by (simp_all add: word_less_nat_alt unat_gt_0)
    moreover have "(ucast i :: byte) < 0x80" using small by (simp add: word_less_nat_alt unsigned_ucast_eq take_bit_eq_mod)
    ultimately show ?thesis using small by (simp add: writeUint_def rlp_string_def bytes_of_nat_small)
  next
    case large
    then have i: "i \<noteq> 0" "\<not> i < 128" by (auto simp: word_less_nat_alt)
    have len: "length (bytes_of_nat (unat i)) < 56" using length_bytes_uint64 [of i] by simp
    have "\<not> (length (bytes_of_nat (unat i)) = 1 \<and> hd (bytes_of_nat (unat i)) < 0x80)"
    proof
      assume l: "length (bytes_of_nat (unat i)) = 1 \<and> hd (bytes_of_nat (unat i)) < 0x80"
      then have "bytes_of_nat (unat i div 256) = []"
        using i by (simp add: bytes_of_nat_Suc [of "unat i"] unat_eq_zero)
      then have "unat i div 256 = 0" by (metis SetBytes_Nil SetBytes_bytes_of_nat of_nat_eq_0_iff)
      then have "unat i < 256" by (simp add: div_eq_0_iff)
      then have "\<not> hd (bytes_of_nat (unat i)) < 0x80"
        using large by (simp add: bytes_of_nat_small word_less_nat_alt unsigned_ucast_eq take_bit_eq_mod)
      with l show False by simp
    qed
    then show ?thesis using i len by (simp add: writeUint_def rlp_string_def rlp_head_def putint_eq Let_def)
  qed
qed

lemma write_val_writes:
  "encodable v \<Longrightarrow> length (rlp_spec v) < 2 ^ 64 \<Longrightarrow> \<exists>w'. write_val v w = Inr w' \<and> writes w w' (rlp_spec v)"
  "list_all encodable vs \<Longrightarrow> length (concat (map rlp_spec vs)) < 2 ^ 64 \<Longrightarrow>
     \<exists>w'. write_vals vs w = Inr w' \<and> writes w w' (concat (map rlp_spec vs))"
proof (induction v w and vs w rule: write_val_write_vals.induct)
  case (3 p w)
  have l: "length (bytes_of_nat (nat i)) < 2 ^ 64" if "p = Some i" "0 < i" for i
    using "3.prems"(2) that by (auto simp: rlp_string_def split: if_splits)
  show ?case
  proof (cases p)
    case None
    then show ?thesis using writes_str by (simp add: writeBigIntPtr_def rlp_string_def rlp_head_def)
  next
    case (Some i)
    then show ?thesis
      using "3.prems"(1) l [of i] writes_str
      by (cases "i = 0") (auto simp: writeBigIntPtr_def writeBigInt_def encodeString_eq big_Bytes_def rlp_string_def rlp_head_def)
  qed
next
  case (4 b w)
  then have "length b < 2 ^ 64" by (auto simp: rlp_string_def split: if_splits)
  then show ?case using writes_str by (simp add: encodeString_eq)
next
  case (7 vs w)
  let ?p = "concat (map rlp_spec vs)"
  have p: "length ?p < 2 ^ 64" using "7.prems"(2) by (simp add: Let_def)
  obtain w1 where "write_vals vs (snd (encbuf_list w)) = Inr w1" "writes (snd (encbuf_list w)) w1 ?p"
    using "7.IH" [OF refl prod.collapse] "7.prems"(1) p by (auto simp del: length_concat)
  then show ?case using writes_list [OF _ p] by (auto simp: Let_def case_prod_beta)
next
  case (9 v vs w)
  obtain w1 where w1: "write_val v w = Inr w1" "writes w w1 (rlp_spec v)"
    using "9.IH"(1) "9.prems" by auto
  then obtain w2 where "write_vals vs w1 = Inr w2" "writes w1 w2 (concat (map rlp_spec vs))"
    using "9.IH"(2) [OF w1(1)] "9.prems" by auto
  then show ?case using w1 writes_trans by auto
qed (auto simp: writeUint_eq writeBool_def encbuf_Write_def rlp_string_def rlp_head_def intro: writes_str)

lemma encodable_Inr:
  "encodable v \<Longrightarrow> \<exists>w'. write_val v w = Inr w'"
  "list_all encodable vs \<Longrightarrow> \<exists>w'. write_vals vs w = Inr w'"
proof (induction v w and vs w rule: write_val_write_vals.induct)
  case (3 p w)
  then show ?case by (cases p) (auto simp: writeBigIntPtr_def writeBigInt_def)
next
  case (7 vs w)
  then show ?case using "7.IH" [OF refl prod.collapse] by (fastforce simp: Let_def case_prod_beta)
qed fastforce+

lemma write_val_negative:
  "\<not> encodable v \<Longrightarrow> write_val v w = Inl NegativeBigInt"
  "\<not> list_all encodable vs \<Longrightarrow> write_vals vs w = Inl NegativeBigInt"
proof (induction v w and vs w rule: write_val_write_vals.induct)
  case (3 p w)
  then show ?case by (cases p) (auto simp: writeBigIntPtr_def writeBigInt_def)
next
  case (7 vs w)
  then show ?case using "7.IH" [OF refl prod.collapse] by (simp add: Let_def case_prod_beta)
next
  case (9 v vs w)
  show ?case
  proof (cases "write_val v w")
    case (Inl e)
    then show ?thesis using 9 encodable_Inr(1) [of v w] by (cases "encodable v") auto
  qed (use 9 in auto)
qed auto

section \<open>Merging into the output buffer\<close>

lemma copy_at_prefix:
  "pos + length piece \<le> length out \<Longrightarrow> take (pos + length piece) (copy_at out pos piece) = take pos out @ piece"
  by (simp add: copy_at_def)

lemma toBytes_loop_merge:
  "sorted (strpos # map lh_offset heads @ [length s]) \<Longrightarrow>
   length out = pos + length (merge strpos (drop strpos s) heads) \<Longrightarrow>
     toBytes_loop out pos s strpos heads = Some (take pos out @ merge strpos (drop strpos s) heads)"
proof (induction heads arbitrary: out pos strpos)
  case Nil
  then show ?case by (auto simp: slice_def copy_at_def)
next
  case (Cons h hs)
  let ?piece = "take (lh_offset h - strpos) (drop strpos s)" and ?enc = "listhead_encode h"
  have o: "strpos \<le> lh_offset h" "lh_offset h \<le> length s" using Cons.prems(1) by auto
  then have lp: "length ?piece = lh_offset h - strpos" by simp
  let ?out = "copy_at (copy_at out pos ?piece) (pos + length ?piece) ?enc"
  have m: "length out = pos + length ?piece + length ?enc + length (merge (lh_offset h) (drop (lh_offset h) s) hs)"
    using Cons.prems(2) o by simp
  have lo: "length (copy_at out pos ?piece) = length out" using m by (intro length_copy_at) simp
  have lo': "length ?out = length out" using m lo by (subst length_copy_at) simp_all
  have IH: "toBytes_loop ?out (pos + length ?piece + length ?enc) s (lh_offset h) hs =
      Some (take (pos + length ?piece + length ?enc) ?out @ merge (lh_offset h) (drop (lh_offset h) s) hs)"
    using Cons.prems(1) m lo' by (intro Cons.IH) simp_all
  have "take (pos + length ?piece + length ?enc) ?out = take (pos + length ?piece) (copy_at out pos ?piece) @ ?enc"
    using m lo by (intro copy_at_prefix) simp
  also have "\<dots> = take pos out @ ?piece @ ?enc" using m by (subst copy_at_prefix) simp_all
  finally have t: "take (pos + length ?piece + length ?enc) ?out = take pos out @ ?piece @ ?enc" .
  have "toBytes_loop out pos s strpos (h # hs) =
      toBytes_loop ?out (pos + length ?piece + length ?enc) s (lh_offset h) hs"
  proof -
    have "slice s strpos (lh_offset h) = Some ?piece" using o by (simp add: slice_def)
    moreover have "min (length out - pos) (length ?piece) = length ?piece" using m by simp
    moreover have "\<not> pos > length out" "\<not> pos + length ?piece + length ?enc > length (copy_at out pos ?piece)"
      using m unfolding lo by linarith+
    moreover have "strpos + length ?piece = lh_offset h" using o lp by simp
    ultimately show ?thesis by (simp only: toBytes_loop.simps Option.bind.simps Let_def if_False)
  qed
  then show ?case unfolding IH t using o by simp
qed

lemma EncodeToBytes_eq:
  assumes "length (rlp_spec v) < 2 ^ 63"
  shows "EncodeToBytes v = Some (if encodable v then Inr (rlp_spec v) else Inl NegativeBigInt)"
proof (cases "encodable v")
  case True
  have "length (rlp_spec v) < 2 ^ 64" using assms by simp
  from write_val_writes(1) [OF True this] obtain w where
    w: "write_val v encbuf_reset = Inr w" "writes encbuf_reset w (rlp_spec v)" by blast
  then have "sorted (0 # map lh_offset (lheads w) @ [length (str w)])" "merge 0 (str w) (lheads w) = rlp_spec v"
    "encbuf_size w = length (rlp_spec v)"
    by (auto simp: writes_def encbuf_reset_def encbuf_size_def)
  then have "encbuf_toBytes w = Some (rlp_spec v)"
    using toBytes_loop_merge [of 0 "lheads w" "str w" "replicate (encbuf_size w) 0" 0] by (simp add: encbuf_toBytes_def)
  then show ?thesis using True w(1) by (simp add: EncodeToBytes_def)
next
  case False
  then show ?thesis by (simp add: EncodeToBytes_def write_val_negative)
qed

text \<open>
  C21.  The RLP encoder is correct: for a value whose encoding fits a Go integer, \<^verbatim>\<open>EncodeToBytes\<close> does not
  panic and returns exactly the encoding of the specification, or the error for a negative integer if
  there is one anywhere in the value.
\<close>

theorem EncodeToBytes_correct:
  assumes "length (rlp_spec v) < 2 ^ 63"
  shows "EncodeToBytes v = Some (if encodable v then Inr (rlp_spec v) else Inl NegativeBigInt)"
  by (rule EncodeToBytes_eq [OF assms])

theorem EncodeToBytes_correct_witness:
  "EncodeToBytes (RList [RBytes [0x63, 0x61, 0x74], RList [RUint 0x400, RBig (Some 5)]]) =
     Some (Inr [0xC9, 0x83, 0x63, 0x61, 0x74, 0xC4, 0x82, 0x04, 0x00, 0x05])"
  using EncodeToBytes_correct [of "RList [RBytes [0x63, 0x61, 0x74], RList [RUint 0x400, RBig (Some 5)]]"]
  by (simp add: rlp_string_def rlp_head_def bytes_of_nat.simps)

end
