(* ===== verification/Rlp_Raw.thy ===== *)
theory Rlp_Raw
  imports Rlp_Spec
begin

text \<open>
  \<^verbatim>\<open>rlp/raw.go\<close>: reading encoded values without decoding them into Go types.  The theory models the header
  parser \<^verbatim>\<open>readKind\<close>/\<^verbatim>\<open>readSize\<close> and the functions built on it, and proves that they invert the encoding of
  theory \<open>Rlp_Spec\<close> and accept nothing but canonical encodings.
\<close>

unbundle bit_operations_syntax

section \<open>The code\<close>

datatype Kind = KByte | KString | KList

datatype raw_err = ErrUnexpectedEOF | ErrCanonSize | ErrValueTooLarge | ErrExpectedString | ErrExpectedList

definition ListSize :: "uint64 \<Rightarrow> uint64" where
  "ListSize contentSize = of_nat (headsize contentSize) + contentSize"

definition readSize :: "bytes \<Rightarrow> byte \<Rightarrow> raw_err + uint64" where
  "readSize b slen =
     (if unat slen > length b then Inl ErrUnexpectedEOF
      else
        let u = (\<lambda>i. ucast (b ! i) :: uint64);
            s = (if slen = 1 then u 0
                 else if slen = 2 then push_bit 8 (u 0) OR u 1
                 else if slen = 3 then push_bit 16 (u 0) OR push_bit 8 (u 1) OR u 2
                 else if slen = 4 then push_bit 24 (u 0) OR push_bit 16 (u 1) OR push_bit 8 (u 2) OR u 3
                 else if slen = 5 then push_bit 32 (u 0) OR push_bit 24 (u 1) OR push_bit 16 (u 2) OR push_bit 8 (u 3) OR u 4
                 else if slen = 6 then push_bit 40 (u 0) OR push_bit 32 (u 1) OR push_bit 24 (u 2) OR push_bit 16 (u 3) OR push_bit 8 (u 4) OR u 5
                 else if slen = 7 then push_bit 48 (u 0) OR push_bit 40 (u 1) OR push_bit 32 (u 2) OR push_bit 24 (u 3) OR push_bit 16 (u 4) OR push_bit 8 (u 5) OR u 6
                 else if slen = 8 then push_bit 56 (u 0) OR push_bit 48 (u 1) OR push_bit 40 (u 2) OR push_bit 32 (u 3) OR push_bit 24 (u 4) OR push_bit 16 (u 5) OR push_bit 8 (u 6) OR u 7
                 else 0) in
        if s < 56 \<or> b ! 0 = 0 then Inl ErrCanonSize else Inr s)"

text \<open>The comparison with the rest of the buffer, at the end of \<^verbatim>\<open>readKind\<close>.\<close>

definition fits :: "bytes \<Rightarrow> Kind \<Rightarrow> uint64 \<Rightarrow> uint64 \<Rightarrow> raw_err + Kind \<times> uint64 \<times> uint64" where
  "fits buf k tagsize contentsize =
     (if contentsize > of_nat (length buf) - tagsize then Inl ErrValueTooLarge else Inr (k, tagsize, contentsize))"

definition readKind :: "bytes \<Rightarrow> raw_err + Kind \<times> uint64 \<times> uint64" where
  "readKind buf =
     (case buf of
        [] \<Rightarrow> Inl ErrUnexpectedEOF
      | b # buf1 \<Rightarrow>
          if b < 0x80 then fits buf KByte 0 1
          else if b < 0xB8 then
            let contentsize = ucast (b - 0x80) in
            if contentsize = 1 \<and> length buf > 1 \<and> buf ! 1 < 128 then Inl ErrCanonSize else fits buf KString 1 contentsize
          else if b < 0xC0 then
            (case readSize buf1 (b - 0xB7) of Inl err \<Rightarrow> Inl err | Inr n \<Rightarrow> fits buf KString (ucast (b - 0xB7) + 1) n)
          else if b < 0xF8 then fits buf KList 1 (ucast (b - 0xC0))
          else (case readSize buf1 (b - 0xF7) of Inl err \<Rightarrow> Inl err | Inr n \<Rightarrow> fits buf KList (ucast (b - 0xF7) + 1) n))"

text \<open>On an error the functions return the whole input as the rest; a slice expression out of range is \<open>None\<close>.\<close>

definition Split :: "bytes \<Rightarrow> (raw_err + Kind \<times> bytes \<times> bytes) option" where
  "Split b =
     (case readKind b of
        Inl err \<Rightarrow> Some (Inl err)
      | Inr (k, ts, cs) \<Rightarrow> do {
          content \<leftarrow> slice b (unat ts) (unat (ts + cs));
          rest \<leftarrow> slice b (unat (ts + cs)) (length b);
          Some (Inr (k, content, rest))
        })"

definition SplitString :: "bytes \<Rightarrow> (raw_err + bytes \<times> bytes) option" where
  "SplitString b = do {
     r \<leftarrow> Split b;
     Some (case r of
       Inl err \<Rightarrow> Inl err
     | Inr (k, content, rest) \<Rightarrow> if k = KList then Inl ErrExpectedString else Inr (content, rest))
   }"

definition SplitList :: "bytes \<Rightarrow> (raw_err + bytes \<times> bytes) option" where
  "SplitList b = do {
     r \<leftarrow> Split b;
     Some (case r of
       Inl err \<Rightarrow> Inl err
     | Inr (k, content, rest) \<Rightarrow> if k \<noteq> KList then Inl ErrExpectedList else Inr (content, rest))
   }"

text \<open>The loop of \<^verbatim>\<open>CountValues\<close>; \<open>None\<close> is a panic or a loop that does not end.\<close>

partial_function (option) count_loop :: "nat \<Rightarrow> bytes \<Rightarrow> (raw_err + nat) option" where
  "count_loop i b =
     (if length b > 0 then
        case readKind b of
          Inl err \<Rightarrow> Some (Inl err)
        | Inr (k, tagsize, csize) \<Rightarrow> Option.bind (slice b (unat (tagsize + csize)) (length b)) (\<lambda>b'. count_loop (i + 1) b')
      else Some (Inr i))"

definition CountValues :: "bytes \<Rightarrow> (raw_err + nat) option" where
  "CountValues b = count_loop 0 b"

section \<open>The size field\<close>

definition be_uint :: "bytes \<Rightarrow> uint64" where
  "be_uint bs = foldl (\<lambda>s x. push_bit 8 s OR ucast x) 0 bs"

lemma push_or_byte: "push_bit 8 (s :: uint64) OR ucast (x :: byte) = s * 256 + ucast x"
proof -
  have "push_bit 8 s + ucast x = push_bit 8 s OR ucast x"
    by (rule disjunctive_add) (auto simp: bit_simps dest: bit_imp_le_length)
  then show ?thesis by (simp add: push_bit_eq_mult)
qed

lemma be_uint_SetBytes: "be_uint bs = word_of_int (SetBytes bs)"
  by (induction bs rule: rev_induct) (simp_all add: be_uint_def push_or_byte)

lemma unat_be_uint: "length bs \<le> 8 \<Longrightarrow> int (unat (be_uint bs)) = SetBytes bs"
proof -
  assume "length bs \<le> 8"
  then have "(256 :: int) ^ length bs \<le> 256 ^ 8" by (intro power_increasing) simp_all
  with SetBytes_less [of bs] have "SetBytes bs < 2 ^ 64" by simp
  then show ?thesis by (simp add: be_uint_SetBytes unsigned_of_int take_bit_int_eq_self)
qed

lemma be_uint_Cons [simp]:
  "be_uint [] = 0"
  "be_uint (x # xs) = push_bit (8 * length xs) (ucast x) OR be_uint xs"
proof -
  show "be_uint [] = 0" by (simp add: be_uint_def)
  have "foldl (\<lambda>s x. push_bit 8 s OR ucast x) s xs = push_bit (8 * length xs) s OR foldl (\<lambda>s x. push_bit 8 s OR ucast x) 0 xs" for s :: uint64
    by (induction xs rule: rev_induct) (simp_all add: push_bit_or or.assoc)
  from this [of "ucast x"] show "be_uint (x # xs) = push_bit (8 * length xs) (ucast x) OR be_uint xs" by (simp add: be_uint_def)
qed

lemma readSize_eq:
  assumes "1 \<le> length c" "length c \<le> 8"
  shows "readSize (c @ d) (of_nat (length c)) = (if be_uint c < 56 \<or> hd c = 0 then Inl ErrCanonSize else Inr (be_uint c))"
proof -
  from assms have "length c \<in> {Suc 0, Suc (Suc 0), Suc (Suc (Suc 0)), Suc (Suc (Suc (Suc 0))), Suc (Suc (Suc (Suc (Suc 0)))),
    Suc (Suc (Suc (Suc (Suc (Suc 0))))), Suc (Suc (Suc (Suc (Suc (Suc (Suc 0)))))), Suc (Suc (Suc (Suc (Suc (Suc (Suc (Suc 0)))))))}" by auto
  then show ?thesis
    unfolding insert_iff empty_iff length_Suc_conv length_0_conv
    by (elim disjE exE conjE FalseE) (simp_all add: readSize_def Let_def or.assoc)
qed

section \<open>Canonical numbers\<close>

lemma bytes_of_nat_SetBytes: "c = [] \<or> hd c \<noteq> 0 \<Longrightarrow> bytes_of_nat (nat (SetBytes c)) = c"
proof (induction c rule: rev_induct)
  case (snoc x c)
  have IH: "bytes_of_nat (nat (SetBytes c)) = c" using snoc.prems by (intro snoc.IH) (cases c; simp)
  have e: "nat (SetBytes (c @ [x])) = nat (SetBytes c) * 256 + unat x"
    by (simp add: nat_add_distrib nat_mult_distrib)
  have nz: "nat (SetBytes (c @ [x])) \<noteq> 0"
  proof (cases c)
    case Nil
    with snoc.prems show ?thesis unfolding e by (simp add: unat_eq_zero)
  next
    case Cons
    then have "nat (SetBytes c) \<noteq> 0" using IH by (metis bytes_of_nat_0 list.distinct(1))
    then show ?thesis unfolding e by simp
  qed
  have x: "unat x < 256" using unsigned_less [of x, where ?'a = nat] by simp
  from x have d: "nat (SetBytes (c @ [x])) div 256 = nat (SetBytes c)" unfolding e by simp
  have m: "(of_nat (nat (SetBytes (c @ [x]))) :: byte) = x"
    unfolding e using x by (simp add: word_unat_eq_iff unat_word_ariths unat_of_nat)
  show ?case
    using bytes_of_nat_Suc [OF nz] by (simp only: d m IH)
qed simp

lemma hd_bytes_of_nat: "n \<noteq> 0 \<Longrightarrow> bytes_of_nat n \<noteq> [] \<and> hd (bytes_of_nat n) \<noteq> 0"
proof (induction n rule: less_induct)
  case (less n)
  show ?case
  proof (cases "n div 256 = 0")
    case True
    then have n: "n < 256" by simp
    with less.prems have "(of_nat n :: byte) \<noteq> 0" by (simp add: word_unat_eq_iff unat_of_nat)
    with n less.prems show ?thesis by (simp add: bytes_of_nat_small)
  next
    case False
    with less show ?thesis by (simp add: bytes_of_nat_Suc [of n] hd_append)
  qed
qed

lemma large_size:
  assumes "1 \<le> l" "l \<le> 8"
  shows "readSize buf (of_nat l) = Inr cs \<longleftrightarrow>
     56 \<le> unat cs \<and> length (bytes_of_nat (unat cs)) = l \<and> (\<exists>r. buf = bytes_of_nat (unat cs) @ r)"
proof (cases "l \<le> length buf")
  case False
  have "unat (of_nat l :: byte) = l" using assms by (simp add: unat_of_nat)
  with False show ?thesis by (auto simp: readSize_def)
next
  case True
  define c r where "c = take l buf" and "r = drop l buf"
  have buf: "buf = c @ r" and l: "length c = l" using True by (simp_all add: c_def r_def)
  have b: "int (unat (be_uint c)) = SetBytes c" using assms l by (intro unat_be_uint) simp
  have s: "be_uint c < 56 \<longleftrightarrow> unat (be_uint c) < 56" by (simp add: word_less_nat_alt)
  note R = readSize_eq [of c r, unfolded l, OF assms]
  show ?thesis
  proof
    assume "readSize buf (of_nat l) = Inr cs"
    then have cs: "cs = be_uint c" "56 \<le> unat cs" "hd c \<noteq> 0" by (auto simp: buf R s split: if_splits)
    then have "bytes_of_nat (unat cs) = c" using bytes_of_nat_SetBytes [of c] b by (metis nat_int)
    with cs l show "56 \<le> unat cs \<and> length (bytes_of_nat (unat cs)) = l \<and> (\<exists>r. buf = bytes_of_nat (unat cs) @ r)" by (auto simp: buf)
  next
    assume A: "56 \<le> unat cs \<and> length (bytes_of_nat (unat cs)) = l \<and> (\<exists>r. buf = bytes_of_nat (unat cs) @ r)"
    then have c: "c = bytes_of_nat (unat cs)" by (auto simp: c_def)
    have "be_uint c = cs" unfolding be_uint_SetBytes c by (simp add: word_unat_eq_iff unat_of_nat)
    moreover have "hd c \<noteq> 0" using A hd_bytes_of_nat [of "unat cs"] c by auto
    ultimately show "readSize buf (of_nat l) = Inr cs" using A s by (simp add: buf R)
  qed
qed

section \<open>What the header parser accepts\<close>

text \<open>The encoding of a string that is not a single small byte, and of a list, with the header of \<open>rlp_head\<close>.\<close>

definition framed :: "byte \<Rightarrow> byte \<Rightarrow> bytes \<Rightarrow> uint64 \<Rightarrow> uint64 \<Rightarrow> bool" where
  "framed small large b ts cs \<longleftrightarrow>
     (\<exists>r. b = rlp_head small large (unat cs) @ r \<and> unat cs \<le> length r \<and> unat ts = length (rlp_head small large (unat cs)))"

lemma fits_iff:
  assumes "length buf < 2 ^ 64" "unat ts \<le> length buf"
  shows "fits buf k ts cs = Inr (k', ts', cs') \<longleftrightarrow> k' = k \<and> ts' = ts \<and> cs' = cs \<and> unat ts + unat cs \<le> length buf"
proof -
  have "ts \<le> of_nat (length buf)" using assms by (simp add: word_le_nat_alt unat_of_nat_small)
  then have "unat (of_nat (length buf) - ts) = length buf - unat ts"
    using assms(1) by (simp add: unat_sub unat_of_nat_small)
  then have "cs > of_nat (length buf) - ts \<longleftrightarrow> length buf < unat ts + unat cs"
    using assms(2) by (auto simp: word_less_nat_alt)
  then show ?thesis by (auto simp: fits_def)
qed

lemma small_framed:
  assumes "length (b # buf) < 2 ^ 64" "b = small + of_nat n" "n < 56"
  shows "fits (b # buf) k 1 (of_nat n) = Inr (k', ts, cs) \<longleftrightarrow> k' = k \<and> unat cs = n \<and> framed small large (b # buf) ts cs"
proof -
  have n: "unat (of_nat n :: uint64) = n" using assms(3) by (simp add: unat_of_nat)
  then have cs: "cs = of_nat n \<longleftrightarrow> unat cs = n" for cs :: uint64 by auto
  have ts: "ts = 1 \<longleftrightarrow> unat ts = 1" for ts :: uint64 by (simp add: word_unat_eq_iff)
  show ?thesis
    using assms(1,3) by (subst fits_iff) (auto simp: framed_def rlp_head_def assms(2) cs ts n)
qed

lemma large_framed:
  assumes "length (b # buf) < 2 ^ 64" "b = large + of_nat l" "1 \<le> l" "l \<le> 8"
  shows "(case readSize buf (of_nat l) of Inl err \<Rightarrow> Inl err | Inr n \<Rightarrow> fits (b # buf) k (of_nat l + 1) n) = Inr (k', ts, cs) \<longleftrightarrow>
     k' = k \<and> 56 \<le> unat cs \<and> length (bytes_of_nat (unat cs)) = l \<and> framed small large (b # buf) ts cs"
proof -
  have l1: "unat (of_nat l + 1 :: uint64) = Suc l" using assms(4) by (simp add: unat_word_ariths unat_of_nat)
  have ts: "ts = of_nat l + 1 \<longleftrightarrow> unat ts = Suc l" for ts :: uint64 using l1 by (auto simp: word_unat_eq_iff)
  have F: "fits (b # buf) k (of_nat l + 1) n = Inr (k', ts, cs) \<longleftrightarrow> k' = k \<and> unat ts = Suc l \<and> cs = n \<and> Suc l + unat cs \<le> Suc (length buf)"
    if "readSize buf (of_nat l) = Inr n" for n
  proof -
    from that have "l \<le> length buf" unfolding large_size [OF assms(3,4)] by auto
    then show ?thesis
      unfolding fits_iff [OF assms(1), of "of_nat l + 1", unfolded l1 list.size(4) add_Suc_right add_0_right Suc_le_mono, OF \<open>l \<le> length buf\<close>] ts by auto
  qed
  have "(case readSize buf (of_nat l) of Inl err \<Rightarrow> Inl err | Inr n \<Rightarrow> fits (b # buf) k (of_nat l + 1) n) = Inr (k', ts, cs) \<longleftrightarrow>
     (\<exists>n. readSize buf (of_nat l) = Inr n \<and> fits (b # buf) k (of_nat l + 1) n = Inr (k', ts, cs))"
    by (auto split: sum.splits)
  also have "\<dots> \<longleftrightarrow> readSize buf (of_nat l) = Inr cs \<and> k' = k \<and> unat ts = Suc l \<and> Suc l + unat cs \<le> Suc (length buf)"
    using F by blast
  also have "\<dots> \<longleftrightarrow> k' = k \<and> 56 \<le> unat cs \<and> length (bytes_of_nat (unat cs)) = l \<and> framed small large (b # buf) ts cs"
    unfolding large_size [OF assms(3,4), of buf] framed_def rlp_head_def assms(2) by auto
  finally show ?thesis .
qed

lemma unat_byte_add: "unat s + n < 256 \<Longrightarrow> unat (s + of_nat n :: byte) = unat s + n"
  by (simp add: unat_word_ariths unat_of_nat)

lemma byte_offset:
  assumes "unat s = m" "m \<le> unat (b :: byte)"
  shows "b = s + of_nat (unat b - m)" "b - s = of_nat (unat b - m)" "ucast (b - s) = (of_nat (unat b - m) :: uint64)"
proof -
  have u: "unat (b - s) = unat b - m" using assms by (simp add: unat_sub word_le_nat_alt)
  show d: "b - s = of_nat (unat b - m)" by (simp flip: u)
  show "ucast (b - s) = (of_nat (unat b - m) :: uint64)" by (simp flip: u)
  show "b = s + of_nat (unat b - m)" by (simp flip: d)
qed

lemma framed_first:
  assumes "framed small large (b # buf) ts cs" "unat small + 55 < 256" "unat large + 8 < 256"
  shows "if unat cs < 56 then unat b = unat small + unat cs
     else \<exists>l. 1 \<le> l \<and> l \<le> 8 \<and> unat b = unat large + l \<and> length (bytes_of_nat (unat cs)) = l"
proof (cases "unat cs < 56")
  case True
  with assms unat_byte_add [of small "unat cs"] show ?thesis by (auto simp: framed_def rlp_head_def)
next
  case False
  moreover from this have "bytes_of_nat (unat cs) \<noteq> []" using hd_bytes_of_nat [of "unat cs"] by auto
  moreover note length_bytes_uint64 [of cs]
  ultimately show ?thesis using assms by (auto simp: framed_def rlp_head_def unat_byte_add Suc_le_eq)
qed

lemma readKind_iff:
  assumes "length b < 2 ^ 64"
  shows "readKind b = Inr (k, ts, cs) \<longleftrightarrow>
     k = KByte \<and> (\<exists>x r. b = x # r \<and> x < 0x80) \<and> ts = 0 \<and> cs = 1 \<or>
     k = KString \<and> framed 0x80 0xB7 b ts cs \<and> \<not> (unat cs = 1 \<and> b ! 1 < 0x80) \<or>
     k = KList \<and> framed 0xC0 0xF7 b ts cs"
proof (cases b)
  case Nil
  then show ?thesis by (simp add: readKind_def framed_def rlp_head_def)
next
  case (Cons x r)
  note len = assms [unfolded Cons]
  have str: "framed 0x80 0xB7 b ts cs \<Longrightarrow> 128 \<le> unat x \<and> unat x < 192 \<and> (unat x < 184 \<longleftrightarrow> unat cs < 56)"
    using framed_first [of "0x80" "0xB7" x r ts cs] by (auto simp: Cons split: if_splits)
  have lst: "framed 0xC0 0xF7 b ts cs \<Longrightarrow> 192 \<le> unat x \<and> (unat x < 248 \<longleftrightarrow> unat cs < 56)"
    using framed_first [of "0xC0" "0xF7" x r ts cs] by (auto simp: Cons split: if_splits)
  have ux: "unat x < 256" using unsigned_less [of x, where ?'a = nat] by simp
  consider (byte) "unat x < 128" | (s1) "128 \<le> unat x" "unat x < 184" | (s2) "184 \<le> unat x" "unat x < 192"
    | (l1) "192 \<le> unat x" "unat x < 248" | (l2) "248 \<le> unat x" by linarith
  then show ?thesis
  proof cases
    case byte
    then have "readKind b = fits b KByte 0 1" by (simp add: readKind_def Cons word_less_nat_alt)
    moreover have "fits b KByte 0 1 = Inr (k, ts, cs) \<longleftrightarrow> k = KByte \<and> ts = 0 \<and> cs = 1"
      using fits_iff [OF assms, of 0 KByte 1] by (auto simp: Cons)
    moreover have "\<not> framed 0x80 0xB7 b ts cs" "\<not> framed 0xC0 0xF7 b ts cs" "x < 0x80"
      using str lst byte by (auto simp: word_less_nat_alt)
    ultimately show ?thesis by (auto simp: Cons)
  next
    case s1
    define n where "n = unat x - 128"
    note o = byte_offset [of "0x80" 128 x, folded n_def]
    have n: "n < 56" "x = 0x80 + of_nat n" "ucast (x - 0x80) = (of_nat n :: uint64)"
      using s1 by (simp add: n_def) (intro o; use s1 in simp)+
    have c: "(of_nat n :: uint64) = 1 \<longleftrightarrow> n = 1" using n(1) by (simp add: word_unat_eq_iff unat_of_nat)
    have "readKind b = (if n = 1 \<and> length b > 1 \<and> b ! 1 < 128 then Inl ErrCanonSize else fits b KString 1 (of_nat n))"
      using s1 by (simp add: readKind_def Cons word_less_nat_alt n(3) Let_def c)
    moreover have "framed 0x80 0xB7 b ts cs \<Longrightarrow> unat cs = n"
      using framed_first [of "0x80" "0xB7" x r ts cs] s1 by (auto simp: Cons n_def split: if_splits)
    moreover have "framed 0x80 0xB7 b ts cs \<Longrightarrow> unat cs = 1 \<Longrightarrow> length b > 1"
      by (auto simp: framed_def rlp_head_def)
    moreover note small_framed [OF len n(2,1), of KString k ts cs "0xB7", folded Cons]
    moreover have "\<not> framed 0xC0 0xF7 b ts cs" "\<not> x < 0x80" using lst s1 by (auto simp: word_less_nat_alt)
    ultimately show ?thesis by (auto simp: Cons)
  next
    case s2
    define l where "l = unat x - 183"
    note o = byte_offset [of "0xB7" 183 x, folded l_def]
    have l: "1 \<le> l" "l \<le> 8" "x = 0xB7 + of_nat l" "x - 0xB7 = of_nat l" "ucast (x - 0xB7) = (of_nat l :: uint64)"
      using s2 by (simp add: l_def, simp add: l_def) (intro o; use s2 in simp)+
    have "readKind b = (case readSize r (of_nat l) of Inl err \<Rightarrow> Inl err | Inr n \<Rightarrow> fits b KString (of_nat l + 1) n)"
      using s2 unfolding readKind_def Cons list.case l(5) unfolding l(4) by (simp add: word_less_nat_alt)
    moreover have "framed 0x80 0xB7 b ts cs \<Longrightarrow> 56 \<le> unat cs \<and> length (bytes_of_nat (unat cs)) = l"
      using framed_first [of "0x80" "0xB7" x r ts cs] s2 by (auto simp: Cons l_def split: if_splits)
    moreover note large_framed [OF len l(3,1,2), of KString k ts cs "0x80", folded Cons]
    moreover have "\<not> framed 0xC0 0xF7 b ts cs" "\<not> x < 0x80" using lst s2 by (auto simp: word_less_nat_alt)
    ultimately show ?thesis by (auto simp: Cons)
  next
    case l1
    define n where "n = unat x - 192"
    note o = byte_offset [of "0xC0" 192 x, folded n_def]
    have n: "n < 56" "x = 0xC0 + of_nat n" "ucast (x - 0xC0) = (of_nat n :: uint64)"
      using l1 by (simp add: n_def) (intro o; use l1 in simp)+
    have "readKind b = fits b KList 1 (of_nat n)"
      using l1 by (simp add: readKind_def Cons word_less_nat_alt n(3) Let_def)
    moreover have "framed 0xC0 0xF7 b ts cs \<Longrightarrow> unat cs = n"
      using framed_first [of "0xC0" "0xF7" x r ts cs] l1 by (auto simp: Cons n_def split: if_splits)
    moreover note small_framed [OF len n(2,1), of KList k ts cs "0xF7", folded Cons]
    moreover have "\<not> framed 0x80 0xB7 b ts cs" "\<not> x < 0x80" using str l1 by (auto simp: word_less_nat_alt)
    ultimately show ?thesis by (auto simp: Cons)
  next
    case l2
    define l where "l = unat x - 247"
    note o = byte_offset [of "0xF7" 247 x, folded l_def]
    have l: "1 \<le> l" "l \<le> 8" "x = 0xF7 + of_nat l" "x - 0xF7 = of_nat l" "ucast (x - 0xF7) = (of_nat l :: uint64)"
      using l2 ux by (simp add: l_def, simp add: l_def) (intro o; use l2 in simp)+
    have "readKind b = (case readSize r (of_nat l) of Inl err \<Rightarrow> Inl err | Inr n \<Rightarrow> fits b KList (of_nat l + 1) n)"
      using l2 unfolding readKind_def Cons list.case l(5) unfolding l(4) by (simp add: word_less_nat_alt)
    moreover have "framed 0xC0 0xF7 b ts cs \<Longrightarrow> 56 \<le> unat cs \<and> length (bytes_of_nat (unat cs)) = l"
      using framed_first [of "0xC0" "0xF7" x r ts cs] l2 by (auto simp: Cons l_def split: if_splits)
    moreover note large_framed [OF len l(3,1,2), of KList k ts cs "0xC0", folded Cons]
    moreover have "\<not> framed 0x80 0xB7 b ts cs" "\<not> x < 0x80" using str l2 by (auto simp: word_less_nat_alt)
    ultimately show ?thesis by (auto simp: Cons)
  qed
qed

section \<open>Splitting and counting\<close>

definition list_enc :: "bytes \<Rightarrow> bytes" where
  "list_enc p = rlp_head 0xC0 0xF7 (length p) @ p"

lemma framedE:
  assumes "framed small large b ts cs"
  obtains p rest where "b = rlp_head small large (length p) @ p @ rest" "length p = unat cs"
    "unat ts = length (rlp_head small large (length p))"
proof -
  from assms obtain r where r: "b = rlp_head small large (unat cs) @ r" "unat cs \<le> length r"
    "unat ts = length (rlp_head small large (unat cs))" by (auto simp: framed_def)
  show ?thesis by (rule that [of "take (unat cs) r" "drop (unat cs) r"]) (use r in simp_all)
qed

lemma framedI:
  assumes "length (rlp_head small large (length p) @ p @ rest) < 2 ^ 64"
  shows "framed small large (rlp_head small large (length p) @ p @ rest) (of_nat (length (rlp_head small large (length p)))) (of_nat (length p))"
proof -
  have "unat (of_nat (length p) :: uint64) = length p"
    "unat (of_nat (length (rlp_head small large (length p))) :: uint64) = length (rlp_head small large (length p))"
    using assms by (auto intro!: unat_of_nat_small)
  then show ?thesis by (simp add: framed_def)
qed

lemma readKind_bound:
  assumes "length b < 2 ^ 64" "readKind b = Inr (k, ts, cs)"
  shows "unat (ts + cs) = unat ts + unat cs" "unat ts + unat cs \<le> length b" "0 < unat ts + unat cs"
proof -
  have "unat ts + unat cs \<le> length b \<and> 0 < unat ts + unat cs"
    using assms(2) unfolding readKind_iff [OF assms(1)] by (auto elim!: framedE simp: rlp_head_def split: if_splits)
  then show "unat ts + unat cs \<le> length b" "0 < unat ts + unat cs" by auto
  with assms(1) show "unat (ts + cs) = unat ts + unat cs" by (intro unat_add_lem [THEN iffD1]) simp
qed

lemma Split_eq:
  assumes "length b < 2 ^ 64" "readKind b = Inr (k, ts, cs)"
  shows "Split b = Some (Inr (k, take (unat cs) (drop (unat ts) b), drop (unat ts + unat cs) b))"
  using readKind_bound [OF assms] by (simp add: Split_def assms(2) slice_def)

lemma Split_total: "length b < 2 ^ 64 \<Longrightarrow> \<exists>r. Split b = Some r"
  using Split_eq [of b] by (cases "readKind b") (auto simp: Split_def)

lemma Split_string:
  assumes "length (rlp_string c @ rest) < 2 ^ 64"
  shows "\<exists>k. k \<noteq> KList \<and> Split (rlp_string c @ rest) = Some (Inr (k, c, rest))"
proof (cases "length c = 1 \<and> hd c < 0x80")
  case True
  then obtain x where c: "c = [x]" "x < 0x80" by (cases c) auto
  have "readKind (x # rest) = Inr (KByte, 0, 1)" using assms c by (subst readKind_iff) (auto simp: rlp_string_def)
  from Split_eq [OF _ this] show ?thesis using assms c by (auto simp: rlp_string_def)
next
  case False
  let ?b = "rlp_head 0x80 0xB7 (length c) @ c @ rest"
  have b: "rlp_string c @ rest = ?b" using False by (auto simp: rlp_string_def)
  have u: "unat (of_nat (length c) :: uint64) = length c"
    "unat (of_nat (length (rlp_head 0x80 0xB7 (length c))) :: uint64) = length (rlp_head 0x80 0xB7 (length c))"
    using assms unfolding b by (auto intro!: unat_of_nat_small)
  have "\<not> (length c = 1 \<and> ?b ! 1 < 0x80)" using False by (cases c) (auto simp: rlp_head_def)
  then have "readKind ?b = Inr (KString, of_nat (length (rlp_head 0x80 0xB7 (length c))), of_nat (length c))"
    using assms framedI [of "0x80" "0xB7" c rest] unfolding b by (subst readKind_iff) (auto simp: u)
  from Split_eq [OF _ this] show ?thesis using assms unfolding b u by auto
qed

lemma Split_list:
  assumes "length (list_enc p @ rest) < 2 ^ 64"
  shows "Split (list_enc p @ rest) = Some (Inr (KList, p, rest))"
proof -
  let ?b = "rlp_head 0xC0 0xF7 (length p) @ p @ rest"
  have b: "list_enc p @ rest = ?b" by (simp add: list_enc_def)
  have u: "unat (of_nat (length p) :: uint64) = length p"
    "unat (of_nat (length (rlp_head 0xC0 0xF7 (length p))) :: uint64) = length (rlp_head 0xC0 0xF7 (length p))"
    using assms unfolding b by (auto intro!: unat_of_nat_small)
  have "readKind ?b = Inr (KList, of_nat (length (rlp_head 0xC0 0xF7 (length p))), of_nat (length p))"
    using assms framedI [of "0xC0" "0xF7" p rest] unfolding b by (subst readKind_iff) (auto simp: u)
  from Split_eq [OF _ this] show ?thesis using assms unfolding b u by auto
qed

lemma Split_inverse:
  assumes "length b < 2 ^ 64" "Split b = Some (Inr (k, c, rest))"
  shows "b = (if k = KList then list_enc c else rlp_string c) @ rest"
proof (cases "readKind b")
  case (Inr v)
  obtain k' ts cs where v: "v = (k', ts, cs)" by (cases v)
  have r: "readKind b = Inr (k', ts, cs)" by (simp add: Inr v)
  from Split_eq [OF assms(1) r] assms(2) have e: "k' = k" "c = take (unat cs) (drop (unat ts) b)" "rest = drop (unat ts + unat cs) b"
    by auto
  from r [unfolded readKind_iff [OF assms(1)]] consider (b) x where "k' = KByte" "ts = 0" "cs = 1" "b = x # tl b" "x < 0x80"
    | (s) "k' = KString" "framed 0x80 0xB7 b ts cs" "\<not> (unat cs = 1 \<and> b ! 1 < 0x80)"
    | (l) "k' = KList" "framed 0xC0 0xF7 b ts cs" by fastforce
  then show ?thesis
  proof cases
    case b
    then have "c = [x]" "rest = tl b" using e by (metis One_nat_def drop0 take_Suc_Cons take_0 unat_0 unat_1, metis One_nat_def add_0 drop_Suc drop0 unat_0 unat_1)
    with b e(1) show ?thesis by (simp add: rlp_string_def)
  next
    case s
    from s(2) obtain p r where p: "b = rlp_head 0x80 0xB7 (length p) @ p @ r" "length p = unat cs"
      "unat ts = length (rlp_head 0x80 0xB7 (length p))" by (rule framedE)
    then have "c = p" "rest = r" by (simp_all add: e)
    moreover have "\<not> (length p = 1 \<and> hd p < 0x80)" using s(3) p by (cases p) (auto simp: rlp_head_def)
    ultimately show ?thesis using p(1) s(1) e(1) by (auto simp: rlp_string_def)
  next
    case l
    from l(2) obtain p r where p: "b = rlp_head 0xC0 0xF7 (length p) @ p @ r" "length p = unat cs"
      "unat ts = length (rlp_head 0xC0 0xF7 (length p))" by (rule framedE)
    then have "c = p" "rest = r" by (simp_all add: e)
    then show ?thesis using p(1) l(1) e(1) by (simp add: list_enc_def)
  qed
qed (use assms(2) in \<open>simp add: Split_def\<close>)

text \<open>
  C22.  Splitting inverts the encoding and accepts only canonical input: \<^verbatim>\<open>SplitString\<close> and \<^verbatim>\<open>SplitList\<close> return on
  every input, and they succeed with a content and a rest exactly when the input is the encoding of that content
  followed by that rest.
\<close>

theorem Split_roundtrip:
  assumes "length b < 2 ^ 64"
  shows "(SplitString b = Some (Inr (content, rest)) \<longleftrightarrow> b = rlp_string content @ rest) \<and>
     (SplitList b = Some (Inr (content, rest)) \<longleftrightarrow> b = list_enc content @ rest) \<and>
     SplitString b \<noteq> None \<and> SplitList b \<noteq> None"
proof (intro conjI iffI)
  obtain r where r: "Split b = Some r" using Split_total [OF assms] by blast
  then show "SplitString b \<noteq> None" "SplitList b \<noteq> None" by (simp_all add: SplitString_def SplitList_def)
  show "b = rlp_string content @ rest" if "SplitString b = Some (Inr (content, rest))"
    using that Split_inverse [OF assms] r by (auto simp: SplitString_def split: sum.splits if_splits)
  show "b = list_enc content @ rest" if "SplitList b = Some (Inr (content, rest))"
    using that Split_inverse [OF assms] r by (auto simp: SplitList_def split: sum.splits if_splits)
next
  assume b: "b = rlp_string content @ rest"
  from Split_string [of content rest] assms show "SplitString b = Some (Inr (content, rest))"
    unfolding b by (auto simp: SplitString_def)
next
  assume b: "b = list_enc content @ rest"
  from Split_list [of content rest] assms show "SplitList b = Some (Inr (content, rest))"
    unfolding b by (auto simp: SplitList_def)
qed

theorem Split_roundtrip_witness:
  "SplitString [0x82, 0x61, 0x62, 0x01] = Some (Inr ([0x61, 0x62], [0x01]))"
  using Split_roundtrip [of "[0x82, 0x61, 0x62, 0x01]" "[0x61, 0x62]" "[0x01]"] by (simp add: rlp_string_def rlp_head_def)

lemma count_loop_step:
  assumes "length b < 2 ^ 64" "Split b = Some (Inr (k, c, rest))"
  shows "count_loop i b = count_loop (i + 1) rest"
proof (cases "readKind b")
  case (Inr v)
  obtain k' ts cs where v: "v = (k', ts, cs)" by (cases v)
  have r: "readKind b = Inr (k', ts, cs)" by (simp add: Inr v)
  note B = readKind_bound [OF assms(1) r]
  have "b \<noteq> []" using r by (auto simp: readKind_def)
  with B Split_eq [OF assms(1) r] assms(2) show ?thesis by (subst count_loop.simps) (simp add: r slice_def)
qed (use assms(2) in \<open>simp add: Split_def\<close>)

lemma count_loop_err: "Split b = Some (Inl e) \<Longrightarrow> b \<noteq> [] \<Longrightarrow> count_loop i b = Some (Inl e)"
  by (subst count_loop.simps) (auto simp: Split_def split: sum.splits bind_splits)

lemma Split_shorter: "length b < 2 ^ 64 \<Longrightarrow> Split b = Some (Inr (k, c, rest)) \<Longrightarrow> length rest < length b"
  by (drule (1) Split_inverse) (auto simp: list_enc_def rlp_string_def rlp_head_def)

lemma count_loop_total: "length b < 2 ^ 64 \<Longrightarrow> \<exists>r. count_loop i b = Some r"
proof (induction b arbitrary: i rule: length_induct)
  case (1 b)
  obtain r where r: "Split b = Some r" using Split_total [OF 1(2)] by blast
  show ?case
  proof (cases r)
    case (Inl e)
    show ?thesis
    proof (cases "b = []")
      case True
      then show ?thesis by (subst count_loop.simps) simp
    qed (use count_loop_err r Inl in blast)
  next
    case (Inr v)
    obtain k c rest where "v = (k, c, rest)" by (cases v)
    with r Inr have s: "Split b = Some (Inr (k, c, rest))" by simp
    note l = Split_shorter [OF 1(2) s]
    show ?thesis unfolding count_loop_step [OF 1(2) s] using 1(1) l 1(2) by simp
  qed
qed

definition not_raw :: "rlp_val \<Rightarrow> bool" where
  "not_raw v = (case v of RRaw _ \<Rightarrow> False | _ \<Rightarrow> True)"

lemma rlp_spec_shape: "not_raw v \<Longrightarrow> \<exists>c. rlp_spec v \<in> {rlp_string c, list_enc c}"
proof (cases v)
  case (RBig x)
  then show ?thesis by (cases x) auto
next
  case RNilInterface
  then show ?thesis by (auto simp: list_enc_def intro: exI [of _ "[]"])
qed (auto simp: not_raw_def list_enc_def Let_def)

text \<open>
  C31.  \<^verbatim>\<open>CountValues\<close> returns on every input, and it counts the values of a sequence of encodings.
\<close>

theorem CountValues_correct:
  assumes "length b < 2 ^ 64"
  shows "CountValues b \<noteq> None \<and>
     (b = concat (map rlp_spec vs) \<and> list_all not_raw vs \<longrightarrow> CountValues b = Some (Inr (length vs)))"
proof (intro conjI impI)
  show "CountValues b \<noteq> None" using count_loop_total [OF assms] by (auto simp: CountValues_def)
  have "length (concat (map rlp_spec vs)) < 2 ^ 64 \<Longrightarrow> list_all not_raw vs \<Longrightarrow>
    count_loop i (concat (map rlp_spec vs)) = Some (Inr (i + length vs))" for i
  proof (induction vs arbitrary: i)
    case Nil
    show ?case by (subst count_loop.simps) simp
  next
    case (Cons v vs)
    let ?r = "concat (map rlp_spec vs)"
    have l: "length (rlp_spec v @ ?r) < 2 ^ 64" using Cons.prems by simp
    obtain c where "rlp_spec v = rlp_string c \<or> rlp_spec v = list_enc c" using rlp_spec_shape [of v] Cons.prems by auto
    then obtain k where "Split (rlp_spec v @ ?r) = Some (Inr (k, c, ?r))"
      using Split_string [of c ?r] Split_list [of c ?r] l by fastforce
    from count_loop_step [OF l this] Cons show ?case by simp
  qed
  then show "CountValues b = Some (Inr (length vs))" if "b = concat (map rlp_spec vs) \<and> list_all not_raw vs"
    using that assms by (simp add: CountValues_def)
qed

theorem CountValues_correct_witness: "CountValues [0x01, 0x82, 0x61, 0x62, 0xC0] = Some (Inr 3)"
  using CountValues_correct [of "[0x01, 0x82, 0x61, 0x62, 0xC0]" "[RBytes [1], RBytes [0x61, 0x62], RList []]"]
  by (simp add: rlp_string_def rlp_head_def not_raw_def)

end
