(* ===== verification/Trie_Encoding.thy ===== *)
theory Trie_Encoding
  imports Prelude
begin

text \<open>
  \<^verbatim>\<open>trie/encoding.go\<close>: the three encodings of a trie key.  KEYBYTES is the key itself, HEX has one byte per nibble
  and an optional terminator 16, COMPACT (the hex-prefix encoding) packs a HEX key and its terminator flag into
  bytes.  The theory proves that the conversions are inverse to each other on valid keys.
\<close>

unbundle bit_operations_syntax

section \<open>The code\<close>

definition hasTerm :: "bytes \<Rightarrow> bool" where
  "hasTerm s \<longleftrightarrow> length s > 0 \<and> s ! (length s - 1) = 16"

text \<open>The loop of \<^verbatim>\<open>decodeNibbles\<close>, which writes two nibbles to each byte of the destination.\<close>

fun nibbles_loop :: "bytes \<Rightarrow> nat \<Rightarrow> bytes \<Rightarrow> bytes option" where
  "nibbles_loop [] bi dst = Some dst"
| "nibbles_loop [x] bi dst = None"
| "nibbles_loop (x # y # nibbles) bi dst =
     (if bi < length dst then nibbles_loop nibbles (bi + 1) (dst[bi := push_bit 4 x OR y]) else None)"

definition decodeNibbles :: "bytes \<Rightarrow> bytes \<Rightarrow> bytes option" where
  "decodeNibbles nibbles dst = nibbles_loop nibbles 0 dst"

definition hexToCompact :: "bytes \<Rightarrow> bytes option" where
  "hexToCompact hex =
     (let terminator = (if hasTerm hex then 1 else 0 :: byte);
          hex = (if hasTerm hex then take (length hex - 1) hex else hex);
          buf = replicate (length hex div 2) 0;
          flag = push_bit 5 terminator;
          flag = (if odd (length hex) then flag OR push_bit 4 1 OR hex ! 0 else flag);
          hex = (if odd (length hex) then drop 1 hex else hex) in
      do { buf \<leftarrow> decodeNibbles hex buf; Some (flag # buf) })"

definition keybytesToHex :: "bytes \<Rightarrow> bytes" where
  "keybytesToHex str = concat (map (\<lambda>b. [b div 16, b mod 16]) str) @ [16]"

definition compactToHex :: "bytes \<Rightarrow> bytes option" where
  "compactToHex compact =
     (let base = keybytesToHex compact;
          base = (if base ! 0 < 2 then take (length base - 1) base else base);
          chop = 2 - (base ! 0 AND 1) in
      if unat chop \<le> length base then Some (drop (unat chop) base) else None)"

definition hexToKeybytes :: "bytes \<Rightarrow> bytes option" where
  "hexToKeybytes hex =
     (let hex = (if hasTerm hex then take (length hex - 1) hex else hex) in
      if odd (length hex) then None else decodeNibbles hex (replicate (length hex div 2) 0))"

fun prefix_loop :: "bytes \<Rightarrow> bytes \<Rightarrow> nat" where
  "prefix_loop (x # a) (y # b) = (if x \<noteq> y then 0 else Suc (prefix_loop a b))"
| "prefix_loop _ _ = 0"

definition prefixLen :: "bytes \<Rightarrow> bytes \<Rightarrow> nat" where
  "prefixLen a b = prefix_loop a b"

section \<open>Valid keys\<close>

definition nibbles :: "bytes \<Rightarrow> bool" where
  "nibbles s \<longleftrightarrow> (\<forall>x \<in> set s. x < 16)"

lemma nibbles_simps [simp]:
  "nibbles []" "nibbles (x # s) \<longleftrightarrow> x < 16 \<and> nibbles s" "nibbles (s @ t) \<longleftrightarrow> nibbles s \<and> nibbles t"
  by (auto simp: nibbles_def)

lemma nibbles_take_drop [simp]: "nibbles s \<Longrightarrow> nibbles (take n s)" "nibbles s \<Longrightarrow> nibbles (drop n s)"
  by (auto simp: nibbles_def dest: in_set_takeD in_set_dropD)

lemma hasTerm_iff: "hasTerm s \<longleftrightarrow> s \<noteq> [] \<and> last s = 16"
  by (auto simp: hasTerm_def last_conv_nth)

lemma hasTerm_snoc [simp]: "hasTerm (s @ [16])"
  by (simp add: hasTerm_iff)

lemma nibbles_no_term [simp]: "nibbles s \<Longrightarrow> \<not> hasTerm s"
  by (metis hasTerm_iff last_in_set nibbles_def less_irrefl)

text \<open>The bytes that a list of nibbles of even length packs into.\<close>

fun pack :: "bytes \<Rightarrow> bytes" where
  "pack (x # y # s) = (push_bit 4 x OR y) # pack s"
| "pack _ = []"

definition unpack :: "bytes \<Rightarrow> bytes" where
  "unpack bs = concat (map (\<lambda>b. [b div 16, b mod 16]) bs)"

lemma unpack_simps [simp]: "unpack [] = []" "unpack (b # bs) = b div 16 # b mod 16 # unpack bs"
  by (simp_all add: unpack_def)

lemma keybytesToHex_eq: "keybytesToHex k = unpack k @ [16]"
  by (simp add: keybytesToHex_def unpack_def)

lemma length_unpack [simp]: "length (unpack bs) = 2 * length bs"
  by (induction bs) simp_all

lemma length_pack: "length (pack s) = length s div 2"
  by (induction s rule: pack.induct) simp_all

lemma nibble_div_mod: "(x :: byte) < 16 \<Longrightarrow> y < 16 \<Longrightarrow> (push_bit 4 x OR y) div 16 = x \<and> (push_bit 4 x OR y) mod 16 = y"
proof -
  assume x: "x < 16" and y: "y < 16"
  then have ux: "unat x < 16" "unat y < 16" by (simp_all add: word_less_nat_alt)
  have "\<not> bit y n" if "4 \<le> n" for n
  proof -
    have "take_bit 4 y = y" using ux(2) by (simp add: take_bit_eq_mod word_unat_eq_iff unat_mod)
    then show ?thesis using that by (metis bit_take_bit_iff not_le)
  qed
  then have "push_bit 4 x + y = push_bit 4 x OR y"
    by (intro disjunctive_add) (auto simp: bit_simps not_le)
  then have e: "push_bit 4 x OR y = x * 16 + y" by (simp add: push_bit_eq_mult)
  have "unat (x * 16 + y) = unat x * 16 + unat y" using ux by (simp add: unat_word_ariths)
  then show ?thesis unfolding e using ux by (simp add: word_unat_eq_iff unat_div unat_mod)
qed

lemma unat_numeral_byte: "unat (16 :: byte) = 16"
  by simp

lemma byte_nibbles: "(b :: byte) div 16 < 16" "b mod 16 < 16"
proof -
  have "unat b < 256" using unsigned_less [of b, where ?'a = nat] by simp
  then show "b div 16 < 16" "b mod 16 < 16" by (simp_all add: word_less_nat_alt unat_div unat_mod div_less_iff_less_mult)
qed

lemma pack_unpack_byte: "push_bit 4 (b div 16) OR b mod 16 = (b :: byte)"
proof -
  define c where "c = (push_bit 4 (b div 16) OR b mod 16)"
  have "c div 16 = b div 16" "c mod 16 = b mod 16" using nibble_div_mod [OF byte_nibbles [of b]] by (simp_all add: c_def)
  then have "unat c div 16 = unat b div 16" "unat c mod 16 = unat b mod 16"
    by (metis unat_div unat_numeral_byte, metis unat_mod unat_numeral_byte)
  then have "unat c = unat b" by (metis div_mult_mod_eq)
  then show ?thesis by (simp add: c_def word_unat_eq_iff)
qed

lemma nibbles_unpack [simp]: "nibbles (unpack bs)"
  by (induction bs) (simp_all add: byte_nibbles)

lemma pack_unpack [simp]: "pack (unpack bs) = bs"
  by (induction bs) (simp_all add: pack_unpack_byte)

lemma unpack_pack: "even (length s) \<Longrightarrow> nibbles s \<Longrightarrow> unpack (pack s) = s"
  by (induction s rule: pack.induct) (simp_all add: nibble_div_mod)

lemma nibbles_loop_eq:
  "even (length s) \<Longrightarrow> length pre = bi \<Longrightarrow> length dst = length s div 2 \<Longrightarrow> nibbles_loop s bi (pre @ dst) = Some (pre @ pack s)"
proof (induction s arbitrary: pre bi dst rule: pack.induct)
  case (1 x y s)
  then obtain d ds where d: "dst = d # ds" by (cases dst) auto
  show ?case using "1.IH" [of "pre @ [push_bit 4 x OR y]" "Suc bi" ds] "1.prems" by (simp add: d list_update_append)
qed auto

lemma decodeNibbles_eq: "even (length s) \<Longrightarrow> decodeNibbles s (replicate (length s div 2) 0) = Some (pack s)"
  using nibbles_loop_eq [of s "[]" 0] by (simp add: decodeNibbles_def)

section \<open>Round trips\<close>

text \<open>A valid HEX key: nibbles, possibly followed by the terminator.\<close>

definition hex_key :: "bytes \<Rightarrow> bool" where
  "hex_key h \<longleftrightarrow> (\<exists>s. nibbles s \<and> (h = s \<or> h = s @ [16]))"

lemma hex_keyI:
  "nibbles s \<Longrightarrow> hex_key s" "nibbles s \<Longrightarrow> hex_key (s @ [16])" "nibbles (x # s) \<Longrightarrow> hex_key (x # s @ [16])"
  by (auto simp only: hex_key_def intro: exI [of _ s]) (auto simp: hex_key_def intro: exI [of _ "x # s"])

text \<open>A valid COMPACT key: a flag nibble below 4, and a zero nibble after it when the length is even.\<close>

definition compact_key :: "bytes \<Rightarrow> bool" where
  "compact_key c \<longleftrightarrow> c \<noteq> [] \<and> hd c div 16 < 4 \<and> ((hd c div 16) AND 1 = 0 \<longrightarrow> hd c mod 16 = 0)"

lemma hexToCompact_eq:
  assumes "nibbles s" "h = (if t then s @ [16] else s)"
  shows "hexToCompact h =
     Some (if odd (length s) then ((if t then 0x30 else 0x10) OR hd s) # pack (tl s) else (if t then 0x20 else 0) # pack s)"
proof -
  have T: "hasTerm h \<longleftrightarrow> t" using assms by auto
  have h: "(if hasTerm h then take (length h - 1) h else h) = s" using assms T by (auto simp: T)
  have e: "length s div 2 = length (tl s) div 2" if "odd (length s)" using that by (cases s) (auto elim!: oddE)
  show ?thesis
  proof (cases "odd (length s)")
    case True
    then obtain x r where s: "s = x # r" by (cases s) auto
    have r: "decodeNibbles r (replicate (length s div 2) 0) = Some (pack r)"
      using decodeNibbles_eq [of r] True e by (simp add: s)
    have o: "(32 :: byte) OR (16 OR x) = 48 OR x" by (simp flip: or.assoc)
    show ?thesis using True r unfolding hexToCompact_def Let_def h unfolding T by (simp add: s o)
  next
    case False
    then show ?thesis using decodeNibbles_eq [of s] unfolding hexToCompact_def Let_def h unfolding T by simp
  qed
qed

lemma flag_nibbles:
  "x < 16 \<Longrightarrow> ((0x30 :: byte) OR x) div 16 = 3 \<and> (0x30 OR x) mod 16 = x"
  "x < 16 \<Longrightarrow> ((0x10 :: byte) OR x) div 16 = 1 \<and> (0x10 OR x) mod 16 = x"
  using nibble_div_mod [of 3 x] nibble_div_mod [of 1 x] by simp_all

lemma compactToHex_Cons:
  "compactToHex (b # bs) =
     (let h = (if (b div 16) AND 1 = 1 then [b mod 16] else []) @ unpack bs in
      Some (if b div 16 < 2 then h else h @ [16]))"
proof -
  define f where "f = b div 16"
  have c: "f AND 1 = 0 \<or> f AND 1 = 1" by (simp add: and_one_eq mod_2_eq_odd)
  show ?thesis
  proof (cases "f < 2")
    case True
    have "compactToHex (b # bs) = (let base = f # b mod 16 # unpack bs; chop = 2 - (f AND 1) in
       if unat chop \<le> length base then Some (drop (unat chop) base) else None)"
      using True by (simp add: compactToHex_def keybytesToHex_eq f_def [symmetric] butlast_conv_take [symmetric] Let_def)
    with True c show ?thesis by (auto simp: f_def [symmetric] Let_def)
  next
    case False
    have "compactToHex (b # bs) = (let base = f # b mod 16 # unpack bs @ [16]; chop = 2 - (f AND 1) in
       if unat chop \<le> length base then Some (drop (unat chop) base) else None)"
      using False by (simp add: compactToHex_def keybytesToHex_eq f_def [symmetric] Let_def)
    with False c show ?thesis by (auto simp: f_def [symmetric] Let_def)
  qed
qed

lemma compactToHex_hexToCompact:
  assumes "hex_key h"
  shows "\<exists>c. hexToCompact h = Some c \<and> compact_key c \<and> compactToHex c = Some h"
proof -
  from assms obtain s t where s: "nibbles s" "h = (if t then s @ [16] else s)" unfolding hex_key_def by (metis (full_types))
  note C = hexToCompact_eq [OF this]
  show ?thesis
  proof (cases "odd (length s)")
    case True
    then obtain x r where r: "s = x # r" "even (length r)" "x < 16" "nibbles r" using s(1) by (cases s) auto
    show ?thesis unfolding C using True r s(2)
      by (auto simp: compactToHex_Cons flag_nibbles unpack_pack compact_key_def)
  next
    case False
    then show ?thesis unfolding C using s by (auto simp: compactToHex_Cons unpack_pack compact_key_def)
  qed
qed

lemma hexToCompact_compactToHex:
  assumes "compact_key c"
  shows "\<exists>h. compactToHex c = Some h \<and> hex_key h \<and> hexToCompact h = Some c"
proof -
  note c = assms
  then obtain b bs where b: "c = b # bs" by (cases c) (auto simp: compact_key_def)
  define f where "f = b div 16"
  have "f = 0 \<or> f = 1 \<or> f = 2 \<or> f = 3"
    using c by (auto simp: compact_key_def b f_def [symmetric] word_less_nat_alt word_unat_eq_iff)
  moreover have "b = push_bit 4 f OR b mod 16" by (simp add: f_def pack_unpack_byte)
  moreover have "f AND 1 = 0 \<longrightarrow> b mod 16 = 0" using c by (simp add: compact_key_def b f_def)
  moreover have "nibbles (b mod 16 # unpack bs)" by (simp add: byte_nibbles)
  ultimately show ?thesis
    using hexToCompact_eq [of "unpack bs" _ False] hexToCompact_eq [of "unpack bs" _ True]
      hexToCompact_eq [of "b mod 16 # unpack bs" _ False] hexToCompact_eq [of "b mod 16 # unpack bs" _ True]
    unfolding b compactToHex_Cons f_def [symmetric]
    by (elim disjE) (auto simp: Let_def intro: hex_keyI)
qed

text \<open>
  C23.  The conversions between the three encodings of a trie key are inverse to each other: every key is
  recovered from its HEX form, every valid HEX key (of even or odd length, with or without the terminator) from
  its COMPACT form, and every valid COMPACT key from its HEX form.
\<close>

theorem key_encodings_roundtrip:
  "hexToKeybytes (keybytesToHex k) = Some k \<and>
   (hex_key h \<longrightarrow> (\<exists>c. hexToCompact h = Some c \<and> compact_key c \<and> compactToHex c = Some h)) \<and>
   (compact_key c \<longrightarrow> (\<exists>h. compactToHex c = Some h \<and> hex_key h \<and> hexToCompact h = Some c))"
  using decodeNibbles_eq [of "unpack k"] compactToHex_hexToCompact [of h] hexToCompact_compactToHex [of c]
  by (simp add: hexToKeybytes_def keybytesToHex_eq Let_def)

theorem key_encodings_roundtrip_witness:
  "\<exists>c. hexToCompact [1, 2, 3, 16] = Some c \<and> compact_key c \<and> compactToHex c = Some [1, 2, 3, 16]"
  using key_encodings_roundtrip [of "[]" "[1, 2, 3, 16]" "[]"] hex_keyI(3) [of 1 "[2, 3]"] by simp


end
