(* ===== verification/Trie_Node.thy ===== *)
theory Trie_Node
  imports Trie_Encoding Common_Types
begin

text \<open>
  \<^verbatim>\<open>trie/trie.go\<close> and the node types of \<^verbatim>\<open>trie/node.go\<close>: the Merkle Patricia trie with its lazily loaded nodes.

  A \<^verbatim>\<open>node\<close> interface value is a value of the datatype \<open>node\<close>, with \<open>nilNode\<close> for the nil interface.  The node
  database, \<^verbatim>\<open>t.db.node(hash, cachegen)\<close>, is a parameter.  The recursive functions follow references into the
  database, so that their termination depends on its content: a function that does not return and one that panics
  both have the value \<open>None\<close>.  A nil result slice is the empty list.
\<close>

section \<open>Nodes\<close>

type_synonym uint16 = "16 word"

record nodeFlag =
  fl_hash :: "bytes option"
  fl_gen :: uint16
  fl_dirty :: bool

datatype node =
    nilNode
  | valueNode bytes
  | hashNode bytes
  | shortNode bytes node nodeFlag
  | fullNode "node list" nodeFlag

datatype trie_err = MissingNodeError Hash bytes

type_synonym node_db = "Hash \<Rightarrow> uint16 \<Rightarrow> node option"

record Mpt =
  t_root :: node
  t_originalRoot :: Hash
  t_cachegen :: uint16
  t_cachelimit :: uint16

definition newFlag :: "uint16 \<Rightarrow> nodeFlag" where
  "newFlag gen = \<lparr>fl_hash = None, fl_gen = gen, fl_dirty = True\<rparr>"

text \<open>Assignment to and access of an entry of the array \<^verbatim>\<open>Children\<close>; \<open>None\<close> is an index out of range.\<close>

definition get_child :: "node list \<Rightarrow> byte \<Rightarrow> node option" where
  "get_child cs i = (if unat i < length cs then Some (cs ! unat i) else None)"

definition set_child :: "node list \<Rightarrow> byte \<Rightarrow> node \<Rightarrow> node list option" where
  "set_child cs i n = (if unat i < length cs then Some (cs[unat i := n]) else None)"

definition resolveHash :: "node_db \<Rightarrow> uint16 \<Rightarrow> bytes \<Rightarrow> bytes \<Rightarrow> trie_err + node" where
  "resolveHash db gen n pfx =
     (let hash = BytesToHash n in
      case db hash gen of Some nd \<Rightarrow> Inr nd | None \<Rightarrow> Inl (MissingNodeError hash pfx))"

definition resolve :: "node_db \<Rightarrow> uint16 \<Rightarrow> node \<Rightarrow> bytes \<Rightarrow> trie_err + node" where
  "resolve db gen n pfx = (case n of hashNode h \<Rightarrow> resolveHash db gen h pfx | _ \<Rightarrow> Inr n)"

section \<open>Lookup\<close>

partial_function (option) tryGet ::
  "node_db \<Rightarrow> uint16 \<Rightarrow> node \<Rightarrow> bytes \<Rightarrow> nat \<Rightarrow> (bytes \<times> node \<times> bool \<times> trie_err option) option" where
  "tryGet db gen origNode key pos =
     (case origNode of
        nilNode \<Rightarrow> Some ([], nilNode, False, None)
      | valueNode v \<Rightarrow> Some (v, valueNode v, False, None)
      | shortNode nkey val flags \<Rightarrow>
          if int (length key) - int pos < int (length nkey) \<or> nkey \<noteq> take (length nkey) (drop pos key)
          then Some ([], origNode, False, None)
          else Option.bind (tryGet db gen val key (pos + length nkey)) (\<lambda>(value, newnode, didResolve, err).
            Some (value, if err = None \<and> didResolve then shortNode nkey newnode (flags\<lparr>fl_gen := gen\<rparr>) else origNode,
                  didResolve, err))
      | fullNode children flags \<Rightarrow>
          if length key \<le> pos then None
          else Option.bind (get_child children (key ! pos)) (\<lambda>child.
            Option.bind (tryGet db gen child key (pos + 1)) (\<lambda>(value, newnode, didResolve, err).
              Some (value, if err = None \<and> didResolve then fullNode (children[unat (key ! pos) := newnode]) (flags\<lparr>fl_gen := gen\<rparr>) else origNode,
                    didResolve, err)))
      | hashNode h \<Rightarrow>
          (case resolveHash db gen h (take pos key) of
             Inl err \<Rightarrow> Some ([], origNode, True, Some err)
           | Inr child \<Rightarrow> Option.bind (tryGet db gen child key pos) (\<lambda>(value, newnode, _, err). Some (value, newnode, True, err))))"

definition mpt_TryGet :: "node_db \<Rightarrow> Mpt \<Rightarrow> bytes \<Rightarrow> (bytes \<times> trie_err option \<times> Mpt) option" where
  "mpt_TryGet db t key = do {
     (value, newroot, didResolve, err) \<leftarrow> tryGet db (t_cachegen t) (t_root t) (keybytesToHex key) 0;
     Some (value, err, if err = None \<and> didResolve then t\<lparr>t_root := newroot\<rparr> else t)
   }"

section \<open>Insertion\<close>

partial_function (option) mpt_insert ::
  "node_db \<Rightarrow> uint16 \<Rightarrow> node \<Rightarrow> bytes \<Rightarrow> bytes \<Rightarrow> node \<Rightarrow> (trie_err + bool \<times> node) option" where
  "mpt_insert db gen n pfx key value =
     (if key = [] then
        (case n of
           valueNode v \<Rightarrow> (case value of valueNode w \<Rightarrow> Some (Inr (v \<noteq> w, value)) | _ \<Rightarrow> None)
         | _ \<Rightarrow> Some (Inr (True, value)))
      else
        case n of
          shortNode nkey val flags \<Rightarrow>
            (let matchlen = prefixLen key nkey in
             if matchlen = length nkey then
               Option.bind (mpt_insert db gen val (pfx @ take matchlen key) (drop matchlen key) value) (\<lambda>r.
                 Some (case r of
                   Inl err \<Rightarrow> Inl err
                 | Inr (dirty, nn) \<Rightarrow> if \<not> dirty then Inr (False, n) else Inr (True, shortNode nkey nn (newFlag gen))))
             else
               Option.bind (mpt_insert db gen nilNode (pfx @ take (matchlen + 1) nkey) (drop (matchlen + 1) nkey) val) (\<lambda>r.
                 case r of
                   Inl err \<Rightarrow> Some (Inl err)
                 | Inr (_, c1) \<Rightarrow>
                     Option.bind (set_child (replicate 17 nilNode) (nkey ! matchlen) c1) (\<lambda>children.
                       if length key \<le> matchlen then None
                       else
                         Option.bind (mpt_insert db gen nilNode (pfx @ take (matchlen + 1) key) (drop (matchlen + 1) key) value) (\<lambda>r.
                           case r of
                             Inl err \<Rightarrow> Some (Inl err)
                           | Inr (_, c2) \<Rightarrow>
                               Option.bind (set_child children (key ! matchlen) c2) (\<lambda>children.
                                 Some (Inr (True,
                                   if matchlen = 0 then fullNode children (newFlag gen)
                                   else shortNode (take matchlen key) (fullNode children (newFlag gen)) (newFlag gen))))))))
        | fullNode children flags \<Rightarrow>
            Option.bind (get_child children (key ! 0)) (\<lambda>child.
              Option.bind (mpt_insert db gen child (pfx @ [key ! 0]) (drop 1 key) value) (\<lambda>r.
                Some (case r of
                  Inl err \<Rightarrow> Inl err
                | Inr (dirty, nn) \<Rightarrow>
                    if \<not> dirty then Inr (False, n) else Inr (True, fullNode (children[unat (key ! 0) := nn]) (newFlag gen)))))
        | nilNode \<Rightarrow> Some (Inr (True, shortNode key value (newFlag gen)))
        | hashNode h \<Rightarrow>
            (case resolveHash db gen h pfx of
               Inl err \<Rightarrow> Some (Inl err)
             | Inr rn \<Rightarrow>
                 Option.bind (mpt_insert db gen rn pfx key value) (\<lambda>r.
                   Some (case r of
                     Inl err \<Rightarrow> Inl err
                   | Inr (dirty, nn) \<Rightarrow> if \<not> dirty then Inr (False, rn) else Inr (True, nn))))
        | valueNode v \<Rightarrow> None)"

section \<open>Deletion\<close>

text \<open>The loop over the children: the index of the only entry that is not nil, \<open>-1\<close> for none, \<open>-2\<close> for several.\<close>

fun single_child :: "node list \<Rightarrow> int \<Rightarrow> int \<Rightarrow> int" where
  "single_child [] i pos = pos"
| "single_child (cld # cs) i pos =
     (if cld \<noteq> nilNode then if pos = -1 then single_child cs (i + 1) i else -2
      else single_child cs (i + 1) pos)"

partial_function (option) mpt_delete ::
  "node_db \<Rightarrow> uint16 \<Rightarrow> node \<Rightarrow> bytes \<Rightarrow> bytes \<Rightarrow> (trie_err + bool \<times> node) option" where
  "mpt_delete db gen n pfx key =
     (case n of
        shortNode nkey val flags \<Rightarrow>
          (let matchlen = prefixLen key nkey in
           if matchlen < length nkey then Some (Inr (False, n))
           else if matchlen = length key then Some (Inr (True, nilNode))
           else
             Option.bind (mpt_delete db gen val (pfx @ take (length nkey) key) (drop (length nkey) key)) (\<lambda>r.
               Some (case r of
                 Inl err \<Rightarrow> Inl err
               | Inr (dirty, child) \<Rightarrow>
                   if \<not> dirty then Inr (False, n)
                   else
                     (case child of
                        shortNode ckey cval cflags \<Rightarrow> Inr (True, shortNode (nkey @ ckey) cval (newFlag gen))
                      | _ \<Rightarrow> Inr (True, shortNode nkey child (newFlag gen))))))
      | fullNode children flags \<Rightarrow>
          if key = [] then None
          else
            Option.bind (get_child children (key ! 0)) (\<lambda>child.
              Option.bind (mpt_delete db gen child (pfx @ [key ! 0]) (drop 1 key)) (\<lambda>r.
                Some (case r of
                  Inl err \<Rightarrow> Inl err
                | Inr (dirty, nn) \<Rightarrow>
                    if \<not> dirty then Inr (False, n)
                    else
                      let children = children[unat (key ! 0) := nn];
                          pos = single_child children 0 (-1) in
                      if pos \<ge> 0 then
                        let reduced = Inr (True, shortNode [of_int pos] (children ! nat pos) (newFlag gen)) in
                        if pos \<noteq> 16 then
                          (case resolve db gen (children ! nat pos) pfx of
                             Inl err \<Rightarrow> Inl err
                           | Inr cnode \<Rightarrow>
                               (case cnode of
                                  shortNode ckey cval cflags \<Rightarrow> Inr (True, shortNode (of_int pos # ckey) cval (newFlag gen))
                                | _ \<Rightarrow> reduced))
                        else reduced
                      else Inr (True, fullNode children (newFlag gen)))))
      | valueNode v \<Rightarrow> Some (Inr (True, nilNode))
      | nilNode \<Rightarrow> Some (Inr (False, nilNode))
      | hashNode h \<Rightarrow>
          (case resolveHash db gen h pfx of
             Inl err \<Rightarrow> Some (Inl err)
           | Inr rn \<Rightarrow>
               Option.bind (mpt_delete db gen rn pfx key) (\<lambda>r.
                 Some (case r of
                   Inl err \<Rightarrow> Inl err
                 | Inr (dirty, nn) \<Rightarrow> if \<not> dirty then Inr (False, rn) else Inr (True, nn)))))"

section \<open>The operations of a trie\<close>

definition mpt_TryDelete :: "node_db \<Rightarrow> Mpt \<Rightarrow> bytes \<Rightarrow> (trie_err option \<times> Mpt) option" where
  "mpt_TryDelete db t key = do {
     r \<leftarrow> mpt_delete db (t_cachegen t) (t_root t) [] (keybytesToHex key);
     Some (case r of Inl err \<Rightarrow> (Some err, t) | Inr (_, n) \<Rightarrow> (None, t\<lparr>t_root := n\<rparr>))
   }"

definition mpt_TryUpdate :: "node_db \<Rightarrow> Mpt \<Rightarrow> bytes \<Rightarrow> bytes \<Rightarrow> (trie_err option \<times> Mpt) option" where
  "mpt_TryUpdate db t key value = do {
     r \<leftarrow> (if length value \<noteq> 0 then mpt_insert db (t_cachegen t) (t_root t) [] (keybytesToHex key) (valueNode value)
           else mpt_delete db (t_cachegen t) (t_root t) [] (keybytesToHex key));
     Some (case r of Inl err \<Rightarrow> (Some err, t) | Inr (_, n) \<Rightarrow> (None, t\<lparr>t_root := n\<rparr>))
   }"

definition emptyRoot :: Hash where
  "emptyRoot = 0x56e81f171bcc55a6ff8345e692c0f86e5b48e01b996cadc001622fb5e363b421"

definition mpt_New :: "node_db \<Rightarrow> Hash \<Rightarrow> trie_err + Mpt" where
  "mpt_New db root =
     (let trie = \<lparr>t_root = nilNode, t_originalRoot = root, t_cachegen = 0, t_cachelimit = 0\<rparr> in
      if root \<noteq> 0 \<and> root \<noteq> emptyRoot then
        (case resolveHash db 0 (Hash_Bytes root) [] of Inl err \<Rightarrow> Inl err | Inr n \<Rightarrow> Inr (trie\<lparr>t_root := n\<rparr>))
      else Inr trie)"

end
