(* ===== verification/Trie_Pure.thy ===== *)
theory Trie_Pure
  imports Trie_Encoding
begin

text \<open>
  The trie as a pure tree, in which every reference to the node database is resolved (or missing): lookup,
  insertion and deletion, the canonical form that insertion and deletion keep, and the proof that they are the
  lookup and update of a map.  Theory \<open>Trie_Correct\<close> shows that the code computes these functions.
\<close>

section \<open>Trees and their operations\<close>

datatype ptree = PNil | PVal bytes | PShort bytes ptree | PFull "ptree list" | PMiss

lemma size_nth_child [termination_simp]: "i < length ts \<Longrightarrow> size (ts ! i) < Suc (size_list size ts)"
  by (simp add: less_Suc_eq_le size_list_estimation' [OF nth_mem])

text \<open>The value of a key (empty for none), or \<open>None\<close> when its path runs into a missing node.\<close>

fun plook :: "ptree \<Rightarrow> bytes \<Rightarrow> bytes option" where
  "plook PNil k = Some []"
| "plook (PVal v) k = Some v"
| "plook (PShort s t) k = (if take (length s) k = s then plook t (drop (length s) k) else Some [])"
| "plook (PFull ts) [] = Some []"
| "plook (PFull ts) (x # k) = (if unat x < length ts then plook (ts ! unat x) k else Some [])"
| "plook PMiss k = None"

definition pleaf :: "bytes \<Rightarrow> ptree \<Rightarrow> ptree" where
  "pleaf k t = (if k = [] then t else PShort k t)"

text \<open>The branch that separates two keys with the first nibbles \<open>x\<close> and \<open>y\<close>.\<close>

definition pbranch :: "byte \<Rightarrow> ptree \<Rightarrow> byte \<Rightarrow> ptree \<Rightarrow> ptree list" where
  "pbranch x t y u = (replicate 17 PNil)[unat x := t, unat y := u]"

fun pins :: "ptree \<Rightarrow> bytes \<Rightarrow> bytes \<Rightarrow> ptree option" where
  "pins t [] v = Some (PVal v)"
| "pins PNil k v = Some (PShort k (PVal v))"
| "pins (PVal w) k v = Some (PVal w)"
| "pins PMiss k v = None"
| "pins (PShort s t) k v =
     (let m = prefixLen k s in
      if m = length s then map_option (PShort s) (pins t (drop m k) v)
      else Some (pleaf (take m k) (PFull (pbranch (s ! m) (pleaf (drop (m + 1) s) t) (k ! m) (pleaf (drop (m + 1) k) (PVal v))))))"
| "pins (PFull ts) (x # k) v =
     (if unat x < length ts then map_option (\<lambda>t. PFull (ts[unat x := t])) (pins (ts ! unat x) k v) else Some (PFull ts))"

text \<open>The smart constructors of deletion: a short node over a tree, and a branch of which at most one child may be left.\<close>

definition pshort :: "bytes \<Rightarrow> ptree \<Rightarrow> ptree" where
  "pshort s t = (case t of PShort s' t' \<Rightarrow> PShort (s @ s') t' | _ \<Rightarrow> PShort s t)"

definition live :: "ptree list \<Rightarrow> nat list" where
  "live ts = filter (\<lambda>i. ts ! i \<noteq> PNil) [0..<length ts]"

definition pfull :: "ptree list \<Rightarrow> ptree option" where
  "pfull ts =
     (case live ts of
        [i] \<Rightarrow> if ts ! i = PMiss then None else Some (pshort [of_nat i] (ts ! i))
      | _ \<Rightarrow> Some (PFull ts))"

fun pdel :: "ptree \<Rightarrow> bytes \<Rightarrow> ptree option" where
  "pdel PNil k = Some PNil"
| "pdel (PVal v) k = Some PNil"
| "pdel PMiss k = None"
| "pdel (PShort s t) k =
     (if take (length s) k \<noteq> s then Some (PShort s t)
      else if k = s then Some PNil
      else map_option (pshort s) (pdel t (drop (length s) k)))"
| "pdel (PFull ts) [] = Some (PFull ts)"
| "pdel (PFull ts) (x # k) =
     (if unat x < length ts then Option.bind (pdel (ts ! unat x) k) (\<lambda>t. pfull (ts[unat x := t])) else Some (PFull ts))"

section \<open>Canonical trees\<close>

definition is_val :: "ptree \<Rightarrow> bool" where "is_val t = (case t of PVal _ \<Rightarrow> True | _ \<Rightarrow> False)"

fun canon :: "ptree \<Rightarrow> bool" where
  "canon PNil = True"
| "canon (PVal v) = (v \<noteq> [])"
| "canon PMiss = True"
| "canon (PShort s t) =
     (s \<noteq> [] \<and> canon t \<and>
      (if last s = 16 then nibbles (butlast s) \<and> is_val t
       else nibbles s \<and> (case t of PFull _ \<Rightarrow> True | PMiss \<Rightarrow> True | _ \<Rightarrow> False)))"
| "canon (PFull ts) =
     (length ts = 17 \<and> (\<forall>t \<in> set ts. canon t) \<and> (\<forall>i < 16. \<not> is_val (ts ! i)) \<and>
      (ts ! 16 = PNil \<or> is_val (ts ! 16)) \<and> 2 \<le> length (live ts))"

text \<open>
  The keys of a trie end in the terminator.  \<open>at t k\<close>: the rest \<open>k\<close> of a key can meet the subtree \<open>t\<close>; after the
  terminator only a value or nothing is left.
\<close>

fun tkey :: "bytes \<Rightarrow> bool" where
  "tkey [] = False"
| "tkey (x # k) = (if x = 16 then k = [] else x < 16 \<and> tkey k)"

definition at :: "ptree \<Rightarrow> bytes \<Rightarrow> bool" where
  "at t k = (if k = [] then t = PNil \<or> is_val t else tkey k \<and> \<not> is_val t)"

lemma is_val_simps [simp]:
  "\<not> is_val PNil" "is_val (PVal v)" "\<not> is_val PMiss" "\<not> is_val (PShort s t)" "\<not> is_val (PFull ts)"
  by (simp_all add: is_val_def)

lemma is_valE: "is_val t \<Longrightarrow> (\<And>v. t = PVal v \<Longrightarrow> P) \<Longrightarrow> P"
  by (cases t) auto

lemma tkey_keybytes [simp]: "tkey (keybytesToHex k)"
proof -
  have "nibbles s \<Longrightarrow> tkey (s @ [16])" for s by (induction s) auto
  then show ?thesis by (simp add: keybytesToHex_eq)
qed

lemma keybytes_inj [simp]: "keybytesToHex k = keybytesToHex k' \<longleftrightarrow> k = k'"
  by (simp add: keybytesToHex_eq) (metis pack_unpack)

lemma tkeyE:
  assumes "tkey k"
  obtains x k' where "k = x # k'" "unat x < 17" "k' = [] \<or> tkey k'" "k' = [] \<longleftrightarrow> x = 16"
proof -
  obtain x k' where k: "k = x # k'" using assms by (cases k) auto
  have "k' = [] \<longleftrightarrow> x = 16" using assms k by (cases k') (auto split: if_splits)
  moreover have "unat x < 17" "k' = [] \<or> tkey k'" using assms k by (auto simp: word_less_nat_alt split: if_splits)
  ultimately show ?thesis using that k by blast
qed

lemma tkey_drop: "tkey k \<Longrightarrow> m < length k \<Longrightarrow> tkey (drop m k)"
proof (induction m arbitrary: k)
  case (Suc m)
  then show ?case by (cases k) (auto split: if_splits)
qed simp

lemma tkey_last: "tkey k \<Longrightarrow> m < length k \<Longrightarrow> k ! m = 16 \<longleftrightarrow> m + 1 = length k"
  by (induction k arbitrary: m) (auto simp: nth_Cons split: nat.splits if_splits)

lemma tkey_nth: "tkey k \<Longrightarrow> m < length k \<Longrightarrow> unat (k ! m) < 17"
  by (induction k arbitrary: m) (auto simp: nth_Cons word_less_nat_alt split: nat.splits if_splits)

lemma prefixLen_simps [simp]:
  "prefixLen [] s = 0" "prefixLen k [] = 0"
  "prefixLen (x # k) (y # s) = (if x = y then Suc (prefixLen k s) else 0)"
  by (cases k) (simp_all add: prefixLen_def)

lemma prefixLen_le: "prefixLen k s \<le> length k" "prefixLen k s \<le> length s"
  by (induction k s rule: prefix_loop.induct) simp_all

lemma prefixLen_take: "take (prefixLen k s) k = take (prefixLen k s) s"
  by (induction k s rule: prefix_loop.induct) simp_all

lemma prefixLen_diff: "prefixLen k s < length k \<Longrightarrow> prefixLen k s < length s \<Longrightarrow> k ! prefixLen k s \<noteq> s ! prefixLen k s"
  by (induction k s rule: prefix_loop.induct) auto

lemma prefixLen_full: "prefixLen k s = length s \<longleftrightarrow> take (length s) k = s"
  by (induction k s rule: prefix_loop.induct) auto

section \<open>Lookup along a key\<close>

lemma plook_pleaf: "plook (pleaf p t) k = (if take (length p) k = p then plook t (drop (length p) k) else Some [])"
  by (simp add: pleaf_def)

lemma pleaf_Nil [simp]: "pleaf [] t = t"
  by (simp add: pleaf_def)

lemma PShort_pleaf: "s \<noteq> [] \<Longrightarrow> PShort s t = pleaf s t"
  by (simp add: pleaf_def)

lemma plook_pleaf_Cons [simp]: "plook (pleaf (a # r) t) (x # k) = (if x = a then plook (pleaf r t) k else Some [])"
  by (simp add: plook_pleaf)

lemma plook_pleaf_append [simp]: "plook (pleaf (p @ q) t) (p @ k) = plook (pleaf q t) k"
  by (simp add: plook_pleaf)

lemma plook_pleaf_other: "take (length p) k \<noteq> p \<Longrightarrow> plook (pleaf (p @ q) t) k = Some []"
  by (auto simp: plook_pleaf dest: arg_cong [where f = "take (length p)"])

lemma tkey_prefix: "tkey k \<Longrightarrow> tkey k' \<Longrightarrow> take (length k) k' = k \<Longrightarrow> k' = k"
proof (induction k arbitrary: k')
  case (Cons x k)
  then show ?case by (cases k') (auto split: if_splits)
qed simp

lemma tkey_append: "nibbles p \<Longrightarrow> tkey (p @ k) \<longleftrightarrow> tkey k"
  by (induction p) auto

lemma tkey_split: "tkey k \<longleftrightarrow> k \<noteq> [] \<and> last k = 16 \<and> nibbles (butlast k)"
  by (induction k) (auto simp: not_less)

lemma tkey_leaf: "tkey k \<Longrightarrow> tkey k' \<or> k' = [] \<Longrightarrow> plook (pleaf k (PVal v)) k' = Some (if k' = k then v else [])"
  using tkey_prefix [of k k'] by (auto simp: plook_pleaf)

lemma leaf_look: "(k = [] \<or> tkey k) \<Longrightarrow> (k' = [] \<or> tkey k') \<Longrightarrow> (k = [] \<longleftrightarrow> k' = []) \<Longrightarrow> plook (pleaf k (PVal v)) k' = Some (if k' = k then v else [])"
  using tkey_leaf [of k k' v] by auto

lemma pbranch_nth:
  assumes "a \<noteq> b" "unat a < 17" "unat b < 17" "i < 17"
  shows "pbranch a t b u ! i = (if i = unat b then u else if i = unat a then t else PNil)"
  using assms by (simp add: pbranch_def nth_list_update)

lemma length_pbranch [simp]: "length (pbranch a t b u) = 17"
  by (simp add: pbranch_def)

lemma plook_pbranch:
  assumes "a \<noteq> b" "unat a < 17" "unat b < 17" "unat x < 17"
  shows "plook (PFull (pbranch a t b u)) (x # k) = (if x = b then plook u k else if x = a then plook t k else Some [])"
  using assms by (auto simp: pbranch_nth word_unat_eq_iff)

lemma canon_short_tkey: "canon (PShort s t) \<Longrightarrow> last s = 16 \<Longrightarrow> tkey s"
  by (simp add: tkey_split)

lemma canon_short_at:
  assumes "canon (PShort s t)" "tkey k" "take (length s) k = s"
  shows "at t (drop (length s) k)"
proof (cases "last s = 16")
  case True
  then have "k = s" using tkey_prefix [of s k] canon_short_tkey [OF assms(1)] assms by auto
  with assms True show ?thesis by (auto simp: at_def)
next
  case False
  with assms(1) have n: "nibbles s" by auto
  have k: "k = s @ drop (length s) k" using assms(3) by (metis append_take_drop_id)
  then have "tkey (drop (length s) k)" using assms(2) tkey_append [OF n] by metis
  then show ?thesis using assms(1) False by (cases t) (auto simp: at_def)
qed

lemma canon_short_nth:
  assumes "canon (PShort s t)" "m < length s"
  shows "unat (s ! m) < 17" "s ! m = 16 \<longleftrightarrow> m + 1 = length s \<and> last s = 16"
proof -
  obtain xs y where s: "s = xs @ [y]" using assms by (cases s rule: rev_exhaust) auto
  have n: "nibbles xs" "y = 16 \<or> y < 16" using assms(1) by (auto simp: s split: if_splits)
  then have l: "m < length xs \<Longrightarrow> unat (xs ! m) < 16" by (auto simp: nibbles_def word_less_nat_alt)
  show "unat (s ! m) < 17" using n(2) l assms(2) by (auto simp: s nth_append word_less_nat_alt less_Suc_eq)
  show "s ! m = 16 \<longleftrightarrow> m + 1 = length s \<and> last s = 16" using l assms(2) by (auto simp: s nth_append less_Suc_eq)
qed

lemma canon_short_rest:
  assumes "canon (PShort s t)" "m < length s"
  shows "at (pleaf (drop (Suc m) s) t) (if s ! m = 16 then [] else [16])"
proof (cases "Suc m = length s")
  case True
  then have "s ! m = last s" using assms by (metis One_nat_def diff_Suc_1 last_conv_nth length_0_conv nat.distinct(1))
  with True assms(1) show ?thesis by (cases t) (auto simp: at_def split: if_splits)
next
  case False
  then show ?thesis using canon_short_nth(2) [OF assms] assms(2) by (auto simp: at_def pleaf_def)
qed

text \<open>A key that leaves a short node in the middle.\<close>

lemma short_split:
  assumes "canon (PShort s t)" "tkey k" "take (length s) k \<noteq> s"
  obtains p a r b kr where "s = p @ a # r" "k = p @ b # kr" "a \<noteq> b" "length p = prefixLen k s" "nibbles p" "unat a < 17" "unat b < 17"
    "at (pleaf r t) (if a = 16 then [] else [16])" "kr = [] \<longleftrightarrow> b = 16" "b = 16 \<or> tkey kr"
proof -
  define m where "m = prefixLen k s"
  have ms: "m < length s" using assms(3) prefixLen_full [of k s] prefixLen_le(2) [of k s] unfolding m_def by linarith
  have pk: "take m k = take m s" unfolding m_def by (rule prefixLen_take)
  have n: "nibbles (butlast s)" using assms(1) by (auto split: if_splits simp: nibbles_def dest: in_set_butlastD)
  have mk: "m < length k"
  proof (rule ccontr)
    assume "\<not> m < length k"
    then have "k = take m s" using pk by simp
    then have "nibbles k" using n ms by (metis nibbles_take_drop(1) take_butlast)
    with assms(2) show False by (auto simp: tkey_split nibbles_no_term hasTerm_iff dest: nibbles_no_term)
  qed
  show ?thesis
  proof (rule that [of "take m s" "s ! m" "drop (Suc m) s" "k ! m" "drop (Suc m) k"])
    show "s = take m s @ s ! m # drop (Suc m) s" by (rule id_take_nth_drop [OF ms])
    show "k = take m s @ k ! m # drop (Suc m) k" using id_take_nth_drop [OF mk] by (simp add: pk)
    show "s ! m \<noteq> k ! m" using prefixLen_diff [of k s] ms mk by (auto simp: m_def)
    show "length (take m s) = prefixLen k s" using ms by (simp add: m_def)
    show "nibbles (take m s)" using n ms by (metis nibbles_take_drop(1) take_butlast)
    show "unat (s ! m) < 17" using canon_short_nth [OF assms(1) ms] by simp
    show "unat (k ! m) < 17" using tkey_nth [OF assms(2) mk] .
    show "at (pleaf (drop (Suc m) s) t) (if s ! m = 16 then [] else [16])" using canon_short_rest [OF assms(1) ms] .
    show "drop (Suc m) k = [] \<longleftrightarrow> k ! m = 16" using tkey_last [OF assms(2) mk] mk by auto
    show "k ! m = 16 \<or> tkey (drop (Suc m) k)" using tkey_drop [OF assms(2), of "Suc m"] tkey_last [OF assms(2) mk] mk by (cases "Suc m = length k") auto
  qed
qed

section \<open>Insertion\<close>

lemma at_nonempty: "at t k \<Longrightarrow> k \<noteq> [] \<Longrightarrow> tkey k \<and> \<not> is_val t"
  by (simp add: at_def)

lemma at_child:
  assumes "canon (PFull ts)" "tkey (x # k)"
  shows "unat x < 17" "at (ts ! unat x) k"
proof -
  show "unat x < 17" using assms(2) by (auto simp: word_less_nat_alt split: if_splits)
  show "at (ts ! unat x) k" using assms by (auto simp: at_def word_less_nat_alt split: if_splits)
qed

lemma same_side: "tkey (x # k) \<Longrightarrow> tkey (x # k') \<Longrightarrow> k = [] \<longleftrightarrow> k' = []"
  by (auto split: if_splits)

lemma tkey_drop_short:
  assumes "canon (PShort s t)" "tkey k" "tkey k'" "take (length s) k = s" "take (length s) k' = s"
  shows "drop (length s) k = [] \<longleftrightarrow> drop (length s) k' = []"
proof -
  have d: "drop (length s) q = [] \<longleftrightarrow> q = s" if "take (length s) q = s" for q
    using that by (auto simp: take_all)
  show ?thesis using assms(2-5) tkey_prefix [of s k] tkey_prefix [of s k'] by (auto simp: d simp del: drop_eq_Nil)
qed

lemma pins_split:
  assumes "canon (PShort s t)" "tkey k" "take (length s) k \<noteq> s"
  obtains p a r b kr where "s = p @ a # r" "k = p @ b # kr" "a \<noteq> b" "nibbles p" "unat a < 17" "unat b < 17"
    "at (pleaf r t) (if a = 16 then [] else [16])" "kr = [] \<longleftrightarrow> b = 16" "b = 16 \<or> tkey kr"
    "pins (PShort s t) k v = Some (pleaf p (PFull (pbranch a (pleaf r t) b (pleaf kr (PVal v)))))"
proof -
  obtain p a r b kr where S: "s = p @ a # r" "k = p @ b # kr" "a \<noteq> b" "length p = prefixLen k s" "nibbles p" "unat a < 17" "unat b < 17"
    "at (pleaf r t) (if a = 16 then [] else [16])" "kr = [] \<longleftrightarrow> b = 16" "b = 16 \<or> tkey kr"
    by (rule short_split [OF assms])
  obtain x k2 where k2: "k = x # k2" using assms(2) by (cases k) auto
  have "pins (PShort s t) k v = Some (pleaf p (PFull (pbranch a (pleaf r t) b (pleaf kr (PVal v)))))"
    using S(4) unfolding k2 pins.simps unfolding k2 [symmetric] S(4) [symmetric] by (simp add: S(1,2) Let_def nth_append)
  with S show ?thesis by (intro that)
qed

lemma plook_pins:
  "pins t k v = Some t' \<Longrightarrow> canon t \<Longrightarrow> at t k \<Longrightarrow> at t k' \<Longrightarrow> (k = [] \<longleftrightarrow> k' = []) \<Longrightarrow>
   plook t' k' = (if k' = k then Some v else plook t k')"
proof (induction t k v arbitrary: t' k' rule: pins.induct)
  case (2 y k v)
  then show ?case using tkey_leaf [of "y # k" k' v] by (auto simp: at_def pleaf_def)
next
  case (5 s t y k v)
  let ?k = "y # k"
  have tk: "tkey ?k" "tkey k'" using "5.prems" by (auto simp: at_def)
  show ?case
  proof (cases "take (length s) ?k = s")
    case True
    then have m: "prefixLen ?k s = length s" by (simp add: prefixLen_full)
    from "5.prems"(1) obtain u where u: "pins t (drop (length s) ?k) v = Some u" "t' = PShort s u"
      by (auto simp: m Let_def simp del: prefixLen_simps)
    show ?thesis
    proof (cases "take (length s) k' = s")
      case T': True
      have "plook u (drop (length s) k') = (if drop (length s) k' = drop (length s) ?k then Some v else plook t (drop (length s) k'))"
        using "5.IH" [OF refl m] u "5.prems"(2) canon_short_at [OF "5.prems"(2) tk(1) True] canon_short_at [OF "5.prems"(2) tk(2) T']
          tkey_drop_short [OF "5.prems"(2) tk True T'] by (simp add: m)
      moreover have "drop (length s) k' = drop (length s) ?k \<longleftrightarrow> k' = ?k" using True T' by (metis append_take_drop_id)
      ultimately show ?thesis using T' u(2) by simp
    next
      case False
      then show ?thesis using u(2) True by auto
    qed
  next
    case False
    obtain p a r b kr where S: "s = p @ a # r" "?k = p @ b # kr" "a \<noteq> b" "nibbles p" "unat a < 17" "unat b < 17"
      "at (pleaf r t) (if a = 16 then [] else [16])" "kr = [] \<longleftrightarrow> b = 16" "b = 16 \<or> tkey kr"
      "pins (PShort s t) ?k v = Some (pleaf p (PFull (pbranch a (pleaf r t) b (pleaf kr (PVal v)))))"
      by (rule pins_split [OF "5.prems"(2) tk(1) False])
    have t': "t' = pleaf p (PFull (pbranch a (pleaf r t) b (pleaf kr (PVal v))))" using S(10) "5.prems"(1) by simp
    have l: "plook (PShort s t) q = plook (pleaf (p @ a # r) t) q" for q by (simp add: PShort_pleaf S(1))
    show ?thesis
    proof (cases "take (length p) k' = p")
      case True
      define q where "q = drop (length p) k'"
      have k': "k' = p @ q" using True by (metis append_take_drop_id q_def)
      then have "tkey q" using tk(2) tkey_append [OF S(4)] by simp
      then obtain x q' where q: "q = x # q'" "unat x < 17" "q' = [] \<or> tkey q'" "q' = [] \<longleftrightarrow> x = 16"
        by (rule tkeyE)
      have "plook t' k' = plook (PFull (pbranch a (pleaf r t) b (pleaf kr (PVal v)))) q"
        using plook_pleaf_append [of p "[]"] by (simp add: t' k' plook_pleaf)
      also have "\<dots> = (if x = b then Some (if q' = kr then v else []) else if x = a then plook (pleaf r t) q' else Some [])"
        unfolding q(1) plook_pbranch [OF S(3,5,6) q(2)] using leaf_look [of kr q' v] S(8,9) q(3,4) by auto
      also have "\<dots> = (if k' = ?k then Some v else plook (PShort s t) k')"
        unfolding l k' S(2) plook_pleaf_append q(1) using S(3) by auto
      finally show ?thesis .
    next
      case False
      then have "plook t' k' = Some []" by (simp add: t' plook_pleaf)
      moreover have "k' \<noteq> ?k" using False S(2) by auto
      ultimately show ?thesis using plook_pleaf_other [OF False] by (simp only: l if_False)
    qed
  qed
next
  case (6 ts x k v)
  have tk: "tkey (x # k)" "tkey k'" using "6.prems" by (auto simp: at_def)
  note c = at_child [OF "6.prems"(2) tk(1)]
  have l: "length ts = 17" using "6.prems"(2) by simp
  obtain u where u: "pins (ts ! unat x) k v = Some u" "t' = PFull (ts[unat x := u])" using "6.prems"(1) c(1) l by auto
  obtain y q where q: "k' = y # q" using tk(2) by (cases k') auto
  note c' = at_child [OF "6.prems"(2) tk(2) [unfolded q]]
  have "canon (ts ! unat x)" using "6.prems"(2) c(1) by simp
  with "6.IH" [of u q] c u(1) l same_side tk(1) tk(2)[unfolded q] c'(2) show ?case
    by (cases "x = y") (auto simp: u(2) q c'(1) l nth_list_update word_unat_eq_iff)
qed (auto simp: at_def)

lemma length_live: "length (live ts) = card {i. i < length ts \<and> ts ! i \<noteq> PNil}"
proof -
  have "distinct (live ts)" "set (live ts) = {i. i < length ts \<and> ts ! i \<noteq> PNil}" by (auto simp: live_def)
  then show ?thesis by (metis distinct_card)
qed

lemma live_two: "i < length ts \<Longrightarrow> j < length ts \<Longrightarrow> i \<noteq> j \<Longrightarrow> ts ! i \<noteq> PNil \<Longrightarrow> ts ! j \<noteq> PNil \<Longrightarrow> 2 \<le> length (live ts)"
  using card_mono [of "{i. i < length ts \<and> ts ! i \<noteq> PNil}" "{i, j}"] by (simp add: length_live)

lemma live_twoD:
  assumes "2 \<le> length (live ts)"
  obtains i j where "i < length ts" "j < length ts" "i \<noteq> j" "ts ! i \<noteq> PNil" "ts ! j \<noteq> PNil"
proof -
  obtain i j r where l: "live ts = i # j # r" using assms by (cases "live ts"; cases "tl (live ts)") auto
  have "distinct (live ts)" "set (live ts) = {i. i < length ts \<and> ts ! i \<noteq> PNil}" by (auto simp: live_def)
  then show ?thesis using that [of i j] by (auto simp: l)
qed

lemma live_update: "t \<noteq> PNil \<Longrightarrow> length (live ts) \<le> length (live (ts[i := t]))"
  unfolding length_live by (intro card_mono) (auto, metis nth_list_update_eq nth_list_update_neq)

lemma canon_leaf:
  assumes "v \<noteq> []" "k = [] \<or> tkey k"
  shows "canon (pleaf k (PVal v)) \<and> pleaf k (PVal v) \<noteq> PNil \<and> (is_val (pleaf k (PVal v)) \<longleftrightarrow> k = [])"
  using assms by (auto simp: pleaf_def tkey_split)

lemma canon_pbranch:
  assumes "a \<noteq> b" "unat a < 17" "unat b < 17" "canon t" "canon u" "t \<noteq> PNil" "u \<noteq> PNil"
    and "is_val t \<longleftrightarrow> a = 16" "is_val u \<longleftrightarrow> b = 16"
  shows "canon (PFull (pbranch a t b u))"
proof -
  note n = pbranch_nth [OF assms(1-3)]
  have ne: "unat a \<noteq> unat b" using assms(1) by (simp add: word_unat_eq_iff)
  have "\<forall>w \<in> set (pbranch a t b u). canon w"
    using assms(4,5) n by (auto simp: in_set_conv_nth)
  moreover have "\<not> is_val (pbranch a t b u ! i)" if "i < 16" for i
    using that assms(8,9) n [of i] by (auto split: if_splits)
  moreover have "pbranch a t b u ! 16 = PNil \<or> is_val (pbranch a t b u ! 16)"
    using assms(8,9) n [of 16] by (auto simp: word_unat_eq_iff split: if_splits)
  moreover have "2 \<le> length (live (pbranch a t b u))"
    by (rule live_two [of "unat a" _ "unat b"]) (use assms ne n in simp_all)
  ultimately show ?thesis by simp
qed

lemma canon_prefix_full: "canon (PFull ts) \<Longrightarrow> nibbles p \<Longrightarrow> canon (pleaf p (PFull ts)) \<and> pleaf p (PFull ts) \<noteq> PNil \<and> pleaf p (PFull ts) \<noteq> PMiss \<and> \<not> is_val (pleaf p (PFull ts))"
  using nibbles_no_term [of p] by (auto simp: pleaf_def hasTerm_iff)

lemma pins_PMiss: "k \<noteq> [] \<Longrightarrow> pins PMiss k v = None"
  by (cases k) simp_all

lemma canon_suffix:
  assumes "canon (PShort (p @ a # r) t)" "t \<noteq> PNil"
  shows "canon (pleaf r t) \<and> pleaf r t \<noteq> PNil \<and> (is_val (pleaf r t) \<longleftrightarrow> a = 16)"
proof -
  have "\<not> nibbles (16 # x)" for x by simp
  then show ?thesis using assms by (cases t) (auto simp: pleaf_def butlast_append split: if_splits)
qed

lemma canon_PShort_ne: "canon (PShort s t) \<Longrightarrow> t \<noteq> PNil"
  by (auto split: if_splits)

lemma canon_full_update:
  assumes "canon (PFull ts)" "i < 17" "canon u" "is_val u \<Longrightarrow> i = 16" "i = 16 \<Longrightarrow> u = PNil \<or> is_val u" "2 \<le> length (live (ts[i := u]))"
  shows "canon (PFull (ts[i := u]))"
proof -
  have l: "length ts = 17" using assms(1) by simp
  have "\<forall>t \<in> set (ts[i := u]). canon t" using assms(1,3) by (auto dest!: set_update_subset_insert [THEN subsetD])
  moreover have "\<not> is_val (ts[i := u] ! j)" if "j < 16" for j
    using that assms(1,4) by (cases "i = j") (auto simp: nth_list_update l)
  moreover have "ts[i := u] ! 16 = PNil \<or> is_val (ts[i := u] ! 16)"
    using assms(1,5) by (cases "i = 16") (auto simp: nth_list_update l)
  ultimately show ?thesis using assms(6) l by simp
qed

lemma canon_pins:
  "pins t k v = Some t' \<Longrightarrow> canon t \<Longrightarrow> at t k \<Longrightarrow> v \<noteq> [] \<Longrightarrow>
   canon t' \<and> t' \<noteq> PNil \<and> t' \<noteq> PMiss \<and> (is_val t' \<longleftrightarrow> k = []) \<and> (\<forall>ts. t = PFull ts \<longrightarrow> k \<noteq> [] \<longrightarrow> (\<exists>ts'. t' = PFull ts'))"
proof (induction t k v arbitrary: t' rule: pins.induct)
  case (2 y k v)
  then show ?case using canon_leaf [of v "y # k"] by (auto simp: at_def pleaf_def)
next
  case (5 s t y k v)
  let ?k = "y # k"
  have tk: "tkey ?k" using "5.prems" by (auto simp: at_def)
  show ?case
  proof (cases "take (length s) ?k = s")
    case True
    then have m: "prefixLen ?k s = length s" by (simp add: prefixLen_full)
    from "5.prems"(1) obtain u where u: "pins t (drop (length s) ?k) v = Some u" "t' = PShort s u"
      by (auto simp: m Let_def simp del: prefixLen_simps)
    note a = canon_short_at [OF "5.prems"(2) tk True]
    have IH: "canon u" "u \<noteq> PNil" "u \<noteq> PMiss" "is_val u \<longleftrightarrow> drop (length s) ?k = []"
      "\<forall>ts. t = PFull ts \<longrightarrow> drop (length s) ?k \<noteq> [] \<longrightarrow> (\<exists>ts'. u = PFull ts')"
      using "5.IH" [OF refl m] u(1) "5.prems"(2,4) a by (auto simp: m)
    have d: "drop (length s) ?k = [] \<longleftrightarrow> is_val t" using a "5.prems"(2) by (auto simp: at_def split: if_splits)
    show ?thesis using IH d "5.prems"(2) u pins_PMiss [of "drop (length s) ?k" v] by (cases t) (auto simp: u(2) split: if_splits)
  next
    case False
    obtain p a r b kr where S: "s = p @ a # r" "?k = p @ b # kr" "a \<noteq> b" "nibbles p" "unat a < 17" "unat b < 17"
      "at (pleaf r t) (if a = 16 then [] else [16])" "kr = [] \<longleftrightarrow> b = 16" "b = 16 \<or> tkey kr"
      "pins (PShort s t) ?k v = Some (pleaf p (PFull (pbranch a (pleaf r t) b (pleaf kr (PVal v)))))"
      by (rule pins_split [OF "5.prems"(2) tk False])
    have A: "canon (pleaf r t) \<and> pleaf r t \<noteq> PNil \<and> (is_val (pleaf r t) \<longleftrightarrow> a = 16)"
      by (rule canon_suffix [OF "5.prems"(2) [unfolded S(1)] canon_PShort_ne [OF "5.prems"(2)]])
    have B: "canon (pleaf kr (PVal v)) \<and> pleaf kr (PVal v) \<noteq> PNil \<and> (is_val (pleaf kr (PVal v)) \<longleftrightarrow> b = 16)"
      using canon_leaf [of v kr] "5.prems"(4) S(8,9) by blast
    have "canon (PFull (pbranch a (pleaf r t) b (pleaf kr (PVal v))))"
      by (rule canon_pbranch [OF S(3,5,6)]) (use A B in blast)+
    from canon_prefix_full [OF this S(4)] show ?thesis
      using trans [OF sym [OF S(10)] "5.prems"(1)] by auto
  qed
next
  case (6 ts x k v)
  have tk: "tkey (x # k)" using "6.prems" by (auto simp: at_def)
  note c = at_child [OF "6.prems"(2) tk]
  have l: "length ts = 17" using "6.prems"(2) by simp
  obtain u where u: "pins (ts ! unat x) k v = Some u" "t' = PFull (ts[unat x := u])" using "6.prems"(1) c(1) l by auto
  have IH: "canon u" "u \<noteq> PNil" "u \<noteq> PMiss" "is_val u \<longleftrightarrow> k = []" using "6.IH" [of u] u(1) c l "6.prems" by auto
  have x16: "k = [] \<longleftrightarrow> unat x = 16" using tk by (auto simp: word_less_nat_alt word_unat_eq_iff split: if_splits)
  have "2 \<le> length (live (ts[unat x := u]))" using live_update [OF IH(2), of ts "unat x"] "6.prems"(2) by simp
  then have "canon t'"
    unfolding u(2) using c(1) IH x16 by (intro canon_full_update [OF "6.prems"(2)]) auto
  then show ?case by (simp add: u(2))
qed (auto simp: at_def)

lemma pins_None:
  "canon t \<Longrightarrow> at t k \<Longrightarrow> pins t k v = None \<longleftrightarrow> plook t k = None"
proof (induction t k v rule: pins.induct)
  case (5 s t y k v)
  let ?k = "y # k"
  have tk: "tkey ?k" using "5.prems" by (auto simp: at_def)
  show ?case
  proof (cases "take (length s) ?k = s")
    case True
    then have m: "prefixLen ?k s = length s" by (simp add: prefixLen_full)
    show ?thesis using "5.IH" [OF refl m] "5.prems" canon_short_at [OF "5.prems"(1) tk True] True
      by (auto simp: m Let_def simp del: prefixLen_simps)
  next
    case False
    then show ?thesis using prefixLen_full [of ?k s] by (auto simp: Let_def simp del: prefixLen_simps)
  qed
next
  case (6 ts x k v)
  have tk: "tkey (x # k)" using "6.prems" by (auto simp: at_def)
  note c = at_child [OF "6.prems"(1) tk]
  show ?case using "6.IH" c "6.prems" by auto
qed (auto simp: at_def elim!: is_valE)

section \<open>Deletion\<close>

lemma take_append_iff:
  "take (length s + length s') k = s @ s' \<longleftrightarrow> take (length s) k = s \<and> take (length s') (drop (length s) k) = s'"
proof (cases "length s \<le> length k")
  case True
  then show ?thesis by (simp add: take_add append_eq_append_conv)
next
  case False
  then show ?thesis by (auto dest: arg_cong [where f = length])
qed

lemma plook_pshort: "s \<noteq> [] \<Longrightarrow> plook (pshort s t) k = plook (PShort s t) k"
proof (cases t)
  case (PShort s' t')
  show ?thesis using take_append_iff [of s s' k] by (auto simp: pshort_def PShort add.commute)
qed (simp_all add: pshort_def)

lemma canon_pshort:
  assumes "nibbles s" "s \<noteq> []" "canon t" "t \<noteq> PNil" "\<not> is_val t"
  shows "canon (pshort s t)"
proof -
  have "last s \<noteq> 16" using nibbles_no_term [OF assms(1)] assms(2) by (auto simp: hasTerm_iff)
  then show ?thesis using assms by (cases t) (auto simp: pshort_def butlast_append)
qed

lemma pshort_shape [simp]: "pshort s t \<noteq> PNil" "pshort s t \<noteq> PMiss" "\<not> is_val (pshort s t)"
  by (cases t; simp add: pshort_def)+

lemma live_single:
  assumes "live ts = [i]"
  shows "i < length ts" "ts ! i \<noteq> PNil" "\<And>j. j < length ts \<Longrightarrow> j \<noteq> i \<Longrightarrow> ts ! j = PNil"
proof -
  have "set (live ts) = {i. i < length ts \<and> ts ! i \<noteq> PNil}" by (auto simp: live_def)
  then have S: "{i. i < length ts \<and> ts ! i \<noteq> PNil} = {i}" by (simp add: assms)
  show "i < length ts" "ts ! i \<noteq> PNil" using S by auto
  show "\<And>j. j < length ts \<Longrightarrow> j \<noteq> i \<Longrightarrow> ts ! j = PNil" using S by auto
qed

lemma live_update_Suc: "length (live ts) \<le> Suc (length (live (ts[i := t])))"
proof -
  let ?A = "{j. j < length ts \<and> ts ! j \<noteq> PNil}" and ?B = "{j. j < length (ts[i := t]) \<and> ts[i := t] ! j \<noteq> PNil}"
  have "?A \<subseteq> insert i ?B" by auto
  then have "card ?A \<le> card (insert i ?B)" by (intro card_mono) auto
  also have "\<dots> \<le> Suc (card ?B)" by (simp add: card_insert_if)
  finally show ?thesis by (simp only: length_live)
qed

lemma pfull_cases:
  obtains (many) "length (live ts) \<noteq> 1" "pfull ts = Some (PFull ts)"
    | (one) i where "live ts = [i]" "pfull ts = (if ts ! i = PMiss then None else Some (pshort [of_nat i] (ts ! i)))"
proof (cases "live ts")
  case Nil
  then show ?thesis using many by (simp add: pfull_def)
next
  case (Cons i r)
  then show ?thesis using many one by (cases r) (simp_all add: pfull_def)
qed

lemma plook_pfull:
  assumes "pfull ts = Some t'" "length ts = 17" "unat x < 17"
  shows "plook t' (x # k) = plook (PFull ts) (x # k)"
proof (cases rule: pfull_cases [of ts])
  case many
  then show ?thesis using assms by simp
next
  case (one i)
  note L = live_single [OF one(1)]
  have t': "t' = pshort [of_nat i] (ts ! i)" using assms(1) one(2) by (simp split: if_splits)
  have "of_nat i = x \<longleftrightarrow> unat x = i" using L(1) assms(2) by (auto simp: word_unat_eq_iff unat_of_nat)
  then show ?thesis using L(3) [of "unat x"] assms(2,3) by (auto simp: t' plook_pshort)
qed

lemma canon_pfull:
  assumes "pfull (ts[i := u]) = Some t'" "canon (PFull ts)" "i < 17" "canon u" "\<not> is_val u" "i = 16 \<Longrightarrow> u = PNil"
  shows "canon t' \<and> t' \<noteq> PNil \<and> t' \<noteq> PMiss \<and> \<not> is_val t'"
proof (cases rule: pfull_cases [of "ts[i := u]"])
  case many
  moreover have "1 \<le> length (live (ts[i := u]))" using live_update_Suc [of ts i u] assms(2) by simp
  ultimately have "2 \<le> length (live (ts[i := u]))" by linarith
  from canon_full_update [OF assms(2,3,4) _ _ this] show ?thesis using many assms(1,5,6) by auto
next
  case (one n)
  let ?t = "ts[i := u] ! n"
  note L = live_single [OF one(1)]
  have n: "n < 17" using L(1) assms(2) by simp
  have t': "t' = pshort [of_nat n] ?t" using assms(1) one(2) by (simp split: if_splits)
  have c: "canon ?t" using assms(2,4) n by (cases "n = i") (auto simp: nth_list_update)
  show ?thesis
  proof (cases "n = 16")
    case True
    have "is_val ?t" using assms(2,3,6) L(2) True by (cases "i = 16") (auto simp: nth_list_update)
    then show ?thesis using c True by (auto simp: t' pshort_def elim!: is_valE)
  next
    case False
    then have "\<not> is_val ?t" using assms(2,5) n by (cases "n = i") (auto simp: nth_list_update)
    moreover have "nibbles [of_nat n]" using False n by (simp add: word_less_nat_alt unat_of_nat)
    ultimately show ?thesis unfolding t' using canon_pshort [of "[of_nat n]" ?t] c L(2) by simp
  qed
qed

lemma pdel_PMiss: "pdel t k = Some t' \<Longrightarrow> t \<noteq> PMiss"
  by auto

lemma pdel_correct:
  "pdel t k = Some t' \<Longrightarrow> canon t \<Longrightarrow> at t k \<Longrightarrow>
   canon t' \<and> \<not> is_val t' \<and> t' \<noteq> PMiss \<and> (k = [] \<longrightarrow> t' = PNil) \<and> (\<forall>ts. t = PFull ts \<longrightarrow> t' \<noteq> PNil) \<and>
   (\<forall>k'. at t k' \<longrightarrow> (k = [] \<longleftrightarrow> k' = []) \<longrightarrow> plook t' k' = (if k' = k then Some [] else plook t k'))"
proof (induction t k arbitrary: t' rule: pdel.induct)
  case (4 s t k)
  have tk: "tkey k" using "4.prems"(3) by (auto simp: at_def split: if_splits)
  show ?case
  proof (cases "take (length s) k = s")
    case False
    then show ?thesis using "4.prems" tk by auto
  next
    case True
    show ?thesis
    proof (cases "k = s")
      case k: True
      have "plook (PShort s t) k' = Some []" if "tkey k'" "k' \<noteq> k" for k'
        using that tkey_prefix [OF tk that(1)] k by auto
      then show ?thesis using "4.prems" k tk by (auto simp: at_def split: if_splits)
    next
      case False
      then have ne: "drop (length s) k \<noteq> []" using True by (metis append_Nil2 append_take_drop_id)
      then have l: "last s \<noteq> 16" using canon_short_at [OF "4.prems"(2) tk True] "4.prems"(2) by (auto simp: at_def split: if_splits)
      obtain u where u: "pdel t (drop (length s) k) = Some u" "t' = pshort s u" using "4.prems"(1) True False by auto
      then obtain ts where t: "t = PFull ts" using "4.prems"(2) l pdel_PMiss [OF u(1)] by (cases t) auto
      note IH = "4.IH" [OF _ False u(1) _ canon_short_at [OF "4.prems"(2) tk True]]
      have "canon t'" unfolding u(2) using IH "4.prems"(2) l True t by (intro canon_pshort) auto
      moreover have "plook t' k' = (if k' = k then Some [] else plook (PShort s t) k')" if k': "tkey k'" for k'
      proof (cases "take (length s) k' = s")
        case T': True
        have "drop (length s) k' = drop (length s) k \<longleftrightarrow> k' = k" using True T' by (metis append_take_drop_id)
        then show ?thesis
          using IH True "4.prems"(2) canon_short_at [OF "4.prems"(2) k' T'] tkey_drop_short [OF "4.prems"(2) tk k' True T'] T'
          by (simp add: u(2) plook_pshort)
      next
        case F: False
        then show ?thesis using True "4.prems"(2) by (auto simp: u(2) plook_pshort)
      qed
      ultimately show ?thesis using tk by (auto simp: u(2) at_def)
    qed
  qed
next
  case (6 ts x k)
  have tk: "tkey (x # k)" using "6.prems"(3) by (auto simp: at_def)
  note c = at_child [OF "6.prems"(2) tk]
  have l: "length ts = 17" using "6.prems"(2) by simp
  obtain u where u: "pdel (ts ! unat x) k = Some u" "pfull (ts[unat x := u]) = Some t'"
    using "6.prems"(1) c(1) l by (auto simp: bind_eq_Some_conv)
  have IH: "canon u" "\<not> is_val u" "k = [] \<longrightarrow> u = PNil"
    "\<And>k'. at (ts ! unat x) k' \<Longrightarrow> (k = [] \<longleftrightarrow> k' = []) \<Longrightarrow> plook u k' = (if k' = k then Some [] else plook (ts ! unat x) k')"
    using "6.IH" [OF _ u(1)] c l "6.prems"(2) by auto
  have x16: "k = [] \<longleftrightarrow> unat x = 16" using tk by (auto simp: word_less_nat_alt word_unat_eq_iff split: if_splits)
  have "plook t' k' = (if k' = x # k then Some [] else plook (PFull ts) k')" if k': "tkey k'" for k'
  proof -
    obtain y q where q: "k' = y # q" "unat y < 17" using k' by (rule tkeyE)
    note c' = at_child [OF "6.prems"(2) k' [unfolded q(1)]]
    have "plook t' k' = plook (PFull (ts[unat x := u])) k'" using plook_pfull [OF u(2)] l q by simp
    also have "\<dots> = (if k' = x # k then Some [] else plook (PFull ts) k')"
      using IH(4) [of q] c' same_side [OF tk, of q] k' l c(1) by (cases "x = y") (auto simp: q(1) word_unat_eq_iff)
    finally show ?thesis .
  qed
  with canon_pfull [OF u(2) "6.prems"(2) c(1) IH(1,2)] IH(3) x16 show ?case by (auto simp: at_def)
qed (auto simp: at_def elim!: is_valE)

section \<open>The canonical form is determined by the map\<close>

fun loaded :: "ptree \<Rightarrow> bool" where
  "loaded PMiss = False"
| "loaded (PShort s t) = loaded t"
| "loaded (PFull ts) = (\<forall>t \<in> set ts. loaded t)"
| "loaded _ = True"

lemma tkey_child: "i < 17 \<Longrightarrow> (i = 16 \<longrightarrow> k = []) \<Longrightarrow> (i \<noteq> 16 \<longrightarrow> tkey k) \<Longrightarrow> tkey (of_nat i # k) \<and> unat (of_nat i :: byte) = i"
  by (auto simp: word_less_nat_alt unat_of_nat word_unat_eq_iff)

lemma val_position: "canon (PFull ts) \<Longrightarrow> i < 17 \<Longrightarrow> ts ! i \<noteq> PNil \<Longrightarrow> is_val (ts ! i) \<longleftrightarrow> i = 16"
  by (cases "i < 16"; cases "i = 16") auto

lemma some_key:
  "canon t \<Longrightarrow> loaded t \<Longrightarrow> t \<noteq> PNil \<Longrightarrow> \<exists>k. (if is_val t then k = [] else tkey k) \<and> plook t k \<noteq> Some []"
proof (induction t)
  case (PShort s t)
  have c: "canon t" "loaded t" "t \<noteq> PNil" using PShort.prems canon_PShort_ne [OF PShort.prems(1)] by auto
  from PShort.IH [OF c] obtain k where k: "if is_val t then k = [] else tkey k" "plook t k \<noteq> Some []" by blast
  have "tkey (s @ k)"
  proof (cases "last s = 16")
    case True
    then show ?thesis using k(1) PShort.prems(1) canon_short_tkey [OF PShort.prems(1)] by auto
  next
    case False
    then show ?thesis using k(1) PShort.prems(1) tkey_append [of s k] by (cases t) auto
  qed
  then show ?case using k(2) by (intro exI [of _ "s @ k"]) simp
next
  case (PFull ts)
  obtain i j where i: "i < length ts" "ts ! i \<noteq> PNil" using PFull.prems(1) by (auto elim!: live_twoD)
  then have m: "ts ! i \<in> set ts" by simp
  have c: "canon (ts ! i)" "loaded (ts ! i)" using PFull.prems m by auto
  from PFull.IH [OF m c i(2)] obtain k where k: "if is_val (ts ! i) then k = [] else tkey k" "plook (ts ! i) k \<noteq> Some []" by blast
  have "is_val (ts ! i) \<longleftrightarrow> i = 16" using val_position [OF PFull.prems(1)] PFull.prems(1) i by simp
  then have "tkey (of_nat i # k) \<and> unat (of_nat i :: byte) = i" using k(1) i(1) PFull.prems(1) by (intro tkey_child) (auto split: if_splits)
  then show ?case using k(2) i(1) by (intro exI [of _ "of_nat i # k"]) simp
qed auto

lemma two_keys:
  assumes "canon (PFull ts)" "loaded (PFull ts)"
  obtains x k y k' where "x \<noteq> y" "tkey (x # k)" "tkey (y # k')" "plook (PFull ts) (x # k) \<noteq> Some []" "plook (PFull ts) (y # k') \<noteq> Some []"
proof -
  have K: "\<exists>k. tkey (of_nat i # k) \<and> unat (of_nat i :: byte) = i \<and> plook (PFull ts) (of_nat i # k) \<noteq> Some []"
    if i: "i < length ts" "ts ! i \<noteq> PNil" for i
  proof -
    have c: "canon (ts ! i)" "loaded (ts ! i)" using assms i by auto
    from some_key [OF this i(2)] obtain k where k: "if is_val (ts ! i) then k = [] else tkey k" "plook (ts ! i) k \<noteq> Some []" by blast
    have "is_val (ts ! i) \<longleftrightarrow> i = 16" using val_position [OF assms(1)] assms(1) i by simp
    then have "tkey (of_nat i # k) \<and> unat (of_nat i :: byte) = i" using k(1) i(1) assms(1) by (intro tkey_child) (auto split: if_splits)
    then show ?thesis using k(2) i(1) by (intro exI [of _ k]) simp
  qed
  from assms(1) have "2 \<le> length (live ts)" by simp
  then obtain i j where ij: "i < length ts" "j < length ts" "i \<noteq> j" "ts ! i \<noteq> PNil" "ts ! j \<noteq> PNil" by (rule live_twoD)
  show ?thesis using K [OF ij(1,4)] K [OF ij(2,5)] ij(3) that by metis
qed

lemma short_prefix: "plook (PShort s t) k \<noteq> Some [] \<Longrightarrow> take (length s) k = s"
  by (auto split: if_splits)

lemma short_not_full:
  assumes "canon (PShort s u)" "canon (PFull ts)" "loaded (PFull ts)" "\<forall>k. tkey k \<longrightarrow> plook (PShort s u) k = plook (PFull ts) k"
  shows False
proof -
  obtain x k y k' where K: "x \<noteq> y" "tkey (x # k)" "tkey (y # k')" "plook (PFull ts) (x # k) \<noteq> Some []" "plook (PFull ts) (y # k') \<noteq> Some []"
    by (rule two_keys [OF assms(2,3)])
  then have "take (length s) (x # k) = s" "take (length s) (y # k') = s" using assms(4) short_prefix by metis+
  moreover have "s \<noteq> []" using assms(1) by simp
  ultimately show False using K(1) by (cases s) auto
qed

lemma short_not_longer:
  assumes "canon (PShort s u)" "loaded u" "canon (PShort (s @ a # r) u')"
    and "\<forall>k. tkey k \<longrightarrow> plook (PShort s u) k = plook (PShort (s @ a # r) u') k"
  shows False
proof -
  have n: "nibbles s" using assms(3) by (auto simp: butlast_append split: if_splits)
  then have l: "last s \<noteq> 16" using nibbles_no_term [OF n] assms(1) by (auto simp: hasTerm_iff)
  then obtain ts where u: "u = PFull ts" using assms(1,2) by (cases u) auto
  have c: "canon (PFull ts)" "loaded (PFull ts)" using assms(1,2) by (simp_all add: u)
  obtain x k y k' where K: "x \<noteq> y" "tkey (x # k)" "tkey (y # k')" "plook u (x # k) \<noteq> Some []" "plook u (y # k') \<noteq> Some []"
    using two_keys [OF c] unfolding u .
  have "take (length (s @ a # r)) (s @ q) = s @ a # r" if q: "tkey q" "plook u q \<noteq> Some []" for q
  proof (rule short_prefix)
    have "plook (PShort (s @ a # r) u') (s @ q) = plook (PShort s u) (s @ q)"
      by (rule assms(4) [rule_format, symmetric]) (simp add: q(1) tkey_append [OF n])
    also have "\<dots> \<noteq> Some []" using q(2) by simp
    finally show "plook (PShort (s @ a # r) u') (s @ q) \<noteq> Some []" .
  qed
  from this [OF K(2,4)] this [OF K(3,5)] show False using K(1) by simp
qed

lemma prefix_compare: "take (length s) k = s \<Longrightarrow> take (length s') k = s' \<Longrightarrow> s = s' \<or> (\<exists>a r. s' = s @ a # r) \<or> (\<exists>a r. s = s' @ a # r)"
proof -
  assume a: "take (length s) k = s" "take (length s') k = s'"
  from a have "prefix s k" "prefix s' k" by (metis take_is_prefix)+
  from prefix_same_cases [OF this] have "(\<exists>q. s' = s @ q) \<or> (\<exists>q. s = s' @ q)" by (simp add: prefix_def)
  then show ?thesis by (metis append_Nil2 neq_Nil_conv)
qed

lemma canon_unique:
  "canon t \<Longrightarrow> canon t' \<Longrightarrow> loaded t \<Longrightarrow> loaded t' \<Longrightarrow> \<not> is_val t \<Longrightarrow> \<not> is_val t' \<Longrightarrow>
   \<forall>k. tkey k \<longrightarrow> plook t k = plook t' k \<Longrightarrow> t = t'"
proof (induction t arbitrary: t')
  case PNil
  have "\<exists>k. tkey k \<and> plook t' k \<noteq> Some []" if "t' \<noteq> PNil" using some_key [of t'] PNil that by auto
  then show ?case using PNil.prems(7) by force
next
  case (PShort s u)
  note E = PShort.prems(7)
  show ?case
  proof (cases t')
    case PNil
    then show ?thesis using some_key [of "PShort s u"] PShort.prems by auto
  next
    case (PFull ts)
    then show ?thesis using short_not_full [of s u ts] PShort.prems by blast
  next
    case t': (PShort s' u')
    have "\<exists>k. tkey k \<and> plook (PShort s u) k \<noteq> Some []" using some_key [of "PShort s u"] PShort.prems by auto
    then obtain k where "tkey k" "plook (PShort s u) k \<noteq> Some []" "plook (PShort s' u') k \<noteq> Some []" using E t' by metis
    then have "s = s' \<or> (\<exists>a r. s' = s @ a # r) \<or> (\<exists>a r. s = s' @ a # r)" by (intro prefix_compare [of s k] short_prefix)
    moreover have "s' \<noteq> s @ a # r" for a r
      using short_not_longer [OF PShort.prems(1), of a r u'] PShort.prems(2,3) E by (auto simp only: t' loaded.simps)
    moreover have "s \<noteq> s' @ a # r" for a r
      using short_not_longer [OF PShort.prems(2) [unfolded t'], of a r u] PShort.prems(1,4) E by (auto simp only: t' loaded.simps eq_commute [of "plook (PShort s' u') k" for k])
    ultimately have s: "s = s'" by blast
    have E': "plook u q = plook u' q" if "tkey (s @ q)" for q using E that by (auto simp: t' s)
    show ?thesis
    proof (cases "last s = 16")
      case True
      then have "tkey (s @ [])" using canon_short_tkey PShort.prems(1) by simp
      from E' [OF this] show ?thesis using True PShort.prems by (auto simp: t' s elim!: is_valE split: if_splits)
    next
      case False
      then have n: "nibbles s" "canon u" "canon u'" "\<not> is_val u" "\<not> is_val u'" using PShort.prems by (auto simp: t' s split: ptree.splits)
      have "u = u'" using PShort.IH [OF n(2,3) _ _ n(4,5)] PShort.prems E' tkey_append [OF n(1)] by (simp add: t')
      then show ?thesis by (simp add: t' s)
    qed
  qed (use PShort.prems in auto)
next
  case (PFull ts)
  note E = PFull.prems(7)
  show ?case
  proof (cases t')
    case PNil
    then show ?thesis using some_key [of "PFull ts"] PFull.prems by auto
  next
    case (PShort s u)
    then show ?thesis using short_not_full [OF PFull.prems(2) [unfolded PShort] PFull.prems(1,3)] E by metis
  next
    case t': (PFull ts')
    have "ts ! i = ts' ! i" if i: "i < 17" for i
    proof (cases "i = 16")
      case True
      have "plook (ts ! 16) [] = plook (ts' ! 16) []" using E [rule_format, of "[16]"] PFull.prems by (simp add: t')
      moreover have "canon (ts ! 16)" "canon (ts' ! 16)" using PFull.prems by (auto simp: t')
      then have "ts ! 16 \<noteq> PVal []" "ts' ! 16 \<noteq> PVal []" by auto
      ultimately show ?thesis using PFull.prems True by (auto simp: t' elim!: is_valE)
    next
      case False
      have m: "ts ! i \<in> set ts" "ts' ! i \<in> set ts'" using i PFull.prems by (auto simp: t')
      have "plook (ts ! i) k = plook (ts' ! i) k" if "tkey k" for k
        using E [rule_format, of "of_nat i # k"] tkey_child [OF i, of k] that False PFull.prems i by (auto simp: t')
      then show ?thesis using PFull.IH [OF m(1), of "ts' ! i"] PFull.prems m False i by (auto simp: t')
    qed
    then have "ts = ts'" using PFull.prems by (intro nth_equalityI) (auto simp: t')
    then show ?thesis by (simp add: t')
  qed (use PFull.prems in auto)
qed auto

end
