(* ===== verification/Trie_Correct.thy ===== *)
theory Trie_Correct
  imports Trie_Node Trie_Pure Trie_Interface
begin

text \<open>
  The trie of \<^verbatim>\<open>trie/trie.go\<close> is a map.  A node with its references into the database represents a pure tree of
  theory \<open>Trie_Pure\<close>; lookup, insertion and deletion of the code compute the operations of the pure tree.  Hence
  a trie in canonical form behaves as a map whose reads and writes may fail on missing nodes, and its structure, and
  with it its root hash, depends on the map alone and not on the order of the updates.
\<close>

section \<open>The tree that a node represents\<close>

definition branching :: "node \<Rightarrow> bool" where
  "branching n = (case n of shortNode _ _ _ \<Rightarrow> True | fullNode _ _ \<Rightarrow> True | _ \<Rightarrow> False)"

inductive ld :: "node_db \<Rightarrow> uint16 \<Rightarrow> node \<Rightarrow> ptree \<Rightarrow> bool" for db gen where
  ld_nil: "ld db gen nilNode PNil"
| ld_value: "ld db gen (valueNode v) (PVal v)"
| ld_short: "ld db gen n t \<Longrightarrow> ld db gen (shortNode k n fl) (PShort k t)"
| ld_full: "length cs = length ts \<Longrightarrow> (\<And>i. i < length cs \<Longrightarrow> ld db gen (cs ! i) (ts ! i)) \<Longrightarrow> ld db gen (fullNode cs fl) (PFull ts)"
| ld_hash: "db (BytesToHash h) gen = Some n \<Longrightarrow> branching n \<Longrightarrow> ld db gen n t \<Longrightarrow> ld db gen (hashNode h) t"
| ld_miss: "db (BytesToHash h) gen = None \<Longrightarrow> ld db gen (hashNode h) PMiss"

inductive_simps ld_simps:
  "ld db gen nilNode t" "ld db gen (valueNode v) t" "ld db gen (shortNode k n fl) t" "ld db gen (fullNode cs fl) t"

lemma branching_simps [simp]:
  "branching (shortNode k n fl)" "branching (fullNode cs fl)" "\<not> branching nilNode" "\<not> branching (valueNode v)" "\<not> branching (hashNode h)"
  by (simp_all add: branching_def)

lemma ld_update:
  assumes "ld db gen (fullNode cs fl) (PFull ts)" "ld db gen n t"
  shows "ld db gen (fullNode (cs[i := n]) fl') (PFull (ts[i := t]))"
proof (rule ld_full)
  show "length (cs[i := n]) = length (ts[i := t])" using assms(1) by (simp add: ld_simps)
  show "ld db gen (cs[i := n] ! j) (ts[i := t] ! j)" if "j < length (cs[i := n])" for j
    using assms that by (cases "i = j") (auto simp: ld_simps)
qed

lemma take_eq_length: "take (length k) xs = k \<Longrightarrow> length k \<le> length xs"
  by (metis length_take min.cobounded1)

section \<open>Lookup\<close>

lemma tryGet_correct:
  "ld db gen n t \<Longrightarrow> canon t \<Longrightarrow> at t (drop pos key) \<Longrightarrow> pos \<le> length key \<Longrightarrow>
   (case plook t (drop pos key) of
      None \<Rightarrow> \<exists>n' b e. tryGet db gen n key pos = Some ([], n', b, Some e)
    | Some v \<Rightarrow> \<exists>n' b. tryGet db gen n key pos = Some (v, n', b, None) \<and> ld db gen n' t)"
proof (induction arbitrary: pos rule: ld.induct)
  case ld_nil
  then show ?case by (auto simp: tryGet.simps ld.ld_nil)
next
  case (ld_value v)
  then show ?case by (auto simp: tryGet.simps ld.ld_value)
next
  case (ld_short n t k fl)
  have tk: "tkey (drop pos key)" using ld_short.prems(2) by (auto simp: at_def split: if_splits)
  let ?c = "take (length k) (drop pos key) = k"
  have len: "?c \<Longrightarrow> pos + length k \<le> length key"
    using take_eq_length [of k "drop pos key"] ld_short.prems(3) by simp
  show ?case
  proof (cases ?c)
    case False
    then show ?thesis using ld.ld_short [OF ld_short.hyps] by (auto simp: tryGet.simps [of _ _ "shortNode k n fl"])
  next
    case True
    have d: "drop (length k) (drop pos key) = drop (pos + length k) key" by (simp add: add.commute)
    note a = canon_short_at [OF ld_short.prems(1) tk True, unfolded d]
    note pl = len [OF True]
    have IH: "case plook t (drop (pos + length k) key) of
      None \<Rightarrow> \<exists>n' b e. tryGet db gen n key (pos + length k) = Some ([], n', b, Some e)
    | Some v \<Rightarrow> \<exists>n' b. tryGet db gen n key (pos + length k) = Some (v, n', b, None) \<and> ld db gen n' t"
      using ld_short.IH [of "pos + length k"] ld_short.prems(1) a pl by simp
    have go: "\<not> (int (length key) - int pos < int (length k) \<or> k \<noteq> take (length k) (drop pos key))" using True pl by auto
    show ?thesis
      using IH True go ld.ld_short [OF ld_short.hyps] unfolding tryGet.simps [of _ _ "shortNode k n fl"] plook.simps d
      by (auto split: option.splits intro: ld.ld_short)
  qed
next
  case (ld_full cs ts fl)
  have tk: "tkey (drop pos key)" using ld_full.prems(2) by (auto simp: at_def split: if_splits)
  then have pos: "pos < length key" by (cases "pos < length key") auto
  then have d: "drop pos key = key ! pos # drop (Suc pos) key" by (simp add: Cons_nth_drop_Suc)
  note c = at_child [OF ld_full.prems(1) tk [unfolded d]]
  have l: "length ts = 17" "length cs = 17" using ld_full.prems(1) ld_full.hyps(1) by auto
  have self: "ld db gen (fullNode cs fl) (PFull ts)" using ld_full.hyps by (intro ld.ld_full) auto
  have IH: "case plook (ts ! unat (key ! pos)) (drop (Suc pos) key) of
      None \<Rightarrow> \<exists>n' b e. tryGet db gen (cs ! unat (key ! pos)) key (Suc pos) = Some ([], n', b, Some e)
    | Some v \<Rightarrow> \<exists>n' b. tryGet db gen (cs ! unat (key ! pos)) key (Suc pos) = Some (v, n', b, None) \<and> ld db gen n' (ts ! unat (key ! pos))"
    using ld_full.IH [of "unat (key ! pos)" "Suc pos"] c l ld_full.prems(1) pos by simp
  have upd: "ld db gen (fullNode (cs[unat (key ! pos) := n']) fl') (PFull ts)" if "ld db gen n' (ts ! unat (key ! pos))" for n' fl'
    using ld_update [OF self that, of "unat (key ! pos)" fl'] by simp
  show ?case
    using IH pos c(1) l self upd unfolding d tryGet.simps [of _ _ "fullNode cs fl"]
    by (auto simp: get_child_def split: option.splits)
next
  case (ld_hash h n t)
  have "resolveHash db gen h (take pos key) = Inr n" using ld_hash.hyps(1) by (simp add: resolveHash_def Let_def)
  then show ?case
    using ld_hash.IH [OF ld_hash.prems] unfolding tryGet.simps [of _ _ "hashNode h"]
    by (auto split: option.splits)
next
  case (ld_miss h)
  then show ?case unfolding tryGet.simps [of _ _ "hashNode h"] by (auto simp: resolveHash_def Let_def)
qed

section \<open>Insertion\<close>

text \<open>What an operation of the code returns, against the result of the operation on pure trees.\<close>

definition computes :: "node_db \<Rightarrow> uint16 \<Rightarrow> ptree \<Rightarrow> (trie_err + bool \<times> node) option \<Rightarrow> ptree option \<Rightarrow> bool" where
  "computes db gen t r p =
     (case p of
        None \<Rightarrow> \<exists>e. r = Some (Inl e)
      | Some t' \<Rightarrow> \<exists>d n'. r = Some (Inr (d, n')) \<and> ld db gen n' t' \<and> (\<not> d \<longrightarrow> t' = t) \<and> (d \<longrightarrow> (\<forall>h. n' \<noteq> hashNode h)))"

lemma computesE:
  assumes "computes db gen t r p"
  obtains (err) e where "p = None" "r = Some (Inl e)"
    | (ok) t' d n' where "p = Some t'" "r = Some (Inr (d, n'))" "ld db gen n' t'" "\<not> d \<Longrightarrow> t' = t" "\<And>h. d \<Longrightarrow> n' \<noteq> hashNode h"
  using assms by (auto simp: computes_def split: option.splits)

lemma computesI: "ld db gen n' t' \<Longrightarrow> (\<not> d \<Longrightarrow> t' = t) \<Longrightarrow> (\<And>h. d \<Longrightarrow> n' \<noteq> hashNode h) \<Longrightarrow> computes db gen t (Some (Inr (d, n'))) (Some t')"
  by (simp add: computes_def)

lemma computes_err: "computes db gen t (Some (Inl e)) None"
  by (simp add: computes_def)

lemma insert_nil: "mpt_insert db gen nilNode pfx key value = Some (Inr (True, if key = [] then value else shortNode key value (newFlag gen)))"
  by (simp add: mpt_insert.simps)

lemma ld_leaf: "ld db gen n t \<Longrightarrow> ld db gen (if key = [] then n else shortNode key n fl) (pleaf key t)"
  by (simp add: pleaf_def ld_short)

lemma ld_branch:
  assumes "ld db gen c1 t1" "ld db gen c2 t2" "a \<noteq> b" "unat a < 17" "unat b < 17"
  shows "ld db gen (fullNode ((replicate 17 nilNode)[unat a := c1, unat b := c2]) fl) (PFull (pbranch a t1 b t2))"
proof -
  have "ld db gen (fullNode (replicate 17 nilNode) fl) (PFull (replicate 17 PNil))" by (intro ld_full) (auto intro: ld_nil)
  from ld_update [OF ld_update [OF this assms(1)] assms(2)] show ?thesis by (simp add: pbranch_def)
qed

lemma insert_correct:
  "ld db gen n t \<Longrightarrow> canon t \<Longrightarrow> at t key \<Longrightarrow>
   computes db gen t (mpt_insert db gen n pfx key (valueNode v)) (pins t key v)"
proof (induction arbitrary: pfx key rule: ld.induct)
  case ld_nil
  then show ?case using ld_leaf [OF ld_value [of db gen v], of key "newFlag gen"]
    by (cases key) (auto simp: insert_nil pleaf_def intro!: computesI)
next
  case (ld_value w)
  then show ?case by (auto simp: mpt_insert.simps at_def intro!: computesI ld.ld_value split: if_splits)
next
  case (ld_short n t k fl)
  have tk: "tkey key" using ld_short.prems(2) by (auto simp: at_def split: if_splits)
  then have ne: "key \<noteq> []" by auto
  then obtain y key' where key: "key = y # key'" by (cases key) auto
  show ?case
  proof (cases "take (length k) key = k")
    case True
    then have m: "prefixLen key k = length k" by (simp add: prefixLen_full)
    have p: "pins (PShort k t) key v = map_option (PShort k) (pins t (drop (length k) key) v)"
      using m unfolding key by (simp add: Let_def del: prefixLen_simps)
    have "computes db gen t (mpt_insert db gen n (pfx @ take (length k) key) (drop (length k) key) (valueNode v)) (pins t (drop (length k) key) v)"
      using ld_short.IH ld_short.prems(1) canon_short_at [OF ld_short.prems(1) tk True] by simp
    then show ?thesis
    proof (cases rule: computesE)
      case (err e)
      then show ?thesis unfolding p mpt_insert.simps [of _ _ "shortNode k n fl"] using ne m by (simp add: computes_err)
    next
      case (ok t' d n')
      have "mpt_insert db gen (shortNode k n fl) pfx key (valueNode v) =
          Some (Inr (d, if d then shortNode k n' (newFlag gen) else shortNode k n fl))"
        unfolding mpt_insert.simps [of _ _ "shortNode k n fl"] using ne m ok by simp
      then show ?thesis using ok ld_short.hyps by (auto simp: p intro!: computesI ld.ld_short)
    qed
  next
    case False
    obtain p a r b kr where S: "k = p @ a # r" "key = p @ b # kr" "a \<noteq> b" "length p = prefixLen key k" "nibbles p" "unat a < 17" "unat b < 17"
      "at (pleaf r t) (if a = 16 then [] else [16])" "kr = [] \<longleftrightarrow> b = 16" "b = 16 \<or> tkey kr"
      by (rule short_split [OF ld_short.prems(1) tk False])
    have P: "pins (PShort k t) key v = Some (pleaf p (PFull (pbranch a (pleaf r t) b (pleaf kr (PVal v)))))"
      using S(4) unfolding key pins.simps unfolding key [symmetric] S(4) [symmetric] by (simp add: S(1,2) Let_def nth_append)
    define c1 c2 where "c1 = (if r = [] then n else shortNode r n (newFlag gen))"
      and "c2 = (if kr = [] then valueNode v else shortNode kr (valueNode v) (newFlag gen))"
    define f where "f = fullNode ((replicate 17 nilNode)[unat a := c1, unat b := c2]) (newFlag gen)"
    have i: "mpt_insert db gen nilNode q r n = Some (Inr (True, c1))" "mpt_insert db gen nilNode q kr (valueNode v) = Some (Inr (True, c2))" for q
      by (simp_all add: insert_nil c1_def c2_def)
    have s: "set_child (replicate 17 nilNode) a c1 = Some ((replicate 17 nilNode)[unat a := c1])"
      "set_child ((replicate 17 nilNode)[unat a := c1]) b c2 = Some ((replicate 17 nilNode)[unat a := c1, unat b := c2])"
      using S(6,7) by (simp_all add: set_child_def)
    have q: "length p \<noteq> length k" "drop (length p + 1) k = r" "k ! length p = a" "\<not> length key \<le> length p"
      "drop (length p + 1) key = kr" "key ! length p = b" "take (length p) key = p"
      by (simp_all add: S(1,2))
    have "mpt_insert db gen (shortNode k n fl) pfx key (valueNode v) = Some (Inr (True, if p = [] then f else shortNode p f (newFlag gen)))"
      unfolding mpt_insert.simps [of _ _ "shortNode k n fl"] node.case S(4) [symmetric] Let_def q i f_def
      by (simp only: ne s q if_False Option.bind.simps sum.case prod.case length_0_conv)
    moreover have "ld db gen f (PFull (pbranch a (pleaf r t) b (pleaf kr (PVal v))))"
      unfolding f_def c1_def c2_def by (rule ld_branch [OF ld_leaf ld_leaf]) (use ld_short.hyps S(3,6,7) ld.ld_value in auto)
    from ld_leaf [OF this, of p "newFlag gen"] have "ld db gen (if p = [] then f else shortNode p f (newFlag gen))
      (pleaf p (PFull (pbranch a (pleaf r t) b (pleaf kr (PVal v)))))" .
    ultimately show ?thesis unfolding P by (auto intro!: computesI simp: f_def)
  qed
next
  case (ld_full cs ts fl)
  have tk: "tkey key" using ld_full.prems(2) by (auto simp: at_def split: if_splits)
  then obtain x k where key: "key = x # k" by (cases key) auto
  note c = at_child [OF ld_full.prems(1) tk [unfolded key]]
  have l: "length ts = 17" "length cs = 17" using ld_full.prems(1) ld_full.hyps(1) by auto
  have self: "ld db gen (fullNode cs fl) (PFull ts)" using ld_full.hyps by (intro ld.ld_full) auto
  have "computes db gen (ts ! unat x) (mpt_insert db gen (cs ! unat x) (pfx @ [x]) k (valueNode v)) (pins (ts ! unat x) k v)"
    using ld_full.IH [of "unat x"] c l ld_full.prems(1) by simp
  then show ?case
  proof (cases rule: computesE)
    case (err e)
    then show ?thesis unfolding mpt_insert.simps [of _ _ "fullNode cs fl"] using c l by (simp add: key get_child_def computes_err)
  next
    case (ok t' d n')
    have "mpt_insert db gen (fullNode cs fl) pfx key (valueNode v) =
        Some (Inr (d, if d then fullNode (cs[unat x := n']) (newFlag gen) else fullNode cs fl))"
      unfolding mpt_insert.simps [of _ _ "fullNode cs fl"] using c l ok by (simp add: key get_child_def)
    then show ?thesis using ok ld_update [OF self ok(3)] self c l by (auto simp: key intro!: computesI)
  qed
next
  case (ld_hash h n t)
  have r: "resolveHash db gen h pfx = Inr n" using ld_hash.hyps(1) by (simp add: resolveHash_def Let_def)
  have nv: "key \<noteq> []" using ld_hash.hyps(2,3) ld_hash.prems(2) by (cases n) (auto simp: ld_simps at_def)
  have "computes db gen t (mpt_insert db gen n pfx key (valueNode v)) (pins t key v)" by (rule ld_hash.IH [OF ld_hash.prems])
  then show ?case
  proof (cases rule: computesE)
    case (err e)
    then show ?thesis unfolding mpt_insert.simps [of _ _ "hashNode h"] using r nv by (simp add: computes_err)
  next
    case (ok t' d n')
    then show ?thesis unfolding mpt_insert.simps [of _ _ "hashNode h"] using r nv ld_hash.hyps by (auto intro!: computesI)
  qed
next
  case (ld_miss h)
  then have "key \<noteq> []" by (auto simp: at_def)
  then show ?case unfolding mpt_insert.simps [of _ _ "hashNode h"] using ld_miss.hyps
    by (simp add: resolveHash_def Let_def pins_PMiss computes_err)
qed

section \<open>Deletion\<close>

lemma ld_nil_iff: "ld db gen n t \<Longrightarrow> n = nilNode \<longleftrightarrow> t = PNil"
proof (induction rule: ld.induct)
  case (ld_hash h n t)
  then show ?case by auto
qed auto

lemma live_Cons: "live (t # ts) = (if t \<noteq> PNil then [0] else []) @ map Suc (live ts)"
proof -
  have "[0..<length (t # ts)] = 0 # map Suc [0..<length ts]" by (simp add: upt_conv_Cons map_Suc_upt del: upt_Suc)
  then show ?thesis by (simp add: live_def filter_map comp_def)
qed

lemma single_child_seen: "0 \<le> p \<Longrightarrow> single_child cs i p = (if list_all (\<lambda>c. c = nilNode) cs then p else -2)"
  by (induction cs arbitrary: i) auto

lemma live_Nil_iff: "live ts = [] \<longleftrightarrow> (\<forall>j < length ts. ts ! j = PNil)"
  by (auto simp: live_def filter_empty_conv)

lemma single_child_eq:
  "length cs = length ts \<Longrightarrow> (\<And>j. j < length cs \<Longrightarrow> cs ! j = nilNode \<longleftrightarrow> ts ! j = PNil) \<Longrightarrow>
   single_child cs (int i) (-1) = (case live ts of [] \<Rightarrow> -1 | [j] \<Rightarrow> int (i + j) | _ \<Rightarrow> -2)"
proof (induction cs arbitrary: ts i)
  case (Cons c cs)
  obtain t ts' where ts: "ts = t # ts'" using Cons.prems(1) by (cases ts) auto
  have e: "cs ! j = nilNode \<longleftrightarrow> ts' ! j = PNil" if "j < length cs" for j using Cons.prems(2) [of "Suc j"] that by (simp add: ts)
  have c: "c = nilNode \<longleftrightarrow> t = PNil" using Cons.prems(2) [of 0] by (simp add: ts)
  have l: "length cs = length ts'" using Cons.prems(1) by (simp add: ts)
  have a: "list_all (\<lambda>c. c = nilNode) cs \<longleftrightarrow> live ts' = []" using e l by (auto simp: live_Nil_iff list_all_length)
  show ?case
  proof (cases "c = nilNode")
    case True
    then show ?thesis using Cons.IH [OF l e, of "Suc i"] c by (simp add: ts live_Cons add.commute split: list.splits)
  next
    case False
    then show ?thesis using c a single_child_seen [of "int i" cs "int i + 1"] by (auto simp: ts live_Cons split: list.splits)
  qed
qed (simp add: live_def)

lemma resolve_correct:
  assumes "ld db gen n t"
  shows "if t = PMiss then \<exists>e. resolve db gen n pfx = Inl e
     else \<exists>n'. resolve db gen n pfx = Inr n' \<and> ld db gen n' t \<and> (\<forall>h. n' \<noteq> hashNode h)"
  using assms
proof (cases rule: ld.cases)
  case (ld_hash h m)
  then have "t \<noteq> PMiss" by (cases m) (auto simp: ld_simps)
  then show ?thesis using ld_hash by (auto simp: resolve_def resolveHash_def Let_def)
qed (auto simp: resolve_def resolveHash_def Let_def ld_simps)

text \<open>A loaded node, taken apart by the tree that it represents.\<close>

lemma ld_shapes:
  assumes "ld db gen n t" "\<forall>h. n \<noteq> hashNode h"
  shows "case t of PShort k u \<Rightarrow> \<exists>c fl. n = shortNode k c fl \<and> ld db gen c u | _ \<Rightarrow> (\<forall>k c fl. n \<noteq> shortNode k c fl)"
  using assms by (cases rule: ld.cases) (auto simp: ld_simps)

lemma canon_pshort_same: "canon (PShort s t) \<Longrightarrow> pshort s t = PShort s t"
  by (cases t) (auto simp: pshort_def split: if_splits)

lemma canon_pfull_same: "canon (PFull ts) \<Longrightarrow> pfull ts = Some (PFull ts)"
  by (cases rule: pfull_cases [of ts]) auto

lemma prefixLen_less: "prefixLen k s < length s \<longleftrightarrow> take (length s) k \<noteq> s"
  using prefixLen_full [of k s] prefixLen_le(2) [of k s] by linarith

lemma delete_short:
  assumes "computes db gen t (mpt_delete db gen n (pfx @ take (length k) key) (drop (length k) key)) (pdel t (drop (length k) key))"
    and "canon (PShort k t)" "ld db gen n t" "take (length k) key = k" "key \<noteq> k"
  shows "computes db gen (PShort k t) (mpt_delete db gen (shortNode k n fl) pfx key) (pdel (PShort k t) key)"
proof -
  have m: "\<not> prefixLen key k < length k" "prefixLen key k \<noteq> length key"
    using assms(4,5) prefixLen_less [of key k] prefixLen_full [of key k] by (auto simp: take_all_iff)
  have p: "pdel (PShort k t) key = map_option (pshort k) (pdel t (drop (length k) key))" using assms(4,5) by simp
  note D = mpt_delete.simps [of _ _ "shortNode k n fl", unfolded node.case Let_def]
  from assms(1) show ?thesis
  proof (cases rule: computesE)
    case (err e)
    then show ?thesis unfolding p D using m by (simp add: computes_err)
  next
    case (ok t' d n')
    show ?thesis
    proof (cases d)
      case False
      then have "mpt_delete db gen (shortNode k n fl) pfx key = Some (Inr (False, shortNode k n fl))"
        unfolding D using m ok by simp
      then show ?thesis unfolding p ok(1) using ok False canon_pshort_same [OF assms(2)] assms(3) by (auto intro!: computesI ld_short)
    next
      case True
      have L: "case t' of PShort k u \<Rightarrow> \<exists>c fl. n' = shortNode k c fl \<and> ld db gen c u | _ \<Rightarrow> (\<forall>k c fl. n' \<noteq> shortNode k c fl)"
        using ok(3,5) True by (intro ld_shapes) auto
      have r: "mpt_delete db gen (shortNode k n fl) pfx key =
          Some (Inr (True, case n' of shortNode ck cv cf \<Rightarrow> shortNode (k @ ck) cv (newFlag gen) | _ \<Rightarrow> shortNode k n' (newFlag gen)))"
        unfolding D using m ok True by (auto split: node.splits)
      show ?thesis
      proof (cases t')
        case (PShort s u)
        with L obtain c f where "n' = shortNode s c f" "ld db gen c u" by auto
        then show ?thesis unfolding r p ok(1) by (auto simp: PShort pshort_def intro!: computesI ld_short)
      qed (use L ok(3) in \<open>unfold r p ok(1), auto simp: pshort_def intro!: computesI ld_short split: node.splits\<close>)
    qed
  qed
qed

lemma delete_full:
  assumes "computes db gen (ts ! unat x) (mpt_delete db gen (cs ! unat x) (pfx @ [x]) k) (pdel (ts ! unat x) k)"
    and "canon (PFull ts)" "ld db gen (fullNode cs fl) (PFull ts)" "tkey (x # k)"
  shows "computes db gen (PFull ts) (mpt_delete db gen (fullNode cs fl) pfx (x # k)) (pdel (PFull ts) (x # k))"
proof -
  note c = at_child [OF assms(2,4)]
  have l: "length ts = 17" "length cs = 17" using assms(2,3) by (auto simp: ld_simps)
  have g: "get_child cs ((x # k) ! 0) = Some (cs ! unat x)" using c l by (simp add: get_child_def)
  have p: "pdel (PFull ts) (x # k) = Option.bind (pdel (ts ! unat x) k) (\<lambda>t. pfull (ts[unat x := t]))" using c l by simp
  note D = mpt_delete.simps [of _ _ "fullNode cs fl", unfolded node.case Let_def]
  from assms(1) show ?thesis
  proof (cases rule: computesE)
    case (err e)
    then show ?thesis unfolding p D g using computes_err by simp
  next
    case (ok u d n')
    show ?thesis
    proof (cases d)
      case False
      then have "mpt_delete db gen (fullNode cs fl) pfx (x # k) = Some (Inr (False, fullNode cs fl))"
        unfolding D g using ok by simp
      then show ?thesis unfolding p ok(1) using ok False canon_pfull_same [OF assms(2)] assms(3) by (auto intro!: computesI)
    next
      case True
      define cs' ts' where "cs' = cs[unat x := n']" and "ts' = ts[unat x := u]"
      define pos where "pos = single_child cs' 0 (-1)"
      have U: "ld db gen (fullNode cs' f) (PFull ts')" for f unfolding cs'_def ts'_def by (rule ld_update [OF assms(3) ok(3)])
      then have L: "length cs' = 17" "length ts' = 17" "\<And>j. j < 17 \<Longrightarrow> ld db gen (cs' ! j) (ts' ! j)"
        using l by (auto simp: ld_simps cs'_def ts'_def)
      have pos: "pos = (case live ts' of [] \<Rightarrow> -1 | [j] \<Rightarrow> int j | _ \<Rightarrow> -2)"
        unfolding pos_def using single_child_eq [of cs' ts' 0] ld_nil_iff [OF L(3)] L(1,2) by (simp split: list.splits)
      let ?red = "Inr (True, shortNode [of_int pos] (cs' ! nat pos) (newFlag gen))"
      have r: "mpt_delete db gen (fullNode cs fl) pfx (x # k) = Some (if 0 \<le> pos then
          if pos \<noteq> 16 then (case resolve db gen (cs' ! nat pos) pfx of Inl err \<Rightarrow> Inl err
            | Inr cnode \<Rightarrow> (case cnode of shortNode ck cv cf \<Rightarrow> Inr (True, shortNode (of_int pos # ck) cv (newFlag gen)) | _ \<Rightarrow> ?red))
          else ?red else Inr (True, fullNode cs' (newFlag gen)))"
        unfolding D g pos_def cs'_def unfolding nth_Cons_0 using ok True by simp
      show ?thesis
      proof (cases rule: pfull_cases [of ts'])
        case many
        then have "\<not> 0 \<le> pos" unfolding pos by (auto split: list.splits)
        then have "mpt_delete db gen (fullNode cs fl) pfx (x # k) = Some (Inr (True, fullNode cs' (newFlag gen)))" unfolding r by simp
        then show ?thesis unfolding p ok(1) using many(2) U by (auto simp: ts'_def intro!: computesI)
      next
        case (one i)
        note S = live_single [OF one(1)]
        have i: "pos = int i" "i < 17" using one(1) S(1) L by (simp_all add: pos)
        have P: "pdel (PFull ts) (x # k) = (if ts' ! i = PMiss then None else Some (pshort [of_nat i] (ts' ! i)))"
          unfolding p ok(1) using one(2) by (simp add: ts'_def)
        have red: "computes db gen (PFull ts) (Some ?red) (Some (pshort [of_nat i] (ts' ! i)))" if "\<And>s w. ts' ! i \<noteq> PShort s w"
          using L(3) [OF i(2)] that by (cases "ts' ! i") (auto simp: i pshort_def intro!: computesI ld_short)
        show ?thesis
        proof (cases "i = 16")
          case True
          have "pdel (ts ! 16) [] = Some u \<Longrightarrow> u = PNil" using assms(2) by (auto elim!: is_valE)
          moreover have "unat x = 16 \<longleftrightarrow> k = []" using assms(4) by (auto simp: word_less_nat_alt word_unat_eq_iff split: if_splits)
          ultimately have "ts' ! 16 = PNil \<or> is_val (ts' ! 16)"
            using assms(2) ok(1) l by (cases "unat x = 16") (auto simp: ts'_def)
          then have v: "is_val (ts' ! i)" using S(2) True by simp
          then show ?thesis using red unfolding r P by (auto simp: i True elim!: is_valE)
        next
          case False
          show ?thesis
          proof (cases "ts' ! i = PMiss")
            case True
            then obtain e where "resolve db gen (cs' ! i) pfx = Inl e" using resolve_correct [OF L(3) [OF i(2)], of pfx] by auto
            then show ?thesis using True False i unfolding r P by (simp add: computes_err)
          next
            case nm: False
            then obtain m where m: "resolve db gen (cs' ! i) pfx = Inr m" "ld db gen m (ts' ! i)" "\<forall>h. m \<noteq> hashNode h"
              using resolve_correct [OF L(3) [OF i(2)], of pfx] by auto
            note sh = ld_shapes [OF m(2,3)]
            show ?thesis
            proof (cases "ts' ! i")
              case (PShort s w)
              with sh obtain c0 f0 where "m = shortNode s c0 f0" "ld db gen c0 w" by auto
              then show ?thesis using m False i PShort unfolding r P by (auto simp: pshort_def intro!: computesI ld_short)
            qed (use sh m False i red nm in \<open>unfold r P, auto split: node.splits\<close>)
          qed
        qed
      qed
    qed
  qed
qed

lemma delete_correct:
  "ld db gen n t \<Longrightarrow> canon t \<Longrightarrow> at t key \<Longrightarrow> computes db gen t (mpt_delete db gen n pfx key) (pdel t key)"
proof (induction arbitrary: pfx key rule: ld.induct)
  case ld_nil
  then show ?case by (auto simp: mpt_delete.simps intro!: computesI ld.ld_nil)
next
  case (ld_value w)
  then show ?case by (auto simp: mpt_delete.simps intro!: computesI ld.ld_nil)
next
  case (ld_short n t k fl)
  have tk: "tkey key" using ld_short.prems(2) by (auto simp: at_def split: if_splits)
  note D = mpt_delete.simps [of _ _ "shortNode k n fl", unfolded node.case Let_def]
  consider (off) "take (length k) key \<noteq> k" | (hit) "key = k" | (below) "take (length k) key = k" "key \<noteq> k" by blast
  then show ?case
  proof cases
    case off
    then show ?thesis unfolding D using prefixLen_less [of key k] ld_short.hyps by (auto intro!: computesI ld.ld_short)
  next
    case hit
    then have "prefixLen key k = length k" by (simp add: prefixLen_full)
    then show ?thesis unfolding D using hit by (auto intro!: computesI ld.ld_nil)
  next
    case below
    show ?thesis
      by (rule delete_short [OF ld_short.IH ld_short.prems(1) ld_short.hyps below])
        (use ld_short.prems(1) canon_short_at [OF ld_short.prems(1) tk below(1)] in auto)
  qed
next
  case (ld_full cs ts fl)
  have tk: "tkey key" using ld_full.prems(2) by (auto simp: at_def split: if_splits)
  then obtain x k where key: "key = x # k" by (cases key) auto
  note c = at_child [OF ld_full.prems(1) tk [unfolded key]]
  have l: "length ts = 17" "length cs = 17" using ld_full.prems(1) ld_full.hyps(1) by auto
  have self: "ld db gen (fullNode cs fl) (PFull ts)" using ld_full.hyps by (intro ld.ld_full) auto
  show ?case unfolding key
    by (rule delete_full [OF ld_full.IH ld_full.prems(1) self tk [unfolded key]]) (use c l ld_full.prems(1) in auto)
next
  case (ld_hash h n t)
  have r: "resolveHash db gen h pfx = Inr n" using ld_hash.hyps(1) by (simp add: resolveHash_def Let_def)
  have "computes db gen t (mpt_delete db gen n pfx key) (pdel t key)" by (rule ld_hash.IH [OF ld_hash.prems])
  then show ?case
  proof (cases rule: computesE)
    case (err e)
    then show ?thesis unfolding mpt_delete.simps [of _ _ "hashNode h"] using r by (simp add: computes_err)
  next
    case (ok t' d n')
    then show ?thesis unfolding mpt_delete.simps [of _ _ "hashNode h"] using r ld_hash.hyps by (auto intro!: computesI)
  qed
next
  case (ld_miss h)
  then show ?case unfolding mpt_delete.simps [of _ _ "hashNode h"] by (simp add: resolveHash_def Let_def computes_err)
qed

section \<open>The trie as a map\<close>

definition mpt_ok :: "node_db \<Rightarrow> Mpt \<Rightarrow> bool" where
  "mpt_ok db tr \<longleftrightarrow> (\<exists>t. ld db (t_cachegen tr) (t_root tr) t \<and> canon t \<and> \<not> is_val t)"

text \<open>The value that a lookup returns (empty for none); \<open>None\<close> when it fails.\<close>

definition mpt_view :: "node_db \<Rightarrow> Mpt \<Rightarrow> bytes \<Rightarrow> bytes option" where
  "mpt_view db tr k = (case mpt_TryGet db tr k of Some (v, None, _) \<Rightarrow> Some v | _ \<Rightarrow> None)"

lemma keybytes_ne [simp]: "keybytesToHex k \<noteq> []"
  by (simp add: keybytesToHex_def)

lemma at_root: "\<not> is_val t \<Longrightarrow> at t (keybytesToHex k)"
  by (simp add: at_def)

lemma TryGet_ok:
  assumes "ld db (t_cachegen tr) (t_root tr) t" "canon t" "\<not> is_val t"
  shows "\<exists>v err tr'. mpt_TryGet db tr k = Some (v, err, tr') \<and> ld db (t_cachegen tr') (t_root tr') t \<and> t_cachegen tr' = t_cachegen tr \<and>
     plook t (keybytesToHex k) = (if err = None then Some v else None)"
proof (cases "plook t (keybytesToHex k)")
  case None
  then obtain n' b e where "tryGet db (t_cachegen tr) (t_root tr) (keybytesToHex k) 0 = Some ([], n', b, Some e)"
    using tryGet_correct [OF assms(1,2), of 0 "keybytesToHex k"] at_root [OF assms(3), of k] by auto
  then have "mpt_TryGet db tr k = Some ([], Some e, tr)" by (simp add: mpt_TryGet_def)
  then show ?thesis using None assms(1) by auto
next
  case (Some v)
  then obtain n' b where g: "tryGet db (t_cachegen tr) (t_root tr) (keybytesToHex k) 0 = Some (v, n', b, None)" "ld db (t_cachegen tr) n' t"
    using tryGet_correct [OF assms(1,2), of 0 "keybytesToHex k"] at_root [OF assms(3), of k] by auto
  then have "mpt_TryGet db tr k = Some (v, None, if b then tr\<lparr>t_root := n'\<rparr> else tr)" by (simp add: mpt_TryGet_def)
  then show ?thesis using Some assms(1) g(2) by (cases b) auto
qed

lemma mpt_view_eq:
  assumes "ld db (t_cachegen tr) (t_root tr) t" "canon t" "\<not> is_val t"
  shows "mpt_view db tr k = plook t (keybytesToHex k)"
proof -
  obtain v err tr' where "mpt_TryGet db tr k = Some (v, err, tr')" "plook t (keybytesToHex k) = (if err = None then Some v else None)"
    using TryGet_ok [OF assms, of k] by blast
  then show ?thesis by (cases err) (simp_all add: mpt_view_def)
qed

lemma TryDelete_ok:
  assumes "ld db (t_cachegen tr) (t_root tr) t" "canon t" "\<not> is_val t"
  shows "\<exists>err tr'. mpt_TryDelete db tr k = Some (err, tr') \<and>
     (case pdel t (keybytesToHex k) of
        None \<Rightarrow> err \<noteq> None \<and> tr' = tr
      | Some t' \<Rightarrow> err = None \<and> ld db (t_cachegen tr') (t_root tr') t')"
  using delete_correct [OF assms(1,2) at_root [OF assms(3)], of "[]" k]
  by (auto simp: mpt_TryDelete_def computes_def split: option.splits)

lemma TryUpdate_ok:
  assumes "ld db (t_cachegen tr) (t_root tr) t" "canon t" "\<not> is_val t" "v \<noteq> []"
  shows "\<exists>err tr'. mpt_TryUpdate db tr k v = Some (err, tr') \<and>
     (case pins t (keybytesToHex k) v of
        None \<Rightarrow> err \<noteq> None \<and> tr' = tr
      | Some t' \<Rightarrow> err = None \<and> ld db (t_cachegen tr') (t_root tr') t')"
  using insert_correct [OF assms(1,2) at_root [OF assms(3)], of "[]" k v] assms(4)
  by (auto simp: mpt_TryUpdate_def computes_def split: option.splits)

lemma TryUpdate_empty: "mpt_TryUpdate db tr k [] = mpt_TryDelete db tr k"
  by (simp add: mpt_TryUpdate_def mpt_TryDelete_def)

lemma update_law:
  assumes "mpt_ok db tr"
  shows "\<exists>err tr'. mpt_TryUpdate db tr k v = Some (err, tr') \<and> mpt_ok db tr' \<and>
     (if err = None then \<forall>k'. mpt_view db tr' k' = (if k' = k then Some v else mpt_view db tr k')
      else tr' = tr \<and> (v \<noteq> [] \<longrightarrow> mpt_view db tr k = None))"
proof -
  from assms obtain t where t: "ld db (t_cachegen tr) (t_root tr) t" "canon t" "\<not> is_val t" by (auto simp: mpt_ok_def)
  note a = at_root [OF t(3)] and ne = tkey_keybytes [of k]
  have step: "mpt_ok db tr' \<and> (\<forall>k'. mpt_view db tr' k' = (if k' = k then Some v else mpt_view db tr k'))"
    if "ld db (t_cachegen tr') (t_root tr') t'" "canon t'" "\<not> is_val t'"
      "\<And>k'. plook t' (keybytesToHex k') = (if k' = k then Some v else plook t (keybytesToHex k'))" for tr' t'
    using that mpt_view_eq [OF that(1-3)] mpt_view_eq [OF t] by (auto simp: mpt_ok_def)
  show ?thesis
  proof (cases "v = []")
    case True
    obtain err tr' where D: "mpt_TryDelete db tr k = Some (err, tr')" "case pdel t (keybytesToHex k) of
        None \<Rightarrow> err \<noteq> None \<and> tr' = tr | Some t' \<Rightarrow> err = None \<and> ld db (t_cachegen tr') (t_root tr') t'"
      using TryDelete_ok [OF t, of k] by blast
    show ?thesis
    proof (cases "pdel t (keybytesToHex k)")
      case None
      then show ?thesis using D assms by (auto simp: True TryUpdate_empty)
    next
      case (Some t')
      with D have L: "err = None" "ld db (t_cachegen tr') (t_root tr') t'" by auto
      from pdel_correct [OF Some t(2) a] step [OF L(2)] a show ?thesis
        using D(1) L(1) True by (auto simp: TryUpdate_empty)
    qed
  next
    case False
    obtain err tr' where U: "mpt_TryUpdate db tr k v = Some (err, tr')" "case pins t (keybytesToHex k) v of
        None \<Rightarrow> err \<noteq> None \<and> tr' = tr | Some t' \<Rightarrow> err = None \<and> ld db (t_cachegen tr') (t_root tr') t'"
      using TryUpdate_ok [OF t False, of k] by blast
    show ?thesis
    proof (cases "pins t (keybytesToHex k) v")
      case None
      then show ?thesis using U assms pins_None [OF t(2) a, of k v] mpt_view_eq [OF t, of k] by auto
    next
      case (Some t')
      with U have L: "err = None" "ld db (t_cachegen tr') (t_root tr') t'" by auto
      from canon_pins [OF Some t(2) a False] plook_pins [OF Some t(2) a a] step [OF L(2)] show ?thesis
        using U(1) L(1) by auto
    qed
  qed
qed

text \<open>
  C5.  A trie is a map.  On a trie in canonical form every operation returns (no panic, no endless recursion)
  and leaves a trie in canonical form.  A lookup changes no value.  An update that reports no error makes the key
  hold the new value (none, for the empty value) and leaves every other key as it was; one that reports a missing
  node leaves the trie unchanged, and an update with a value fails only where a lookup of the key fails.
\<close>

theorem trie_is_map:
  assumes "mpt_ok db tr"
  shows "(\<exists>w err tr'. mpt_TryGet db tr k = Some (w, err, tr') \<and> mpt_ok db tr' \<and> mpt_view db tr' = mpt_view db tr) \<and>
     (\<exists>err tr'. mpt_TryUpdate db tr k v = Some (err, tr') \<and> mpt_ok db tr' \<and>
        (if err = None then \<forall>k'. mpt_view db tr' k' = (if k' = k then Some v else mpt_view db tr k')
         else tr' = tr \<and> (v \<noteq> [] \<longrightarrow> mpt_view db tr k = None)))"
proof
  from assms obtain t where t: "ld db (t_cachegen tr) (t_root tr) t" "canon t" "\<not> is_val t" by (auto simp: mpt_ok_def)
  obtain w err tr' where g: "mpt_TryGet db tr k = Some (w, err, tr')" "ld db (t_cachegen tr') (t_root tr') t"
    using TryGet_ok [OF t, of k] by blast
  have "mpt_view db tr' = mpt_view db tr" using mpt_view_eq [OF t] mpt_view_eq [OF g(2) t(2,3)] by (simp add: fun_eq_iff)
  then show "\<exists>w err tr'. mpt_TryGet db tr k = Some (w, err, tr') \<and> mpt_ok db tr' \<and> mpt_view db tr' = mpt_view db tr"
    using g t(2,3) by (auto simp: mpt_ok_def)
qed (rule update_law [OF assms])

definition emptyMpt :: Mpt where
  "emptyMpt = \<lparr>t_root = nilNode, t_originalRoot = 0, t_cachegen = 0, t_cachelimit = 0\<rparr>"

lemma emptyMpt_ok: "mpt_ok db emptyMpt"
  by (auto simp: mpt_ok_def emptyMpt_def intro!: exI [of _ PNil] ld_nil)

theorem trie_is_map_witness:
  "\<exists>err tr'. mpt_TryUpdate (\<lambda>_ _. None) emptyMpt [0x12] [7] = Some (err, tr') \<and> mpt_ok (\<lambda>_ _. None) tr'"
  using trie_is_map [OF emptyMpt_ok, of "\<lambda>_ _. None" "[0x12]" "[7]"] by blast

section \<open>The interface to the state database\<close>

text \<open>
  The operations as the client of the interface sees them: a lookup gives the value or reports that a node is
  missing; a panic, which would be the missing result of \<open>the\<close>, does not occur on a canonical trie.
\<close>

definition mpt_get :: "node_db \<Rightarrow> Mpt \<Rightarrow> bytes \<Rightarrow> unit + bytes option" where
  "mpt_get db tr k = (case mpt_view db tr k of None \<Rightarrow> Inl () | Some v \<Rightarrow> Inr (if v = [] then None else Some v))"

definition mpt_upd :: "node_db \<Rightarrow> Mpt \<Rightarrow> bytes \<Rightarrow> bytes \<Rightarrow> trie_err option \<times> Mpt" where
  "mpt_upd db tr k v = the (mpt_TryUpdate db tr k v)"

definition mpt_del :: "node_db \<Rightarrow> Mpt \<Rightarrow> bytes \<Rightarrow> trie_err option \<times> Mpt" where
  "mpt_del db tr k = the (mpt_TryDelete db tr k)"

lemma mpt_upd_law:
  assumes "mpt_ok db tr" "mpt_upd db tr k v = (err, tr')"
  shows "mpt_ok db tr' \<and>
     (if err = None then \<forall>k'. mpt_view db tr' k' = (if k' = k then Some v else mpt_view db tr k')
      else tr' = tr \<and> (v \<noteq> [] \<longrightarrow> mpt_view db tr k = None))"
  using update_law [OF assms(1), of k v] assms(2) by (auto simp: mpt_upd_def)

lemma mpt_del_upd: "mpt_del db tr k = mpt_upd db tr k []"
  by (simp add: mpt_del_def mpt_upd_def TryUpdate_empty)

interpretation mpt: kv_store "mpt_ok db" "\<lambda>v. v \<noteq> []" "mpt_get db" "mpt_upd db" "mpt_del db" for db
proof unfold_locales
  fix t v k k' t' assume A: "mpt_ok db t" "v \<noteq> []" "mpt_upd db t k v = (None, t')"
  show "mpt_ok db t' \<and> mpt_get db t' k' = (if k' = k then Inr (Some v) else mpt_get db t k')"
    using mpt_upd_law [OF A(1,3)] A(2) by (simp add: mpt_get_def)
next
  fix t k k' t' assume A: "mpt_ok db t" "mpt_del db t k = (None, t')"
  show "mpt_ok db t' \<and> mpt_get db t' k' = (if k' = k then Inr None else mpt_get db t k')"
    using mpt_upd_law [OF A(1) A(2) [unfolded mpt_del_upd]] by (simp add: mpt_get_def)
next
  fix t v k e t' assume A: "mpt_ok db t" "v \<noteq> []" "mpt_upd db t k v = (Some e, t')"
  show "t' = t \<and> (\<exists>e'. mpt_get db t k = Inl e')"
    using mpt_upd_law [OF A(1,3)] A(2) by (simp add: mpt_get_def)
next
  fix t k e t' assume A: "mpt_ok db t" "mpt_del db t k = (Some e, t')"
  show "t' = t" using mpt_upd_law [OF A(1) A(2) [unfolded mpt_del_upd]] by simp
qed

section \<open>The structure depends on the content only\<close>

fun erase :: "node \<Rightarrow> ptree" where
  "erase nilNode = PNil"
| "erase (valueNode v) = PVal v"
| "erase (hashNode h) = PMiss"
| "erase (shortNode k n fl) = PShort k (erase n)"
| "erase (fullNode cs fl) = PFull (map erase cs)"

definition no_db :: node_db where "no_db = (\<lambda>_ _. None)"

lemma ld_no_db: "ld no_db gen n t \<Longrightarrow> t = erase n"
  by (induction rule: ld.induct) (auto simp: no_db_def intro: nth_equalityI)

lemma loaded_pleaf [simp]: "loaded (pleaf k t) = loaded t"
  by (simp add: pleaf_def)

lemma loaded_pbranch: "loaded t \<Longrightarrow> loaded u \<Longrightarrow> loaded (PFull (pbranch a t b u))"
  unfolding pbranch_def by (auto dest!: set_update_subset_insert [THEN subsetD])

lemma loaded_update: "loaded (PFull ts) \<Longrightarrow> loaded u \<Longrightarrow> loaded (PFull (ts[i := u]))"
  by (auto dest!: set_update_subset_insert [THEN subsetD])

lemma loaded_pins: "loaded t \<Longrightarrow> \<exists>t'. pins t k v = Some t' \<and> loaded t'"
proof (induction t k v rule: pins.induct)
  case (5 s t y k v)
  then show ?case using loaded_pbranch by (cases "prefixLen (y # k) s = length s") (auto simp: Let_def simp del: prefixLen_simps loaded.simps(3))
next
  case (6 ts x k v)
  then show ?case using loaded_update [of ts] by (cases "unat x < length ts") (auto simp del: loaded.simps(3), force simp: loaded.simps(3))
qed auto

lemma loaded_pshort: "loaded t \<Longrightarrow> loaded (pshort s t)"
  by (cases t) (auto simp: pshort_def)

lemma loaded_pfull:
  assumes "loaded (PFull ts)"
  shows "\<exists>t'. pfull ts = Some t' \<and> loaded t'"
proof (cases rule: pfull_cases [of ts])
  case (one i)
  have "loaded (ts ! i)" using assms live_single(1) [OF one(1)] by simp
  then show ?thesis using one(2) loaded_pshort by (auto split: if_splits)
qed (use assms in auto)

lemma loaded_pdel: "loaded t \<Longrightarrow> \<exists>t'. pdel t k = Some t' \<and> loaded t'"
proof (induction t k rule: pdel.induct)
  case (4 s t k)
  then show ?case by (cases "take (length s) k = s"; cases "k = s") (auto simp: loaded_pshort)
next
  case (6 ts x k)
  show ?case
  proof (cases "unat x < length ts")
    case True
    then obtain u where "pdel (ts ! unat x) k = Some u" "loaded u" using 6 by auto
    then show ?thesis using True loaded_pfull [OF loaded_update [OF "6.prems"]] by auto
  qed (use 6 in auto)
qed auto

text \<open>A sequence of updates, as the code of the state database performs it; \<open>None\<close> if one of them fails.\<close>

fun updates :: "(bytes \<times> bytes) list \<Rightarrow> Mpt \<Rightarrow> Mpt option" where
  "updates [] tr = Some tr"
| "updates ((k, v) # ops) tr =
     (case mpt_TryUpdate no_db tr k v of Some (None, tr') \<Rightarrow> updates ops tr' | _ \<Rightarrow> None)"

fun final :: "(bytes \<times> bytes) list \<Rightarrow> (bytes \<Rightarrow> bytes) \<Rightarrow> bytes \<Rightarrow> bytes" where
  "final [] m = m"
| "final ((k, v) # ops) m = final ops (m(k := v))"

lemma update_loaded:
  assumes "ld no_db (t_cachegen tr) (t_root tr) t" "canon t" "\<not> is_val t" "loaded t"
  shows "\<exists>tr' t'. mpt_TryUpdate no_db tr k v = Some (None, tr') \<and> ld no_db (t_cachegen tr') (t_root tr') t' \<and> canon t' \<and> \<not> is_val t' \<and> loaded t' \<and>
     (\<forall>q. tkey q \<longrightarrow> plook t' q = (if q = keybytesToHex k then Some v else plook t q))"
proof -
  have a: "at t q" "q \<noteq> []" if "tkey q" for q using that assms(3) by (auto simp: at_def)
  note ak = a(1) [OF tkey_keybytes [of k]]
  show ?thesis
  proof (cases "v = []")
    case True
    obtain t' where p: "pdel t (keybytesToHex k) = Some t'" "loaded t'" using loaded_pdel [OF assms(4)] by blast
    then obtain tr' where "mpt_TryDelete no_db tr k = Some (None, tr')" "ld no_db (t_cachegen tr') (t_root tr') t'"
      using TryDelete_ok [OF assms(1-3), of k] by auto
    then show ?thesis using pdel_correct [OF p(1) assms(2) ak] a p(2) by (auto simp: True TryUpdate_empty)
  next
    case False
    obtain t' where p: "pins t (keybytesToHex k) v = Some t'" "loaded t'" using loaded_pins [OF assms(4)] by blast
    then obtain tr' where u: "mpt_TryUpdate no_db tr k v = Some (None, tr')" "ld no_db (t_cachegen tr') (t_root tr') t'"
      using TryUpdate_ok [OF assms(1-3) False, of k] by auto
    show ?thesis
      using u p(2) canon_pins [OF p(1) assms(2) ak False] plook_pins [OF p(1) assms(2) ak] a by auto
  qed
qed

text \<open>A map on keys, as a map on HEX keys.\<close>

definition hexmap :: "(bytes \<Rightarrow> bytes) \<Rightarrow> bytes \<Rightarrow> bytes" where
  "hexmap m q = (if q \<in> range keybytesToHex then m (inv keybytesToHex q) else [])"

lemma inj_keybytes: "inj keybytesToHex"
  by (simp add: inj_def)

lemma hexmap_upd: "hexmap (m(k := v)) q = (if q = keybytesToHex k then v else hexmap m q)"
  using inv_f_f [OF inj_keybytes] by (auto simp: hexmap_def)

lemma hexmap_keybytes: "hexmap m (keybytesToHex k) = m k"
  using inv_f_f [OF inj_keybytes] by (simp add: hexmap_def)

lemma updates_final:
  assumes "ld no_db (t_cachegen tr) (t_root tr) t" "canon t" "\<not> is_val t" "loaded t" "\<forall>q. tkey q \<longrightarrow> plook t q = Some (hexmap m q)"
  shows "\<exists>tr' t'. updates ops tr = Some tr' \<and> ld no_db (t_cachegen tr') (t_root tr') t' \<and> canon t' \<and> \<not> is_val t' \<and> loaded t' \<and>
     (\<forall>q. tkey q \<longrightarrow> plook t' q = Some (hexmap (final ops m) q))"
  using assms
proof (induction ops arbitrary: tr t m)
  case (Cons op ops)
  obtain k v where op: "op = (k, v)" by (cases op)
  from update_loaded [OF Cons.prems(1-4), of k v] obtain tr' t' where
    u: "mpt_TryUpdate no_db tr k v = Some (None, tr')" "ld no_db (t_cachegen tr') (t_root tr') t'" "canon t'" "\<not> is_val t'" "loaded t'"
    "\<forall>q. tkey q \<longrightarrow> plook t' q = (if q = keybytesToHex k then Some v else plook t q)" by blast
  have "\<forall>q. tkey q \<longrightarrow> plook t' q = Some (hexmap (m(k := v)) q)" using u(6) Cons.prems(5) by (simp add: hexmap_upd)
  from Cons.IH [OF u(2-5) this] show ?case by (simp only: op u(1) updates.simps final.simps option.case prod.case)
qed auto

lemma updates_empty:
  "\<exists>tr t. updates ops emptyMpt = Some tr \<and> ld no_db (t_cachegen tr) (t_root tr) t \<and> canon t \<and> \<not> is_val t \<and> loaded t \<and>
     (\<forall>q. tkey q \<longrightarrow> plook t q = Some (hexmap (final ops (\<lambda>_. [])) q))"
  by (rule updates_final [where t = PNil]) (auto simp: emptyMpt_def hexmap_def intro: ld_nil)

text \<open>
  C7.  The structure of a trie, and hence its root hash, depends on its content alone.  Any two sequences of
  updates of an empty trie succeed, and when they leave the same content, whatever the order of the updates and
  whatever was inserted and deleted in between, the two tries are the same tree of short, full and value nodes.
  The tree holds exactly that content.
\<close>

theorem trie_structure_unique:
  "\<exists>tr1 tr2. updates ops1 emptyMpt = Some tr1 \<and> updates ops2 emptyMpt = Some tr2 \<and>
     (\<forall>k. mpt_view no_db tr1 k = Some (final ops1 (\<lambda>_. []) k)) \<and>
     (final ops1 (\<lambda>_. []) = final ops2 (\<lambda>_. []) \<longrightarrow> erase (t_root tr1) = erase (t_root tr2))"
proof -
  obtain tr1 t1 where 1: "updates ops1 emptyMpt = Some tr1" "ld no_db (t_cachegen tr1) (t_root tr1) t1" "canon t1" "\<not> is_val t1" "loaded t1"
    "\<forall>q. tkey q \<longrightarrow> plook t1 q = Some (hexmap (final ops1 (\<lambda>_. [])) q)" using updates_empty [of ops1] by blast
  obtain tr2 t2 where 2: "updates ops2 emptyMpt = Some tr2" "ld no_db (t_cachegen tr2) (t_root tr2) t2" "canon t2" "\<not> is_val t2" "loaded t2"
    "\<forall>q. tkey q \<longrightarrow> plook t2 q = Some (hexmap (final ops2 (\<lambda>_. [])) q)" using updates_empty [of ops2] by blast
  have "t1 = t2" if "final ops1 (\<lambda>_. []) = final ops2 (\<lambda>_. [])"
    using that 1 2 by (intro canon_unique) auto
  moreover have "mpt_view no_db tr1 k = Some (final ops1 (\<lambda>_. []) k)" for k
    using mpt_view_eq [OF 1(2-4)] 1(6) by (simp add: hexmap_keybytes)
  ultimately show ?thesis using 1(1) 2(1) ld_no_db [OF 1(2)] ld_no_db [OF 2(2)] by auto
qed

theorem trie_structure_unique_witness:
  "\<exists>tr1 tr2. updates [([0x12], [1]), ([0x13], [2])] emptyMpt = Some tr1 \<and>
     updates [([0x13], [3]), ([0x55], [9]), ([0x12], [1]), ([0x13], [2]), ([0x55], [])] emptyMpt = Some tr2 \<and>
     erase (t_root tr1) = erase (t_root tr2)"
proof -
  have "final [([0x12], [1]), ([0x13], [2])] (\<lambda>_. []) =
      final [([0x13], [3]), ([0x55], [9]), ([0x12], [1]), ([0x13], [2]), ([0x55], [])] (\<lambda>_. [] :: bytes)"
    by (auto simp: fun_eq_iff)
  with trie_structure_unique [of "[([0x12], [1]), ([0x13], [2])]" "[([0x13], [3]), ([0x55], [9]), ([0x12], [1]), ([0x13], [2]), ([0x55], [])]"]
  show ?thesis by blast
qed

end
