(* ===== verification/Bloom.thy ===== *)
theory Bloom
  imports State_DB Rlp_Raw
begin

text \<open>
  \<^verbatim>\<open>core/types/bloom9.go\<close>: the 2048-bit log bloom filter of receipts and block headers.  A \<^verbatim>\<open>Bloom\<close> is a byte list of
  length 256; the Keccak hash is a parameter.  The theory proves that the filter has no false negatives, and
  shows where the conversion through a big integer in \<^verbatim>\<open>TestBytes\<close> breaks that promise.
\<close>

unbundle bit_operations_syntax

section \<open>The code\<close>

definition BloomByteLength :: nat where "BloomByteLength = 256"

type_synonym Bloom = bytes

record Receipt =
  r_PostState :: bytes
  r_Status :: uint64
  r_CumulativeGasUsed :: uint64
  r_Bloom :: Bloom
  r_Logs :: "Log list"
  r_TxHash :: Hash
  r_ContractAddress :: Address
  r_GasUsed :: uint64

definition Bloom_SetBytes :: "bytes \<Rightarrow> Bloom \<Rightarrow> Bloom option" where
  "Bloom_SetBytes d b = (if length b < length d then None else Some (copy_at b (BloomByteLength - length d) d))"

definition BytesToBloom :: "bytes \<Rightarrow> Bloom option" where
  "BytesToBloom b = Bloom_SetBytes b (replicate BloomByteLength 0)"

definition Bloom_Big :: "Bloom \<Rightarrow> int" where
  "Bloom_Big b = SetBytes b"

text \<open>The bit that a pair of hash bytes selects.\<close>

definition bloom_bit :: "bytes \<Rightarrow> nat \<Rightarrow> uint64" where
  "bloom_bit b i = (ucast (b ! (i + 1)) + push_bit 8 (ucast (b ! i))) AND 2047"

definition bloom9 :: "(bytes \<Rightarrow> Hash) \<Rightarrow> bytes \<Rightarrow> int" where
  "bloom9 keccak b =
     (let b = Hash_Bytes (keccak b) in
      foldl (\<lambda>r i. r OR push_bit (unat (bloom_bit b i)) 1) 0 [0, 2, 4])"

definition Bloom_Add :: "(bytes \<Rightarrow> Hash) \<Rightarrow> Bloom \<Rightarrow> int \<Rightarrow> Bloom option" where
  "Bloom_Add keccak b d = Bloom_SetBytes (big_Bytes (SetBytes b OR bloom9 keccak (big_Bytes d))) b"

fun LogsBloom_topics :: "(bytes \<Rightarrow> Hash) \<Rightarrow> Hash list \<Rightarrow> int \<Rightarrow> int" where
  "LogsBloom_topics keccak [] bin = bin"
| "LogsBloom_topics keccak (b # bs) bin = LogsBloom_topics keccak bs (bin OR bloom9 keccak (Hash_Bytes b))"

fun LogsBloom_loop :: "(bytes \<Rightarrow> Hash) \<Rightarrow> Log list \<Rightarrow> int \<Rightarrow> int" where
  "LogsBloom_loop keccak [] bin = bin"
| "LogsBloom_loop keccak (lg # lgs) bin =
     LogsBloom_loop keccak lgs
       (LogsBloom_topics keccak (log_Topics lg) (bin OR bloom9 keccak (Address_Bytes (log_Address lg))))"

definition LogsBloom :: "(bytes \<Rightarrow> Hash) \<Rightarrow> Log list \<Rightarrow> int" where
  "LogsBloom keccak lgs = LogsBloom_loop keccak lgs 0"

definition CreateBloom :: "(bytes \<Rightarrow> Hash) \<Rightarrow> Receipt list \<Rightarrow> Bloom option" where
  "CreateBloom keccak receipts =
     BytesToBloom (big_Bytes (foldl (\<lambda>bin receipt. bin OR LogsBloom keccak (r_Logs receipt)) 0 receipts))"

text \<open>The argument is the byte string that the \<^verbatim>\<open>Bytes\<close> method of the topic returns.\<close>

definition BloomLookup :: "(bytes \<Rightarrow> Hash) \<Rightarrow> Bloom \<Rightarrow> bytes \<Rightarrow> bool" where
  "BloomLookup keccak bin topic =
     (let bloom = Bloom_Big bin; cmp = bloom9 keccak topic in bloom AND cmp = cmp)"

definition Bloom_Test :: "(bytes \<Rightarrow> Hash) \<Rightarrow> Bloom \<Rightarrow> int \<Rightarrow> bool" where
  "Bloom_Test keccak b test = BloomLookup keccak b (big_Bytes test)"

definition Bloom_TestBytes :: "(bytes \<Rightarrow> Hash) \<Rightarrow> Bloom \<Rightarrow> bytes \<Rightarrow> bool" where
  "Bloom_TestBytes keccak b test = Bloom_Test keccak b (SetBytes test)"

section \<open>Sets of bits\<close>

text \<open>\<open>covers a b\<close>: every bit of \<open>b\<close> is set in \<open>a\<close>.\<close>

definition covers :: "int \<Rightarrow> int \<Rightarrow> bool" where
  "covers a b \<longleftrightarrow> a AND b = b"

lemma covers_iff: "covers a b \<longleftrightarrow> (\<forall>n. bit b n \<longrightarrow> bit a n)"
  by (auto simp: covers_def bit_eq_iff bit_simps)

lemma covers_refl [simp]: "covers a a"
  and covers_trans: "covers a b \<Longrightarrow> covers b c \<Longrightarrow> covers a c"
  and covers_or [simp]: "covers (a OR b) a" "covers (a OR b) b"
  by (auto simp: covers_iff bit_simps)

definition small :: "int \<Rightarrow> bool" where
  "small a \<longleftrightarrow> 0 \<le> a \<and> a < 2 ^ 2048"

lemma small_or: "small a \<Longrightarrow> small b \<Longrightarrow> small (a OR b)"
  unfolding small_def using OR_upper [of a 2048 b] by simp

lemma bloom_bit_less: "unat (bloom_bit b i) < 2048"
proof -
  have "bloom_bit b i = take_bit 11 (ucast (b ! (i + 1)) + push_bit 8 (ucast (b ! i)))"
    unfolding bloom_bit_def take_bit_eq_mask by (simp add: mask_eq_decr_exp)
  then have "unat (bloom_bit b i) < 2 ^ 11" by (simp only: unsigned_take_bit_eq take_bit_nat_less_exp)
  then show ?thesis by simp
qed

lemma small_bloom9: "small (bloom9 keccak b)"
proof -
  have "small (push_bit (unat (bloom_bit c i)) 1)" for c i
    unfolding small_def push_bit_eq_mult using power_strict_increasing [OF bloom_bit_less [of c i], of "2 :: int"] by simp
  moreover have "small 0" by (simp add: small_def)
  ultimately show ?thesis by (simp add: bloom9_def Let_def small_or)
qed

lemma topics_covers:
  "covers (LogsBloom_topics keccak bs bin) bin \<and> (\<forall>b \<in> set bs. covers (LogsBloom_topics keccak bs bin) (bloom9 keccak (Hash_Bytes b))) \<and>
   (small bin \<longrightarrow> small (LogsBloom_topics keccak bs bin))"
proof (induction bs arbitrary: bin)
  case (Cons b bs)
  note IH = Cons [of "bin OR bloom9 keccak (Hash_Bytes b)"]
  from IH have "covers (LogsBloom_topics keccak (b # bs) bin) bin" "covers (LogsBloom_topics keccak (b # bs) bin) (bloom9 keccak (Hash_Bytes b))"
    using covers_trans covers_or unfolding LogsBloom_topics.simps by blast+
  with IH show ?case by (auto intro: small_or small_bloom9)
qed simp

text \<open>The byte strings that a log puts into the filter.\<close>

definition log_entries :: "Log \<Rightarrow> bytes set" where
  "log_entries lg = insert (Address_Bytes (log_Address lg)) (Hash_Bytes ` set (log_Topics lg))"

lemma loop_covers:
  "covers (LogsBloom_loop keccak lgs bin) bin \<and>
   (\<forall>lg \<in> set lgs. \<forall>d \<in> log_entries lg. covers (LogsBloom_loop keccak lgs bin) (bloom9 keccak d)) \<and>
   (small bin \<longrightarrow> small (LogsBloom_loop keccak lgs bin))"
proof (induction lgs arbitrary: bin)
  case (Cons lg lgs)
  let ?b = "bin OR bloom9 keccak (Address_Bytes (log_Address lg))"
  let ?c = "LogsBloom_topics keccak (log_Topics lg) ?b"
  note T = topics_covers [of keccak "log_Topics lg" ?b]
  have "covers ?c bin" "covers ?c (bloom9 keccak (Address_Bytes (log_Address lg)))"
    using T covers_trans covers_or by blast+
  moreover have "small bin \<longrightarrow> small ?c" using T small_or small_bloom9 by blast
  moreover have "\<forall>d \<in> log_entries lg. covers ?c (bloom9 keccak d)" using T calculation by (auto simp: log_entries_def)
  ultimately show ?case using Cons [of ?c] covers_trans by auto
qed simp

section \<open>The filter as a number\<close>

lemma length_small: "small a \<Longrightarrow> length (big_Bytes a) \<le> 256"
  unfolding big_Bytes_def small_def by (intro length_bytes_of_nat) (simp add: nat_less_iff)

lemma BytesToBloom_small:
  assumes "small a"
  shows "\<exists>b. BytesToBloom (big_Bytes a) = Some b \<and> length b = 256 \<and> Bloom_Big b = a"
proof -
  let ?d = "big_Bytes a"
  have l: "length ?d \<le> 256" by (rule length_small [OF assms])
  have "BytesToBloom ?d = Some (replicate (256 - length ?d) 0 @ ?d)"
    using l by (simp add: BytesToBloom_def Bloom_SetBytes_def BloomByteLength_def copy_at_def)
  moreover have "SetBytes (replicate (256 - length ?d) 0 @ ?d) = a"
    using assms by (simp add: SetBytes_append SetBytes_replicate_0 SetBytes_big_Bytes small_def)
  ultimately show ?thesis using l by (auto simp: Bloom_Big_def)
qed

lemma SetBytes_prefix_zero:
  assumes "SetBytes (xs @ ys) < 256 ^ length ys"
  shows "SetBytes xs = 0"
proof -
  have "SetBytes xs * 256 ^ length ys < 1 * 256 ^ length ys"
    using assms [unfolded SetBytes_append] SetBytes_nonneg [of ys] by linarith
  then have "SetBytes xs < 1" by (simp only: mult_less_cancel_right) (simp split: if_splits)
  then show ?thesis using SetBytes_nonneg [of xs] by linarith
qed

lemma CreateBloom_fold:
  fixes rs :: "Receipt list" and keccak :: "bytes \<Rightarrow> Hash"
  defines "f \<equiv> foldl (\<lambda>bin receipt. bin OR LogsBloom keccak (r_Logs receipt))"
  shows "covers (f bin rs) bin \<and> (\<forall>r \<in> set rs. covers (f bin rs) (LogsBloom keccak (r_Logs r))) \<and> (small bin \<longrightarrow> small (f bin rs))"
proof (induction rs arbitrary: bin)
  case (Cons r rs)
  let ?b = "bin OR LogsBloom keccak (r_Logs r)"
  have "small (LogsBloom keccak (r_Logs r))" using loop_covers [of keccak "r_Logs r" 0] by (simp add: LogsBloom_def small_def)
  then have sm: "small bin \<longrightarrow> small ?b" by (simp add: small_or)
  have "covers (f bin (r # rs)) bin" "covers (f bin (r # rs)) (LogsBloom keccak (r_Logs r))"
    using Cons [of ?b] covers_trans covers_or unfolding f_def foldl_Cons by blast+
  with Cons [of ?b] sm show ?case by (auto simp: f_def)
qed (simp add: f_def)

text \<open>
  C36.  The bloom filter has no false negatives: \<^verbatim>\<open>CreateBloom\<close> returns a filter of 256 bytes for every list of
  receipts, and a lookup of the address or of a topic of any log in them succeeds.
\<close>

theorem CreateBloom_complete:
  "\<exists>b. CreateBloom keccak receipts = Some b \<and> length b = 256 \<and>
     (\<forall>r \<in> set receipts. \<forall>lg \<in> set (r_Logs r).
        BloomLookup keccak b (Address_Bytes (log_Address lg)) \<and> (\<forall>t \<in> set (log_Topics lg). BloomLookup keccak b (Hash_Bytes t)))"
proof -
  define a where "a = foldl (\<lambda>bin receipt. bin OR LogsBloom keccak (r_Logs receipt)) 0 receipts"
  note F = CreateBloom_fold [of keccak 0 receipts, folded a_def]
  have "small a" using F by (simp add: small_def)
  from BytesToBloom_small [OF this] obtain b where b: "BytesToBloom (big_Bytes a) = Some b" "length b = 256" "Bloom_Big b = a" by blast
  have "covers a (bloom9 keccak d)" if "r \<in> set receipts" "lg \<in> set (r_Logs r)" "d \<in> log_entries lg" for r lg d
    using F that loop_covers [of keccak "r_Logs r" 0] covers_trans unfolding LogsBloom_def by blast
  then show ?thesis using b
    by (intro exI [of _ b]) (auto simp: CreateBloom_def a_def [symmetric] BloomLookup_def Let_def covers_def log_entries_def)
qed

text \<open>A receipt with one log that has one topic.\<close>

definition sample_log :: Log where
  "sample_log = \<lparr>log_Address = 7, log_Topics = [9], log_Data = [], log_BlockNumber = 1, log_TxHash = 0, log_TxIndex = 0,
     log_BlockHash = 0, log_Index = 0\<rparr>"

definition sample_receipt :: Receipt where
  "sample_receipt = \<lparr>r_PostState = [], r_Status = 1, r_CumulativeGasUsed = 21000, r_Bloom = [], r_Logs = [sample_log],
     r_TxHash = 0, r_ContractAddress = 0, r_GasUsed = 21000\<rparr>"

theorem CreateBloom_complete_witness:
  "\<exists>b. CreateBloom BytesToHash [sample_receipt] = Some b \<and> length b = 256 \<and>
     BloomLookup BytesToHash b (Address_Bytes 7) \<and> BloomLookup BytesToHash b (Hash_Bytes 9)"
  using CreateBloom_complete [of BytesToHash "[sample_receipt]"]
  by (elim exE conjE) (auto simp: sample_receipt_def sample_log_def)

lemma Bloom_Test_covers: "Bloom_Test keccak c e \<longleftrightarrow> covers (Bloom_Big c) (bloom9 keccak (big_Bytes e))"
  by (simp add: Bloom_Test_def BloomLookup_def Let_def covers_def)

lemma Bloom_Add_value:
  assumes "length b = 256"
  shows "\<exists>b'. Bloom_Add keccak b d = Some b' \<and> length b' = 256 \<and>
     Bloom_Big b' = Bloom_Big b OR bloom9 keccak (big_Bytes d)"
proof -
  define a where "a = SetBytes b OR bloom9 keccak (big_Bytes d)"
  have sb: "small (SetBytes b)" using SetBytes_less [of b] assms by (simp add: small_def)
  have sa: "small a" unfolding a_def by (rule small_or [OF sb small_bloom9])
  let ?n = "256 - length (big_Bytes a)" and ?b' = "take (256 - length (big_Bytes a)) b @ big_Bytes a"
  have l: "length (big_Bytes a) \<le> 256" by (rule length_small [OF sa])
  have add: "Bloom_Add keccak b d = Some ?b'"
    using l assms unfolding Bloom_Add_def Bloom_Big_def a_def [symmetric] Let_def
    by (simp add: Bloom_SetBytes_def BloomByteLength_def copy_at_def)
  have len: "length ?b' = 256" using l assms by simp
  have a: "SetBytes (big_Bytes a) = a" using sa by (intro SetBytes_big_Bytes) (simp add: small_def)
  have "SetBytes b \<le> a" unfolding a_def using small_bloom9 [of keccak "big_Bytes d"] by (intro or_greater_eq) (simp add: small_def)
  also have "\<dots> < 256 ^ length (big_Bytes a)" using SetBytes_less [of "big_Bytes a"] by (simp only: a)
  finally have "SetBytes (take ?n b @ drop ?n b) < 256 ^ length (big_Bytes a)" by simp
  moreover have "length (drop ?n b) = length (big_Bytes a)" using l assms by simp
  ultimately have "SetBytes (take ?n b) = 0" by (intro SetBytes_prefix_zero [of _ "drop ?n b"]) (simp only:)
  then have big: "Bloom_Big ?b' = a" by (simp add: Bloom_Big_def SetBytes_append a)
  show ?thesis
    by (rule exI [of _ ?b'], intro conjI, rule add, rule len) (simp only: big, simp only: a_def Bloom_Big_def)
qed

text \<open>
  C28.  \<^verbatim>\<open>Add\<close> never panics, and a value that was added passes \<^verbatim>\<open>Test\<close>, as does every value that passed it before.
\<close>

theorem Bloom_Add_Test:
  assumes "length b = 256"
  shows "\<exists>b'. Bloom_Add keccak b d = Some b' \<and> length b' = 256 \<and> Bloom_Test keccak b' d \<and>
     (\<forall>e. Bloom_Test keccak b e \<longrightarrow> Bloom_Test keccak b' e)"
proof -
  obtain b' where add: "Bloom_Add keccak b d = Some b'" and len: "length b' = 256"
    and big: "Bloom_Big b' = Bloom_Big b OR bloom9 keccak (big_Bytes d)"
    using Bloom_Add_value [OF assms] by blast
  have "Bloom_Test keccak b' d" unfolding Bloom_Test_covers big by simp
  moreover have "Bloom_Test keccak b' e" if "Bloom_Test keccak b e" for e
    using that unfolding Bloom_Test_covers big by (rule covers_trans [rotated]) simp
  ultimately show ?thesis using add len by blast
qed

theorem Bloom_Add_Test_witness:
  "\<exists>b'. Bloom_Add BytesToHash (replicate 256 0) 7 = Some b' \<and> Bloom_Test BytesToHash b' 7"
  using Bloom_Add_Test [OF length_replicate [of 256 0], of BytesToHash 7] by blast

lemma SetBytes_leading_zeros: "SetBytes (dropWhile (\<lambda>x. x = 0) d) = SetBytes d"
proof -
  have "takeWhile (\<lambda>x. x = 0) d = replicate (length (takeWhile (\<lambda>x. x = 0) d)) 0"
    by (intro replicate_eqI) (auto dest: set_takeWhileD)
  then have "SetBytes (takeWhile (\<lambda>x. x = 0) d) = 0" by (metis SetBytes_replicate_0)
  then have "SetBytes (takeWhile (\<lambda>x. x = 0) d @ dropWhile (\<lambda>x. x = 0) d) = SetBytes (dropWhile (\<lambda>x. x = 0) d)"
    unfolding SetBytes_append by simp
  then show ?thesis by simp
qed

lemma big_Bytes_SetBytes: "big_Bytes (SetBytes d) = dropWhile (\<lambda>x. x = 0) d"
proof -
  let ?c = "dropWhile (\<lambda>x. x = 0) d"
  have "big_Bytes (SetBytes d) = bytes_of_nat (nat (SetBytes ?c))"
    by (simp add: big_Bytes_def SetBytes_leading_zeros)
  also have "\<dots> = ?c" by (rule bytes_of_nat_SetBytes) (use hd_dropWhile [of "\<lambda>x. x = 0" d] in auto)
  finally show ?thesis .
qed

text \<open>
  C36.  \<^verbatim>\<open>TestBytes\<close> is not a lookup of its argument: it converts the bytes to a big integer and back, which drops
  leading zero bytes, and looks up what is left.  The filter was filled with full-width addresses and topics, so
  an entry that starts with a zero byte can be reported absent although it is there.
\<close>

theorem TestBytes_strips_zeros:
  "Bloom_TestBytes keccak b d = BloomLookup keccak b (dropWhile (\<lambda>x. x = 0) d)"
  by (simp add: Bloom_TestBytes_def Bloom_Test_def big_Bytes_SetBytes)

end
