(* ===== verification/Safety_State.thy ===== *)
theory Safety_State
  imports State_Correct VM_Calls
begin

text \<open>
  The part of the world state that the virtual machine's safety rests on: balances are never negative,
  the code of an account is shorter than the memory limit, and the hash of a code determines its length.

  The last point is what the machine relies on of the hash function: it caches the jump destination bitmap
  of a code under its hash, so two codes of different length with the same hash could make it read outside
  of the bitmap.  \<open>sz\<close> is the length that a hash stands for.

  \<open>grows\<close> relates a state to a later one in the same transaction: the journal was extended, so a snapshot
  taken before can still be restored, and the invariant holds.
\<close>

definition max_size :: nat where "max_size = 2 ^ 40"

definition acct_ok :: "(Hash \<Rightarrow> nat) \<Rightarrow> acctview \<Rightarrow> bool" where
  "acct_ok sz v \<longleftrightarrow>
     0 \<le> v_balance v \<and> length (v_code v) < max_size \<and> (v_code v = [] \<or> length (v_code v) = sz (v_codeHash v))"

definition hash_sizes :: "(Hash \<Rightarrow> nat) \<Rightarrow> Backend \<Rightarrow> bool" where
  "hash_sizes sz d \<longleftrightarrow> (\<forall>c. length c < max_size \<longrightarrow> sz (Keccak256Hash d c) = length c)"

definition accts_ok :: "(Hash \<Rightarrow> nat) \<Rightarrow> World \<Rightarrow> bool" where
  "accts_ok sz w \<longleftrightarrow> (\<forall>a v. w_accts w a = Some v \<longrightarrow> acct_ok sz v)"

definition state_ok :: "(Hash \<Rightarrow> nat) \<Rightarrow> StateDB \<Rightarrow> bool" where
  "state_ok sz s \<longleftrightarrow> sdb_ok s \<and> hash_sizes sz (db s) \<and> accts_ok sz (world s)"

definition grows :: "(Hash \<Rightarrow> nat) \<Rightarrow> StateDB \<Rightarrow> StateDB \<Rightarrow> bool" where
  "grows sz s s' \<longleftrightarrow> state_ok sz s \<and> state_ok sz s' \<and> evolves s s'"

lemma growsD:
  "grows sz s s' \<Longrightarrow> state_ok sz s" "grows sz s s' \<Longrightarrow> state_ok sz s'" "grows sz s s' \<Longrightarrow> evolves s s'"
  by (simp_all add: grows_def)

lemma grows_refl [simp]: "state_ok sz s \<Longrightarrow> grows sz s s"
  by (simp add: grows_def evolves_refl state_ok_def)

lemma grows_trans [trans]: "grows sz s s' \<Longrightarrow> grows sz s' s'' \<Longrightarrow> grows sz s s''"
  by (auto simp: grows_def intro: evolves_trans)

lemma evolves_db: "evolves s s' \<Longrightarrow> db s' = db s"
  using evolves_core by (auto simp: same_core_def)

lemma grows_db: "grows sz s s' \<Longrightarrow> db s' = db s"
  by (simp add: grows_def evolves_db)

lemma state_ok_sdb: "state_ok sz s \<Longrightarrow> sdb_ok s"
  by (simp add: state_ok_def)

lemma growsI:
  "state_ok sz s \<Longrightarrow> evolves s s' \<Longrightarrow> accts_ok sz (world s') \<Longrightarrow> grows sz s s'"
  using evolves_ok(2) [of s s'] by (simp add: grows_def state_ok_def evolves_db)

lemma grows_accts:
  "state_ok sz s \<Longrightarrow> evolves s s' \<Longrightarrow> w_accts (world s') = w_accts (world s) \<Longrightarrow> grows sz s s'"
  by (rule growsI) (simp_all add: state_ok_def accts_ok_def)

section \<open>Readers\<close>

lemma reads_grows: "state_ok sz s \<Longrightarrow> reads s a none g r \<Longrightarrow> grows sz s (snd r)"
  by (rule grows_accts) (auto simp: reads_def)

lemma reads_world: "reads s a none g r \<Longrightarrow> world (snd r) = world s"
  by (simp add: reads_def)

lemma reads_fst:
  "reads s a none g r \<Longrightarrow> fst r = (case w_accts (world s) a of None \<Rightarrow> none | Some v \<Rightarrow> g v)"
  by (simp add: reads_def)

lemmas reader_facts =
  Exist_reads Empty_reads GetBalance_reads GetNonce_reads GetCodeHash_reads HasSuicided_reads GetState_reads
  GetCommittedState_reads GetCode_reads GetCodeSize_reads

lemma reader_grows:
  assumes "state_ok sz s"
  shows "grows sz s (snd (Exist s a))" "grows sz s (snd (Empty s a))" "grows sz s (snd (GetBalance s a))"
    "grows sz s (snd (GetNonce s a))" "grows sz s (snd (GetCodeHash s a))" "grows sz s (snd (HasSuicided s a))"
    "grows sz s (snd (GetState s a k))" "grows sz s (snd (GetCommittedState s a k))"
    "grows sz s (snd (GetCode s a))" "grows sz s (snd (GetCodeSize s a))"
  by (rule reads_grows [OF assms] reader_facts state_ok_sdb assms)+

lemma reader_world [simp]:
  assumes "sdb_ok s"
  shows "world (snd (Exist s a)) = world s" "world (snd (Empty s a)) = world s"
    "world (snd (GetBalance s a)) = world s" "world (snd (GetNonce s a)) = world s"
    "world (snd (GetCodeHash s a)) = world s" "world (snd (HasSuicided s a)) = world s"
    "world (snd (GetState s a k)) = world s" "world (snd (GetCommittedState s a k)) = world s"
    "world (snd (GetCode s a)) = world s" "world (snd (GetCodeSize s a)) = world s"
  by (rule reads_world reader_facts assms)+

lemma GetBalance_nonneg: "state_ok sz s \<Longrightarrow> 0 \<le> fst (GetBalance s a)"
  using reads_fst [OF GetBalance_reads [of s a]]
  by (auto simp: state_ok_def accts_ok_def acct_ok_def split: option.splits)

lemma GetCode_bounds:
  assumes "state_ok sz s"
  shows "length (fst (GetCode s a)) < max_size"
    "fst (GetCode s a) = [] \<or> length (fst (GetCode s a)) = sz (fst (GetCodeHash s a))"
  using reads_fst [OF GetCode_reads [of s a]] reads_fst [OF GetCodeHash_reads [of s a]] assms
  by (auto simp: state_ok_def accts_ok_def acct_ok_def max_size_def split: option.splits)

section \<open>Writers\<close>

lemma acct_ok_fresh [simp]: "acct_ok sz (fresh d)"
  by (simp add: acct_ok_def fresh_def max_size_def)

lemma accts_ok_upd:
  assumes "accts_ok sz w" and "acct_ok sz (f (acct_or_fresh d w a))"
  shows "accts_ok sz (upd_acct d w a f)"
  using assms by (auto simp: accts_ok_def upd_acct_def)

lemma acct_or_fresh_ok: "accts_ok sz w \<Longrightarrow> acct_ok sz (acct_or_fresh d w a)"
  by (auto simp: accts_ok_def acct_or_fresh_def split: option.splits)

lemma grows_upd:
  assumes s: "state_ok sz s" and e: "evolves s s' \<and> world s' = upd_acct (db s) (world s) a f \<and> db s' = db s"
    and f: "acct_ok sz (acct_or_fresh (db s) (world s) a) \<Longrightarrow> acct_ok sz (f (acct_or_fresh (db s) (world s) a))"
  shows "grows sz s s'"
  using e s accts_ok_upd [of sz "world s" f "db s" a] f acct_or_fresh_ok [of sz "world s" "db s" a]
  by (intro growsI) (auto simp: state_ok_def)

lemma AddBalance_grows: "state_ok sz s \<Longrightarrow> 0 \<le> n \<Longrightarrow> grows sz s (AddBalance s a n)"
  by (rule grows_upd [OF _ AddBalance_correct]) (auto simp: state_ok_def acct_ok_def)

lemma SubBalance_grows:
  "state_ok sz s \<Longrightarrow> n \<le> v_balance (acct_or_fresh (db s) (world s) a) \<Longrightarrow> grows sz s (SubBalance s a n)"
  by (rule grows_upd [OF _ SubBalance_correct]) (auto simp: state_ok_def acct_ok_def)

lemma SetNonce_grows: "state_ok sz s \<Longrightarrow> grows sz s (SetNonce s a n)"
  by (rule grows_upd [OF _ SetNonce_correct]) (auto simp: state_ok_def acct_ok_def)

lemma SetState_grows: "state_ok sz s \<Longrightarrow> grows sz s (SetState s a k x)"
  by (rule grows_upd [OF _ SetState_correct]) (auto simp: state_ok_def acct_ok_def)

lemma SetCode_grows: "state_ok sz s \<Longrightarrow> length c < max_size \<Longrightarrow> grows sz s (SetCode s a c)"
  by (rule grows_upd [OF _ SetCode_correct]) (auto simp: state_ok_def acct_ok_def hash_sizes_def)

lemma CreateAccount_grows:
  assumes "state_ok sz s"
  shows "grows sz s (CreateAccount s a)"
proof -
  note C = CreateAccount_correct [OF state_ok_sdb [OF assms], of a]
  have "accts_ok sz (spec_CreateAccount (db s) (world s) a)"
    using assms acct_or_fresh_ok [of sz "world s" "db s" a]
    by (auto simp: spec_CreateAccount_def accts_ok_def acct_ok_def fresh_def acct_or_fresh_def state_ok_def max_size_def
        split: option.splits)
  then show ?thesis using C by (intro growsI [OF assms]) auto
qed

lemma Suicide_grows:
  assumes "state_ok sz s"
  shows "grows sz s (snd (Suicide s a))"
proof -
  note C = Suicide_correct [OF state_ok_sdb [OF assms], of a]
  have "accts_ok sz (snd (spec_Suicide (world s) a))"
    using assms by (auto simp: spec_Suicide_def accts_ok_def acct_ok_def state_ok_def split: option.splits if_splits)
  then show ?thesis using C by (intro growsI [OF assms]) auto
qed

lemma AddRefund_grows: "state_ok sz s \<Longrightarrow> grows sz s (AddRefund s g)"
  using AddRefund_correct [OF state_ok_sdb, of sz s g] by (intro grows_accts) auto

lemma AddLog_grows: "state_ok sz s \<Longrightarrow> grows sz s (AddLog s l)"
  using AddLog_correct [OF state_ok_sdb, of sz s l] by (intro grows_accts) (auto simp: spec_AddLog_def)

lemma AddPreimage_grows: "state_ok sz s \<Longrightarrow> grows sz s (AddPreimage s h p)"
  using AddPreimage_correct [OF state_ok_sdb, of sz s h p]
  by (intro grows_accts) (auto simp: spec_AddPreimage_def split: option.splits)

lemma Snapshot_grows: "state_ok sz s \<Longrightarrow> grows sz s (snd (Snapshot s))"
  using Snapshot_correct [OF state_ok_sdb, of sz s] by (intro grows_accts) auto

text \<open>Whatever happened since a snapshot, it can be restored.\<close>

lemma rollback_grows:
  assumes s: "state_ok sz s" and g: "grows sz (snd (Snapshot s)) s2"
  shows "\<exists>s3. RevertToSnapshot s2 (fst (Snapshot s)) = Some s3 \<and> world s3 = world s \<and> grows sz s s3"
proof -
  obtain s3 where "RevertToSnapshot s2 (fst (Snapshot s)) = Some s3" "world s3 = world s" "evolves s s3"
    using sdb.rollback_snap [OF state_ok_sdb [OF s] growsD(3) [OF g]] by blast
  then show ?thesis using grows_accts [OF s, of s3] by auto
qed

section \<open>Transfers\<close>

lemma CanTransfer_grows: "state_ok sz s \<Longrightarrow> grows sz s (snd (CanTransfer s a n))"
  using reader_grows(3) [of sz s a] by (simp add: CanTransfer_def case_prod_beta)

lemma CanTransfer_world [simp]: "sdb_ok s \<Longrightarrow> world (snd (CanTransfer s a n)) = world s"
  by (simp add: CanTransfer_def case_prod_beta)

lemma CanTransfer_balance:
  assumes "sdb_ok s"
  shows "fst (CanTransfer s a n) \<longleftrightarrow> n \<le> v_balance (acct_or_fresh d (world s) a)"
  using reads_fst [OF GetBalance_reads [OF assms, of a]]
  by (auto simp: CanTransfer_def acct_or_fresh_def case_prod_beta split: option.splits)

lemma Transfer_grows:
  assumes "state_ok sz s" "0 \<le> n" "n \<le> v_balance (acct_or_fresh (db s) (world s) a)"
  shows "grows sz s (Transfer a b n s)"
proof -
  have 1: "grows sz s (SubBalance s a n)" using SubBalance_grows assms by blast
  also have "grows sz (SubBalance s a n) (Transfer a b n s)"
    unfolding Transfer_def using AddBalance_grows growsD(2) [OF 1] assms(2) by blast
  finally show ?thesis .
qed

end
