(* ===== verification/Safety_Data.thy ===== *)
theory Safety_Data
  imports VM_Precompiles VM_Analysis
begin

text \<open>
  Reading byte slices: \<^verbatim>\<open>getData\<close> and \<^verbatim>\<open>getDataBig\<close> return the requested window of the data, padded with
  zeros, and never panic for the sizes that occur; the memory gives back what was stored; and the
  precompiled contracts return for every input that the gas paid for.
\<close>

section \<open>Windows of byte strings\<close>

text \<open>The bytes from \<open>start\<close> on, with zeros after the end.\<close>

definition window :: "bytes \<Rightarrow> nat \<Rightarrow> nat \<Rightarrow> bytes" where
  "window dat start n = map (\<lambda>i. if start + i < length dat then dat ! (start + i) else 0) [0..<n]"

lemma length_window [simp]: "length (window dat start n) = n"
  by (simp add: window_def)

lemma window_eq:
  "window dat start n = take n (drop start dat) @ replicate (n - length (drop start dat)) 0"
  by (rule nth_equalityI) (auto simp: window_def nth_append)

lemma window_slice:
  assumes "hi = min (lo + n) (length dat)" "lo = min start (length dat)"
  shows "take (hi - lo) (drop lo dat) @ replicate (n - (hi - lo)) 0 = window dat start n"
  using assms by (rule_tac nth_equalityI) (auto simp: window_def nth_append min_def)

lemma sint_small: "unat (w :: uint64) < 2 ^ 63 \<Longrightarrow> sint w = int (unat w)"
proof -
  assume "unat w < 2 ^ 63"
  then have "int (unat w) < int (2 ^ 63)" by (subst of_nat_less_iff)
  then have "uint w < 2 ^ 63" by simp
  then show ?thesis using Int64_small [of "uint w"] by (simp add: Int64_def)
qed

lemma getData_window:
  assumes "length dat + unat n < 2 ^ 63"
  shows "getData dat start n = Some (window dat (unat start) (unat n))"
proof -
  let ?len = "of_nat (length dat) :: uint64"
  have len: "unat ?len = length dat" using assms by (intro unat_of_nat_small) simp
  define lo where "lo = (if start > ?len then ?len else start)"
  define hi where "hi = (if lo + n > ?len then ?len else lo + n)"
  have lo: "unat lo = min (unat start) (length dat)" by (simp add: lo_def word_less_nat_alt len min_def)
  have "unat lo + unat n < 2 ^ 64" using assms lo by simp
  then have "unat (lo + n) = unat lo + unat n" by (simp add: unat_word_ariths)
  then have hi: "unat hi = min (unat lo + unat n) (length dat)"
    by (simp add: hi_def word_less_nat_alt len min_def)
  have "unat lo \<le> unat hi" "unat hi \<le> length dat" using lo hi by simp_all
  then have "getData dat start n =
      Some (RightPadBytes (take (unat hi - unat lo) (drop (unat lo) dat)) (sint n))"
    unfolding getData_def Let_def lo_def [symmetric] hi_def [symmetric] by (simp add: slice_def)
  also have "\<dots> = Some (window dat (unat start) (unat n))"
    using assms window_slice [OF hi lo] \<open>unat hi \<le> length dat\<close> by (simp add: RightPadBytes_eq sint_small)
  finally show ?thesis .
qed

lemma getData_total:
  assumes "length dat + unat n < 2 ^ 64"
  shows "\<exists>d. getData dat start n = Some d"
proof -
  let ?len = "of_nat (length dat) :: uint64"
  have len: "unat ?len = length dat" using assms by (intro unat_of_nat_small) simp
  define lo where "lo = (if start > ?len then ?len else start)"
  define hi where "hi = (if lo + n > ?len then ?len else lo + n)"
  have lo: "unat lo \<le> length dat" by (simp add: lo_def word_less_nat_alt len)
  then have "unat (lo + n) = unat lo + unat n" using assms by (simp add: unat_word_ariths)
  then have "unat lo \<le> unat hi" "unat hi \<le> length dat"
    using lo by (simp_all add: hi_def word_less_nat_alt len)
  then show ?thesis
    unfolding getData_def Let_def lo_def [symmetric] hi_def [symmetric] by (simp add: slice_def)
qed

text \<open>
  C34.  \<^verbatim>\<open>getData\<close> returns the window of the data that was asked for, of exactly the requested size and
  padded with zeros, whenever length and size together are below \<open>2 ^ 63\<close>.
\<close>

theorem getData_correct:
  assumes "length dat + unat n < 2 ^ 63"
  shows "getData dat start n =
    Some (map (\<lambda>i. if unat start + i < length dat then dat ! (unat start + i) else 0) [0..<unat n])"
  using getData_window [OF assms] by (simp add: window_def)

theorem getData_correct_witness:
  "getData [7, 8, 9] 2 4 = Some [9, 0, 0, 0]"
  using getData_correct [of "[7, 8, 9]" 4 2] by (simp add: upt_rec)



lemma getDataBig_window:
  assumes "0 \<le> start" "0 \<le> n" "n < 2 ^ 63" "length dat < 2 ^ 63"
  shows "getDataBig dat start n = Some (window dat (nat start) (nat n))"
proof -
  define lo where "lo = BigMin start (int (length dat))"
  define hi where "hi = BigMin (lo + n) (int (length dat))"
  have lo: "nat lo = min (nat start) (length dat)" "0 \<le> lo" "lo < 2 ^ 64"
    using assms by (auto simp: lo_def BigMin_def)
  have hi: "nat hi = min (nat lo + nat n) (length dat)" "lo \<le> hi" "hi < 2 ^ 64"
    using assms lo by (auto simp: hi_def BigMin_def lo_def)
  have u: "unat (Uint64 lo) = nat lo" "unat (Uint64 hi) = nat hi" "unat (Uint64 n) = nat n"
    using lo(2,3) hi(2,3) assms(2,3) by (simp_all add: unat_Uint64)
  have s: "sint (Uint64 n) = n" using assms(2,3) u(3) by (subst sint_small) simp_all
  have le: "nat lo \<le> nat hi" "nat hi \<le> length dat" using hi(1,2) by simp_all
  have "getDataBig dat start n =
      Some (RightPadBytes (take (nat hi - nat lo) (drop (nat lo) dat)) n)"
    unfolding getDataBig_def Let_def lo_def [symmetric] hi_def [symmetric] u s
    using le by (simp add: slice_def)
  also have "\<dots> = Some (window dat (nat start) (nat n))"
    using window_slice [OF hi(1) lo(1)] le by (simp add: RightPadBytes_eq)
  finally show ?thesis .
qed

text \<open>A size of \<open>2 ^ 63\<close> or more does not panic either; what it pads to does not matter.\<close>

lemma getDataBig_total:
  assumes "0 \<le> start" "0 \<le> n" "length dat < 2 ^ 63"
  shows "\<exists>d. getDataBig dat start n = Some d"
proof -
  define lo where "lo = BigMin start (int (length dat))"
  define hi where "hi = BigMin (lo + n) (int (length dat))"
  have lo: "0 \<le> lo" "lo < 2 ^ 64" using assms by (auto simp: lo_def BigMin_def)
  have hi: "lo \<le> hi" "hi < 2 ^ 64" "hi \<le> int (length dat)" using assms by (auto simp: hi_def BigMin_def lo_def)
  have "unat (Uint64 lo) = nat lo" "unat (Uint64 hi) = nat hi"
    using lo hi assms by (auto intro!: unat_Uint64)
  then show ?thesis
    unfolding getDataBig_def Let_def lo_def [symmetric] hi_def [symmetric]
    using lo(1) hi(1,3) by (simp add: slice_def nat_le_iff)
qed

section \<open>Precompiled contracts\<close>

text \<open>
  The documented behaviour of the libraries: a recovered public key is not empty (it has 65 bytes), and
  digests and encoded curve points are short.
\<close>

definition crypto_ok :: "Crypto \<Rightarrow> bool" where
  "crypto_ok cr \<longleftrightarrow>
     (\<forall>h s. Ecrecover cr h s \<noteq> Some []) \<and> (\<forall>b. length (sha256_Sum256 cr b) \<le> 64) \<and>
     (\<forall>b. length (ripemd160_Sum cr b) \<le> 64) \<and> (\<forall>b. length (G1_Marshal cr b) \<le> 64)"

lemma modexp_len_eq:
  assumes "length input < 2 ^ 62"
  shows "modexp_len input off = Some (SetBytes (window input (unat off) 32))"
proof -
  have "length input + unat (32 :: uint64) < 2 ^ 63" using assms by simp
  from getData_window [OF this] show ?thesis by (simp add: modexp_len_def)
qed

lemma length_modexp_rest: "length (modexp_rest input) \<le> length input"
  by (simp add: modexp_rest_def)

text \<open>The three lengths at the head of the input of the modular exponentiation.\<close>

definition modexp_field :: "bytes \<Rightarrow> nat \<Rightarrow> int" where
  "modexp_field input off = SetBytes (window input off 32)"

lemma modexp_field_nonneg: "0 \<le> modexp_field input off"
  by (simp add: modexp_field_def)

lemma modexp_len_field:
  assumes "length input < 2 ^ 62"
  shows "modexp_len input 0 = Some (modexp_field input 0)" "modexp_len input 32 = Some (modexp_field input 32)"
    "modexp_len input 64 = Some (modexp_field input 64)"
  by (simp_all add: modexp_len_eq [OF assms] modexp_field_def)

lemma modexp_head_total:
  assumes "length r < 2 ^ 62" "0 \<le> e"
  shows "\<exists>h. (if int (length r) \<le> b then Some 0
              else if e > 32 then map_option SetBytes (getData r (Uint64 b) 32)
              else map_option SetBytes (getData r (Uint64 b) (Uint64 e))) = Some h"
proof -
  have "length r + unat (32 :: uint64) < 2 ^ 63" using assms by simp
  note 1 = getData_window [OF this, of "Uint64 b"]
  show ?thesis
  proof (cases "e > 32")
    case True
    then show ?thesis using 1 by auto
  next
    case False
    then have "unat (Uint64 e) = nat e" using assms by (simp add: unat_Uint64)
    then have "length r + unat (Uint64 e) < 2 ^ 63" using assms False by simp
    from getData_window [OF this, of "Uint64 b"] show ?thesis using False by auto
  qed
qed

definition modexp_complexity :: "int \<Rightarrow> int" where
  "modexp_complexity x =
     (if x \<le> 64 then x * x
      else if x \<le> 1024 then x * x div 4 + (96 * x - 3072)
      else x * x div 16 + (480 * x - 199680))"

lemma bigModExp_RequiredGas_eq:
  assumes "length input < 2 ^ 62"
  obtains msb :: int where "0 \<le> msb"
    "bigModExp_RequiredGas input =
       (let e = modexp_field input 32;
            g = modexp_complexity (BigMax (modexp_field input 64) (modexp_field input 0)) *
                BigMax ((if e > 32 then 8 * (e - 32) else 0) + msb) 1 div uint ModExpQuadCoeffDiv
        in Some (if BitLen g > 64 then MaxUint64 else Uint64 g))"
proof -
  let ?r = "modexp_rest input" and ?b = "modexp_field input 0" and ?e = "modexp_field input 32"
  have "length ?r < 2 ^ 62" using length_modexp_rest [of input] assms by simp
  from modexp_head_total [OF this modexp_field_nonneg [of input 32], of ?b] obtain h where
    h: "(if int (length ?r) \<le> ?b then Some 0
         else if ?e > 32 then map_option SetBytes (getData ?r (Uint64 ?b) 32)
         else map_option SetBytes (getData ?r (Uint64 ?b) (Uint64 ?e))) = Some h" by blast
  have "0 \<le> (if BitLen h > 0 then int (BitLen h) - 1 else 0)" by simp
  then show thesis
    by (rule that)
       (simp only: bigModExp_RequiredGas_def modexp_len_field [OF assms] bind.bind_lunit h Let_def modexp_complexity_def)
qed

lemma modexp_complexity_pos: "1 \<le> x \<Longrightarrow> 1 \<le> modexp_complexity x"
proof -
  assume x: "1 \<le> x"
  have "0 \<le> x * x div 4" "0 \<le> x * x div 16" using x by (simp_all add: pos_imp_zdiv_nonneg_iff)
  moreover have "1 \<le> x * x" using x mult_mono [of 1 x 1 x] by simp
  ultimately show ?thesis using x by (simp add: modexp_complexity_def)
qed

lemma modexp_complexity_large: "2 ^ 36 \<le> x \<Longrightarrow> 2 ^ 68 \<le> modexp_complexity x"
proof -
  assume x: "2 ^ 36 \<le> x"
  then have "(2 :: int) ^ 72 \<le> x * x" using mult_mono [of "2 ^ 36" x "2 ^ 36" x] by simp
  then have "2 ^ 68 \<le> x * x div 16" using zdiv_mono1 [of "2 ^ 72" "x * x" 16] by simp
  then show ?thesis using x by (simp add: modexp_complexity_def)
qed

text \<open>An input that passes with a gas below \<open>2 ^ 62\<close> announces reasonable lengths.\<close>

lemma modexp_paid:
  assumes len: "length input < 2 ^ 62" and g: "bigModExp_RequiredGas input = Some g" "unat g < 2 ^ 62"
  defines "x \<equiv> BigMax (modexp_field input 64) (modexp_field input 0)"
  shows "x = 0 \<or> x < 2 ^ 36 \<and> modexp_field input 32 < 2 ^ 64 - 2 ^ 62"
proof (cases "x = 0")
  case False
  have x: "1 \<le> x" using False modexp_field_nonneg [of input 0] modexp_field_nonneg [of input 64]
    by (simp add: x_def BigMax_def split: if_splits)
  let ?e = "modexp_field input 32"
  obtain msb where msb: "0 \<le> msb" and r: "bigModExp_RequiredGas input =
       (let e = ?e; g = modexp_complexity x * BigMax ((if e > 32 then 8 * (e - 32) else 0) + msb) 1 div uint ModExpQuadCoeffDiv
        in Some (if BitLen g > 64 then MaxUint64 else Uint64 g))"
    using bigModExp_RequiredGas_eq [OF len] unfolding x_def by blast
  define m where "m = BigMax ((if ?e > 32 then 8 * (?e - 32) else 0) + msb) 1"
  define c where "c = modexp_complexity x"
  define G where "G = c * m div 20"
  have m: "1 \<le> m" "8 * (?e - 32) \<le> m" using msb by (auto simp: m_def BigMax_def)
  have c: "1 \<le> c" using modexp_complexity_pos [OF x] by (simp add: c_def)
  have G0: "0 \<le> G" using m c by (simp add: G_def pos_imp_zdiv_nonneg_iff)
  have q: "uint ModExpQuadCoeffDiv = 20" by (simp add: ModExpQuadCoeffDiv_def)
  have "g = (if BitLen G > 64 then MaxUint64 else Uint64 G)"
    using g(1) unfolding r Let_def q m_def [symmetric] c_def [symmetric] G_def [symmetric] by simp
  moreover have "g \<noteq> MaxUint64" using g(2) by (auto simp: MaxUint64_max)
  ultimately have "BitLen G \<le> 64" "g = Uint64 G" by (auto split: if_splits)
  then have "G < 2 ^ 64" "unat g = nat G" using G0 by (simp_all add: BitLen_le_iff unat_Uint64)
  then have "G < 2 ^ 62" using g(2) by (simp add: nat_less_iff)
  moreover have "c * m < 20 * (G + 1)" unfolding G_def using div_mult_mod_eq [of "c * m" 20] pos_mod_bound [of 20 "c * m"] by simp
  ultimately have p: "c * m < 20 * 2 ^ 62" by simp
  have "m \<le> c * m" "c \<le> c * m" using c m mult_right_mono [of 1 c m] mult_left_mono [of 1 m c] by simp_all
  then have "c < 2 ^ 68" "8 * (?e - 32) < 20 * 2 ^ 62" using p m(2) by simp_all
  then have "x < 2 ^ 36" "?e < 2 ^ 64 - 2 ^ 62" using modexp_complexity_large [of x] by (auto simp: c_def not_less [symmetric])
  then show ?thesis by blast
qed simp

lemma length_big_Bytes: "0 \<le> x \<Longrightarrow> x < 256 ^ k \<Longrightarrow> length (big_Bytes x) \<le> k"
  unfolding big_Bytes_def by (intro length_bytes_of_nat) (simp add: nat_less_iff)

lemma bigModExp_safe:
  assumes len: "length input < 2 ^ 40" and g: "bigModExp_RequiredGas input = Some g" "unat g < 2 ^ 62"
  shows "\<exists>ret. bigModExp_Run input = Some (ret, None) \<and> length ret < 2 ^ 40"
proof -
  let ?b = "modexp_field input 0" and ?e = "modexp_field input 32" and ?m = "modexp_field input 64"
    and ?r = "modexp_rest input"
  have len': "length input < 2 ^ 62" and r: "length ?r < 2 ^ 40"
    using len length_modexp_rest [of input] by simp_all
  note L = modexp_len_field [OF len'] and nn = modexp_field_nonneg [of input 0] modexp_field_nonneg [of input 64] modexp_field_nonneg [of input 32]
  show ?thesis
  proof (cases "BigMax ?m ?b = 0")
    case True
    then have "?m = 0" "?b = 0" using nn by (auto simp: BigMax_def split: if_splits)
    then show ?thesis by (simp add: bigModExp_Run_def L Uint64_def)
  next
    case False
    then have "BigMax ?m ?b < 2 ^ 36" and e: "?e < 2 ^ 64 - 2 ^ 62" using modexp_paid [OF len' g] by auto
    then have mb: "?m < 2 ^ 36" "?b < 2 ^ 36" by (auto simp: BigMax_def split: if_splits)
    then have u: "unat (Uint64 ?m) = nat ?m" "unat (Uint64 ?b) = nat ?b" "unat (Uint64 ?e) = nat ?e"
      using nn e by (simp_all add: unat_Uint64)
    have small: "nat ?m < 2 ^ 36" "nat ?b < 2 ^ 36" "nat ?e < 2 ^ 64 - 2 ^ 62"
      using mb e by (simp_all add: nat_less_iff)
    obtain bs where bs: "getData ?r 0 (Uint64 ?b) = Some bs"
      using getData_total [of ?r "Uint64 ?b" 0] u small r by auto
    obtain es where es: "getData ?r (Uint64 ?b) (Uint64 ?e) = Some es"
      using getData_total [of ?r "Uint64 ?e" "Uint64 ?b"] u small r by auto
    obtain ms where ms: "getData ?r (Uint64 ?b + Uint64 ?e) (Uint64 ?m) = Some ms" "length ms = nat ?m"
      using getData_window [of ?r "Uint64 ?m" "Uint64 ?b + Uint64 ?e"] u small r by auto
    have sm: "sint (Uint64 ?m) = ?m" using sint_small [of "Uint64 ?m"] u(1) small(1) nn by simp
    have "0 \<le> big_ExpMod (SetBytes bs) (SetBytes es) (SetBytes ms) \<and>
      big_ExpMod (SetBytes bs) (SetBytes es) (SetBytes ms) < 256 ^ nat ?m" if "SetBytes ms \<noteq> 0"
    proof -
      have "0 < SetBytes ms" using that SetBytes_nonneg [of ms] by linarith
      then show ?thesis
        using SetBytes_less [of ms] pos_mod_bound [of "SetBytes ms"] pos_mod_sign [of "SetBytes ms"]
        unfolding big_ExpMod_def ms(2) by (meson order.strict_trans)
    qed
    then have "length (big_Bytes (big_ExpMod (SetBytes bs) (SetBytes es) (SetBytes ms))) \<le> nat ?m" if "SetBytes ms \<noteq> 0"
      using that length_big_Bytes by blast
    then show ?thesis
      using bs es ms(1) small(1) by (auto simp: bigModExp_Run_def L sm max_def Let_def)
  qed
qed

lemma getData_some:
  assumes "length input < 2 ^ 40" "unat n < 2 ^ 40"
  shows "\<exists>d. getData input start n = Some d"
  using assms by (intro getData_total) simp

lemma length_Hash_Bytes_tail: "length (drop 12 (Hash_Bytes h)) \<le> 32"
  by (simp add: Hash_Bytes_def HashLength_def)

lemma ecrecover_safe:
  assumes "crypto_ok cr"
  shows "\<exists>ret. ecrecover_Run d cr input = Some (ret, None) \<and> length ret < 2 ^ 40"
proof -
  let ?i = "RightPadBytes input 128"
  have len: "128 \<le> length ?i" by simp
  have "slice pk (Suc 0) (length pk) = Some (drop 1 pk)" if "Ecrecover cr h s = Some pk" for h s pk
    using assms that by (cases pk) (auto simp: crypto_ok_def slice_def)
  moreover have "length (LeftPadBytes (drop 12 (Hash_Bytes h)) 32) < 2 ^ 40" for h
    using length_Hash_Bytes_tail [of h] by simp
  ultimately show ?thesis
    using len by (auto simp: ecrecover_Run_def slice_def [of ?i] Let_def split: option.splits)
qed

lemma precompile_safe:
  assumes cr: "crypto_ok cr" and len: "length input < 2 ^ 40"
    and g: "RequiredGas p input = Some g" "unat g < 2 ^ 62"
  shows "\<exists>ret err. precompile_Run d cr p input = Some (ret, err) \<and> length ret < 2 ^ 40"
proof (cases p)
  case bigModExp
  then show ?thesis using bigModExp_safe [OF len, of g] g by (auto simp: precompile_Run_def RequiredGas_def)
next
  case bn256Add
  obtain a b where "getData input 0 64 = Some a" "getData input 64 64 = Some b"
    using getData_some [OF len, of 64 0] getData_some [OF len, of 64 64] by auto
  then show ?thesis using bn256Add cr
    by (auto simp: precompile_Run_def bn256Add_Run_def crypto_ok_def split: sum.splits intro: le_less_trans)
next
  case bn256ScalarMul
  obtain a b where "getData input 0 64 = Some a" "getData input 64 32 = Some b"
    using getData_some [OF len, of 64 0] getData_some [OF len, of 32 64] by auto
  then show ?thesis using bn256ScalarMul cr
    by (auto simp: precompile_Run_def bn256ScalarMul_Run_def crypto_ok_def split: sum.splits intro: le_less_trans)
next
  case ecrecover
  then show ?thesis using ecrecover_safe [OF cr, of d input] by (auto simp: precompile_Run_def)
next
  case sha256hash
  then show ?thesis using cr by (auto simp: precompile_Run_def sha256hash_Run_def crypto_ok_def intro: le_less_trans)
next
  case ripemd160hash
  have "length (LeftPadBytes (ripemd160_Sum cr input) 32) \<le> 64" using cr by (simp add: crypto_ok_def)
  then have "length (LeftPadBytes (ripemd160_Sum cr input) 32) < 2 ^ 40" by (rule le_less_trans) simp
  then show ?thesis using ripemd160hash by (simp add: precompile_Run_def ripemd160hash_Run_def)
next
  case dataCopy
  then show ?thesis using len by (simp add: precompile_Run_def dataCopy_Run_def)
next
  case bn256Pairing
  then show ?thesis
    by (auto simp: precompile_Run_def bn256Pairing_Run_def true32Byte_def false32Byte_def split: sum.splits)
qed

text \<open>A run of a precompiled contract returns, never with more gas than it was given.\<close>

lemma RunPrecompiledContract_safe:
  assumes cr: "crypto_ok cr" and len: "length input < 2 ^ 40" and gas: "unat (Gas c) < 2 ^ 62"
  shows "\<exists>ret err g. RunPrecompiledContract d cr p input c = Some (ret, err, c\<lparr>Gas := g\<rparr>) \<and>
           unat g \<le> unat (Gas c) \<and> length ret < 2 ^ 40"
proof -
  have len': "length input < 2 ^ 62" using len by simp
  obtain g where g: "RequiredGas p input = Some g"
    by (cases p; rule bigModExp_RequiredGas_eq [OF len']) (auto simp: RequiredGas_def Let_def)
  show ?thesis
  proof (cases "Gas c < g")
    case True
    then show ?thesis using g by (auto simp: RunPrecompiledContract_def UseGas_def intro!: exI [of _ "Gas c"])
  next
    case False
    then have le: "unat g \<le> unat (Gas c)" by (simp add: word_less_nat_alt)
    obtain ret err where r: "precompile_Run d cr p input = Some (ret, err)" "length ret < 2 ^ 40"
      using precompile_safe [OF cr len g] le gas by force
    have "unat (Gas c - g) \<le> unat (Gas c)" using le by (simp add: unat_sub word_le_nat_alt)
    then show ?thesis using False g r by (auto simp: RunPrecompiledContract_def UseGas_def)
  qed
qed

end
