(* ===== verification/Safety_Calls.thy ===== *)
theory Safety_Calls
  imports Safety_State Safety_Data Rlp_Spec
begin

text \<open>
  Safety of message calls and contract creation, relative to the interpreter they are given: if the
  interpreter returns for every contract at the call depths that can occur (\<open>interp_ok\<close>), then so does each
  of \<^verbatim>\<open>Call\<close>, \<^verbatim>\<open>CallCode\<close>, \<^verbatim>\<open>DelegateCall\<close>, \<^verbatim>\<open>StaticCall\<close> and \<^verbatim>\<open>create\<close>.  They return no more gas than they were
  given, and a call that fails leaves the world as it was.
\<close>

section \<open>Invariants\<close>

definition dests_sized :: "(Hash \<Rightarrow> nat) \<Rightarrow> destinations \<Rightarrow> bool" where
  "dests_sized sz d \<longleftrightarrow> (\<forall>h m. d h = Some m \<longrightarrow> length m = sz h div 8 + 5)"

definition evm_ok :: "(Hash \<Rightarrow> nat) \<Rightarrow> EVM \<Rightarrow> bool" where
  "evm_ok sz e \<longleftrightarrow>
     state_ok sz (statedb e) \<and> dests_sized sz (jumpdests e) \<and> length (returnData e) < max_size"

definition evm_next :: "(Hash \<Rightarrow> nat) \<Rightarrow> EVM \<Rightarrow> EVM \<Rightarrow> bool" where
  "evm_next sz e e' \<longleftrightarrow>
     evm_ok sz e \<and> evm_ok sz e' \<and> grows sz (statedb e) (statedb e') \<and> depth e' = depth e \<and> readOnly e' = readOnly e"

text \<open>The gas is bounded because the modular exponentiation would panic for a length that costs more.\<close>

definition contract_ok :: "(Hash \<Rightarrow> nat) \<Rightarrow> Contract \<Rightarrow> bool" where
  "contract_ok sz c \<longleftrightarrow>
     length (Code c) < max_size \<and> length (Input c) < max_size \<and> 0 \<le> c_value c \<and> unat (Gas c) < 2 ^ 62 \<and>
     (Code c = [] \<or> length (Code c) = sz (c_CodeHash c))"

definition interp_ok :: "(Hash \<Rightarrow> nat) \<Rightarrow> nat \<Rightarrow> interp \<Rightarrow> bool" where
  "interp_ok sz n ri \<longleftrightarrow>
     (\<forall>c input ro e. contract_ok sz c \<longrightarrow> length input < max_size \<longrightarrow> evm_ok sz e \<longrightarrow>
        depth e \<le> 1024 \<longrightarrow> 1025 \<le> depth e + n \<longrightarrow>
        (\<exists>ret err c' e'. ri c input ro e = Some (ret, err, c', e') \<and> evm_next sz e e' \<and>
           unat (Gas c') \<le> unat (Gas c) \<and> length ret < max_size))"

lemma evm_nextD:
  "evm_next sz e e' \<Longrightarrow> evm_ok sz e" "evm_next sz e e' \<Longrightarrow> evm_ok sz e'"
  "evm_next sz e e' \<Longrightarrow> grows sz (statedb e) (statedb e')"
  "evm_next sz e e' \<Longrightarrow> depth e' = depth e" "evm_next sz e e' \<Longrightarrow> readOnly e' = readOnly e"
  by (simp_all add: evm_next_def)

lemma evm_okD: "evm_ok sz e \<Longrightarrow> state_ok sz (statedb e)" "evm_ok sz e \<Longrightarrow> sdb_ok (statedb e)"
  by (simp_all add: evm_ok_def state_ok_def)

lemma evm_next_refl [simp]: "evm_ok sz e \<Longrightarrow> evm_next sz e e"
  by (simp add: evm_next_def evm_ok_def)

lemma evm_next_trans [trans]: "evm_next sz e e' \<Longrightarrow> evm_next sz e' e'' \<Longrightarrow> evm_next sz e e''"
  by (auto simp: evm_next_def intro: grows_trans)

lemma evm_next_state:
  "evm_ok sz e \<Longrightarrow> grows sz (statedb e) s \<Longrightarrow> evm_next sz e (e\<lparr>statedb := s\<rparr>)"
  by (auto simp: evm_next_def evm_ok_def dest: growsD)

lemma dests_sized_empty [simp]: "dests_sized sz Map.empty"
  by (simp add: dests_sized_def)

section \<open>State access\<close>

lemma query_simps [simp]:
  "fst (query q e) = fst (q (statedb e))" "snd (query q e) = e\<lparr>statedb := snd (q (statedb e))\<rparr>"
  by (simp_all add: query_def case_prod_beta)

lemma query_next: "evm_ok sz e \<Longrightarrow> grows sz (statedb e) (snd (q (statedb e))) \<Longrightarrow> evm_next sz e (snd (query q e))"
  by (simp add: evm_next_state)

lemma upd_state_next: "evm_ok sz e \<Longrightarrow> grows sz (statedb e) (u (statedb e)) \<Longrightarrow> evm_next sz e (upd_state u e)"
  by (simp add: evm_next_state upd_state_def)

lemma new_dests_next: "evm_ok sz e \<Longrightarrow> evm_next sz e (new_dests clr e)"
  by (auto simp: new_dests_def evm_next_def evm_ok_def split: ContractRef.split)

lemma new_dests_state [simp]: "statedb (new_dests clr e) = statedb e"
  by (simp add: new_dests_def split: ContractRef.split)

lemma upd_state_fields [simp]: "statedb (upd_state u e) = u (statedb e)" "depth (upd_state u e) = depth e"
  by (simp_all add: upd_state_def)

lemma load_code_safe:
  assumes e: "evm_ok sz e" and gas: "unat (Gas c) < 2 ^ 62" and v: "0 \<le> c_value c" and i: "length (Input c) < max_size"
  shows "evm_next sz e (snd (load_code a c e))" "contract_ok sz (fst (load_code a c e))"
    "Gas (fst (load_code a c e)) = Gas c" "world (statedb (snd (load_code a c e))) = world (statedb e)"
proof -
  let ?s = "statedb e"
  let ?s1 = "snd (GetCodeHash ?s a)"
  have s: "state_ok sz ?s" using e by (rule evm_okD)
  have g1: "grows sz ?s ?s1" using reader_grows(5) [OF s] .
  note s1 = growsD(2) [OF g1]
  have g2: "grows sz ?s1 (snd (GetCode ?s1 a))" using reader_grows(9) [OF s1] .
  have eq: "load_code a c e =
      (SetCallCode a (fst (GetCodeHash ?s a)) (fst (GetCode ?s1 a)) c, e\<lparr>statedb := snd (GetCode ?s1 a)\<rparr>)"
    by (simp add: load_code_def query_def case_prod_beta)
  show "evm_next sz e (snd (load_code a c e))"
    unfolding eq using evm_next_state [OF e grows_trans [OF g1 g2]] by simp
  have "fst (GetCodeHash ?s1 a) = fst (GetCodeHash ?s a)"
    using reads_fst [OF GetCodeHash_reads [OF state_ok_sdb [OF s1], of a]]
      reads_fst [OF GetCodeHash_reads [OF state_ok_sdb [OF s], of a]] reader_world(5) [OF state_ok_sdb [OF s], of a] by simp
  then show "contract_ok sz (fst (load_code a c e))"
    unfolding eq using GetCode_bounds [OF s1, of a] gas v i by (simp add: contract_ok_def SetCallCode_def)
  show "Gas (fst (load_code a c e)) = Gas c" unfolding eq by (simp add: SetCallCode_def)
  show "world (statedb (snd (load_code a c e))) = world (statedb e)"
    unfolding eq using state_ok_sdb [OF s] state_ok_sdb [OF s1] by simp
qed

lemma Snapshot_next: "evm_ok sz e \<Longrightarrow> evm_next sz e (snd (query Snapshot e))"
  by (rule query_next) (auto intro: Snapshot_grows evm_okD)

section \<open>Running and settling\<close>

lemma UseGas_le: "unat (Gas (snd (UseGas g c))) \<le> unat (Gas c)"
  by (auto simp: UseGas_def unat_sub not_less)

lemma run_safe:
  assumes cr: "crypto_ok (crypto env)" and ri: "interp_ok sz n ri"
    and c: "contract_ok sz c" and i: "length input < max_size" and e: "evm_ok sz e"
    and d: "depth e \<le> 1024" "1025 \<le> depth e + n"
  shows "\<exists>ret err c' e'. run env ri c input ro e = Some (ret, err, c', e') \<and> evm_next sz e e' \<and>
           unat (Gas c') \<le> unat (Gas c) \<and> length ret < max_size"
proof (cases "Option.bind (CodeAddr c) (precompiles env)")
  case None
  then show ?thesis using ri c i e d unfolding interp_ok_def run_def by simp
next
  case (Some p)
  have "unat (Gas c) < 2 ^ 62" using c by (simp add: contract_ok_def)
  from RunPrecompiledContract_safe [OF cr i [unfolded max_size_def] this, of "db (statedb e)" p]
  obtain ret err g where r: "RunPrecompiledContract (db (statedb e)) (crypto env) p input c = Some (ret, err, c\<lparr>Gas := g\<rparr>)"
    "unat g \<le> unat (Gas c)" "length ret < 2 ^ 40" by blast
  then have "run env ri c input ro e = Some (ret, err, c\<lparr>Gas := g\<rparr>, e)" using Some by (simp add: run_def)
  then show ?thesis using r e by (intro exI conjI) (auto simp: max_size_def)
qed

definition result_ok :: "(Hash \<Rightarrow> nat) \<Rightarrow> EVM \<Rightarrow> uint64 \<Rightarrow> bytes \<times> uint64 \<times> vmerr option \<times> EVM \<Rightarrow> bool" where
  "result_ok sz e gas r \<longleftrightarrow>
     (case r of (ret, g, err, e') \<Rightarrow>
        evm_next sz e e' \<and> unat g \<le> unat gas \<and> length ret < max_size \<and>
        (err \<noteq> None \<longrightarrow> world (statedb e') = world (statedb e)))"

lemma revert_to_safe:
  assumes e: "evm_ok sz e" and n: "evm_next sz (snd (query Snapshot e)) e2"
  shows "\<exists>e3. revert_to (fst (Snapshot (statedb e))) e2 = Some e3 \<and> evm_next sz e e3 \<and>
           world (statedb e3) = world (statedb e)"
proof -
  have "grows sz (snd (Snapshot (statedb e))) (statedb e2)" using evm_nextD(3) [OF n] by simp
  from rollback_grows [OF evm_okD(1) [OF e] this] obtain s3 where
    s3: "RevertToSnapshot (statedb e2) (fst (Snapshot (statedb e))) = Some s3" "world s3 = world (statedb e)"
    "grows sz (statedb e) s3" by blast
  have "evm_next sz e (e2\<lparr>statedb := s3\<rparr>)"
    using n s3(3) e by (auto simp: evm_next_def evm_ok_def dest: growsD)
  then show ?thesis using s3 by (auto simp: revert_to_def)
qed

lemma settle_safe:
  assumes e: "evm_ok sz e" and n: "evm_next sz (snd (query Snapshot e)) e2"
    and g: "unat (Gas c) \<le> unat gas" and l: "length ret < max_size"
  shows "\<exists>r. settle (fst (Snapshot (statedb e))) (ret, err, c, e2) = Some r \<and> result_ok sz e gas r"
proof (cases err)
  case None
  have "evm_next sz e e2"
    using evm_next_trans [OF Snapshot_next [OF e] n] .
  then show ?thesis using None g l by (simp add: settle_def result_ok_def)
next
  case (Some er)
  obtain e3 where e3: "revert_to (fst (Snapshot (statedb e))) e2 = Some e3" "evm_next sz e e3"
    "world (statedb e3) = world (statedb e)"
    using revert_to_safe [OF e n] by blast
  then show ?thesis
    using Some g l UseGas_le [of "Gas c" c] by (auto simp: settle_def result_ok_def intro: order_trans)
qed

section \<open>The four calls\<close>

lemma result_ok_weaken:
  "evm_next sz e e1 \<Longrightarrow> world (statedb e1) = world (statedb e) \<Longrightarrow> result_ok sz e1 gas r \<Longrightarrow> result_ok sz e gas r"
  by (auto simp: result_ok_def intro: evm_next_trans)

lemma result_ok_stay:
  "evm_next sz e e1 \<Longrightarrow> world (statedb e1) = world (statedb e) \<Longrightarrow> result_ok sz e gas ([], gas, err, e1)"
  by (simp add: result_ok_def max_size_def)

lemma run_settle_safe:
  assumes cr: "crypto_ok (crypto env)" and ri: "interp_ok sz n ri" and i: "length input < max_size"
    and e: "evm_ok sz e" and d: "depth e \<le> 1024" "1025 \<le> depth e + n"
    and n: "evm_next sz (snd (query Snapshot e)) e2" and c: "contract_ok sz c" and g: "Gas c = gas"
  shows "\<exists>r. Option.bind (run env ri c input ro e2) (settle (fst (Snapshot (statedb e)))) = Some r \<and> result_ok sz e gas r"
proof -
  have d2: "depth e2 \<le> 1024" "1025 \<le> depth e2 + n" using d evm_nextD(4) [OF n] by simp_all
  obtain ret err c' e3 where r: "run env ri c input ro e2 = Some (ret, err, c', e3)" "evm_next sz e2 e3"
    "unat (Gas c') \<le> unat (Gas c)" "length ret < max_size"
    using run_safe [OF cr ri c i evm_nextD(2) [OF n] d2] by blast
  then show ?thesis using settle_safe [OF e evm_next_trans [OF n r(2)] _ r(4), of c' gas err] g by simp
qed

lemma NewContract_fields [simp]:
  "Gas (NewContract clr obj v gas) = gas" "c_value (NewContract clr obj v gas) = v"
  "Input (NewContract clr obj v gas) = []" "Code (NewContract clr obj v gas) = []"
  by (simp_all add: NewContract_def)

lemma CanTransfer_next:
  assumes "evm_ok sz e"
  shows "evm_next sz e (snd (query (\<lambda>s. CanTransfer s a v) e))"
    "world (statedb (snd (query (\<lambda>s. CanTransfer s a v) e))) = world (statedb e)"
  using assms by (auto intro!: evm_next_state CanTransfer_grows dest: evm_okD)

lemma balance_CreateAccount:
  "v_balance (acct_or_fresh d (spec_CreateAccount d' w b) a) = v_balance (acct_or_fresh d w a)"
  by (auto simp: acct_or_fresh_def spec_CreateAccount_def split: option.splits)

text \<open>From the check of the balance on, what \<^verbatim>\<open>Call\<close> does before it runs the code.\<close>

lemma Call_prepare:
  assumes e: "evm_ok sz e" and v: "0 \<le> v" "v \<le> v_balance (acct_or_fresh d (world (statedb e)) a)" "d = db (statedb e)"
  shows "evm_next sz e (upd_state (Transfer a b v) (if x then e else upd_state (\<lambda>s. CreateAccount s b) e))"
proof -
  let ?e = "if x then e else upd_state (\<lambda>s. CreateAccount s b) e"
  have 1: "evm_next sz e ?e" using e by (auto intro!: upd_state_next CreateAccount_grows dest: evm_okD)
  have "v \<le> v_balance (acct_or_fresh (db (statedb ?e)) (world (statedb ?e)) a)"
    using v grows_db [OF evm_nextD(3) [OF 1]] CreateAccount_correct [OF evm_okD(2) [OF e], of b]
    by (auto simp: balance_CreateAccount)
  then have "evm_next sz ?e (upd_state (Transfer a b v) ?e)"
    using evm_nextD(2) [OF 1] v(1) by (intro upd_state_next Transfer_grows) (auto dest: evm_okD)
  with 1 show ?thesis by (rule evm_next_trans)
qed

lemma EVM_Call_safe:
  assumes cr: "crypto_ok (crypto env)" and ri: "interp_ok sz n ri" and i: "length input < max_size"
    and e: "evm_ok sz e" and d: "1025 \<le> depth e + n" and gas: "unat gas < 2 ^ 62" and v: "0 \<le> v"
  shows "\<exists>r. EVM_Call env ri clr addr input gas v e = Some r \<and> result_ok sz e gas r"
proof -
  define e1 where "e1 = snd (query (\<lambda>s. CanTransfer s (ref_Address clr) v) e)"
  define e2 where "e2 = snd (query Snapshot e1)"
  define e3 where "e3 = snd (query (\<lambda>s. Exist s addr) e2)"
  define x where "x = fst (Exist (statedb e2) addr)"
  define e4 where "e4 = upd_state (Transfer (ref_Address clr) addr v) (if x then e3 else upd_state (\<lambda>s. CreateAccount s addr) e3)"
  define e5 where "e5 = new_dests clr e4"
  define ce where "ce = load_code addr (NewContract clr (AccountRef addr) v gas) e5"
  note 1 = CanTransfer_next [OF e, of "ref_Address clr" v, folded e1_def]
  note e1 = evm_nextD(2) [OF 1(1)]
  have 2: "evm_next sz e1 e2" unfolding e2_def by (rule Snapshot_next [OF e1])
  note e2 = evm_nextD(2) [OF 2]
  have 3: "evm_next sz e2 e3" unfolding e3_def
    using e2 by (auto intro!: evm_next_state reader_grows dest: evm_okD)
  have w: "world (statedb e2) = world (statedb e1)" "world (statedb e3) = world (statedb e)"
    using Snapshot_correct [OF evm_okD(2) [OF e1]] evm_okD(2) [OF e2] 1(2) by (auto simp: e2_def e3_def)
  show ?thesis
  proof (cases "NoRecursion (vmConfig env) \<and> depth e > 0 \<or> depth e > unat CallCreateDepth \<or>
      \<not> fst (CanTransfer (statedb e) (ref_Address clr) v) \<or>
      \<not> x \<and> precompiles env addr = None \<and> IsEIP158 (chainConfig env) (BlockNumber (ctx env)) \<and> v = 0")
    case True
    have "result_ok sz e gas ([], gas, err, e)" "result_ok sz e gas ([], gas, err, e1)"
      "result_ok sz e gas ([], gas, err, e3)" for err
      using result_ok_stay [OF evm_next_refl [OF e]] result_ok_stay [OF 1]
        result_ok_stay [OF evm_next_trans [OF 1(1) evm_next_trans [OF 2 3]] w(2)] by simp_all
    then show ?thesis
      using True by (auto simp: EVM_Call_def case_prod_beta Let_def x_def e1_def e2_def e3_def simp del: query_simps(2))
  next
    case False
    have dep: "depth e \<le> 1024" using False by (simp add: CallCreateDepth_def)
    have "v \<le> v_balance (acct_or_fresh (db (statedb e3)) (world (statedb e3)) (ref_Address clr))"
      using False CanTransfer_balance [OF evm_okD(2) [OF e], of "ref_Address clr" v] w by auto
    then have 4: "evm_next sz e3 e4" unfolding e4_def by (intro Call_prepare evm_nextD(2) [OF 3] v) auto
    have 5: "evm_next sz e4 e5" unfolding e5_def by (rule new_dests_next [OF evm_nextD(2) [OF 4]])
    note L = load_code_safe [OF evm_nextD(2) [OF 5], of "NewContract clr (AccountRef addr) v gas" addr, folded ce_def]
    have 6: "evm_next sz e2 (snd ce)" "contract_ok sz (fst ce)" "Gas (fst ce) = gas"
      using L(1-3) gas v evm_next_trans [OF 3 evm_next_trans [OF 4 5]] by (auto simp: max_size_def intro: evm_next_trans)
    have "EVM_Call env ri clr addr input gas v e =
        Option.bind (run env ri (fst ce) input False (snd ce)) (settle (fst (Snapshot (statedb e1))))"
      using False
      by (auto simp: EVM_Call_def case_prod_beta Let_def x_def e1_def e2_def e3_def e4_def e5_def ce_def simp del: query_simps(2))
    moreover have "depth e1 \<le> 1024" "1025 \<le> depth e1 + n" using dep d evm_nextD(4) [OF 1(1)] by simp_all
    ultimately show ?thesis
      using run_settle_safe [OF cr ri i e1 _ _ 6(1) [unfolded e2_def] 6(2,3), of False] result_ok_weaken [OF 1] by auto
  qed
qed

lemma load_after_snapshot:
  assumes e: "evm_ok sz e" and gas: "unat (Gas c) < 2 ^ 62" and v: "0 \<le> c_value c" and i: "length (Input c) < max_size"
  shows "evm_next sz (snd (query Snapshot e)) (snd (load_code addr c (new_dests clr (snd (query Snapshot e)))))"
    "contract_ok sz (fst (load_code addr c (new_dests clr (snd (query Snapshot e)))))"
    "Gas (fst (load_code addr c (new_dests clr (snd (query Snapshot e))))) = Gas c"
proof -
  have n: "evm_next sz (snd (query Snapshot e)) (new_dests clr (snd (query Snapshot e)))"
    by (rule new_dests_next [OF evm_nextD(2) [OF Snapshot_next [OF e]]])
  note L = load_code_safe [OF evm_nextD(2) [OF n] gas v i, of addr]
  show "evm_next sz (snd (query Snapshot e)) (snd (load_code addr c (new_dests clr (snd (query Snapshot e)))))"
    using n L(1) by (rule evm_next_trans)
  show "contract_ok sz (fst (load_code addr c (new_dests clr (snd (query Snapshot e)))))"
    "Gas (fst (load_code addr c (new_dests clr (snd (query Snapshot e))))) = Gas c" by (rule L)+
qed

lemma EVM_CallCode_safe:
  assumes cr: "crypto_ok (crypto env)" and ri: "interp_ok sz n ri" and i: "length input < max_size"
    and e: "evm_ok sz e" and d: "1025 \<le> depth e + n" and gas: "unat gas < 2 ^ 62" and v: "0 \<le> v"
  shows "\<exists>r. EVM_CallCode env ri clr addr input gas v e = Some r \<and> result_ok sz e gas r"
proof -
  define e1 where "e1 = snd (query (\<lambda>s. CanTransfer s (ref_Address clr) v) e)"
  define c0 where "c0 = NewContract clr (AccountRef (ref_Address clr)) v gas"
  define ce where "ce = load_code addr c0 (new_dests clr (snd (query Snapshot e1)))"
  note 1 = CanTransfer_next [OF e, of "ref_Address clr" v, folded e1_def]
  note e1 = evm_nextD(2) [OF 1(1)]
  show ?thesis
  proof (cases "NoRecursion (vmConfig env) \<and> depth e > 0 \<or> depth e > unat CallCreateDepth \<or>
      \<not> fst (CanTransfer (statedb e) (ref_Address clr) v)")
    case True
    then show ?thesis
      using result_ok_stay [OF evm_next_refl [OF e]] result_ok_stay [OF 1]
      by (auto simp: EVM_CallCode_def case_prod_beta Let_def e1_def simp del: query_simps(2))
  next
    case False
    have "unat (Gas c0) < 2 ^ 62" "0 \<le> c_value c0" "length (Input c0) < max_size" "Gas c0 = gas"
      using gas v by (simp_all add: c0_def max_size_def)
    note L = load_after_snapshot [OF e1 this(1-3), of addr clr, folded ce_def] this(4)
    have "EVM_CallCode env ri clr addr input gas v e =
        Option.bind (run env ri (fst ce) input False (snd ce)) (settle (fst (Snapshot (statedb e1))))"
      using False
      by (auto simp: EVM_CallCode_def case_prod_beta Let_def e1_def ce_def c0_def simp del: query_simps(2))
    moreover have "depth e1 \<le> 1024" "1025 \<le> depth e1 + n"
      using False d evm_nextD(4) [OF 1(1)] by (simp_all add: CallCreateDepth_def)
    ultimately show ?thesis
      using run_settle_safe [OF cr ri i e1 _ _ L(1,2), of gas False] L(3,4) result_ok_weaken [OF 1] by auto
  qed
qed

lemma EVM_DelegateCall_safe:
  assumes cr: "crypto_ok (crypto env)" and ri: "interp_ok sz n ri" and i: "length input < max_size"
    and e: "evm_ok sz e" and d: "1025 \<le> depth e + n" and gas: "unat gas < 2 ^ 62" and v: "0 \<le> v"
  shows "\<exists>r. EVM_DelegateCall env ri (ContractOf self' clr' v) addr input gas e = Some r \<and> result_ok sz e gas r"
proof -
  let ?clr = "ContractOf self' clr' v"
  define c0 where "c0 = (NewContract ?clr (AccountRef self') 0 gas)\<lparr>DelegateCall := True, CallerAddress := clr', c_value := v\<rparr>"
  define ce where "ce = load_code addr c0 (new_dests ?clr (snd (query Snapshot e)))"
  show ?thesis
  proof (cases "NoRecursion (vmConfig env) \<and> depth e > 0 \<or> depth e > unat CallCreateDepth")
    case True
    then show ?thesis
      using result_ok_stay [OF evm_next_refl [OF e]] by (auto simp: EVM_DelegateCall_def)
  next
    case False
    have a: "AsDelegate (NewContract ?clr (AccountRef self') 0 gas) = Some c0"
      by (simp add: AsDelegate_def c0_def NewContract_def)
    have "unat (Gas c0) < 2 ^ 62" "0 \<le> c_value c0" "length (Input c0) < max_size" "Gas c0 = gas"
      using gas v by (simp_all add: c0_def max_size_def)
    note L = load_after_snapshot [OF e this(1-3), of addr ?clr, folded ce_def] this(4)
    have "EVM_DelegateCall env ri ?clr addr input gas e =
        Option.bind (run env ri (fst ce) input False (snd ce)) (settle (fst (Snapshot (statedb e))))"
      using False a
      by (auto simp: EVM_DelegateCall_def case_prod_beta Let_def ce_def simp del: query_simps(2))
    moreover have "depth e \<le> 1024" using False by (simp add: CallCreateDepth_def)
    ultimately show ?thesis
      using run_settle_safe [OF cr ri i e _ d L(1,2), of gas False] L(3,4) by auto
  qed
qed

lemma EVM_StaticCall_safe:
  assumes cr: "crypto_ok (crypto env)" and ri: "interp_ok sz n ri" and i: "length input < max_size"
    and e: "evm_ok sz e" and d: "1025 \<le> depth e + n" and gas: "unat gas < 2 ^ 62"
  shows "\<exists>r. EVM_StaticCall env ri clr addr input gas e = Some r \<and> result_ok sz e gas r"
proof -
  define c0 where "c0 = NewContract clr (AccountRef addr) 0 gas"
  define ce where "ce = load_code addr c0 (new_dests clr (snd (query Snapshot e)))"
  show ?thesis
  proof (cases "NoRecursion (vmConfig env) \<and> depth e > 0 \<or> depth e > unat CallCreateDepth")
    case True
    then show ?thesis
      using result_ok_stay [OF evm_next_refl [OF e]] by (auto simp: EVM_StaticCall_def)
  next
    case False
    have "unat (Gas c0) < 2 ^ 62" "0 \<le> c_value c0" "length (Input c0) < max_size" "Gas c0 = gas"
      using gas by (simp_all add: c0_def max_size_def)
    note L = load_after_snapshot [OF e this(1-3), of addr clr, folded ce_def] this(4)
    have "EVM_StaticCall env ri clr addr input gas e =
        Option.bind (run env ri (fst ce) input True (snd ce)) (settle (fst (Snapshot (statedb e))))"
      using False
      by (auto simp: EVM_StaticCall_def case_prod_beta Let_def ce_def c0_def simp del: query_simps(2))
    moreover have "depth e \<le> 1024" using False by (simp add: CallCreateDepth_def)
    ultimately show ?thesis
      using run_settle_safe [OF cr ri i e _ d L(1,2), of gas True] L(3,4) by auto
  qed
qed

section \<open>Contract creation\<close>

lemma CreateAddress_total: "\<exists>a. CreateAddress d b nonce = Some a"
proof -
  let ?v = "RList [RBytes (Address_Bytes b), RUint nonce]"
  have "length (rlp_string (bytes_of_nat (unat nonce))) \<le> 9"
    using length_bytes_uint64 [of nonce] by (auto simp: rlp_string_def rlp_head_def)
  then have "length (rlp_spec ?v) < 2 ^ 63"
    by (simp add: rlp_string_def rlp_head_def Address_Bytes_def AddressLength_def Let_def)
  from EncodeToBytes_eq [OF this] show ?thesis by (simp add: CreateAddress_def)
qed

text \<open>The only trace that a failed creation may leave is the nonce of the creator.\<close>

definition bump_nonce :: "Backend \<Rightarrow> Address \<Rightarrow> World \<Rightarrow> World" where
  "bump_nonce d a w = upd_acct d w a (\<lambda>v. v\<lparr>v_nonce := v_nonce v + 1\<rparr>)"

definition create_ok ::
  "(Hash \<Rightarrow> nat) \<Rightarrow> Env \<Rightarrow> ContractRef \<Rightarrow> EVM \<Rightarrow> uint64 \<Rightarrow> bytes \<times> Address \<times> uint64 \<times> vmerr option \<times> EVM \<Rightarrow> bool" where
  "create_ok sz env clr e gas r \<longleftrightarrow>
     (case r of (ret, addr, g, err, e') \<Rightarrow>
        evm_next sz e e' \<and> unat g \<le> unat gas \<and> length ret < max_size \<and>
        (err \<noteq> None \<longrightarrow> IsHomestead (chainConfig env) (BlockNumber (ctx env)) \<longrightarrow>
           world (statedb e') \<in> {world (statedb e), bump_nonce (db (statedb e)) (ref_Address clr) (world (statedb e))}))"

lemma create_finish_safe:
  assumes e: "evm_ok sz e" and n: "evm_next sz (snd (query Snapshot e)) e2"
    and g: "unat (Gas c) \<le> unat gas" and l: "length ret < max_size"
  shows "\<exists>g' err' e3. create_finish env addr (fst (Snapshot (statedb e))) (ret, err, c, e2) = Some (ret, addr, g', err', e3) \<and>
           evm_next sz e e3 \<and> unat g' \<le> unat gas \<and>
           (err' \<noteq> None \<longrightarrow> IsHomestead (chainConfig env) (BlockNumber (ctx env)) \<longrightarrow> world (statedb e3) = world (statedb e))"
proof -
  have n0: "evm_next sz e e2" using evm_next_trans [OF Snapshot_next [OF e] n] .
  have e2: "evm_ok sz e2" using evm_nextD(2) [OF n] .
  define full where "full = (IsEIP158 (chainConfig env) (BlockNumber (ctx env)) \<and> length ret > MaxCodeSize)"
  define pay where "pay = UseGas (of_nat (length ret) * CreateDataGas) c"
  obtain err1 c1 e1 where s: "(err1, c1, e1) =
      (if err = None \<and> \<not> full then if fst pay then (None, snd pay, upd_state (\<lambda>s. SetCode s addr ret) e2)
       else (Some ErrCodeStoreOutOfGas, snd pay, e2) else (err, c, e2))"
    by (metis prod_cases3)
  have "evm_next sz e2 (upd_state (\<lambda>s. SetCode s addr ret) e2)"
    using e2 l by (intro upd_state_next SetCode_grows) (auto dest: evm_okD)
  then have n1: "evm_next sz (snd (query Snapshot e)) e1" "evm_next sz e e1"
    using s n n0 by (auto split: if_splits intro: evm_next_trans)
  have g1: "unat (Gas c1) \<le> unat gas"
    using s g UseGas_le [of "of_nat (length ret) * CreateDataGas" c] by (auto simp: pay_def split: if_splits)
  obtain e3 where e3: "revert_to (fst (Snapshot (statedb e))) e1 = Some e3" "evm_next sz e e3"
    "world (statedb e3) = world (statedb e)"
    using revert_to_safe [OF e n1(1)] by blast
  let ?undo = "full \<or> (err1 \<noteq> None \<and> (IsHomestead (chainConfig env) (BlockNumber (ctx env)) \<or> err1 \<noteq> Some ErrCodeStoreOutOfGas))"
  let ?err = "if full \<and> err1 = None then Some errMaxCodeSizeExceeded else err1"
  let ?c = "if err1 \<noteq> Some errExecutionReverted then snd (UseGas (Gas c1) c1) else c1"
  have "create_finish env addr (fst (Snapshot (statedb e))) (ret, err, c, e2) =
      (if ?undo then Some (ret, addr, Gas ?c, ?err, e3) else Some (ret, addr, Gas c1, ?err, e1))"
    using s e3(1)
    by (cases ?undo) (auto simp: create_finish_def full_def pay_def Let_def case_prod_beta split: if_splits)
  moreover have "unat (Gas ?c) \<le> unat gas" using g1 UseGas_le [of "Gas c1" c1] by (auto intro: order_trans)
  ultimately show ?thesis using e3 n1(2) g1 by (cases ?undo) auto
qed

lemma SetNonce_bump:
  assumes "sdb_ok s" "sdb_ok s'" "world s' = world s"
  shows "world (SetNonce s a (fst (GetNonce s' a) + 1)) = bump_nonce (db s) a (world s)"
proof -
  have "fst (GetNonce s' a) = v_nonce (acct_or_fresh (db s) (world s) a)"
    using reads_fst [OF GetNonce_reads [OF assms(2), of a]] assms(3)
    by (auto simp: acct_or_fresh_def fresh_def split: option.splits)
  then show ?thesis
    using SetNonce_correct [OF assms(1), of a] by (simp add: bump_nonce_def upd_acct_def)
qed

lemma balance_bump: "v_balance (acct_or_fresh d (bump_nonce d' b w) a) = v_balance (acct_or_fresh d w a)"
  by (auto simp: acct_or_fresh_def bump_nonce_def upd_acct_def fresh_def split: option.splits)

lemma balance_nonce: "v_balance (acct_or_fresh d (upd_acct d' w b (\<lambda>v. v\<lparr>v_nonce := n\<rparr>)) a) = v_balance (acct_or_fresh d w a)"
  by (auto simp: acct_or_fresh_def upd_acct_def fresh_def split: option.splits)

text \<open>The new account between the snapshot and the start of the initialisation code.\<close>

lemma create_prepare:
  assumes e: "evm_ok sz e" and v: "0 \<le> v" "\<And>d. v \<le> v_balance (acct_or_fresh d (world (statedb e)) a)"
  shows "evm_next sz e (new_dests clr (upd_state (Transfer a b v)
           (if x then upd_state (\<lambda>s. SetNonce s b 1) (upd_state (\<lambda>s. CreateAccount s b) e)
            else upd_state (\<lambda>s. CreateAccount s b) e)))"
proof -
  define e1 where "e1 = upd_state (\<lambda>s. CreateAccount s b) e"
  have 1: "evm_next sz e e1" unfolding e1_def using e by (auto intro!: upd_state_next CreateAccount_grows dest: evm_okD)
  note e1 = evm_nextD(2) [OF 1]
  let ?e2 = "if x then upd_state (\<lambda>s. SetNonce s b 1) e1 else e1"
  have 2: "evm_next sz e1 ?e2" using e1 by (auto intro!: upd_state_next SetNonce_grows dest: evm_okD)
  have "world (statedb e1) = spec_CreateAccount (db (statedb e)) (world (statedb e)) b"
    using CreateAccount_correct [OF evm_okD(2) [OF e], of b] by (simp add: e1_def)
  then have "v \<le> v_balance (acct_or_fresh d (world (statedb ?e2)) a)" for d
    using v(2) SetNonce_correct [OF evm_okD(2) [OF e1], of b 1] by (simp add: balance_CreateAccount balance_nonce)
  then have 3: "evm_next sz ?e2 (upd_state (Transfer a b v) ?e2)"
    using evm_nextD(2) [OF 2] v(1) by (intro upd_state_next Transfer_grows) (auto dest: evm_okD)
  have "evm_next sz e (upd_state (Transfer a b v) ?e2)" using evm_next_trans [OF 1 evm_next_trans [OF 2 3]] .
  then show ?thesis
    unfolding e1_def by (rule evm_next_trans) (rule new_dests_next [OF evm_nextD(2) [OF 3], unfolded e1_def])
qed

lemma evm_create_safe:
  assumes cr: "crypto_ok (crypto env)" and ri: "interp_ok sz n ri" and i: "length code < max_size"
    and e: "evm_ok sz e" and d: "1025 \<le> depth e + n" and gas: "unat gas < 2 ^ 62" and v: "0 \<le> v"
  shows "\<exists>r. evm_create env ri clr code gas v addr e = Some r \<and> create_ok sz env clr e gas r"
proof -
  let ?a = "ref_Address clr"
  define e1 where "e1 = snd (query (\<lambda>s. CanTransfer s ?a v) e)"
  define e2 where "e2 = snd (query (\<lambda>s. GetNonce s ?a) e1)"
  define e3 where "e3 = upd_state (\<lambda>s. SetNonce s ?a (fst (GetNonce (statedb e1) ?a) + 1)) e2"
  define e4 where "e4 = snd (query (\<lambda>s. GetCodeHash s addr) e3)"
  define e5 where "e5 = snd (query (\<lambda>s. GetNonce s addr) e4)"
  define e6 where "e6 = snd (query Snapshot e5)"
  define e7 where "e7 = new_dests clr (upd_state (Transfer ?a addr v)
    (if IsEIP158 (chainConfig env) (BlockNumber (ctx env))
     then upd_state (\<lambda>s. SetNonce s addr 1) (upd_state (\<lambda>s. CreateAccount s addr) e6)
     else upd_state (\<lambda>s. CreateAccount s addr) e6))"
  define c where "c = SetCallCode addr (Keccak256Hash (db (statedb e7)) code) code (NewContract clr (AccountRef addr) v gas)"
  note 1 = CanTransfer_next [OF e, of ?a v, folded e1_def]
  note ok1 = evm_nextD(2) [OF 1(1)]
  have 2: "evm_next sz e1 e2" unfolding e2_def using ok1 by (auto intro!: evm_next_state reader_grows dest: evm_okD)
  note ok2 = evm_nextD(2) [OF 2]
  have w2: "world (statedb e2) = world (statedb e1)" using evm_okD(2) [OF ok1] by (simp add: e2_def)
  have 3: "evm_next sz e2 e3" unfolding e3_def using ok2 by (auto intro!: upd_state_next SetNonce_grows dest: evm_okD)
  note ok3 = evm_nextD(2) [OF 3]
  have db: "db (statedb e2) = db (statedb e)"
    using grows_db [OF evm_nextD(3) [OF 1(1)]] grows_db [OF evm_nextD(3) [OF 2]] by simp
  have w3: "world (statedb e3) = bump_nonce (db (statedb e)) ?a (world (statedb e))"
    using SetNonce_bump [OF evm_okD(2) [OF ok2] evm_okD(2) [OF ok1] w2 [symmetric], of ?a] w2 1(2) db by (simp add: e3_def)
  have 4: "evm_next sz e3 e4" unfolding e4_def using ok3 by (auto intro!: evm_next_state reader_grows dest: evm_okD)
  note ok4 = evm_nextD(2) [OF 4]
  have 5: "evm_next sz e4 e5" unfolding e5_def using ok4 by (auto intro!: evm_next_state reader_grows dest: evm_okD)
  note ok5 = evm_nextD(2) [OF 5]
  have 6: "evm_next sz e5 e6" unfolding e6_def by (rule Snapshot_next [OF ok5])
  have w5: "world (statedb e5) = world (statedb e3)"
    using evm_okD(2) [OF ok3] evm_okD(2) [OF ok4] by (simp add: e4_def e5_def)
  have n5: "evm_next sz e e5" using evm_next_trans [OF 1(1) evm_next_trans [OF 2 evm_next_trans [OF 3 evm_next_trans [OF 4 5]]]] .
  show ?thesis
  proof (cases "depth e > unat CallCreateDepth \<or> \<not> fst (CanTransfer (statedb e) ?a v) \<or>
      (fst (GetNonce (statedb e4) addr) \<noteq> 0 \<or> (fst (GetCodeHash (statedb e3) addr) \<noteq> 0 \<and>
         fst (GetCodeHash (statedb e3) addr) \<noteq> emptyCodeHash (db (statedb e5))))")
    case True
    have "create_ok sz env clr e gas ([], 0, gas, err, e)" "create_ok sz env clr e gas ([], 0, gas, err, e1)"
      "create_ok sz env clr e gas ([], 0, 0, err, e5)" for err
      using e 1 n5 w5 w3 by (auto simp: create_ok_def max_size_def)
    then show ?thesis
      using True
      by (auto simp: evm_create_def case_prod_beta Let_def e1_def e2_def e3_def e4_def e5_def simp del: query_simps(2))
  next
    case False
    have dep: "depth e \<le> 1024" using False by (simp add: CallCreateDepth_def)
    have "v \<le> v_balance (acct_or_fresh d (world (statedb e)) ?a)" for d
      using False CanTransfer_balance [OF evm_okD(2) [OF e]] by blast
    then have "v \<le> v_balance (acct_or_fresh d (world (statedb e6)) ?a)" for d
      using Snapshot_correct [OF evm_okD(2) [OF ok5]] by (simp add: e6_def w5 w3 balance_bump)
    then have 7: "evm_next sz e6 e7" unfolding e7_def by (intro create_prepare evm_nextD(2) [OF 6] v)
    have "sz (Keccak256Hash (db (statedb e7)) code) = length code"
      using evm_okD(1) [OF evm_nextD(2) [OF 7]] i by (simp add: state_ok_def hash_sizes_def)
    then have c: "contract_ok sz c" "Gas c = gas"
      using i gas v by (simp_all add: c_def contract_ok_def SetCallCode_def max_size_def)
    show ?thesis
    proof (cases "NoRecursion (vmConfig env) \<and> depth e7 > 0")
      case True
      then have "evm_create env ri clr code gas v addr e = Some ([], addr, gas, None, e7)"
        using False
        by (auto simp: evm_create_def case_prod_beta Let_def e1_def e2_def e3_def e4_def e5_def e6_def e7_def
            simp del: query_simps(2))
      then show ?thesis using evm_next_trans [OF n5 evm_next_trans [OF 6 7]] by (simp add: create_ok_def max_size_def)
    next
      case rec: False
      have d7: "depth e7 = depth e" using evm_nextD(4) [OF evm_next_trans [OF n5 evm_next_trans [OF 6 7]]] .
      have "length ([] :: bytes) < max_size" by (simp add: max_size_def)
      from run_safe [OF cr ri c(1) this evm_nextD(2) [OF 7], where ro = False] obtain ret err c' e8 where
        r: "run env ri c [] False e7 = Some (ret, err, c', e8)" "evm_next sz e7 e8" "unat (Gas c') \<le> unat gas"
        "length ret < max_size"
        using dep d d7 c(2) by auto
      have eq: "evm_create env ri clr code gas v addr e =
          create_finish env addr (fst (Snapshot (statedb e5))) (ret, err, c', e8)"
        using False rec r(1)
        by (auto simp: evm_create_def case_prod_beta Let_def e1_def e2_def e3_def e4_def e5_def e6_def e7_def c_def
            simp del: query_simps(2))
      show ?thesis
        unfolding eq
        using create_finish_safe [OF ok5 evm_next_trans [OF 7 r(2), unfolded e6_def] r(3,4), of env addr err] n5 w5 w3 r(4)
        by (auto simp: create_ok_def intro: evm_next_trans)
    qed
  qed
qed

lemma create_ok_weaken:
  assumes "evm_next sz e e1" "world (statedb e1) = world (statedb e)" "create_ok sz env clr e1 gas r"
  shows "create_ok sz env clr e gas r"
  using assms grows_db [OF evm_nextD(3) [OF assms(1)]] by (auto simp: create_ok_def intro: evm_next_trans)

lemma EVM_Create_safe:
  assumes cr: "crypto_ok (crypto env)" and ri: "interp_ok sz n ri" and i: "length code < max_size"
    and e: "evm_ok sz e" and d: "1025 \<le> depth e + n" and gas: "unat gas < 2 ^ 62" and v: "0 \<le> v"
  shows "\<exists>r. EVM_Create env ri clr code gas v e = Some r \<and> create_ok sz env clr e gas r"
proof -
  define e1 where "e1 = snd (query (\<lambda>s. GetNonce s (ref_Address clr)) e)"
  have n: "evm_next sz e e1" unfolding e1_def using e by (auto intro!: evm_next_state reader_grows dest: evm_okD)
  have w: "world (statedb e1) = world (statedb e)" using evm_okD(2) [OF e] by (simp add: e1_def)
  obtain a where a: "CreateAddress (db (statedb e1)) (ref_Address clr) (fst (GetNonce (statedb e) (ref_Address clr))) = Some a"
    using CreateAddress_total by blast
  have "1025 \<le> depth e1 + n" using d evm_nextD(4) [OF n] by simp
  from evm_create_safe [OF cr ri i evm_nextD(2) [OF n] this gas v, of clr a] show ?thesis
    using a create_ok_weaken [OF n w] by (auto simp: EVM_Create_def case_prod_beta Let_def e1_def simp del: query_simps(2))
qed

lemma EVM_Create2_safe:
  assumes cr: "crypto_ok (crypto env)" and ri: "interp_ok sz n ri" and i: "length code < max_size"
    and e: "evm_ok sz e" and d: "1025 \<le> depth e + n" and gas: "unat gas < 2 ^ 62" and v: "0 \<le> v"
  shows "\<exists>r. EVM_Create2 env ri clr code gas v salt e = Some r \<and> create_ok sz env clr e gas r"
  using evm_create_safe [OF assms] by (simp add: EVM_Create2_def)

end
