(* ===== verification/Safety_Ops.thy ===== *)
theory Safety_Ops
  imports Safety_Calls Network
begin

text \<open>
  Safety of the instructions.  An instruction is executed on a frame that satisfies the invariant, with
  enough operands on the stack and the memory already grown to the size that its entry of the jump table
  asks for.  Then it does not panic, the invariant holds again, the height of the stack changes by the
  declared difference, and the gas grows by no more than \<open>extra\<close>: nothing, except for the calls, which may
  give back what was reserved for them.
\<close>

section \<open>Frames\<close>

definition rest_ok :: "(Hash \<Rightarrow> nat) \<Rightarrow> frame \<Rightarrow> bool" where
  "rest_ok sz f \<longleftrightarrow>
     evm_ok sz (f_evm f) \<and> contract_ok sz (f_contract f) \<and> length (store (f_memory f)) < max_size"

definition nonneg :: "int list \<Rightarrow> bool" where
  "nonneg st \<longleftrightarrow> (\<forall>x \<in> set st. 0 \<le> x)"

definition frame_ok :: "(Hash \<Rightarrow> nat) \<Rightarrow> frame \<Rightarrow> bool" where
  "frame_ok sz f \<longleftrightarrow> rest_ok sz f \<and> nonneg (f_stack f)"

lemma nonneg_simps [simp]:
  "nonneg []" "nonneg (x # st) \<longleftrightarrow> 0 \<le> x \<and> nonneg st" "nonneg (st @ st') \<longleftrightarrow> nonneg st \<and> nonneg st'"
  by (auto simp: nonneg_def)

lemma rest_ok_on_stack [simp]: "rest_ok sz (on_stack st f) = rest_ok sz f"
  by (simp add: rest_ok_def)

lemma frame_ok_on_stack [simp]: "frame_ok sz (on_stack st f) \<longleftrightarrow> rest_ok sz f \<and> nonneg st"
  by (simp add: frame_ok_def)

lemma rest_okD:
  "rest_ok sz f \<Longrightarrow> evm_ok sz (f_evm f)" "rest_ok sz f \<Longrightarrow> contract_ok sz (f_contract f)"
  "rest_ok sz f \<Longrightarrow> length (store (f_memory f)) < max_size" "rest_ok sz f \<Longrightarrow> state_ok sz (statedb (f_evm f))"
  "rest_ok sz f \<Longrightarrow> sdb_ok (statedb (f_evm f))"
  by (simp_all add: rest_ok_def evm_ok_def state_ok_def)

section \<open>What an execution promises\<close>

definition post :: "(Hash \<Rightarrow> nat) \<Rightarrow> nat \<Rightarrow> nat \<Rightarrow> frame \<Rightarrow> exec_result \<Rightarrow> bool" where
  "post sz extra height f r \<longleftrightarrow>
     (\<exists>res err f'. r = Some (res, err, f') \<and> frame_ok sz f' \<and> evm_next sz (f_evm f) (f_evm f') \<and>
        length res < max_size \<and> unat (Gas (f_contract f')) \<le> unat (Gas (f_contract f)) + extra \<and>
        (err = None \<longrightarrow> length (f_stack f') = height) \<and> unat (f_pc f') \<le> max (unat (f_pc f)) max_size + 32)"

definition mem_ready :: "memorySizeFunc option \<Rightarrow> frame \<Rightarrow> bool" where
  "mem_ready ms f \<longleftrightarrow>
     (case ms of
        None \<Rightarrow> True
      | Some g \<Rightarrow> \<exists>need. g (f_stack f) = Some need \<and> need \<le> int (length (store (f_memory f))))"

definition setting :: "(Hash \<Rightarrow> nat) \<Rightarrow> nat \<Rightarrow> Env \<Rightarrow> interp \<Rightarrow> bool" where
  "setting sz n env ri \<longleftrightarrow> crypto_ok (crypto env) \<and> interp_ok sz n ri \<and> 0 \<le> GasPrice (ctx env)"

text \<open>\<open>exec_ok sz n env ri ex k h ms extra\<close>: \<open>ex\<close> takes \<open>k\<close> operands and leaves \<open>h\<close> results.\<close>

definition exec_ok ::
  "(Hash \<Rightarrow> nat) \<Rightarrow> nat \<Rightarrow> Env \<Rightarrow> interp \<Rightarrow> executionFunc \<Rightarrow> nat \<Rightarrow> nat \<Rightarrow> memorySizeFunc option \<Rightarrow> (frame \<Rightarrow> nat) \<Rightarrow> bool" where
  "exec_ok sz n env ri ex k h ms extra \<longleftrightarrow>
     (\<forall>args st f. length args = k \<longrightarrow> nonneg args \<longrightarrow> nonneg st \<longrightarrow> rest_ok sz f \<longrightarrow>
        1025 \<le> depth (f_evm f) + n \<longrightarrow> unat (f_pc f) < 2 * max_size \<longrightarrow> mem_ready ms (on_stack (args @ st) f) \<longrightarrow>
        unat (Gas (f_contract f)) + extra (on_stack (args @ st) f) < 2 ^ 62 \<longrightarrow>
        post sz (extra (on_stack (args @ st) f)) (length st + h) (on_stack (args @ st) f)
          (ex env ri (on_stack (args @ st) f)))"

definition no_extra :: "frame \<Rightarrow> nat" where "no_extra f = 0"

lemma post_finish:
  assumes "frame_ok sz f'" "evm_next sz (f_evm f) (f_evm f')"
    "unat (Gas (f_contract f')) \<le> unat (Gas (f_contract f)) + extra" "length (f_stack f') = height"
    "unat (f_pc f') \<le> max (unat (f_pc f)) max_size + 32"
  shows "post sz extra height f (finish f')"
  using assms by (auto simp: post_def finish_def max_size_def)

lemma post_fails:
  assumes "frame_ok sz f'" "evm_next sz (f_evm f) (f_evm f')"
    "unat (Gas (f_contract f')) \<le> unat (Gas (f_contract f)) + extra"
    "unat (f_pc f') \<le> max (unat (f_pc f)) max_size + 32"
  shows "post sz extra height f (fails err f')"
  using assms by (auto simp: post_def fails_def max_size_def)

text \<open>Instructions that only compute one result from their operands.\<close>

definition gives :: "int list \<Rightarrow> frame \<Rightarrow> exec_result \<Rightarrow> bool" where
  "gives st f r \<longleftrightarrow> (\<exists>v \<ge> 0. r = finish (on_stack (v # st) f))"

lemma gives_finish [simp]: "0 \<le> v \<Longrightarrow> gives st f (finish (on_stack (v # st) f))"
  by (auto simp: gives_def)

lemma pure_ok:
  assumes "\<And>args st f. length args = k \<Longrightarrow> nonneg args \<Longrightarrow> nonneg st \<Longrightarrow> rest_ok sz f \<Longrightarrow>
     gives st f (ex env ri (on_stack (args @ st) f))"
  shows "exec_ok sz n env ri ex k 1 None no_extra"
  unfolding exec_ok_def
proof (intro allI impI)
  fix args st f
  assume "length args = k" "nonneg args" and st: "nonneg st" "rest_ok sz f"
  then obtain v where "0 \<le> v" "ex env ri (on_stack (args @ st) f) = finish (on_stack (v # st) f)"
    using assms unfolding gives_def by blast
  then show "post sz (no_extra (on_stack (args @ st) f)) (length st + 1) (on_stack (args @ st) f)
      (ex env ri (on_stack (args @ st) f))"
    using st rest_okD(1) [OF st(2)] by (auto intro!: post_finish)
qed

lemma stack_cases:
  "length args = 0 \<longleftrightarrow> args = []" "length args = Suc 0 \<longleftrightarrow> (\<exists>x. args = [x])"
  "length args = 2 \<longleftrightarrow> (\<exists>x y. args = [x, y])" "length args = 3 \<longleftrightarrow> (\<exists>x y z. args = [x, y, z])"
  "length args = 4 \<longleftrightarrow> (\<exists>x y z u. args = [x, y, z, u])"
  "length args = 6 \<longleftrightarrow> (\<exists>x y z u v w. args = [x, y, z, u, v, w])"
  "length args = 7 \<longleftrightarrow> (\<exists>x y z u v w t. args = [x, y, z, u, v, w, t])"
  by (auto simp: numeral_eq_Suc length_Suc_conv)

lemma flag_nonneg [simp]: "0 \<le> flag b"
  by (simp add: flag_def)

lemma math_Exp_nonneg: "0 \<le> e \<Longrightarrow> 0 \<le> math_Exp b e"
  by (simp add: math_Exp_eq)

lemma Address_Big_nonneg [simp]: "0 \<le> Address_Big a"
  by (simp add: Address_Big_def)

lemma Hash_Big_nonneg [simp]: "0 \<le> Hash_Big h"
  by (simp add: Hash_Big_def)

lemma arithmetic_exec_ok:
  "exec_ok sz n env ri opAdd 2 1 None no_extra" "exec_ok sz n env ri opSub 2 1 None no_extra"
  "exec_ok sz n env ri opMul 2 1 None no_extra" "exec_ok sz n env ri opDiv 2 1 None no_extra"
  "exec_ok sz n env ri opSdiv 2 1 None no_extra" "exec_ok sz n env ri opMod 2 1 None no_extra"
  "exec_ok sz n env ri opSmod 2 1 None no_extra" "exec_ok sz n env ri opExp 2 1 None no_extra"
  "exec_ok sz n env ri opSignExtend 2 1 None no_extra" "exec_ok sz n env ri opNot 1 1 None no_extra"
  by (rule pure_ok; auto simp: stack_cases opAdd_def opSub_def opMul_def opDiv_def opSdiv_def opMod_def opSmod_def
      opExp_def opSignExtend_def opNot_def Let_def math_Exp_nonneg)+

lemma logic_exec_ok:
  "exec_ok sz n env ri opLt 2 1 None no_extra" "exec_ok sz n env ri opGt 2 1 None no_extra"
  "exec_ok sz n env ri opSlt 2 1 None no_extra" "exec_ok sz n env ri opSgt 2 1 None no_extra"
  "exec_ok sz n env ri opEq 2 1 None no_extra" "exec_ok sz n env ri opIszero 1 1 None no_extra"
  "exec_ok sz n env ri opAnd 2 1 None no_extra" "exec_ok sz n env ri opOr 2 1 None no_extra"
  "exec_ok sz n env ri opXor 2 1 None no_extra" "exec_ok sz n env ri opByte 2 1 None no_extra"
  "exec_ok sz n env ri opAddmod 3 1 None no_extra" "exec_ok sz n env ri opMulmod 3 1 None no_extra"
  by (rule pure_ok; auto simp: stack_cases opLt_def opGt_def opSlt_def opSgt_def opEq_def opIszero_def opAnd_def
      opOr_def opXor_def opByte_def opAddmod_def opMulmod_def)+

lemma contract_okD:
  "contract_ok sz c \<Longrightarrow> length (Code c) < max_size" "contract_ok sz c \<Longrightarrow> length (Input c) < max_size"
  "contract_ok sz c \<Longrightarrow> 0 \<le> c_value c" "contract_ok sz c \<Longrightarrow> unat (Gas c) < 2 ^ 62"
  by (simp_all add: contract_ok_def)

lemma CallDataLoad_exec_ok: "exec_ok sz n env ri opCallDataLoad 1 1 None no_extra"
proof (rule pure_ok)
  fix args st f
  assume "length args = 1" "nonneg args" "rest_ok sz f"
  then obtain x where x: "args = [x]" "0 \<le> x" by (auto simp: stack_cases)
  have "length (Input (f_contract f)) < 2 ^ 63"
    using contract_okD(2) [OF rest_okD(2) [OF \<open>rest_ok sz f\<close>]] by (simp add: max_size_def)
  from getDataBig_total [OF x(2) _ this, of 32] show "gives st f (opCallDataLoad env ri (on_stack (args @ st) f))"
    using x by (auto simp: opCallDataLoad_def)
qed

lemma CallValue_exec_ok: "exec_ok sz n env ri opCallValue 0 1 None no_extra"
  by (rule pure_ok) (auto simp: opCallValue_def intro!: gives_finish contract_okD(3) rest_okD(2))

lemma environment_exec_ok:
  "exec_ok sz n env ri opAddress 0 1 None no_extra" "exec_ok sz n env ri opOrigin 0 1 None no_extra"
  "exec_ok sz n env ri opCaller 0 1 None no_extra"
  "exec_ok sz n env ri opCallDataSize 0 1 None no_extra" "exec_ok sz n env ri opCodeSize 0 1 None no_extra"
  "exec_ok sz n env ri opReturnDataSize 0 1 None no_extra"
  "setting sz n env ri \<Longrightarrow> exec_ok sz n env ri opGasprice 0 1 None no_extra"
  "exec_ok sz n env ri opBlockhash 1 1 None no_extra" "exec_ok sz n env ri opCoinbase 0 1 None no_extra"
  "exec_ok sz n env ri opTimestamp 0 1 None no_extra" "exec_ok sz n env ri opNumber 0 1 None no_extra"
  "exec_ok sz n env ri opDifficulty 0 1 None no_extra" "exec_ok sz n env ri opGasLimit 0 1 None no_extra"
  "exec_ok sz n env ri opPc 0 1 None no_extra" "exec_ok sz n env ri opMsize 0 1 None no_extra"
  "exec_ok sz n env ri opGas 0 1 None no_extra"
  by (rule pure_ok; auto simp: stack_cases opAddress_def opOrigin_def opCaller_def opCallDataSize_def
      opCodeSize_def opReturnDataSize_def opGasprice_def opBlockhash_def opCoinbase_def opTimestamp_def opNumber_def
      opDifficulty_def opGasLimit_def opPc_def opMsize_def opGas_def setting_def Let_def)+

section \<open>Stack manipulation\<close>

text \<open>Instructions that leave everything but the stack and the program counter alone.\<close>

lemma quiet_ok:
  assumes "\<And>args st f. length args = k \<Longrightarrow> nonneg args \<Longrightarrow> nonneg st \<Longrightarrow> rest_ok sz f \<Longrightarrow> unat (f_pc f) < 2 * max_size \<Longrightarrow>
     \<exists>st' pc. ex env ri (on_stack (args @ st) f) = finish ((on_stack st' f)\<lparr>f_pc := pc\<rparr>) \<and>
       nonneg st' \<and> length st' = length st + h \<and> unat pc \<le> max (unat (f_pc f)) max_size + 32"
  shows "exec_ok sz n env ri ex k h None no_extra"
  unfolding exec_ok_def
proof (intro allI impI)
  fix args st f
  assume "length args = k" "nonneg args" "nonneg st" and f: "rest_ok sz f" and "unat (f_pc f) < 2 * max_size"
  then obtain st' pc where e: "ex env ri (on_stack (args @ st) f) = finish ((on_stack st' f)\<lparr>f_pc := pc\<rparr>)"
    "nonneg st'" "length st' = length st + h" "unat pc \<le> max (unat (f_pc f)) max_size + 32"
    using assms by blast
  have "frame_ok sz ((on_stack st' f)\<lparr>f_pc := pc\<rparr>)" using f e(2) by (simp add: frame_ok_def rest_ok_def)
  then show "post sz (no_extra (on_stack (args @ st) f)) (length st + h) (on_stack (args @ st) f)
      (ex env ri (on_stack (args @ st) f))"
    using e rest_okD(1) [OF f] by (auto intro!: post_finish)
qed

lemma set_pc_same: "(on_stack st f)\<lparr>f_pc := f_pc f\<rparr> = on_stack st f"
  by (simp add: on_stack_def)

lemma quiet_stack_ok:
  assumes "\<And>args st f. length args = k \<Longrightarrow> nonneg args \<Longrightarrow> nonneg st \<Longrightarrow>
     \<exists>st'. ex env ri (on_stack (args @ st) f) = finish (on_stack st' f) \<and> nonneg st' \<and> length st' = length st + h"
  shows "exec_ok sz n env ri ex k h None no_extra"
proof (rule quiet_ok)
  fix args st f
  assume "length args = k" "nonneg args" "nonneg st"
  from assms [OF this, of f] obtain st' where "ex env ri (on_stack (args @ st) f) = finish (on_stack st' f)"
    "nonneg st'" "length st' = length st + h" by blast
  then show "\<exists>st' pc. ex env ri (on_stack (args @ st) f) = finish ((on_stack st' f)\<lparr>f_pc := pc\<rparr>) \<and>
       nonneg st' \<and> length st' = length st + h \<and> unat pc \<le> max (unat (f_pc f)) max_size + 32"
    by (intro exI [of _ st'] exI [of _ "f_pc f"]) (simp add: set_pc_same)
qed

lemma Pop_exec_ok: "exec_ok sz n env ri opPop 1 0 None no_extra"
  by (rule quiet_stack_ok) (auto simp: stack_cases opPop_def)

lemma Jumpdest_exec_ok: "exec_ok sz n env ri opJumpdest 0 0 None no_extra"
  by (rule quiet_stack_ok) (auto simp: opJumpdest_def)

lemma Stop_exec_ok: "exec_ok sz n env ri opStop 0 0 None no_extra"
  by (rule quiet_stack_ok) (auto simp: opStop_def)

lemma nth_nonneg: "nonneg st \<Longrightarrow> i < length st \<Longrightarrow> 0 \<le> st ! i"
  by (simp add: nonneg_def)

lemma nonneg_update: "nonneg st \<Longrightarrow> 0 \<le> x \<Longrightarrow> nonneg (st[i := x])"
  using set_update_subset_insert [of st i x] by (auto simp: nonneg_def)

lemma Dup_exec_ok: "0 < k \<Longrightarrow> exec_ok sz n env ri (makeDup k) k (k + 1) None no_extra"
proof (rule quiet_stack_ok)
  fix args st f
  assume k: "0 < k" "length args = k" "nonneg args" "nonneg st"
  then have "stack_dup k (args @ st) = Some (args ! (k - 1) # args @ st)" "0 \<le> args ! (k - 1)"
    by (simp_all add: stack_dup_def stack_push_def nth_append nth_nonneg)
  then show "\<exists>st'. makeDup k env ri (on_stack (args @ st) f) = finish (on_stack st' f) \<and>
       nonneg st' \<and> length st' = length st + (k + 1)"
    using k by (intro exI [of _ "args ! (k - 1) # args @ st"]) (simp add: makeDup_def, simp add: on_stack_def)
qed

lemma Swap_exec_ok: "exec_ok sz n env ri (makeSwap k) (k + 1) (k + 1) None no_extra"
proof (rule quiet_stack_ok)
  fix args st f
  assume k: "length args = k + 1" "nonneg args" "nonneg st"
  let ?st = "(args @ st)[0 := (args @ st) ! k, k := (args @ st) ! 0]"
  have "stack_swap (k + 1) (args @ st) = Some ?st" using k by (simp add: stack_swap_def)
  moreover have "nonneg ?st" using k by (intro nonneg_update nth_nonneg) auto
  ultimately show "\<exists>st'. makeSwap k env ri (on_stack (args @ st) f) = finish (on_stack st' f) \<and>
       nonneg st' \<and> length st' = length st + (k + 1)"
    using k by (intro exI [of _ ?st]) (simp add: makeSwap_def, simp add: on_stack_def)
qed

lemma sint_nonneg_small: "unat (w :: uint64) < 2 ^ 63 \<Longrightarrow> 0 \<le> sint w"
  by (simp add: sint_small)

lemma Push_exec_ok:
  assumes "unat w \<le> 32"
  shows "exec_ok sz n env ri (makePush w k) 0 1 None no_extra"
proof (rule quiet_ok)
  fix args st :: "int list" and f
  assume a: "length args = 0" "nonneg st" and f: "rest_ok sz f" and pc: "unat (f_pc f) < 2 * max_size"
  let ?f = "on_stack (args @ st) f" and ?code = "Code (f_contract f)"
  have code: "int (length ?code) < 2 ^ 40" using contract_okD(1) [OF rest_okD(2) [OF f]] by (simp add: max_size_def)
  have "unat (f_pc f + 1) \<le> unat (f_pc f) + 1" by (simp add: unat_word_ariths)
  then have s: "0 \<le> sint (f_pc f + 1)" using pc by (intro sint_nonneg_small) (simp add: max_size_def)
  define lo where "lo = (if sint (f_pc f + 1) < int (length ?code) then sint (f_pc f + 1) else int (length ?code))"
  define hi where "hi = (if lo + int k < int (length ?code) then lo + int k else int (length ?code))"
  have lo: "0 \<le> lo" "lo \<le> int (length ?code)" using s by (simp_all add: lo_def)
  have hi: "lo \<le> hi" "hi \<le> int (length ?code)" using lo by (simp_all add: hi_def)
  obtain d where d: "slice ?code (nat lo) (nat hi) = Some d" using lo hi by (simp add: slice_def nat_le_iff)
  have "makePush w k env ri ?f = finish ((on_stack (SetBytes (RightPadBytes d (int k)) # st) f)\<lparr>f_pc := f_pc f + w\<rparr>)"
    using d lo(1) a(1) unfolding makePush_def Let_def on_stack_simps lo_def [symmetric] hi_def [symmetric]
    by simp
  moreover have "unat (f_pc f + w) \<le> unat (f_pc f) + 32" using assms by (simp add: unat_word_ariths)
  ultimately show "\<exists>st' pc. makePush w k env ri ?f = finish ((on_stack st' f)\<lparr>f_pc := pc\<rparr>) \<and>
       nonneg st' \<and> length st' = length st + 1 \<and> unat pc \<le> max (unat (f_pc f)) max_size + 32"
    using a by (intro exI [of _ "SetBytes (RightPadBytes d (int k)) # st"] exI [of _ "f_pc f + w"]) auto
qed

end
