(* ===== verification/Safety_Effects.thy ===== *)
theory Safety_Effects
  imports Safety_Ops
begin

text \<open>
  Safety of the instructions that read and write the memory, the storage and the world state, and of the
  jumps.
\<close>

section \<open>Memory\<close>

definition in_memory :: "int \<Rightarrow> int \<Rightarrow> Memory \<Rightarrow> bool" where
  "in_memory off l m \<longleftrightarrow> 0 \<le> off \<and> 0 \<le> l \<and> calcMemSize off l \<le> int (length (store m)) \<and> length (store m) < max_size"

lemma in_memoryD:
  assumes "in_memory off l m" "l \<noteq> 0"
  shows "0 \<le> off" "0 < l" "off + l \<le> int (length (store m))" "int (length (store m)) < 2 ^ 40"
    "off < 2 ^ 40" "l < 2 ^ 40"
  using assms by (auto simp: in_memory_def calcMemSize_def max_size_def)

lemma mem_Get_ok:
  assumes "in_memory off l m"
  shows "\<exists>d. mem_Get (Int64 off) (Int64 l) m = Some d \<and> length d < max_size"
proof (cases "l = 0")
  case True
  then show ?thesis by (simp add: mem_Get_def Int64_def max_size_def)
next
  case False
  note D = in_memoryD [OF assms False]
  have i: "Int64 off = off" "Int64 l = l" using D by (auto intro!: Int64_small)
  have "nat off \<le> nat (off + l)" "nat (off + l) \<le> length (store m)" using D by auto
  moreover have "length (store m) < max_size" using assms by (simp add: in_memory_def)
  ultimately show ?thesis using D by (simp add: mem_Get_def i slice_def)
qed

lemma mem_GetPtr_ok:
  "in_memory off l m \<Longrightarrow> \<exists>d. mem_GetPtr (Int64 off) (Int64 l) m = Some d \<and> length d < max_size"
  using mem_Get_ok [of off l m] by (simp add: mem_Get_def mem_GetPtr_def)

lemma mem_Set_ok:
  assumes "in_memory off l m"
  shows "\<exists>m'. mem_Set (Uint64 off) (Uint64 l) d m = Some m' \<and> length (store m') = length (store m)"
proof (cases "l = 0")
  case True
  then show ?thesis by (simp add: mem_Set_def Uint64_def)
next
  case False
  note D = in_memoryD [OF assms False]
  have u: "unat (Uint64 off) = nat off" "unat (Uint64 l) = nat l" using D by (auto intro!: unat_Uint64)
  then have p: "unat (Uint64 off + Uint64 l) = nat off + nat l"
    using D by (simp add: unat_word_ariths)
  have len: "unat (of_nat (length (store m)) :: uint64) = length (store m)"
    using D by (intro unat_of_nat_small) simp
  have "0 < Uint64 l" "\<not> Uint64 off + Uint64 l > of_nat (length (store m))" "\<not> Uint64 off > Uint64 off + Uint64 l"
    using D by (simp_all add: word_less_nat_alt u p len)
  moreover have "nat off + length (take (nat l) d) \<le> length (store m)" using D by simp
  ultimately show ?thesis by (simp add: mem_Set_def u)
qed

lemma mem_Set32_ok:
  assumes "in_memory off 32 m"
  shows "\<exists>m'. mem_Set32 (Uint64 off) v m = Some m' \<and> length (store m') = length (store m)"
proof -
  have D: "0 \<le> off" "off + 32 \<le> int (length (store m))" "int (length (store m)) < 2 ^ 40"
    using in_memoryD [OF assms] by simp_all
  have u: "unat (Uint64 off) = nat off" using D by (intro unat_Uint64) auto
  then have p: "unat (Uint64 off + 32) = nat off + 32" using D by (simp add: unat_word_ariths)
  have len: "unat (of_nat (length (store m)) :: uint64) = length (store m)"
    using D by (intro unat_of_nat_small) simp
  have "\<not> Uint64 off + 32 > of_nat (length (store m))" "\<not> Uint64 off > Uint64 off + 32"
    using D by (simp_all add: word_less_nat_alt u p len)
  moreover have "nat off + length (ReadBits v (replicate 32 0)) \<le> length (store m)" using D by simp
  ultimately show ?thesis by (simp add: mem_Set32_def u)
qed

lemma mem_put_ok:
  assumes "in_memory off 1 m"
  shows "\<exists>m'. mem_put (Int64 off) b m = Some m' \<and> length (store m') = length (store m)"
proof -
  have D: "0 \<le> off" "off + 1 \<le> int (length (store m))" "int (length (store m)) < 2 ^ 40"
    using in_memoryD [OF assms] by simp_all
  have "Int64 off = off" using D by (intro Int64_small) auto
  then show ?thesis using D by (simp add: mem_put_def)
qed

lemma mem_range_simps [simp]:
  "mem_range 0 (Suc 0) (x # y # st) = Some (calcMemSize x y)"
  "mem_range 0 2 (x # y # z # st) = Some (calcMemSize x z)"
  "mem_range (Suc 0) 3 (x # y # z # u # st) = Some (calcMemSize y u)"
  "mem_range (Suc 0) 2 (x # y # z # st) = Some (calcMemSize y z)"
  "stack_Back (x # st) 0 = Some x" "stack_Back (x # y # st) (Suc 0) = Some y" "stack_Back (x # y # z # st) 2 = Some z"
  by (simp_all add: mem_range_def stack_Back_def)

section \<open>Frames under effects\<close>

definition with_state :: "StateDB \<Rightarrow> frame \<Rightarrow> frame" where
  "with_state s f = f\<lparr>f_evm := (f_evm f)\<lparr>statedb := s\<rparr>\<rparr>"

lemma effect_simps [simp]:
  "set_memory m (on_stack st f) = on_stack st (set_memory m f)"
  "ask q (on_stack st f) = (fst (q (statedb (f_evm f))), on_stack st (with_state (snd (q (statedb (f_evm f)))) f))"
  "tell u (on_stack st f) = on_stack st (with_state (u (statedb (f_evm f))) f)"
  "f_contract (with_state s f) = f_contract f" "f_contract (set_memory m f) = f_contract f"
  "f_pc (with_state s f) = f_pc f" "f_pc (set_memory m f) = f_pc f"
  "f_memory (with_state s f) = f_memory f" "statedb (f_evm (with_state s f)) = s"
  "f_evm (set_memory m f) = f_evm f" "f_memory (set_memory m f) = m"
  "depth (f_evm (with_state s f)) = depth (f_evm f)"
  by (simp_all add: set_memory_def on_stack_def ask_def tell_def with_state_def query_def upd_state_def case_prod_beta)

lemma rest_ok_memory: "rest_ok sz f \<Longrightarrow> length (store m) = length (store (f_memory f)) \<Longrightarrow> rest_ok sz (set_memory m f)"
  by (simp add: rest_ok_def)

lemma with_state_next:
  assumes "rest_ok sz f" "grows sz (statedb (f_evm f)) s"
  shows "rest_ok sz (with_state s f)" "evm_next sz (f_evm f) (f_evm (with_state s f))"
  using assms evm_next_state [OF rest_okD(1) [OF assms(1)] assms(2)]
  by (auto simp: rest_ok_def with_state_def dest: evm_nextD)

definition effect :: "(Hash \<Rightarrow> nat) \<Rightarrow> nat \<Rightarrow> frame \<Rightarrow> exec_result \<Rightarrow> bool" where
  "effect sz h f r \<longleftrightarrow>
     (\<exists>st' f'. r = finish (on_stack st' f') \<and> nonneg st' \<and> length st' = h \<and> rest_ok sz f' \<and>
        evm_next sz (f_evm f) (f_evm f') \<and> f_contract f' = f_contract f \<and> f_pc f' = f_pc f)"

lemma effect_finish [intro!]:
  "nonneg st' \<Longrightarrow> length st' = h \<Longrightarrow> rest_ok sz f' \<Longrightarrow> evm_next sz (f_evm f) (f_evm f') \<Longrightarrow>
   f_contract f' = f_contract f \<Longrightarrow> f_pc f' = f_pc f \<Longrightarrow> effect sz h f (finish (on_stack st' f'))"
  by (auto simp: effect_def)

lemma effect_ok:
  assumes "\<And>args st f. length args = k \<Longrightarrow> nonneg args \<Longrightarrow> nonneg st \<Longrightarrow> rest_ok sz f \<Longrightarrow>
     mem_ready ms (on_stack (args @ st) f) \<Longrightarrow> effect sz (length st + h) f (ex env ri (on_stack (args @ st) f))"
  shows "exec_ok sz n env ri ex k h ms no_extra"
  unfolding exec_ok_def
proof (intro allI impI)
  fix args st f
  assume "length args = k" "nonneg args" "nonneg st" "rest_ok sz f" "mem_ready ms (on_stack (args @ st) f)"
  from assms [OF this] show "post sz (no_extra (on_stack (args @ st) f)) (length st + h) (on_stack (args @ st) f)
      (ex env ri (on_stack (args @ st) f))"
    unfolding effect_def by (auto intro!: post_finish)
qed

lemma in_memoryI:
  "rest_ok sz f \<Longrightarrow> 0 \<le> off \<Longrightarrow> 0 \<le> l \<Longrightarrow> calcMemSize off l \<le> int (length (store (f_memory f))) \<Longrightarrow>
     in_memory off l (f_memory f)"
  by (simp add: in_memory_def rest_ok_def)

section \<open>Reading the state\<close>

lemma Balance_exec_ok: "exec_ok sz n env ri opBalance 1 1 None no_extra"
proof (rule effect_ok)
  fix args st :: "int list" and f
  assume a: "length args = 1" "nonneg args" "nonneg st" "rest_ok sz f"
  then obtain x where x: "args = [x]" by (auto simp: stack_cases)
  note s = rest_okD(4) [OF a(4)]
  show "effect sz (length st + 1) f (opBalance env ri (on_stack (args @ st) f))"
    using a x with_state_next [OF a(4) reader_grows(3) [OF s]] GetBalance_nonneg [OF s]
    by (auto simp: opBalance_def)
qed

lemma ExtCodeSize_exec_ok: "exec_ok sz n env ri opExtCodeSize 1 1 None no_extra"
proof (rule effect_ok)
  fix args st :: "int list" and f
  assume a: "length args = 1" "nonneg args" "nonneg st" "rest_ok sz f"
  then obtain x where x: "args = [x]" by (auto simp: stack_cases)
  note s = rest_okD(4) [OF a(4)]
  show "effect sz (length st + 1) f (opExtCodeSize env ri (on_stack (args @ st) f))"
    using a x with_state_next [OF a(4) reader_grows(10) [OF s]] by (auto simp: opExtCodeSize_def)
qed

lemma Sload_exec_ok: "exec_ok sz n env ri opSload 1 1 None no_extra"
proof (rule effect_ok)
  fix args st :: "int list" and f
  assume a: "length args = 1" "nonneg args" "nonneg st" "rest_ok sz f"
  then obtain x where x: "args = [x]" by (auto simp: stack_cases)
  note s = rest_okD(4) [OF a(4)]
  show "effect sz (length st + 1) f (opSload env ri (on_stack (args @ st) f))"
    using a x with_state_next [OF a(4) reader_grows(7) [OF s]] by (auto simp: opSload_def)
qed

lemma Sstore_exec_ok: "exec_ok sz n env ri opSstore 2 0 None no_extra"
proof (rule effect_ok)
  fix args st :: "int list" and f
  assume a: "length args = 2" "nonneg args" "nonneg st" "rest_ok sz f"
  then obtain x y where x: "args = [x, y]" by (auto simp: stack_cases)
  note s = rest_okD(4) [OF a(4)]
  show "effect sz (length st + 0) f (opSstore env ri (on_stack (args @ st) f))"
    using a x with_state_next [OF a(4) SetState_grows [OF s]] by (auto simp: opSstore_def)
qed

lemma Suicide_exec_ok: "exec_ok sz n env ri opSuicide 1 0 None no_extra"
proof (rule effect_ok)
  fix args st :: "int list" and f
  assume a: "length args = 1" "nonneg args" "nonneg st" "rest_ok sz f"
  then obtain x where x: "args = [x]" by (auto simp: stack_cases)
  let ?s = "statedb (f_evm f)" and ?a = "c_Address (f_contract f)"
  let ?s1 = "snd (GetBalance ?s ?a)"
  let ?s2 = "AddBalance ?s1 (BigToAddress x) (fst (GetBalance ?s ?a))"
  have 1: "grows sz ?s ?s1" using reader_grows(3) [OF rest_okD(4) [OF a(4)]] .
  have 2: "grows sz ?s1 ?s2"
    using AddBalance_grows [OF growsD(2) [OF 1]] GetBalance_nonneg [OF rest_okD(4) [OF a(4)]] by blast
  have "grows sz ?s (snd (Suicide ?s2 ?a))"
    using grows_trans [OF 1 grows_trans [OF 2 Suicide_grows [OF growsD(2) [OF 2]]]] .
  from with_state_next [OF a(4) this] show "effect sz (length st + 0) f (opSuicide env ri (on_stack (args @ st) f))"
    using a x by (auto simp: opSuicide_def with_state_def)
qed

section \<open>Memory instructions\<close>

lemma Mload_exec_ok: "exec_ok sz n env ri opMload 1 1 (Some memoryMLoad) no_extra"
proof (rule effect_ok)
  fix args st :: "int list" and f
  assume a: "length args = 1" "nonneg args" "nonneg st" "rest_ok sz f"
    and m: "mem_ready (Some memoryMLoad) (on_stack (args @ st) f)"
  then obtain x where x: "args = [x]" "0 \<le> x" by (auto simp: stack_cases)
  have "in_memory x 32 (f_memory f)" using a(4) x m by (intro in_memoryI) (auto simp: mem_ready_def memoryMLoad_def)
  from mem_Get_ok [OF this] obtain d where "mem_Get (Int64 x) 32 (f_memory f) = Some d"
    by (auto simp: Int64_small)
  then show "effect sz (length st + 1) f (opMload env ri (on_stack (args @ st) f))"
    using a x rest_okD(1) [OF a(4)] by (auto simp: opMload_def)
qed

lemma Mstore_exec_ok: "exec_ok sz n env ri opMstore 2 0 (Some memoryMStore) no_extra"
proof (rule effect_ok)
  fix args st :: "int list" and f
  assume a: "length args = 2" "nonneg args" "nonneg st" "rest_ok sz f"
    and m: "mem_ready (Some memoryMStore) (on_stack (args @ st) f)"
  then obtain x y where x: "args = [x, y]" "0 \<le> x" by (auto simp: stack_cases)
  have "in_memory x 32 (f_memory f)" using a(4) x m by (intro in_memoryI) (auto simp: mem_ready_def memoryMStore_def)
  from mem_Set32_ok [OF this, of y] show "effect sz (length st + 0) f (opMstore env ri (on_stack (args @ st) f))"
    using a x rest_okD(1) [OF a(4)] by (auto simp: opMstore_def intro: rest_ok_memory)
qed

lemma Mstore8_exec_ok: "exec_ok sz n env ri opMstore8 2 0 (Some memoryMStore8) no_extra"
proof (rule effect_ok)
  fix args st :: "int list" and f
  assume a: "length args = 2" "nonneg args" "nonneg st" "rest_ok sz f"
    and m: "mem_ready (Some memoryMStore8) (on_stack (args @ st) f)"
  then obtain x y where x: "args = [x, y]" "0 \<le> x" by (auto simp: stack_cases)
  have "in_memory x 1 (f_memory f)" using a(4) x m by (intro in_memoryI) (auto simp: mem_ready_def memoryMStore8_def)
  from mem_put_ok [OF this, of "word_of_int (Int64 y)"]
  show "effect sz (length st + 0) f (opMstore8 env ri (on_stack (args @ st) f))"
    using a x rest_okD(1) [OF a(4)] by (auto simp: opMstore8_def intro: rest_ok_memory)
qed

lemma Sha3_exec_ok: "exec_ok sz n env ri opSha3 2 1 (Some memorySha3) no_extra"
proof (rule effect_ok)
  fix args st :: "int list" and f
  assume a: "length args = 2" "nonneg args" "nonneg st" "rest_ok sz f"
    and m: "mem_ready (Some memorySha3) (on_stack (args @ st) f)"
  then obtain x y where x: "args = [x, y]" "0 \<le> x" "0 \<le> y" by (auto simp: stack_cases)
  have "in_memory x y (f_memory f)" using a(4) x m by (intro in_memoryI) (auto simp: mem_ready_def memorySha3_def)
  from mem_Get_ok [OF this] obtain d where "mem_Get (Int64 x) (Int64 y) (f_memory f) = Some d" by blast
  then show "effect sz (length st + 1) f (opSha3 env ri (on_stack (args @ st) f))"
    using a x rest_okD(1) [OF a(4)] with_state_next [OF a(4) AddPreimage_grows [OF rest_okD(4) [OF a(4)]]]
    by (auto simp: opSha3_def Let_def)
qed

text \<open>The instructions that copy \<open>len\<close> bytes from somewhere to the memory.\<close>

lemma copy_effect:
  assumes f: "rest_ok sz f" "nonneg st" and m: "in_memory mo l (f_memory f)"
    and g: "0 \<le> off" and d: "length dat < max_size" and n: "evm_next sz (f_evm f) (f_evm f')" "rest_ok sz f'"
    and f': "f_memory f' = f_memory f" "f_contract f' = f_contract f" "f_pc f' = f_pc f"
  shows "effect sz (length st) f
     (do { d \<leftarrow> getDataBig dat off l; m \<leftarrow> mem_Set (Uint64 mo) (Uint64 l) d (f_memory f');
           finish (set_memory m (on_stack st f')) })"
proof -
  have "0 \<le> l" "length dat < 2 ^ 63" using m d by (simp_all add: in_memory_def max_size_def)
  from getDataBig_total [OF g this] obtain b where b: "getDataBig dat off l = Some b" by blast
  obtain m' where "mem_Set (Uint64 mo) (Uint64 l) b (f_memory f) = Some m'" "length (store m') = length (store (f_memory f))"
    using mem_Set_ok [OF m] by blast
  then show ?thesis using b f n f' by (auto intro: rest_ok_memory)
qed

lemma CallDataCopy_exec_ok: "exec_ok sz n env ri opCallDataCopy 3 0 (Some memoryCallDataCopy) no_extra"
proof (rule effect_ok)
  fix args st :: "int list" and f
  assume a: "length args = 3" "nonneg args" "nonneg st" "rest_ok sz f"
    and m: "mem_ready (Some memoryCallDataCopy) (on_stack (args @ st) f)"
  then obtain x y z where x: "args = [x, y, z]" "0 \<le> x" "0 \<le> y" "0 \<le> z" by (auto simp: stack_cases)
  have "in_memory x z (f_memory f)" using a(4) x m by (intro in_memoryI) (auto simp: mem_ready_def memoryCallDataCopy_def)
  from copy_effect [OF a(4,3) this x(3) contract_okD(2) [OF rest_okD(2) [OF a(4)]] evm_next_refl [OF rest_okD(1) [OF a(4)]] a(4)]
  show "effect sz (length st + 0) f (opCallDataCopy env ri (on_stack (args @ st) f))"
    using x by (simp add: opCallDataCopy_def)
qed

lemma CodeCopy_exec_ok: "exec_ok sz n env ri opCodeCopy 3 0 (Some memoryCodeCopy) no_extra"
proof (rule effect_ok)
  fix args st :: "int list" and f
  assume a: "length args = 3" "nonneg args" "nonneg st" "rest_ok sz f"
    and m: "mem_ready (Some memoryCodeCopy) (on_stack (args @ st) f)"
  then obtain x y z where x: "args = [x, y, z]" "0 \<le> x" "0 \<le> y" "0 \<le> z" by (auto simp: stack_cases)
  have "in_memory x z (f_memory f)" using a(4) x m by (intro in_memoryI) (auto simp: mem_ready_def memoryCodeCopy_def)
  from copy_effect [OF a(4,3) this x(3) contract_okD(1) [OF rest_okD(2) [OF a(4)]] evm_next_refl [OF rest_okD(1) [OF a(4)]] a(4)]
  show "effect sz (length st + 0) f (opCodeCopy env ri (on_stack (args @ st) f))"
    using x by (simp add: opCodeCopy_def)
qed

lemma ExtCodeCopy_exec_ok: "exec_ok sz n env ri opExtCodeCopy 4 0 (Some memoryExtCodeCopy) no_extra"
proof (rule effect_ok)
  fix args st :: "int list" and f
  assume a: "length args = 4" "nonneg args" "nonneg st" "rest_ok sz f"
    and m: "mem_ready (Some memoryExtCodeCopy) (on_stack (args @ st) f)"
  then obtain u x y z where x: "args = [u, x, y, z]" "0 \<le> x" "0 \<le> y" "0 \<le> z" by (auto simp: stack_cases)
  note s = rest_okD(4) [OF a(4)]
  note W = with_state_next [OF a(4) reader_grows(9) [OF s, of "BigToAddress u"]]
  have "in_memory x z (f_memory f)" using a(4) x m by (intro in_memoryI) (auto simp: mem_ready_def memoryExtCodeCopy_def)
  from copy_effect [OF a(4,3) this x(3) GetCode_bounds(1) [OF s, of "BigToAddress u"] W(2,1)]
  show "effect sz (length st + 0) f (opExtCodeCopy env ri (on_stack (args @ st) f))"
    using x by (simp add: opExtCodeCopy_def)
qed

lemma ReturnDataCopy_exec_ok: "exec_ok sz n env ri opReturnDataCopy 3 0 (Some memoryReturnDataCopy) no_extra"
  unfolding exec_ok_def
proof (intro allI impI)
  fix args st :: "int list" and f
  assume a: "length args = 3" "nonneg args" "nonneg st" "rest_ok sz f"
    and m: "mem_ready (Some memoryReturnDataCopy) (on_stack (args @ st) f)"
  then obtain x y z where x: "args = [x, y, z]" "0 \<le> x" "0 \<le> y" "0 \<le> z" by (auto simp: stack_cases)
  let ?f = "on_stack (args @ st) f" and ?rd = "returnData (f_evm f)"
  note e = evm_next_refl [OF rest_okD(1) [OF a(4)]]
  have im: "in_memory x z (f_memory f)" using a(4) x m by (intro in_memoryI) (auto simp: mem_ready_def memoryReturnDataCopy_def)
  have rd: "length ?rd < 2 ^ 40" using rest_okD(1) [OF a(4)] by (simp add: evm_ok_def max_size_def)
  then have len: "unat (of_nat (length ?rd) :: uint64) = length ?rd" by (intro unat_of_nat_small) simp
  show "post sz (no_extra ?f) (length st + 0) ?f (opReturnDataCopy env ri ?f)"
  proof (cases "BitLen (y + z) > 64 \<or> of_nat (length ?rd) < Uint64 (y + z)")
    case True
    then show ?thesis using a x e by (auto simp: opReturnDataCopy_def Let_def intro!: post_fails)
  next
    case False
    then have "BitLen (y + z) \<le> 64" by simp
    then have lt: "y + z < 2 ^ 64" using x by (simp add: BitLen_le_iff)
    then have u: "unat (Uint64 (y + z)) = nat (y + z)" "unat (Uint64 y) = nat y" using x by (simp_all add: unat_Uint64)
    have "nat (y + z) \<le> length ?rd" using False by (simp add: word_less_nat_alt u len)
    then have s: "slice ?rd (unat (Uint64 y)) (unat (Uint64 (y + z))) = Some (take (nat (y + z) - nat y) (drop (nat y) ?rd))"
      using x by (simp add: slice_def u)
    obtain m' where m': "mem_Set (Uint64 x) (Uint64 z) (take (nat (y + z) - nat y) (drop (nat y) ?rd)) (f_memory f) = Some m'"
      "length (store m') = length (store (f_memory f))"
      using mem_Set_ok [OF im] by blast
    then show ?thesis using False a x e s m'
      by (auto simp: opReturnDataCopy_def Let_def intro!: post_finish rest_ok_memory)
  qed
qed

lemma pop_topics_total:
  "k \<le> length st \<Longrightarrow> \<exists>ts. pop_topics k (on_stack st f) = Some (ts, on_stack (drop k st) f)"
proof (induction k arbitrary: st)
  case (Suc k)
  then obtain x st' where "st = x # st'" by (cases st) auto
  with Suc show ?case by fastforce
qed simp

lemma Log_exec_ok: "exec_ok sz n env ri (makeLog k) (k + 2) 0 (Some memoryLog) no_extra"
proof (rule effect_ok)
  fix args st :: "int list" and f
  assume a: "length args = k + 2" "nonneg args" "nonneg st" "rest_ok sz f"
    and m: "mem_ready (Some memoryLog) (on_stack (args @ st) f)"
  then obtain x y ts where x: "args = x # y # ts" "0 \<le> x" "0 \<le> y" "length ts = k"
    by (auto simp: numeral_eq_Suc length_Suc_conv)
  have "in_memory x y (f_memory f)" using a(4) x m by (intro in_memoryI) (auto simp: mem_ready_def memoryLog_def)
  from mem_Get_ok [OF this] obtain d where d: "mem_Get (Int64 x) (Int64 y) (f_memory f) = Some d" by blast
  obtain hs where "pop_topics k (on_stack (ts @ st) f) = Some (hs, on_stack st f)"
    using pop_topics_total [of k "ts @ st" f] x by auto
  then show "effect sz (length st + 0) f (makeLog k env ri (on_stack (args @ st) f))"
    using a x d with_state_next [OF a(4) AddLog_grows [OF rest_okD(4) [OF a(4)]]] by (auto simp: makeLog_def)
qed

lemma halt_post:
  assumes "frame_ok sz f" "length ret < max_size" "length (f_stack f) = h"
    "f_evm f' = f_evm f" "f_contract f' = f_contract f" "f_pc f' = f_pc f"
  shows "post sz extra h f' (yields ret f)"
  using assms rest_okD(1) [of sz f] by (auto simp: post_def yields_def frame_ok_def)

lemma Return_exec_ok: "exec_ok sz n env ri opReturn 2 0 (Some memoryReturn) no_extra"
  unfolding exec_ok_def
proof (intro allI impI)
  fix args st :: "int list" and f
  assume a: "length args = 2" "nonneg args" "nonneg st" "rest_ok sz f"
    and m: "mem_ready (Some memoryReturn) (on_stack (args @ st) f)"
  then obtain x y where x: "args = [x, y]" "0 \<le> x" "0 \<le> y" by (auto simp: stack_cases)
  have "in_memory x y (f_memory f)" using a(4) x m by (intro in_memoryI) (auto simp: mem_ready_def memoryReturn_def)
  from mem_GetPtr_ok [OF this]
  show "post sz (no_extra (on_stack (args @ st) f)) (length st + 0) (on_stack (args @ st) f) (opReturn env ri (on_stack (args @ st) f))"
    using a x by (auto simp: opReturn_def intro!: halt_post)
qed

lemma Revert_exec_ok: "exec_ok sz n env ri opRevert 2 0 (Some memoryRevert) no_extra"
  using Return_exec_ok unfolding exec_ok_def opReturn_def opRevert_def mem_ready_def memoryRevert_def memoryReturn_def .

section \<open>Jumps\<close>

lemma destinations_has_safe:
  assumes c: "contract_ok sz c" and d: "dests_sized sz d" and p: "0 \<le> pos"
  shows "\<exists>ok d'. destinations_has d (c_CodeHash c) (Code c) pos = Some (ok, d') \<and> dests_sized sz d' \<and>
           (ok \<longrightarrow> unat (Uint64 pos) < max_size)"
proof (cases "BitLen pos \<ge> 63 \<or> Uint64 pos \<ge> of_nat (length (Code c))")
  case True
  then show ?thesis using d by (auto simp: destinations_has_def Let_def)
next
  case False
  let ?code = "Code c" and ?u = "unat (Uint64 pos)"
  have len: "length ?code < max_size" using contract_okD(1) [OF c] .
  then have "unat (of_nat (length ?code) :: uint64) = length ?code"
    by (intro unat_of_nat_small) (simp add: max_size_def)
  then have lt: "?u < length ?code" using False by (simp add: word_le_nat_alt not_le)
  then have sz: "sz (c_CodeHash c) = length ?code" using c by (auto simp: contract_ok_def)
  obtain bits where b: "codeBitmap ?code = Some bits" "length bits = length ?code div 8 + 5"
    using codeBitmap_bits by blast
  obtain m d' where m: "(case d (c_CodeHash c) of Some m \<Rightarrow> Some (m, d)
      | None \<Rightarrow> map_option (\<lambda>m. (m, d(c_CodeHash c \<mapsto> m))) (codeBitmap ?code)) = Some (m, d')"
    "length m = length ?code div 8 + 5" "dests_sized sz d'"
    using d b sz by (cases "d (c_CodeHash c)") (auto simp: dests_sized_def)
  have "?u div 8 \<le> length ?code div 8" using lt by (simp add: div_le_mono)
  then obtain x where "codeSegment m ?u = Some x" using m(2) by (simp add: codeSegment_def)
  then show ?thesis using False m lt len by (auto simp: destinations_has_def Let_def)
qed

lemma jump_to_post:
  assumes f: "rest_ok sz f" "nonneg st" and p: "0 \<le> pos" and f': "f_evm f' = f_evm f" "f_contract f' = f_contract f" "f_pc f' = f_pc f"
  shows "post sz extra (length st) f' (jump_to pos (on_stack st f))"
proof -
  obtain ok d where d: "destinations_has (jumpdests (f_evm f)) (c_CodeHash (f_contract f)) (Code (f_contract f)) pos = Some (ok, d)"
    "dests_sized sz d" "ok \<longrightarrow> unat (Uint64 pos) < max_size"
    using destinations_has_safe [OF rest_okD(2) [OF f(1)] _ p, of "jumpdests (f_evm f)"] rest_okD(1) [OF f(1)]
    by (auto simp: evm_ok_def)
  let ?e = "(f_evm f)\<lparr>jumpdests := d\<rparr>"
  have e: "evm_next sz (f_evm f) ?e" using rest_okD(1) [OF f(1)] d(2) by (simp add: evm_next_def evm_ok_def)
  have r: "frame_ok sz ((on_stack st f)\<lparr>f_evm := ?e\<rparr>)" "frame_ok sz ((on_stack st f)\<lparr>f_evm := ?e, f_pc := pc\<rparr>)" for pc
    using f e by (auto simp: frame_ok_def rest_ok_def dest: evm_nextD)
  show ?thesis
  proof (cases ok)
    case True
    then show ?thesis using d e r f' by (auto simp: jump_to_def intro!: post_finish)
  next
    case False
    then show ?thesis using d e r f' by (auto simp: jump_to_def intro!: post_fails)
  qed
qed

lemma Jump_exec_ok: "exec_ok sz n env ri opJump 1 0 None no_extra"
  unfolding exec_ok_def by (auto simp: stack_cases opJump_def intro!: jump_to_post)

lemma Jumpi_exec_ok: "exec_ok sz n env ri opJumpi 2 0 None no_extra"
  unfolding exec_ok_def
proof (intro allI impI)
  fix args st :: "int list" and f
  assume a: "length args = 2" "nonneg args" "nonneg st" "rest_ok sz f"
  then obtain x y where x: "args = [x, y]" "0 \<le> x" by (auto simp: stack_cases)
  have "frame_ok sz ((on_stack st f)\<lparr>f_pc := pc\<rparr>)" for pc using a by (simp add: frame_ok_def rest_ok_def)
  moreover have "unat (f_pc f + 1) \<le> unat (f_pc f) + 1" by (simp add: unat_word_ariths)
  ultimately show "post sz (no_extra (on_stack (args @ st) f)) (length st + 0) (on_stack (args @ st) f) (opJumpi env ri (on_stack (args @ st) f))"
    using a x rest_okD(1) [OF a(4)] by (auto simp: opJumpi_def intro!: jump_to_post post_finish)
qed

end
