(* ===== verification/Safety_Nested.thy ===== *)
theory Safety_Nested
  imports Safety_Effects
begin

text \<open>
  Safety of the instructions that start another contract: CREATE and the four calls.  The gas of a call was
  reserved when the instruction was paid for, so what the callee returns is at most that plus the stipend.
\<close>

section \<open>Gas\<close>

lemma rest_ok_gas:
  "rest_ok sz f \<Longrightarrow> unat g < 2 ^ 62 \<Longrightarrow> rest_ok sz (f\<lparr>f_contract := (f_contract f)\<lparr>Gas := g\<rparr>\<rparr>)"
  by (simp add: rest_ok_def contract_ok_def)

lemma gas_frames [simp]:
  "add_gas g (on_stack st f) = on_stack st (add_gas g f)" "use_gas g (on_stack st f) = on_stack st (use_gas g f)"
  "f_evm (add_gas g f) = f_evm f" "f_memory (add_gas g f) = f_memory f" "f_pc (add_gas g f) = f_pc f"
  "f_evm (use_gas g f) = f_evm f" "f_memory (use_gas g f) = f_memory f" "f_pc (use_gas g f) = f_pc f"
  "Gas (f_contract (add_gas g f)) = Gas (f_contract f) + g"
  by (simp_all add: add_gas_def use_gas_def on_stack_def)

lemma add_gas_ok:
  assumes f: "rest_ok sz f" and g: "unat (Gas (f_contract f)) + unat g < 2 ^ 62"
  shows "rest_ok sz (add_gas g f)" "unat (Gas (f_contract (add_gas g f))) = unat (Gas (f_contract f)) + unat g"
proof -
  show e: "unat (Gas (f_contract (add_gas g f))) = unat (Gas (f_contract f)) + unat g"
    using g by (simp add: unat_word_ariths)
  show "rest_ok sz (add_gas g f)" using rest_ok_gas [OF f] e g by (simp add: add_gas_def)
qed

lemma use_gas_ok:
  assumes f: "rest_ok sz f" and g: "unat g \<le> unat (Gas (f_contract f))"
  shows "rest_ok sz (use_gas g f)" "unat (Gas (f_contract (use_gas g f))) = unat (Gas (f_contract f)) - unat g"
    "contract_ref (f_contract (use_gas g f)) = contract_ref (f_contract f)"
proof -
  have e: "use_gas g f = f\<lparr>f_contract := (f_contract f)\<lparr>Gas := Gas (f_contract f) - g\<rparr>\<rparr>"
    using g by (simp add: use_gas_def UseGas_def word_less_nat_alt)
  show u: "unat (Gas (f_contract (use_gas g f))) = unat (Gas (f_contract f)) - unat g"
    using g by (simp add: e unat_sub word_le_nat_alt)
  show "rest_ok sz (use_gas g f)"
    unfolding e using u contract_okD(4) [OF rest_okD(2) [OF f]] by (intro rest_ok_gas [OF f]) (simp add: e)
  show "contract_ref (f_contract (use_gas g f)) = contract_ref (f_contract f)"
    by (simp add: e contract_ref_def c_Address_def)
qed

lemma evm_frames [simp]:
  "(on_stack st f)\<lparr>f_evm := e\<rparr> = on_stack st (f\<lparr>f_evm := e\<rparr>)"
  by (simp add: on_stack_def)

lemma rest_ok_evm: "rest_ok sz f \<Longrightarrow> evm_next sz (f_evm f) e \<Longrightarrow> rest_ok sz (f\<lparr>f_evm := e\<rparr>)"
  by (auto simp: rest_ok_def dest: evm_nextD)

lemma on_stack_if: "(if b then on_stack st f else on_stack st' f) = on_stack (if b then st else st') f"
  by simp

section \<open>CREATE\<close>

lemma Create_exec_ok:
  assumes set: "setting sz n env ri"
  shows "exec_ok sz n env ri opCreate 3 1 (Some memoryCreate) no_extra"
  unfolding exec_ok_def
proof (intro allI impI)
  fix args st :: "int list" and f
  assume a: "length args = 3" "nonneg args" "nonneg st" "rest_ok sz f" "1025 \<le> depth (f_evm f) + n"
    and m: "mem_ready (Some memoryCreate) (on_stack (args @ st) f)"
  then obtain v x y where x: "args = [v, x, y]" "0 \<le> v" "0 \<le> x" "0 \<le> y" by (auto simp: stack_cases)
  let ?f = "on_stack (args @ st) f" and ?G = "Gas (f_contract f)"
  have "in_memory x y (f_memory f)" using a(4) x m by (intro in_memoryI) (auto simp: mem_ready_def memoryCreate_def)
  from mem_Get_ok [OF this] obtain d where d: "mem_Get (Int64 x) (Int64 y) (f_memory f) = Some d" "length d < max_size" by blast
  define g where "g = (if IsEIP150 (chainConfig env) (BlockNumber (ctx env)) then ?G - ?G div 64 else ?G)"
  have "unat (?G div 64) \<le> unat ?G" by (simp add: unat_div)
  then have g: "unat g \<le> unat ?G" by (simp add: g_def unat_sub word_le_nat_alt)
  note U = use_gas_ok [OF a(4) g]
  have G: "unat ?G < 2 ^ 62" using contract_okD(4) [OF rest_okD(2) [OF a(4)]] .
  then have "unat g < 2 ^ 62" using g by simp
  from set obtain r where r: "EVM_Create env ri (contract_ref (f_contract f)) d g v (f_evm f) = Some r"
    "create_ok sz env (contract_ref (f_contract f)) (f_evm f) g r"
    using EVM_Create_safe [OF _ _ d(2) rest_okD(1) [OF a(4)] a(5) \<open>unat g < 2 ^ 62\<close> x(2)] unfolding setting_def by blast
  obtain res addr g' err e where re: "r = (res, addr, g', err, e)" by (cases r)
  have n: "evm_next sz (f_evm f) e" "unat g' \<le> unat g" "length res < max_size" using r(2) by (auto simp: create_ok_def re)
  let ?f1 = "(use_gas g f)\<lparr>f_evm := e\<rparr>"
  let ?v = "if IsHomestead (chainConfig env) (BlockNumber (ctx env)) \<and> err = Some ErrCodeStoreOutOfGas then 0
     else if err \<noteq> None \<and> err \<noteq> Some ErrCodeStoreOutOfGas then 0 else Address_Big addr"
  have 1: "rest_ok sz ?f1" using rest_ok_evm [OF U(1)] n(1) by simp
  have "unat (Gas (f_contract ?f1)) + unat g' < 2 ^ 62" using U(2) n(2) g G by simp
  note A = add_gas_ok [OF 1 this]
  have "opCreate env ri ?f = yields (if err = Some errExecutionReverted then res else [])
      (add_gas g' (on_stack (?v # st) ?f1))"
    using d(1) r(1) x U(3)
    by (cases "IsEIP150 (chainConfig env) (BlockNumber (ctx env))"; cases err)
      (simp_all add: opCreate_def Let_def re g_def)
  moreover have "0 \<le> ?v" by simp
  moreover have "unat (Gas (f_contract (add_gas g' ?f1))) \<le> unat ?G" using A(2) U(2) n(2) g by simp
  ultimately show "post sz (no_extra ?f) (length st + 1) ?f (opCreate env ri ?f)"
    using A(1) a(3) n by (auto simp: post_def yields_def max_size_def)
qed

section \<open>Calls\<close>

lemma after_call_post:
  assumes f: "rest_ok sz f" "nonneg st" and m: "in_memory ro rs (f_memory f)"
    and r: "result_ok sz (f_evm f) gas r" and g: "unat (Gas (f_contract f)) + unat gas < 2 ^ 62" "unat gas \<le> extra"
    and f': "f_evm f' = f_evm f" "f_contract f' = f_contract f" "f_pc f' = f_pc f"
  shows "post sz extra (length st + 1) f' (after_call ro rs r (on_stack st f))"
proof -
  obtain ret g' err e where re: "r = (ret, g', err, e)" by (cases r)
  have n: "evm_next sz (f_evm f) e" "unat g' \<le> unat gas" "length ret < max_size" using r by (auto simp: result_ok_def re)
  let ?f1 = "f\<lparr>f_evm := e\<rparr>"
  obtain m' where m': "(if err = None \<or> err = Some errExecutionReverted
      then mem_Set (Uint64 ro) (Uint64 rs) ret (f_memory f) else Some (f_memory f)) = Some m'"
    "length (store m') = length (store (f_memory f))"
  proof (cases "err = None \<or> err = Some errExecutionReverted")
    case True
    then show ?thesis using mem_Set_ok [OF m, of ret] that by auto
  qed (use that [of "f_memory f"] in auto)
  have 1: "rest_ok sz (set_memory m' ?f1)" using rest_ok_memory [OF rest_ok_evm [OF f(1) n(1)]] m'(2) by simp
  have "unat (Gas (f_contract (set_memory m' ?f1))) + unat g' < 2 ^ 62" using g n(2) by simp
  note A = add_gas_ok [OF 1 this]
  have "after_call ro rs r (on_stack st f) =
      yields ret (on_stack ((if err \<noteq> None then 0 else 1) # st) (add_gas g' (set_memory m' ?f1)))"
    using m'(1) by (cases "err = None \<or> err = Some errExecutionReverted") (auto simp: after_call_def re Let_def)
  moreover have "unat (Gas (f_contract (add_gas g' (set_memory m' ?f1)))) \<le> unat (Gas (f_contract f)) + extra"
    using A(2) n(2) g(2) by simp
  ultimately show ?thesis using A(1) n f(2) f' by (auto simp: post_def yields_def)
qed

text \<open>The gas that a call may give back, read off the frame after it was paid.\<close>

definition call_extra :: "frame \<Rightarrow> nat" where
  "call_extra f = unat (callGasTemp (f_evm f)) + (if f_stack f ! 2 \<noteq> 0 then 2300 else 0)"

definition plain_extra :: "frame \<Rightarrow> nat" where
  "plain_extra f = unat (callGasTemp (f_evm f))"

lemma BigMax_le: "BigMax x y \<le> z \<longleftrightarrow> x \<le> z \<and> y \<le> z"
  by (auto simp: BigMax_def)

lemma call_gas_eq:
  assumes "unat t + (if x then 2300 else 0) < 2 ^ 62"
  shows "unat (if x then t + CallStipend else t) = unat t + (if x then 2300 else 0)"
  using assms by (simp add: CallStipend_def unat_word_ariths)

lemma mem_range_calls [simp]:
  "mem_range 5 6 (x0 # x1 # x2 # x3 # x4 # x5 # x6 # st) = Some (calcMemSize x5 x6)"
  "mem_range 3 4 (x0 # x1 # x2 # x3 # x4 # x5 # x6 # st) = Some (calcMemSize x3 x4)"
  "mem_range 4 5 (x0 # x1 # x2 # x3 # x4 # x5 # st) = Some (calcMemSize x4 x5)"
  "mem_range 2 3 (x0 # x1 # x2 # x3 # x4 # x5 # st) = Some (calcMemSize x2 x3)"
  by (simp_all add: mem_range_def stack_Back_def)

lemma Call_exec_ok:
  assumes set: "setting sz n env ri"
  shows "exec_ok sz n env ri opCall 7 1 (Some memoryCall) call_extra"
  unfolding exec_ok_def
proof (intro allI impI)
  fix args st :: "int list" and f
  assume a: "length args = 7" "nonneg args" "nonneg st" "rest_ok sz f" "1025 \<le> depth (f_evm f) + n"
    and m: "mem_ready (Some memoryCall) (on_stack (args @ st) f)"
    and G: "unat (Gas (f_contract f)) + call_extra (on_stack (args @ st) f) < 2 ^ 62"
  then obtain g0 addr v io isz ro rs where x: "args = [g0, addr, v, io, isz, ro, rs]" "0 \<le> v" "0 \<le> io" "0 \<le> isz" "0 \<le> ro" "0 \<le> rs"
    by (auto simp: stack_cases)
  have mem: "in_memory io isz (f_memory f)" "in_memory ro rs (f_memory f)"
    using a(4) x m by (auto intro!: in_memoryI simp: mem_ready_def memoryCall_def BigMax_le)
  from mem_Get_ok [OF mem(1)] obtain d where d: "mem_Get (Int64 io) (Int64 isz) (f_memory f) = Some d" "length d < max_size" by blast
  let ?t = "callGasTemp (f_evm f)"
  define gas where "gas = (if U256 v \<noteq> 0 then ?t + CallStipend else ?t)"
  have "unat ?t + (if U256 v \<noteq> 0 then 2300 else 0) \<le> call_extra (on_stack (args @ st) f)"
    using x by (auto simp: call_extra_def U256_mod)
  then have g: "unat gas \<le> call_extra (on_stack (args @ st) f)" "unat (Gas (f_contract f)) + unat gas < 2 ^ 62"
    using call_gas_eq [of ?t "U256 v \<noteq> 0"] G by (auto simp: gas_def)
  then have "unat gas < 2 ^ 62" by simp
  from set obtain r where r: "EVM_Call env ri (contract_ref (f_contract f)) (BigToAddress addr) d gas (U256 v) (f_evm f) = Some r"
    "result_ok sz (f_evm f) gas r"
    using EVM_Call_safe [OF _ _ d(2) rest_okD(1) [OF a(4)] a(5) \<open>unat gas < 2 ^ 62\<close> U256_range(1)] unfolding setting_def by blast
  have "opCall env ri (on_stack (args @ st) f) = after_call ro rs r (on_stack st f)"
    using d(1) r(1) x by (auto simp: opCall_def Let_def gas_def)
  then show "post sz (call_extra (on_stack (args @ st) f)) (length st + 1) (on_stack (args @ st) f) (opCall env ri (on_stack (args @ st) f))"
    using after_call_post [OF a(4,3) mem(2) r(2) g(2,1)] by simp
qed

lemma CallCode_exec_ok:
  assumes set: "setting sz n env ri"
  shows "exec_ok sz n env ri opCallCode 7 1 (Some memoryCall) call_extra"
  unfolding exec_ok_def
proof (intro allI impI)
  fix args st :: "int list" and f
  assume a: "length args = 7" "nonneg args" "nonneg st" "rest_ok sz f" "1025 \<le> depth (f_evm f) + n"
    and m: "mem_ready (Some memoryCall) (on_stack (args @ st) f)"
    and G: "unat (Gas (f_contract f)) + call_extra (on_stack (args @ st) f) < 2 ^ 62"
  then obtain g0 addr v io isz ro rs where x: "args = [g0, addr, v, io, isz, ro, rs]" "0 \<le> v" "0 \<le> io" "0 \<le> isz" "0 \<le> ro" "0 \<le> rs"
    by (auto simp: stack_cases)
  have mem: "in_memory io isz (f_memory f)" "in_memory ro rs (f_memory f)"
    using a(4) x m by (auto intro!: in_memoryI simp: mem_ready_def memoryCall_def BigMax_le)
  from mem_Get_ok [OF mem(1)] obtain d where d: "mem_Get (Int64 io) (Int64 isz) (f_memory f) = Some d" "length d < max_size" by blast
  let ?t = "callGasTemp (f_evm f)"
  define gas where "gas = (if U256 v \<noteq> 0 then ?t + CallStipend else ?t)"
  have "unat ?t + (if U256 v \<noteq> 0 then 2300 else 0) \<le> call_extra (on_stack (args @ st) f)"
    using x by (auto simp: call_extra_def U256_mod)
  then have g: "unat gas \<le> call_extra (on_stack (args @ st) f)" "unat (Gas (f_contract f)) + unat gas < 2 ^ 62"
    using call_gas_eq [of ?t "U256 v \<noteq> 0"] G by (auto simp: gas_def)
  then have "unat gas < 2 ^ 62" by simp
  from set obtain r where r: "EVM_CallCode env ri (contract_ref (f_contract f)) (BigToAddress addr) d gas (U256 v) (f_evm f) = Some r"
    "result_ok sz (f_evm f) gas r"
    using EVM_CallCode_safe [OF _ _ d(2) rest_okD(1) [OF a(4)] a(5) \<open>unat gas < 2 ^ 62\<close> U256_range(1)] unfolding setting_def by blast
  have "opCallCode env ri (on_stack (args @ st) f) = after_call ro rs r (on_stack st f)"
    using d(1) r(1) x by (auto simp: opCallCode_def Let_def gas_def)
  then show "post sz (call_extra (on_stack (args @ st) f)) (length st + 1) (on_stack (args @ st) f) (opCallCode env ri (on_stack (args @ st) f))"
    using after_call_post [OF a(4,3) mem(2) r(2) g(2,1)] by simp
qed

lemma DelegateCall_exec_ok:
  assumes set: "setting sz n env ri"
  shows "exec_ok sz n env ri opDelegateCall 6 1 (Some memoryDelegateCall) plain_extra"
  unfolding exec_ok_def
proof (intro allI impI)
  fix args st :: "int list" and f
  assume a: "length args = 6" "nonneg args" "nonneg st" "rest_ok sz f" "1025 \<le> depth (f_evm f) + n"
    and m: "mem_ready (Some memoryDelegateCall) (on_stack (args @ st) f)"
    and G: "unat (Gas (f_contract f)) + plain_extra (on_stack (args @ st) f) < 2 ^ 62"
  then obtain g0 addr io isz ro rs where x: "args = [g0, addr, io, isz, ro, rs]" "0 \<le> io" "0 \<le> isz" "0 \<le> ro" "0 \<le> rs"
    by (auto simp: stack_cases)
  have mem: "in_memory io isz (f_memory f)" "in_memory ro rs (f_memory f)"
    using a(4) x m by (auto intro!: in_memoryI simp: mem_ready_def memoryDelegateCall_def BigMax_le)
  from mem_Get_ok [OF mem(1)] obtain d where d: "mem_Get (Int64 io) (Int64 isz) (f_memory f) = Some d" "length d < max_size" by blast
  let ?t = "callGasTemp (f_evm f)"
  have g: "unat ?t \<le> plain_extra (on_stack (args @ st) f)" "unat (Gas (f_contract f)) + unat ?t < 2 ^ 62" "unat ?t < 2 ^ 62"
    using G by (simp_all add: plain_extra_def)
  from set obtain r where r: "EVM_DelegateCall env ri (contract_ref (f_contract f)) (BigToAddress addr) d ?t (f_evm f) = Some r"
    "result_ok sz (f_evm f) ?t r"
    using EVM_DelegateCall_safe [OF _ _ d(2) rest_okD(1) [OF a(4)] a(5) g(3) contract_okD(3) [OF rest_okD(2) [OF a(4)]]]
    unfolding setting_def contract_ref_def by blast
  have "opDelegateCall env ri (on_stack (args @ st) f) = after_call ro rs r (on_stack st f)"
    using d(1) r(1) x by (auto simp: opDelegateCall_def Let_def)
  then show "post sz (plain_extra (on_stack (args @ st) f)) (length st + 1) (on_stack (args @ st) f) (opDelegateCall env ri (on_stack (args @ st) f))"
    using after_call_post [OF a(4,3) mem(2) r(2) g(2,1)] by simp
qed

lemma StaticCall_exec_ok:
  assumes set: "setting sz n env ri"
  shows "exec_ok sz n env ri opStaticCall 6 1 (Some memoryStaticCall) plain_extra"
  unfolding exec_ok_def
proof (intro allI impI)
  fix args st :: "int list" and f
  assume a: "length args = 6" "nonneg args" "nonneg st" "rest_ok sz f" "1025 \<le> depth (f_evm f) + n"
    and m: "mem_ready (Some memoryStaticCall) (on_stack (args @ st) f)"
    and G: "unat (Gas (f_contract f)) + plain_extra (on_stack (args @ st) f) < 2 ^ 62"
  then obtain g0 addr io isz ro rs where x: "args = [g0, addr, io, isz, ro, rs]" "0 \<le> io" "0 \<le> isz" "0 \<le> ro" "0 \<le> rs"
    by (auto simp: stack_cases)
  have mem: "in_memory io isz (f_memory f)" "in_memory ro rs (f_memory f)"
    using a(4) x m by (auto intro!: in_memoryI simp: mem_ready_def memoryStaticCall_def BigMax_le)
  from mem_Get_ok [OF mem(1)] obtain d where d: "mem_Get (Int64 io) (Int64 isz) (f_memory f) = Some d" "length d < max_size" by blast
  let ?t = "callGasTemp (f_evm f)"
  have g: "unat ?t \<le> plain_extra (on_stack (args @ st) f)" "unat (Gas (f_contract f)) + unat ?t < 2 ^ 62" "unat ?t < 2 ^ 62"
    using G by (simp_all add: plain_extra_def)
  from set obtain r where r: "EVM_StaticCall env ri (contract_ref (f_contract f)) (BigToAddress addr) d ?t (f_evm f) = Some r"
    "result_ok sz (f_evm f) ?t r"
    using EVM_StaticCall_safe [OF _ _ d(2) rest_okD(1) [OF a(4)] a(5) g(3)] unfolding setting_def by blast
  have "opStaticCall env ri (on_stack (args @ st) f) = after_call ro rs r (on_stack st f)"
    using d(1) r(1) x by (auto simp: opStaticCall_def Let_def)
  then show "post sz (plain_extra (on_stack (args @ st) f)) (length st + 1) (on_stack (args @ st) f) (opStaticCall env ri (on_stack (args @ st) f))"
    using after_call_post [OF a(4,3) mem(2) r(2) g(2,1)] by simp
qed

end
