(* ===== verification/Safety_Gas.thy ===== *)
theory Safety_Gas
  imports Safety_Nested
begin

text \<open>
  What the gas functions promise.  A price is computed without panicking; it changes neither the contract
  nor the stack nor the bytes in memory; and it has a lower bound: at least one unit for an instruction
  after which the loop continues, and more than everything the callee may give back for a call.  A price
  that is given at all bounds the memory the instruction asks for.
\<close>

section \<open>Prices\<close>

definition same_but_state :: "(Hash \<Rightarrow> nat) \<Rightarrow> frame \<Rightarrow> frame \<Rightarrow> bool" where
  "same_but_state sz f f1 \<longleftrightarrow>
     evm_next sz (f_evm f) (f_evm f1) \<and> f_contract f1 = f_contract f \<and> f_stack f1 = f_stack f \<and>
     f_pc f1 = f_pc f \<and> store (f_memory f1) = store (f_memory f)"

definition priced :: "(Hash \<Rightarrow> nat) \<Rightarrow> (frame \<Rightarrow> nat) \<Rightarrow> uint64 \<Rightarrow> frame \<Rightarrow> gas_result \<Rightarrow> bool" where
  "priced sz low msz f r \<longleftrightarrow>
     (\<exists>c f1. r = Some (c, f1) \<and> same_but_state sz f f1 \<and>
        (\<forall>g. c = Inr g \<longrightarrow> low f1 \<le> unat g \<and> unat msz < max_size))"

definition gas_ok ::
  "(Hash \<Rightarrow> nat) \<Rightarrow> Env \<Rightarrow> gasFunc \<Rightarrow> nat \<Rightarrow> bool \<Rightarrow> (frame \<Rightarrow> nat) \<Rightarrow> bool" where
  "gas_ok sz env gf k uses_memory low \<longleftrightarrow>
     (\<forall>msz f. k \<le> length (f_stack f) \<longrightarrow> rest_ok sz f \<longrightarrow> uses_memory \<or> msz = 0 \<longrightarrow> priced sz low msz f (gf env msz f))"

lemma same_refl [simp]: "rest_ok sz f \<Longrightarrow> same_but_state sz f f"
  by (simp add: same_but_state_def rest_ok_def)

lemma same_rest_ok: "rest_ok sz f \<Longrightarrow> same_but_state sz f f1 \<Longrightarrow> rest_ok sz f1"
  by (auto simp: same_but_state_def rest_ok_def dest: evm_nextD)

lemma same_trans: "same_but_state sz f f1 \<Longrightarrow> same_but_state sz f1 f2 \<Longrightarrow> same_but_state sz f f2"
  by (auto simp: same_but_state_def intro: evm_next_trans)

lemma same_stack: "same_but_state sz f f1 \<Longrightarrow> f_stack f1 = f_stack f"
  by (simp add: same_but_state_def)

lemma priced_price:
  "same_but_state sz f f1 \<Longrightarrow> low f1 \<le> unat g \<Longrightarrow> unat msz < max_size \<Longrightarrow> priced sz low msz f (price g f1)"
  by (simp add: priced_def price_def)

lemma priced_no_price: "same_but_state sz f f1 \<Longrightarrow> priced sz low msz f (no_price err f1)"
  by (simp add: priced_def no_price_def)

lemma priced_weaken:
  "priced sz low msz f r \<Longrightarrow> (\<And>f1. f_stack f1 = f_stack f \<Longrightarrow> low' f1 \<le> low f1) \<Longrightarrow> priced sz low' msz f r"
  by (fastforce simp: priced_def same_but_state_def intro: le_trans)

lemma priced_from:
  "priced sz low msz f1 r \<Longrightarrow> same_but_state sz f f1 \<Longrightarrow> priced sz low msz f r"
  unfolding priced_def by (blast intro: same_trans)

lemma priced_mem:
  assumes f: "rest_ok sz f"
  shows "priced sz (\<lambda>_. 0) msz f (mem_price msz f)"
proof -
  obtain c m where r: "memoryGasCost (f_memory f) msz = (c, m)" by (cases "memoryGasCost (f_memory f) msz")
  have s: "store m = store (f_memory f)" using r by (auto simp: memoryGasCost_def Let_def split: if_splits)
  have b: "unat msz < max_size" if "c = Inr g" for g
  proof -
    have "msz = 0 \<or> \<not> msz > 0xffffffffe0" using r that by (auto simp: memoryGasCost_def split: if_splits)
    then show ?thesis by (auto simp: word_less_nat_alt max_size_def)
  qed
  have "mem_price msz f = Some (c, f\<lparr>f_memory := m\<rparr>)" by (simp add: mem_price_def r)
  moreover have "same_but_state sz f (f\<lparr>f_memory := m\<rparr>)" using f s by (simp add: same_but_state_def rest_ok_def)
  ultimately show ?thesis using b by (auto simp: priced_def)
qed

lemma priced_plus:
  assumes "priced sz low msz f r"
  shows "priced sz (\<lambda>f. low f + unat extra) msz f (plus_gas extra r)"
proof -
  from assms obtain c f1 where r: "r = Some (c, f1)" "same_but_state sz f f1"
    and c: "\<And>g. c = Inr g \<Longrightarrow> low f1 \<le> unat g \<and> unat msz < max_size"
    by (auto simp: priced_def)
  show ?thesis
  proof (cases c)
    case (Inl err)
    then show ?thesis using r by (simp add: plus_gas_def priced_def)
  next
    case (Inr g)
    show ?thesis
    proof (cases "snd (SafeAdd g extra)")
      case True
      then show ?thesis using r Inr by (simp add: plus_gas_def priced_def case_prod_beta Let_def)
    next
      case False
      then show ?thesis
        using r Inr c [OF Inr] SafeAdd_no_overflow [OF False] by (simp add: plus_gas_def priced_def case_prod_beta Let_def)
    qed
  qed
qed

lemma priced_word:
  assumes p: "priced sz low msz f r" and k: "k < length (f_stack f)"
  shows "priced sz low msz f (word_price k per r)"
proof -
  from p obtain c f1 where r: "r = Some (c, f1)" "same_but_state sz f f1" by (auto simp: priced_def)
  show ?thesis
  proof (cases c)
    case (Inr g)
    have s: "stack_Back (f_stack f1) k = Some (f_stack f ! k)" using same_stack [OF r(2)] k by (simp add: stack_Back_def)
    have "priced sz low msz f (plus_gas x (Some (Inr g, f1)))" for x
      using priced_weaken [OF priced_plus [OF p, of x]] by (simp add: r Inr)
    then show ?thesis
      using r s priced_no_price [OF r(2)] by (simp add: word_price_def Inr case_prod_beta Let_def)
  qed (use r p in \<open>simp add: word_price_def\<close>)
qed

lemma priced_plus_memory:
  assumes "rest_ok sz f"
  shows "priced sz (\<lambda>_. unat gas) msz f (plus_memory gas msz f)"
proof -
  from priced_mem [OF assms, of msz] obtain c f1 where r: "mem_price msz f = Some (c, f1)" "same_but_state sz f f1"
    and c: "\<And>g. c = Inr g \<Longrightarrow> unat msz < max_size"
    by (auto simp: priced_def)
  show ?thesis
  proof (cases c)
    case (Inr g)
    have "priced sz (\<lambda>_. unat gas) msz f (price gas f1)" using r c [OF Inr] by (intro priced_price) auto
    from priced_plus [OF this, of g] show ?thesis using r Inr by (auto simp: plus_memory_def intro: priced_weaken)
  qed (use r in \<open>simp add: plus_memory_def priced_def\<close>)
qed

lemma same_callGasTemp:
  "rest_ok sz f \<Longrightarrow> same_but_state sz f (f\<lparr>f_evm := (f_evm f)\<lparr>callGasTemp := g\<rparr>\<rparr>)"
  by (simp add: same_but_state_def rest_ok_def evm_next_def evm_ok_def)

lemma priced_reserve:
  assumes f: "rest_ok sz f" and p: "priced sz (\<lambda>_. b) msz f r" and k: "f_stack f \<noteq> []"
  shows "priced sz (\<lambda>f1. b + unat (callGasTemp (f_evm f1))) msz f (reserve_call_gas env r)"
proof -
  from p obtain c f1 where r: "r = Some (c, f1)" "same_but_state sz f f1"
    and c: "\<And>g. c = Inr g \<Longrightarrow> b \<le> unat g \<and> unat msz < max_size"
    by (auto simp: priced_def)
  show ?thesis
  proof (cases c)
    case (Inr g)
    have s: "stack_Back (f_stack f1) 0 = Some (f_stack f ! 0)" using same_stack [OF r(2)] k by (simp add: stack_Back_def)
    let ?f = "\<lambda>x. f1\<lparr>f_evm := (f_evm f1)\<lparr>callGasTemp := x\<rparr>\<rparr>"
    have same: "same_but_state sz f (?f x)" for x
      using same_trans [OF r(2) same_callGasTemp [OF same_rest_ok [OF f r(2)]]] .
    have "priced sz (\<lambda>f. b + unat (callGasTemp (f_evm f))) msz f (plus_gas x (price g (?f x)))" for x
      using c [OF Inr] same
        SafeAdd_no_overflow [of g x] by (auto simp: plus_gas_def price_def priced_def case_prod_beta Let_def)
    then show ?thesis
      using r s priced_no_price [OF same] by (simp add: reserve_call_gas_def Inr split: sum.split)
  qed (use r in \<open>simp add: reserve_call_gas_def priced_def\<close>)
qed

lemma same_ask:
  "rest_ok sz f \<Longrightarrow> grows sz (statedb (f_evm f)) (snd (q (statedb (f_evm f)))) \<Longrightarrow> same_but_state sz f (snd (ask q f))"
  by (simp add: same_but_state_def ask_def case_prod_beta query_next [OF rest_okD(1), simplified])

lemma same_tell:
  "rest_ok sz f \<Longrightarrow> grows sz (statedb (f_evm f)) (u (statedb (f_evm f))) \<Longrightarrow> same_but_state sz f (tell u f)"
  by (simp add: same_but_state_def tell_def upd_state_next [OF rest_okD(1)])

section \<open>The gas functions\<close>

text \<open>The price of an instruction after which the loop continues, when \<open>extra\<close> may flow back.\<close>

definition exceeds :: "(frame \<Rightarrow> nat) \<Rightarrow> frame \<Rightarrow> nat" where
  "exceeds extra f = Suc (extra f)"

definition free :: "frame \<Rightarrow> nat" where
  "free f = 0"

lemma gasTable_bounds:
  "20 \<le> unat (ExtcodeSize (gasTable env))" "20 \<le> unat (ExtcodeCopy (gasTable env))"
  "20 \<le> unat (BalanceGas (gasTable env))" "50 \<le> unat (SLoad (gasTable env))" "40 \<le> unat (Calls (gasTable env))"
  "unat (Calls (gasTable env)) \<le> 700"
  by (simp_all add: gasTable_def ChainConfig_GasTable_def GasTableHomestead_def GasTableEIP150_def GasTableEIP158_def
      GasTableConstantinople_def)

lemma const_gas_ok: "0 < unat g \<Longrightarrow> gas_ok sz env (constGasFunc g) k False (exceeds no_extra)"
  by (auto simp: gas_ok_def constGasFunc_def exceeds_def no_extra_def max_size_def intro!: priced_price)

lemma stop_gas_ok: "gas_ok sz env (constGasFunc g) k False free"
  by (auto simp: gas_ok_def constGasFunc_def free_def max_size_def intro!: priced_price)

lemma stack_gas_ok:
  "gas_ok sz env gasPush k False (exceeds no_extra)" "gas_ok sz env gasDup k False (exceeds no_extra)"
  "gas_ok sz env gasSwap k False (exceeds no_extra)"
  by (auto simp: gas_ok_def gasPush_def gasDup_def gasSwap_def GasFastestStep_def exceeds_def no_extra_def max_size_def
      intro!: priced_price)

lemma table_gas_ok:
  "gas_ok sz env gasBalance k False (exceeds no_extra)" "gas_ok sz env gasExtCodeSize k False (exceeds no_extra)"
  "gas_ok sz env gasSLoad k False (exceeds no_extra)"
  using gasTable_bounds [of env]
  by (auto simp: gas_ok_def gasBalance_def gasExtCodeSize_def gasSLoad_def exceeds_def no_extra_def max_size_def
      intro!: priced_price)

lemma memory_gas_ok:
  "gas_ok sz env gasMLoad k True (exceeds no_extra)" "gas_ok sz env gasMStore k True (exceeds no_extra)"
  "gas_ok sz env gasMStore8 k True (exceeds no_extra)" "gas_ok sz env gasCreate k True (exceeds no_extra)"
  "2 \<le> k \<Longrightarrow> gas_ok sz env gasSha3 k True (exceeds no_extra)"
  "3 \<le> k \<Longrightarrow> gas_ok sz env gasCallDataCopy k True (exceeds no_extra)"
  "3 \<le> k \<Longrightarrow> gas_ok sz env gasCodeCopy k True (exceeds no_extra)"
  "3 \<le> k \<Longrightarrow> gas_ok sz env gasReturnDataCopy k True (exceeds no_extra)"
  "4 \<le> k \<Longrightarrow> gas_ok sz env gasExtCodeCopy k True (exceeds no_extra)"
  using gasTable_bounds [of env] unfolding gas_ok_def
  by (auto simp: gasMLoad_def gasMStore_def gasMStore8_def gasCreate_def gasSha3_def gasCallDataCopy_def gasCodeCopy_def
      gasReturnDataCopy_def gasExtCodeCopy_def GasFastestStep_def CreateGas_def Sha3Gas_def exceeds_def no_extra_def
      intro!: priced_word intro: priced_weaken [OF priced_plus [OF priced_mem]])

lemma halt_gas_ok:
  "gas_ok sz env gasReturn k True free" "gas_ok sz env gasRevert k True free"
  unfolding gas_ok_def by (auto simp: gasReturn_def gasRevert_def free_def intro: priced_weaken [OF priced_mem])

lemma exp_gas_ok: "2 \<le> k \<Longrightarrow> gas_ok sz env gasExp k False (exceeds no_extra)"
  unfolding gas_ok_def
  by (auto simp: gasExp_def stack_Back_def GasSlowStep_def exceeds_def no_extra_def max_size_def
      intro!: priced_weaken [OF priced_plus [OF priced_price, where low = "\<lambda>_. 0"]])

lemma log_gas_ok:
  assumes "2 \<le> k"
  shows "gas_ok sz env (makeGasLog n) k True (exceeds no_extra)"
  unfolding gas_ok_def
proof (intro allI impI)
  fix msz f
  assume k: "k \<le> length (f_stack f)" and f: "rest_ok sz f"
  let ?r = "plus_gas (n * LogTopicGas) (plus_gas LogGas (mem_price msz f))"
  have p: "priced sz (exceeds no_extra) msz f ?r"
    using f by (auto simp: exceeds_def no_extra_def LogGas_def intro: priced_weaken [OF priced_plus [OF priced_plus [OF priced_mem]]])
  then obtain c f1 where r: "?r = Some (c, f1)" "same_but_state sz f f1" by (auto simp: priced_def)
  show "priced sz (exceeds no_extra) msz f (makeGasLog n env msz f)"
  proof (cases c)
    case (Inr g)
    have "priced sz (exceeds no_extra) msz f (plus_gas x (price g f1))" for x
      using priced_weaken [OF priced_plus [OF p, of x]] by (simp add: r Inr price_def)
    then show ?thesis
      using k assms r Inr priced_no_price [OF r(2)] priced_no_price [OF same_refl [OF f]]
      by (simp add: makeGasLog_def stack_Back_def case_prod_beta Let_def)
  next
    case (Inl err)
    then show ?thesis
      using k assms r p priced_no_price [OF same_refl [OF f]] by (simp add: makeGasLog_def stack_Back_def case_prod_beta Let_def)
  qed
qed

lemma sstore_gas_ok:
  assumes fork: "\<not> rules_IsConstantinople (chainRules env)" and "2 \<le> k"
  shows "gas_ok sz env gasSStore k False (exceeds no_extra)"
  unfolding gas_ok_def
proof (intro allI impI)
  fix msz :: uint64 and f
  assume k: "k \<le> length (f_stack f)" and f: "rest_ok sz f" and "False \<or> msz = 0"
  then have m: "unat msz < max_size" by (simp add: max_size_def)
  let ?q = "\<lambda>s. GetState s (c_Address (f_contract f)) (BigToHash (f_stack f ! 0))"
  have 1: "same_but_state sz f (snd (ask ?q f))"
    using f by (intro same_ask) (auto intro: reader_grows rest_okD)
  note f1 = same_rest_ok [OF f 1]
  have 2: "same_but_state sz f (tell (\<lambda>s. AddRefund s SstoreRefundGas) (snd (ask ?q f)))"
    using f1 by (intro same_trans [OF 1 same_tell]) (auto intro: AddRefund_grows rest_okD)
  have "stack_Back (f_stack f) 0 = Some (f_stack f ! 0)" "stack_Back (f_stack f) 1 = Some (f_stack f ! 1)"
    using k assms by (auto simp: stack_Back_def)
  then show "priced sz (exceeds no_extra) msz f (gasSStore env msz f)"
    using fork 1 2 m
    by (auto simp: gasSStore_def case_prod_beta Let_def exceeds_def no_extra_def SstoreSetGas_def SstoreClearGas_def SstoreResetGas_def
        intro!: priced_price)
qed

lemma call_base:
  assumes "unat c \<le> 700" "40 \<le> unat c"
  shows "Suc (if t then 2300 else 0) \<le> unat (if t then (if x then c + CallNewAccountGas else c) + CallValueTransferGas
     else if x then c + CallNewAccountGas else c)"
  using assms by (simp add: CallNewAccountGas_def CallValueTransferGas_def unat_word_ariths)

lemma same_pair: "same_but_state sz f (snd r) \<Longrightarrow> r = (x, f1) \<Longrightarrow> same_but_state sz f f1"
  by simp

lemma call_gas_ok:
  assumes "3 \<le> k"
  shows "gas_ok sz env gasCall k True (exceeds call_extra)"
  unfolding gas_ok_def
proof (intro allI impI)
  fix msz f
  assume k: "k \<le> length (f_stack f)" and f: "rest_ok sz f"
  define v where "v = f_stack f ! 2"
  define addr where "addr = BigToAddress (f_stack f ! 1)"
  have st: "stack_Back (f_stack f) 2 = Some v" "stack_Back (f_stack f) 1 = Some (f_stack f ! 1)" "f_stack f \<noteq> []"
    using k assms by (auto simp: stack_Back_def v_def)
  obtain new f1 where new: "(if IsEIP158 (chainConfig env) (BlockNumber (ctx env)) then
         if v \<noteq> 0 then ask (\<lambda>s. Empty s addr) f else (False, f)
       else let (ex, f) = ask (\<lambda>s. Exist s addr) f in (\<not> ex, f)) = (new, f1)" by fastforce
  have 1: "same_but_state sz f f1"
    using new f same_ask [OF f, of "\<lambda>s. Empty s addr"] same_ask [OF f, of "\<lambda>s. Exist s addr"]
      reader_grows [OF rest_okD(4) [OF f]]
    by (auto simp: case_prod_beta Let_def split: if_splits)
  define g where "g = (let gas = Calls (gasTable env); gas = (if new then gas + CallNewAccountGas else gas)
     in if v \<noteq> 0 then gas + CallValueTransferGas else gas)"
  have g: "Suc (if v \<noteq> 0 then 2300 else 0) \<le> unat g"
    using call_base [OF gasTable_bounds(6) [of env] gasTable_bounds(5) [of env], where t = "v \<noteq> 0" and x = new] by (auto simp: g_def Let_def)
  note f1 = same_rest_ok [OF f 1] and s1 = same_stack [OF 1]
  have "priced sz (\<lambda>f. unat g + unat (callGasTemp (f_evm f))) msz f1 (reserve_call_gas env (plus_memory g msz f1))"
    using st s1 by (intro priced_reserve [OF f1 priced_plus_memory [OF f1]]) simp
  from priced_weaken [OF priced_from [OF this 1]]
  have "priced sz (exceeds call_extra) msz f (reserve_call_gas env (plus_memory g msz f1))"
    using g by (auto simp: exceeds_def call_extra_def v_def)
  moreover have "gasCall env msz f = reserve_call_gas env (plus_memory g msz f1)"
    using st new by (auto simp: gasCall_def addr_def g_def case_prod_beta Let_def split: if_splits)
  ultimately show "priced sz (exceeds call_extra) msz f (gasCall env msz f)" by simp
qed

lemma callcode_gas_ok:
  assumes "3 \<le> k"
  shows "gas_ok sz env gasCallCode k True (exceeds call_extra)"
  unfolding gas_ok_def
proof (intro allI impI)
  fix msz f
  assume k: "k \<le> length (f_stack f)" and f: "rest_ok sz f"
  define v where "v = f_stack f ! 2"
  define g where "g = (if v \<noteq> 0 then Calls (gasTable env) + CallValueTransferGas else Calls (gasTable env))"
  have st: "stack_Back (f_stack f) 2 = Some v" "f_stack f \<noteq> []" using k assms by (auto simp: stack_Back_def v_def)
  have g: "Suc (if v \<noteq> 0 then 2300 else 0) \<le> unat g"
    using call_base [OF gasTable_bounds(6) [of env] gasTable_bounds(5) [of env], where t = "v \<noteq> 0" and x = False] by (auto simp: g_def)
  from priced_reserve [OF f priced_plus_memory [OF f] st(2), of g msz env]
  have "priced sz (exceeds call_extra) msz f (reserve_call_gas env (plus_memory g msz f))"
    using g by (elim priced_weaken) (auto simp: exceeds_def call_extra_def v_def)
  moreover have "gasCallCode env msz f = reserve_call_gas env (plus_memory g msz f)"
    using st by (simp add: gasCallCode_def g_def Let_def)
  ultimately show "priced sz (exceeds call_extra) msz f (gasCallCode env msz f)" by simp
qed

lemma plain_call_gas_ok:
  assumes "0 < k"
  shows "gas_ok sz env gasDelegateCall k True (exceeds plain_extra)" "gas_ok sz env gasStaticCall k True (exceeds plain_extra)"
proof -
  have "priced sz (exceeds plain_extra) msz f (reserve_call_gas env (plus_gas (Calls (gasTable env)) (mem_price msz f)))"
    if "k \<le> length (f_stack f)" "rest_ok sz f" for msz f
  proof -
    have "f_stack f \<noteq> []" using that(1) assms by (cases "f_stack f") simp_all
    from priced_reserve [OF that(2) priced_plus [OF priced_mem [OF that(2)]] this, of "Calls (gasTable env)" msz env]
    show ?thesis using gasTable_bounds [of env] by (elim priced_weaken) (auto simp: exceeds_def plain_extra_def)
  qed
  then show "gas_ok sz env gasDelegateCall k True (exceeds plain_extra)" "gas_ok sz env gasStaticCall k True (exceeds plain_extra)"
    by (simp_all add: gas_ok_def gasDelegateCall_def gasStaticCall_def)
qed

lemma suicide_gas_ok:
  assumes "0 < k"
  shows "gas_ok sz env gasSuicide k False free"
  unfolding gas_ok_def
proof (intro allI impI)
  fix msz :: uint64 and f
  assume k: "k \<le> length (f_stack f)" and f: "rest_ok sz f" and "False \<or> msz = 0"
  then have m: "unat msz < max_size" by (simp add: max_size_def)
  have st: "stack_Back (f_stack f) 0 = Some (f_stack f ! 0)" using k assms by (cases "f_stack f") (simp_all add: stack_Back_def)
  have rd: "same_but_state sz h (snd (ask (\<lambda>s. Empty s a) h))" "same_but_state sz h (snd (ask (\<lambda>s. GetBalance s a) h))"
    "same_but_state sz h (snd (ask (\<lambda>s. Exist s a) h))" "same_but_state sz h (snd (ask (\<lambda>s. HasSuicided s a) h))"
    "same_but_state sz h (tell (\<lambda>s. AddRefund s SuicideRefundGas) h)" if "rest_ok sz h" for h a
    using that by (auto intro!: same_ask same_tell intro: reader_grows AddRefund_grows rest_okD)
  have fin: "priced sz free msz f (let (dead, h) = ask (\<lambda>s. HasSuicided s (c_Address (f_contract h))) h
       in price g (if dead then h else tell (\<lambda>s. AddRefund s SuicideRefundGas) h))"
    if "same_but_state sz f h" for g h
  proof -
    note h = same_rest_ok [OF f that]
    note h1 = same_rest_ok [OF h rd(4) [OF h]]
    show ?thesis using m same_trans [OF that rd(4) [OF h]] same_trans [OF same_trans [OF that rd(4) [OF h]] rd(5) [OF h1]]
      by (auto simp: case_prod_beta Let_def free_def intro!: priced_price)
  qed
  have 1: "same_but_state sz f (snd (ask (\<lambda>s. Empty s a) f))" "same_but_state sz f (snd (ask (\<lambda>s. Exist s a) f))"
    "same_but_state sz f (snd (ask (\<lambda>s. GetBalance s b) (snd (ask (\<lambda>s. Empty s a) f))))" for a b
    using rd(1,3) [OF f] same_trans [OF rd(1) [OF f] rd(2) [OF same_rest_ok [OF f rd(1) [OF f]]]] by auto
  let ?first = "if IsEIP150 (chainConfig env) (BlockNumber (ctx env)) then
      do { a \<leftarrow> stack_Back (f_stack f) 0;
           let addr = BigToAddress a;
           let (creates, f) =
                 (if IsEIP158 (chainConfig env) (BlockNumber (ctx env)) then
                    let (em, f) = ask (\<lambda>s. Empty s addr) f in
                    if em then
                      let (b, f) = ask (\<lambda>s. GetBalance s (c_Address (f_contract f))) f in (b \<noteq> 0, f)
                    else (False, f)
                  else let (ex, f) = ask (\<lambda>s. Exist s addr) f in (\<not> ex, f));
           Some (if creates then SuicideGas (gasTable env) + CreateBySuicide (gasTable env)
                 else SuicideGas (gasTable env), f) }
    else Some (0, f)"
  have "\<exists>g h. ?first = Some (g, h) \<and> same_but_state sz f h"
    using st f 1 by (simp add: case_prod_beta Let_def)
  then obtain g h where h: "?first = Some (g, h)" "same_but_state sz f h" by blast
  show "priced sz free msz f (gasSuicide env msz f)"
    unfolding gasSuicide_def h(1) using fin [OF h(2)] by simp
qed

lemmas gas_functions_ok =
  stack_gas_ok table_gas_ok memory_gas_ok halt_gas_ok exp_gas_ok log_gas_ok call_gas_ok callcode_gas_ok
  plain_call_gas_ok suicide_gas_ok

end
