(* ===== verification/Safety_Table.thy ===== *)
theory Safety_Table
  imports Safety_Gas
begin

text \<open>
  The jump tables keep their promises: for every opcode that a table of a fork before Constantinople
  declares valid, the stack check of the entry asks for the operands that its execution takes, its memory
  function asks for the memory it touches, and its gas function charges for it.
\<close>

section \<open>Entries\<close>

definition mem_total :: "memorySizeFunc option \<Rightarrow> nat \<Rightarrow> bool" where
  "mem_total ms k \<longleftrightarrow>
     (\<forall>g st. ms = Some g \<longrightarrow> k \<le> length st \<longrightarrow> nonneg st \<longrightarrow> (\<exists>need \<ge> 0. g st = Some need))"

definition reads_evm :: "(frame \<Rightarrow> nat) \<Rightarrow> bool" where
  "reads_evm extra \<longleftrightarrow> (\<forall>f f'. f_evm f = f_evm f' \<longrightarrow> f_stack f = f_stack f' \<longrightarrow> extra f = extra f')"

definition op_shape ::
  "(Hash \<Rightarrow> nat) \<Rightarrow> nat \<Rightarrow> Env \<Rightarrow> interp \<Rightarrow> OpCode \<Rightarrow> operation \<Rightarrow> nat \<Rightarrow> nat \<Rightarrow> (frame \<Rightarrow> nat) \<Rightarrow> (frame \<Rightarrow> nat) \<Rightarrow> bool" where
  "op_shape sz n env ri op o' k h extra low \<longleftrightarrow>
     validateStack o' = makeStackFunc k h \<and> exec_ok sz n env ri (execute o') k h (memorySize o') extra \<and>
     gas_ok sz env (gasCost o') k (memorySize o' \<noteq> None) low \<and> mem_total (memorySize o') k \<and> reads_evm extra \<and>
     (low = exceeds extra \<or> (halts o' \<or> reverts o') \<and> extra = no_extra) \<and>
     (op = STOP \<longrightarrow> halts o') \<and> (op = CALL \<longrightarrow> 3 \<le> k)"

definition op_safe :: "(Hash \<Rightarrow> nat) \<Rightarrow> nat \<Rightarrow> Env \<Rightarrow> interp \<Rightarrow> OpCode \<Rightarrow> operation \<Rightarrow> bool" where
  "op_safe sz n env ri op o' \<longleftrightarrow> (\<exists>k h extra low. op_shape sz n env ri op o' k h extra low)"

lemma op_safeI: "op_shape sz n env ri op o' k h extra low \<Longrightarrow> op_safe sz n env ri op o'"
  by (auto simp: op_safe_def)

lemma reads_evm_simps [simp]: "reads_evm no_extra" "reads_evm call_extra" "reads_evm plain_extra"
  by (simp_all add: reads_evm_def no_extra_def call_extra_def plain_extra_def)

lemma mem_total_simps [simp]:
  "mem_total None k" "2 \<le> k \<Longrightarrow> mem_total (Some memorySha3) k" "3 \<le> k \<Longrightarrow> mem_total (Some memoryCallDataCopy) k"
  "3 \<le> k \<Longrightarrow> mem_total (Some memoryReturnDataCopy) k" "3 \<le> k \<Longrightarrow> mem_total (Some memoryCodeCopy) k"
  "4 \<le> k \<Longrightarrow> mem_total (Some memoryExtCodeCopy) k" "1 \<le> k \<Longrightarrow> mem_total (Some memoryMLoad) k"
  "1 \<le> k \<Longrightarrow> mem_total (Some memoryMStore) k" "1 \<le> k \<Longrightarrow> mem_total (Some memoryMStore8) k"
  "3 \<le> k \<Longrightarrow> mem_total (Some memoryCreate) k" "7 \<le> k \<Longrightarrow> mem_total (Some memoryCall) k"
  "6 \<le> k \<Longrightarrow> mem_total (Some memoryDelegateCall) k" "6 \<le> k \<Longrightarrow> mem_total (Some memoryStaticCall) k"
  "2 \<le> k \<Longrightarrow> mem_total (Some memoryReturn) k" "2 \<le> k \<Longrightarrow> mem_total (Some memoryRevert) k"
  "2 \<le> k \<Longrightarrow> mem_total (Some memoryLog) k"
  by (auto simp: mem_total_def memorySha3_def memoryCallDataCopy_def memoryReturnDataCopy_def memoryCodeCopy_def
      memoryExtCodeCopy_def memoryMLoad_def memoryMStore_def memoryMStore8_def memoryCreate_def memoryCall_def
      memoryDelegateCall_def memoryStaticCall_def memoryReturn_def memoryRevert_def memoryLog_def mem_range_def
      stack_Back_def calcMemSize_def BigMax_def intro!: add_nonneg_nonneg nth_nonneg)

lemma op_plain:
  assumes "exec_ok sz n env ri ex k h None extra" "gas_ok sz env gf k False (exceeds extra)" "reads_evm extra"
    "op \<noteq> STOP" "op \<noteq> CALL"
  shows "op_safe sz n env ri op (mk_operation ex gf (makeStackFunc k h))"
  using assms by (intro op_safeI [where extra = extra and low = "exceeds extra"]) (auto simp: op_shape_def mk_operation_def)

lemma op_memory:
  assumes "exec_ok sz n env ri ex k h (Some ms) extra" "gas_ok sz env gf k True (exceeds extra)" "mem_total (Some ms) k"
    "reads_evm extra" "op \<noteq> STOP" "op = CALL \<longrightarrow> 3 \<le> k"
  shows "op_safe sz n env ri op ((mk_operation ex gf (makeStackFunc k h))\<lparr>memorySize := Some ms\<rparr>)"
  using assms by (intro op_safeI [where extra = extra and low = "exceeds extra"]) (auto simp: op_shape_def mk_operation_def)

lemma op_halts:
  assumes "exec_ok sz n env ri (execute o') k h (memorySize o') no_extra"
    "gas_ok sz env (gasCost o') k (memorySize o' \<noteq> None) free"
    "mem_total (memorySize o') k" "validateStack o' = makeStackFunc k h" "op \<noteq> CALL"
  shows "op_safe sz n env ri op (o'\<lparr>halts := True\<rparr>)"
    "op \<noteq> STOP \<Longrightarrow> op_safe sz n env ri op (o'\<lparr>reverts := True\<rparr>)"
  using assms by (auto intro!: op_safeI [where k = k and h = h and extra = no_extra and low = free] simp: op_shape_def)

lemma op_flags:
  "op_safe sz n env ri op o' \<Longrightarrow> op_safe sz n env ri op (o'\<lparr>writes := b\<rparr>)"
  "op_safe sz n env ri op o' \<Longrightarrow> op_safe sz n env ri op (o'\<lparr>returns := b\<rparr>)"
  "op_safe sz n env ri op o' \<Longrightarrow> op_safe sz n env ri op (o'\<lparr>jumps := b\<rparr>)"
  by (simp_all add: op_safe_def op_shape_def)

section \<open>Tables\<close>

definition table_safe :: "(Hash \<Rightarrow> nat) \<Rightarrow> nat \<Rightarrow> Env \<Rightarrow> interp \<Rightarrow> JumpTable \<Rightarrow> bool" where
  "table_safe sz n env ri jt \<longleftrightarrow> list_all (\<lambda>(op, o'). op_safe sz n env ri op o') jt"

lemma table_safe_append [simp]:
  "table_safe sz n env ri (xs @ ys) \<longleftrightarrow> table_safe sz n env ri xs \<and> table_safe sz n env ri ys"
  by (simp add: table_safe_def)

lemma table_safe_lookup:
  assumes "table_safe sz n env ri jt" "valid (lookup_op jt op)"
  shows "op_safe sz n env ri op (lookup_op jt op)"
proof (cases "map_of jt op")
  case (Some o')
  then show ?thesis using assms(1) map_of_SomeD [OF Some] by (auto simp: table_safe_def list_all_iff lookup_op_def)
qed (use assms in \<open>simp add: lookup_op_def zero_operation_def\<close>)

lemma Dup_op: "0 < k \<Longrightarrow> op \<noteq> STOP \<Longrightarrow> op \<noteq> CALL \<Longrightarrow> op_safe sz n env ri op (mk_operation (makeDup k) gasDup (makeDupStackFunc k))"
  unfolding makeDupStackFunc_def by (rule op_plain [OF Dup_exec_ok stack_gas_ok(2)]) simp_all

lemma Swap_op:
  "m = Suc k \<Longrightarrow> op \<noteq> STOP \<Longrightarrow> op \<noteq> CALL \<Longrightarrow> op_safe sz n env ri op (mk_operation (makeSwap k) gasSwap (makeSwapStackFunc m))"
  unfolding makeSwapStackFunc_def using op_plain [OF Swap_exec_ok stack_gas_ok(3)] by simp

lemma Push_op:
  "unat w \<le> 32 \<Longrightarrow> op \<noteq> STOP \<Longrightarrow> op \<noteq> CALL \<Longrightarrow> op_safe sz n env ri op (mk_operation (makePush w k) gasPush (makeStackFunc 0 1))"
  by (rule op_plain [OF Push_exec_ok stack_gas_ok(1)]) simp_all

lemma const_op:
  "exec_ok sz n env ri ex k h None no_extra \<Longrightarrow> 0 < unat g \<Longrightarrow> op \<noteq> STOP \<Longrightarrow> op \<noteq> CALL \<Longrightarrow>
   op_safe sz n env ri op (mk_operation ex (constGasFunc g) (makeStackFunc k h))"
  by (rule op_plain [OF _ const_gas_ok]) simp_all

lemma Log_op:
  "h = k + 2 \<Longrightarrow> op \<noteq> STOP \<Longrightarrow> op \<noteq> CALL \<Longrightarrow>
   op_safe sz n env ri op ((mk_operation (makeLog k) (makeGasLog g) (makeStackFunc h 0))\<lparr>memorySize := Some memoryLog\<rparr>)"
  using op_memory [OF Log_exec_ok log_gas_ok] by simp

lemma stop_op: "op_safe sz n env ri op ((mk_operation opStop (constGasFunc 0) (makeStackFunc 0 0))\<lparr>halts := True\<rparr>)" if "op \<noteq> CALL"
  using that Stop_exec_ok stop_gas_ok by (intro op_halts(1) [where k = 0 and h = 0]) (simp_all add: mk_operation_def)

lemma return_op:
  "op \<noteq> CALL \<Longrightarrow> op_safe sz n env ri op
     ((mk_operation opReturn gasReturn (makeStackFunc 2 0))\<lparr>memorySize := Some memoryReturn, halts := True\<rparr>)"
  "op \<noteq> CALL \<Longrightarrow> op \<noteq> STOP \<Longrightarrow> op_safe sz n env ri op
     ((mk_operation opRevert gasRevert (makeStackFunc 2 0))\<lparr>memorySize := Some memoryRevert, reverts := True\<rparr>)"
  "op \<noteq> CALL \<Longrightarrow> op_safe sz n env ri op ((mk_operation opSuicide gasSuicide (makeStackFunc 1 0))\<lparr>halts := True\<rparr>)"
  using Return_exec_ok Revert_exec_ok Suicide_exec_ok halt_gas_ok suicide_gas_ok
  by (intro op_halts [where k = 2 and h = 0] op_halts(1) [where k = 1 and h = 0]; simp add: mk_operation_def)+

lemmas gas_constants =
  gas_steps JumpdestGas_def

lemma frontier_arithmetic_safe: "table_safe sz n env ri frontier_arithmetic"
  unfolding frontier_arithmetic_def table_safe_def list.pred_inject case_prod_conv
  by (intro conjI stop_op const_op arithmetic_exec_ok logic_exec_ok op_plain [OF arithmetic_exec_ok(8) exp_gas_ok]
      op_memory [OF Sha3_exec_ok memory_gas_ok(5)])
    (simp_all add: gas_constants opcode_defs)

lemma frontier_environment_safe:
  assumes "setting sz n env ri"
  shows "table_safe sz n env ri frontier_environment"
  unfolding frontier_environment_def table_safe_def list.pred_inject case_prod_conv
  by (intro conjI const_op environment_exec_ok CallValue_exec_ok CallDataLoad_exec_ok Pop_exec_ok
      op_plain [OF Balance_exec_ok table_gas_ok(1)] op_plain [OF ExtCodeSize_exec_ok table_gas_ok(2)]
      op_memory [OF CallDataCopy_exec_ok memory_gas_ok(6)] op_memory [OF CodeCopy_exec_ok memory_gas_ok(7)]
      op_memory [OF ExtCodeCopy_exec_ok memory_gas_ok(9)] op_memory [OF Mload_exec_ok memory_gas_ok(1)]
      op_memory [OF Mstore_exec_ok memory_gas_ok(2)] op_memory [OF Mstore8_exec_ok memory_gas_ok(3)] assms)
    (simp_all add: gas_constants opcode_defs)

lemma frontier_storage_push_safe:
  assumes "\<not> rules_IsConstantinople (chainRules env)"
  shows "table_safe sz n env ri frontier_storage_push"
  unfolding frontier_storage_push_def table_safe_def list.pred_inject case_prod_conv
  by (intro conjI op_flags op_plain [OF Sload_exec_ok table_gas_ok(3)] op_plain [OF Sstore_exec_ok sstore_gas_ok]
      const_op environment_exec_ok Jump_exec_ok Jumpi_exec_ok Jumpdest_exec_ok Push_op assms)
    (simp_all add: gas_constants opcode_defs)

lemma frontier_push_dup_safe: "table_safe sz n env ri frontier_push_dup"
  unfolding frontier_push_dup_def table_safe_def list.pred_inject case_prod_conv
  by (intro conjI Push_op Dup_op) (simp_all add: opcode_defs)

lemma frontier_dup_swap_safe: "table_safe sz n env ri frontier_dup_swap"
  unfolding frontier_dup_swap_def table_safe_def list.pred_inject case_prod_conv
  by (intro conjI Swap_op Dup_op) (simp_all add: opcode_defs)

lemma frontier_log_system_safe:
  assumes "setting sz n env ri"
  shows "table_safe sz n env ri frontier_log_system"
  unfolding frontier_log_system_def table_safe_def list.pred_inject case_prod_conv
  by (intro conjI op_flags Log_op return_op op_memory [OF Create_exec_ok memory_gas_ok(4)]
      op_memory [OF Call_exec_ok call_gas_ok] op_memory [OF CallCode_exec_ok callcode_gas_ok] assms)
    (simp_all add: opcode_defs)

lemma homestead_safe:
  assumes "setting sz n env ri"
  shows "op_safe sz n env ri DELEGATECALL
    ((mk_operation opDelegateCall gasDelegateCall (makeStackFunc 6 1))\<lparr>memorySize := Some memoryDelegateCall, returns := True\<rparr>)"
  by (intro op_flags op_memory [OF DelegateCall_exec_ok plain_call_gas_ok(1)] assms) (simp_all add: opcode_defs)

lemma byzantium_safe:
  assumes "setting sz n env ri"
  shows "table_safe sz n env ri
    [
      (STATICCALL, (mk_operation opStaticCall gasStaticCall (makeStackFunc 6 1))\<lparr>memorySize := Some memoryStaticCall, returns := True\<rparr>),
      (RETURNDATASIZE, mk_operation opReturnDataSize (constGasFunc GasQuickStep) (makeStackFunc 0 1)),
      (RETURNDATACOPY, (mk_operation opReturnDataCopy gasReturnDataCopy (makeStackFunc 3 0))\<lparr>memorySize := Some memoryReturnDataCopy\<rparr>),
      (REVERT, (mk_operation opRevert gasRevert (makeStackFunc 2 0))\<lparr>memorySize := Some memoryRevert, reverts := True, returns := True\<rparr>)]"
  unfolding table_safe_def list.pred_inject case_prod_conv
  by (intro conjI op_flags const_op environment_exec_ok return_op op_memory [OF StaticCall_exec_ok plain_call_gas_ok(2)]
      op_memory [OF ReturnDataCopy_exec_ok memory_gas_ok(8)] assms)
    (simp_all add: gas_constants opcode_defs)

lemma JumpTable_safe:
  assumes "setting sz n env ri" "\<not> IsConstantinople (chainConfig env) (BlockNumber (ctx env))"
  shows "table_safe sz n env ri (JumpTable_for env)"
proof -
  have r: "\<not> rules_IsConstantinople (chainRules env)" using assms(2) by (simp add: chainRules_def ChainConfig_Rules_def)
  have f: "table_safe sz n env ri frontierInstructionSet"
    unfolding frontierInstructionSet_def table_safe_append
    by (intro conjI frontier_arithmetic_safe frontier_environment_safe frontier_storage_push_safe frontier_push_dup_safe
        frontier_dup_swap_safe frontier_log_system_safe assms(1) r)
  then have h: "table_safe sz n env ri homesteadInstructionSet"
    using homestead_safe [OF assms(1)] by (simp add: homesteadInstructionSet_def table_safe_def)
  then have "table_safe sz n env ri byzantiumInstructionSet"
    unfolding byzantiumInstructionSet_def table_safe_append using byzantium_safe [OF assms(1)] by blast
  with f h show ?thesis using assms(2) by (simp add: JumpTable_for_def)
qed

end
