(* ===== verification/VM_Interpreter.thy ===== *)
theory VM_Interpreter
  imports VM_JumpTable
begin

text \<open>
  \<^verbatim>\<open>core/vm/interpreter.go\<close>: the main loop of the virtual machine.

  \<open>step\<close> is one iteration of the loop after the abort flag was read; \<open>run_loop\<close> iterates it.  Every
  instruction after which the loop continues costs at least one unit of gas in the end, so the loop
  makes at most as many iterations as the contract has gas, plus one; this is the fuel that \<open>Run\<close>
  gives it, and \<^theory_text>\<open>VM_Safety\<close> shows that it is never exhausted.  \<open>interp_n\<close> ties the knot of nested
  calls: the call depth is limited to 1024, so \<open>max_levels\<close> nested interpreters are enough, which is
  shown there too.
\<close>

datatype outcome = Continue frame | Stopped bytes "vmerr option" frame

definition enforceRestrictions :: "Env \<Rightarrow> OpCode \<Rightarrow> operation \<Rightarrow> frame \<Rightarrow> vmerr option option" where
  "enforceRestrictions env op operation f =
     (if rules_IsByzantium (chainRules env) \<and> readOnly (f_evm f) then
        if writes operation then Some (Some errWriteProtection)
        else if op = CALL then
          do { v \<leftarrow> stack_Back (f_stack f) 2;
               Some (if BitLen v > 0 then Some errWriteProtection else None) }
        else Some None
      else Some None)"

text \<open>The memory size an operation needs, in bytes rounded up to words, or an overflow.\<close>

definition memory_demand :: "operation \<Rightarrow> frame \<Rightarrow> (vmerr + uint64) option" where
  "memory_demand operation f =
     (case memorySize operation of
        None \<Rightarrow> Some (Inr 0)
      | Some ms \<Rightarrow>
          do { need \<leftarrow> ms (f_stack f);
               let (memSize, overflow) = bigUint64 need;
               if overflow then Some (Inl errGasUintOverflow)
               else
                 let (msz, overflow) = SafeMul (toWordSize memSize) 32 in
                 Some (if overflow then Inl errGasUintOverflow else Inr msz) })"

text \<open>Charging the gas and growing the memory; an error of the gas function is out of gas too.\<close>

definition charge :: "Env \<Rightarrow> operation \<Rightarrow> uint64 \<Rightarrow> frame \<Rightarrow> (bool \<times> frame) option" where
  "charge env operation msz f =
     do { (cost, f) \<leftarrow> gasCost operation env msz f;
          (case cost of
             Inl _ \<Rightarrow> Some (False, f)
           | Inr cost \<Rightarrow>
               let (ok, contract) = UseGas cost (f_contract f);
                   f = f\<lparr>f_contract := contract\<rparr> in
               if \<not> ok then Some (False, f)
               else Some (True, if msz > 0 then f\<lparr>f_memory := mem_Resize msz (f_memory f)\<rparr> else f)) }"

text \<open>What the loop does with the result of an executed operation.\<close>

definition conclude :: "operation \<Rightarrow> bytes \<times> vmerr option \<times> frame \<Rightarrow> outcome" where
  "conclude operation r =
     (let (res, err, f) = r;
          f = (if returns operation then f\<lparr>f_evm := (f_evm f)\<lparr>returnData := res\<rparr>\<rparr> else f)
      in if err \<noteq> None then Stopped [] err f
         else if reverts operation then Stopped res (Some errExecutionReverted) f
         else if halts operation then Stopped res None f
         else if \<not> jumps operation then Continue (f\<lparr>f_pc := f_pc f + 1\<rparr>)
         else Continue f)"

definition step :: "Env \<Rightarrow> interp \<Rightarrow> frame \<Rightarrow> outcome option" where
  "step env ri f =
     (let op = GetOp (f_contract f) (f_pc f);
          operation = lookup_op (JumpTable_for env) op in
      if \<not> valid operation then Some (Stopped [] (Some (errInvalidOpcode op)) f)
      else
        case validateStack operation (f_stack f) of
          Some err \<Rightarrow> Some (Stopped [] (Some err) f)
        | None \<Rightarrow>
            do { restricted \<leftarrow> enforceRestrictions env op operation f;
                 (case restricted of
                    Some err \<Rightarrow> Some (Stopped [] (Some err) f)
                  | None \<Rightarrow>
                      do { demand \<leftarrow> memory_demand operation f;
                           (case demand of
                              Inl err \<Rightarrow> Some (Stopped [] (Some err) f)
                            | Inr msz \<Rightarrow>
                                do { (paid, f) \<leftarrow> charge env operation msz f;
                                     if \<not> paid then Some (Stopped [] (Some ErrOutOfGas) f)
                                     else
                                       do { r \<leftarrow> execute operation env ri f;
                                            Some (conclude operation r) } }) }) })"

text \<open>One load of the abort flag.\<close>

definition tick :: "frame \<Rightarrow> frame" where
  "tick f = f\<lparr>f_evm := (f_evm f)\<lparr>clock := clock (f_evm f) + 1\<rparr>\<rparr>"

fun run_loop :: "Env \<Rightarrow> interp \<Rightarrow> nat \<Rightarrow> frame \<Rightarrow> (bytes \<times> vmerr option \<times> frame) option" where
  "run_loop env ri 0 f = None"
| "run_loop env ri (Suc fuel) f =
     (if cancelled env (clock (f_evm f)) then Some ([], None, tick f)
      else
        case step env ri (tick f) of
          None \<Rightarrow> None
        | Some (Stopped ret err f) \<Rightarrow> Some (ret, err, f)
        | Some (Continue f) \<Rightarrow> run_loop env ri fuel f)"

definition enter :: "bool \<Rightarrow> EVM \<Rightarrow> EVM" where
  "enter ro e = e\<lparr>depth := depth e + 1, readOnly := readOnly e \<or> ro, returnData := []\<rparr>"

definition leave :: "bool \<Rightarrow> bool \<Rightarrow> EVM \<Rightarrow> EVM" where
  "leave ro was_readOnly e =
     e\<lparr>depth := depth e - 1, readOnly := (if ro \<and> \<not> was_readOnly then False else readOnly e)\<rparr>"

definition new_frame :: "Contract \<Rightarrow> bytes \<Rightarrow> EVM \<Rightarrow> frame" where
  "new_frame contract input e =
     \<lparr>f_pc = 0, f_evm = e, f_contract = contract\<lparr>Input := input\<rparr>, f_memory = NewMemory, f_stack = newstack\<rparr>"

definition Run :: "Env \<Rightarrow> interp \<Rightarrow> interp" where
  "Run env ri contract input ro e =
     (let was = readOnly e; e = enter ro e in
      if Code contract = [] then Some ([], None, contract, leave ro was e)
      else
        do { (ret, err, f) \<leftarrow> run_loop env ri (Suc (unat (Gas contract))) (new_frame contract input e);
             Some (ret, err, f_contract f, leave ro was (f_evm f)) })"

fun interp_n :: "Env \<Rightarrow> nat \<Rightarrow> interp" where
  "interp_n env 0 = (\<lambda>contract input ro e. None)"
| "interp_n env (Suc n) = Run env (interp_n env n)"

definition max_levels :: nat where "max_levels = 1025"

definition evm_interp :: "Env \<Rightarrow> interp" where
  "evm_interp env = interp_n env max_levels"

section \<open>The entry points of the EVM\<close>

definition Call :: "Env \<Rightarrow> ContractRef \<Rightarrow> Address \<Rightarrow> bytes \<Rightarrow> uint64 \<Rightarrow> int \<Rightarrow> EVM \<Rightarrow> call_result" where
  "Call env clr addr input gas value e = EVM_Call env (evm_interp env) clr addr input gas value e"

definition Create :: "Env \<Rightarrow> ContractRef \<Rightarrow> bytes \<Rightarrow> uint64 \<Rightarrow> int \<Rightarrow> EVM \<Rightarrow> create_result" where
  "Create env clr code gas value e = EVM_Create env (evm_interp env) clr code gas value e"

end
