(* ===== verification/Safety_Run.thy ===== *)
theory Safety_Run
  imports Safety_Table VM_Interpreter
begin

text \<open>
  Safety of the interpreter: the loop keeps the invariant of its frame, every iteration after which it
  continues costs gas, hence the loop ends before its fuel does; and since every nested call is one level
  deeper and the depth is limited, the nesting ends too.  No run panics.
\<close>

section \<open>Validation and payment\<close>

lemma validated:
  assumes "makeStackFunc k h st = None"
  shows "k \<le> length st" "length st - k + h \<le> 1024"
  using assms by (auto simp: makeStackFunc_def stack_require_def StackLimit_def split: if_splits)

lemma bigUint64_fits:
  assumes "0 \<le> need" "\<not> snd (bigUint64 need)"
  shows "nat need = unat (fst (bigUint64 need))"
  using assms by (simp add: bigUint64_def not_less BitLen_le_iff unat_Uint64)

lemma toWordSize_covers: "unat w \<le> unat (toWordSize w) * 32"
proof (cases "w > MaxUint64 - 31")
  case True
  then show ?thesis using unsigned_less [of w, where ?'a = nat] by (simp add: toWordSize_def MaxUint64_def)
next
  case False
  then have "unat w + 31 < 2 ^ 64" by (simp add: MaxUint64_def word_less_nat_alt)
  then have "unat (w + 31) = unat w + 31" by (simp add: unat_word_ariths)
  then show ?thesis using False by (simp add: toWordSize_def unat_div)
qed

lemma memory_demand_safe:
  assumes "mem_total (memorySize o') k" "k \<le> length (f_stack f)" "nonneg (f_stack f)"
  shows "\<exists>d. memory_demand o' f = Some d \<and>
     (\<forall>msz. d = Inr msz \<longrightarrow> (memorySize o' = None \<longrightarrow> msz = 0) \<and>
        (\<forall>ms. memorySize o' = Some ms \<longrightarrow> (\<exists>need \<ge> 0. ms (f_stack f) = Some need \<and> nat need \<le> unat msz)))"
proof (cases "memorySize o'")
  case (Some ms)
  then obtain need where n: "0 \<le> need" "ms (f_stack f) = Some need" using assms by (auto simp: mem_total_def)
  let ?w = "fst (bigUint64 need)"
  have "nat need \<le> unat msz" if "\<not> snd (bigUint64 need)" "\<not> snd (SafeMul (toWordSize ?w) 32)"
    "msz = fst (SafeMul (toWordSize ?w) 32)" for msz
    using bigUint64_fits [OF n(1) that(1)] SafeMul_no_overflow [OF that(2)] toWordSize_covers [of ?w] that(3) by simp
  then show ?thesis using Some n by (auto simp: memory_demand_def case_prod_beta Let_def)
qed (simp add: memory_demand_def)

lemma mem_Resize_length:
  assumes "length (store m) < 2 ^ 63"
  shows "length (store (mem_Resize msz m)) = max (length (store m)) (unat msz)"
proof -
  have l: "unat (of_nat (length (store m)) :: uint64) = length (store m)" using assms by (intro unat_of_nat_small) simp
  show ?thesis
  proof (cases "of_nat (length (store m)) < msz")
    case True
    then have "unat (msz - of_nat (length (store m))) = unat msz - length (store m)"
      by (simp add: unat_sub l less_imp_le)
    with True show ?thesis by (simp add: mem_Resize_def mem_Len_def word_less_nat_alt l)
  qed (simp add: mem_Resize_def mem_Len_def word_less_nat_alt l)
qed

text \<open>What paying for an instruction leaves: the price was at least its lower bound, and the memory has grown.\<close>

definition paid_for :: "(Hash \<Rightarrow> nat) \<Rightarrow> (frame \<Rightarrow> nat) \<Rightarrow> uint64 \<Rightarrow> frame \<Rightarrow> frame \<Rightarrow> bool" where
  "paid_for sz low msz f f2 \<longleftrightarrow>
     rest_ok sz f2 \<and> evm_next sz (f_evm f) (f_evm f2) \<and> f_stack f2 = f_stack f \<and> f_pc f2 = f_pc f \<and>
     unat msz \<le> length (store (f_memory f2)) \<and>
     (\<exists>f1. f_evm f1 = f_evm f2 \<and> f_stack f1 = f_stack f2 \<and>
        low f1 + unat (Gas (f_contract f2)) \<le> unat (Gas (f_contract f)))"

lemma charge_safe:
  assumes g: "gas_ok sz env (gasCost o') k uses low" and k: "k \<le> length (f_stack f)" and f: "rest_ok sz f"
    and m: "uses \<or> msz = 0"
  shows "\<exists>b f2. charge env o' msz f = Some (b, f2) \<and> evm_next sz (f_evm f) (f_evm f2) \<and>
     unat (Gas (f_contract f2)) \<le> unat (Gas (f_contract f)) \<and> (b \<longrightarrow> paid_for sz low msz f f2)"
proof -
  have "priced sz low msz f (gasCost o' env msz f)" using g k f m by (auto simp: gas_ok_def)
  then obtain c f1 where c: "gasCost o' env msz f = Some (c, f1)" and s: "same_but_state sz f f1"
    and low: "\<And>g. c = Inr g \<Longrightarrow> low f1 \<le> unat g \<and> unat msz < max_size"
    unfolding priced_def by blast
  have f1: "rest_ok sz f1" using same_rest_ok [OF f s] .
  have e: "evm_next sz (f_evm f) (f_evm f1)" "f_contract f1 = f_contract f" "f_stack f1 = f_stack f" "f_pc f1 = f_pc f"
    using s by (simp_all add: same_but_state_def)
  show ?thesis
  proof (cases c)
    case (Inl err)
    then show ?thesis using c e by (intro exI [of _ False]) (simp add: charge_def)
  next
    case (Inr g)
    show ?thesis
    proof (cases "Gas (f_contract f1) < g")
      case True
      then show ?thesis using c e Inr by (intro exI [of _ False]) (simp add: charge_def UseGas_def)
    next
      case False
      define f2 where "f2 = f1\<lparr>f_contract := (f_contract f1)\<lparr>Gas := Gas (f_contract f1) - g\<rparr>\<rparr>"
      define m2 where "m2 = (if msz > 0 then mem_Resize msz (f_memory f1) else f_memory f1)"
      have gas: "unat (Gas (f_contract f1) - g) + unat g = unat (Gas (f_contract f1))"
        using False by (simp add: unat_sub not_less word_le_nat_alt)
      have 2: "rest_ok sz f2" unfolding f2_def
        using gas contract_okD(4) [OF rest_okD(2) [OF f1]] by (intro rest_ok_gas [OF f1]) simp
      have l: "length (store (f_memory f1)) < max_size" using f1 by (simp add: rest_ok_def)
      then have len: "length (store m2) = max (length (store (f_memory f1))) (unat msz)"
        using mem_Resize_length [of "f_memory f1" msz] by (simp add: m2_def max_size_def word_neq_0_conv [symmetric])
      have "rest_ok sz (f2\<lparr>f_memory := m2\<rparr>)" using 2 len l low [OF Inr] by (simp add: rest_ok_def f2_def)
      then have "paid_for sz low msz f (f2\<lparr>f_memory := m2\<rparr>)"
        unfolding paid_for_def using e gas low [OF Inr] len by (auto simp: f2_def intro!: exI [of _ f1])
      moreover have "charge env o' msz f = Some (True, f2\<lparr>f_memory := m2\<rparr>)"
        using c Inr False by (simp add: charge_def UseGas_def f2_def m2_def)
      ultimately show ?thesis using e gas by (auto simp: f2_def)
    qed
  qed
qed

section \<open>One iteration\<close>

text \<open>The invariant of the loop, and what one iteration makes of it.\<close>

definition loop_ok :: "(Hash \<Rightarrow> nat) \<Rightarrow> nat \<Rightarrow> frame \<Rightarrow> bool" where
  "loop_ok sz n f \<longleftrightarrow>
     frame_ok sz f \<and> unat (f_pc f) < 2 * max_size \<and> length (f_stack f) \<le> 1024 \<and> 1025 \<le> depth (f_evm f) + n"

definition outcome_ok :: "(Hash \<Rightarrow> nat) \<Rightarrow> nat \<Rightarrow> frame \<Rightarrow> outcome \<Rightarrow> bool" where
  "outcome_ok sz n f out \<longleftrightarrow>
     (case out of
        Stopped ret err f' \<Rightarrow>
          evm_next sz (f_evm f) (f_evm f') \<and> unat (Gas (f_contract f')) \<le> unat (Gas (f_contract f)) \<and> length ret < max_size
      | Continue f' \<Rightarrow>
          loop_ok sz n f' \<and> evm_next sz (f_evm f) (f_evm f') \<and> unat (Gas (f_contract f')) < unat (Gas (f_contract f)))"

lemma stopped_ok: "frame_ok sz f \<Longrightarrow> outcome_ok sz n f (Stopped [] err f)"
  by (simp add: outcome_ok_def frame_ok_def rest_ok_def max_size_def)

lemma return_data_next:
  assumes "evm_next sz e e'" "length res < max_size"
  shows "evm_next sz e (if b then e'\<lparr>returnData := res\<rparr> else e')"
  using assms by (simp add: evm_next_def evm_ok_def)

lemma return_data_frame_ok:
  "frame_ok sz f \<Longrightarrow> length res < max_size \<Longrightarrow> frame_ok sz (f\<lparr>f_evm := (f_evm f)\<lparr>returnData := res\<rparr>\<rparr>)"
  by (simp add: frame_ok_def rest_ok_def evm_ok_def)

lemma conclude_safe:
  assumes p: "post sz extra height f2 (Some r)" and n: "evm_next sz (f_evm f) (f_evm f2)"
    and gas: "unat (Gas (f_contract f2)) + extra \<le> unat (Gas (f_contract f))"
    and go: "\<not> halts o' \<Longrightarrow> \<not> reverts o' \<Longrightarrow> unat (Gas (f_contract f2)) + extra < unat (Gas (f_contract f)) \<and> unat (f_pc f2) < max_size"
    and h: "height \<le> 1024" and d: "1025 \<le> depth (f_evm f) + n"
  shows "outcome_ok sz n f (conclude o' r)"
proof -
  obtain res err f3 where r: "r = (res, err, f3)" by (cases r)
  define f4 where "f4 = (if returns o' then f3\<lparr>f_evm := (f_evm f3)\<lparr>returnData := res\<rparr>\<rparr> else f3)"
  have P: "frame_ok sz f3" "evm_next sz (f_evm f2) (f_evm f3)" "length res < max_size"
    "unat (Gas (f_contract f3)) \<le> unat (Gas (f_contract f2)) + extra" "err = None \<Longrightarrow> length (f_stack f3) = height"
    "unat (f_pc f3) \<le> max (unat (f_pc f2)) max_size + 32"
    using p by (auto simp: post_def r)
  have 4: "frame_ok sz f4" "f_contract f4 = f_contract f3" "f_stack f4 = f_stack f3" "f_pc f4 = f_pc f3"
    using P(1,3) by (simp_all add: f4_def return_data_frame_ok)
  have e4: "evm_next sz (f_evm f) (f_evm f4)"
    using evm_next_trans [OF n return_data_next [OF P(2,3), of "returns o'"]] by (auto simp: f4_def split: if_splits)
  have c: "conclude o' r = (if err \<noteq> None then Stopped [] err f4
      else if reverts o' then Stopped res (Some errExecutionReverted) f4
      else if halts o' then Stopped res None f4
      else if \<not> jumps o' then Continue (f4\<lparr>f_pc := f_pc f4 + 1\<rparr>) else Continue f4)"
    by (simp add: conclude_def r f4_def)
  have "unat (f_pc f4 + 1) \<le> unat (f_pc f4) + 1" by (simp add: unat_word_ariths)
  moreover have "depth (f_evm f4) = depth (f_evm f)" using e4 by (rule evm_nextD)
  ultimately have "loop_ok sz n (f4\<lparr>f_pc := pc\<rparr>)"
    if "err = None" "\<not> halts o'" "\<not> reverts o'" "pc = f_pc f4 \<or> pc = f_pc f4 + 1" for pc
    using that 4 P(5,6) go h d by (auto simp: loop_ok_def frame_ok_def rest_ok_def max_size_def)
  from this [of "f_pc f4", simplified] this [of "f_pc f4 + 1", simplified] show ?thesis
    unfolding c using e4 4(2) P(3,4) gas go by (auto simp: outcome_ok_def max_size_def)
qed

lemma GetOp_end: "GetOp c pc \<noteq> STOP \<Longrightarrow> contract_ok sz c \<Longrightarrow> unat pc < max_size"
  by (auto simp: GetOp_def GetByte_def STOP_def contract_ok_def split: if_splits)

lemma execute_safe:
  assumes s: "op_shape sz n env ri op o' k h extra low" and f: "loop_ok sz n f"
    and op: "op = GetOp (f_contract f) (f_pc f)" and v: "makeStackFunc k h (f_stack f) = None"
    and m: "\<And>ms. memorySize o' = Some ms \<Longrightarrow> \<exists>need \<ge> 0. ms (f_stack f) = Some need \<and> nat need \<le> unat msz"
    and p: "paid_for sz low msz f f2"
  shows "\<exists>r. execute o' env ri f2 = Some r \<and> outcome_ok sz n f (conclude o' r)"
proof -
  note V = validated [OF v]
  define args where "args = take k (f_stack f)"
  define st where "st = drop k (f_stack f)"
  from p obtain f1 where f1: "f_evm f1 = f_evm f2" "f_stack f1 = f_stack f2" "low f1 + unat (Gas (f_contract f2)) \<le> unat (Gas (f_contract f))"
    and f2: "rest_ok sz f2" "evm_next sz (f_evm f) (f_evm f2)" "f_stack f2 = f_stack f" "f_pc f2 = f_pc f"
      "unat msz \<le> length (store (f_memory f2))"
    by (auto simp: paid_for_def)
  have st: "f2 = on_stack (args @ st) f2" "length args = k" using V(1) f2(3) by (simp_all add: args_def st_def on_stack_def)
  have nn: "nonneg args" "nonneg st" using f by (auto simp: loop_ok_def frame_ok_def nonneg_def args_def st_def dest: in_set_takeD in_set_dropD)
  have low: "low = exceeds extra \<or> (halts o' \<or> reverts o') \<and> extra = no_extra" and "reads_evm extra"
    and ex: "exec_ok sz n env ri (execute o') k h (memorySize o') extra"
    using s by (simp_all add: op_shape_def)
  then have "extra f1 = extra f2" using f1(1,2) unfolding reads_evm_def by blast
  then have gas: "unat (Gas (f_contract f2)) + extra f2 \<le> unat (Gas (f_contract f))"
    "\<not> halts o' \<Longrightarrow> \<not> reverts o' \<Longrightarrow> unat (Gas (f_contract f2)) + extra f2 < unat (Gas (f_contract f))"
    using low f1(3) by (auto simp: exceeds_def no_extra_def)
  have f0: "contract_ok sz (f_contract f)" "unat (f_pc f) < 2 * max_size" "1025 \<le> depth (f_evm f) + n"
    using f by (auto simp: loop_ok_def frame_ok_def rest_ok_def)
  have "mem_ready (memorySize o') (on_stack (args @ st) f2)"
    unfolding st(1) [symmetric] using m f2(3,5) by (fastforce simp: mem_ready_def split: option.split)
  moreover have "unat (Gas (f_contract f2)) + extra (on_stack (args @ st) f2) < 2 ^ 62"
    unfolding st(1) [symmetric] using gas(1) contract_okD(4) [OF f0(1)] by simp
  moreover have "1025 \<le> depth (f_evm f2) + n" using evm_nextD(4) [OF f2(2)] f0(3) by simp
  ultimately have post: "post sz (extra f2) (length st + h) f2 (execute o' env ri f2)"
    using ex f2 f0(2) st nn unfolding exec_ok_def by metis
  then obtain r where r: "execute o' env ri f2 = Some r" by (auto simp: post_def)
  have "op \<noteq> STOP" if "\<not> halts o'" using s that by (auto simp: op_shape_def)
  then have pc: "unat (f_pc f2) < max_size" if "\<not> halts o'" using that GetOp_end f0(1) f2(4) op by metis
  have "outcome_ok sz n f (conclude o' r)"
    using post [unfolded r] f2(2) gas(1)
  proof (rule conclude_safe)
    show "length st + h \<le> 1024" using V by (simp add: st_def)
  qed (use gas(2) pc f0(3) in auto)
  with r show ?thesis by blast
qed

lemma enforceRestrictions_safe:
  "(op = CALL \<Longrightarrow> 3 \<le> length (f_stack f)) \<Longrightarrow> \<exists>r. enforceRestrictions env op o' f = Some r"
  by (auto simp: enforceRestrictions_def stack_Back_def)

lemma step_safe:
  assumes set: "setting sz n env ri" and fork: "\<not> IsConstantinople (chainConfig env) (BlockNumber (ctx env))"
    and f: "loop_ok sz n f"
  shows "\<exists>out. step env ri f = Some out \<and> outcome_ok sz n f out"
proof -
  define op where "op = GetOp (f_contract f) (f_pc f)"
  define o' where "o' = lookup_op (JumpTable_for env) op"
  have fr: "frame_ok sz f" "rest_ok sz f" "nonneg (f_stack f)" using f by (simp_all add: loop_ok_def frame_ok_def)
  note stopped = stopped_ok [OF fr(1)]
  show ?thesis
  proof (cases "valid o'")
    case True
    then obtain k h extra low where s: "op_shape sz n env ri op o' k h extra low"
      using table_safe_lookup [OF JumpTable_safe [OF set fork]] unfolding o'_def op_safe_def by blast
    then have vs: "validateStack o' = makeStackFunc k h" and mt: "mem_total (memorySize o') k"
      and g: "gas_ok sz env (gasCost o') k (memorySize o' \<noteq> None) low"
      by (simp_all add: op_shape_def)
    show ?thesis
    proof (cases "makeStackFunc k h (f_stack f)")
      case None
      note V = validated [OF None]
      obtain rs where rs: "enforceRestrictions env op o' f = Some rs"
        using enforceRestrictions_safe [of op f env o'] s V(1) by (auto simp: op_shape_def)
      from memory_demand_safe [OF mt V(1) fr(3)] obtain d where d: "memory_demand o' f = Some d"
        "\<And>msz. d = Inr msz \<Longrightarrow> memorySize o' = None \<Longrightarrow> msz = 0"
        "\<And>msz ms. d = Inr msz \<Longrightarrow> memorySize o' = Some ms \<Longrightarrow> \<exists>need \<ge> 0. ms (f_stack f) = Some need \<and> nat need \<le> unat msz"
        by auto
      show ?thesis
      proof (cases "rs = None \<and> (\<exists>msz. d = Inr msz)")
        case True
        then obtain msz where msz: "d = Inr msz" "rs = None" by blast
        from charge_safe [OF g V(1) fr(2), of msz] d(2) [OF msz(1)] obtain b f2 where
          c: "charge env o' msz f = Some (b, f2)" "evm_next sz (f_evm f) (f_evm f2)"
            "unat (Gas (f_contract f2)) \<le> unat (Gas (f_contract f))" "b \<Longrightarrow> paid_for sz low msz f f2"
          by auto
        show ?thesis
        proof (cases b)
          case True
          have "\<exists>r. execute o' env ri f2 = Some r \<and> outcome_ok sz n f (conclude o' r)"
            by (rule execute_safe [OF s f op_def None _ c(4) [OF True]]) (rule d(3) [OF msz(1)])
          then show ?thesis using \<open>valid o'\<close> vs None rs d(1) msz c(1) True
            by (auto simp: step_def op_def [symmetric] o'_def [symmetric] Let_def)
        next
          case False
          then show ?thesis using \<open>valid o'\<close> vs None rs d(1) msz c
            by (auto simp: step_def op_def [symmetric] o'_def [symmetric] Let_def outcome_ok_def max_size_def)
        qed
      next
        case False
        then show ?thesis using \<open>valid o'\<close> vs None rs d(1) stopped
          by (cases rs; cases d) (auto simp: step_def op_def [symmetric] o'_def [symmetric] Let_def)
      qed
    qed (use True vs stopped in \<open>simp add: step_def op_def [symmetric] o'_def [symmetric] Let_def\<close>)
  qed (use stopped in \<open>simp add: step_def op_def [symmetric] o'_def [symmetric] Let_def\<close>)
qed

end
