(* ===== verification/VM_Safety.thy ===== *)
theory VM_Safety
  imports Safety_Run
begin

text \<open>
  The virtual machine is safe.  The theory ties the invariants of one iteration together: the loop ends
  within its gas, the nesting within the depth limit, and so every message call and every contract
  creation returns, without a panic, with at most the gas it was given.
\<close>

section \<open>The loop\<close>

lemma tick_loop_ok: "loop_ok sz n f \<Longrightarrow> loop_ok sz n (tick f)"
  by (simp add: loop_ok_def tick_def frame_ok_def rest_ok_def evm_ok_def)

lemma tick_next: "loop_ok sz n f \<Longrightarrow> evm_next sz (f_evm f) (f_evm (tick f))"
  by (simp add: loop_ok_def tick_def frame_ok_def rest_ok_def evm_next_def evm_ok_def)

lemma tick_contract [simp]: "f_contract (tick f) = f_contract f"
  by (simp add: tick_def)

lemma run_loop_safe:
  assumes set: "setting sz n env ri" and fork: "\<not> IsConstantinople (chainConfig env) (BlockNumber (ctx env))"
    and f: "loop_ok sz n f" and fuel: "unat (Gas (f_contract f)) < fuel"
  shows "\<exists>ret err f'. run_loop env ri fuel f = Some (ret, err, f') \<and> evm_next sz (f_evm f) (f_evm f') \<and>
     unat (Gas (f_contract f')) \<le> unat (Gas (f_contract f)) \<and> length ret < max_size"
  using f fuel
proof (induction fuel arbitrary: f)
  case (Suc fuel)
  show ?case
  proof (cases "cancelled env (clock (f_evm f))")
    case True
    then show ?thesis using tick_next [OF Suc.prems(1)] by (simp add: max_size_def)
  next
    case False
    from step_safe [OF set fork tick_loop_ok [OF Suc.prems(1)]] obtain out where
      out: "step env ri (tick f) = Some out" "outcome_ok sz n (tick f) out" by blast
    show ?thesis
    proof (cases out)
      case (Stopped ret err f')
      then show ?thesis using out False evm_next_trans [OF tick_next [OF Suc.prems(1)]] by (simp add: outcome_ok_def)
    next
      case (Continue f')
      then have n: "loop_ok sz n f'" "evm_next sz (f_evm (tick f)) (f_evm f')" "unat (Gas (f_contract f')) < unat (Gas (f_contract f))"
        using out(2) by (simp_all add: outcome_ok_def)
      then obtain ret err f'' where r: "run_loop env ri fuel f' = Some (ret, err, f'')" "evm_next sz (f_evm f') (f_evm f'')"
        "unat (Gas (f_contract f'')) \<le> unat (Gas (f_contract f'))" "length ret < max_size"
        using Suc.IH [OF n(1)] Suc.prems(2) by fastforce
      have "evm_next sz (f_evm f) (f_evm f'')"
        using evm_next_trans [OF tick_next [OF Suc.prems(1)] evm_next_trans [OF n(2) r(2)]] .
      then show ?thesis using r n(3) out(1) False Continue by simp
    qed
  qed
qed simp

section \<open>Nested runs\<close>

lemma enter_ok: "evm_ok sz e \<Longrightarrow> evm_ok sz (enter ro e)"
  by (simp add: enter_def evm_ok_def max_size_def)

lemma leave_next:
  assumes "evm_ok sz e" "evm_next sz (enter ro e) e'"
  shows "evm_next sz e (leave ro (readOnly e) e')"
  using assms by (auto simp: enter_def leave_def evm_next_def evm_ok_def)

lemma new_frame_ok:
  assumes "contract_ok sz c" "length input < max_size" "evm_ok sz e" "1025 \<le> depth e + n"
  shows "loop_ok sz n (new_frame c input e)"
  using assms
  by (simp add: loop_ok_def new_frame_def frame_ok_def rest_ok_def contract_ok_def NewMemory_def newstack_def max_size_def)

lemma Run_safe:
  assumes set: "setting sz n env ri" and fork: "\<not> IsConstantinople (chainConfig env) (BlockNumber (ctx env))"
  shows "interp_ok sz (Suc n) (Run env ri)"
  unfolding interp_ok_def
proof (intro allI impI)
  fix c ro and input :: bytes and e :: EVM
  assume c: "contract_ok sz c" and i: "length input < max_size" and e: "evm_ok sz e" and d: "1025 \<le> depth e + Suc n"
  show "\<exists>ret err c' e'. Run env ri c input ro e = Some (ret, err, c', e') \<and> evm_next sz e e' \<and>
      unat (Gas c') \<le> unat (Gas c) \<and> length ret < max_size"
  proof (cases "Code c = []")
    case True
    have "evm_next sz e (leave ro (readOnly e) (enter ro e))"
      using leave_next [OF e evm_next_refl [OF enter_ok [OF e]]] .
    then show ?thesis using True by (simp add: Run_def Let_def max_size_def)
  next
    case False
    let ?f = "new_frame c input (enter ro e)"
    have f: "loop_ok sz n ?f" using new_frame_ok [OF c i enter_ok [OF e]] d by (simp add: enter_def)
    have f0: "Gas (f_contract ?f) = Gas c" "f_evm ?f = enter ro e" by (simp_all add: new_frame_def)
    obtain ret err f' where r: "run_loop env ri (Suc (unat (Gas c))) ?f = Some (ret, err, f')"
      "evm_next sz (enter ro e) (f_evm f')" "unat (Gas (f_contract f')) \<le> unat (Gas c)" "length ret < max_size"
      using run_loop_safe [OF set fork f, of "Suc (unat (Gas c))"] unfolding f0 by auto
    then show ?thesis using False leave_next [OF e r(2)] by (simp add: Run_def Let_def)
  qed
qed

lemma interp_n_safe:
  assumes cr: "crypto_ok (crypto env)" and price: "0 \<le> GasPrice (ctx env)"
    and fork: "\<not> IsConstantinople (chainConfig env) (BlockNumber (ctx env))"
  shows "interp_ok sz n (interp_n env n)"
proof (induction n)
  case 0
  show ?case by (auto simp: interp_ok_def)
next
  case (Suc n)
  then show ?case using Run_safe [OF _ fork] cr price by (simp add: setting_def)
qed

lemma evm_interp_safe:
  assumes "crypto_ok (crypto env)" "0 \<le> GasPrice (ctx env)" "\<not> IsConstantinople (chainConfig env) (BlockNumber (ctx env))"
  shows "interp_ok sz 1025 (evm_interp env)"
  unfolding evm_interp_def max_levels_def by (rule interp_n_safe [OF assms])

section \<open>Message calls\<close>

text \<open>The environments of the theorems: a fork before Constantinople, sane primitives, a gas price.\<close>

definition env_ok :: "Env \<Rightarrow> bool" where
  "env_ok env \<longleftrightarrow>
     crypto_ok (crypto env) \<and> 0 \<le> GasPrice (ctx env) \<and> \<not> IsConstantinople (chainConfig env) (BlockNumber (ctx env))"

lemma Call_ok:
  assumes "env_ok env" "evm_ok sz e" "length input < max_size" "unat gas < 2 ^ 62" "0 \<le> v"
  shows "\<exists>r. Call env clr addr input gas v e = Some r \<and> result_ok sz e gas r"
  unfolding Call_def using assms
  by (intro EVM_Call_safe [OF _ evm_interp_safe]) (simp_all add: env_ok_def)

lemma Create_ok:
  assumes "env_ok env" "evm_ok sz e" "length code < max_size" "unat gas < 2 ^ 62" "0 \<le> v"
  shows "\<exists>r. Create env clr code gas v e = Some r \<and> create_ok sz env clr e gas r"
  unfolding Create_def using assms
  by (intro EVM_Create_safe [OF _ evm_interp_safe]) (simp_all add: env_ok_def)

text \<open>A state of the private network in which account 1 has ether and account 2 has the given code.\<close>

definition sizing_backend :: Backend where
  "sizing_backend = void_backend\<lparr>Keccak256Hash := \<lambda>bs. of_nat (length bs)\<rparr>"

definition demo_state :: "bytes \<Rightarrow> StateDB" where
  "demo_state code = SetCode (AddBalance (New sizing_backend emptyTrie) 1 1000) 2 code"

definition demo_evm :: "bytes \<Rightarrow> EVM" where
  "demo_evm code =
     \<lparr>statedb = demo_state code, depth = 0, callGasTemp = 0, readOnly = False, returnData = [], jumpdests = Map.empty, clock = 0\<rparr>"

lemma sizing_backend_ok: "backend_ok sizing_backend" "hash_sizes unat sizing_backend"
  by (simp_all add: sizing_backend_def void_backend_def backend_ok_def hash_sizes_def max_size_def take_bit_nat_eq_self unsigned_of_nat)

lemma demo_New_ok: "state_ok unat (New sizing_backend emptyTrie)"
  using sizing_backend_ok sdb_ok_New [OF sizing_backend_ok(1), of emptyTrie]
  by (simp add: state_ok_def accts_ok_def acct_view_def base_def New_def)

lemma demo_state_ok: "length code < max_size \<Longrightarrow> state_ok unat (demo_state code)"
  unfolding demo_state_def
  by (intro growsD(2) [OF SetCode_grows] growsD(2) [OF AddBalance_grows] demo_New_ok) simp

lemma demo_evm_ok: "length code < max_size \<Longrightarrow> evm_ok unat (demo_evm code)"
  by (simp add: demo_evm_def evm_ok_def demo_state_ok max_size_def)

lemma demo_world: "w_accts (world (demo_state code)) a = None" if "a \<noteq> 1" "a \<noteq> 2"
proof -
  have s: "sdb_ok (New sizing_backend emptyTrie)" by (rule sdb_ok_New [OF sizing_backend_ok(1)])
  have b: "w_accts (world (New sizing_backend emptyTrie)) a = None" by (simp add: acct_view_def base_def New_def)
  note 1 = AddBalance_correct [OF s, of 1 1000]
  have "sdb_ok (AddBalance (New sizing_backend emptyTrie) 1 1000)" using 1 evolves_ok(2) by blast
  from SetCode_correct [OF this, of 2 code] show ?thesis
    using that b 1 by (simp add: demo_state_def upd_acct_def)
qed

lemma network_env_ok: "env_ok network_env"
  using network_forks(5) [of 1]
  by (simp add: env_ok_def crypto_ok_def) (simp add: network_env_def null_crypto_def first_block_def)

text \<open>
  C2.  A message call returns.  On every fork before Constantinople, for every state that satisfies the
  invariant, every callee, value and input below 2^40 bytes and every gas limit below 2^62, \<^verbatim>\<open>EVM.Call\<close>
  returns: no instruction of the contract or of the contracts it calls or creates panics (no slice or index
  out of range, no pop of an empty stack, no revert to a missing snapshot), no loop runs longer than its gas
  allows and the nesting of calls ends.  The state satisfies the invariant again, no more gas comes back
  than was given, and the depth and the write protection are what they were.
\<close>

theorem Call_returns:
  assumes "env_ok env" and "evm_ok sz e" and "length input < max_size" and "unat gas < 2 ^ 62" and "0 \<le> v"
  shows "\<exists>ret g err e'. Call env clr addr input gas v e = Some (ret, g, err, e') \<and> evm_ok sz e' \<and>
     unat g \<le> unat gas \<and> length ret < max_size \<and> depth e' = depth e \<and> readOnly e' = readOnly e"
  using Call_ok [OF assms, of clr addr] by (auto simp: result_ok_def dest: evm_nextD)

text \<open>The contract is an endless loop: JUMPDEST, PUSH1 0, JUMP.\<close>

theorem Call_returns_witness:
  "\<exists>ret g err e'. Call network_env (AccountRef 1) 2 [] 100000 3 (demo_evm [0x5b, 0x60, 0, 0x56]) = Some (ret, g, err, e') \<and>
     evm_ok unat e' \<and> unat g \<le> 100000 \<and> length ret < max_size \<and> depth e' = 0 \<and> \<not> readOnly e'"
  using Call_returns [OF network_env_ok demo_evm_ok, of "[0x5b, 0x60, 0, 0x56]" "[]" 100000 3 "AccountRef 1" 2]
  by (simp add: max_size_def demo_evm_def)

text \<open>
  C3.  A failed call has no effect.  When \<^verbatim>\<open>EVM.Call\<close> returns an error (too deep, insufficient balance, an
  error of the callee, its revert), the accounts, their storage, the logs and the refund counter are what
  they were before the call.
\<close>

theorem failed_Call_restores:
  assumes "env_ok env" and "evm_ok sz e" and "length input < max_size" and "unat gas < 2 ^ 62" and "0 \<le> v"
    and "Call env clr addr input gas v e = Some (ret, g, Some err, e')"
  shows "world (statedb e') = world (statedb e)"
  using Call_ok [OF assms(1-5), of clr addr] assms(6) by (simp add: result_ok_def)

text \<open>Account 3 does not exist, so it cannot pay.\<close>

theorem failed_Call_restores_witness:
  "\<exists>e'. Call network_env (AccountRef 3) 2 [] 100000 5 (demo_evm []) = Some ([], 100000, Some ErrInsufficientBalance, e') \<and>
     world (statedb e') = world (demo_state [])"
proof -
  let ?e = "demo_evm []"
  have ok: "state_ok unat (demo_state [])" by (rule demo_state_ok) (simp add: max_size_def)
  have "\<not> fst (CanTransfer (demo_state []) 3 5)"
    using CanTransfer_balance [OF state_ok_sdb [OF ok], of 3 5] demo_world [of 3 "[]"]
    by (simp add: acct_or_fresh_def fresh_def)
  then have c: "Call network_env (AccountRef 3) 2 [] 100000 5 ?e =
      Some ([], 100000, Some ErrInsufficientBalance, snd (query (\<lambda>s. CanTransfer s 3 5) ?e))"
    by (simp add: Call_def EVM_Call_def network_env_def demo_evm_def query_def case_prod_beta CallCreateDepth_def)
  have "world (statedb (snd (query (\<lambda>s. CanTransfer s 3 5) ?e))) = world (statedb ?e)"
    by (rule failed_Call_restores [OF network_env_ok demo_evm_ok _ _ _ c]) (simp_all add: max_size_def)
  then show ?thesis using c by (simp add: demo_evm_def)
qed

text \<open>
  C27.  A contract creation returns, under the conditions of a call.  No more gas comes back than was given,
  and when it fails on Homestead or later, the world is as before, except for the nonce of the creator.
\<close>

theorem Create_returns:
  assumes "env_ok env" and "evm_ok sz e" and "length code < max_size" and "unat gas < 2 ^ 62" and "0 \<le> v"
    and "IsHomestead (chainConfig env) (BlockNumber (ctx env))"
  shows "\<exists>ret addr g err e'. Create env clr code gas v e = Some (ret, addr, g, err, e') \<and> evm_ok sz e' \<and>
     unat g \<le> unat gas \<and> depth e' = depth e \<and>
     (err = None \<or> world (statedb e') \<in> {world (statedb e), bump_nonce (db (statedb e)) (ref_Address clr) (world (statedb e))})"
  using Create_ok [OF assms(1-5), of clr] assms(6) by (auto simp: create_ok_def dest: evm_nextD)

theorem Create_returns_witness:
  "\<exists>ret addr g err e'. Create network_env (AccountRef 1) [0x60, 0, 0x60, 0, 0xf3] 100000 3 (demo_evm []) = Some (ret, addr, g, err, e') \<and>
     evm_ok unat e' \<and> unat g \<le> 100000"
proof -
  have "IsHomestead (chainConfig network_env) (BlockNumber (ctx network_env))" by simp
  from Create_returns [OF network_env_ok demo_evm_ok _ _ _ this, of "[]" "[0x60, 0, 0x60, 0, 0xf3]" 100000 3 "AccountRef 1"]
  show ?thesis by (auto simp: max_size_def)
qed

section \<open>The states of a run\<close>

text \<open>The frames an execution goes through, with the number of instructions executed so far.\<close>

inductive reaches :: "Env \<Rightarrow> interp \<Rightarrow> frame \<Rightarrow> nat \<Rightarrow> frame \<Rightarrow> bool" for env ri f where
  start: "reaches env ri f 0 f"
| iterate: "reaches env ri f k f1 \<Longrightarrow> step env ri (tick f1) = Some (Continue f2) \<Longrightarrow> reaches env ri f (Suc k) f2"

lemma reaches_safe:
  assumes set: "setting sz n env ri" and fork: "\<not> IsConstantinople (chainConfig env) (BlockNumber (ctx env))"
    and f: "loop_ok sz n f" and r: "reaches env ri f k f'"
  shows "loop_ok sz n f' \<and> evm_next sz (f_evm f) (f_evm f') \<and> k + unat (Gas (f_contract f')) \<le> unat (Gas (f_contract f))"
  using r
proof induction
  case start
  then show ?case using f by (simp add: loop_ok_def frame_ok_def rest_ok_def)
next
  case (iterate k f1 f2)
  then have f1: "loop_ok sz n f1" by blast
  from step_safe [OF set fork tick_loop_ok [OF f1]] iterate.hyps(2)
  have "outcome_ok sz n (tick f1) (Continue f2)" by simp
  then show ?case using iterate.IH evm_next_trans [OF tick_next [OF f1]] by (auto simp: outcome_ok_def intro: evm_next_trans)
qed

text \<open>
  C15.  The invariant of the loop.  In every state that the execution of a contract goes through, the stack
  has at most 1024 items, none of them negative; the memory is below 2^40 bytes; the read-only flag and the
  call depth are those of the start; the state of the accounts satisfies its invariant; and the instructions
  executed so far have cost at least one unit of gas each.
\<close>

theorem run_invariant:
  assumes "env_ok env" and "contract_ok sz c" and "length input < max_size" and "evm_ok sz e" and "depth e \<le> 1024"
    and "reaches env (evm_interp env) (new_frame c input (enter ro e)) k f"
  shows "length (f_stack f) \<le> 1024 \<and> nonneg (f_stack f) \<and> length (store (f_memory f)) < 2 ^ 40 \<and>
     readOnly (f_evm f) = (readOnly e \<or> ro) \<and> depth (f_evm f) = depth e + 1 \<and> state_ok sz (statedb (f_evm f)) \<and>
     k + unat (Gas (f_contract f)) \<le> unat (Gas c)"
proof -
  have "setting sz 1025 env (evm_interp env)"
    using assms(1) evm_interp_safe by (simp add: setting_def env_ok_def)
  from reaches_safe [OF this _ new_frame_ok [OF assms(2,3) enter_ok [OF assms(4)]] assms(6)]
  have "loop_ok sz 1025 f" "evm_next sz (enter ro e) (f_evm f)" "k + unat (Gas (f_contract f)) \<le> unat (Gas c)"
    using assms(1) by (simp_all add: new_frame_def env_ok_def)
  then show ?thesis
    by (auto simp: loop_ok_def frame_ok_def rest_ok_def max_size_def enter_def dest: evm_nextD evm_okD)
qed

definition demo_contract :: "bytes \<Rightarrow> Contract" where
  "demo_contract code = (NewContract (AccountRef 1) (AccountRef 2) 0 100)\<lparr>Code := code, c_CodeHash := of_nat (length code)\<rparr>"

lemma demo_contract_ok: "length code < max_size \<Longrightarrow> contract_ok unat (demo_contract code)"
  by (simp add: demo_contract_def contract_ok_def NewContract_def max_size_def unsigned_of_nat take_bit_nat_eq_self)

lemma network_lookup_JUMPDEST:
  "lookup_op (JumpTable_for network_env) 0x5b = mk_operation opJumpdest (constGasFunc JumpdestGas) (makeStackFunc 0 0)"
  by (simp add: network_table homesteadInstructionSet_def frontierInstructionSet_def frontier_arithmetic_def
      frontier_environment_def frontier_storage_push_def lookup_op_def opcode_defs map_add_def)

theorem run_invariant_witness:
  "\<exists>f. reaches network_env (evm_interp network_env) (new_frame (demo_contract [0x5b]) [] (enter False (demo_evm []))) 1 f \<and>
     length (f_stack f) \<le> 1024 \<and> depth (f_evm f) = 1 \<and> 1 + unat (Gas (f_contract f)) \<le> 100"
proof -
  let ?c = "demo_contract [0x5b]" and ?f = "new_frame (demo_contract [0x5b]) [] (enter False (demo_evm []))"
  have c: "contract_ok unat ?c" "evm_ok unat (demo_evm [])"
    by (rule demo_contract_ok demo_evm_ok; simp add: max_size_def)+
  have "\<exists>f. step network_env (evm_interp network_env) (tick ?f) = Some (Continue f)"
    by (simp add: step_def new_frame_def demo_contract_def GetOp_def GetByte_def network_lookup_JUMPDEST mk_operation_def
        tick_def makeStackFunc_def stack_require_def StackLimit_def newstack_def enforceRestrictions_def enter_def demo_evm_def
        memory_demand_def charge_def constGasFunc_def price_def UseGas_def NewContract_def JumpdestGas_def opJumpdest_def
        finish_def conclude_def Let_def opcode_defs)
  then obtain f where "step network_env (evm_interp network_env) (tick ?f) = Some (Continue f)" by blast
  then have r: "reaches network_env (evm_interp network_env) ?f 1 f"
    using reaches.iterate [OF reaches.start] by fastforce
  have "depth (demo_evm []) \<le> 1024" "length ([] :: bytes) < max_size" by (simp_all add: demo_evm_def max_size_def)
  from run_invariant [OF network_env_ok c(1) this(2) c(2) this(1) r] r show ?thesis
    by (auto simp: demo_contract_def NewContract_def demo_evm_def)
qed

lemma run_loop_more:
  "run_loop env ri k f = Some r \<Longrightarrow> k \<le> m \<Longrightarrow> run_loop env ri m f = Some r"
proof (induction k arbitrary: f m)
  case (Suc k)
  then obtain m' where m: "m = Suc m'" "k \<le> m'" by (cases m) auto
  show ?case using Suc.prems(1) Suc.IH [OF _ m(2)] by (auto simp: m(1) split: if_splits option.splits outcome.splits)
qed simp

text \<open>
  C19.  The interpreter loop ends.  With more fuel than the contract has gas, the loop returns, and how much
  more does not matter: the result is the one that \<^verbatim>\<open>Run\<close> gets.
\<close>

theorem run_loop_terminates:
  assumes "env_ok env" and "contract_ok sz c" and "length input < max_size" and "evm_ok sz e" and "depth e \<le> 1024"
    and "unat (Gas c) < fuel"
  shows "run_loop env (evm_interp env) fuel (new_frame c input (enter ro e)) \<noteq> None \<and>
     run_loop env (evm_interp env) fuel (new_frame c input (enter ro e)) =
     run_loop env (evm_interp env) (Suc (unat (Gas c))) (new_frame c input (enter ro e))"
proof -
  let ?f = "new_frame c input (enter ro e)"
  have "setting sz 1025 env (evm_interp env)" "\<not> IsConstantinople (chainConfig env) (BlockNumber (ctx env))"
    using assms(1) evm_interp_safe by (simp_all add: setting_def env_ok_def)
  from run_loop_safe [OF this new_frame_ok [OF assms(2,3) enter_ok [OF assms(4)]], of ro "Suc (unat (Gas c))"]
  obtain r where r: "run_loop env (evm_interp env) (Suc (unat (Gas c))) ?f = Some r" by (auto simp: new_frame_def)
  then show ?thesis using run_loop_more [OF r, of fuel] assms(6) by simp
qed

theorem run_loop_terminates_witness:
  "run_loop network_env (evm_interp network_env) 5000 (new_frame (demo_contract [0x5b, 0x60, 0, 0x56]) [] (enter False (demo_evm []))) \<noteq> None"
proof -
  have "contract_ok unat (demo_contract [0x5b, 0x60, 0, 0x56])" "evm_ok unat (demo_evm [])"
    by (rule demo_contract_ok demo_evm_ok; simp add: max_size_def)+
  moreover have "depth (demo_evm []) \<le> 1024" "length ([] :: bytes) < max_size"
    "unat (Gas (demo_contract [0x5b, 0x60, 0, 0x56])) < 5000"
    by (simp_all add: demo_evm_def max_size_def demo_contract_def NewContract_def)
  ultimately show ?thesis using run_loop_terminates [OF network_env_ok] by blast
qed

section \<open>Jumps\<close>

text \<open>
  C24.  A jump lands on a JUMPDEST that is an instruction and not the argument of a PUSH, or it fails with an
  invalid-jump error.  The cache of destination bitmaps stays correct, provided that the hash of the running
  code stands for that code.
\<close>

theorem jump_correct:
  assumes "dests_ok code_of_hash (jumpdests (f_evm f))" and "code_of_hash (c_CodeHash (f_contract f)) = Code (f_contract f)"
    and "0 \<le> pos" and "length (Code (f_contract f)) < 2 ^ 62"
  shows "\<exists>d. dests_ok code_of_hash d \<and>
     opJump env ri (on_stack (pos # st) f) =
       (let f' = (on_stack st f)\<lparr>f_evm := (f_evm f)\<lparr>jumpdests := d\<rparr>\<rparr> in
        if valid_jumpdest (Code (f_contract f)) pos then Some ([], None, f'\<lparr>f_pc := Uint64 pos\<rparr>)
        else Some ([], Some (errInvalidJump (GetOp (f_contract f) (Uint64 pos)) pos), f'))"
  using destinations_has_eq [OF assms] by (auto simp: opJump_def jump_to_def finish_def fails_def Let_def)

text \<open>In PUSH1 5b JUMPDEST the byte at position 1 is data, the one at position 2 is an instruction.\<close>

theorem jump_correct_witness:
  "\<exists>d. opJump network_env (evm_interp network_env) (on_stack [1] (new_frame (demo_contract [0x60, 0x5b, 0x5b]) [] (demo_evm []))) =
     Some ([], Some (errInvalidJump 0x5b 1), (new_frame (demo_contract [0x60, 0x5b, 0x5b]) [] (demo_evm []))\<lparr>f_evm := (demo_evm [])\<lparr>jumpdests := d\<rparr>\<rparr>)"
proof -
  let ?code = "[0x60, 0x5b, 0x5b] :: bytes"
  let ?f = "new_frame (demo_contract ?code) [] (demo_evm [])"
  have f: "jumpdests (demo_evm []) = Map.empty" "Code (f_contract ?f) = ?code" "f_evm ?f = demo_evm []"
    by (simp_all add: new_frame_def demo_contract_def demo_evm_def)
  have "op_start ?code (next_op ?code 0) \<and> next_op ?code 0 = 2"
    using op_start_next [OF op_start_0, of ?code] by (simp add: next_op_def push_len_def opcode_defs)
  then have "\<not> op_start ?code 1" using no_op_start_between [OF op_start_0, of 1 ?code] by simp
  then have v: "\<not> valid_jumpdest ?code 1" by (simp add: valid_jumpdest_def)
  have g: "GetOp (f_contract ?f) (Uint64 1) = 0x5b"
    by (simp add: GetOp_def GetByte_def new_frame_def demo_contract_def Uint64_def)
  have "\<exists>d. opJump network_env (evm_interp network_env) (on_stack [1] ?f) =
      Some ([], Some (errInvalidJump 0x5b 1), (on_stack [] ?f)\<lparr>f_evm := (demo_evm [])\<lparr>jumpdests := d\<rparr>\<rparr>)"
    using jump_correct [of "\<lambda>_. ?code" ?f 1 network_env "evm_interp network_env" "[]"] v
    by (auto simp: f g Let_def)
  then show ?thesis by (simp add: on_stack_def new_frame_def newstack_def)
qed

end
