(* ===== verification/Transition.thy ===== *)
theory Transition
  imports VM_Interpreter
begin

text \<open>
  \<^verbatim>\<open>core/gaspool.go\<close> and \<^verbatim>\<open>core/state_transition.go\<close>: applying a transaction.  The sender buys gas from the
  block's gas pool, the intrinsic gas is paid, the message is executed by the virtual machine, the rest
  is refunded and the fee goes to the miner.  \<^term>\<open>None\<close> is a panic.
\<close>

section \<open>Gas pool\<close>

datatype core_err =
  ErrGasLimitReached | ErrNonceTooHigh | ErrNonceTooLow | errInsufficientBalanceForGas | VMError vmerr

type_synonym GasPool = uint64

definition AddGas :: "GasPool \<Rightarrow> uint64 \<Rightarrow> GasPool option" where
  "AddGas gp amount = (if gp > MaxUint64 - amount then None else Some (gp + amount))"

definition SubGas :: "GasPool \<Rightarrow> uint64 \<Rightarrow> core_err option \<times> GasPool" where
  "SubGas gp amount = (if gp < amount then (Some ErrGasLimitReached, gp) else (None, gp - amount))"

section \<open>Messages\<close>

record Message =
  msg_From :: Address
  msg_To :: "Address option"
  msg_GasPrice :: int
  msg_Gas :: uint64
  msg_Value :: int
  msg_Nonce :: uint64
  msg_CheckNonce :: bool
  msg_Data :: bytes

record StateTransition =
  st_gp :: GasPool
  st_msg :: Message
  st_gas :: uint64
  st_gasPrice :: int
  st_initialGas :: uint64
  st_value :: int
  st_data :: bytes
  st_evm :: EVM

definition NewStateTransition :: "EVM \<Rightarrow> Message \<Rightarrow> GasPool \<Rightarrow> StateTransition" where
  "NewStateTransition e msg gp =
     \<lparr>st_gp = gp, st_msg = msg, st_gas = 0, st_gasPrice = msg_GasPrice msg, st_initialGas = 0,
      st_value = msg_Value msg, st_data = msg_Data msg, st_evm = e\<rparr>"

text \<open>The loop that counts the bytes that are not zero.\<close>

fun count_nonzero :: "uint64 \<Rightarrow> bytes \<Rightarrow> uint64" where
  "count_nonzero nz [] = nz"
| "count_nonzero nz (byt # bs) = count_nonzero (if byt \<noteq> 0 then nz + 1 else nz) bs"

definition IntrinsicGas :: "bytes \<Rightarrow> bool \<Rightarrow> bool \<Rightarrow> core_err + uint64" where
  "IntrinsicGas dat contractCreation homestead =
     (let gas = (if contractCreation \<and> homestead then TxGasContractCreation else TxGas) in
      if length dat > 0 then
        let nz = count_nonzero 0 dat in
        if (MaxUint64 - gas) div TxDataNonZeroGas < nz then Inl (VMError ErrOutOfGas)
        else
          let gas = gas + nz * TxDataNonZeroGas;
              z = of_nat (length dat) - nz in
          if (MaxUint64 - gas) div TxDataZeroGas < z then Inl (VMError ErrOutOfGas)
          else Inr (gas + z * TxDataZeroGas)
      else Inr gas)"

section \<open>The transition\<close>

definition st_state :: "StateTransition \<Rightarrow> StateDB" where
  "st_state st = statedb (st_evm st)"

definition st_query :: "(StateDB \<Rightarrow> 'a \<times> StateDB) \<Rightarrow> StateTransition \<Rightarrow> 'a \<times> StateTransition" where
  "st_query q st = (let (x, e) = query q (st_evm st) in (x, st\<lparr>st_evm := e\<rparr>))"

definition st_upd :: "(StateDB \<Rightarrow> StateDB) \<Rightarrow> StateTransition \<Rightarrow> StateTransition" where
  "st_upd u st = st\<lparr>st_evm := upd_state u (st_evm st)\<rparr>"

definition st_to :: "StateTransition \<Rightarrow> Address" where
  "st_to st = (case msg_To (st_msg st) of None \<Rightarrow> 0 | Some a \<Rightarrow> a)"

definition st_useGas :: "uint64 \<Rightarrow> StateTransition \<Rightarrow> core_err option \<times> StateTransition" where
  "st_useGas amount st =
     (if st_gas st < amount then (Some (VMError ErrOutOfGas), st) else (None, st\<lparr>st_gas := st_gas st - amount\<rparr>))"

definition gasUsed :: "StateTransition \<Rightarrow> uint64" where
  "gasUsed st = st_initialGas st - st_gas st"

definition buyGas :: "StateTransition \<Rightarrow> core_err option \<times> StateTransition" where
  "buyGas st =
     (let msg = st_msg st;
          mgval = uint (msg_Gas msg) * st_gasPrice st;
          (balance, st) = st_query (\<lambda>s. GetBalance s (msg_From msg)) st in
      if balance < mgval then (Some errInsufficientBalanceForGas, st)
      else
        case SubGas (st_gp st) (msg_Gas msg) of
          (Some err, _) \<Rightarrow> (Some err, st)
        | (None, gp) \<Rightarrow>
            (None, st_upd (\<lambda>s. SubBalance s (msg_From msg) mgval)
                     (st\<lparr>st_gp := gp, st_gas := st_gas st + msg_Gas msg, st_initialGas := msg_Gas msg\<rparr>)))"

definition preCheck :: "StateTransition \<Rightarrow> core_err option \<times> StateTransition" where
  "preCheck st =
     (let msg = st_msg st in
      if msg_CheckNonce msg then
        let (nonce, st) = st_query (\<lambda>s. GetNonce s (msg_From msg)) st in
        if nonce < msg_Nonce msg then (Some ErrNonceTooHigh, st)
        else if nonce > msg_Nonce msg then (Some ErrNonceTooLow, st)
        else buyGas st
      else buyGas st)"

definition refundGas :: "StateTransition \<Rightarrow> StateTransition option" where
  "refundGas st =
     (let refund = gasUsed st div 2;
          refund = (if refund > GetRefund (st_state st) then GetRefund (st_state st) else refund);
          st = st\<lparr>st_gas := st_gas st + refund\<rparr>;
          remaining = uint (st_gas st) * st_gasPrice st;
          st = st_upd (\<lambda>s. AddBalance s (msg_From (st_msg st)) remaining) st
      in do { gp \<leftarrow> AddGas (st_gp st) (st_gas st); Some (st\<lparr>st_gp := gp\<rparr>) })"

type_synonym transition_result = "((bytes \<times> uint64 \<times> bool \<times> core_err option) \<times> StateTransition) option"

text \<open>Executing the message: a creation, or a call after the nonce of the sender was incremented.\<close>

definition execute_message :: "Env \<Rightarrow> StateTransition \<Rightarrow> (bytes \<times> vmerr option \<times> StateTransition) option" where
  "execute_message env st =
     (let msg = st_msg st; sender = AccountRef (msg_From msg) in
      if msg_To msg = None then
        do { (ret, _, gas, vmerr, e) \<leftarrow> Create env sender (st_data st) (st_gas st) (st_value st) (st_evm st);
             Some (ret, vmerr, st\<lparr>st_gas := gas, st_evm := e\<rparr>) }
      else
        let (nonce, st) = st_query (\<lambda>s. GetNonce s (msg_From msg)) st;
            st = st_upd (\<lambda>s. SetNonce s (msg_From msg) (nonce + 1)) st
        in do { (ret, gas, vmerr, e) \<leftarrow> Call env sender (st_to st) (st_data st) (st_gas st) (st_value st) (st_evm st);
                Some (ret, vmerr, st\<lparr>st_gas := gas, st_evm := e\<rparr>) })"

definition TransitionDb :: "Env \<Rightarrow> StateTransition \<Rightarrow> transition_result" where
  "TransitionDb env st =
     (case preCheck st of
        (Some err, st) \<Rightarrow> Some (([], 0, False, Some err), st)
      | (None, st) \<Rightarrow>
          let msg = st_msg st;
              homestead = IsHomestead (chainConfig env) (BlockNumber (ctx env));
              contractCreation = (msg_To msg = None) in
          case IntrinsicGas (st_data st) contractCreation homestead of
            Inl err \<Rightarrow> Some (([], 0, False, Some err), st)
          | Inr gas \<Rightarrow>
              (case st_useGas gas st of
                 (Some err, st) \<Rightarrow> Some (([], 0, False, Some err), st)
               | (None, st) \<Rightarrow>
                   do { (ret, vmerr, st) \<leftarrow> execute_message env st;
                        if vmerr = Some ErrInsufficientBalance
                        then Some (([], 0, False, Some (VMError ErrInsufficientBalance)), st)
                        else
                          do { st \<leftarrow> refundGas st;
                               let st = st_upd (\<lambda>s. AddBalance s (Coinbase (ctx env)) (uint (gasUsed st) * st_gasPrice st)) st;
                               Some ((ret, gasUsed st, vmerr \<noteq> None, None), st) } }))"

definition ApplyMessage :: "Env \<Rightarrow> EVM \<Rightarrow> Message \<Rightarrow> GasPool \<Rightarrow> transition_result" where
  "ApplyMessage env e msg gp = TransitionDb env (NewStateTransition e msg gp)"

end
