(* ===== verification/Transition_Correct.thy ===== *)
theory Transition_Correct
  imports Transition VM_Safety
begin

text \<open>
  The accounting of a transaction: applying a message returns, the gas it used leaves the pool of the block
  and nothing else does, and a transaction whose execution fails costs its fee and has no other effect.
\<close>

section \<open>Intrinsic gas\<close>

definition nonzero_bytes :: "bytes \<Rightarrow> nat" where
  "nonzero_bytes bs = length (filter (\<lambda>b. b \<noteq> 0) bs)"

text \<open>The price of a transaction before execution, as a natural number.\<close>

definition intrinsic_price :: "bytes \<Rightarrow> bool \<Rightarrow> nat" where
  "intrinsic_price bs creates =
     (if creates then 53000 else 21000) + 68 * nonzero_bytes bs + 4 * (length bs - nonzero_bytes bs)"

lemma nonzero_bytes_le: "nonzero_bytes bs \<le> length bs"
  by (simp add: nonzero_bytes_def)

lemma count_nonzero_eq: "unat nz + length bs < 2 ^ 64 \<Longrightarrow> unat (count_nonzero nz bs) = unat nz + nonzero_bytes bs"
  by (induction nz bs rule: count_nonzero.induct) (auto simp: nonzero_bytes_def unat_word_ariths)

lemma room_iff:
  assumes "unat g \<le> 2 ^ 64 - 1" "0 < unat p"
  shows "(MaxUint64 - g) div p < n \<longleftrightarrow> 2 ^ 64 \<le> unat g + unat n * unat p"
proof -
  have "unat (MaxUint64 - g) = 2 ^ 64 - 1 - unat g"
    using unsigned_less [of g, where ?'a = nat] by (subst unat_sub) (simp_all add: MaxUint64_def word_le_nat_alt)
  then show ?thesis
    using assms unsigned_less [of g, where ?'a = nat]
    by (auto simp: word_less_nat_alt unat_div div_less_iff_less_mult)
qed

lemma IntrinsicGas_eq:
  assumes "length bs < 2 ^ 64"
  shows "IntrinsicGas bs c h =
     (if intrinsic_price bs (c \<and> h) < 2 ^ 64 then Inr (of_nat (intrinsic_price bs (c \<and> h))) else Inl (VMError ErrOutOfGas))"
proof -
  define base where "base = (if c \<and> h then TxGasContractCreation else TxGas)"
  have base: "unat base = (if c \<and> h then 53000 else 21000)" by (simp add: base_def TxGasContractCreation_def TxGas_def)
  define nz where "nz = count_nonzero 0 bs"
  have nz: "unat nz = nonzero_bytes bs" using assms count_nonzero_eq [of 0 bs] by (simp add: nz_def)
  show ?thesis
  proof (cases "bs = []")
    case True
    then show ?thesis by (simp add: IntrinsicGas_def intrinsic_price_def nonzero_bytes_def TxGasContractCreation_def TxGas_def)
  next
    case False
    have r1: "(MaxUint64 - base) div TxDataNonZeroGas < nz \<longleftrightarrow> 2 ^ 64 \<le> unat base + 68 * nonzero_bytes bs"
      using room_iff [of base TxDataNonZeroGas nz] base by (simp add: TxDataNonZeroGas_def nz)
    define g where "g = base + nz * TxDataNonZeroGas"
    define z where "z = of_nat (length bs) - nz"
    have z: "unat z = length bs - nonzero_bytes bs"
      using assms nonzero_bytes_le [of bs] unat_of_nat_small [OF assms]
      by (simp add: z_def unat_sub word_le_nat_alt nz)
    have e: "IntrinsicGas bs c h =
        (if (MaxUint64 - base) div TxDataNonZeroGas < nz then Inl (VMError ErrOutOfGas)
         else if (MaxUint64 - g) div TxDataZeroGas < z then Inl (VMError ErrOutOfGas)
         else Inr (g + z * TxDataZeroGas))"
      using False by (simp add: IntrinsicGas_def Let_def base_def nz_def g_def z_def)
    show ?thesis
    proof (cases "2 ^ 64 \<le> unat base + 68 * nonzero_bytes bs")
      case True
      then show ?thesis using base by (simp add: e r1 intrinsic_price_def)
    next
      case False
      then have g: "unat g = unat base + 68 * nonzero_bytes bs"
        by (simp add: g_def unat_word_ariths nz TxDataNonZeroGas_def)
      have r2: "(MaxUint64 - g) div TxDataZeroGas < z \<longleftrightarrow> 2 ^ 64 \<le> intrinsic_price bs (c \<and> h)"
        using room_iff [of g TxDataZeroGas z] g base False by (simp add: TxDataZeroGas_def z intrinsic_price_def mult.commute [of _ 4])
      have "g + z * TxDataZeroGas = of_nat (intrinsic_price bs (c \<and> h))" if "intrinsic_price bs (c \<and> h) < 2 ^ 64"
        using that g z base
        by (intro word_unat_eq_iff [THEN iffD2]) (simp add: unat_word_ariths TxDataZeroGas_def intrinsic_price_def unat_of_nat_small)
      then show ?thesis using False r2 by (simp add: e r1)
    qed
  qed
qed

text \<open>
  C30.  The intrinsic gas of a transaction is exactly 21000 (53000 for a creation since Homestead) plus 68 for
  every byte of its data that is not zero and 4 for every zero byte, or an out-of-gas error when that does
  not fit 64 bits: the two overflow checks are exact.
\<close>

theorem IntrinsicGas_exact:
  assumes "length bs < 2 ^ 64"
  shows "IntrinsicGas bs c h =
     (if intrinsic_price bs (c \<and> h) < 2 ^ 64 then Inr (of_nat (intrinsic_price bs (c \<and> h))) else Inl (VMError ErrOutOfGas))"
  using assms by (rule IntrinsicGas_eq)

theorem IntrinsicGas_exact_witness: "IntrinsicGas [1, 0, 2] True True = Inr 53140"
  using IntrinsicGas_exact [of "[1, 0, 2]" True True] by (simp add: intrinsic_price_def nonzero_bytes_def)

section \<open>The gas pool\<close>

lemma AddGas_eq: "AddGas gp a = (if unat gp + unat a < 2 ^ 64 then Some (gp + a) else None)"
proof -
  have "unat (MaxUint64 - a) = 2 ^ 64 - 1 - unat a"
    using unsigned_less [of a, where ?'a = nat] by (subst unat_sub) (simp_all add: MaxUint64_def word_le_nat_alt)
  then show ?thesis using unsigned_less [of a, where ?'a = nat] by (auto simp: AddGas_def word_less_nat_alt)
qed

lemma SubGas_eq:
  "SubGas gp a = (if unat a \<le> unat gp then (None, gp - a) else (Some ErrGasLimitReached, gp))"
  by (auto simp: SubGas_def word_less_nat_alt)

section \<open>Effects on the world\<close>

definition leads :: "(Hash \<Rightarrow> nat) \<Rightarrow> (Backend \<Rightarrow> World \<Rightarrow> World) \<Rightarrow> EVM \<Rightarrow> EVM \<Rightarrow> bool" where
  "leads sz u e e' \<longleftrightarrow>
     evm_next sz e e' \<and> db (statedb e') = db (statedb e) \<and> world (statedb e') = u (db (statedb e)) (world (statedb e))"

definition earn :: "Address \<Rightarrow> int \<Rightarrow> Backend \<Rightarrow> World \<Rightarrow> World" where
  "earn a n d w = upd_acct d w a (\<lambda>v. v\<lparr>v_balance := v_balance v + n\<rparr>)"

definition pay :: "Address \<Rightarrow> int \<Rightarrow> Backend \<Rightarrow> World \<Rightarrow> World" where
  "pay a n d w = upd_acct d w a (\<lambda>v. v\<lparr>v_balance := v_balance v - n\<rparr>)"

definition nonce_up :: "Address \<Rightarrow> Backend \<Rightarrow> World \<Rightarrow> World" where
  "nonce_up a d w = bump_nonce d a w"

lemma leads_trans: "leads sz u e e1 \<Longrightarrow> leads sz v e1 e2 \<Longrightarrow> leads sz (\<lambda>d w. v d (u d w)) e e2"
  by (auto simp: leads_def intro: evm_next_trans)

lemma leads_next: "leads sz u e e' \<Longrightarrow> evm_next sz e e'" "leads sz u e e' \<Longrightarrow> evm_ok sz e'"
  by (auto simp: leads_def dest: evm_nextD)

lemma leads_upd:
  assumes "evm_ok sz e" "grows sz (statedb e) s" "world s = u (db (statedb e)) (world (statedb e))"
  shows "leads sz u e (e\<lparr>statedb := s\<rparr>)"
  using assms evm_next_state [OF assms(1,2)] grows_db [OF assms(2)] by (simp add: leads_def)

lemma read_leads:
  assumes e: "evm_ok sz e"
  shows "leads sz (\<lambda>_ w. w) e (e\<lparr>statedb := snd (GetBalance (statedb e) a)\<rparr>)"
    "leads sz (\<lambda>_ w. w) e (e\<lparr>statedb := snd (GetNonce (statedb e) a)\<rparr>)"
  using evm_okD [OF e] by (intro leads_upd [OF e]; auto intro: reader_grows)+

lemma write_leads:
  assumes e: "evm_ok sz e"
  shows "0 \<le> n \<Longrightarrow> leads sz (earn a n) e (e\<lparr>statedb := AddBalance (statedb e) a n\<rparr>)"
    "n \<le> v_balance (acct_or_fresh (db (statedb e)) (world (statedb e)) a) \<Longrightarrow> leads sz (pay a n) e (e\<lparr>statedb := SubBalance (statedb e) a n\<rparr>)"
    "m = v_nonce (acct_or_fresh (db (statedb e)) (world (statedb e)) a) \<Longrightarrow>
       leads sz (nonce_up a) e (e\<lparr>statedb := SetNonce (statedb e) a (m + 1)\<rparr>)"
  using evm_okD [OF e] AddBalance_correct [of "statedb e" a n] SubBalance_correct [of "statedb e" a n]
    SetNonce_correct [of "statedb e" a "m + 1"]
  by (intro leads_upd [OF e]; auto simp: earn_def pay_def nonce_up_def bump_nonce_def upd_acct_def
      intro: AddBalance_grows SubBalance_grows SetNonce_grows)+

lemma readers_fst:
  assumes e: "evm_ok sz e"
  shows "fst (GetBalance (statedb e) a) = v_balance (acct_or_fresh d (world (statedb e)) a)"
    "fst (GetNonce (statedb e) a) = v_nonce (acct_or_fresh d (world (statedb e)) a)"
  using reads_fst [OF GetBalance_reads [OF evm_okD(2) [OF e], of a]] reads_fst [OF GetNonce_reads [OF evm_okD(2) [OF e], of a]]
  by (simp_all add: acct_or_fresh_def fresh_def split: option.splits)

lemma st_simps [simp]:
  "st_query q st = (fst (q (statedb (st_evm st))), st\<lparr>st_evm := (st_evm st)\<lparr>statedb := snd (q (statedb (st_evm st)))\<rparr>\<rparr>)"
  "st_upd u st = st\<lparr>st_evm := (st_evm st)\<lparr>statedb := u (statedb (st_evm st))\<rparr>\<rparr>"
  by (simp_all add: st_query_def st_upd_def query_def upd_state_def case_prod_beta)

section \<open>Buying gas\<close>

text \<open>What the checks before the execution leave: the fee is paid and the gas is taken from the pool.\<close>

definition bought :: "(Hash \<Rightarrow> nat) \<Rightarrow> StateTransition \<Rightarrow> StateTransition \<Rightarrow> bool" where
  "bought sz st st' \<longleftrightarrow>
     (let msg = st_msg st in
      leads sz (pay (msg_From msg) (uint (msg_Gas msg) * st_gasPrice st)) (st_evm st) (st_evm st') \<and>
      unat (msg_Gas msg) \<le> unat (st_gp st) \<and>
      st_gp st' = st_gp st - msg_Gas msg \<and> st_gas st' = st_gas st + msg_Gas msg \<and> st_initialGas st' = msg_Gas msg \<and>
      st_msg st' = msg \<and> st_gasPrice st' = st_gasPrice st \<and> st_value st' = st_value st \<and> st_data st' = st_data st)"

lemma buyGas_ok:
  assumes e: "evm_ok sz (st_evm st)"
  shows "(\<exists>err st'. buyGas st = (Some err, st') \<and> leads sz (\<lambda>_ w. w) (st_evm st) (st_evm st') \<and> st_gp st' = st_gp st) \<or>
     (\<exists>st'. buyGas st = (None, st') \<and> bought sz st st')"
proof -
  let ?m = "st_msg st" and ?e = "st_evm st"
  let ?v = "uint (msg_Gas ?m) * st_gasPrice st"
  let ?e1 = "?e\<lparr>statedb := snd (GetBalance (statedb ?e) (msg_From ?m))\<rparr>"
  have 1: "leads sz (\<lambda>_ w. w) ?e ?e1" using read_leads(1) [OF e] .
  have ok1: "evm_ok sz ?e1" and w: "world (statedb ?e1) = world (statedb ?e)" using 1 leads_next(2) by (auto simp: leads_def)
  show ?thesis
  proof (cases "fst (GetBalance (statedb ?e) (msg_From ?m)) < ?v \<or> \<not> unat (msg_Gas ?m) \<le> unat (st_gp st)")
    case True
    then show ?thesis using 1 by (auto simp: buyGas_def Let_def SubGas_eq)
  next
    case False
    then have "?v \<le> v_balance (acct_or_fresh (db (statedb ?e1)) (world (statedb ?e1)) (msg_From ?m))"
      using readers_fst(1) [OF e, of "msg_From ?m" "db (statedb ?e1)"] w by simp
    from leads_trans [OF 1 write_leads(2) [OF ok1 this]] show ?thesis
      using False by (auto simp: buyGas_def Let_def SubGas_eq bought_def)
  qed
qed

lemma preCheck_ok:
  assumes e: "evm_ok sz (st_evm st)"
  shows "(\<exists>err st'. preCheck st = (Some err, st') \<and> leads sz (\<lambda>_ w. w) (st_evm st) (st_evm st') \<and> st_gp st' = st_gp st) \<or>
     (\<exists>st'. preCheck st = (None, st') \<and> bought sz st st')"
proof -
  let ?m = "st_msg st" and ?e = "st_evm st"
  let ?e1 = "?e\<lparr>statedb := snd (GetNonce (statedb ?e) (msg_From ?m))\<rparr>"
  have 1: "leads sz (\<lambda>_ w. w) ?e ?e1" using read_leads(2) [OF e] .
  from buyGas_ok [of sz "st\<lparr>st_evm := ?e1\<rparr>"] leads_next(2) [OF 1]
  have "(\<exists>err st'. buyGas (st\<lparr>st_evm := ?e1\<rparr>) = (Some err, st') \<and> leads sz (\<lambda>_ w. w) ?e1 (st_evm st') \<and> st_gp st' = st_gp st) \<or>
     (\<exists>st'. buyGas (st\<lparr>st_evm := ?e1\<rparr>) = (None, st') \<and> bought sz (st\<lparr>st_evm := ?e1\<rparr>) st')" by simp
  then have "(\<exists>err st'. buyGas (st\<lparr>st_evm := ?e1\<rparr>) = (Some err, st') \<and> leads sz (\<lambda>_ w. w) ?e (st_evm st') \<and> st_gp st' = st_gp st) \<or>
     (\<exists>st'. buyGas (st\<lparr>st_evm := ?e1\<rparr>) = (None, st') \<and> bought sz st st')"
    using leads_trans [OF 1] by (fastforce simp: bought_def Let_def)
  with buyGas_ok [OF e] 1 show ?thesis by (auto simp: preCheck_def Let_def)
qed

section \<open>Refunding\<close>

definition refund_amount :: "StateTransition \<Rightarrow> uint64" where
  "refund_amount st =
     (if gasUsed st div 2 > GetRefund (st_state st) then GetRefund (st_state st) else gasUsed st div 2)"

lemma refund_amount_le:
  assumes "unat (st_gas st) \<le> unat (st_initialGas st)"
  shows "unat (refund_amount st) \<le> (unat (st_initialGas st) - unat (st_gas st)) div 2"
    "refund_amount st \<le> GetRefund (st_state st)"
    "unat (st_gas st + refund_amount st) = unat (st_gas st) + unat (refund_amount st)"
    "unat (st_gas st + refund_amount st) \<le> unat (st_initialGas st)"
proof -
  have u: "unat (gasUsed st) = unat (st_initialGas st) - unat (st_gas st)"
    using assms by (simp add: gasUsed_def unat_sub word_le_nat_alt)
  show r: "unat (refund_amount st) \<le> (unat (st_initialGas st) - unat (st_gas st)) div 2"
    "refund_amount st \<le> GetRefund (st_state st)"
    using u by (auto simp: refund_amount_def word_less_nat_alt unat_div word_le_nat_alt)
  then show s: "unat (st_gas st + refund_amount st) = unat (st_gas st) + unat (refund_amount st)"
    using assms unsigned_less [of "st_initialGas st", where ?'a = nat] by (subst unat_add_lem [THEN iffD1]) auto
  show "unat (st_gas st + refund_amount st) \<le> unat (st_initialGas st)" using s r(1) assms by linarith
qed

lemma refundGas_eq:
  assumes "unat (st_gas st) \<le> unat (st_initialGas st)" "unat (st_gp st) + unat (st_initialGas st) < 2 ^ 64"
  shows "refundGas st = Some (st\<lparr>st_gas := st_gas st + refund_amount st,
     st_evm := (st_evm st)\<lparr>statedb := AddBalance (statedb (st_evm st)) (msg_From (st_msg st))
       (uint (st_gas st + refund_amount st) * st_gasPrice st)\<rparr>,
     st_gp := st_gp st + (st_gas st + refund_amount st)\<rparr>)"
  using assms refund_amount_le(4) [OF assms(1)] by (simp add: refundGas_def refund_amount_def [symmetric] Let_def AddGas_eq)

lemma refundGas_ok:
  assumes e: "evm_ok sz (st_evm st)" and p: "0 \<le> st_gasPrice st"
    and g: "unat (st_gas st) \<le> unat (st_initialGas st)" "unat (st_gp st) + unat (st_initialGas st) < 2 ^ 64"
  shows "\<exists>r st'. refundGas st = Some st' \<and> unat r \<le> (unat (st_initialGas st) - unat (st_gas st)) div 2 \<and> r \<le> GetRefund (st_state st) \<and>
     unat (st_gas st') = unat (st_gas st) + unat r \<and> unat (st_gp st') = unat (st_gp st) + unat (st_gas st') \<and>
     leads sz (earn (msg_From (st_msg st)) (uint (st_gas st') * st_gasPrice st)) (st_evm st) (st_evm st') \<and>
     st_msg st' = st_msg st \<and> st_gasPrice st' = st_gasPrice st \<and> st_initialGas st' = st_initialGas st"
proof -
  note r = refund_amount_le [OF g(1)]
  let ?n = "uint (st_gas st + refund_amount st) * st_gasPrice st"
  have "leads sz (earn (msg_From (st_msg st)) ?n) (st_evm st)
      ((st_evm st)\<lparr>statedb := AddBalance (statedb (st_evm st)) (msg_From (st_msg st)) ?n\<rparr>)"
    using p by (intro write_leads(1) [OF e]) simp
  moreover have "unat (st_gp st + (st_gas st + refund_amount st)) = unat (st_gp st) + unat (st_gas st + refund_amount st)"
    using g r(4) by (subst unat_add_lem [THEN iffD1]) auto
  ultimately show ?thesis using r by (intro exI [of _ "refund_amount st"]) (simp add: refundGas_eq [OF g])
qed

section \<open>Executing\<close>

lemma execute_message_ok:
  assumes env: "env_ok env" and e: "evm_ok sz (st_evm st)" and d: "length (st_data st) < max_size"
    and g: "unat (st_gas st) < 2 ^ 62" and v: "0 \<le> st_value st"
  shows "\<exists>ret err st'. execute_message env st = Some (ret, err, st') \<and> evm_next sz (st_evm st) (st_evm st') \<and>
     unat (st_gas st') \<le> unat (st_gas st) \<and> st' = st\<lparr>st_gas := st_gas st', st_evm := st_evm st'\<rparr> \<and>
     (err \<noteq> None \<longrightarrow> msg_To (st_msg st) \<noteq> None \<longrightarrow> leads sz (nonce_up (msg_From (st_msg st))) (st_evm st) (st_evm st'))"
proof (cases "msg_To (st_msg st)")
  case None
  from Create_ok [OF env e d g v, of "AccountRef (msg_From (st_msg st))"] obtain ret addr g' err e' where
    "Create env (AccountRef (msg_From (st_msg st))) (st_data st) (st_gas st) (st_value st) (st_evm st) = Some (ret, addr, g', err, e')"
    "evm_next sz (st_evm st) e'" "unat g' \<le> unat (st_gas st)"
    by (auto simp: create_ok_def)
  then show ?thesis using None by (simp add: execute_message_def Let_def)
next
  case (Some to)
  let ?a = "msg_From (st_msg st)" and ?e = "st_evm st"
  let ?e1 = "?e\<lparr>statedb := snd (GetNonce (statedb ?e) ?a)\<rparr>"
  let ?e2 = "?e1\<lparr>statedb := SetNonce (statedb ?e1) ?a (fst (GetNonce (statedb ?e) ?a) + 1)\<rparr>"
  have 1: "leads sz (\<lambda>_ w. w) ?e ?e1" using read_leads(2) [OF e] .
  have "fst (GetNonce (statedb ?e) ?a) = v_nonce (acct_or_fresh (db (statedb ?e1)) (world (statedb ?e1)) ?a)"
    using readers_fst(2) [OF e, of ?a "db (statedb ?e1)"] 1 by (simp add: leads_def)
  from leads_trans [OF 1 write_leads(3) [OF leads_next(2) [OF 1] this]] have 2: "leads sz (nonce_up ?a) ?e ?e2" .
  from Call_ok [OF env leads_next(2) [OF 2] d g v, of "AccountRef ?a" to] obtain ret g' err e' where
    c: "Call env (AccountRef ?a) to (st_data st) (st_gas st) (st_value st) ?e2 = Some (ret, g', err, e')"
    and r: "result_ok sz ?e2 (st_gas st) (ret, g', err, e')" by auto
  have n: "evm_next sz ?e2 e'" "unat g' \<le> unat (st_gas st)" using r by (simp_all add: result_ok_def)
  have "leads sz (\<lambda>_ w. w) ?e2 e'" if "err \<noteq> None"
    using r that grows_db [OF evm_nextD(3) [OF n(1)]] by (simp add: result_ok_def leads_def)
  then have "err \<noteq> None \<Longrightarrow> leads sz (nonce_up ?a) ?e e'" using leads_trans [OF 2] by blast
  moreover have "execute_message env st = Some (ret, err, st\<lparr>st_gas := g', st_evm := e'\<rparr>)"
    using Some c by (simp add: execute_message_def Let_def st_to_def)
  ultimately show ?thesis using n evm_next_trans [OF leads_next(1) [OF 2] n(1)] by simp
qed

section \<open>The transition\<close>

definition fee_paid :: "Env \<Rightarrow> Message \<Rightarrow> nat \<Rightarrow> Backend \<Rightarrow> World \<Rightarrow> World" where
  "fee_paid env msg used d w =
     earn (Coinbase (ctx env)) (int used * msg_GasPrice msg) d
       (earn (msg_From msg) (int (unat (msg_Gas msg) - used) * msg_GasPrice msg) d
         (nonce_up (msg_From msg) d (pay (msg_From msg) (int (unat (msg_Gas msg)) * msg_GasPrice msg) d w)))"

definition settled :: "(Hash \<Rightarrow> nat) \<Rightarrow> Env \<Rightarrow> EVM \<Rightarrow> Message \<Rightarrow> GasPool \<Rightarrow> (bytes \<times> uint64 \<times> bool \<times> core_err option) \<times> StateTransition \<Rightarrow> bool" where
  "settled sz env e msg gp r \<longleftrightarrow>
     (case r of ((ret, used, failed, err), st') \<Rightarrow>
        evm_next sz e (st_evm st') \<and>
        (case err of
           Some _ \<Rightarrow> ret = [] \<and> used = 0 \<and> \<not> failed
         | None \<Rightarrow>
             unat (st_gp st') + unat used = unat gp \<and> unat used \<le> unat (msg_Gas msg) \<and>
             intrinsic_price (msg_Data msg) (msg_To msg = None \<and> IsHomestead (chainConfig env) (BlockNumber (ctx env))) \<le> 2 * unat used \<and>
             (failed \<longrightarrow> msg_To msg \<noteq> None \<longrightarrow> w_refund (world (statedb e)) = 0 \<longrightarrow>
                world (statedb (st_evm st')) = fee_paid env msg (unat used) (db (statedb e)) (world (statedb e)))))"

lemma w_refund_upd: "w_refund (pay a n d w) = w_refund w" "w_refund (nonce_up a d w) = w_refund w"
  by (simp_all add: pay_def nonce_up_def bump_nonce_def upd_acct_def set_acct_def)

lemma settle_ok:
  assumes env: "env_ok env" and price: "0 \<le> msg_GasPrice msg"
    and st: "bought sz (NewStateTransition e msg gp) st"
    and g: "unat gas \<le> unat (msg_Gas msg)" "unat gas = intrinsic_price (msg_Data msg) (msg_To msg = None \<and> IsHomestead (chainConfig env) (BlockNumber (ctx env)))"
    and st1: "st1 = st\<lparr>st_gas := st_gas st - gas\<rparr>" "st2 = st1\<lparr>st_gas := st_gas st2, st_evm := st_evm st2\<rparr>"
    and ex: "evm_next sz (st_evm st1) (st_evm st2)" "unat (st_gas st2) \<le> unat (st_gas st1)"
      "failed \<Longrightarrow> msg_To msg \<noteq> None \<Longrightarrow> leads sz (nonce_up (msg_From msg)) (st_evm st1) (st_evm st2)"
  shows "\<exists>st3. refundGas st2 = Some st3 \<and>
     settled sz env e msg gp ((ret, gasUsed st3, failed, None),
       st_upd (\<lambda>s. AddBalance s (Coinbase (ctx env)) (uint (gasUsed st3) * st_gasPrice st3)) st3)"
proof -
  have b: "leads sz (pay (msg_From msg) (uint (msg_Gas msg) * msg_GasPrice msg)) e (st_evm st)" "unat (msg_Gas msg) \<le> unat gp"
    and s: "st_gp st = gp - msg_Gas msg" "st_gas st = msg_Gas msg" "st_initialGas st = msg_Gas msg" "st_msg st = msg"
      "st_gasPrice st = msg_GasPrice msg"
    using st by (auto simp: bought_def NewStateTransition_def Let_def)
  have s1: "st_evm st1 = st_evm st" "unat (st_gas st1) = unat (msg_Gas msg) - unat gas"
    using g(1) s by (simp_all add: st1 unat_sub word_le_nat_alt)
  have "st_gp st2 = st_gp st1" "st_initialGas st2 = st_initialGas st1" "st_msg st2 = st_msg st1" "st_gasPrice st2 = st_gasPrice st1"
    by (subst st1(2), simp)+
  then have s2: "st_gp st2 = gp - msg_Gas msg" "st_initialGas st2 = msg_Gas msg" "st_msg st2 = msg" "st_gasPrice st2 = msg_GasPrice msg"
    using s by (simp_all add: st1(1))
  have gp: "unat (gp - msg_Gas msg) = unat gp - unat (msg_Gas msg)" using b(2) by (simp add: unat_sub word_le_nat_alt)
  have ok2: "evm_ok sz (st_evm st2)" using ex(1) by (rule evm_nextD)
  have "unat (st_gas st2) \<le> unat (st_initialGas st2)" "unat (st_gp st2) + unat (st_initialGas st2) < 2 ^ 64" "0 \<le> st_gasPrice st2"
    using ex(2) s1(2) b(2) gp price unsigned_less [of gp, where ?'a = nat] by (auto simp: s2)
  from refundGas_ok [OF ok2 this(3,1,2)] obtain r st3 where
    st3: "refundGas st2 = Some st3" and r: "unat r \<le> (unat (msg_Gas msg) - unat (st_gas st2)) div 2" "r \<le> GetRefund (st_state st2)"
    and gas3: "unat (st_gas st3) = unat (st_gas st2) + unat r" "unat (st_gp st3) = unat (gp - msg_Gas msg) + unat (st_gas st3)"
    and l3: "leads sz (earn (msg_From msg) (uint (st_gas st3) * msg_GasPrice msg)) (st_evm st2) (st_evm st3)"
    and s3: "st_msg st3 = msg" "st_gasPrice st3 = msg_GasPrice msg" "st_initialGas st3 = msg_Gas msg"
    unfolding s2 by blast
  have le: "unat (st_gas st2) \<le> unat (msg_Gas msg) - unat gas" using ex(2) s1(2) by simp
  have le3: "unat (st_gas st3) \<le> unat (msg_Gas msg)" using gas3(1) r(1) le by linarith
  define used where "used = unat (msg_Gas msg) - unat (st_gas st3)"
  have u: "unat (gasUsed st3) = used" using le3 by (simp add: gasUsed_def s3 used_def unat_sub word_le_nat_alt)
  let ?e4 = "(st_evm st3)\<lparr>statedb := AddBalance (statedb (st_evm st3)) (Coinbase (ctx env)) (uint (gasUsed st3) * msg_GasPrice msg)\<rparr>"
  have l4: "leads sz (earn (Coinbase (ctx env)) (uint (gasUsed st3) * msg_GasPrice msg)) (st_evm st3) ?e4"
    using price by (intro write_leads(1) leads_next(2) [OF l3]) simp
  have next4: "evm_next sz e ?e4"
    using evm_next_trans [OF evm_next_trans [OF leads_next(1) [OF b(1)]] evm_next_trans [OF leads_next(1) [OF l3] leads_next(1) [OF l4]]] ex(1)
    by (simp add: s1(1))
  have pool: "unat (st_gp st3) + used = unat gp" using gas3(2) gp le3 b(2) by (simp add: used_def)
  have half: "unat gas \<le> 2 * used"
  proof -
    have "unat gas \<le> unat (msg_Gas msg) - unat (st_gas st2)" using le g(1) by linarith
    moreover have "unat (msg_Gas msg) - unat (st_gas st2) \<le> 2 * used"
      using gas3(1) r(1) by (simp add: used_def)
    ultimately show ?thesis by (rule le_trans)
  qed
  have "world (statedb ?e4) = fee_paid env msg used (db (statedb e)) (world (statedb e))"
    if f: "failed" "msg_To msg \<noteq> None" "w_refund (world (statedb e)) = 0"
  proof -
    note l2 = leads_trans [OF b(1) ex(3) [OF f(1,2), unfolded s1(1)]]
    have "GetRefund (st_state st2) = w_refund (world (statedb (st_evm st2)))" by (simp add: GetRefund_def st_state_def world_def)
    also have "\<dots> = 0" using l2 f(3) by (simp add: leads_def w_refund_upd)
    finally have "unat r = 0" using r(2) by simp
    then have "uint (st_gas st3) = int (unat (msg_Gas msg) - used)" using le3 by (simp add: used_def flip: uint_nat)
    moreover have "uint (gasUsed st3) = int used" by (simp flip: u)
    ultimately show ?thesis
      using leads_trans [OF leads_trans [OF l2 l3] l4] by (simp add: leads_def fee_paid_def flip: uint_nat)
  qed
  then have "settled sz env e msg gp ((ret, gasUsed st3, failed, None), st3\<lparr>st_evm := ?e4\<rparr>)"
    using next4 pool half le3 g(2) by (simp add: settled_def u) (simp add: used_def)
  then show ?thesis using st3 by (simp add: s3)
qed

lemma ApplyMessage_ok:
  assumes env: "env_ok env" and e: "evm_ok sz e" and d: "length (msg_Data msg) < max_size"
    and g: "unat (msg_Gas msg) < 2 ^ 62" and v: "0 \<le> msg_Value msg" and price: "0 \<le> msg_GasPrice msg"
  shows "\<exists>r. ApplyMessage env e msg gp = Some r \<and> settled sz env e msg gp r"
proof -
  let ?st0 = "NewStateTransition e msg gp"
  let ?h = "IsHomestead (chainConfig env) (BlockNumber (ctx env))" and ?c = "msg_To msg = None"
  have e0: "evm_ok sz (st_evm ?st0)" using e by (simp add: NewStateTransition_def)
  have fail: "settled sz env e msg gp (([], 0, False, Some err), st')" if "evm_next sz e (st_evm st')" for err st'
    using that by (simp add: settled_def)
  from preCheck_ok [OF e0] consider
    (rejected) err st' where "preCheck ?st0 = (Some err, st')" "leads sz (\<lambda>_ w. w) e (st_evm st')"
  | (paid) st where "preCheck ?st0 = (None, st)" "bought sz ?st0 st"
    by (auto simp: NewStateTransition_def)
  then show ?thesis
  proof cases
    case rejected
    then show ?thesis using fail leads_next(1) by (auto simp: ApplyMessage_def TransitionDb_def)
  next
    case paid
    then have s: "st_gas st = msg_Gas msg" "st_data st = msg_Data msg" "st_msg st = msg" "st_value st = msg_Value msg"
      and n: "evm_next sz e (st_evm st)"
      by (auto simp: bought_def NewStateTransition_def Let_def dest: leads_next)
    show ?thesis
    proof (cases "intrinsic_price (msg_Data msg) (?c \<and> ?h) < 2 ^ 64 \<and>
        intrinsic_price (msg_Data msg) (?c \<and> ?h) \<le> unat (msg_Gas msg)")
      case False
      have "length (msg_Data msg) < 2 ^ 64" using d by (simp add: max_size_def)
      from IntrinsicGas_eq [OF this, of ?c ?h] False show ?thesis
        using paid(1) s fail [OF n]
        by (auto simp: ApplyMessage_def TransitionDb_def Let_def st_useGas_def word_less_nat_alt unat_of_nat_small)
    next
      case True
      define gas :: uint64 where "gas = of_nat (intrinsic_price (msg_Data msg) (?c \<and> ?h))"
      have u: "unat gas = intrinsic_price (msg_Data msg) (?c \<and> ?h)" using True by (simp add: gas_def unat_of_nat_small)
      have ig: "IntrinsicGas (msg_Data msg) ?c ?h = Inr gas"
        using IntrinsicGas_eq [of "msg_Data msg" ?c ?h] d True by (simp add: max_size_def gas_def)
      define st1 where "st1 = st\<lparr>st_gas := st_gas st - gas\<rparr>"
      have le: "unat gas \<le> unat (msg_Gas msg)" using True u by simp
      have use: "st_useGas gas st = (None, st1)" using le s by (simp add: st_useGas_def st1_def word_less_nat_alt)
      have g1: "unat (st_gas st1) < 2 ^ 62" using le g s by (simp add: st1_def unat_sub word_le_nat_alt)
      have "evm_ok sz (st_evm st1)" "length (st_data st1) < max_size" "0 \<le> st_value st1" and m1: "st_msg st1 = msg"
        using evm_nextD(2) [OF n] d v s by (simp_all add: st1_def)
      from execute_message_ok [OF env this(1,2) g1 this(3)] obtain ret err st2 where
        x: "execute_message env st1 = Some (ret, err, st2)" and n2: "evm_next sz (st_evm st1) (st_evm st2)"
          "unat (st_gas st2) \<le> unat (st_gas st1)" and s2: "st2 = st1\<lparr>st_gas := st_gas st2, st_evm := st_evm st2\<rparr>"
        and l: "err \<noteq> None \<Longrightarrow> msg_To msg \<noteq> None \<Longrightarrow> leads sz (nonce_up (msg_From msg)) (st_evm st1) (st_evm st2)"
        unfolding m1 by blast
      have t: "TransitionDb env ?st0 = (if err = Some ErrInsufficientBalance
          then Some (([], 0, False, Some (VMError ErrInsufficientBalance)), st2)
          else do { st \<leftarrow> refundGas st2;
                    let st = st_upd (\<lambda>s. AddBalance s (Coinbase (ctx env)) (uint (gasUsed st) * st_gasPrice st)) st;
                    Some ((ret, gasUsed st, err \<noteq> None, None), st) })"
        using paid(1) s ig use x by (simp add: TransitionDb_def Let_def)
      show ?thesis
      proof (cases "err = Some ErrInsufficientBalance")
        case True
        have "evm_next sz e (st_evm st2)" using evm_next_trans [OF n] n2(1) by (simp add: st1_def)
        from fail [OF this] show ?thesis using True t by (simp add: ApplyMessage_def)
      next
        case False
        from settle_ok [OF env price paid(2) le u st1_def s2 n2 l, of "err \<noteq> None" ret] obtain st3 where
          "refundGas st2 = Some st3" "settled sz env e msg gp ((ret, gasUsed st3, err \<noteq> None, None),
             st_upd (\<lambda>s. AddBalance s (Coinbase (ctx env)) (uint (gasUsed st3) * st_gasPrice st3)) st3)" by blast
        then show ?thesis using False t by (simp add: ApplyMessage_def gasUsed_def Let_def)
      qed
    qed
  qed
qed

section \<open>Properties\<close>

text \<open>
  C4.  Applying a message is accounted for.  On a fork before Constantinople, \<^verbatim>\<open>ApplyMessage\<close> returns without a
  panic.  When it reports no error, the gas used is what left the gas pool of the block, it is at most the
  gas limit of the message and at least half of the intrinsic gas (the refund is capped at one half); when it
  reports an error, it reports no output and no gas used.
\<close>

theorem ApplyMessage_accounting:
  assumes "env_ok env" and "evm_ok sz e" and "length (msg_Data msg) < max_size" and "unat (msg_Gas msg) < 2 ^ 62"
    and "0 \<le> msg_Value msg" and "0 \<le> msg_GasPrice msg"
  shows "\<exists>ret used failed err st'. ApplyMessage env e msg gp = Some ((ret, used, failed, err), st') \<and> evm_ok sz (st_evm st') \<and>
     (case err of
        Some _ \<Rightarrow> ret = [] \<and> used = 0
      | None \<Rightarrow>
          unat (st_gp st') + unat used = unat gp \<and> unat used \<le> unat (msg_Gas msg) \<and>
          intrinsic_price (msg_Data msg) (msg_To msg = None \<and> IsHomestead (chainConfig env) (BlockNumber (ctx env))) \<le> 2 * unat used)"
  using ApplyMessage_ok [OF assms, of gp] by (fastforce simp: settled_def dest: evm_nextD split: option.splits)

definition demo_message :: Message where
  "demo_message =
     \<lparr>msg_From = 1, msg_To = Some 2, msg_GasPrice = 0, msg_Gas = 100000, msg_Value = 3, msg_Nonce = 0,
      msg_CheckNonce = False, msg_Data = []\<rparr>"

theorem ApplyMessage_accounting_witness:
  "\<exists>ret used failed err st'. ApplyMessage network_env (demo_evm [0xfe]) demo_message 500000 = Some ((ret, used, failed, err), st') \<and>
     (case err of Some _ \<Rightarrow> used = 0 | None \<Rightarrow> unat (st_gp st') + unat used = 500000 \<and> 21000 \<le> 2 * unat used)"
  using ApplyMessage_accounting [OF network_env_ok demo_evm_ok, of "[0xfe]" demo_message 500000]
  by (fastforce simp: max_size_def demo_message_def intrinsic_price_def nonzero_bytes_def split: option.splits)


text \<open>The message arrives at a virtual machine whose call depth is exhausted.\<close>

definition deep_evm :: EVM where
  "deep_evm = (demo_evm [])\<lparr>depth := 1025\<rparr>"

lemma demo_refund: "w_refund (world (demo_state code)) = 0" "db (demo_state code) = sizing_backend"
  and demo_sender: "acct_or_fresh d (world (demo_state code)) 1 = (fresh sizing_backend)\<lparr>v_balance := 1000\<rparr>"
proof -
  let ?s = "New sizing_backend emptyTrie"
  have s: "sdb_ok ?s" by (rule sdb_ok_New [OF sizing_backend_ok(1)])
  have b: "w_accts (world ?s) a = None" for a by (simp add: acct_view_def base_def New_def)
  note 1 = AddBalance_correct [OF s, of 1 1000]
  have "sdb_ok (AddBalance ?s 1 1000)" using 1 evolves_ok(2) by blast
  note 2 = SetCode_correct [OF this, of 2 code]
  show "w_refund (world (demo_state code)) = 0" "db (demo_state code) = sizing_backend"
    "acct_or_fresh d (world (demo_state code)) 1 = (fresh sizing_backend)\<lparr>v_balance := 1000\<rparr>"
    using 1 2 b by (simp_all add: demo_state_def upd_acct_def set_acct_def acct_or_fresh_def New_def fresh_def)
qed

lemma deep_evm_ok: "evm_ok unat deep_evm"
  using demo_evm_ok [of "[]"] by (simp add: deep_evm_def evm_ok_def max_size_def)

lemma deep_message_fails:
  "\<exists>used st'. ApplyMessage network_env deep_evm demo_message 500000 = Some (([], used, True, None), st')"
proof -
  have b: "\<not> fst (GetBalance (statedb deep_evm) 1) < 0" using GetBalance_nonneg [OF evm_okD(1) [OF deep_evm_ok], of 1] by simp
  have "\<not> NoRecursion (vmConfig network_env)" by (simp add: network_env_def)
  then show ?thesis
    using b by (simp add: ApplyMessage_def TransitionDb_def preCheck_def buyGas_def NewStateTransition_def demo_message_def Let_def
      SubGas_eq IntrinsicGas_eq intrinsic_price_def nonzero_bytes_def st_useGas_def execute_message_def Call_def EVM_Call_def
      refundGas_eq st_to_def CallCreateDepth_def) (simp add: deep_evm_def)
qed


text \<open>
  C29.  A message is rejected before anything happens when its nonce is not the one of the sender, when the
  sender cannot pay for the gas, or when the pool of the block has not enough gas: the error is reported and
  neither the world nor the gas pool has changed.
\<close>

theorem rejected_message:
  assumes "evm_ok sz e" and "sender = acct_or_fresh (db (statedb e)) (world (statedb e)) (msg_From msg)"
    and "msg_CheckNonce msg \<and> v_nonce sender \<noteq> msg_Nonce msg \<or> v_balance sender < uint (msg_Gas msg) * msg_GasPrice msg \<or> gp < msg_Gas msg"
  shows "\<exists>err st'. ApplyMessage env e msg gp = Some (([], 0, False, Some err), st') \<and>
     err \<in> {ErrNonceTooHigh, ErrNonceTooLow, errInsufficientBalanceForGas, ErrGasLimitReached} \<and>
     world (st_state st') = world (statedb e) \<and> st_gp st' = gp"
proof -
  let ?st = "NewStateTransition e msg gp"
  let ?e1 = "e\<lparr>statedb := snd (GetNonce (statedb e) (msg_From msg))\<rparr>"
  have e: "st_evm ?st = e" "st_gp ?st = gp" "st_msg ?st = msg" "st_gasPrice ?st = msg_GasPrice msg" by (simp_all add: NewStateTransition_def)
  have 1: "leads sz (\<lambda>_ w. w) e ?e1" using read_leads(2) [OF assms(1)] .
  have bal: "fst (GetBalance (statedb e) (msg_From msg)) = v_balance sender" "fst (GetNonce (statedb e) (msg_From msg)) = v_nonce sender"
    "fst (GetBalance (statedb ?e1) (msg_From msg)) = v_balance sender"
    using readers_fst [OF assms(1), of "msg_From msg" "db (statedb e)"]
      readers_fst(1) [OF leads_next(2) [OF 1], of "msg_From msg" "db (statedb e)"] 1 by (simp_all add: assms(2) leads_def)
  have "fst (preCheck ?st) \<in> Some ` {ErrNonceTooHigh, ErrNonceTooLow, errInsufficientBalanceForGas, ErrGasLimitReached}"
    using assms(3) bal by (auto simp: preCheck_def buyGas_def SubGas_def e Let_def)
  moreover from preCheck_ok [of sz ?st] assms(1) have "fst (preCheck ?st) = None \<or>
      world (st_state (snd (preCheck ?st))) = world (statedb e) \<and> st_gp (snd (preCheck ?st)) = gp"
    by (auto simp: e leads_def st_state_def)
  ultimately show ?thesis by (cases "preCheck ?st") (auto simp: ApplyMessage_def TransitionDb_def)
qed

theorem rejected_message_witness:
  "\<exists>err st'. ApplyMessage network_env (demo_evm []) (demo_message\<lparr>msg_CheckNonce := True, msg_Nonce := 7\<rparr>) 500000 =
     Some (([], 0, False, Some err), st') \<and> world (st_state st') = world (demo_state [])"
proof -
  have ok: "evm_ok unat (demo_evm [])" by (rule demo_evm_ok) (simp add: max_size_def)
  have "v_nonce (acct_or_fresh (db (demo_state [])) (world (demo_state [])) 1) = 0" by (simp add: demo_sender fresh_def)
  with rejected_message [OF ok refl, of "demo_message\<lparr>msg_CheckNonce := True, msg_Nonce := 7\<rparr>" 500000 network_env] show ?thesis
    by (auto simp: demo_message_def demo_evm_def)
qed

end
