(* ===== verification/Ethash_Algo.thy ===== *)
theory Ethash_Algo
  imports Common_Types
begin

text \<open>
  \<^verbatim>\<open>consensus/ethash/algorithm.go\<close>: the memory-hard hash of the proof of work.  Keccak-256 and Keccak-512 are
  the parameters \<open>keccak256\<close> and \<open>keccak512\<close>; an index out of range, a bad slice or a division by zero is
  \<^term>\<open>None\<close>.  Words are stored in little-endian order, as on the machines the client is built for.
\<close>

type_synonym uint32 = "32 word"

section \<open>Words and bytes\<close>

definition LE_Uint32 :: "bytes \<Rightarrow> uint32 option" where
  "LE_Uint32 b = (if length b < 4 then None else Some (word_of_int (SetBytes (rev (take 4 b)))))"

definition LE_bytes :: "uint32 \<Rightarrow> bytes" where
  "LE_bytes w = rev (word_bytes 4 w)"

text \<open>The words of a byte string whose length is a multiple of four.\<close>

definition LE_words :: "bytes \<Rightarrow> uint32 list" where
  "LE_words b = map (\<lambda>i. word_of_int (SetBytes (rev (take 4 (drop (4 * i) b))))) [0..<length b div 4]"

definition index_opt :: "'a list \<Rightarrow> nat \<Rightarrow> 'a option" where
  "index_opt xs i = (if i < length xs then Some (xs ! i) else None)"

fun collect :: "'a option list \<Rightarrow> 'a list option" where
  "collect [] = Some []"
| "collect (x # xs) = do { y \<leftarrow> x; ys \<leftarrow> collect xs; Some (y # ys) }"

section \<open>Mixing\<close>

definition hashBytes :: nat where "hashBytes = 64"
definition hashWords :: nat where "hashWords = 16"
definition mixBytes :: nat where "mixBytes = 128"
definition datasetParents :: nat where "datasetParents = 256"
definition loopAccesses :: nat where "loopAccesses = 64"

definition fnv :: "uint32 \<Rightarrow> uint32 \<Rightarrow> uint32" where
  "fnv a b = Bit_Operations.xor (a * 0x01000193) b"

definition fnvHash :: "uint32 list \<Rightarrow> uint32 list \<Rightarrow> uint32 list option" where
  "fnvHash mix dat = (if length dat < length mix then None else Some (map2 (\<lambda>x y. Bit_Operations.xor (x * 0x01000193) y) mix dat))"

text \<open>The loop over the parents, for the remaining values of the counter.\<close>

fun mix_parents :: "uint32 list \<Rightarrow> uint32 \<Rightarrow> uint32 \<Rightarrow> nat list \<Rightarrow> uint32 list \<Rightarrow> uint32 list option" where
  "mix_parents cache rows index [] intMix = Some intMix"
| "mix_parents cache rows index (i # is) intMix =
     do { m \<leftarrow> index_opt intMix (i mod 16);
          let parent = fnv (Bit_Operations.xor index (of_nat i)) m mod rows;
          dat \<leftarrow> slice cache (unat (parent * of_nat hashWords)) (length cache);
          intMix \<leftarrow> fnvHash intMix dat;
          mix_parents cache rows index is intMix }"

definition generateDatasetItem :: "(bytes \<Rightarrow> bytes) \<Rightarrow> uint32 list \<Rightarrow> uint32 \<Rightarrow> bytes option" where
  "generateDatasetItem keccak512 cache index =
     (let rows = of_nat (length cache div hashWords) in
      if rows = 0 then None
      else
        let base = (index mod rows) * of_nat hashWords in
        do { first \<leftarrow> index_opt cache (unat base);
             rest \<leftarrow> collect (map (\<lambda>i. index_opt cache (unat (base + of_nat i))) [1..<hashWords]);
             let mix = keccak512 (concat (map LE_bytes (Bit_Operations.xor first index # rest)));
             intMix \<leftarrow> mix_parents cache rows index [0..<datasetParents] (LE_words mix);
             Some (keccak512 (concat (map LE_bytes intMix))) })"

section \<open>The mining dataset\<close>

text \<open>
  One item is written at \<^verbatim>\<open>dataset[index*hashBytes:]\<close>; the product is computed in 32 bits, like the index.
  The goroutines divide the indices among themselves; \<open>write_items\<close> writes the items in the order of a
  schedule, which interleaves what the goroutines do.
\<close>

definition write_item :: "(bytes \<Rightarrow> bytes) \<Rightarrow> uint32 list \<Rightarrow> uint32 \<Rightarrow> bytes \<Rightarrow> bytes option" where
  "write_item keccak512 cache index dataset =
     do { item \<leftarrow> generateDatasetItem keccak512 cache index;
          let off = unat (index * of_nat hashBytes);
          if off > length dataset then None else Some (copy_at dataset off item) }"

fun write_items :: "(bytes \<Rightarrow> bytes) \<Rightarrow> uint32 list \<Rightarrow> uint32 list \<Rightarrow> bytes \<Rightarrow> bytes option" where
  "write_items keccak512 cache [] dataset = Some dataset"
| "write_items keccak512 cache (i # is) dataset =
     do { dataset \<leftarrow> write_item keccak512 cache i dataset; write_items keccak512 cache is dataset }"

text \<open>The indices of the goroutine \<open>k\<close> out of \<open>threads\<close>, for a dataset of \<open>sz\<close> bytes.\<close>

definition batch_indices :: "uint64 \<Rightarrow> nat \<Rightarrow> nat \<Rightarrow> uint32 list" where
  "batch_indices sz threads k =
     (let batch = ucast ((sz + 64 * of_nat threads - 1) div (64 * of_nat threads)) :: uint32;
          first = of_nat k * batch;
          limit = first + batch;
          limit = (if limit > ucast (sz div 64) then ucast (sz div 64) else limit)
      in map of_nat [unat first..<unat limit])"

text \<open>The progress report divides by one percent of the number of items.\<close>

definition generateDataset ::
  "(bytes \<Rightarrow> bytes) \<Rightarrow> uint32 list \<Rightarrow> uint64 \<Rightarrow> uint32 list \<Rightarrow> bytes option" where
  "generateDataset keccak512 cache sz schedule =
     (if schedule \<noteq> [] \<and> ucast (sz div 64 div 100) = (0 :: uint32) then None
      else write_items keccak512 cache schedule (replicate (unat sz) 0))"

section \<open>The proof of work\<close>

type_synonym lookup = "uint32 \<Rightarrow> uint32 list option"

definition mix_round :: "uint32 \<Rightarrow> uint32 \<Rightarrow> lookup \<Rightarrow> nat \<Rightarrow> uint32 list \<times> uint32 list \<Rightarrow> (uint32 list \<times> uint32 list) option" where
  "mix_round rows seedHead lookup i mt =
     (let (mix, temp) = mt in
      do { m \<leftarrow> index_opt mix (i mod length mix);
           let parent = fnv (Bit_Operations.xor (of_nat i) seedHead) m mod rows;
           d0 \<leftarrow> lookup (2 * parent + 0);
           d1 \<leftarrow> lookup (2 * parent + 1);
           let temp = copy_at (copy_at temp 0 d0) hashWords d1;
           mix \<leftarrow> fnvHash mix temp;
           Some (mix, temp) })"

fun mix_rounds :: "uint32 \<Rightarrow> uint32 \<Rightarrow> lookup \<Rightarrow> nat list \<Rightarrow> uint32 list \<times> uint32 list \<Rightarrow> (uint32 list \<times> uint32 list) option" where
  "mix_rounds rows seedHead lookup [] mt = Some mt"
| "mix_rounds rows seedHead lookup (i # is) mt =
     do { mt \<leftarrow> mix_round rows seedHead lookup i mt; mix_rounds rows seedHead lookup is mt }"

text \<open>Compressing in place: group \<open>k\<close> of four words becomes word \<open>k\<close>.\<close>

fun compress :: "nat list \<Rightarrow> uint32 list \<Rightarrow> uint32 list" where
  "compress [] mix = mix"
| "compress (k # ks) mix =
     compress ks (mix[k := fnv (fnv (fnv (mix ! (4 * k)) (mix ! (4 * k + 1))) (mix ! (4 * k + 2))) (mix ! (4 * k + 3))])"

definition hashimoto ::
  "(bytes \<Rightarrow> bytes) \<Rightarrow> (bytes \<Rightarrow> bytes) \<Rightarrow> bytes \<Rightarrow> uint64 \<Rightarrow> uint64 \<Rightarrow> lookup \<Rightarrow> (bytes \<times> bytes) option" where
  "hashimoto keccak256 keccak512 hash nonce sz lookup =
     (let rows = ucast (sz div of_nat mixBytes) :: uint32;
          seed = copy_at (copy_at (replicate 40 0) 0 hash) 32 (rev (word_bytes 8 nonce));
          seed = keccak512 seed in
      do { seedHead \<leftarrow> LE_Uint32 seed;
           mix \<leftarrow> collect (map (\<lambda>i. LE_Uint32 (drop (i mod 16 * 4) seed)) [0..<mixBytes div 4]);
           if rows = 0 then None
           else
             do { (mix, _) \<leftarrow> mix_rounds rows seedHead lookup [0..<loopAccesses] (mix, replicate (length mix) 0);
                  let mix = take (length mix div 4) (compress [0..<length mix div 4] mix);
                  let digest = concat (map LE_bytes mix);
                  Some (digest, keccak256 (seed @ digest)) } })"

definition hashimotoLight ::
  "(bytes \<Rightarrow> bytes) \<Rightarrow> (bytes \<Rightarrow> bytes) \<Rightarrow> uint64 \<Rightarrow> uint32 list \<Rightarrow> bytes \<Rightarrow> uint64 \<Rightarrow> (bytes \<times> bytes) option" where
  "hashimotoLight keccak256 keccak512 sz cache hash nonce =
     hashimoto keccak256 keccak512 hash nonce sz
       (\<lambda>index. map_option LE_words (generateDatasetItem keccak512 cache index))"

definition hashimotoFull ::
  "(bytes \<Rightarrow> bytes) \<Rightarrow> (bytes \<Rightarrow> bytes) \<Rightarrow> uint32 list \<Rightarrow> bytes \<Rightarrow> uint64 \<Rightarrow> (bytes \<times> bytes) option" where
  "hashimotoFull keccak256 keccak512 dataset hash nonce =
     hashimoto keccak256 keccak512 hash nonce (of_nat (length dataset) * 4)
       (\<lambda>index. let offset = index * of_nat hashWords in
                slice dataset (unat offset) (unat (offset + of_nat hashWords)))"

section \<open>Seeds and caches\<close>

definition epochLength :: uint64 where "epochLength = 30000"

definition seedHash :: "(bytes \<Rightarrow> bytes) \<Rightarrow> uint64 \<Rightarrow> bytes" where
  "seedHash keccak256 block =
     (if block < epochLength then replicate 32 0
      else (keccak256 ^^ unat (block div epochLength)) (replicate 32 0))"

text \<open>Filling the cache: every row is the hash of the one before.\<close>

fun fill_rows :: "(bytes \<Rightarrow> bytes) \<Rightarrow> nat \<Rightarrow> bytes \<Rightarrow> bytes list" where
  "fill_rows keccak512 0 prev = []"
| "fill_rows keccak512 (Suc n) prev = (let row = keccak512 prev in row # fill_rows keccak512 n row)"

text \<open>One step of the low-round RandMemoHash on row \<open>j\<close>, and the rounds over all rows.\<close>

definition memo_row :: "(bytes \<Rightarrow> bytes) \<Rightarrow> nat \<Rightarrow> bytes list \<Rightarrow> bytes list option" where
  "memo_row keccak512 j rows =
     (let n = length rows in
      do { w \<leftarrow> LE_Uint32 (rows ! j);
           let src = rows ! ((j + n - 1) mod n);
           let x = rows ! (unat (w mod of_nat n * of_nat hashBytes) div hashBytes);
           Some (rows[j := keccak512 (map2 Bit_Operations.xor src x)]) })"

fun memo_rows :: "(bytes \<Rightarrow> bytes) \<Rightarrow> nat list \<Rightarrow> bytes list \<Rightarrow> bytes list option" where
  "memo_rows keccak512 [] rows = Some rows"
| "memo_rows keccak512 (j # js) rows = do { rows \<leftarrow> memo_row keccak512 j rows; memo_rows keccak512 js rows }"

definition generateCache :: "(bytes \<Rightarrow> bytes) \<Rightarrow> nat \<Rightarrow> bytes \<Rightarrow> uint32 list option" where
  "generateCache keccak512 n seed =
     (if n = 0 then None
      else do { rows \<leftarrow> memo_rows keccak512 (concat (replicate 3 [0..<n])) (fill_rows keccak512 n seed);
                Some (LE_words (concat rows)) })"

end
