(* ===== verification/Ethash_Correct.thy ===== *)
theory Ethash_Correct
  imports Ethash_Algo "HOL-Library.Multiset"
begin

text \<open>
  The two ways to compute the proof of work agree: hashing with the full mining dataset, generated by many
  goroutines, gives what hashing with the small verification cache gives, as long as the dataset is below
  4 GiB.  Above that the 32-bit offset of an item wraps around.
\<close>

section \<open>Words\<close>

lemma length_LE_bytes [simp]: "length (LE_bytes w) = 4"
  by (simp add: LE_bytes_def)

lemma LE_word_bytes: "word_of_int (SetBytes (rev (LE_bytes w))) = w"
proof -
  have "uint w mod 256 ^ 4 = uint w" using uint_lt2p [of w] by (intro mod_pos_pos_trivial) simp_all
  then show ?thesis by (simp only: LE_bytes_def rev_rev_ident SetBytes_word_bytes word_of_int_uint)
qed

lemma length_concat_const: "(\<And>x. x \<in> set xs \<Longrightarrow> length x = k) \<Longrightarrow> length (concat xs) = length xs * k"
  by (induction xs) auto

lemma take_drop_concat:
  assumes "\<And>x. x \<in> set xs \<Longrightarrow> length x = k" "i < length xs"
  shows "take k (drop (k * i) (concat xs)) = xs ! i"
  using assms
proof (induction xs arbitrary: i)
  case (Cons x xs)
  then show ?case by (cases i) (auto simp: algebra_simps)
qed simp

lemma LE_words_concat: "LE_words (concat (map LE_bytes ws)) = ws"
proof -
  have l: "length (concat (map LE_bytes ws)) = length ws * 4" by (induction ws) simp_all
  show ?thesis
  proof (rule nth_equalityI)
    fix i assume i: "i < length (LE_words (concat (map LE_bytes ws)))"
    then have "i < length ws" by (simp add: LE_words_def l)
    moreover from this have "take 4 (drop (4 * i) (concat (map LE_bytes ws))) = LE_bytes (ws ! i)"
      using take_drop_concat [of "map LE_bytes ws" 4 i] by fastforce
    ultimately show "LE_words (concat (map LE_bytes ws)) ! i = ws ! i"
      by (simp add: LE_words_def l LE_word_bytes)
  qed (simp add: LE_words_def l)
qed

lemma length_LE_words [simp]: "length (LE_words b) = length b div 4"
  by (simp add: LE_words_def)

lemma LE_words_take_drop:
  "4 * n + 4 * i \<le> length b \<Longrightarrow> take n (drop i (LE_words b)) = LE_words (take (4 * n) (drop (4 * i) b))"
proof (rule nth_equalityI)
  assume l: "4 * n + 4 * i \<le> length b"
  then have L: "length (take (4 * n) (drop (4 * i) b)) = 4 * n" and d: "n \<le> length b div 4 - i"
    by (simp_all add: less_eq_div_iff_mult_less_eq)
  then show "length (take n (drop i (LE_words b))) = length (LE_words (take (4 * n) (drop (4 * i) b)))"
    by (simp add: L del: length_take) (simp add: min_def)
  fix j assume "j < length (take n (drop i (LE_words b)))"
  then have j: "j < n" "i + j < length b div 4" by auto
  have "take 4 (drop (4 * j) (take (4 * n) (drop (4 * i) b))) = take 4 (drop (4 * (i + j)) b)"
    using j(1) by (simp add: drop_take algebra_simps)
  then show "take n (drop i (LE_words b)) ! j = LE_words (take (4 * n) (drop (4 * i) b)) ! j"
    using j unfolding LE_words_def L by simp
qed

lemma collect_Some: "(\<And>x. x \<in> set xs \<Longrightarrow> x \<noteq> None) \<Longrightarrow> collect xs = Some (map the xs)"
proof (induction xs)
  case (Cons x xs)
  then obtain y where "x = Some y" by fastforce
  then show ?case using Cons by simp
qed simp

lemma ucast_mod: "unat (ucast (w :: uint64) :: uint32) = unat w mod 2 ^ 32"
  by (simp add: unsigned_ucast_eq unsigned_take_bit_eq take_bit_eq_mod)

section \<open>Items of the dataset\<close>

text \<open>A cache of \<open>n\<close> rows, and a hash of 64 bytes.\<close>

definition cache_ok :: "uint32 list \<Rightarrow> nat \<Rightarrow> bool" where
  "cache_ok cache n \<longleftrightarrow> length cache = 16 * n \<and> 0 < n \<and> n < 2 ^ 28"

definition sized :: "nat \<Rightarrow> (bytes \<Rightarrow> bytes) \<Rightarrow> bool" where
  "sized k h \<longleftrightarrow> (\<forall>b. length (h b) = k)"

lemma cache_rows:
  assumes "cache_ok cache n"
  shows "(of_nat (length cache div hashWords) :: uint32) \<noteq> 0" "unat (of_nat (length cache div hashWords) :: uint32) = n"
proof -
  show u: "unat (of_nat (length cache div hashWords) :: uint32) = n"
    using assms by (simp add: cache_ok_def hashWords_def unat_of_nat)
  then show "(of_nat (length cache div hashWords) :: uint32) \<noteq> 0" using assms by (auto simp: cache_ok_def)
qed

lemma row_offset:
  assumes "unat rows = n" "n < 2 ^ 28" "0 < n"
  shows "unat ((x :: uint32) mod rows * 16) = 16 * (unat x mod n)" "unat x mod n < n"
proof -
  show m: "unat x mod n < n" using assms(3) by simp
  have "unat (x mod rows * 16) = (unat x mod n * 16) mod 2 ^ 32"
    by (simp add: unat_word_ariths unat_mod assms(1) mod_mult_left_eq)
  also have "\<dots> = unat x mod n * 16" using m assms(2) by (intro mod_less) simp
  finally show "unat (x mod rows * 16) = 16 * (unat x mod n)" by simp
qed

lemma fnvHash_ok: "length mix \<le> length dat \<Longrightarrow> \<exists>m. fnvHash mix dat = Some m \<and> length m = length mix"
  by (simp add: fnvHash_def)

lemma mix_parents_total:
  assumes c: "length cache = 16 * n" "0 < n" "n < 2 ^ 28" and r: "unat rows = n" and m: "length intMix = 16"
  shows "\<exists>m. mix_parents cache rows index is intMix = Some m \<and> length m = 16"
  using m
proof (induction "is" arbitrary: intMix)
  case (Cons i "is")
  let ?x = "fnv (Bit_Operations.xor index (of_nat i)) (intMix ! (i mod 16))"
  have i: "index_opt intMix (i mod 16) = Some (intMix ! (i mod 16))" using Cons.prems by (simp add: index_opt_def)
  note o = row_offset [OF r c(3,2), of ?x]
  have "16 * (unat ?x mod n) + 16 \<le> length cache" using o(2) c(1) by simp
  then obtain d where d: "slice cache (unat (?x mod rows * of_nat hashWords)) (length cache) = Some d" "16 \<le> length d"
    using o(1) by (simp add: slice_def hashWords_def)
  from fnvHash_ok [of intMix d] d(2) Cons.prems obtain m' where m': "fnvHash intMix d = Some m'" "length m' = 16" by auto
  from Cons.IH [OF m'(2)] show ?case using i d m' by simp
qed simp

lemma generateDatasetItem_total:
  assumes c: "cache_ok cache n" and k: "sized 64 keccak512"
  shows "\<exists>item. generateDatasetItem keccak512 cache index = Some item \<and> length item = 64"
proof -
  let ?rows = "of_nat (length cache div hashWords) :: uint32"
  let ?base = "index mod ?rows * of_nat hashWords"
  note r = cache_rows [OF c]
  have n: "length cache = 16 * n" "0 < n" "n < 2 ^ 28" using c by (simp_all add: cache_ok_def)
  note o = row_offset [OF r(2) n(3,2), of index]
  have b: "unat ?base = 16 * (unat index mod n)" using o(1) by (simp add: hashWords_def)
  have "unat (?base + of_nat i) = unat ?base + i" if "i < 16" for i
    using that b o(2) n(3) by (simp add: unat_word_ariths unat_of_nat)
  then have in_range: "index_opt cache (unat (?base + of_nat i)) \<noteq> None" if "i < 16" for i
    using that b o(2) n(1) by (simp add: index_opt_def)
  obtain first where first: "index_opt cache (unat ?base) = Some first" using in_range [of 0] by auto
  obtain rest where rest: "collect (map (\<lambda>i. index_opt cache (unat (?base + of_nat i))) [1..<hashWords]) = Some rest"
    using collect_Some [of "map (\<lambda>i. index_opt cache (unat (?base + of_nat i))) [1..<hashWords]"] in_range
    by (fastforce simp: hashWords_def)
  define mix where "mix = keccak512 (concat (map LE_bytes (Bit_Operations.xor first index # rest)))"
  have "length (LE_words mix) = 16" using k by (simp add: mix_def sized_def)
  from mix_parents_total [OF n r(2) this] obtain m where
    "mix_parents cache ?rows index [0..<datasetParents] (LE_words mix) = Some m" by blast
  then show ?thesis
    using r(1) first rest k by (simp add: generateDatasetItem_def Let_def mix_def sized_def)
qed

section \<open>Generating the dataset\<close>

definition item :: "(bytes \<Rightarrow> bytes) \<Rightarrow> uint32 list \<Rightarrow> nat \<Rightarrow> bytes" where
  "item keccak512 cache i = (case generateDatasetItem keccak512 cache (of_nat i) of Some b \<Rightarrow> b | None \<Rightarrow> [])"

definition full_dataset :: "(bytes \<Rightarrow> bytes) \<Rightarrow> uint32 list \<Rightarrow> nat \<Rightarrow> bytes" where
  "full_dataset keccak512 cache n = concat (map (item keccak512 cache) [0..<n])"

definition block :: "bytes \<Rightarrow> nat \<Rightarrow> bytes" where
  "block ds i = take 64 (drop (64 * i) ds)"

lemma item_eq:
  assumes "cache_ok cache m" "sized 64 keccak512"
  shows "generateDatasetItem keccak512 cache index = Some (item keccak512 cache (unat index))"
    "length (item keccak512 cache i) = 64"
  using generateDatasetItem_total [OF assms, of index] generateDatasetItem_total [OF assms, of "of_nat i"]
  by (auto simp: item_def)

lemma block_copy_at:
  assumes "64 * i + 64 \<le> length ds" "length x = 64" "64 * j + 64 \<le> length ds"
  shows "block (copy_at ds (64 * i) x) j = (if j = i then x else block ds j)"
proof (cases "j = i")
  case False
  then consider "64 * j + 64 \<le> 64 * i" | "64 * i + 64 \<le> 64 * j" by linarith
  then show ?thesis
  proof cases
    case 1
    then show ?thesis using assms False by (simp add: block_def copy_at_def drop_take min_def)
  next
    case 2
    then have "drop (64 * j) (copy_at ds (64 * i) x) = drop (64 * j) ds"
      using assms by (simp add: copy_at_def drop_take min_def)
    then show ?thesis using False by (simp add: block_def)
  qed
qed (use assms take_drop_copy_at [of "64 * i" x ds] in \<open>simp add: block_def\<close>)

lemma blocks_eq: "length ds = 64 * n \<Longrightarrow> ds = concat (map (block ds) [0..<n])"
proof (induction n arbitrary: ds)
  case (Suc n)
  then have "take (64 * n) ds = concat (map (block (take (64 * n) ds)) [0..<n])" by simp
  moreover have "block (take (64 * n) ds) i = block ds i" if "i < n" for i
  proof -
    have "64 * i + 64 \<le> 64 * n" using that by linarith
    then show ?thesis by (simp add: block_def drop_take)
  qed
  then have "map (block (take (64 * n) ds)) [0..<n] = map (block ds) [0..<n]" by simp
  ultimately have "take (64 * n) ds = concat (map (block ds) [0..<n])" by simp
  moreover have "drop (64 * n) ds = block ds n" using Suc.prems by (simp add: block_def)
  ultimately show ?case using append_take_drop_id [of "64 * n" ds] by simp
qed simp

lemma write_items_correct:
  assumes c: "cache_ok cache m" "sized 64 keccak512" and n: "64 * n \<le> 2 ^ 32"
    and s: "\<And>i. i \<in> set sched \<Longrightarrow> unat i < n" and l: "length ds = 64 * n"
  shows "\<exists>ds'. write_items keccak512 cache sched ds = Some ds' \<and> length ds' = 64 * n \<and>
     (\<forall>j < n. block ds' j = (if of_nat j \<in> set sched then item keccak512 cache j else block ds j))"
  using s l
proof (induction sched arbitrary: ds)
  case (Cons i sched)
  note I = item_eq [OF c]
  have i: "unat i < n" using Cons.prems by simp
  then have o: "unat (i * of_nat hashBytes) = 64 * unat i" using n by (simp add: hashBytes_def unat_word_ariths)
  have le: "64 * unat i + 64 \<le> length ds" using i Cons.prems(2) by simp
  let ?ds = "copy_at ds (64 * unat i) (item keccak512 cache (unat i))"
  have w: "write_item keccak512 cache i ds = Some ?ds" using I(1) [of i] o le by (simp add: write_item_def)
  have l: "length ?ds = 64 * n" using le I(2) [of "unat i"] Cons.prems(2) by simp
  from Cons.IH [OF _ l] Cons.prems(1) obtain ds' where
    d: "write_items keccak512 cache sched ?ds = Some ds'" "length ds' = 64 * n"
      "\<forall>j < n. block ds' j = (if of_nat j \<in> set sched then item keccak512 cache j else block ?ds j)" by auto
  have "block ?ds j = (if of_nat j = i then item keccak512 cache j else block ds j)" if "j < n" for j
  proof -
    have "j < 2 ^ 32" using that n by linarith
    then have "unat (of_nat j :: uint32) = j" by (simp add: unat_of_nat)
    then have "of_nat j = i \<longleftrightarrow> j = unat i" by auto
    moreover have "64 * j + 64 \<le> length ds" using that Cons.prems(2) by simp
    ultimately show ?thesis using block_copy_at [OF le I(2), of j "unat i"] by simp
  qed
  then show ?case using w d by auto
qed simp

lemma generateDataset_eq:
  assumes c: "cache_ok cache m" "sized 64 keccak512" and n: "64 * n \<le> 2 ^ 32" "100 \<le> n"
    and s: "set sched = of_nat ` {0..<n}"
  shows "generateDataset keccak512 cache (of_nat (64 * n)) sched = Some (full_dataset keccak512 cache n)"
proof -
  have u: "unat (of_nat (64 * n) :: uint64) = 64 * n" using n by (subst unat_of_nat) simp
  have p: "unat (of_nat (64 * n) div 64 div 100 :: uint64) = n div 100" unfolding unat_div u by simp
  have "(ucast (of_nat (64 * n) div 64 div 100 :: uint64) :: uint32) \<noteq> 0"
  proof
    assume "(ucast (of_nat (64 * n) div 64 div 100 :: uint64) :: uint32) = 0"
    then have "unat (ucast (of_nat (64 * n) div 64 div 100 :: uint64) :: uint32) = 0" by simp
    then have "n div 100 mod 2 ^ 32 = 0" unfolding ucast_mod p by simp
    moreover have "n div 100 < 2 ^ 32" using n(1) div_le_dividend [of n 100] by simp
    ultimately show False using n(2) by simp
  qed
  moreover have "unat i < n" if "i \<in> set sched" for i
  proof -
    from that s have "i \<in> of_nat ` {0..<n}" by simp
    then obtain j where "j < n" "i = of_nat j" by auto
    then show ?thesis using n(1) by (simp add: unat_of_nat)
  qed
  ultimately obtain ds where "generateDataset keccak512 cache (of_nat (64 * n)) sched = Some ds" "length ds = 64 * n"
    "\<forall>j < n. block ds j = item keccak512 cache j"
    using write_items_correct [OF c n(1), of sched "replicate (64 * n) 0"] s u by (auto simp: generateDataset_def)
  moreover from this have "ds = full_dataset keccak512 cache n"
    using blocks_eq [of ds n] unfolding full_dataset_def by (metis (no_types, lifting) atLeastLessThan_iff map_eq_conv set_upt)
  ultimately show ?thesis by simp
qed

section \<open>Full and light verification\<close>

lemma mix_round_cong:
  assumes l: "\<And>index. unat index < 2 * unat rows \<Longrightarrow> look1 index = look2 index" and r: "rows \<noteq> 0" "unat rows \<le> 2 ^ 31"
  shows "mix_round rows seedHead look1 i mt = mix_round rows seedHead look2 i mt"
proof -
  have e: "look1 (2 * (x mod rows) + j) = look2 (2 * (x mod rows) + j)" if "unat j < 2" for x j
  proof -
    have "unat (x mod rows) < unat rows" using r(1) by (simp add: unat_mod unat_gt_0)
    then have "2 * unat (x mod rows) + unat j < 2 * unat rows" using that by linarith
    moreover from this have "unat (2 * (x mod rows) + j) = 2 * unat (x mod rows) + unat j"
      using r(2) by (simp add: unat_word_ariths)
    ultimately show ?thesis by (intro l) simp
  qed
  have "look1 (2 * (x mod rows)) = look2 (2 * (x mod rows))" for x using e [of 0 x] by simp
  then show ?thesis using e [of 1] by (simp add: mix_round_def case_prod_beta)
qed

lemma mix_rounds_cong:
  assumes "\<And>index. unat index < 2 * unat rows \<Longrightarrow> look1 index = look2 index" "rows \<noteq> 0" "unat rows \<le> 2 ^ 31"
  shows "mix_rounds rows seedHead look1 is mt = mix_rounds rows seedHead look2 is mt"
proof (induction "is" arbitrary: mt)
  case (Cons i "is")
  have "mix_rounds rows seedHead look1 is = mix_rounds rows seedHead look2 is" using Cons.IH by (rule ext)
  moreover have "mix_round rows seedHead look1 i mt = mix_round rows seedHead look2 i mt"
    by (rule mix_round_cong) (use assms in auto)
  ultimately show ?case by simp
qed simp

lemma hashimoto_cong:
  assumes "\<And>index. unat index < 2 * unat (ucast (sz div 128) :: uint32) \<Longrightarrow> look1 index = look2 index" "sz \<le> 2 ^ 38"
  shows "hashimoto k256 k512 hash nonce sz look1 = hashimoto k256 k512 hash nonce sz look2"
proof (cases "(ucast (sz div 128) :: uint32) = 0")
  case False
  have "unat sz div 128 \<le> 2 ^ 31" using assms(2) by (simp add: word_le_nat_alt)
  then have "unat (ucast (sz div 128) :: uint32) \<le> 2 ^ 31" by (simp add: ucast_mod unat_div)
  from mix_rounds_cong [OF assms(1) False this] show ?thesis using False by (simp add: hashimoto_def mixBytes_def Let_def)
qed (simp add: hashimoto_def mixBytes_def Let_def)

lemma length_full_dataset:
  assumes "cache_ok cache m" "sized 64 keccak512"
  shows "length (full_dataset keccak512 cache n) = 64 * n"
  using item_eq(2) [OF assms] by (induction n) (simp_all add: full_dataset_def)

lemma full_dataset_block:
  assumes "cache_ok cache m" "sized 64 keccak512" "i < n"
  shows "take 64 (drop (64 * i) (full_dataset keccak512 cache n)) = item keccak512 cache i"
  using take_drop_concat [of "map (item keccak512 cache) [0..<n]" 64 i] item_eq(2) [OF assms(1,2)] assms(3)
  by (fastforce simp: full_dataset_def)

lemma full_eq_light:
  assumes c: "cache_ok cache m" "sized 64 keccak512" and n: "64 * n \<le> 2 ^ 32"
  shows "hashimotoFull keccak256 keccak512 (LE_words (full_dataset keccak512 cache n)) hash nonce =
     hashimotoLight keccak256 keccak512 (of_nat (64 * n)) cache hash nonce"
proof -
  let ?D = "LE_words (full_dataset keccak512 cache n)"
  have l: "length ?D = 16 * n" using length_full_dataset [OF c, of n] by simp
  have u: "unat (of_nat (64 * n) :: uint64) = 64 * n" using n by (subst unat_of_nat) simp
  have sz: "of_nat (length ?D) * 4 = (of_nat (64 * n) :: uint64)" unfolding l by simp
  have r: "2 * unat (ucast (of_nat (64 * n) div 128 :: uint64) :: uint32) \<le> n"
    unfolding ucast_mod unat_div u using n by simp
  have "slice ?D (unat (index * of_nat hashWords)) (unat (index * of_nat hashWords + of_nat hashWords)) =
      map_option LE_words (generateDatasetItem keccak512 cache index)"
    if "unat index < 2 * unat (ucast (of_nat (64 * n) div 128 :: uint64) :: uint32)" for index
  proof -
    have i: "unat index < n" using that r by simp
    then have o: "unat (index * 16) = 16 * unat index" "unat (index * 16 + 16) = 16 * unat index + 16"
      using n by (simp_all add: unat_word_ariths)
    have "take 16 (drop (16 * unat index) ?D) = LE_words (take 64 (drop (64 * unat index) (full_dataset keccak512 cache n)))"
      using LE_words_take_drop [of 16 "16 * unat index" "full_dataset keccak512 cache n"] i length_full_dataset [OF c, of n] by simp
    then show ?thesis
      using full_dataset_block [OF c i] item_eq(1) [OF c, of index] i l by (simp add: slice_def hashWords_def o)
  qed
  moreover have "of_nat (64 * n) \<le> (2 ^ 38 :: uint64)" unfolding word_le_nat_alt u using n by simp
  ultimately show ?thesis
    unfolding hashimotoFull_def hashimotoLight_def sz Let_def by (intro hashimoto_cong)
qed

section \<open>Goroutines\<close>

lemma batch_cover:
  fixes b n t :: nat
  assumes "b = (n + t - 1) div t" "0 < t"
  shows "(\<Union>k < t. {k * b..<min (k * b + b) n}) = {0..<n}" "t * b \<le> n + t"
proof -
  have "n \<le> b * t" using assms dividend_less_times_div [of t "n + t - 1"] by (simp add: algebra_simps)
  moreover have "i \<in> {(i div b) * b..<min ((i div b) * b + b) n} \<and> i div b < t" if "i < n" for i
  proof -
    have b: "0 < b" using that \<open>n \<le> b * t\<close> by (cases b) auto
    have "i div b < t" using that \<open>n \<le> b * t\<close> b by (simp add: div_less_iff_less_mult mult.commute)
    then show ?thesis using that dividend_less_div_times [OF b, of i] by simp
  qed
  ultimately show "(\<Union>k < t. {k * b..<min (k * b + b) n}) = {0..<n}" by fastforce
  have "t * b \<le> n + t - 1" unfolding assms(1) by (rule times_div_less_eq_dividend)
  then show "t * b \<le> n + t" by linarith
qed

lemma batch_indices_set:
  assumes n: "64 * n \<le> 2 ^ 32" and t: "0 < t" "t \<le> 2 ^ 16"
  shows "set (concat (map (batch_indices (of_nat (64 * n)) t) [0..<t])) = of_nat ` {0..<n}"
proof -
  define b where "b = (n + t - 1) div t"
  note B = batch_cover [OF b_def t(1)]
  have u: "unat (of_nat (64 * n) :: uint64) = 64 * n" using n by (subst unat_of_nat) simp
  have sum: "unat (of_nat (64 * n) + 64 * of_nat t - 1 :: uint64) = 64 * n + 64 * t - 1"
  proof -
    have "of_nat (64 * n) + 64 * of_nat t - 1 = (of_nat (64 * n + 64 * t - 1) :: uint64)"
      using t by (simp add: of_nat_diff)
    then show ?thesis using n t by (simp add: unat_of_nat del: of_nat_diff)
  qed
  have den: "unat (64 * of_nat t :: uint64) = 64 * t"
    using t by (simp add: unat_word_ariths unat_of_nat)
  have "(64 * n + 64 * t - 1) div (64 * t) = (64 * n + 64 * t - 1) div 64 div t" by (simp add: div_mult2_eq)
  also have "(64 * n + 64 * t - 1) div 64 = n + t - 1" using t by (intro div_nat_eqI) auto
  finally have q: "(64 * n + 64 * t - 1) div (64 * t) = b" by (simp add: b_def)
  have bt: "k * b + b \<le> n + t" if "k < t" for k
  proof -
    have "Suc k * b \<le> t * b" using that by (intro mult_le_mono1) simp
    then show ?thesis using B(2) by simp
  qed
  then have b: "b \<le> n + t" using t(1) by fastforce
  define w :: uint32 where "w = ucast ((of_nat (64 * n) + 64 * of_nat t - 1) div (64 * of_nat t) :: uint64)"
  have w: "unat w = b" unfolding w_def ucast_mod unat_div sum den q using b n t by simp
  have lim: "unat (ucast (of_nat (64 * n) div 64 :: uint64) :: uint32) = n" unfolding ucast_mod unat_div u using n by simp
  have "set (batch_indices (of_nat (64 * n)) t k) = of_nat ` {k * b..<min (k * b + b) n}" if k: "k < t" for k
  proof -
    have s: "k * b + b < 2 ^ 32" using bt [OF k] n t by simp
    then have f: "unat (of_nat k * w) = k * b" "unat (of_nat k * w + w) = k * b + b"
      using k t by (simp_all add: unat_word_ariths unat_of_nat w)
    show ?thesis
      unfolding batch_indices_def Let_def w_def [symmetric] using f lim by (auto simp: word_less_nat_alt min_def)
  qed
  then have "set (concat (map (batch_indices (of_nat (64 * n)) t) [0..<t])) =
      (\<Union>k < t. of_nat ` {k * b..<min (k * b + b) n})" by (auto simp: atLeast0LessThan)
  also have "\<dots> = of_nat ` {0..<n}" unfolding B(1) [symmetric] by (simp only: image_UN)
  finally show ?thesis .
qed

section \<open>Totality\<close>

lemma mix_rounds_total:
  assumes l: "\<And>index. \<exists>d. lookup index = Some d \<and> length d = 16"
    and m: "length mix = 32" "length temp = 32"
  shows "\<exists>mix' temp'. mix_rounds rows seedHead lookup is (mix, temp) = Some (mix', temp') \<and> length mix' = 32"
  using m
proof (induction "is" arbitrary: mix temp)
  case (Cons i "is")
  define parent where "parent = fnv (Bit_Operations.xor (of_nat i) seedHead) (mix ! (i mod 32)) mod rows"
  obtain d0 d1 where d: "lookup (2 * parent) = Some d0" "lookup (2 * parent + 1) = Some d1" "length d0 = 16" "length d1 = 16"
    using l by metis
  let ?temp = "copy_at (copy_at temp 0 d0) hashWords d1"
  have t: "length ?temp = 32" using d Cons.prems by (simp add: hashWords_def)
  from fnvHash_ok [of mix ?temp] t Cons.prems obtain mix' where f: "fnvHash mix ?temp = Some mix'" "length mix' = 32" by auto
  from Cons.IH [OF f(2) t] show ?case
    using d f Cons.prems by (simp add: mix_round_def index_opt_def Let_def flip: parent_def)
qed simp

lemma length_compress [simp]: "length (compress ks mix) = length mix"
  by (induction ks mix rule: compress.induct) simp_all

lemma hashimotoLight_total:
  assumes c: "cache_ok cache m" "sized 64 keccak512" and sz: "ucast (sz div 128) \<noteq> (0 :: uint32)"
  shows "\<exists>digest result. hashimotoLight keccak256 keccak512 sz cache hash nonce = Some (digest, result) \<and> length digest = 32"
proof -
  define seed where "seed = keccak512 (copy_at (copy_at (replicate 40 0) 0 hash) 32 (rev (word_bytes 8 nonce)))"
  have s: "length seed = 64" using c(2) by (simp add: seed_def sized_def)
  then obtain head where head: "LE_Uint32 seed = Some head" by (simp add: LE_Uint32_def)
  let ?ms = "map (\<lambda>i. LE_Uint32 (drop (i mod 16 * 4) seed)) [0..<mixBytes div 4]"
  have "collect ?ms = Some (map the ?ms)" using s by (intro collect_Some) (auto simp: LE_Uint32_def)
  moreover have "length (map the ?ms) = 32" by (simp add: mixBytes_def)
  ultimately obtain mix where mix: "collect ?ms = Some mix" "length mix = 32" by blast
  define look where "look = (\<lambda>index. map_option LE_words (generateDatasetItem keccak512 cache index))"
  have "\<exists>d. look index = Some d \<and> length d = 16" for index
    using generateDatasetItem_total [OF c, of index] by (auto simp: look_def)
  then have "\<exists>mix' temp'. mix_rounds (ucast (sz div 128)) head look [0..<loopAccesses] (mix, replicate 32 0) = Some (mix', temp') \<and> length mix' = 32"
    by (rule mix_rounds_total [OF _ mix(2)]) simp
  then obtain mix' temp' where
    "mix_rounds (ucast (sz div 128)) head look [0..<loopAccesses] (mix, replicate 32 0) = Some (mix', temp')" "length mix' = 32" by auto
  moreover have "length (concat (map LE_bytes ws)) = 4 * length ws" for ws by (induction ws) simp_all
  ultimately show ?thesis
    using sz head mix unfolding hashimotoLight_def hashimoto_def Let_def seed_def [symmetric] look_def [symmetric]
    by (simp add: mixBytes_def)
qed

section \<open>Properties\<close>

text \<open>
  C13.  Full and light verification agree.  For a dataset of at most 4 GiB, whatever number of goroutines
  generates it and however their writes interleave, the dataset is complete, and the proof of work computed
  from it is the one computed from the cache.
\<close>

theorem ethash_full_eq_light:
  assumes "cache_ok cache m" and "sized 64 keccak512" and "64 * n \<le> 2 ^ 32" and "100 \<le> n" and "0 < threads" and "threads \<le> 2 ^ 16"
    and "mset schedule = mset (concat (map (batch_indices (of_nat (64 * n)) threads) [0..<threads]))"
  shows "\<exists>dataset. generateDataset keccak512 cache (of_nat (64 * n)) schedule = Some dataset \<and> length dataset = 64 * n \<and>
     hashimotoFull keccak256 keccak512 (LE_words dataset) hash nonce =
     hashimotoLight keccak256 keccak512 (of_nat (64 * n)) cache hash nonce"
proof -
  have "set schedule = of_nat ` {0..<n}"
    using batch_indices_set [OF assms(3,5,6)] mset_eq_setD [OF assms(7)] by simp
  from generateDataset_eq [OF assms(1-4) this] show ?thesis
    using full_eq_light [OF assms(1-3)] length_full_dataset [OF assms(1,2)] by blast
qed

theorem ethash_full_eq_light_witness:
  "\<exists>dataset. generateDataset (\<lambda>b. replicate 64 (of_nat (length b))) (replicate 32 7) 8192
       (concat (map (batch_indices 8192 3) [0..<3])) = Some dataset \<and> length dataset = 8192 \<and>
     hashimotoFull (\<lambda>b. replicate 32 1) (\<lambda>b. replicate 64 (of_nat (length b))) (LE_words dataset) [] 5 =
     hashimotoLight (\<lambda>b. replicate 32 1) (\<lambda>b. replicate 64 (of_nat (length b))) 8192 (replicate 32 7) [] 5"
proof -
  have "cache_ok (replicate 32 7) 2" "sized 64 (\<lambda>b. replicate 64 (of_nat (length b)))" by (simp_all add: cache_ok_def sized_def)
  from ethash_full_eq_light [OF this, of 128 3 "concat (map (batch_indices 8192 3) [0..<3])" "\<lambda>b. replicate 32 1" "[]" 5]
  show ?thesis by simp
qed

text \<open>
  The offset of an item is computed in 32 bits, so item \<open>2^26 + j\<close> is written over item \<open>j\<close>: a dataset of
  more than 4 GiB loses the items of its first part, and its own last part is never written.
\<close>

theorem dataset_offset_wraps:
  assumes "cache_ok cache m" and "sized 64 keccak512" and "j < 2 ^ 26" and "64 * j + 64 \<le> length dataset"
  shows "\<exists>dataset'. write_items keccak512 cache [of_nat j, of_nat (2 ^ 26 + j)] dataset = Some dataset' \<and>
     block dataset' j = item keccak512 cache (2 ^ 26 + j) \<and>
     (\<forall>k. k \<noteq> j \<longrightarrow> 64 * k + 64 \<le> length dataset \<longrightarrow> block dataset' k = block dataset k)"
proof -
  note I = item_eq [OF assms(1,2)]
  have u: "unat (of_nat j :: uint32) = j" "unat (of_nat (2 ^ 26 + j) :: uint32) = 2 ^ 26 + j"
    using assms(3) by (simp_all add: unat_of_nat del: of_nat_add)
  have "unat (of_nat j * of_nat hashBytes :: uint32) = 64 * j" using assms(3) by (simp add: hashBytes_def unat_word_ariths u(1))
  moreover have "unat (of_nat (2 ^ 26 + j) * of_nat hashBytes :: uint32) = 64 * j"
  proof -
    have "unat (of_nat (2 ^ 26 + j) * of_nat hashBytes :: uint32) = (2 ^ 26 + j) * 64 mod 2 ^ 32"
      by (simp only: unat_word_ariths u(2)) (simp add: hashBytes_def)
    also have "(2 ^ 26 + j) * 64 = 2 ^ 32 + 64 * j" by simp
    also have "(2 ^ 32 + 64 * j) mod 2 ^ 32 = 64 * j" using assms(3) by simp
    finally show ?thesis .
  qed
  ultimately show ?thesis
    using assms(4) I(1) [of "of_nat j"] I(1) [of "of_nat (2 ^ 26 + j)"] I(2) u
    by (simp add: write_item_def block_copy_at Let_def)
qed

theorem dataset_offset_wraps_witness:
  "\<exists>dataset'. write_items (\<lambda>b. replicate 64 1) (replicate 16 7) [0, 0x4000000] (replicate 64 0) = Some dataset' \<and>
     block dataset' 0 = item (\<lambda>b. replicate 64 1) (replicate 16 7) 0x4000000"
proof -
  have "cache_ok (replicate 16 7) 1" "sized 64 (\<lambda>b. replicate 64 1)" by (simp_all add: cache_ok_def sized_def)
  from dataset_offset_wraps [OF this, of 0 "replicate 64 0"] show ?thesis by auto
qed

end
