(* ===== verification/Block_Types.thy ===== *)
theory Block_Types
  imports Params Rlp_Spec State_Object
begin

text \<open>
  \<^verbatim>\<open>core/types/block.go\<close>: headers, blocks, their hashes and the block nonce.  The transactions of a block are
  left out: no rule of this development looks at them through the block.  A hash is Keccak-256 of an RLP
  encoding; Keccak-256 is the parameter \<open>keccak\<close>.
\<close>

section \<open>Nonces\<close>

type_synonym BlockNonce = bytes

definition EncodeNonce :: "uint64 \<Rightarrow> BlockNonce" where
  "EncodeNonce i = word_bytes 8 i"

definition BlockNonce_Uint64 :: "BlockNonce \<Rightarrow> uint64" where
  "BlockNonce_Uint64 n = word_of_int (SetBytes n)"

section \<open>Headers\<close>

record Header =
  h_ParentHash :: Hash
  h_UncleHash :: Hash
  h_Coinbase :: Address
  h_Root :: Hash
  h_TxHash :: Hash
  h_ReceiptHash :: Hash
  h_Bloom :: bytes
  h_Difficulty :: int
  h_Number :: int
  h_GasLimit :: uint64
  h_GasUsed :: uint64
  h_Time :: int
  h_Extra :: bytes
  h_MixDigest :: Hash
  h_Nonce :: BlockNonce

text \<open>
  The fields that both the hash of a header and the hash before sealing encode, in order.
\<close>

definition header_fields :: "Header \<Rightarrow> rlp_val list" where
  "header_fields h =
     [RBytes (Hash_Bytes (h_ParentHash h)), RBytes (Hash_Bytes (h_UncleHash h)), RBytes (Address_Bytes (h_Coinbase h)),
      RBytes (Hash_Bytes (h_Root h)), RBytes (Hash_Bytes (h_TxHash h)), RBytes (Hash_Bytes (h_ReceiptHash h)),
      RBytes (h_Bloom h), RBig (Some (h_Difficulty h)), RBig (Some (h_Number h)), RUint (h_GasLimit h),
      RUint (h_GasUsed h), RBig (Some (h_Time h)), RBytes (h_Extra h)]"

definition header_rlp :: "Header \<Rightarrow> rlp_val" where
  "header_rlp h = RList (header_fields h @ [RBytes (Hash_Bytes (h_MixDigest h)), RBytes (h_Nonce h)])"

text \<open>
  \<^verbatim>\<open>rlpHash\<close> ignores the error of the encoder: what is hashed then is the empty string, since nothing was
  written.
\<close>

definition rlpHash :: "(bytes \<Rightarrow> Hash) \<Rightarrow> rlp_val \<Rightarrow> Hash" where
  "rlpHash keccak v = keccak (case EncodeToBytes v of Some (Inr b) \<Rightarrow> b | _ \<Rightarrow> [])"

definition Header_Hash :: "(bytes \<Rightarrow> Hash) \<Rightarrow> Header \<Rightarrow> Hash" where
  "Header_Hash keccak h = rlpHash keccak (header_rlp h)"

definition CalcUncleHash :: "(bytes \<Rightarrow> Hash) \<Rightarrow> Header list \<Rightarrow> Hash" where
  "CalcUncleHash keccak uncles = rlpHash keccak (RList (map header_rlp uncles))"

definition EmptyUncleHash :: "(bytes \<Rightarrow> Hash) \<Rightarrow> Hash" where
  "EmptyUncleHash keccak = CalcUncleHash keccak []"

section \<open>Blocks\<close>

record Block =
  b_header :: Header
  b_uncles :: "Header list"

definition Block_Hash :: "(bytes \<Rightarrow> Hash) \<Rightarrow> Block \<Rightarrow> Hash" where
  "Block_Hash keccak b = Header_Hash keccak (b_header b)"

definition NumberU64 :: "Block \<Rightarrow> uint64" where
  "NumberU64 b = Uint64 (h_Number (b_header b))"

section \<open>Chains\<close>

text \<open>The interface \<^verbatim>\<open>consensus.ChainReader\<close>, as far as the rules ask it.\<close>

record ChainReader =
  chain_Config :: ChainConfig
  chain_GetHeader :: "Hash \<Rightarrow> uint64 \<Rightarrow> Header option"
  chain_GetBlock :: "Hash \<Rightarrow> uint64 \<Rightarrow> Block option"

end
