(* ===== verification/Ethash_Rules_Correct.thy ===== *)
theory Ethash_Rules_Correct
  imports Ethash_Rules State_Correct
begin

text \<open>
  What the rules of the engine accept, what the miner's choice of a gas limit means for the verifier, and
  what the constant difficulty of this client does to the proof of work.
\<close>

section \<open>Gas limits\<close>

lemma small_diff:
  assumes "a < 2 ^ 63" "b < (2 :: nat) ^ 63"
  shows "signed_take_bit 63 (int a - int b) = int a - int b" "\<bar>int a - int b\<bar> < 2 ^ 64"
proof -
  have "int a < 9223372036854775808" "int b < 9223372036854775808" using assms by simp_all
  then show "signed_take_bit 63 (int a - int b) = int a - int b" "\<bar>int a - int b\<bar> < 2 ^ 64"
    by (simp_all add: signed_take_bit_int_eq_self abs_less_iff)
qed

lemma sint_diff:
  assumes "unat (x :: uint64) < 2 ^ 63" "unat y < 2 ^ 63"
  shows "sint (x - y) = int (unat x) - int (unat y)"
proof -
  have "sint (x - y) = signed_take_bit 63 (int (unat x) - int (unat y))"
    by (simp add: sint_uint uint_word_ariths signed_take_bit_eq_take_bit_shift take_bit_eq_mod mod_simps)
  also have "\<dots> = int (unat x) - int (unat y)" by (rule small_diff(1) [OF assms])
  finally show ?thesis .
qed

lemma gas_limit_check_iff:
  assumes "unat (h_GasLimit parent) < 2 ^ 63" "unat (h_GasLimit header) < 2 ^ 63"
  shows "gas_limit_check header parent = None \<longleftrightarrow>
     \<bar>int (unat (h_GasLimit parent)) - int (unat (h_GasLimit header))\<bar> < int (unat (h_GasLimit parent) div 1024) \<and>
     5000 \<le> unat (h_GasLimit header)"
proof -
  let ?d = "int (unat (h_GasLimit parent)) - int (unat (h_GasLimit header))"
  define d :: uint64 where "d = (if ?d < 0 then word_of_int (?d * -1) else word_of_int ?d)"
  have "d = word_of_int \<bar>?d\<bar>" by (simp add: d_def)
  moreover have "\<bar>?d\<bar> < 2 ^ 64" by (rule small_diff(2) [OF assms])
  ultimately have u: "unat d = nat \<bar>?d\<bar>"
    by (simp only: unat_eq_nat_uint uint_word_of_int) (simp add: mod_pos_pos_trivial)
  have "gas_limit_check header parent = None \<longleftrightarrow> \<not> (d \<ge> h_GasLimit parent div 1024 \<or> h_GasLimit header < 5000)"
    by (simp add: gas_limit_check_def sint_diff [OF assms] d_def GasLimitBoundDivisor_def MinGasLimit_def Let_def)
  also have "\<dots> \<longleftrightarrow> nat \<bar>?d\<bar> < unat (h_GasLimit parent) div 1024 \<and> 5000 \<le> unat (h_GasLimit header)"
    by (simp add: word_le_nat_alt word_less_nat_alt u unat_div not_le not_less)
  finally show ?thesis by (simp add: nat_less_iff)
qed

section \<open>Headers\<close>

definition header_valid :: "(bytes \<Rightarrow> Hash) \<Rightarrow> int \<Rightarrow> ChainConfig \<Rightarrow> Header \<Rightarrow> Header \<Rightarrow> bool \<Rightarrow> bool" where
  "header_valid keccak now config header parent uncle \<longleftrightarrow>
     length (h_Extra header) \<le> 32 \<and>
     (if uncle then h_Time header < 2 ^ 256 else h_Time header \<le> now + 15) \<and> h_Time parent < h_Time header \<and>
     h_Difficulty header = 1 \<and> unat (h_GasLimit header) < 2 ^ 63 \<and> unat (h_GasUsed header) \<le> unat (h_GasLimit header) \<and>
     \<bar>int (unat (h_GasLimit parent)) - int (unat (h_GasLimit header))\<bar> < int (unat (h_GasLimit parent) div 1024) \<and>
     5000 \<le> unat (h_GasLimit header) \<and> h_Number header = h_Number parent + 1 \<and>
     VerifyDAOHeaderExtraData config header = None \<and> VerifyForkHashes keccak config header uncle = None"

lemma verifyHeader_iff:
  assumes "unat (h_GasLimit parent) < 2 ^ 63" "length (h_Extra header) < 2 ^ 63"
  shows "verifyHeader pow eth now chain header parent uncle False = Some None \<longleftrightarrow>
     header_valid (pow_hash pow) now (chain_Config chain) header parent uncle"
proof -
  have l: "(of_nat (length (h_Extra header)) :: uint64) > MaximumExtraDataSize \<longleftrightarrow> length (h_Extra header) > 32"
    using assms(2) by (simp add: MaximumExtraDataSize_def word_less_nat_alt unat_of_nat_small)
  have g: "h_GasLimit header > 0x7fffffffffffffff \<longleftrightarrow> \<not> unat (h_GasLimit header) < 2 ^ 63"
    by (simp add: word_less_nat_alt) linarith
  have t: "h_Time header > MaxBig256 \<longleftrightarrow> \<not> h_Time header < 2 ^ 256" by (simp add: MaxBig256_def tt256m1_def tt256_def) linarith
  show ?thesis
  proof (cases "unat (h_GasLimit header) < 2 ^ 63")
    case True
    from gas_limit_check_iff [OF assms(1) True] show ?thesis
      unfolding verifyHeader_def header_valid_def l g t
      by (auto simp: Ethash_CalcDifficulty_def allowedFutureBlockTime_def word_less_nat_alt Let_def split: option.splits)
  next
    case False
    then show ?thesis unfolding verifyHeader_def header_valid_def l g t by (auto simp: Let_def)
  qed
qed


definition demo_header :: Header where
  "demo_header =
     \<lparr>h_ParentHash = 0, h_UncleHash = 0, h_Coinbase = 0x3333333333333333333333333333333333333333, h_Root = 0,
      h_TxHash = 0, h_ReceiptHash = 0, h_Bloom = replicate 256 0, h_Difficulty = 1, h_Number = 1,
      h_GasLimit = 8000000, h_GasUsed = 21000, h_Time = 100, h_Extra = [], h_MixDigest = 0, h_Nonce = replicate 8 0\<rparr>"

definition demo_pow :: Pow where
  "demo_pow =
     \<lparr>pow_hash = (\<lambda>b. of_nat (length b)), pow_keccak256 = (\<lambda>b. replicate 32 0), pow_keccak512 = (\<lambda>b. replicate 64 0),
      pow_cache = (\<lambda>_ _. replicate 16 0), pow_datasetSize = (\<lambda>_. 8192), pow_dataset = (\<lambda>_. None)\<rparr>"

definition demo_chain :: ChainReader where
  "demo_chain =
     \<lparr>chain_Config = \<lparr>ChainID = Some 456719, HomesteadBlock = Some 0, DAOForkBlock = None, DAOForkSupport = False,
        EIP150Block = None, EIP150Hash = 0, EIP155Block = Some 0, EIP158Block = Some 0, ByzantiumBlock = None,
        ConstantinopleBlock = None, EWASMBlock = None\<rparr>, chain_GetHeader = (\<lambda>_ _. None), chain_GetBlock = (\<lambda>_ _. None)\<rparr>"


section \<open>Difficulty\<close>

lemma add_bomb_ge: "x \<le> add_bomb p x"
  by (simp add: add_bomb_def)

lemma at_least_minimum: "131072 \<le> add_bomb p (if x < MinimumDifficulty then MinimumDifficulty else x)"
  using add_bomb_ge [of "if x < MinimumDifficulty then MinimumDifficulty else x" p] by (simp add: MinimumDifficulty_def split: if_splits)

lemma difficulties_ge:
  "131072 \<le> makeDifficultyCalculator keccak delay time parent" "131072 \<le> calcDifficultyHomestead time parent"
  "131072 \<le> calcDifficultyFrontier time parent"
  unfolding makeDifficultyCalculator_def calcDifficultyHomestead_def Let_def
  by (rule at_least_minimum)+ (simp add: calcDifficultyFrontier_def BigMax_def MinimumDifficulty_def Let_def)

lemma CalcDifficulty_ge: "131072 \<le> CalcDifficulty keccak config time parent"
  by (simp add: CalcDifficulty_def calcDifficultyConstantinople_def calcDifficultyByzantium_def difficulties_ge Let_def)

text \<open>
  C31.  The engine of this client does not verify the consensus rules of the stock Ethereum engine: the
  difficulty that the adjustment algorithm prescribes is at least 131072 on every fork, so a header that
  carries it is never accepted.
\<close>

theorem stock_difficulty_rejected:
  assumes "h_Difficulty header = CalcDifficulty keccak (chain_Config chain) (Uint64 (h_Time header)) parent"
  shows "verifyHeader pow eth now chain header parent uncle seal \<noteq> Some None"
proof -
  have "h_Difficulty header \<noteq> 1" using CalcDifficulty_ge [of keccak "chain_Config chain" "Uint64 (h_Time header)" parent] assms by linarith
  then show ?thesis by (auto simp: verifyHeader_def Ethash_CalcDifficulty_def Let_def)
qed

theorem stock_difficulty_rejected_witness:
  "verifyHeader demo_pow (Ethash ModeNormal 0 None) 200 demo_chain (demo_header\<lparr>h_Number := 2, h_Time := 110, h_Difficulty := 131072\<rparr>)
     demo_header False False \<noteq> Some None"
  by (rule stock_difficulty_rejected [where keccak = "pow_hash demo_pow"])
    (simp add: demo_header_def demo_chain_def CalcDifficulty_def calcDifficultyHomestead_def IsConstantinople_def IsByzantium_def
      IsHomestead_def isForked_def Uint64_def MinimumDifficulty_def DifficultyBoundDivisor_def add_bomb_def expDiffPeriod_def Let_def)

section \<open>Seals\<close>

lemma hashimoto_result:
  assumes "hashimoto k256 k512 hash nonce sz lookup = Some (digest, result)"
  shows "\<exists>b. result = k256 b"
  using assms by (auto simp: hashimoto_def Let_def split: Option.bind_splits if_splits)

text \<open>
  C33.  Mining costs nothing on this network: at difficulty 1 the target is 2^256, which no hash of 32 bytes
  exceeds, so the proof of work of a header is never found insufficient, whatever its nonce.
\<close>

theorem difficulty_one_accepts_all:
  assumes "\<forall>b. length (pow_keccak256 pow b) = 32" and "h_Difficulty header = 1"
    and "mode = ModeNormal \<or> mode = ModeTest \<or> mode = ModeShared"
  shows "verifySeal pow (Ethash mode fakeFail None) header fulldag \<noteq> Some (Some errInvalidPoW)"
proof -
  have t: "\<not> SetBytes r > 2 ^ 256"
    if "hashimoto (pow_keccak256 pow) k512 hash nonce sz lookup = Some (d, r)" for k512 hash nonce sz lookup d r
    using hashimoto_result [OF that] assms(1) SetBytes_less [of r] by auto
  let ?n = "Uint64 (h_Number header)" and ?h = "Hash_Bytes (SealHash (pow_hash pow) header)"
  define work where "work =
    (case (if fulldag then pow_dataset pow ?n else None) of
       Some dataset \<Rightarrow> hashimotoFull (pow_keccak256 pow) (pow_keccak512 pow) dataset ?h (BlockNonce_Uint64 (h_Nonce header))
     | None \<Rightarrow> hashimotoLight (pow_keccak256 pow) (pow_keccak512 pow) (if mode = ModeTest then 32 * 1024 else pow_datasetSize pow ?n)
         (pow_cache pow (mode = ModeTest) ?n) ?h (BlockNonce_Uint64 (h_Nonce header)))"
  have w: "\<not> SetBytes r > 2 ^ 256" if "work = Some (d, r)" for d r
    using that unfolding work_def hashimotoFull_def hashimotoLight_def by (auto split: option.splits dest: t)
  have vs: "verifySeal pow (Ethash mode fakeFail None) header fulldag =
      do { (digest, result) \<leftarrow> work;
           if Hash_Bytes (h_MixDigest header) \<noteq> digest then Some (Some errInvalidMixDigest)
           else let target = 2 ^ 256 div h_Difficulty header in
             Some (if SetBytes result > target then Some errInvalidPoW else None) }"
    using assms(2,3) unfolding work_def verifySeal.simps Let_def by (elim disjE) simp_all
  show ?thesis unfolding vs Let_def using w assms(2) by (cases work) (auto split: if_splits)
qed

theorem difficulty_one_accepts_all_witness:
  "verifySeal demo_pow (Ethash ModeNormal 0 None) demo_header False \<noteq> Some (Some errInvalidPoW)"
  by (rule difficulty_one_accepts_all) (simp_all add: demo_pow_def demo_header_def)

section \<open>Rewards\<close>

lemma GetBalance_AddBalance:
  assumes "sdb_ok s"
  shows "fst (GetBalance (AddBalance s b n) a) = fst (GetBalance s a) + (if a = b then n else 0)" "sdb_ok (AddBalance s b n)"
proof -
  note A = AddBalance_correct [OF assms, of b n]
  then show ok: "sdb_ok (AddBalance s b n)" using evolves_ok(2) by blast
  show "fst (GetBalance (AddBalance s b n) a) = fst (GetBalance s a) + (if a = b then n else 0)"
  proof -
    let ?v = "acct_or_fresh (db s) (world s) b"
    have "acct_view (AddBalance s b n) = (acct_view s)(b \<mapsto> ?v\<lparr>v_balance := v_balance ?v + n\<rparr>)"
      using arg_cong [of _ _ w_accts, OF conjunct1 [OF conjunct2 [OF A]]] by (simp add: upd_acct_def set_acct_def)
    moreover have "fst (GetBalance t a) = (case acct_view t a of None \<Rightarrow> 0 | Some v \<Rightarrow> v_balance v)" if "sdb_ok t" for t
      using GetBalance_reads [OF that, of a] by (simp add: reads_def)
    ultimately show ?thesis using ok assms by (simp add: acct_or_fresh_def fresh_def split: option.splits)
  qed
qed

definition uncle_share :: "int \<Rightarrow> Header \<Rightarrow> Address \<Rightarrow> Header \<Rightarrow> int" where
  "uncle_share reward header a uncle =
     (if h_Coinbase uncle = a then (h_Number uncle + 8 - h_Number header) * reward div 8 else 0)"

lemma reward_uncles_correct:
  assumes "sdb_ok s"
  shows "fst (reward_uncles R header uncles r s) = r + int (length uncles) * (R div 32) \<and>
     sdb_ok (snd (reward_uncles R header uncles r s)) \<and>
     fst (GetBalance (snd (reward_uncles R header uncles r s)) a) = fst (GetBalance s a) + sum_list (map (uncle_share R header a) uncles)"
  using assms
proof (induction uncles arbitrary: r s)
  case (Cons u us)
  let ?s = "AddBalance s (h_Coinbase u) ((h_Number u + 8 - h_Number header) * R div 8)"
  note B = GetBalance_AddBalance [OF Cons.prems, of "h_Coinbase u" "(h_Number u + 8 - h_Number header) * R div 8"]
  from Cons.IH [OF B(2), of "r + R div 32"] B(1) [of a] show ?case
    by (auto simp: Let_def uncle_share_def algebra_simps)
qed simp

text \<open>
  C26.  Finishing a block mints exactly the rewards: the miner gets the block reward of the fork plus one
  32nd of it for every uncle, the miner of an uncle gets the reward reduced by one eighth per generation
  that the uncle is old, and no other balance changes.
\<close>

theorem accumulateRewards_correct:
  assumes "sdb_ok s" and "R = block_reward config (h_Number header)"
  shows "fst (GetBalance (accumulateRewards config s header uncles) a) =
     fst (GetBalance s a) + sum_list (map (uncle_share R header a) uncles) +
     (if a = h_Coinbase header then R + int (length uncles) * (R div 32) else 0)"
  using reward_uncles_correct [OF assms(1), of R header uncles R a]
    GetBalance_AddBalance(1) [of "snd (reward_uncles R header uncles R s)" "h_Coinbase header" "fst (reward_uncles R header uncles R s)" a]
  by (simp add: accumulateRewards_def assms(2) case_prod_beta Let_def)

theorem accumulateRewards_correct_witness:
  "fst (GetBalance (accumulateRewards (chain_Config demo_chain) (New void_backend emptyTrie) demo_header []) (h_Coinbase demo_header)) =
   fst (GetBalance (New void_backend emptyTrie) (h_Coinbase demo_header)) + 5000000000000000000"
  using accumulateRewards_correct [OF sdb_ok_New [OF void_backend_ok, of emptyTrie] refl, of "chain_Config demo_chain" demo_header "[]" "h_Coinbase demo_header"]
  by (simp add: block_reward_def FrontierBlockReward_def demo_chain_def demo_header_def IsConstantinople_def IsByzantium_def isForked_def)

section \<open>Uncles\<close>

lemma check_uncles_sound:
  assumes "check_uncles pow eth now chain parentHash ancestors seen uncles = Some None"
  shows "distinct (map (Header_Hash (pow_hash pow)) uncles) \<and>
     (\<forall>u \<in> set uncles. Header_Hash (pow_hash pow) u \<notin> seen \<and> ancestors (Header_Hash (pow_hash pow) u) = None \<and>
        h_ParentHash u \<noteq> parentHash \<and>
        (\<exists>p. ancestors (h_ParentHash u) = Some p \<and> verifyHeader pow eth now chain u p True True = Some None))"
  using assms
proof (induction uncles arbitrary: seen)
  case (Cons u us)
  then have 1: "Header_Hash (pow_hash pow) u \<notin> seen" "ancestors (Header_Hash (pow_hash pow) u) = None" "h_ParentHash u \<noteq> parentHash"
    "\<exists>p. ancestors (h_ParentHash u) = Some p \<and> verifyHeader pow eth now chain u p True True = Some None"
    "check_uncles pow eth now chain parentHash ancestors (insert (Header_Hash (pow_hash pow) u) seen) us = Some None"
    by (auto simp: Let_def split: if_splits option.splits Option.bind_splits)
  from Cons.IH [OF 1(5)] 1 show ?case by auto
qed simp

text \<open>The hashes of the last seven generations before a block.\<close>

fun generations :: "(bytes \<Rightarrow> Hash) \<Rightarrow> ChainReader \<Rightarrow> nat \<Rightarrow> Hash \<Rightarrow> uint64 \<Rightarrow> Block list" where
  "generations keccak chain 0 parent number = []"
| "generations keccak chain (Suc k) parent number =
     (case chain_GetBlock chain parent number of
        None \<Rightarrow> []
      | Some b \<Rightarrow> b # generations keccak chain k (h_ParentHash (b_header b)) (number - 1))"

lemma gather_family_eq:
  "gather_family keccak chain k parent number (us, as) =
     (us \<union> (\<Union>b \<in> set (generations keccak chain k parent number). Header_Hash keccak ` set (b_uncles b)),
      as ++ map_of (rev (map (\<lambda>b. (Block_Hash keccak b, b_header b)) (generations keccak chain k parent number))))"
  by (induction k arbitrary: parent number us as) (auto simp: map_add_def split: option.splits)



section \<open>The miner's gas limit\<close>

lemma contrib_bound:
  fixes P U q c :: nat
  assumes "5120 \<le> P" "U \<le> P" "q = P div 1024" "c = (U + U div 2) div 1024"
  shows "5 \<le> q" "c + 2 \<le> 2 * q" "q * 1024 \<le> P"
proof -
  show q: "5 \<le> q" "q * 1024 \<le> P" using assms by simp_all
  have "P < q * 1024 + 1024" using assms(3) by simp
  moreover have "c * 1024 \<le> U + U div 2" using assms(4) by simp
  ultimately have "2 * c < 3 * q + 3" using assms(2) by simp
  then show "c + 2 \<le> 2 * q" using q by simp
qed

lemma proposal_bound:
  fixes P q c F C L :: nat
  assumes "5120 \<le> P" "5 \<le> q" "c + 2 \<le> 2 * q" "q * 1024 \<le> P" "5000 \<le> C"
    and "L = (let l = P - (q - 1) + c; l = (if l < 5000 then 5000 else l) in
       if l < F then (if P + (q - 1) > F then F else P + (q - 1))
       else if l > C then (if P - (q - 1) < C then C else P - (q - 1)) else l)"
  shows "P < L + q" "L < P + q" "5000 \<le> L"
proof -
  have "5000 \<le> P - (q - 1)" using assms(1,2,4) by linarith
  then have m: "\<not> P - (q - 1) + c < 5000" by linarith
  have "L = P - (q - 1) + c \<or> L = P + (q - 1) \<or> L = P - (q - 1) \<or>
        (L = F \<and> P - (q - 1) + c < F \<and> F < P + (q - 1)) \<or> (L = C \<and> P - (q - 1) < C \<and> C < P - (q - 1) + c)"
    unfolding assms(6) Let_def if_not_P [OF m] by (simp only: split: if_split) arith
  then show "P < L + q" "L < P + q" "5000 \<le> L"
    using assms(1-5) by (elim disjE; linarith)+
qed

text \<open>
  C32.  The miner and the verifier agree: the gas limit that \<^verbatim>\<open>CalcGasLimit\<close> proposes over a parent of at least
  5120 gas passes the gas-limit check of \<^verbatim>\<open>verifyHeader\<close>, for every floor and every ceiling of at least the
  minimum.
\<close>

theorem CalcGasLimit_accepted:
  assumes "5120 \<le> unat (h_GasLimit parent)" and "unat (h_GasLimit parent) < 2 ^ 62" and "h_GasUsed parent \<le> h_GasLimit parent"
    and "5000 \<le> unat gasCeil" and "h_GasLimit header = CalcGasLimit parent gasFloor gasCeil"
  shows "gas_limit_check header parent = None"
proof -
  let ?P = "h_GasLimit parent" and ?U = "h_GasUsed parent"
  define P U where "P = unat ?P" and "U = unat ?U"
  define q c where "q = P div 1024" and "c = (U + U div 2) div 1024"
  have U: "U \<le> P" using assms(3) by (simp add: P_def U_def word_le_nat_alt)
  have PB: "5120 \<le> P" "P < 2 ^ 62" using assms(1,2) by (simp_all add: P_def)
  note B = contrib_bound [OF PB(1) U q_def c_def]
  have dec: "unat (?P div 1024 - 1) = q - 1"
    using B(1) by (subst unat_sub) (simp_all add: word_le_nat_alt unat_div q_def P_def)
  have "U + U div 2 < 2 ^ 64" using U PB by simp
  then have con: "unat ((?U + ?U div 2) div 1024) = c" by (simp add: unat_div unat_word_ariths c_def U_def)
  have m: "unat (?P - (?P div 1024 - 1)) = P - (q - 1)"
    using B by (subst unat_sub) (simp_all add: word_le_nat_alt dec P_def)
  have c: "c \<le> P" using B by linarith
  have lim: "unat (?P - (?P div 1024 - 1) + (?U + ?U div 2) div 1024) = P - (q - 1) + c"
    using PB c by (subst unat_add_lem [THEN iffD1]) (simp_all only: m con, simp)
  have up: "unat (?P + (?P div 1024 - 1)) = P + (q - 1)"
    using PB B by (simp add: unat_word_ariths dec P_def)
  define L where "L = unat (CalcGasLimit parent gasFloor gasCeil)"
  have "L = (let l = P - (q - 1) + c; l = (if l < 5000 then 5000 else l) in
       if l < unat gasFloor then (if P + (q - 1) > unat gasFloor then unat gasFloor else P + (q - 1))
       else if l > unat gasCeil then (if P - (q - 1) < unat gasCeil then unat gasCeil else P - (q - 1)) else l)"
    unfolding L_def CalcGasLimit_def GasLimitBoundDivisor_def MinGasLimit_def Let_def using B(1)
    by (simp add: word_less_nat_alt lim up m)
  note L = proposal_bound [OF PB(1) B assms(4) this]
  have "L < 2 ^ 63" using L(2) PB(2) B(3) by simp
  moreover have "\<bar>int P - int L\<bar> < int q" using L by linarith
  ultimately show ?thesis
    using gas_limit_check_iff [of parent header] PB L(3) by (simp add: assms(5) L_def P_def q_def)
qed

theorem CalcGasLimit_accepted_witness:
  "gas_limit_check (demo_header\<lparr>h_GasLimit := CalcGasLimit demo_header 8000000 8000000\<rparr>) demo_header = None"
  by (rule CalcGasLimit_accepted [where gasFloor = 8000000 and gasCeil = 8000000]) (simp_all add: demo_header_def word_le_nat_alt)


end
