(* ===== verification/Tx_Types.thy ===== *)
theory Tx_Types
  imports Bloom Block_Types Transition Network
begin

text \<open>
  \<^verbatim>\<open>core/types/transaction.go\<close> and \<^verbatim>\<open>core/types/transaction_signing.go\<close>: transactions, their hashes, and the three
  schemes by which a transaction is signed and its sender recovered, with \<^verbatim>\<open>ValidateSignatureValues\<close> of
  \<^verbatim>\<open>crypto/crypto.go\<close>.  Keccak-256 and the recovery of a public key are parameters.  The atomic caches of hash, size
  and sender in a \<^verbatim>\<open>Transaction\<close> hold results of the functions below and are left out.

  The theory proves that signing and recovering are inverse, that a signature for one chain is refused on every
  other chain, and that this fails for the chain id zero.
\<close>

section \<open>Transactions\<close>

record Transaction =
  AccountNonce :: uint64
  Price :: int
  tx_GasLimit :: uint64
  Recipient :: "Address option"
  Amount :: int
  Payload :: bytes
  tx_V :: int
  tx_R :: int
  tx_S :: int

definition newTransaction :: "uint64 \<Rightarrow> Address option \<Rightarrow> int option \<Rightarrow> uint64 \<Rightarrow> int option \<Rightarrow> bytes \<Rightarrow> Transaction" where
  "newTransaction nonce to amount gasLimit gasPrice input =
     \<lparr>AccountNonce = nonce, Price = (case gasPrice of None \<Rightarrow> 0 | Some p \<Rightarrow> p), tx_GasLimit = gasLimit, Recipient = to,
      Amount = (case amount of None \<Rightarrow> 0 | Some a \<Rightarrow> a), Payload = input, tx_V = 0, tx_R = 0, tx_S = 0\<rparr>"

definition NewTransaction :: "uint64 \<Rightarrow> Address \<Rightarrow> int option \<Rightarrow> uint64 \<Rightarrow> int option \<Rightarrow> bytes \<Rightarrow> Transaction" where
  "NewTransaction nonce to amount gasLimit gasPrice input = newTransaction nonce (Some to) amount gasLimit gasPrice input"

definition NewContractCreation :: "uint64 \<Rightarrow> int option \<Rightarrow> uint64 \<Rightarrow> int option \<Rightarrow> bytes \<Rightarrow> Transaction" where
  "NewContractCreation nonce amount gasLimit gasPrice input = newTransaction nonce None amount gasLimit gasPrice input"

definition isProtectedV :: "int \<Rightarrow> bool" where
  "isProtectedV V = (if BitLen V \<le> 8 then (let v = Uint64 V in v \<noteq> 27 \<and> v \<noteq> 28) else True)"

definition deriveChainId :: "int \<Rightarrow> int" where
  "deriveChainId v =
     (if BitLen v \<le> 64 then
        let v = Uint64 v in
        if v = 27 \<or> v = 28 then 0 else uint ((v - 35) div 2)
      else (v - 35) div 2)"

definition tx_ChainId :: "Transaction \<Rightarrow> int" where
  "tx_ChainId tx = deriveChainId (tx_V tx)"

definition Protected :: "Transaction \<Rightarrow> bool" where
  "Protected tx = isProtectedV (tx_V tx)"

definition Cost :: "Transaction \<Rightarrow> int" where
  "Cost tx = Price tx * uint (tx_GasLimit tx) + Amount tx"

text \<open>The encoding of \<^verbatim>\<open>*common.Address\<close>: a nil pointer to an array of bytes is the empty string.\<close>

definition recipient_rlp :: "Address option \<Rightarrow> rlp_val" where
  "recipient_rlp to = (case to of None \<Rightarrow> RBytes [] | Some a \<Rightarrow> RBytes (Address_Bytes a))"

definition payload_fields :: "Transaction \<Rightarrow> rlp_val list" where
  "payload_fields tx =
     [RUint (AccountNonce tx), RBig (Some (Price tx)), RUint (tx_GasLimit tx), recipient_rlp (Recipient tx),
      RBig (Some (Amount tx)), RBytes (Payload tx)]"

definition tx_rlp :: "Transaction \<Rightarrow> rlp_val" where
  "tx_rlp tx = RList (payload_fields tx @ [RBig (Some (tx_V tx)), RBig (Some (tx_R tx)), RBig (Some (tx_S tx))])"

definition tx_Hash :: "(bytes \<Rightarrow> Hash) \<Rightarrow> Transaction \<Rightarrow> Hash" where
  "tx_Hash keccak tx = rlpHash keccak (tx_rlp tx)"

section \<open>Signers\<close>

datatype Signer = FrontierSigner | HomesteadSigner | EIP155Signer (signer_chainId: int) (signer_chainIdMul: int)

datatype tx_err = ErrInvalidChainId | ErrInvalidSig | ErrEcrecover | ErrInvalidPublicKey

definition NewEIP155Signer :: "int option \<Rightarrow> Signer" where
  "NewEIP155Signer chainId = (let chainId = (case chainId of None \<Rightarrow> 0 | Some c \<Rightarrow> c) in EIP155Signer chainId (chainId * 2))"

definition MakeSigner :: "ChainConfig \<Rightarrow> int \<Rightarrow> Signer" where
  "MakeSigner config blockNumber =
     (if IsEIP155 config blockNumber then NewEIP155Signer (ChainID config)
      else if IsHomestead config blockNumber then HomesteadSigner
      else FrontierSigner)"

fun Signer_Equal :: "Signer \<Rightarrow> Signer \<Rightarrow> bool" where
  "Signer_Equal (EIP155Signer c m) s2 = (case s2 of EIP155Signer c2 m2 \<Rightarrow> c2 = c | _ \<Rightarrow> False)"
| "Signer_Equal HomesteadSigner s2 = (case s2 of HomesteadSigner \<Rightarrow> True | _ \<Rightarrow> False)"
| "Signer_Equal FrontierSigner s2 = (case s2 of FrontierSigner \<Rightarrow> True | _ \<Rightarrow> False)"

text \<open>The hash that is signed.\<close>

definition Frontier_Hash :: "(bytes \<Rightarrow> Hash) \<Rightarrow> Transaction \<Rightarrow> Hash" where
  "Frontier_Hash keccak tx = rlpHash keccak (RList (payload_fields tx))"

fun Signer_Hash :: "(bytes \<Rightarrow> Hash) \<Rightarrow> Signer \<Rightarrow> Transaction \<Rightarrow> Hash" where
  "Signer_Hash keccak (EIP155Signer c m) tx =
     rlpHash keccak (RList (payload_fields tx @ [RBig (Some c), RUint 0, RUint 0]))"
| "Signer_Hash keccak HomesteadSigner tx = Frontier_Hash keccak tx"
| "Signer_Hash keccak FrontierSigner tx = Frontier_Hash keccak tx"

text \<open>The values \<^verbatim>\<open>(r, s, v)\<close> of a signature; a signature that is not 65 bytes long panics.  No scheme returns an error.\<close>

definition Frontier_SignatureValues :: "bytes \<Rightarrow> (int \<times> int \<times> int) option" where
  "Frontier_SignatureValues sig =
     (if length sig \<noteq> 65 then None
      else Some (SetBytes (take 32 sig), SetBytes (take 32 (drop 32 sig)), SetBytes [sig ! 64 + 27]))"

fun SignatureValues :: "Signer \<Rightarrow> bytes \<Rightarrow> (int \<times> int \<times> int) option" where
  "SignatureValues FrontierSigner sig = Frontier_SignatureValues sig"
| "SignatureValues HomesteadSigner sig = Frontier_SignatureValues sig"
| "SignatureValues (EIP155Signer c m) sig =
     do {
       (R, S, V) \<leftarrow> Frontier_SignatureValues sig;
       Some (R, S, if c \<noteq> 0 then uint (sig ! 64 + 35) + m else V)
     }"

definition WithSignature :: "Transaction \<Rightarrow> Signer \<Rightarrow> bytes \<Rightarrow> Transaction option" where
  "WithSignature tx signer sig =
     do { (r, s, v) \<leftarrow> SignatureValues signer sig; Some (tx\<lparr>tx_R := r, tx_S := s, tx_V := v\<rparr>) }"

definition secp256k1N :: int where
  "secp256k1N = 0xfffffffffffffffffffffffffffffffebaaedce6af48a03bbfd25e8cd0364141"

definition secp256k1halfN :: int where
  "secp256k1halfN = secp256k1N div 2"

definition crypto_ValidateSignatureValues :: "byte \<Rightarrow> int \<Rightarrow> int \<Rightarrow> bool \<Rightarrow> bool" where
  "crypto_ValidateSignatureValues v r s homestead =
     (if r < 1 \<or> s < 1 then False
      else if homestead \<and> secp256k1halfN < s then False
      else r < secp256k1N \<and> s < secp256k1N \<and> (v = 0 \<or> v = 1))"

definition recoverPlain :: "(bytes \<Rightarrow> Hash) \<Rightarrow> (bytes \<Rightarrow> bytes \<Rightarrow> bytes option) \<Rightarrow> Hash \<Rightarrow> int \<Rightarrow> int \<Rightarrow> int \<Rightarrow> bool \<Rightarrow>
    (tx_err + Address) option" where
  "recoverPlain keccak recov sighash R S Vb homestead =
     (if 8 < BitLen Vb then Some (Inl ErrInvalidSig)
      else let V = ucast (Uint64 Vb - 27) in
      if \<not> crypto_ValidateSignatureValues V R S homestead then Some (Inl ErrInvalidSig)
      else let r = big_Bytes R; s = big_Bytes S in
      if 32 < length r \<or> 64 < length s then None
      else let sig = replicate 65 0;
               sig = copy_at sig (32 - length r) r;
               sig = copy_at sig (64 - length s) s;
               sig = sig[64 := V] in
      case recov (Hash_Bytes sighash) sig of
        None \<Rightarrow> Some (Inl ErrEcrecover)
      | Some pub \<Rightarrow>
          if length pub = 0 \<or> pub ! 0 \<noteq> 4 then Some (Inl ErrInvalidPublicKey)
          else Some (Inr (BytesToAddress (drop 12 (Hash_Bytes (keccak (drop 1 pub)))))))"

definition Homestead_Sender :: "(bytes \<Rightarrow> Hash) \<Rightarrow> (bytes \<Rightarrow> bytes \<Rightarrow> bytes option) \<Rightarrow> Transaction \<Rightarrow> (tx_err + Address) option" where
  "Homestead_Sender keccak recov tx =
     recoverPlain keccak recov (Signer_Hash keccak HomesteadSigner tx) (tx_R tx) (tx_S tx) (tx_V tx) True"

fun Signer_Sender :: "(bytes \<Rightarrow> Hash) \<Rightarrow> (bytes \<Rightarrow> bytes \<Rightarrow> bytes option) \<Rightarrow> Signer \<Rightarrow> Transaction \<Rightarrow> (tx_err + Address) option" where
  "Signer_Sender keccak recov FrontierSigner tx =
     recoverPlain keccak recov (Signer_Hash keccak FrontierSigner tx) (tx_R tx) (tx_S tx) (tx_V tx) False"
| "Signer_Sender keccak recov HomesteadSigner tx = Homestead_Sender keccak recov tx"
| "Signer_Sender keccak recov (EIP155Signer c m) tx =
     (if \<not> Protected tx then Homestead_Sender keccak recov tx
      else if tx_ChainId tx \<noteq> c then Some (Inl ErrInvalidChainId)
      else recoverPlain keccak recov (Signer_Hash keccak (EIP155Signer c m) tx) (tx_R tx) (tx_S tx)
             (tx_V tx - m - 8) True)"

text \<open>\<^verbatim>\<open>crypto.Sign\<close> with the private key of the signer is the parameter \<open>sign\<close>.\<close>

definition SignTx :: "(bytes \<Rightarrow> Hash) \<Rightarrow> (bytes \<Rightarrow> bytes option) \<Rightarrow> Transaction \<Rightarrow> Signer \<Rightarrow> (unit + Transaction) option" where
  "SignTx keccak sign tx s =
     (case sign (Hash_Bytes (Signer_Hash keccak s tx)) of
        None \<Rightarrow> Some (Inl ())
      | Some sig \<Rightarrow> map_option Inr (WithSignature tx s sig))"

definition AsMessage :: "(bytes \<Rightarrow> Hash) \<Rightarrow> (bytes \<Rightarrow> bytes \<Rightarrow> bytes option) \<Rightarrow> Signer \<Rightarrow> Transaction \<Rightarrow> (Message \<times> tx_err option) option" where
  "AsMessage keccak recov s tx =
     do {
       r \<leftarrow> Signer_Sender keccak recov s tx;
       let msg = (\<lambda>from. \<lparr>msg_From = from, msg_To = Recipient tx, msg_GasPrice = Price tx, msg_Gas = tx_GasLimit tx,
         msg_Value = Amount tx, msg_Nonce = AccountNonce tx, msg_CheckNonce = True, msg_Data = Payload tx\<rparr>);
       Some (case r of Inl e \<Rightarrow> (msg 0, Some e) | Inr from \<Rightarrow> (msg from, None))
     }"

section \<open>Lists of transactions\<close>

definition TxDifference :: "(bytes \<Rightarrow> Hash) \<Rightarrow> Transaction list \<Rightarrow> Transaction list \<Rightarrow> Transaction list" where
  "TxDifference keccak a b =
     (let removed = map (tx_Hash keccak) b in filter (\<lambda>tx. \<not> List.member removed (tx_Hash keccak tx)) a)"


section \<open>Signing and recovering\<close>

lemma big_Bytes_pad:
  assumes "length xs = n"
  shows "length (big_Bytes (SetBytes xs)) \<le> n"
    and "replicate (n - length (big_Bytes (SetBytes xs))) 0 @ big_Bytes (SetBytes xs) = xs"
proof -
  let ?z = "takeWhile (\<lambda>x. x = 0) xs" and ?d = "dropWhile (\<lambda>x. x = 0) xs"
  have l: "length ?z + length ?d = n" using assms by (metis length_append takeWhile_dropWhile_id)
  then show "length (big_Bytes (SetBytes xs)) \<le> n" by (simp add: big_Bytes_SetBytes)
  have "?z = replicate (length ?z) 0" by (intro replicate_eqI) (auto dest: set_takeWhileD)
  moreover have "length ?z = n - length ?d" using l by simp
  ultimately have "replicate (n - length ?d) 0 @ ?d = ?z @ ?d" by simp
  then show "replicate (n - length (big_Bytes (SetBytes xs))) 0 @ big_Bytes (SetBytes xs) = xs"
    by (simp add: big_Bytes_SetBytes)
qed

text \<open>The signature that \<^verbatim>\<open>recoverPlain\<close> assembles is the one that was split.\<close>

lemma assemble_signature:
  assumes len: "length sig = 65"
  defines "r \<equiv> big_Bytes (SetBytes (take 32 sig))" and "s \<equiv> big_Bytes (SetBytes (take 32 (drop 32 sig)))"
  shows "(copy_at (copy_at (replicate 65 0) (32 - length r) r) (64 - length s) s)[64 := sig ! 64] = sig"
    and "length r \<le> 32" "length s \<le> 32"
proof -
  have r: "length r \<le> 32" "replicate (32 - length r) 0 @ r = take 32 sig"
    using big_Bytes_pad [of "take 32 sig" 32] len unfolding r_def by auto
  have s: "length s \<le> 32" "replicate (32 - length s) 0 @ s = take 32 (drop 32 sig)"
    using big_Bytes_pad [of "take 32 (drop 32 sig)" 32] len unfolding s_def by auto
  show "length r \<le> 32" "length s \<le> 32" by (rule r(1), rule s(1))
  have "copy_at (replicate 65 0) (32 - length r) r = (replicate (32 - length r) 0 @ r) @ replicate 33 0"
    using r(1) by (simp add: copy_at_def)
  also have "\<dots> = take 32 sig @ replicate 33 0" by (simp only: r(2))
  finally have 1: "copy_at (replicate 65 0) (32 - length r) r = take 32 sig @ replicate 33 0" .
  have k: "64 - length s = 32 + (32 - length s)" using s(1) by simp
  have "copy_at (take 32 sig @ replicate 33 0) (64 - length s) s = take 32 sig @ (replicate (32 - length s) 0 @ s) @ [0]"
    using s(1) len unfolding copy_at_def k by simp
  also have "\<dots> = take 32 sig @ take 32 (drop 32 sig) @ [0]" by (simp only: s(2))
  finally have "(copy_at (copy_at (replicate 65 0) (32 - length r) r) (64 - length s) s)[64 := sig ! 64] =
      (take 32 sig @ take 32 (drop 32 sig)) @ [sig ! 64]"
    unfolding 1 using len by (simp add: list_update_append)
  also have "\<dots> = take 64 sig @ [sig ! 64]" using take_add [of 32 32 sig] by simp
  also have "\<dots> = sig" using len take_Suc_conv_app_nth [of 64 sig] by simp
  finally show "(copy_at (copy_at (replicate 65 0) (32 - length r) r) (64 - length s) s)[64 := sig ! 64] = sig" .
qed

text \<open>What the recovery makes of a public key.\<close>

definition pub_address :: "(bytes \<Rightarrow> Hash) \<Rightarrow> bytes option \<Rightarrow> tx_err + Address" where
  "pub_address keccak pub =
     (case pub of None \<Rightarrow> Inl ErrEcrecover
      | Some pub \<Rightarrow> if length pub = 0 \<or> pub ! 0 \<noteq> 4 then Inl ErrInvalidPublicKey
                    else Inr (BytesToAddress (drop 12 (Hash_Bytes (keccak (drop 1 pub))))))"

definition good_signature :: "bytes \<Rightarrow> bool" where
  "good_signature sig \<longleftrightarrow> length sig = 65 \<and>
     crypto_ValidateSignatureValues (sig ! 64) (SetBytes (take 32 sig)) (SetBytes (take 32 (drop 32 sig))) True"

lemma recoverPlain_signature:
  assumes "good_signature sig"
  shows "recoverPlain keccak recov h (SetBytes (take 32 sig)) (SetBytes (take 32 (drop 32 sig))) (uint (sig ! 64) + 27) hs =
     Some (pub_address keccak (recov (Hash_Bytes h) sig))"
proof -
  have len: "length sig = 65" and v: "sig ! 64 = 0 \<or> sig ! 64 = 1"
    and val: "crypto_ValidateSignatureValues (sig ! 64) (SetBytes (take 32 sig)) (SetBytes (take 32 (drop 32 sig))) hs"
    using assms by (auto simp: good_signature_def crypto_ValidateSignatureValues_def split: if_splits)
  have V: "ucast (Uint64 (uint (sig ! 64) + 27) - 27) = sig ! 64" and B: "\<not> 8 < BitLen (uint (sig ! 64) + 27)"
    using v by (auto simp: Uint64_def not_less BitLen_le_iff)
  show ?thesis
    using assemble_signature [OF len] val V B
    by (simp add: recoverPlain_def Let_def pub_address_def split: option.splits)
qed


text \<open>A signer that binds a signature to what is signed: every scheme but EIP 155 with the chain id zero.\<close>

definition binding :: "Signer \<Rightarrow> bool" where
  "binding s = (case s of EIP155Signer c m \<Rightarrow> 0 < c \<and> m = c * 2 | _ \<Rightarrow> True)"

lemma Uint64_not_27:
  assumes "37 \<le> V" "V < 2 ^ 64"
  shows "Uint64 V \<noteq> 27" "Uint64 V \<noteq> 28"
  using uint_Uint64 [of V] assms by auto

lemma deriveChainId_protected:
  assumes "0 < c" and v: "v = 0 \<or> v = 1"
  shows "deriveChainId (v + 35 + c * 2) = c" and "isProtectedV (v + 35 + c * 2)"
proof -
  define V where "V = v + 35 + c * 2"
  have V: "37 \<le> V" "(V - 35) div 2 = c" using assms by (auto simp: V_def)
  have "deriveChainId V = c"
  proof (cases "BitLen V \<le> 64")
    case True
    then have l: "V < 2 ^ 64" using V(1) by (simp add: BitLen_le_iff)
    then have "uint (Uint64 V - 35) = V - 35" using V(1) uint_Uint64 [of V] by (simp add: uint_sub_if')
    then have "uint ((Uint64 V - 35) div 2) = c" using V(2) by (simp add: uint_div_distrib)
    with True Uint64_not_27 [OF V(1) l] show ?thesis by (simp add: deriveChainId_def Let_def)
  qed (use V(2) in \<open>simp add: deriveChainId_def\<close>)
  then show "deriveChainId (v + 35 + c * 2) = c" by (simp add: V_def)
  have "isProtectedV V"
  proof (cases "BitLen V \<le> 8")
    case True
    then have "V < 2 ^ 64" using V(1) by (simp add: BitLen_le_iff)
    from Uint64_not_27 [OF V(1) this] True show ?thesis by (simp add: isProtectedV_def)
  qed (simp add: isProtectedV_def)
  then show "isProtectedV (v + 35 + c * 2)" by (simp add: V_def)
qed

lemma SignatureValues_good:
  assumes "good_signature sig"
  shows "SignatureValues s sig = Some (SetBytes (take 32 sig), SetBytes (take 32 (drop 32 sig)),
     (case s of EIP155Signer c m \<Rightarrow> if c \<noteq> 0 then uint (sig ! 64) + 35 + m else uint (sig ! 64) + 27 | _ \<Rightarrow> uint (sig ! 64) + 27))"
proof -
  have "sig ! 64 = 0 \<or> sig ! 64 = 1" "length sig = 65"
    using assms by (auto simp: good_signature_def crypto_ValidateSignatureValues_def split: if_splits)
  then show ?thesis
    by (cases s) (auto simp: Frontier_SignatureValues_def SetBytes_def)
qed


lemma good_signature_v: "good_signature sig \<Longrightarrow> uint (sig ! 64) = 0 \<or> uint (sig ! 64) = 1"
  by (auto simp: good_signature_def crypto_ValidateSignatureValues_def split: if_splits)

lemma payload_fields_update [simp]:
  "payload_fields (tx\<lparr>tx_R := r, tx_S := s, tx_V := v\<rparr>) = payload_fields tx"
  by (simp add: payload_fields_def)

lemma Frontier_Hash_update [simp]:
  "Frontier_Hash keccak (tx\<lparr>tx_R := r, tx_S := s, tx_V := v\<rparr>) = Frontier_Hash keccak tx"
  by (simp add: Frontier_Hash_def)

lemma Signer_Hash_update [simp]:
  "Signer_Hash keccak sg (tx\<lparr>tx_R := r, tx_S := s, tx_V := v\<rparr>) = Signer_Hash keccak sg tx"
  by (cases sg) simp_all

lemma WithSignature_Sender:
  assumes good: "good_signature sig" and b: "binding s"
  shows "\<exists>tx'. WithSignature tx s sig = Some tx' \<and>
     Signer_Sender keccak recov s tx' = Some (pub_address keccak (recov (Hash_Bytes (Signer_Hash keccak s tx)) sig))"
proof (cases s)
  case (EIP155Signer c m)
  with b have c: "0 < c" "m = c * 2" by (auto simp: binding_def)
  note p = deriveChainId_protected [OF c(1) good_signature_v [OF good]]
  show ?thesis using c p
    by (simp add: WithSignature_def EIP155Signer SignatureValues_good [OF good] Protected_def tx_ChainId_def
        recoverPlain_signature [OF good, unfolded add.commute [of _ 27]] del: SignatureValues.simps)
qed (use recoverPlain_signature [OF good] in \<open>simp_all add: WithSignature_def SignatureValues_good [OF good] Homestead_Sender_def
  del: SignatureValues.simps\<close>)

text \<open>
  What signing and recovery promise for one key: every hash gets a signature in the range that the validation
  accepts, and the recovery from it returns the public key, in its uncompressed form.
\<close>

definition key_pair :: "(bytes \<Rightarrow> bytes option) \<Rightarrow> (bytes \<Rightarrow> bytes \<Rightarrow> bytes option) \<Rightarrow> bytes \<Rightarrow> bool" where
  "key_pair sign recov pub \<longleftrightarrow>
     (\<forall>h. length h = 32 \<longrightarrow> (\<exists>sig. sign h = Some sig \<and> good_signature sig \<and> recov h sig = Some (4 # pub)))"

definition key_address :: "(bytes \<Rightarrow> Hash) \<Rightarrow> bytes \<Rightarrow> Address" where
  "key_address keccak pub = BytesToAddress (drop 12 (Hash_Bytes (keccak pub)))"

lemma length_Hash_Bytes [simp]: "length (Hash_Bytes h) = 32"
  by (simp add: Hash_Bytes_def HashLength_def)

text \<open>
  C17.  Signing and recovering the sender are inverse: for a key pair, \<^verbatim>\<open>SignTx\<close> with any of the three schemes (with a
  positive chain id for EIP 155) returns a transaction, without a panic, whose sender is the address of the key and whose
  content other than the signature is that of the given transaction.
\<close>

theorem SignTx_Sender:
  assumes "key_pair sign recov pub" and "binding s"
  shows "\<exists>tx'. SignTx keccak sign tx s = Some (Inr tx') \<and> payload_fields tx' = payload_fields tx \<and>
     Signer_Sender keccak recov s tx' = Some (Inr (key_address keccak pub))"
proof -
  obtain sig where sig: "sign (Hash_Bytes (Signer_Hash keccak s tx)) = Some sig" "good_signature sig"
    and r: "recov (Hash_Bytes (Signer_Hash keccak s tx)) sig = Some (4 # pub)"
    using assms(1) unfolding key_pair_def by (metis length_Hash_Bytes)
  obtain tx' where tx': "WithSignature tx s sig = Some tx'" "Signer_Sender keccak recov s tx' = Some (Inr (key_address keccak pub))"
    using WithSignature_Sender [OF sig(2) assms(2), of tx keccak recov] r by (auto simp: pub_address_def key_address_def)
  moreover have "payload_fields tx' = payload_fields tx"
    using tx'(1) by (auto simp: WithSignature_def bind_eq_Some_conv)
  ultimately show ?thesis using sig(1) by (simp add: SignTx_def)
qed

definition sample_sig :: bytes where
  "sample_sig = replicate 31 0 @ [1] @ replicate 31 0 @ [1, 0]"

lemma good_sample_sig: "good_signature sample_sig"
  by code_simp

lemma binding_network: "MakeSigner genesis_config 1 = EIP155Signer 456719 913438" "binding (EIP155Signer 456719 913438)"
  by code_simp+

theorem SignTx_Sender_witness:
  "\<exists>tx'. SignTx BytesToHash (\<lambda>_. Some sample_sig) (NewTransaction 5 7 (Some 1) 21000 (Some 2) []) (MakeSigner genesis_config 1) = Some (Inr tx') \<and>
     Signer_Sender BytesToHash (\<lambda>_ _. Some [4, 1, 2]) (MakeSigner genesis_config 1) tx' = Some (Inr (key_address BytesToHash [1, 2]))"
proof -
  have "key_pair (\<lambda>_. Some sample_sig) (\<lambda>_ _. Some [4, 1, 2]) [1, 2]" by (simp add: key_pair_def good_sample_sig)
  from SignTx_Sender [OF this, of "MakeSigner genesis_config 1"] binding_network show ?thesis by fastforce
qed

text \<open>
  C18.  Replay protection: a transaction signed for a chain with a positive id is refused on every chain with another
  id, whatever the cryptography says about the signature.
\<close>

theorem replay_refused:
  assumes "good_signature sig" and "0 < c" and "c' \<noteq> c"
  shows "\<exists>tx'. WithSignature tx (NewEIP155Signer (Some c)) sig = Some tx' \<and>
     Signer_Sender keccak recov (NewEIP155Signer (Some c')) tx' = Some (Inl ErrInvalidChainId)"
proof -
  note p = deriveChainId_protected [OF assms(2) good_signature_v [OF assms(1)]]
  show ?thesis using p assms(2,3)
    by (simp add: NewEIP155Signer_def WithSignature_def SignatureValues_good [OF assms(1)] Protected_def tx_ChainId_def
        del: SignatureValues.simps)
qed

theorem replay_refused_witness:
  "\<exists>tx'. WithSignature (NewTransaction 5 7 (Some 1) 21000 (Some 2) []) (NewEIP155Signer (Some 456719)) sample_sig = Some tx' \<and>
     Signer_Sender BytesToHash (\<lambda>_ _. None) (NewEIP155Signer (Some 1)) tx' = Some (Inl ErrInvalidChainId)"
  by (rule replay_refused [OF good_sample_sig]) simp_all

text \<open>
  C38.  With the chain id zero, which \<^verbatim>\<open>NewEIP155Signer\<close> takes for a missing one, signing and recovering do not fit
  together: the signature is made over the hash with the chain id and two zeros appended, and the sender is recovered
  from the hash without them.
\<close>

theorem chain_id_zero_mismatch:
  assumes "good_signature sig"
  shows "\<exists>tx'. WithSignature tx (NewEIP155Signer None) sig = Some tx' \<and>
     Signer_Hash keccak (NewEIP155Signer None) tx = rlpHash keccak (RList (payload_fields tx @ [RBig (Some 0), RUint 0, RUint 0])) \<and>
     Signer_Sender keccak recov (NewEIP155Signer None) tx' =
       Some (pub_address keccak (recov (Hash_Bytes (rlpHash keccak (RList (payload_fields tx)))) sig))"
proof -
  have "\<not> isProtectedV 27" "\<not> isProtectedV 28" by (auto simp: isProtectedV_def BitLen_le_iff Uint64_def)
  then have "\<not> isProtectedV (uint (sig ! 64) + 27)" using good_signature_v [OF assms] by (elim disjE) simp_all
  then show ?thesis
    by (simp add: NewEIP155Signer_def WithSignature_def SignatureValues_good [OF assms] Protected_def Homestead_Sender_def
        recoverPlain_signature [OF assms] Frontier_Hash_def del: SignatureValues.simps)
qed


theorem chain_id_zero_mismatch_witness:
  "\<exists>tx'. WithSignature (NewTransaction 5 7 (Some 1) 21000 (Some 2) []) (NewEIP155Signer None) sample_sig = Some tx' \<and>
     Signer_Sender BytesToHash (\<lambda>_ _. None) (NewEIP155Signer None) tx' = Some (Inl ErrEcrecover)"
  using chain_id_zero_mismatch [OF good_sample_sig, of "NewTransaction 5 7 (Some 1) 21000 (Some 2) []" BytesToHash "\<lambda>_ _. None"]
  by (auto simp: pub_address_def)

end
