(* ===== verification/Go_Heap.thy ===== *)
theory Go_Heap
  imports Prelude "HOL-Library.Multiset"
begin

text \<open>
  Go's \<^verbatim>\<open>container/heap\<close>, on which the index of the transaction lists rests.  A \<^verbatim>\<open>heap.Interface\<close> value is a list with
  the order \<^verbatim>\<open>Less\<close> on its elements; \<^verbatim>\<open>Push\<close> appends and \<^verbatim>\<open>Pop\<close> takes the last element, as both implementations in
  \<^verbatim>\<open>core/tx_list.go\<close> do.  The locale \<open>min_queue\<close> is what the clients rely on; \<open>heap_order\<close> is what they provide, an order
  in which "not less" is total and transitive, and it gives a \<open>min_queue\<close>.
\<close>

section \<open>The operations\<close>

definition heap_Swap :: "'a list \<Rightarrow> nat \<Rightarrow> nat \<Rightarrow> 'a list" where
  "heap_Swap h i j = h[i := h ! j, j := h ! i]"

function heap_up :: "('a \<Rightarrow> 'a \<Rightarrow> bool) \<Rightarrow> 'a list \<Rightarrow> nat \<Rightarrow> 'a list" where
  "heap_up lt h j =
     (let i = (j - 1) div 2 in
      if i = j \<or> \<not> lt (h ! j) (h ! i) then h else heap_up lt (heap_Swap h i j) i)"
  by auto
termination by (relation "measure (\<lambda>(lt, h, j). j)") auto

function down_loop :: "('a \<Rightarrow> 'a \<Rightarrow> bool) \<Rightarrow> 'a list \<Rightarrow> nat \<Rightarrow> nat \<Rightarrow> 'a list \<times> nat" where
  "down_loop lt h i n =
     (let j1 = 2 * i + 1 in
      if n \<le> j1 then (h, i)
      else let j2 = j1 + 1; j = (if j2 < n \<and> lt (h ! j2) (h ! j1) then j2 else j1) in
        if \<not> lt (h ! j) (h ! i) then (h, i) else down_loop lt (heap_Swap h i j) j n)"
  by auto
termination by (relation "measure (\<lambda>(lt, h, i, n). n - i)") auto

declare heap_up.simps [simp del] down_loop.simps [simp del]

definition heap_down :: "('a \<Rightarrow> 'a \<Rightarrow> bool) \<Rightarrow> 'a list \<Rightarrow> nat \<Rightarrow> nat \<Rightarrow> 'a list \<times> bool" where
  "heap_down lt h i0 n = (let (h, i) = down_loop lt h i0 n in (h, i0 < i))"

text \<open>The loop of \<^verbatim>\<open>Init\<close>, for the positions \<open>i - 1, \<dots>, 0\<close>.\<close>

fun Init_loop :: "('a \<Rightarrow> 'a \<Rightarrow> bool) \<Rightarrow> 'a list \<Rightarrow> nat \<Rightarrow> nat \<Rightarrow> 'a list" where
  "Init_loop lt h n 0 = h"
| "Init_loop lt h n (Suc i) = Init_loop lt (fst (heap_down lt h i n)) n i"

definition heap_Init :: "('a \<Rightarrow> 'a \<Rightarrow> bool) \<Rightarrow> 'a list \<Rightarrow> 'a list" where
  "heap_Init lt h = (let n = length h in Init_loop lt h n (n div 2))"

definition heap_Push :: "('a \<Rightarrow> 'a \<Rightarrow> bool) \<Rightarrow> 'a list \<Rightarrow> 'a \<Rightarrow> 'a list" where
  "heap_Push lt h x = (let h = h @ [x] in heap_up lt h (length h - 1))"

definition take_last :: "'a list \<Rightarrow> 'a \<times> 'a list" where
  "take_last h = (last h, butlast h)"

definition heap_Pop :: "('a \<Rightarrow> 'a \<Rightarrow> bool) \<Rightarrow> 'a list \<Rightarrow> ('a \<times> 'a list) option" where
  "heap_Pop lt h =
     (if h = [] then None
      else let n = length h - 1 in Some (take_last (fst (heap_down lt (heap_Swap h 0 n) 0 n))))"

definition heap_Remove :: "('a \<Rightarrow> 'a \<Rightarrow> bool) \<Rightarrow> 'a list \<Rightarrow> nat \<Rightarrow> ('a \<times> 'a list) option" where
  "heap_Remove lt h i =
     (if length h \<le> i then None
      else let n = length h - 1 in
        if n = i then Some (take_last h)
        else let (h, moved) = heap_down lt (heap_Swap h i n) i n in
          Some (take_last (if moved then h else heap_up lt h i)))"

definition heap_Fix :: "('a \<Rightarrow> 'a \<Rightarrow> bool) \<Rightarrow> 'a list \<Rightarrow> nat \<Rightarrow> 'a list" where
  "heap_Fix lt h i = (let (h, moved) = heap_down lt h i (length h) in if moved then h else heap_up lt h i)"

lemma length_Swap [simp]: "length (heap_Swap h i j) = length h"
  by (simp add: heap_Swap_def)

lemma length_down_loop [simp]: "length (fst (down_loop lt h i n)) = length h"
  by (induction lt h i n rule: down_loop.induct) (subst down_loop.simps, simp add: Let_def)

lemma length_heap_down [simp]: "length (fst (heap_down lt h i n)) = length h"
  using length_down_loop [of lt h i n] by (cases "down_loop lt h i n") (simp add: heap_down_def)

lemma heap_Pop_length: "heap_Pop lt h = Some (x, h') \<Longrightarrow> length h' < length h"
  by (auto simp: heap_Pop_def Let_def take_last_def split: if_splits)

section \<open>The contract\<close>

locale min_queue =
  fixes lt :: "'a \<Rightarrow> 'a \<Rightarrow> bool" and invar :: "'a list \<Rightarrow> bool"
    and init :: "'a list \<Rightarrow> 'a list" and push :: "'a list \<Rightarrow> 'a \<Rightarrow> 'a list"
    and pop :: "'a list \<Rightarrow> ('a \<times> 'a list) option" and remove :: "'a list \<Rightarrow> nat \<Rightarrow> ('a \<times> 'a list) option"
  assumes invar_Nil: "invar []"
    and init: "invar (init h)" "mset (init h) = mset h"
    and push: "invar h \<Longrightarrow> invar (push h x)" "invar h \<Longrightarrow> mset (push h x) = add_mset x (mset h)"
    and pop: "invar h \<Longrightarrow> h \<noteq> [] \<Longrightarrow> \<exists>h'. pop h = Some (h ! 0, h') \<and> invar h' \<and> mset h = add_mset (h ! 0) (mset h')"
    and remove: "invar h \<Longrightarrow> i < length h \<Longrightarrow> \<exists>h'. remove h i = Some (h ! i, h') \<and> invar h' \<and> mset h = add_mset (h ! i) (mset h')"
    and least: "invar h \<Longrightarrow> y \<in> set h \<Longrightarrow> \<not> lt y (h ! 0)"
begin

lemma set_init [simp]: "set (init h) = set h"
  using init(2) by (rule mset_eq_setD)

lemma length_init [simp]: "length (init h) = length h"
  using init(2) by (rule mset_eq_length)

lemma distinct_init [simp]: "distinct (init h) = distinct h"
  using init(2) by (rule mset_eq_imp_distinct_iff)

lemma set_push [simp]: "invar h \<Longrightarrow> set (push h x) = insert x (set h)"
  using arg_cong [OF push(2) [of h x], of set_mset] by simp

lemma pop_cases:
  assumes "invar h" "h \<noteq> []"
  obtains h' where "pop h = Some (h ! 0, h')" "invar h'" "mset h = add_mset (h ! 0) (mset h')"
    "set h = insert (h ! 0) (set h')" "length h = Suc (length h')"
proof -
  from pop [OF assms] obtain h' where *: "pop h = Some (h ! 0, h')" "invar h'" "mset h = add_mset (h ! 0) (mset h')"
    by blast
  moreover have "set h = insert (h ! 0) (set h')" using arg_cong [OF *(3), of set_mset] by simp
  moreover have "length h = Suc (length h')" using arg_cong [OF *(3), of size] by simp
  ultimately show thesis by (rule that)
qed

end

locale heap_order =
  fixes lt :: "'a \<Rightarrow> 'a \<Rightarrow> bool"
  assumes asym: "lt a b \<Longrightarrow> \<not> lt b a"
    and not_less_trans: "\<not> lt b a \<Longrightarrow> \<not> lt c b \<Longrightarrow> \<not> lt c a"

section \<open>The shape of a heap\<close>

abbreviation par :: "nat \<Rightarrow> nat" where "par j \<equiv> (j - 1) div 2"

definition ok_at :: "('a \<Rightarrow> 'a \<Rightarrow> bool) \<Rightarrow> 'a list \<Rightarrow> nat \<Rightarrow> bool" where
  "ok_at lt h j \<longleftrightarrow> 0 < j \<longrightarrow> \<not> lt (h ! j) (h ! par j)"

definition is_heap :: "('a \<Rightarrow> 'a \<Rightarrow> bool) \<Rightarrow> 'a list \<Rightarrow> bool" where
  "is_heap lt h \<longleftrightarrow> (\<forall>j < length h. ok_at lt h j)"

lemma mset_Swap [simp]: "i < length h \<Longrightarrow> j < length h \<Longrightarrow> mset (heap_Swap h i j) = mset h"
  unfolding heap_Swap_def by (rule mset_swap)

lemma nth_Swap:
  "i < length h \<Longrightarrow> j < length h \<Longrightarrow> heap_Swap h i j ! k = (if k = j then h ! i else if k = i then h ! j else h ! k)"
  by (cases "k < length h") (auto simp: heap_Swap_def nth_list_update)

lemma par_less: "0 < j \<Longrightarrow> par j < j"
  by linarith

lemma par_eq_iff: "0 < j \<Longrightarrow> par j = i \<longleftrightarrow> j = 2 * i + 1 \<or> j = 2 * i + 2"
  by linarith


section \<open>Sifting down and up\<close>

context heap_order
begin

lemma irrefl [simp]: "\<not> lt a a"
  using asym by blast

text \<open>
  \<open>sift_ok h n k i\<close>: among the first \<open>n\<close> positions every position with a parent from \<open>k\<close> on is in order, except for \<open>i\<close> and its
  children, and the children of \<open>i\<close> are in order with the parent of \<open>i\<close>.
\<close>

definition sift_ok :: "'a list \<Rightarrow> nat \<Rightarrow> nat \<Rightarrow> nat \<Rightarrow> bool" where
  "sift_ok h n k i \<longleftrightarrow>
     (\<forall>j<n. 0 < j \<longrightarrow> k \<le> par j \<longrightarrow> j \<noteq> i \<longrightarrow> par j \<noteq> i \<longrightarrow> ok_at lt h j) \<and>
     (\<forall>j<n. 0 < j \<longrightarrow> par j = i \<longrightarrow> 0 < i \<longrightarrow> k \<le> par i \<longrightarrow> \<not> lt (h ! j) (h ! par i))"

definition heap_from :: "'a list \<Rightarrow> nat \<Rightarrow> nat \<Rightarrow> bool" where
  "heap_from h n k \<longleftrightarrow> (\<forall>j<n. 0 < j \<longrightarrow> k \<le> par j \<longrightarrow> ok_at lt h j)"

lemma sift_step:
  assumes s: "sift_ok h n k i" and n: "n \<le> length h" and k: "k \<le> i" and j: "j < n" "0 < j" "par j = i"
    and lt: "lt (h ! j) (h ! i)" and best: "\<And>c. c < n \<Longrightarrow> 0 < c \<Longrightarrow> par c = i \<Longrightarrow> \<not> lt (h ! c) (h ! j)"
  shows "sift_ok (heap_Swap h i j) n k j \<and> ok_at lt (heap_Swap h i j) j"
proof -
  let ?h = "heap_Swap h i j"
  have ij: "i < j" using par_less [OF j(2)] j(3) by simp
  have v: "?h ! c = (if c = j then h ! i else if c = i then h ! j else h ! c)" for c
    using nth_Swap [of i h j c] ij j(1) n by simp
  have "ok_at lt ?h c" if c: "c < n" "0 < c" "k \<le> par c" "c \<noteq> j" "par c \<noteq> j" for c
  proof (cases "c = i \<or> par c = i")
    case True
    have "c \<noteq> i \<Longrightarrow> \<not> lt (h ! c) (h ! j)" using best [of c] c True by blast
    moreover have "c = i \<Longrightarrow> \<not> lt (h ! j) (h ! par i)" using s j c unfolding sift_ok_def by blast
    moreover have "c = i \<Longrightarrow> par i \<noteq> i" using par_less [of i] c by auto
    ultimately show ?thesis using True c unfolding ok_at_def v by auto
  next
    case False
    then have "ok_at lt h c" using s c unfolding sift_ok_def by blast
    with False c show ?thesis unfolding ok_at_def v by simp
  qed
  moreover have "\<not> lt (?h ! c) (?h ! par j)" if c: "c < n" "0 < c" "par c = j" for c
  proof -
    have "k \<le> par c" "c \<noteq> i" "par c \<noteq> i" using c k ij par_less [OF c(2)] by auto
    then have "ok_at lt h c" using s c unfolding sift_ok_def by blast
    then have "\<not> lt (h ! c) (h ! j)" using c by (simp add: ok_at_def)
    then show ?thesis unfolding v using c j ij par_less [of c] by auto
  qed
  moreover have "ok_at lt ?h j" using asym [OF lt] ij unfolding ok_at_def v j(3) by simp
  ultimately show ?thesis unfolding sift_ok_def by blast
qed

text \<open>The child that \<^verbatim>\<open>down\<close> compares with: the smaller one.\<close>

definition small_child :: "'a list \<Rightarrow> nat \<Rightarrow> nat \<Rightarrow> nat" where
  "small_child h i n = (if 2 * i + 2 < n \<and> lt (h ! (2 * i + 2)) (h ! (2 * i + 1)) then 2 * i + 2 else 2 * i + 1)"

lemma small_child:
  assumes "2 * i + 1 < n"
  shows "small_child h i n < n" "0 < small_child h i n" "par (small_child h i n) = i"
    and "c < n \<Longrightarrow> 0 < c \<Longrightarrow> par c = i \<Longrightarrow> \<not> lt (h ! c) (h ! small_child h i n)"
proof -
  show "\<not> lt (h ! c) (h ! small_child h i n)" if "c < n" "0 < c" "par c = i"
  proof -
    have "c = 2 * i + 1 \<or> c = 2 * i + 2" using par_eq_iff [OF that(2)] that(3) by blast
    then show ?thesis using that(1) asym by (auto simp: small_child_def)
  qed
qed (use assms in \<open>auto simp: small_child_def\<close>)

lemma down_loop_eq:
  "down_loop lt h i n =
     (if n \<le> 2 * i + 1 \<or> \<not> lt (h ! small_child h i n) (h ! i) then (h, i)
      else down_loop lt (heap_Swap h i (small_child h i n)) (small_child h i n) n)"
  by (subst down_loop.simps) (simp add: Let_def small_child_def)

lemma sift_done:
  assumes s: "sift_ok h n k i" and d: "n \<le> 2 * i + 1 \<or> \<not> lt (h ! small_child h i n) (h ! i)"
  shows "c < n \<Longrightarrow> 0 < c \<Longrightarrow> par c = i \<Longrightarrow> ok_at lt h c"
    and "ok_at lt h i \<Longrightarrow> heap_from h n k"
proof -
  show *: "ok_at lt h c" if c: "c < n" "0 < c" "par c = i" for c
  proof -
    have i: "2 * i + 1 < n" using par_eq_iff [OF c(2)] c by auto
    then have "\<not> lt (h ! c) (h ! i)" using d not_less_trans small_child(4) [OF i c] by (meson not_le)
    then show ?thesis using c by (simp add: ok_at_def)
  qed
  show "heap_from h n k" if "ok_at lt h i"
    using s * that unfolding heap_from_def sift_ok_def by blast
qed

lemma down_loop_correct:
  assumes "sift_ok h n k i" "n \<le> length h" "k \<le> i" "ok_at lt h i" "down_loop lt h i n = (h', i')"
  shows "heap_from h' n k \<and> mset h' = mset h \<and> (\<forall>c\<ge>n. h' ! c = h ! c) \<and> i \<le> i'"
  using assms
proof (induction "n - i" arbitrary: h i rule: less_induct)
  case less
  let ?j = "small_child h i n" and ?h = "heap_Swap h i (small_child h i n)"
  show ?case
  proof (cases "n \<le> 2 * i + 1 \<or> \<not> lt (h ! ?j) (h ! i)")
    case True
    then have "h' = h" "i' = i" using less.prems(5) by (simp_all add: down_loop_eq [of h])
    with sift_done(2) [OF less.prems(1) True less.prems(4)] show ?thesis by simp
  next
    case False
    then have j: "2 * i + 1 < n" "lt (h ! ?j) (h ! i)" by auto
    note c = small_child [OF j(1), where h = h]
    have ij: "i < ?j" using par_less [OF c(2)] c(3) by simp
    have st: "sift_ok ?h n k ?j" "ok_at lt ?h ?j"
      using sift_step [OF less.prems(1,2,3) c(1,2,3) j(2) c(4)] by auto
    have "down_loop lt ?h ?j n = (h', i')" using False less.prems(5) by (simp add: down_loop_eq [of h])
    with less.hyps [of ?j ?h] st ij c(1) less.prems(2,3)
    have "heap_from h' n k \<and> mset h' = mset ?h \<and> (\<forall>c\<ge>n. h' ! c = ?h ! c) \<and> ?j \<le> i'" by simp
    moreover have "mset ?h = mset h" "\<And>c. n \<le> c \<Longrightarrow> ?h ! c = h ! c"
      using ij c(1) less.prems(2) by (auto simp: nth_Swap)
    ultimately show ?thesis using ij by simp
  qed
qed

text \<open>Without the order at \<open>i\<close> itself: either nothing moves, and then \<open>i\<close> is in order with its children, or all is in order.\<close>

lemma heap_down_correct:
  assumes s: "sift_ok h n k i" and n: "n \<le> length h" and k: "k \<le> i" and i: "i < n"
    and d: "heap_down lt h i n = (h', moved)"
  shows "mset h' = mset h \<and> (\<forall>c\<ge>n. h' ! c = h ! c) \<and>
     (if moved then heap_from h' n k else h' = h \<and> (\<forall>c<n. 0 < c \<longrightarrow> par c = i \<longrightarrow> ok_at lt h c))"
proof (cases "n \<le> 2 * i + 1 \<or> \<not> lt (h ! small_child h i n) (h ! i)")
  case True
  then have "h' = h" "\<not> moved" using d by (auto simp: down_loop_eq [of h] heap_down_def)
  with sift_done(1) [OF s True] show ?thesis by simp
next
  case False
  let ?j = "small_child h i n" and ?h = "heap_Swap h i (small_child h i n)"
  from False have j: "2 * i + 1 < n" "lt (h ! ?j) (h ! i)" by auto
  note c = small_child [OF j(1), where h = h]
  have ij: "i < ?j" using par_less [OF c(2)] c(3) by simp
  have st: "sift_ok ?h n k ?j" "ok_at lt ?h ?j" using sift_step [OF s n k c(1,2,3) j(2) c(4)] by auto
  obtain i' where d': "down_loop lt ?h ?j n = (h', i')" "moved = (i < i')"
    using d False by (auto simp: heap_down_def down_loop_eq [of h] split: prod.splits)
  have "heap_from h' n k \<and> mset h' = mset ?h \<and> (\<forall>c\<ge>n. h' ! c = ?h ! c) \<and> ?j \<le> i'"
    using down_loop_correct [OF st(1) _ _ st(2) d'(1)] n k ij by simp
  moreover have "mset ?h = mset h" "\<And>c. n \<le> c \<Longrightarrow> ?h ! c = h ! c" using ij c(1) n by (auto simp: nth_Swap)
  ultimately show ?thesis using ij d'(2) by simp
qed

lemma heap_down_from:
  assumes s: "sift_ok h n k i" and n: "n \<le> length h" and k: "k \<le> i" and i: "i < n" and ok: "0 < i \<Longrightarrow> par i < k"
  shows "heap_from (fst (heap_down lt h i n)) n k \<and> mset (fst (heap_down lt h i n)) = mset h \<and>
     (\<forall>c\<ge>n. fst (heap_down lt h i n) ! c = h ! c)"
proof -
  obtain h' moved where d: "heap_down lt h i n = (h', moved)" by fastforce
  note * = heap_down_correct [OF s n k i d]
  have "heap_from h n k" if "\<forall>c<n. 0 < c \<longrightarrow> par c = i \<longrightarrow> ok_at lt h c"
    unfolding heap_from_def
  proof (intro allI impI)
    fix j assume j: "j < n" "0 < j" "k \<le> par j"
    then have "j \<noteq> i" using ok by auto
    with s that j show "ok_at lt h j" unfolding sift_ok_def by blast
  qed
  with * d show ?thesis by (auto split: if_splits)
qed

lemma heap_up_correct:
  assumes "\<And>c. c < n \<Longrightarrow> c \<noteq> j \<Longrightarrow> ok_at lt h c"
    and "\<And>c. c < n \<Longrightarrow> 0 < c \<Longrightarrow> par c = j \<Longrightarrow> 0 < j \<Longrightarrow> \<not> lt (h ! c) (h ! par j)"
    and "j < n" "n \<le> length h"
  shows "(\<forall>c<n. ok_at lt (heap_up lt h j) c) \<and> mset (heap_up lt h j) = mset h \<and> (\<forall>c\<ge>n. heap_up lt h j ! c = h ! c)"
  using assms
proof (induction j arbitrary: h rule: less_induct)
  case (less j)
  let ?i = "par j" and ?h = "heap_Swap h (par j) j"
  show ?case
  proof (cases "?i = j \<or> \<not> lt (h ! j) (h ! ?i)")
    case True
    then have "ok_at lt h j" by (auto simp: ok_at_def)
    with less.prems(1) True show ?thesis by (subst (1 2 3) heap_up.simps) (auto simp: Let_def)
  next
    case False
    then have j: "0 < j" "lt (h ! j) (h ! ?i)" by auto
    have ij: "?i < j" using par_less [OF j(1)] .
    have v: "?h ! c = (if c = j then h ! ?i else if c = ?i then h ! j else h ! c)" for c
      using nth_Swap [of ?i h j c] ij less.prems(3,4) by simp
    have A: "ok_at lt ?h c" if c: "c < n" "c \<noteq> ?i" for c
    proof (cases "0 < c")
      case True
      note pc = par_less [OF True]
      consider "c = j" | "c \<noteq> j" "par c = j" | "c \<noteq> j" "par c = ?i" | "c \<noteq> j" "par c \<noteq> j" "par c \<noteq> ?i" by blast
      then show ?thesis
      proof cases
        case 1 with j ij asym [OF j(2)] show ?thesis unfolding ok_at_def v by simp
      next
        case 2
        with less.prems(2) [of c] c True j ij pc show ?thesis unfolding ok_at_def v by simp
      next
        case 3
        with less.prems(1) [of c] c True have "\<not> lt (h ! c) (h ! ?i)" by (simp add: ok_at_def)
        then have "\<not> lt (h ! c) (h ! j)" using asym [OF j(2)] not_less_trans by blast
        with 3 c ij True show ?thesis unfolding ok_at_def v by simp
      next
        case 4
        with less.prems(1) [of c] c show ?thesis unfolding ok_at_def v by simp
      qed
    qed (simp add: ok_at_def)
    have B: "\<not> lt (?h ! c) (?h ! par ?i)" if c: "c < n" "0 < c" "par c = ?i" "0 < ?i" for c
    proof -
      have pi: "par ?i < ?i" by (rule par_less [OF c(4)])
      have i: "\<not> lt (h ! ?i) (h ! par ?i)" using less.prems(1) [of ?i] ij less.prems(3) c(4) by (simp add: ok_at_def)
      show ?thesis
      proof (cases "c = j")
        case True with i ij pi show ?thesis unfolding v by simp
      next
        case False
        have "\<not> lt (h ! c) (h ! ?i)" using less.prems(1) [of c] c False by (simp add: ok_at_def)
        then have "\<not> lt (h ! c) (h ! par ?i)" using i not_less_trans by blast
        with False c par_less [OF c(2)] ij pi show ?thesis unfolding v by auto
      qed
    qed
    have "heap_up lt h j = heap_up lt ?h ?i" using False by (subst heap_up.simps) (simp add: Let_def)
    moreover have "mset ?h = mset h" using ij less.prems(3,4) by simp
    moreover have "?h ! c = h ! c" if "n \<le> c" for c unfolding v using ij less.prems(3) that by simp
    moreover have "?i < n" "n \<le> length ?h" using ij less.prems(3,4) by auto
    ultimately show ?thesis using less.IH [OF ij A B] by auto
  qed
qed

lemma is_heap_iff: "is_heap lt h \<longleftrightarrow> heap_from h (length h) 0"
  by (auto simp: is_heap_def heap_from_def ok_at_def)

lemma Init_loop_correct:
  assumes "heap_from h n i" "n = length h" "2 * i \<le> n"
  shows "is_heap lt (Init_loop lt h n i) \<and> mset (Init_loop lt h n i) = mset h"
  using assms
proof (induction i arbitrary: h)
  case 0
  then show ?case by (simp add: is_heap_iff)
next
  case (Suc i)
  have "sift_ok h n i i"
    using Suc.prems(1) unfolding sift_ok_def heap_from_def
    by (metis Suc_leI le_neq_implies_less not_less par_less)
  then have *: "heap_from (fst (heap_down lt h i n)) n i" "mset (fst (heap_down lt h i n)) = mset h"
    using heap_down_from [of h n i i] Suc.prems par_less [of i] by auto
  with Suc.IH [of "fst (heap_down lt h i n)"] mset_eq_length [OF *(2)] Suc.prems show ?case by simp
qed

lemma heap_Init_correct: "is_heap lt (heap_Init lt h)" "mset (heap_Init lt h) = mset h"
proof -
  have "heap_from h (length h) (length h div 2)" by (auto simp: heap_from_def)
  from Init_loop_correct [OF this] show "is_heap lt (heap_Init lt h)" "mset (heap_Init lt h) = mset h"
    by (auto simp: heap_Init_def Let_def)
qed

lemma heap_Push_correct:
  assumes "is_heap lt h"
  shows "is_heap lt (heap_Push lt h x)" and "mset (heap_Push lt h x) = add_mset x (mset h)"
proof -
  let ?h = "h @ [x]"
  have "ok_at lt ?h c" if "c < Suc (length h)" "c \<noteq> length h" for c
    using assms that par_less [of c] by (auto simp: is_heap_def ok_at_def nth_append)
  moreover have "\<not> lt (?h ! c) (?h ! par (length h))" if "c < Suc (length h)" "0 < c" "par c = length h" for c
    using that par_less [of c] by simp
  ultimately have *: "(\<forall>c < Suc (length h). ok_at lt (heap_Push lt h x) c) \<and> mset (heap_Push lt h x) = mset ?h"
    using heap_up_correct [of "Suc (length h)" "length h" ?h] by (auto simp: heap_Push_def Let_def)
  then have "length (heap_Push lt h x) = Suc (length h)" using mset_eq_length [of "heap_Push lt h x" ?h] by simp
  with * show "is_heap lt (heap_Push lt h x)" "mset (heap_Push lt h x) = add_mset x (mset h)"
    by (simp_all add: is_heap_def)
qed

text \<open>Taking the last element off, when the positions before it are in order.\<close>

lemma take_last_correct:
  assumes "\<forall>c < n. ok_at lt h c" and "length h = Suc n"
  shows "\<exists>h'. take_last h = (h ! n, h') \<and> is_heap lt h' \<and> mset h = add_mset (h ! n) (mset h')"
proof -
  from assms(2) have ne: "h \<noteq> []" by auto
  have "take_last h = (h ! n, butlast h)" using assms(2) ne by (simp add: take_last_def last_conv_nth)
  moreover have "is_heap lt (butlast h)"
    using assms par_less unfolding is_heap_def ok_at_def by (auto simp: nth_butlast)
  moreover have "mset h = add_mset (h ! n) (mset (butlast h))"
    using arg_cong [OF append_butlast_last_id [OF ne], of mset] assms(2) ne by (simp add: last_conv_nth)
  ultimately show ?thesis by blast
qed

text \<open>What is left to repair when position \<open>i\<close> receives the last element.\<close>

lemma sift_ok_Swap:
  assumes "is_heap lt h" and n: "length h = Suc n" and i: "i < n"
  shows "sift_ok (heap_Swap h i n) n 0 i"
proof -
  have v: "heap_Swap h i n ! c = (if c = i then h ! n else h ! c)" if "c < n" for c
    using nth_Swap [of i h n c] n i that by simp
  have "ok_at lt (heap_Swap h i n) c" if c: "c < n" "0 < c" "c \<noteq> i" "par c \<noteq> i" for c
    using assms(1) n c v [OF c(1)] v [of "par c"] par_less [OF c(2)] unfolding is_heap_def ok_at_def by simp
  moreover have "\<not> lt (heap_Swap h i n ! c) (heap_Swap h i n ! par i)" if c: "c < n" "0 < c" "par c = i" "0 < i" for c
  proof -
    have "\<not> lt (h ! c) (h ! i)" "\<not> lt (h ! i) (h ! par i)"
      using assms(1) n c i unfolding is_heap_def ok_at_def by auto
    then have "\<not> lt (h ! c) (h ! par i)" using not_less_trans by blast
    moreover have "c \<noteq> i" "par i \<noteq> i" "par i < n" using par_less [OF c(2)] par_less [OF c(4)] c i by auto
    ultimately show ?thesis using v [OF c(1)] v [of "par i"] by simp
  qed
  ultimately show ?thesis unfolding sift_ok_def by blast
qed

lemma heap_Pop_correct:
  assumes "is_heap lt h" "h \<noteq> []"
  shows "\<exists>h'. heap_Pop lt h = Some (h ! 0, h') \<and> is_heap lt h' \<and> mset h = add_mset (h ! 0) (mset h')"
proof -
  obtain n where n: "length h = Suc n" using assms(2) by (cases h) auto
  define g where "g = fst (heap_down lt (heap_Swap h 0 n) 0 n)"
  have "heap_from g n 0 \<and> mset g = mset (heap_Swap h 0 n) \<and> (\<forall>c\<ge>n. g ! c = heap_Swap h 0 n ! c)"
  proof (cases n)
    case 0
    then show ?thesis by (simp add: g_def heap_down_def down_loop.simps heap_from_def)
  next
    case (Suc m)
    then show ?thesis unfolding g_def by (intro heap_down_from sift_ok_Swap assms n) (auto simp: n)
  qed
  then have g: "\<forall>c<n. ok_at lt g c" "mset g = mset h" "g ! n = h ! 0"
    using n by (auto simp: heap_from_def nth_Swap) (simp add: ok_at_def)
  have "length g = Suc n" using mset_eq_length [OF g(2)] n by simp
  from take_last_correct [OF g(1) this] g(2,3) show ?thesis
    using assms(2) n by (simp add: heap_Pop_def Let_def g_def [symmetric])
qed

lemma heap_Remove_correct:
  assumes "is_heap lt h" "i < length h"
  shows "\<exists>h'. heap_Remove lt h i = Some (h ! i, h') \<and> is_heap lt h' \<and> mset h = add_mset (h ! i) (mset h')"
proof -
  obtain n where n: "length h = Suc n" using assms(2) by (cases h) auto
  show ?thesis
  proof (cases "i = n")
    case True
    have "\<forall>c<n. ok_at lt h c" using assms(1) n by (simp add: is_heap_def)
    from take_last_correct [OF this n] True n show ?thesis by (simp add: heap_Remove_def)
  next
    case False
    with assms(2) n have i: "i < n" by simp
    note s = sift_ok_Swap [OF assms(1) n i]
    let ?s = "heap_Swap h i n"
    obtain h' moved where d: "heap_down lt ?s i n = (h', moved)" by fastforce
    note c = heap_down_correct [OF s _ _ i d]
    define g where "g = (if moved then h' else heap_up lt h' i)"
    have "(\<forall>c<n. ok_at lt g c) \<and> mset g = mset ?s \<and> (\<forall>c\<ge>n. g ! c = ?s ! c)"
    proof (cases moved)
      case True
      with c n show ?thesis by (auto simp: g_def heap_from_def ok_at_def)
    next
      case False
      with c n have h': "h' = ?s" and ch: "\<And>c. c < n \<Longrightarrow> 0 < c \<Longrightarrow> par c = i \<Longrightarrow> ok_at lt ?s c" by auto
      have "ok_at lt ?s c" if "c < n" "c \<noteq> i" for c
        using s that ch [of c] unfolding sift_ok_def ok_at_def by blast
      moreover have "\<not> lt (?s ! c) (?s ! par i)" if "c < n" "0 < c" "par c = i" "0 < i" for c
        using s that unfolding sift_ok_def by blast
      ultimately show ?thesis using heap_up_correct [of n i ?s] i n False by (simp add: g_def h')
    qed
    then have g: "\<forall>c<n. ok_at lt g c" "mset g = mset h" "g ! n = h ! i" using n i by (auto simp: nth_Swap)
    have "length g = Suc n" using mset_eq_length [OF g(2)] n by simp
    from take_last_correct [OF g(1) this] g(2,3) show ?thesis
      using i n d by (simp add: heap_Remove_def Let_def g_def [symmetric])
  qed
qed

lemma heap_least: "is_heap lt h \<Longrightarrow> j < length h \<Longrightarrow> \<not> lt (h ! j) (h ! 0)"
proof (induction j rule: less_induct)
  case (less j)
  show ?case
  proof (cases "j = 0")
    case False
    then have "\<not> lt (h ! par j) (h ! 0)" using less par_less [of j] by simp
    moreover have "\<not> lt (h ! j) (h ! par j)" using less.prems False by (auto simp: is_heap_def ok_at_def)
    ultimately show ?thesis by (rule not_less_trans)
  qed simp
qed

end

sublocale heap_order \<subseteq> min_queue lt "is_heap lt" "heap_Init lt" "heap_Push lt" "heap_Pop lt" "heap_Remove lt"
proof unfold_locales
  show "is_heap lt []" by (simp add: is_heap_def)
  show "\<not> lt y (h ! 0)" if "is_heap lt h" "y \<in> set h" for y h
    using heap_least [OF that(1)] that(2) by (auto simp: in_set_conv_nth)
qed (rule heap_Init_correct heap_Push_correct heap_Pop_correct heap_Remove_correct; assumption)+

end
