(* ===== verification/Tx_List.thy ===== *)
theory Tx_List
  imports Tx_Types Go_Heap "HOL-Library.AList"
begin

text \<open>
  \<^verbatim>\<open>core/tx_list.go\<close>: the lists in which the transaction pool keeps the transactions of an account, sorted by nonce, and
  the list of all transactions by price, with \<^verbatim>\<open>txLookup\<close> and \<^verbatim>\<open>accountSet\<close> of \<^verbatim>\<open>core/tx_pool.go\<close>.

  A Go map is an association list with distinct keys.  The order in which \<^verbatim>\<open>range\<close> visits it is not specified and may
  differ from one loop to the next: every loop takes it as the parameter \<open>rng\<close>, which lists the keys.  A read of a
  missing key is the nil pointer \<open>None\<close>, so \<^verbatim>\<open>Forward\<close>, \<^verbatim>\<open>Cap\<close> and \<^verbatim>\<open>Ready\<close>, which append what they read, return lists of
  optional transactions.  Slicing out of range panics and is the outer \<open>None\<close>.  Go's \<^verbatim>\<open>sort.Sort\<close> is not stable; the
  nonces it sorts are distinct, so there is one sorted order.
\<close>

type_synonym ('k, 'v) gomap = "('k \<times> 'v) list"
type_synonym 'k range = "('k, Transaction) gomap \<Rightarrow> 'k list"

section \<open>The map sorted by nonce\<close>

abbreviation nonce_less :: "uint64 \<Rightarrow> uint64 \<Rightarrow> bool" where
  "nonce_less \<equiv> (<)"

interpretation nonces: heap_order nonce_less
  by unfold_locales auto

record txSortedMap =
  sm_items :: "(uint64, Transaction) gomap"
  sm_index :: "uint64 list"
  sm_cache :: "Transaction list option"

definition newTxSortedMap :: txSortedMap where
  "newTxSortedMap = \<lparr>sm_items = [], sm_index = [], sm_cache = None\<rparr>"

definition sm_Get :: "txSortedMap \<Rightarrow> uint64 \<Rightarrow> Transaction option" where
  "sm_Get m nonce = map_of (sm_items m) nonce"

definition sm_Put :: "Transaction \<Rightarrow> txSortedMap \<Rightarrow> txSortedMap" where
  "sm_Put tx m =
     (let nonce = AccountNonce tx;
          m = (if map_of (sm_items m) nonce = None then m\<lparr>sm_index := heap_Push nonce_less (sm_index m) nonce\<rparr> else m) in
      m\<lparr>sm_items := AList.update nonce tx (sm_items m), sm_cache := None\<rparr>)"

function Forward_loop :: "uint64 \<Rightarrow> uint64 list \<Rightarrow> (uint64, Transaction) gomap \<Rightarrow> Transaction option list \<Rightarrow>
    (uint64 list \<times> (uint64, Transaction) gomap \<times> Transaction option list) option" where
  "Forward_loop threshold index items removed =
     (if 0 < length index \<and> index ! 0 < threshold then
        case heap_Pop nonce_less index of
          None \<Rightarrow> None
        | Some (nonce, index) \<Rightarrow>
            Forward_loop threshold index (AList.delete nonce items) (removed @ [map_of items nonce])
      else Some (index, items, removed))"
  by auto
termination by (relation "measure (\<lambda>(t, index, items, removed). length index)") (auto dest: heap_Pop_length)

definition sm_Forward :: "uint64 \<Rightarrow> txSortedMap \<Rightarrow> (Transaction option list \<times> txSortedMap) option" where
  "sm_Forward threshold m =
     do {
       (index, items, removed) \<leftarrow> Forward_loop threshold (sm_index m) (sm_items m) [];
       cache \<leftarrow> (case sm_cache m of None \<Rightarrow> Some None | Some c \<Rightarrow> map_option Some (slice c (length removed) (length c)));
       Some (removed, \<lparr>sm_items = items, sm_index = index, sm_cache = cache\<rparr>)
     }"

fun Filter_loop :: "(Transaction \<Rightarrow> bool) \<Rightarrow> uint64 list \<Rightarrow> (uint64, Transaction) gomap \<Rightarrow> Transaction list \<Rightarrow>
    (uint64, Transaction) gomap \<times> Transaction list" where
  "Filter_loop f [] items removed = (items, removed)"
| "Filter_loop f (nonce # ks) items removed =
     (case map_of items nonce of
        None \<Rightarrow> Filter_loop f ks items removed
      | Some tx \<Rightarrow>
          if f tx then Filter_loop f ks (AList.delete nonce items) (removed @ [tx])
          else Filter_loop f ks items removed)"

definition sm_Filter :: "uint64 range \<Rightarrow> (Transaction \<Rightarrow> bool) \<Rightarrow> txSortedMap \<Rightarrow> Transaction list \<times> txSortedMap" where
  "sm_Filter rng f m =
     (let (items, removed) = Filter_loop f (rng (sm_items m)) (sm_items m) [] in
      if 0 < length removed then
        (removed, \<lparr>sm_items = items, sm_index = heap_Init nonce_less (rng items), sm_cache = None\<rparr>)
      else (removed, m\<lparr>sm_items := items\<rparr>))"

function Cap_loop :: "uint64 list \<Rightarrow> int \<Rightarrow> int \<Rightarrow> (uint64, Transaction) gomap \<Rightarrow> Transaction option list \<Rightarrow>
    ((uint64, Transaction) gomap \<times> Transaction option list) option" where
  "Cap_loop index threshold sz items drops =
     (if threshold < sz then
        if sz - 1 < 0 \<or> int (length index) \<le> sz - 1 then None
        else let nonce = index ! nat (sz - 1) in
          Cap_loop index threshold (sz - 1) (AList.delete nonce items) (drops @ [map_of items nonce])
      else Some (items, drops))"
  by auto
termination by (relation "measure (\<lambda>(index, threshold, sz, items, drops). nat (sz - threshold))") auto

definition sm_Cap :: "int \<Rightarrow> txSortedMap \<Rightarrow> (Transaction option list \<times> txSortedMap) option" where
  "sm_Cap threshold m =
     (if int (length (sm_items m)) \<le> threshold then Some ([], m)
      else do {
        let index = sort (sm_index m);
        (items, drops) \<leftarrow> Cap_loop index threshold (int (length (sm_items m))) (sm_items m) [];
        index \<leftarrow> (if threshold < 0 then None else slice index 0 (nat threshold));
        cache \<leftarrow> (case sm_cache m of None \<Rightarrow> Some None
                  | Some c \<Rightarrow> if length c < length drops then None else map_option Some (slice c 0 (length c - length drops)));
        Some (drops, \<lparr>sm_items = items, sm_index = heap_Init nonce_less index, sm_cache = cache\<rparr>)
      })"

function Remove_loop :: "uint64 \<Rightarrow> nat \<Rightarrow> uint64 list \<Rightarrow> uint64 list option" where
  "Remove_loop nonce i index =
     (if i < length index then
        if index ! i = nonce then map_option snd (heap_Remove nonce_less index i)
        else Remove_loop nonce (i + 1) index
      else Some index)"
  by auto
termination by (relation "measure (\<lambda>(nonce, i, index). length index - i)") auto

definition sm_Remove :: "uint64 \<Rightarrow> txSortedMap \<Rightarrow> (bool \<times> txSortedMap) option" where
  "sm_Remove nonce m =
     (if map_of (sm_items m) nonce = None then Some (False, m)
      else do {
        index \<leftarrow> Remove_loop nonce 0 (sm_index m);
        Some (True, \<lparr>sm_items = AList.delete nonce (sm_items m), sm_index = index, sm_cache = None\<rparr>)
      })"

function Ready_loop :: "uint64 \<Rightarrow> uint64 list \<Rightarrow> (uint64, Transaction) gomap \<Rightarrow> Transaction option list \<Rightarrow>
    (uint64 list \<times> (uint64, Transaction) gomap \<times> Transaction option list) option" where
  "Ready_loop nxt index items ready =
     (if 0 < length index \<and> index ! 0 = nxt then
        case heap_Pop nonce_less index of
          None \<Rightarrow> None
        | Some (_, index) \<Rightarrow> Ready_loop (nxt + 1) index (AList.delete nxt items) (ready @ [map_of items nxt])
      else Some (index, items, ready))"
  by auto
termination by (relation "measure (\<lambda>(nxt, index, items, ready). length index)") (auto dest: heap_Pop_length)

definition sm_Ready :: "uint64 \<Rightarrow> txSortedMap \<Rightarrow> (Transaction option list \<times> txSortedMap) option" where
  "sm_Ready start m =
     (if length (sm_index m) = 0 \<or> start < sm_index m ! 0 then Some ([], m)
      else do {
        (index, items, ready) \<leftarrow> Ready_loop (sm_index m ! 0) (sm_index m) (sm_items m) [];
        Some (ready, \<lparr>sm_items = items, sm_index = index, sm_cache = None\<rparr>)
      })"

definition sm_Len :: "txSortedMap \<Rightarrow> nat" where
  "sm_Len m = length (sm_items m)"

definition sm_Flatten :: "uint64 range \<Rightarrow> txSortedMap \<Rightarrow> Transaction list \<times> txSortedMap" where
  "sm_Flatten rng m =
     (case sm_cache m of
        None \<Rightarrow>
          let cache = sort_key AccountNonce (List.map_filter (map_of (sm_items m)) (rng (sm_items m))) in
          (cache, m\<lparr>sm_cache := Some cache\<rparr>)
      | Some cache \<Rightarrow> (cache, m))"

declare Forward_loop.simps [simp del] Cap_loop.simps [simp del] Remove_loop.simps [simp del] Ready_loop.simps [simp del]

section \<open>The list of an account\<close>

record txList =
  l_strict :: bool
  l_txs :: txSortedMap
  l_costcap :: int
  l_gascap :: uint64

definition newTxList :: "bool \<Rightarrow> txList" where
  "newTxList strict = \<lparr>l_strict = strict, l_txs = newTxSortedMap, l_costcap = 0, l_gascap = 0\<rparr>"

definition txList_Overlaps :: "txList \<Rightarrow> Transaction \<Rightarrow> bool" where
  "txList_Overlaps l tx = (sm_Get (l_txs l) (AccountNonce tx) \<noteq> None)"

text \<open>\<^verbatim>\<open>100+int64(priceBump)\<close> wraps around in 64 bits.\<close>

definition price_threshold :: "Transaction \<Rightarrow> uint64 \<Rightarrow> int" where
  "price_threshold old priceBump = Price old * sint (100 + priceBump) div 100"

definition txList_Add :: "Transaction \<Rightarrow> uint64 \<Rightarrow> txList \<Rightarrow> (bool \<times> Transaction option) \<times> txList" where
  "txList_Add tx priceBump l =
     (let old = sm_Get (l_txs l) (AccountNonce tx) in
      if (case old of None \<Rightarrow> False
          | Some old \<Rightarrow> Price tx \<le> Price old \<or> Price tx < price_threshold old priceBump)
      then ((False, None), l)
      else
        let l = l\<lparr>l_txs := sm_Put tx (l_txs l)\<rparr>;
            cost = Cost tx;
            l = (if l_costcap l < cost then l\<lparr>l_costcap := cost\<rparr> else l);
            gas = tx_GasLimit tx;
            l = (if l_gascap l < gas then l\<lparr>l_gascap := gas\<rparr> else l) in
        ((True, old), l))"

definition txList_Forward :: "uint64 \<Rightarrow> txList \<Rightarrow> (Transaction option list \<times> txList) option" where
  "txList_Forward threshold l = do { (r, m) \<leftarrow> sm_Forward threshold (l_txs l); Some (r, l\<lparr>l_txs := m\<rparr>) }"

definition lowest_nonce :: "Transaction list \<Rightarrow> uint64" where
  "lowest_nonce removed = foldl (\<lambda>lowest tx. let nonce = AccountNonce tx in if nonce < lowest then nonce else lowest) (- 1) removed"

definition txList_Filter :: "uint64 range \<Rightarrow> uint64 range \<Rightarrow> int \<Rightarrow> uint64 \<Rightarrow> txList \<Rightarrow> (Transaction list \<times> Transaction list) \<times> txList" where
  "txList_Filter rng rng' costLimit gasLimit l =
     (if l_costcap l \<le> costLimit \<and> l_gascap l \<le> gasLimit then (([], []), l)
      else
        let l = l\<lparr>l_costcap := costLimit, l_gascap := gasLimit\<rparr>;
            (removed, m) = sm_Filter rng (\<lambda>tx. costLimit < Cost tx \<or> gasLimit < tx_GasLimit tx) (l_txs l) in
        if l_strict l \<and> 0 < length removed then
          let lowest = lowest_nonce removed;
              (invalids, m) = sm_Filter rng' (\<lambda>tx. lowest < AccountNonce tx) m in
          ((removed, invalids), l\<lparr>l_txs := m\<rparr>)
        else ((removed, []), l\<lparr>l_txs := m\<rparr>))"

definition txList_Cap :: "int \<Rightarrow> txList \<Rightarrow> (Transaction option list \<times> txList) option" where
  "txList_Cap threshold l = do { (r, m) \<leftarrow> sm_Cap threshold (l_txs l); Some (r, l\<lparr>l_txs := m\<rparr>) }"

definition txList_Remove :: "uint64 range \<Rightarrow> Transaction \<Rightarrow> txList \<Rightarrow> ((bool \<times> Transaction list) \<times> txList) option" where
  "txList_Remove rng tx l =
     (let nonce = AccountNonce tx in
      do {
        (removed, m) \<leftarrow> sm_Remove nonce (l_txs l);
        if \<not> removed then Some ((False, []), l)
        else if l_strict l then
          let (invalids, m) = sm_Filter rng (\<lambda>tx. nonce < AccountNonce tx) m in
          Some ((True, invalids), l\<lparr>l_txs := m\<rparr>)
        else Some ((True, []), l\<lparr>l_txs := m\<rparr>)
      })"

definition txList_Ready :: "uint64 \<Rightarrow> txList \<Rightarrow> (Transaction option list \<times> txList) option" where
  "txList_Ready start l = do { (r, m) \<leftarrow> sm_Ready start (l_txs l); Some (r, l\<lparr>l_txs := m\<rparr>) }"

definition txList_Len :: "txList \<Rightarrow> nat" where
  "txList_Len l = sm_Len (l_txs l)"

definition txList_Empty :: "txList \<Rightarrow> bool" where
  "txList_Empty l = (txList_Len l = 0)"

definition txList_Flatten :: "uint64 range \<Rightarrow> txList \<Rightarrow> Transaction list \<times> txList" where
  "txList_Flatten rng l = (let (r, m) = sm_Flatten rng (l_txs l) in (r, l\<lparr>l_txs := m\<rparr>))"

end
