(* ===== verification/Tx_Sorted.thy ===== *)
theory Tx_Sorted
  imports Tx_List
begin

text \<open>
  The map sorted by nonce keeps its three representations (hash map, heap index, cached order) consistent, and
  implements operations on the list of its transactions in the order of their nonces.
\<close>

section \<open>The content of a map\<close>

definition keyed :: "Transaction list \<Rightarrow> (uint64, Transaction) gomap" where
  "keyed ts = map (\<lambda>t. (AccountNonce t, t)) ts"

abbreviation by_nonce :: "Transaction list \<Rightarrow> Transaction list" where
  "by_nonce \<equiv> sort_key AccountNonce"

abbreviation distinct_nonces :: "Transaction list \<Rightarrow> bool" where
  "distinct_nonces ts \<equiv> distinct (map AccountNonce ts)"

text \<open>The abstraction: the stored transactions in the order of their nonces.\<close>

definition txs_of :: "txSortedMap \<Rightarrow> Transaction list" where
  "txs_of m = by_nonce (map snd (sm_items m))"

text \<open>
  The invariant: keys are the nonces of their transactions and distinct, the index is a heap of the keys, and a
  cached order is the current one.
\<close>

definition sm_ok :: "txSortedMap \<Rightarrow> bool" where
  "sm_ok m \<longleftrightarrow>
     sm_items m = keyed (map snd (sm_items m)) \<and> distinct_nonces (map snd (sm_items m)) \<and>
     is_heap nonce_less (sm_index m) \<and> mset (sm_index m) = mset (map fst (sm_items m)) \<and>
     (sm_cache m = None \<or> sm_cache m = Some (txs_of m))"

definition range_ok :: "uint64 range \<Rightarrow> bool" where
  "range_ok rng \<longleftrightarrow> (\<forall>items. distinct (map fst items) \<longrightarrow> mset (rng items) = mset (map fst items))"

lemma map_fst_keyed [simp]: "map fst (keyed ts) = map AccountNonce ts"
  and map_snd_keyed [simp]: "map snd (keyed ts) = ts"
  and length_keyed [simp]: "length (keyed ts) = length ts"
  by (simp_all add: keyed_def comp_def)

lemma in_set_keyed [simp]: "(k, t) \<in> set (keyed ts) \<longleftrightarrow> t \<in> set ts \<and> AccountNonce t = k"
  by (auto simp: keyed_def)

lemma delete_keyed [simp]: "AList.delete k (keyed ts) = keyed (filter (\<lambda>t. AccountNonce t \<noteq> k) ts)"
  by (induction ts) (auto simp: keyed_def AList.delete_eq)

lemma map_of_keyed: "map_of (keyed ts) k = find (\<lambda>t. AccountNonce t = k) ts"
  by (induction ts) (auto simp: keyed_def)

lemma map_of_keyed_None [simp]: "map_of (keyed ts) k = None \<longleftrightarrow> k \<notin> AccountNonce ` set ts"
  by (auto simp: map_of_keyed find_None_iff)

lemma map_of_keyed_Some [simp]:
  "distinct_nonces ts \<Longrightarrow> map_of (keyed ts) k = Some t \<longleftrightarrow> t \<in> set ts \<and> AccountNonce t = k"
  by (subst map_of_eq_Some_iff) (auto simp: keyed_def comp_def)

lemma update_keyed:
  assumes "distinct_nonces ts"
  shows "AList.update (AccountNonce tx) tx (keyed ts) =
     keyed (if AccountNonce tx \<in> AccountNonce ` set ts then map (\<lambda>t. if AccountNonce t = AccountNonce tx then tx else t) ts else ts @ [tx])"
  using assms by (induction ts) (auto simp: keyed_def image_iff eq_commute [of "AccountNonce tx"] intro!: map_idI)

lemma by_nonce_eqI:
  assumes "mset us = mset ts" "sorted (map AccountNonce us)" "distinct_nonces ts"
  shows "by_nonce ts = us"
  using assms by (intro sort_key_inj_key_eq) (auto simp: distinct_map)

lemma filter_nonce:
  assumes "t \<in> set ts" "distinct_nonces ts"
  shows "filter (\<lambda>u. AccountNonce u = AccountNonce t) ts = [t]"
  using assms
proof (induction ts)
  case (Cons u us)
  then show ?case
    by (cases "AccountNonce u = AccountNonce t") (auto simp: filter_empty_conv image_iff dest: sym)
qed simp

lemma mset_split:
  assumes "t \<in> set ts" "distinct_nonces ts"
  shows "mset ts = add_mset t (mset (filter (\<lambda>u. AccountNonce u \<noteq> AccountNonce t) ts))"
  using arg_cong [OF filter_nonce [OF assms], of mset]
  by (subst multiset_partition [of _ "\<lambda>u. AccountNonce u = AccountNonce t"]) simp

lemma by_nonce_Cons:
  assumes t: "t \<in> set ts" "\<And>u. u \<in> set ts \<Longrightarrow> AccountNonce t \<le> AccountNonce u" and d: "distinct_nonces ts"
  shows "by_nonce ts = t # by_nonce (filter (\<lambda>u. AccountNonce u \<noteq> AccountNonce t) ts)"
  using mset_split [OF t(1) d] t(2) d by (intro by_nonce_eqI) auto

lemma sort_index:
  assumes "mset index = mset (map AccountNonce ts)" "distinct_nonces ts"
  shows "sort index = map AccountNonce (by_nonce ts)"
  by (rule properties_for_sort) (use assms in \<open>auto simp: mset_map\<close>)


section \<open>The operations on the representation\<close>

definition rep :: "txSortedMap \<Rightarrow> Transaction list \<Rightarrow> bool" where
  "rep m ts \<longleftrightarrow>
     sm_items m = keyed ts \<and> distinct_nonces ts \<and> is_heap nonce_less (sm_index m) \<and>
     mset (sm_index m) = mset (map AccountNonce ts) \<and> (sm_cache m = None \<or> sm_cache m = Some (by_nonce ts))"

lemma sm_ok_rep: "sm_ok m \<Longrightarrow> rep m (map snd (sm_items m))"
  unfolding sm_ok_def rep_def txs_of_def by (metis map_fst_keyed)

lemma rep_ok: "rep m ts \<Longrightarrow> sm_ok m \<and> txs_of m = by_nonce ts"
  by (auto simp: sm_ok_def rep_def txs_of_def)

lemma rep_new: "rep newTxSortedMap []"
  by (simp add: rep_def newTxSortedMap_def keyed_def nonces.invar_Nil)

lemma mset_replace:
  assumes "distinct_nonces ts" "AccountNonce tx \<in> AccountNonce ` set ts"
  shows "mset (map (\<lambda>t. if AccountNonce t = AccountNonce tx then tx else t) ts) =
     add_mset tx (mset (filter (\<lambda>t. AccountNonce t \<noteq> AccountNonce tx) ts))"
  using assms
proof (induction ts)
  case (Cons a ts)
  show ?case
  proof (cases "AccountNonce a = AccountNonce tx")
    case True
    then have n: "AccountNonce t \<noteq> AccountNonce tx" if "t \<in> set ts" for t using Cons.prems(1) that by (auto simp: image_iff)
    have "map (\<lambda>t. if AccountNonce t = AccountNonce tx then tx else t) ts = ts" by (rule map_idI) (simp add: n)
    moreover have "filter (\<lambda>t. AccountNonce t \<noteq> AccountNonce tx) ts = ts" by (rule filter_True) (simp add: n)
    ultimately show ?thesis using True by simp
  next
    case False
    with Cons show ?thesis by simp
  qed
qed simp

lemma rep_Put:
  assumes "rep m ts"
  shows "\<exists>us. rep (sm_Put tx m) us \<and> mset us = add_mset tx (mset (filter (\<lambda>t. AccountNonce t \<noteq> AccountNonce tx) ts))"
proof (cases "AccountNonce tx \<in> AccountNonce ` set ts")
  case True
  let ?us = "map (\<lambda>t. if AccountNonce t = AccountNonce tx then tx else t) ts"
  have n: "map AccountNonce ?us = map AccountNonce ts" by auto
  then have d: "distinct_nonces ?us = distinct_nonces ts" "mset (map AccountNonce ?us) = mset (map AccountNonce ts)" by (simp_all only:)
  have "mset ?us = add_mset tx (mset (filter (\<lambda>t. AccountNonce t \<noteq> AccountNonce tx) ts))"
    using True assms unfolding rep_def by (intro mset_replace) auto
  moreover have "rep (sm_Put tx m) ?us"
    using True assms d unfolding rep_def by (simp add: sm_Put_def Let_def update_keyed del: map_map mset_map)
  ultimately show ?thesis by blast
next
  case False
  have "rep (sm_Put tx m) (ts @ [tx])"
    using False assms nonces.push [of "sm_index m" "AccountNonce tx"] unfolding rep_def
    by (simp add: sm_Put_def Let_def update_keyed)
  moreover have "filter (\<lambda>t. AccountNonce t \<noteq> AccountNonce tx) ts = ts" using False by (intro filter_True) (auto simp: image_iff)
  ultimately show ?thesis by (intro exI [of _ "ts @ [tx]"]) simp
qed

text \<open>Popping the least nonce takes the first transaction off.\<close>

lemma pop_least:
  assumes "is_heap nonce_less index" "mset index = mset (map AccountNonce ts)" "distinct_nonces ts" "index \<noteq> []"
  obtains t index' where "heap_Pop nonce_less index = Some (AccountNonce t, index')" "index ! 0 = AccountNonce t" "t \<in> set ts"
    "map_of (keyed ts) (AccountNonce t) = Some t"
    "is_heap nonce_less index'" "mset index' = mset (map AccountNonce (filter (\<lambda>u. AccountNonce u \<noteq> AccountNonce t) ts))"
    "by_nonce ts = t # by_nonce (filter (\<lambda>u. AccountNonce u \<noteq> AccountNonce t) ts)"
    "length (filter (\<lambda>u. AccountNonce u \<noteq> AccountNonce t) ts) < length ts"
proof -
  obtain index' where p: "heap_Pop nonce_less index = Some (index ! 0, index')" "is_heap nonce_less index'"
    "mset index = add_mset (index ! 0) (mset index')" using nonces.pop_cases [OF assms(1,4)] by blast
  have s: "set index = AccountNonce ` set ts" using arg_cong [OF assms(2), of set_mset] by simp
  then have "index ! 0 \<in> AccountNonce ` set ts" using assms(4) nth_mem [of 0 index] by blast
  then obtain t where t: "t \<in> set ts" "index ! 0 = AccountNonce t" by blast
  let ?us = "filter (\<lambda>u. AccountNonce u \<noteq> AccountNonce t) ts"
  have least: "AccountNonce t \<le> AccountNonce u" if "u \<in> set ts" for u
    using nonces.least [OF assms(1), of "AccountNonce u"] s that t(2) by (simp add: not_less)
  have c: "by_nonce ts = t # by_nonce ?us" by (rule by_nonce_Cons [OF t(1) least assms(3)])
  have "mset (map AccountNonce ts) = mset (map AccountNonce (by_nonce ts))" by (simp add: mset_map)
  also have "\<dots> = add_mset (AccountNonce t) (mset (map AccountNonce ?us))" unfolding c by (simp add: mset_map)
  finally have m: "mset index' = mset (map AccountNonce ?us)" using p(3) assms(2) t(2) by simp
  have l: "length ?us < length ts" using t(1) by (auto intro: length_filter_less)
  have "map_of (keyed ts) (AccountNonce t) = Some t" using t(1) map_of_keyed_Some [OF assms(3)] by blast
  with that [of t index'] p t m c l show thesis by simp
qed

lemma distinct_nonces_filter: "distinct_nonces ts \<Longrightarrow> distinct_nonces (filter P ts)"
  by (rule distinct_map_filter)

lemma Forward_loop_correct:
  assumes "is_heap nonce_less index" "mset index = mset (map AccountNonce ts)" "distinct_nonces ts"
  shows "\<exists>index'. Forward_loop thr index (keyed ts) removed =
       Some (index', keyed (filter (\<lambda>t. \<not> AccountNonce t < thr) ts), removed @ map Some (filter (\<lambda>t. AccountNonce t < thr) (by_nonce ts))) \<and>
     is_heap nonce_less index' \<and> mset index' = mset (map AccountNonce (filter (\<lambda>t. \<not> AccountNonce t < thr) ts))"
  using assms
proof (induction "length ts" arbitrary: ts index removed rule: less_induct)
  case less
  show ?case
  proof (cases "index \<noteq> [] \<and> index ! 0 < thr")
    case True
    then have "index \<noteq> []" by simp
    then obtain t index' where
      p: "heap_Pop nonce_less index = Some (AccountNonce t, index')" "index ! 0 = AccountNonce t" "t \<in> set ts"
        "map_of (keyed ts) (AccountNonce t) = Some t"
      and i: "is_heap nonce_less index'" "mset index' = mset (map AccountNonce (filter (\<lambda>u. AccountNonce u \<noteq> AccountNonce t) ts))"
      and c: "by_nonce ts = t # by_nonce (filter (\<lambda>u. AccountNonce u \<noteq> AccountNonce t) ts)"
      and l: "length (filter (\<lambda>u. AccountNonce u \<noteq> AccountNonce t) ts) < length ts"
      by (rule pop_least [OF less.prems])
    have t: "AccountNonce t < thr" using True p(2) by simp
    have f: "filter (\<lambda>u. \<not> AccountNonce u < thr) (filter (\<lambda>u. AccountNonce u \<noteq> AccountNonce t) ts) = filter (\<lambda>u. \<not> AccountNonce u < thr) ts"
      using t by (auto intro: filter_cong)
    note IH = less.hyps [OF l i distinct_nonces_filter [OF less.prems(3)], of "removed @ [Some t]", unfolded f]
    have "Forward_loop thr index (keyed ts) removed =
        Forward_loop thr index' (keyed (filter (\<lambda>u. AccountNonce u \<noteq> AccountNonce t) ts)) (removed @ [Some t])"
      using True p by (subst Forward_loop.simps) simp
    with IH t show ?thesis unfolding c by simp
  next
    case False
    have "\<not> AccountNonce t < thr" if "t \<in> set ts" for t
    proof -
      have "AccountNonce t \<in> set index" using that less.prems(2) mset_eq_setD by fastforce
      with nonces.least [OF less.prems(1)] False show ?thesis by (cases "index = []") fastforce+
    qed
    then have "filter (\<lambda>t. \<not> AccountNonce t < thr) ts = ts" "filter (\<lambda>t. AccountNonce t < thr) (by_nonce ts) = []"
      by (auto simp: filter_empty_conv intro: filter_True)
    moreover have "Forward_loop thr index (keyed ts) removed = Some (index, keyed ts, removed)"
      using False by (subst Forward_loop.simps) auto
    ultimately show ?thesis using less.prems by simp
  qed
qed


lemma drop_below:
  assumes "sorted (map f s)"
  shows "drop (length (filter (\<lambda>t. f t < thr) s)) s = filter (\<lambda>t. \<not> f t < (thr :: 'b :: linorder)) s"
  using assms
proof (induction s)
  case (Cons t s)
  show ?case
  proof (cases "f t < thr")
    case False
    then have "\<not> f u < thr" if "u \<in> set (t # s)" for u using Cons.prems that by (auto dest: le_less_trans)
    then have "filter (\<lambda>t. f t < thr) (t # s) = []" "filter (\<lambda>t. \<not> f t < thr) (t # s) = t # s"
      by (auto simp: filter_empty_conv intro!: filter_True)
    then show ?thesis by simp
  qed (use Cons in simp)
qed simp

lemma rep_Forward:
  assumes "rep m ts"
  shows "\<exists>m'. sm_Forward thr m = Some (map Some (filter (\<lambda>t. AccountNonce t < thr) (by_nonce ts)), m') \<and>
     rep m' (filter (\<lambda>t. \<not> AccountNonce t < thr) ts)"
proof -
  have m: "sm_items m = keyed ts" "distinct_nonces ts" "is_heap nonce_less (sm_index m)"
    "mset (sm_index m) = mset (map AccountNonce ts)" "sm_cache m = None \<or> sm_cache m = Some (by_nonce ts)"
    using assms by (auto simp: rep_def)
  let ?r = "filter (\<lambda>t. AccountNonce t < thr) (by_nonce ts)"
  have c: "slice (by_nonce ts) (length ?r) (length (by_nonce ts)) = Some (by_nonce (filter (\<lambda>t. \<not> AccountNonce t < thr) ts))"
    using drop_below [of AccountNonce "by_nonce ts" thr] sum_length_filter_compl [of "\<lambda>t. AccountNonce t < thr" ts]
    by (simp add: slice_def filter_sort)
  from Forward_loop_correct [OF m(3,4,2), of thr "[]"] m(1,5) c distinct_nonces_filter [OF m(2)] show ?thesis
    by (auto simp: sm_Forward_def rep_def)
qed

lemma Filter_loop_correct:
  assumes "distinct_nonces us" "distinct ks"
  shows "\<exists>r. Filter_loop f ks (keyed us) removed = (keyed (filter (\<lambda>t. \<not> (f t \<and> AccountNonce t \<in> set ks)) us), removed @ r) \<and>
     mset r = mset (filter (\<lambda>t. f t \<and> AccountNonce t \<in> set ks) us)"
  using assms
proof (induction ks arbitrary: us removed)
  case (Cons k ks)
  show ?case
  proof (cases "map_of (keyed us) k")
    case None
    then have "\<And>t. t \<in> set us \<Longrightarrow> AccountNonce t \<noteq> k" by auto
    then have "filter (\<lambda>t. \<not> (f t \<and> AccountNonce t \<in> set (k # ks))) us = filter (\<lambda>t. \<not> (f t \<and> AccountNonce t \<in> set ks)) us"
      "filter (\<lambda>t. f t \<and> AccountNonce t \<in> set (k # ks)) us = filter (\<lambda>t. f t \<and> AccountNonce t \<in> set ks) us"
      by (auto intro: filter_cong)
    moreover have "Filter_loop f (k # ks) (keyed us) removed = Filter_loop f ks (keyed us) removed"
      by (simp only: Filter_loop.simps None option.case)
    ultimately show ?thesis using Cons.IH [OF Cons.prems(1), of removed] Cons.prems(2) by simp
  next
    case (Some t)
    then have t: "t \<in> set us" "AccountNonce t = k" using Cons.prems(1) by auto
    have ot: "u = t" if "u \<in> set us" "AccountNonce u = k" for u
      using that t Cons.prems(1) by (auto simp: distinct_map inj_on_def)
    show ?thesis
    proof (cases "f t")
      case True
      let ?us = "filter (\<lambda>u. AccountNonce u \<noteq> k) us"
      obtain r where r: "Filter_loop f ks (keyed ?us) (removed @ [t]) =
          (keyed (filter (\<lambda>t. \<not> (f t \<and> AccountNonce t \<in> set ks)) ?us), (removed @ [t]) @ r)"
        "mset r = mset (filter (\<lambda>t. f t \<and> AccountNonce t \<in> set ks) ?us)"
        using Cons.IH [OF distinct_nonces_filter [OF Cons.prems(1)], of "\<lambda>u. AccountNonce u \<noteq> k" "removed @ [t]"] Cons.prems(2) by auto
      have 1: "filter (\<lambda>t. \<not> (f t \<and> AccountNonce t \<in> set ks)) ?us = filter (\<lambda>t. \<not> (f t \<and> AccountNonce t \<in> set (k # ks))) us"
        using ot True by (auto intro!: filter_cong)
      have "mset (filter (\<lambda>t. f t \<and> AccountNonce t \<in> set (k # ks)) us) =
          filter_mset (\<lambda>t. f t \<and> AccountNonce t \<in> set (k # ks)) (add_mset t (mset ?us))"
        using mset_split [OF t(1) Cons.prems(1)] t(2) by simp
      also have "\<dots> = add_mset t (filter_mset (\<lambda>t. f t \<and> AccountNonce t \<in> set (k # ks)) (mset ?us))" using True t(2) by simp
      also have "filter_mset (\<lambda>t. f t \<and> AccountNonce t \<in> set (k # ks)) (mset ?us) = mset r"
        unfolding r(2) mset_filter [of "\<lambda>t. f t \<and> AccountNonce t \<in> set ks"] by (rule filter_mset_cong) auto
      finally have 2: "mset (filter (\<lambda>t. f t \<and> AccountNonce t \<in> set (k # ks)) us) = mset (t # r)" by simp
      have "Filter_loop f (k # ks) (keyed us) removed = Filter_loop f ks (keyed ?us) (removed @ [t])"
        by (simp only: Filter_loop.simps Some option.case True if_True delete_keyed)
      with r(1) 2 show ?thesis unfolding 1 by (intro exI [of _ "t # r"]) simp
    next
      case False
      then have "filter (\<lambda>t. \<not> (f t \<and> AccountNonce t \<in> set (k # ks))) us = filter (\<lambda>t. \<not> (f t \<and> AccountNonce t \<in> set ks)) us"
        "filter (\<lambda>t. f t \<and> AccountNonce t \<in> set (k # ks)) us = filter (\<lambda>t. f t \<and> AccountNonce t \<in> set ks) us"
        using ot by (auto intro!: filter_cong)
      moreover have "Filter_loop f (k # ks) (keyed us) removed = Filter_loop f ks (keyed us) removed"
        by (simp only: Filter_loop.simps Some option.case False if_False)
      ultimately show ?thesis using Cons.IH [OF Cons.prems(1), of removed] Cons.prems(2) by simp
    qed
  qed
qed simp

lemma rep_Filter:
  assumes "rep m ts" "range_ok rng"
  shows "\<exists>r m'. sm_Filter rng f m = (r, m') \<and> mset r = mset (filter f ts) \<and> rep m' (filter (\<lambda>t. \<not> f t) ts)"
proof -
  have m: "sm_items m = keyed ts" "distinct_nonces ts" using assms(1) by (auto simp: rep_def)
  have ks: "mset (rng (keyed us)) = mset (map AccountNonce us)" if "distinct_nonces us" for us
    using assms(2) that unfolding range_ok_def by (metis map_fst_keyed)
  have "distinct (rng (keyed ts))" "set (rng (keyed ts)) = AccountNonce ` set ts"
    using mset_eq_imp_distinct_iff [OF ks [OF m(2)]] mset_eq_setD [OF ks [OF m(2)]] m(2) by auto
  with Filter_loop_correct [OF m(2), of "rng (keyed ts)" f "[]"] obtain r where
    r: "Filter_loop f (rng (keyed ts)) (keyed ts) [] = (keyed (filter (\<lambda>t. \<not> f t) ts), r)" "mset r = mset (filter f ts)"
    by (auto cong: filter_cong)
  show ?thesis
  proof (cases "r = []")
    case True
    then have "filter (\<lambda>t. \<not> f t) ts = ts" using r(2) by (auto simp: filter_empty_conv intro: filter_True)
    with True r assms(1) m show ?thesis by (simp add: sm_Filter_def rep_def)
  next
    case False
    let ?us = "filter (\<lambda>t. \<not> f t) ts"
    have "distinct_nonces ?us" by (rule distinct_nonces_filter [OF m(2)])
    with False r m ks [of ?us] nonces.init [of "rng (keyed ?us)"] show ?thesis by (simp add: sm_Filter_def rep_def)
  qed
qed


lemma by_nonce_filter_last:
  assumes "by_nonce us = s @ [t]" "distinct_nonces us"
  shows "by_nonce (filter (\<lambda>u. AccountNonce u \<noteq> AccountNonce t) us) = s"
proof -
  have "distinct_nonces (s @ [t])" using assms by (metis mset_eq_imp_distinct_iff mset_map mset_sort)
  then have "filter (\<lambda>u. AccountNonce u \<noteq> AccountNonce t) (s @ [t]) = s" by (auto intro!: filter_True simp: image_iff)
  then show ?thesis using assms(1) by (simp add: filter_sort [symmetric])
qed

lemma Cap_loop_correct:
  assumes "by_nonce us = take k s" "k \<le> length s" "n \<le> k" "distinct_nonces us"
  shows "\<exists>vs. Cap_loop (map AccountNonce s) (int n) (int k) (keyed us) drops =
       Some (keyed vs, drops @ map Some (rev (drop n (take k s)))) \<and> by_nonce vs = take n s \<and> distinct_nonces vs"
  using assms
proof (induction k arbitrary: us drops)
  case 0
  then show ?case by (subst Cap_loop.simps) auto
next
  case (Suc k)
  show ?case
  proof (cases "n = Suc k")
    case True
    with Suc.prems show ?thesis by (subst Cap_loop.simps) auto
  next
    case False
    let ?t = "s ! k" and ?us = "filter (\<lambda>u. AccountNonce u \<noteq> AccountNonce (s ! k)) us"
    have tk: "take (Suc k) s = take k s @ [?t]" using Suc.prems(2) by (simp add: take_Suc_conv_app_nth)
    have b: "by_nonce ?us = take k s" using by_nonce_filter_last Suc.prems(1,4) tk by metis
    have "?t \<in> set us" using arg_cong [OF Suc.prems(1), of set] tk by auto
    then have "map_of (keyed us) (AccountNonce ?t) = Some ?t" using map_of_keyed_Some [OF Suc.prems(4)] by blast
    then have "Cap_loop (map AccountNonce s) (int n) (int (Suc k)) (keyed us) drops =
        Cap_loop (map AccountNonce s) (int n) (int k) (keyed ?us) (drops @ [Some ?t])"
      using False Suc.prems(2,3) by (subst Cap_loop.simps) (simp add: Let_def)
    moreover have "rev (drop n (take (Suc k) s)) = ?t # rev (drop n (take k s))"
      using False Suc.prems(2,3) by (simp add: tk)
    ultimately show ?thesis
      using Suc.IH [OF b _ _ distinct_nonces_filter [OF Suc.prems(4)], of "drops @ [Some ?t]"] False Suc.prems(2,3) by simp
  qed
qed

lemma mset_index_by_nonce: "by_nonce vs = take n (by_nonce ts) \<Longrightarrow> mset (map AccountNonce vs) = mset (take n (map AccountNonce (by_nonce ts)))"
  by (metis mset_map mset_sort take_map)

lemma rep_Cap:
  assumes "rep m ts"
  shows "\<exists>m' vs. sm_Cap (int n) m = Some (map Some (rev (drop n (by_nonce ts))), m') \<and> rep m' vs \<and> by_nonce vs = take n (by_nonce ts)"
proof -
  have m: "sm_items m = keyed ts" "distinct_nonces ts" "mset (sm_index m) = mset (map AccountNonce ts)"
    "sm_cache m = None \<or> sm_cache m = Some (by_nonce ts)" using assms by (auto simp: rep_def)
  show ?thesis
  proof (cases "length ts \<le> n")
    case True
    with assms m(1) show ?thesis by (auto simp: sm_Cap_def)
  next
    case False
    let ?s = "by_nonce ts"
    have i: "sort (sm_index m) = map AccountNonce ?s" by (rule sort_index [OF m(3,2)])
    obtain vs where vs: "Cap_loop (map AccountNonce ?s) (int n) (int (length ts)) (keyed ts) [] = Some (keyed vs, map Some (rev (drop n ?s)))"
      "by_nonce vs = take n ?s" "distinct_nonces vs"
      using Cap_loop_correct [of ts "length ts" ?s n "[]"] False m(2) by auto
    have x: "slice (map AccountNonce ?s) 0 n = Some (take n (map AccountNonce ?s))" using False by (simp add: slice_def)
    have c: "slice ?s 0 (length ?s - length (rev (drop n ?s))) = Some (take n ?s)" using False by (simp add: slice_def)
    have "sm_Cap (int n) m = Some (map Some (rev (drop n ?s)),
        \<lparr>sm_items = keyed vs, sm_index = heap_Init nonce_less (take n (map AccountNonce ?s)),
         sm_cache = map_option (\<lambda>_. take n ?s) (sm_cache m)\<rparr>)"
      using m(4) c False by (auto simp: sm_Cap_def m(1) i vs(1) x)
    moreover have "rep \<lparr>sm_items = keyed vs, sm_index = heap_Init nonce_less (take n (map AccountNonce ?s)),
         sm_cache = map_option (\<lambda>_. take n ?s) (sm_cache m)\<rparr> vs"
      using vs(2,3) nonces.init [of "take n (map AccountNonce ?s)"] mset_index_by_nonce [OF vs(2)] m(4)
      by (auto simp: rep_def simp del: mset_map)
    ultimately show ?thesis using vs(2) by blast
  qed
qed

lemma Remove_loop_correct:
  assumes "nonce \<in> set (drop i index)" "is_heap nonce_less index"
  shows "\<exists>index'. Remove_loop nonce i index = Some index' \<and> is_heap nonce_less index' \<and> mset index = add_mset nonce (mset index')"
  using assms
proof (induction nonce i index rule: Remove_loop.induct)
  case (1 nonce i index)
  then have i: "i < length index" by (cases "i < length index") auto
  show ?case
  proof (cases "index ! i = nonce")
    case True
    with nonces.remove [OF "1.prems"(2) i] show ?thesis by (subst Remove_loop.simps) (auto simp: i)
  next
    case False
    then have "nonce \<in> set (drop (i + 1) index)" using "1.prems"(1) Cons_nth_drop_Suc [OF i] by (metis Suc_eq_plus1 set_ConsD)
    from "1.IH" [OF i False this "1.prems"(2)] False show ?thesis by (subst Remove_loop.simps) (simp add: i)
  qed
qed

lemma rep_Remove:
  assumes "rep m ts"
  shows "\<exists>m'. sm_Remove nonce m = Some (nonce \<in> AccountNonce ` set ts, m') \<and> rep m' (filter (\<lambda>t. AccountNonce t \<noteq> nonce) ts)"
proof (cases "nonce \<in> AccountNonce ` set ts")
  case False
  then have "filter (\<lambda>t. AccountNonce t \<noteq> nonce) ts = ts" by (auto intro: filter_True)
  with False assms show ?thesis by (simp add: sm_Remove_def rep_def)
next
  case True
  then obtain t where t: "t \<in> set ts" "AccountNonce t = nonce" by blast
  have m: "sm_items m = keyed ts" "distinct_nonces ts" "is_heap nonce_less (sm_index m)"
    "mset (sm_index m) = mset (map AccountNonce ts)" using assms by (auto simp: rep_def)
  have "nonce \<in> set (drop 0 (sm_index m))" using True mset_eq_setD [OF m(4)] by simp
  from Remove_loop_correct [OF this m(3)] obtain index' where
    i: "Remove_loop nonce 0 (sm_index m) = Some index'" "is_heap nonce_less index'" "mset (sm_index m) = add_mset nonce (mset index')" by blast
  have "mset (map AccountNonce ts) = add_mset nonce (mset (map AccountNonce (filter (\<lambda>t. AccountNonce t \<noteq> nonce) ts)))"
    using arg_cong [OF mset_split [OF t(1) m(2)], of "image_mset AccountNonce"] t(2) by simp
  with i(3) m(4) have "mset index' = mset (map AccountNonce (filter (\<lambda>t. AccountNonce t \<noteq> nonce) ts))" by simp
  with i m True distinct_nonces_filter [OF m(2)] show ?thesis by (auto simp: sm_Remove_def rep_def)
qed


text \<open>The longest prefix of a list in which the nonces count up from \<open>n\<close>.\<close>

fun counting_up :: "nat \<Rightarrow> Transaction list \<Rightarrow> Transaction list" where
  "counting_up n [] = []"
| "counting_up n (t # ts) = (if unat (AccountNonce t) = n then t # counting_up (Suc n) ts else [])"

lemma length_counting_up: "length (counting_up n ts) \<le> length ts"
  by (induction n ts rule: counting_up.induct) auto

lemma Ready_loop_correct:
  assumes "is_heap nonce_less index" "mset index = mset (map AccountNonce ts)" "distinct_nonces ts" "ts = [] \<or> unat nxt = n"
  shows "\<exists>index' us. Ready_loop nxt index (keyed ts) ready =
       Some (index', keyed us, ready @ map Some (counting_up n (by_nonce ts))) \<and>
     is_heap nonce_less index' \<and> mset index' = mset (map AccountNonce us) \<and> distinct_nonces us \<and>
     by_nonce us = drop (length (counting_up n (by_nonce ts))) (by_nonce ts)"
  using assms
proof (induction "length ts" arbitrary: ts index ready nxt n rule: less_induct)
  case less
  show ?case
  proof (cases "index = []")
    case True
    with less.prems show ?thesis by (subst Ready_loop.simps) simp
  next
    case False
    then obtain t index' where
      p: "heap_Pop nonce_less index = Some (AccountNonce t, index')" "index ! 0 = AccountNonce t" "t \<in> set ts"
        "map_of (keyed ts) (AccountNonce t) = Some t"
      and i: "is_heap nonce_less index'" "mset index' = mset (map AccountNonce (filter (\<lambda>u. AccountNonce u \<noteq> AccountNonce t) ts))"
      and c: "by_nonce ts = t # by_nonce (filter (\<lambda>u. AccountNonce u \<noteq> AccountNonce t) ts)"
      and l: "length (filter (\<lambda>u. AccountNonce u \<noteq> AccountNonce t) ts) < length ts"
      by (rule pop_least [OF less.prems(1-3)])
    define us where "us = filter (\<lambda>u. AccountNonce u \<noteq> AccountNonce t) ts"
    have n: "unat nxt = n" using less.prems(4) p(3) by auto
    show ?thesis
    proof (cases "AccountNonce t = nxt")
      case True
      have "us = [] \<or> unat (nxt + 1) = Suc n"
      proof (cases "nxt + 1 = 0")
        case True
        have "AccountNonce u \<le> nxt" for u using True by (metis max_word_max eq_neg_iff_add_eq_0)
        moreover have "nxt \<le> AccountNonce u \<and> AccountNonce u \<noteq> nxt" if "u \<in> set us" for u
          using that c sorted_sort_key [of AccountNonce ts] \<open>AccountNonce t = nxt\<close> unfolding c by (auto simp: us_def)
        ultimately have "us = []" by (metis antisym list.set_cases neq_Nil_conv list.set_intros(1))
        then show ?thesis ..
      qed (use n in \<open>simp add: unatSuc add.commute [of nxt]\<close>)
      from less.hyps [OF l [folded us_def] i [folded us_def] distinct_nonces_filter [OF less.prems(3), of "\<lambda>u. AccountNonce u \<noteq> AccountNonce t", folded us_def] this, of "ready @ [Some t]"]
      show ?thesis using False True p n unfolding c us_def [symmetric]
        by (subst Ready_loop.simps) (simp add: us_def)
    next
      case nq: False
      have "Ready_loop nxt index (keyed ts) ready = Some (index, keyed ts, ready)"
        using nq p(2) by (subst Ready_loop.simps) simp
      moreover have "counting_up n (by_nonce ts) = []" unfolding c using nq n by (simp add: word_unat_eq_iff)
      ultimately show ?thesis using less.prems by (intro exI [of _ index] exI [of _ ts]) simp
    qed
  qed
qed

definition ready_prefix :: "uint64 \<Rightarrow> Transaction list \<Rightarrow> Transaction list" where
  "ready_prefix start s =
     (case s of [] \<Rightarrow> [] | t # _ \<Rightarrow> if start < AccountNonce t then [] else counting_up (unat (AccountNonce t)) s)"

lemma rep_Ready:
  assumes "rep m ts"
  shows "\<exists>m' us. sm_Ready start m = Some (map Some (ready_prefix start (by_nonce ts)), m') \<and> rep m' us \<and>
     by_nonce us = drop (length (ready_prefix start (by_nonce ts))) (by_nonce ts)"
proof -
  have m: "sm_items m = keyed ts" "distinct_nonces ts" "is_heap nonce_less (sm_index m)"
    "mset (sm_index m) = mset (map AccountNonce ts)" using assms by (auto simp: rep_def)
  show ?thesis
  proof (cases "sm_index m = []")
    case True
    then have "ts = []" using m(4) by simp
    with True assms show ?thesis by (auto simp: sm_Ready_def ready_prefix_def)
  next
    case False
    then obtain t where i: "sm_index m ! 0 = AccountNonce t"
      and c: "by_nonce ts = t # by_nonce (filter (\<lambda>u. AccountNonce u \<noteq> AccountNonce t) ts)"
      by (rule pop_least [OF m(3,4,2)])
    show ?thesis
    proof (cases "start < AccountNonce t")
      case True
      then have "ready_prefix start (by_nonce ts) = []" unfolding c by (simp add: ready_prefix_def)
      with True i assms show ?thesis by (auto simp: sm_Ready_def)
    next
      case nl: False
      then have "ready_prefix start (by_nonce ts) = counting_up (unat (AccountNonce t)) (by_nonce ts)"
        unfolding c by (simp add: ready_prefix_def)
      with Ready_loop_correct [OF m(3,4,2), of "AccountNonce t" "unat (AccountNonce t)" "[]"] nl False i m(1)
      show ?thesis by (auto simp: sm_Ready_def rep_def)
    qed
  qed
qed

lemma map_filter_keyed:
  assumes "mset ks = mset (map AccountNonce ts)" "distinct_nonces ts"
  shows "mset (List.map_filter (map_of (keyed ts)) ks) = mset ts"
proof -
  have s: "set ks = AccountNonce ` set ts" using mset_eq_setD [OF assms(1)] by simp
  then have ex: "\<exists>t. map_of (keyed ts) k = Some t" if "k \<in> set ks" for k using that by (cases "map_of (keyed ts) k") auto
  have "filter (\<lambda>k. map_of (keyed ts) k \<noteq> None) ks = ks" by (rule filter_True) (use ex in force)
  then have "List.map_filter (map_of (keyed ts)) ks = map (the \<circ> map_of (keyed ts)) ks" by (simp only: List.map_filter_def)
  then have "mset (List.map_filter (map_of (keyed ts)) ks) = image_mset (the \<circ> map_of (keyed ts)) (mset (map AccountNonce ts))"
    using assms(1) by simp
  also have "\<dots> = mset (map (\<lambda>t. the (map_of (keyed ts) (AccountNonce t))) ts)" by (simp add: image_mset.compositionality comp_def)
  also have "map (\<lambda>t. the (map_of (keyed ts) (AccountNonce t))) ts = ts"
    by (rule map_idI) (metis assms(2) map_of_keyed_Some option.sel)
  finally show ?thesis .
qed

lemma rep_Flatten:
  assumes "rep m ts" "range_ok rng"
  shows "\<exists>m'. sm_Flatten rng m = (by_nonce ts, m') \<and> rep m' ts"
proof -
  have m: "sm_items m = keyed ts" "distinct_nonces ts" "sm_cache m = None \<or> sm_cache m = Some (by_nonce ts)"
    using assms(1) by (auto simp: rep_def)
  have "mset (rng (keyed ts)) = mset (map AccountNonce ts)"
    using assms(2) m(2) unfolding range_ok_def by (metis map_fst_keyed)
  from map_filter_keyed [OF this m(2)] have "by_nonce (List.map_filter (map_of (keyed ts)) (rng (keyed ts))) = by_nonce ts"
    using m(2) by (intro by_nonce_eqI [symmetric, THEN sym] by_nonce_eqI)
      (auto, metis mset_eq_imp_distinct_iff mset_map)
  with assms(1) m show ?thesis by (auto simp: sm_Flatten_def rep_def Let_def)
qed


section \<open>Refinement\<close>

text \<open>A client of the map: a sequence of calls, each with the iteration order that its loops over the map meet.\<close>

datatype sm_op =
    OPut Transaction
  | OGet uint64
  | OForward uint64
  | OFilter "uint64 range" "Transaction \<Rightarrow> bool"
  | OCap nat
  | ORemove uint64
  | OReady uint64
  | OLen
  | OFlatten "uint64 range"

datatype answer = AUnit | ABool bool | ANat nat | ATx "Transaction option" | ATxs "Transaction option list" | ABag "Transaction list"

fun sm_exec :: "sm_op \<Rightarrow> txSortedMap \<Rightarrow> (answer \<times> txSortedMap) option" where
  "sm_exec (OPut tx) m = Some (AUnit, sm_Put tx m)"
| "sm_exec (OGet nonce) m = Some (ATx (sm_Get m nonce), m)"
| "sm_exec (OForward thr) m = map_option (apfst ATxs) (sm_Forward thr m)"
| "sm_exec (OFilter rng f) m = Some (apfst ABag (sm_Filter rng f m))"
| "sm_exec (OCap n) m = map_option (apfst ATxs) (sm_Cap (int n) m)"
| "sm_exec (ORemove nonce) m = map_option (apfst ABool) (sm_Remove nonce m)"
| "sm_exec (OReady start) m = map_option (apfst ATxs) (sm_Ready start m)"
| "sm_exec OLen m = Some (ANat (sm_Len m), m)"
| "sm_exec (OFlatten rng) m = Some (apfst (ATxs \<circ> map Some) (sm_Flatten rng m))"

fun sm_run :: "sm_op list \<Rightarrow> txSortedMap \<Rightarrow> (answer list \<times> txSortedMap) option" where
  "sm_run [] m = Some ([], m)"
| "sm_run (op # ops) m = do { (a, m) \<leftarrow> sm_exec op m; (as, m) \<leftarrow> sm_run ops m; Some (a # as, m) }"

text \<open>The specification: the same calls on the list of transactions in the order of their nonces.\<close>

fun spec_exec :: "sm_op \<Rightarrow> Transaction list \<Rightarrow> answer \<times> Transaction list" where
  "spec_exec (OPut tx) s = (AUnit, insort_key AccountNonce tx (filter (\<lambda>t. AccountNonce t \<noteq> AccountNonce tx) s))"
| "spec_exec (OGet nonce) s = (ATx (find (\<lambda>t. AccountNonce t = nonce) s), s)"
| "spec_exec (OForward thr) s = (ATxs (map Some (filter (\<lambda>t. AccountNonce t < thr) s)), filter (\<lambda>t. \<not> AccountNonce t < thr) s)"
| "spec_exec (OFilter rng f) s = (ABag (filter f s), filter (\<lambda>t. \<not> f t) s)"
| "spec_exec (OCap n) s = (ATxs (map Some (rev (drop n s))), take n s)"
| "spec_exec (ORemove nonce) s = (ABool (nonce \<in> AccountNonce ` set s), filter (\<lambda>t. AccountNonce t \<noteq> nonce) s)"
| "spec_exec (OReady start) s = (ATxs (map Some (ready_prefix start s)), drop (length (ready_prefix start s)) s)"
| "spec_exec OLen s = (ANat (length s), s)"
| "spec_exec (OFlatten rng) s = (ATxs (map Some s), s)"

fun spec_run :: "sm_op list \<Rightarrow> Transaction list \<Rightarrow> answer list \<times> Transaction list" where
  "spec_run [] s = ([], s)"
| "spec_run (op # ops) s = (let (a, s) = spec_exec op s; (as, s) = spec_run ops s in (a # as, s))"

fun agree :: "answer \<Rightarrow> answer \<Rightarrow> bool" where
  "agree (ABag xs) (ABag ys) = (mset xs = mset ys)"
| "agree a b = (a = b)"

fun op_ok :: "sm_op \<Rightarrow> bool" where
  "op_ok (OFilter rng f) = range_ok rng"
| "op_ok (OFlatten rng) = range_ok rng"
| "op_ok _ = True"

lemma find_by_nonce: "distinct_nonces ts \<Longrightarrow> find (\<lambda>t. AccountNonce t = k) (by_nonce ts) = map_of (keyed ts) k"
proof -
  assume d: "distinct_nonces ts"
  then have "distinct_nonces (by_nonce ts)" by (metis mset_eq_imp_distinct_iff mset_map mset_sort)
  then have "map_of (keyed (by_nonce ts)) = map_of (keyed ts)"
    using d by (subst map_of_inject_set) (auto simp: keyed_def comp_def)
  then show ?thesis unfolding map_of_keyed [of "by_nonce ts", symmetric] by (simp only:)
qed

lemma insort_by_nonce:
  assumes "distinct_nonces us" "mset us = add_mset tx (mset vs)"
  shows "by_nonce us = insort_key AccountNonce tx (by_nonce vs)"
  by (rule by_nonce_eqI) (use assms in \<open>auto simp: mset_insort sorted_insort_key\<close>)

lemma exec_refines:
  assumes "rep m ts" "op_ok op"
  shows "\<exists>a m' us. sm_exec op m = Some (a, m') \<and> agree a (fst (spec_exec op (by_nonce ts))) \<and> rep m' us \<and>
     by_nonce us = snd (spec_exec op (by_nonce ts))"
proof (cases op)
  case (OPut tx)
  obtain us where us: "rep (sm_Put tx m) us" "mset us = add_mset tx (mset (filter (\<lambda>t. AccountNonce t \<noteq> AccountNonce tx) ts))"
    using rep_Put [OF assms(1)] by blast
  have "by_nonce us = insort_key AccountNonce tx (by_nonce (filter (\<lambda>t. AccountNonce t \<noteq> AccountNonce tx) ts))"
    using us by (intro insort_by_nonce) (auto simp: rep_def)
  with us show ?thesis by (auto simp: OPut filter_sort)
next
  case (OGet nonce)
  with assms show ?thesis by (auto simp: sm_Get_def rep_def find_by_nonce)
next
  case (OForward thr)
  with rep_Forward [OF assms(1), of thr] show ?thesis by (auto simp: filter_sort)
next
  case (OFilter rng f)
  with rep_Filter [OF assms(1), of rng f] assms(2) show ?thesis by (auto simp: filter_sort)
next
  case (OCap n)
  with rep_Cap [OF assms(1), of n] show ?thesis by auto
next
  case (ORemove nonce)
  with rep_Remove [OF assms(1), of nonce] show ?thesis by (auto simp: filter_sort)
next
  case (OReady start)
  with rep_Ready [OF assms(1), of start] show ?thesis by auto
next
  case OLen
  with assms show ?thesis by (auto simp: sm_Len_def rep_def)
next
  case (OFlatten rng)
  with rep_Flatten [OF assms(1), of rng] assms(2) show ?thesis by auto
qed

lemma run_refines:
  assumes "rep m ts" "list_all op_ok ops"
  shows "\<exists>as m' us. sm_run ops m = Some (as, m') \<and> list_all2 agree as (fst (spec_run ops (by_nonce ts))) \<and> rep m' us \<and>
     by_nonce us = snd (spec_run ops (by_nonce ts))"
  using assms
proof (induction ops arbitrary: m ts)
  case (Cons op ops)
  from exec_refines [OF Cons.prems(1), of op] Cons.prems(2) obtain a m1 us where
    1: "sm_exec op m = Some (a, m1)" "agree a (fst (spec_exec op (by_nonce ts)))" "rep m1 us"
    "by_nonce us = snd (spec_exec op (by_nonce ts))" by auto
  from Cons.IH [OF 1(3)] Cons.prems(2) obtain as m2 vs where
    2: "sm_run ops m1 = Some (as, m2)" "list_all2 agree as (fst (spec_run ops (by_nonce us)))" "rep m2 vs"
    "by_nonce vs = snd (spec_run ops (by_nonce us))" by auto
  show ?case using 1(1,2) 2 unfolding 1(4) by (auto split: prod.splits)
qed auto

text \<open>
  C8.  The map sorted by nonce is its list of transactions in the order of the nonces: any sequence of \<^verbatim>\<open>Put\<close>, \<^verbatim>\<open>Get\<close>,
  \<^verbatim>\<open>Forward\<close>, \<^verbatim>\<open>Filter\<close>, \<^verbatim>\<open>Cap\<close>, \<^verbatim>\<open>Remove\<close>, \<^verbatim>\<open>Ready\<close>, \<^verbatim>\<open>Len\<close> and \<^verbatim>\<open>Flatten\<close> on a new map runs without a panic, whatever the
  iteration order of Go's maps, and gives the answers of the same operations on that list (the result of \<^verbatim>\<open>Filter\<close> up to its
  order); the heap index and the cached order stay consistent with the hash map.
\<close>

theorem sorted_map_refines_list:
  assumes "list_all op_ok ops"
  shows "\<exists>as m. sm_run ops newTxSortedMap = Some (as, m) \<and> sm_ok m \<and>
     list_all2 agree as (fst (spec_run ops [])) \<and> txs_of m = snd (spec_run ops [])"
  using run_refines [OF rep_new assms] rep_ok by fastforce

lemma range_ok_fst: "range_ok (map fst)"
  by (simp add: range_ok_def)

definition tx_at :: "uint64 \<Rightarrow> Transaction" where
  "tx_at n = NewTransaction n 7 (Some 1) 21000 (Some 2) []"

theorem sorted_map_refines_list_witness:
  "\<exists>as m. sm_run [OPut (tx_at 3), OPut (tx_at 1), OPut (tx_at 2), OFlatten (map fst), OFilter (map fst) (\<lambda>t. AccountNonce t = 2), OReady 1] newTxSortedMap = Some (as, m) \<and>
     sm_ok m \<and> txs_of m = [tx_at 3]"
  using sorted_map_refines_list [of "[OPut (tx_at 3), OPut (tx_at 1), OPut (tx_at 2), OFlatten (map fst), OFilter (map fst) (\<lambda>t. AccountNonce t = 2), OReady 1]"]
  by (auto simp: range_ok_fst tx_at_def NewTransaction_def newTransaction_def ready_prefix_def)

end
