(* ===== verification/Tx_List_Correct.thy ===== *)
theory Tx_List_Correct
  imports Tx_Sorted
begin

text \<open>
  The list of an account: the cached caps on cost and gas are upper bounds, so that the short cut of \<^verbatim>\<open>Filter\<close> never hides a
  transaction that has become too expensive; and a strict list, the queue of executable transactions, never gets a gap.
\<close>

section \<open>Sorted lists without duplicates\<close>

abbreviation strictly_sorted :: "Transaction list \<Rightarrow> bool" where
  "strictly_sorted s \<equiv> sorted (map AccountNonce s) \<and> distinct_nonces s"

lemma strictly_sorted_by_nonce: "distinct_nonces ts \<Longrightarrow> strictly_sorted (by_nonce ts)"
  by (metis mset_eq_imp_distinct_iff mset_map mset_sort sorted_sort_key)

lemma strictly_sorted_append:
  assumes "strictly_sorted (us @ t # vs)"
  shows "u \<in> set us \<Longrightarrow> AccountNonce u < AccountNonce t" and "v \<in> set vs \<Longrightarrow> AccountNonce t < AccountNonce v"
proof -
  have "u \<in> set us \<Longrightarrow> AccountNonce u \<le> AccountNonce t \<and> AccountNonce u \<noteq> AccountNonce t"
    and "v \<in> set vs \<Longrightarrow> AccountNonce t \<le> AccountNonce v \<and> AccountNonce v \<noteq> AccountNonce t"
    using assms by (auto simp: sorted_append) (metis imageI)+
  then show "u \<in> set us \<Longrightarrow> AccountNonce u < AccountNonce t" and "v \<in> set vs \<Longrightarrow> AccountNonce t < AccountNonce v"
    by auto
qed

text \<open>Everything from the first bad transaction on.\<close>

lemma first_bad:
  assumes "strictly_sorted s" "\<exists>t \<in> set s. bad t"
  obtains t us vs where "s = us @ t # vs" "bad t" "\<forall>u \<in> set us. \<not> bad u"
    "takeWhile (\<lambda>u. \<not> bad u) s = us" "dropWhile (\<lambda>u. \<not> bad u) s = t # vs"
    "filter (\<lambda>u. \<not> bad u \<and> \<not> AccountNonce t < AccountNonce u) s = us"
    "filter (\<lambda>u. \<not> bad u \<and> AccountNonce t < AccountNonce u) s = filter (\<lambda>u. \<not> bad u) vs"
proof -
  obtain us t vs where s: "s = us @ t # vs" "bad t" "\<forall>u \<in> set us. \<not> bad u"
    using split_list_first_prop [OF assms(2)] by blast
  have o: "u \<in> set us \<Longrightarrow> AccountNonce u < AccountNonce t" "u \<in> set vs \<Longrightarrow> AccountNonce t < AccountNonce u" for u
    using assms(1) strictly_sorted_append unfolding s(1) by blast+
  have "filter (\<lambda>u. \<not> bad u \<and> \<not> AccountNonce t < AccountNonce u) us = us"
    "filter (\<lambda>u. \<not> bad u \<and> \<not> AccountNonce t < AccountNonce u) vs = []"
    "filter (\<lambda>u. \<not> bad u \<and> AccountNonce t < AccountNonce u) us = []"
    "filter (\<lambda>u. \<not> bad u \<and> AccountNonce t < AccountNonce u) vs = filter (\<lambda>u. \<not> bad u) vs"
    using s(3) o by (auto simp: filter_empty_conv dest: less_not_sym intro!: filter_True filter_cong)
  with s show thesis by (intro that [of us t vs]) (auto simp: takeWhile_append dropWhile_append)
qed

lemma lowest_nonce_eq:
  assumes "mset removed = mset (t # us)" "\<And>u. u \<in> set us \<Longrightarrow> AccountNonce t \<le> AccountNonce u"
  shows "lowest_nonce removed = AccountNonce t"
proof -
  have fold: "foldl (\<lambda>lowest tx. let nonce = AccountNonce tx in if nonce < lowest then nonce else lowest) a xs =
      Min (insert a (AccountNonce ` set xs))" for a :: uint64 and xs
  proof (induction xs arbitrary: a)
    case (Cons x xs)
    have "(let nonce = AccountNonce x in if nonce < a then nonce else a) = min a (AccountNonce x)" by (auto simp: Let_def min_def)
    then show ?case using Cons [of "min a (AccountNonce x)"]
      by (cases "xs = []") (auto simp: Min_insert min.assoc insert_commute)
  qed simp
  have "set removed = insert t (set us)" using mset_eq_setD [OF assms(1)] by simp
  then have "lowest_nonce removed = Min (insert (- 1) (insert (AccountNonce t) (AccountNonce ` set us)))"
    by (simp add: lowest_nonce_def fold)
  also have "\<dots> = AccountNonce t" using assms(2) by (intro Min_eqI) auto
  finally show ?thesis .
qed

section \<open>The operations of a list\<close>

definition content :: "txList \<Rightarrow> Transaction list" where
  "content l = txs_of (l_txs l)"

definition list_ok :: "txList \<Rightarrow> bool" where
  "list_ok l \<longleftrightarrow> sm_ok (l_txs l) \<and> (\<forall>t \<in> set (content l). Cost t \<le> l_costcap l \<and> tx_GasLimit t \<le> l_gascap l)"

lemma list_okE:
  assumes "list_ok l"
  obtains ts where "rep (l_txs l) ts" "content l = by_nonce ts" "strictly_sorted (content l)"
    "\<forall>t \<in> set ts. Cost t \<le> l_costcap l \<and> tx_GasLimit t \<le> l_gascap l"
proof -
  let ?ts = "map snd (sm_items (l_txs l))"
  have r: "rep (l_txs l) ?ts" using assms by (simp add: list_ok_def sm_ok_rep)
  then have "content l = by_nonce ?ts" "strictly_sorted (content l)"
    using rep_ok [OF r] strictly_sorted_by_nonce [of ?ts] by (simp_all add: content_def rep_def)
  with r assms show thesis by (intro that) (auto simp: list_ok_def)
qed

text \<open>The second pass of \<^verbatim>\<open>Filter\<close> over a strict list leaves what is before the first bad transaction.\<close>

lemma second_filter:
  assumes m: "rep m (filter (\<lambda>t. \<not> bad t) ts)" and d: "distinct_nonces ts" and ne: "removed \<noteq> []"
    and rm: "mset removed = mset (filter bad ts)" and rng: "range_ok rng"
  shows "\<exists>invalids m' us. sm_Filter rng (\<lambda>u. lowest_nonce removed < AccountNonce u) m = (invalids, m') \<and> rep m' us \<and>
     mset invalids = mset (filter (\<lambda>t. \<not> bad t) (dropWhile (\<lambda>t. \<not> bad t) (by_nonce ts))) \<and>
     by_nonce us = takeWhile (\<lambda>t. \<not> bad t) (by_nonce ts) \<and> (\<forall>u \<in> set us. \<not> bad u)"
proof -
  let ?s = "by_nonce ts"
  have s: "strictly_sorted ?s" by (rule strictly_sorted_by_nonce [OF d])
  have rm': "mset removed = mset (filter bad ?s)" by (simp add: rm filter_sort)
  have "\<exists>t \<in> set ?s. bad t" using ne mset_eq_setD [OF rm'] by (cases removed) auto
  then obtain t us vs where b: "?s = us @ t # vs" "bad t" "\<forall>u \<in> set us. \<not> bad u"
    "takeWhile (\<lambda>u. \<not> bad u) ?s = us" "dropWhile (\<lambda>u. \<not> bad u) ?s = t # vs"
    "filter (\<lambda>u. \<not> bad u \<and> \<not> AccountNonce t < AccountNonce u) ?s = us"
    "filter (\<lambda>u. \<not> bad u \<and> AccountNonce t < AccountNonce u) ?s = filter (\<lambda>u. \<not> bad u) vs"
    by (rule first_bad [OF s])
  have above: "AccountNonce t \<le> AccountNonce u" if "u \<in> set (filter bad vs)" for u
    using strictly_sorted_append(2) [OF s [unfolded b(1)], of u] that by simp
  have "mset removed = mset (t # filter bad vs)" unfolding rm' b(1) using b(2,3) by (simp add: filter_empty_conv)
  then have low: "lowest_nonce removed = AccountNonce t" using above by (rule lowest_nonce_eq)
  obtain invalids m' where g: "sm_Filter rng (\<lambda>u. AccountNonce t < AccountNonce u) m = (invalids, m')"
    "mset invalids = mset (filter (\<lambda>u. AccountNonce t < AccountNonce u) (filter (\<lambda>t. \<not> bad t) ts))"
    "rep m' (filter (\<lambda>u. \<not> AccountNonce t < AccountNonce u) (filter (\<lambda>t. \<not> bad t) ts))"
    using rep_Filter [OF m rng] by blast
  have "mset invalids = mset (filter (\<lambda>u. \<not> bad u) vs)" unfolding g(2) b(7) [symmetric] by (simp add: conj_commute)
  moreover have "by_nonce (filter (\<lambda>u. \<not> AccountNonce t < AccountNonce u) (filter (\<lambda>t. \<not> bad t) ts)) = us"
    unfolding b(6) [symmetric] by (simp add: filter_sort conj_commute)
  ultimately show ?thesis unfolding low b(4,5) using g(1,3) b(2) by fastforce
qed

lemma none_bad:
  assumes "\<forall>t \<in> set s. \<not> bad t"
  shows "filter bad s = []" "filter (\<lambda>t. \<not> bad t) s = s" "takeWhile (\<lambda>t. \<not> bad t) s = s" "dropWhile (\<lambda>t. \<not> bad t) s = []"
  using assms by (auto simp: filter_empty_conv intro!: filter_True)

lemma Filter_correct:
  assumes "list_ok l" "range_ok rng" "range_ok rng'"
  shows "\<exists>removed invalids l'. txList_Filter rng rng' costLimit gasLimit l = ((removed, invalids), l') \<and> list_ok l' \<and>
     (let bad = (\<lambda>t. costLimit < Cost t \<or> gasLimit < tx_GasLimit t); s = content l in
      mset removed = mset (filter bad s) \<and>
      (if l_strict l
       then content l' = takeWhile (\<lambda>t. \<not> bad t) s \<and> mset invalids = mset (filter (\<lambda>t. \<not> bad t) (dropWhile (\<lambda>t. \<not> bad t) s))
       else content l' = filter (\<lambda>t. \<not> bad t) s \<and> invalids = []))"
proof -
  define bad where "bad = (\<lambda>t. costLimit < Cost t \<or> gasLimit < tx_GasLimit t)"
  obtain ts where r: "rep (l_txs l) ts" and s: "content l = by_nonce ts" "strictly_sorted (content l)"
    and cap: "\<forall>t \<in> set ts. Cost t \<le> l_costcap l \<and> tx_GasLimit t \<le> l_gascap l"
    using assms(1) by (rule list_okE)
  show ?thesis
  proof (cases "l_costcap l \<le> costLimit \<and> l_gascap l \<le> gasLimit")
    case True
    then have "\<forall>t \<in> set (content l). \<not> bad t" using cap by (force simp: bad_def s(1))
    with True assms(1) show ?thesis by (simp add: txList_Filter_def Let_def none_bad flip: bad_def)
  next
    case False
    obtain removed m where f: "sm_Filter rng bad (l_txs l) = (removed, m)" "mset removed = mset (filter bad ts)" "rep m (filter (\<lambda>t. \<not> bad t) ts)"
      using rep_Filter [OF r assms(2), of bad] by blast
    have d: "distinct_nonces ts" using r by (simp add: rep_def)
    let ?l = "\<lambda>m. l\<lparr>l_costcap := costLimit, l_gascap := gasLimit, l_txs := m\<rparr>"
    have ok: "list_ok (?l m') \<and> content (?l m') = by_nonce us" if "rep m' us" "\<forall>t \<in> set us. \<not> bad t" for m' us
      using rep_ok [OF that(1)] that(2) by (fastforce simp: list_ok_def content_def bad_def)
    have rm: "mset removed = mset (filter bad (content l))" by (simp add: f(2) s(1) filter_sort)
    show ?thesis
    proof (cases "l_strict l \<and> removed \<noteq> []")
      case strict: True
      then obtain invalids m' us where g: "sm_Filter rng' (\<lambda>u. lowest_nonce removed < AccountNonce u) m = (invalids, m')" "rep m' us"
        "mset invalids = mset (filter (\<lambda>t. \<not> bad t) (dropWhile (\<lambda>t. \<not> bad t) (content l)))"
        "by_nonce us = takeWhile (\<lambda>t. \<not> bad t) (content l)" "\<forall>u \<in> set us. \<not> bad u"
        using second_filter [OF f(3) d _ f(2) assms(3)] s(1) by metis
      have "txList_Filter rng rng' costLimit gasLimit l = ((removed, invalids), ?l m')"
        using False strict f(1) g(1) by (auto simp: txList_Filter_def Let_def bad_def)
      with ok [OF g(2,5)] g(3,4) strict rm show ?thesis by (simp add: Let_def flip: bad_def)
    next
      case lax: False
      have "txList_Filter rng rng' costLimit gasLimit l = ((removed, []), ?l m)"
        using False lax f(1) by (auto simp: txList_Filter_def Let_def bad_def)
      moreover have "list_ok (?l m) \<and> content (?l m) = filter (\<lambda>t. \<not> bad t) (content l)"
        using ok [OF f(3)] s(1) by (simp add: filter_sort)
      moreover have "\<forall>t \<in> set (content l). \<not> bad t" if "l_strict l" using lax that rm by (simp add: filter_empty_conv)
      ultimately show ?thesis using rm by (cases "l_strict l") (simp_all add: Let_def none_bad flip: bad_def)
    qed
  qed
qed


section \<open>A strict list has no gaps\<close>

definition gap_free :: "uint64 list \<Rightarrow> bool" where
  "gap_free ns = successively (\<lambda>a b. unat b = Suc (unat a)) ns"

lemma gap_free_take: "gap_free ns \<Longrightarrow> gap_free (take k ns)"
  and gap_free_drop: "gap_free ns \<Longrightarrow> gap_free (drop k ns)"
  unfolding gap_free_def by (metis append_take_drop_id successively_append_iff)+

text \<open>
  The lists that a pool can build.  What it owes to a strict list is that it adds only at a nonce that is taken or
  follows the last one.
\<close>

inductive builds :: "bool \<Rightarrow> txList \<Rightarrow> bool" for strict where
  builds_new: "builds strict (newTxList strict)"
| builds_Add: "builds strict l \<Longrightarrow> txList_Add tx bump l = (r, l') \<Longrightarrow>
    (strict \<longrightarrow> content l = [] \<or> txList_Overlaps l tx \<or> unat (AccountNonce tx) = Suc (unat (AccountNonce (last (content l))))) \<Longrightarrow>
    builds strict l'"
| builds_Forward: "builds strict l \<Longrightarrow> txList_Forward thr l = Some (r, l') \<Longrightarrow> builds strict l'"
| builds_Filter: "builds strict l \<Longrightarrow> range_ok rng \<Longrightarrow> range_ok rng' \<Longrightarrow> txList_Filter rng rng' c g l = (r, l') \<Longrightarrow> builds strict l'"
| builds_Cap: "builds strict l \<Longrightarrow> txList_Cap (int n) l = Some (r, l') \<Longrightarrow> builds strict l'"
| builds_Remove: "builds strict l \<Longrightarrow> range_ok rng \<Longrightarrow> txList_Remove rng tx l = Some (r, l') \<Longrightarrow> builds strict l'"
| builds_Ready: "builds strict l \<Longrightarrow> txList_Ready start l = Some (r, l') \<Longrightarrow> builds strict l'"
| builds_Flatten: "builds strict l \<Longrightarrow> range_ok rng \<Longrightarrow> txList_Flatten rng l = (r, l') \<Longrightarrow> builds strict l'"

definition list_inv :: "bool \<Rightarrow> txList \<Rightarrow> bool" where
  "list_inv strict l \<longleftrightarrow> list_ok l \<and> l_strict l = strict \<and> (strict \<longrightarrow> gap_free (map AccountNonce (content l)))"

text \<open>An operation that only removes: it keeps the caps, and a strict list loses a prefix or a suffix.\<close>

lemma list_inv_shrink:
  assumes "list_inv strict l" and r: "rep m us" and u: "set us \<subseteq> set (content l)"
    and c: "strict \<Longrightarrow> \<exists>k. by_nonce us = take k (content l) \<or> by_nonce us = drop k (content l)"
  shows "list_inv strict (l\<lparr>l_txs := m\<rparr>)"
proof -
  have "content (l\<lparr>l_txs := m\<rparr>) = by_nonce us" "sm_ok m" using rep_ok [OF r] by (auto simp: content_def)
  moreover have "strict \<Longrightarrow> gap_free (map AccountNonce (by_nonce us))"
    using c assms(1) gap_free_take gap_free_drop unfolding list_inv_def by (metis drop_map take_map)
  ultimately show ?thesis using assms(1) u by (auto simp: list_inv_def list_ok_def)
qed


lemma list_invE:
  assumes "list_inv strict l"
  obtains ts where "rep (l_txs l) ts" "content l = by_nonce ts" "strictly_sorted (content l)" "set (content l) = set ts" "l_strict l = strict"
  using assms list_okE [of l] by (auto simp: list_inv_def)

lemma list_inv_Forward:
  assumes "list_inv strict l" "txList_Forward thr l = Some (r, l')"
  shows "list_inv strict l'"
proof -
  obtain ts where t: "rep (l_txs l) ts" "content l = by_nonce ts" "strictly_sorted (content l)" "set (content l) = set ts" "l_strict l = strict"
    using assms(1) by (rule list_invE)
  obtain m where m: "sm_Forward thr (l_txs l) = Some (r, m)" "rep m (filter (\<lambda>t. \<not> AccountNonce t < thr) ts)" "l' = l\<lparr>l_txs := m\<rparr>"
    using rep_Forward [OF t(1), of thr] assms(2) by (auto simp: txList_Forward_def)
  have "by_nonce (filter (\<lambda>t. \<not> AccountNonce t < thr) ts) = drop (length (filter (\<lambda>t. AccountNonce t < thr) (content l))) (content l)"
    using drop_below [of AccountNonce "content l" thr] t(3) by (simp add: t(2) filter_sort)
  with list_inv_shrink [OF assms(1) m(2)] t(4) m(3) show ?thesis by (metis filter_is_subset)
qed

lemma list_inv_Filter:
  assumes "list_inv strict l" "range_ok rng" "range_ok rng'" "txList_Filter rng rng' c g l = (r, l')"
  shows "list_inv strict l'"
proof -
  define bad where "bad = (\<lambda>t. c < Cost t \<or> g < tx_GasLimit t)"
  have ok: "list_ok l" "l_strict l = strict" using assms(1) by (auto simp: list_inv_def)
  obtain removed invalids where f: "r = (removed, invalids)" "list_ok l'" "strict \<Longrightarrow> content l' = takeWhile (\<lambda>t. \<not> bad t) (content l)"
    using Filter_correct [OF ok(1) assms(2,3), of c g] ok(2) assms(4) unfolding Let_def bad_def [symmetric] by auto
  have "l_strict l' = strict"
    using assms(4) ok(2) by (auto simp: txList_Filter_def Let_def split: if_splits prod.splits)
  moreover have "gap_free (map AccountNonce (content l'))" if strict
    using f(3) that assms(1) gap_free_take unfolding list_inv_def by (metis take_map takeWhile_eq_take)
  ultimately show ?thesis using f(2) by (simp add: list_inv_def)
qed

lemma list_inv_Cap:
  assumes "list_inv strict l" "txList_Cap (int n) l = Some (r, l')"
  shows "list_inv strict l'"
proof -
  obtain ts where t: "rep (l_txs l) ts" "content l = by_nonce ts" "strictly_sorted (content l)" "set (content l) = set ts" "l_strict l = strict"
    using assms(1) by (rule list_invE)
  obtain m us where m: "rep m us" "by_nonce us = take n (content l)" "l' = l\<lparr>l_txs := m\<rparr>"
    using rep_Cap [OF t(1), of n] assms(2) by (auto simp: txList_Cap_def t(2))
  have "set us \<subseteq> set (content l)" using arg_cong [OF m(2), of set] set_take_subset [of n "content l"] by simp
  with list_inv_shrink [OF assms(1) m(1)] m show ?thesis by blast
qed

lemma list_inv_Ready:
  assumes "list_inv strict l" "txList_Ready start l = Some (r, l')"
  shows "list_inv strict l'"
proof -
  obtain ts where t: "rep (l_txs l) ts" "content l = by_nonce ts" "strictly_sorted (content l)" "set (content l) = set ts" "l_strict l = strict"
    using assms(1) by (rule list_invE)
  obtain m us k where m: "rep m us" "by_nonce us = drop k (content l)" "l' = l\<lparr>l_txs := m\<rparr>"
    using rep_Ready [OF t(1), of start] assms(2) by (auto simp: txList_Ready_def t(2))
  have "set us \<subseteq> set (content l)" using arg_cong [OF m(2), of set] set_drop_subset [of k "content l"] by simp
  with list_inv_shrink [OF assms(1) m(1)] m show ?thesis by blast
qed

lemma list_inv_Flatten:
  assumes "list_inv strict l" "range_ok rng" "txList_Flatten rng l = (r, l')"
  shows "list_inv strict l'"
proof -
  obtain ts where t: "rep (l_txs l) ts" "content l = by_nonce ts" "strictly_sorted (content l)" "set (content l) = set ts" "l_strict l = strict"
    using assms(1) by (rule list_invE)
  obtain m where m: "rep m ts" "l' = l\<lparr>l_txs := m\<rparr>"
    using rep_Flatten [OF t(1) assms(2)] assms(3) by (auto simp: txList_Flatten_def)
  have "by_nonce ts = drop 0 (content l)" by (simp add: t(2))
  with list_inv_shrink [OF assms(1) m(1)] m(2) t(4) show ?thesis by blast
qed

lemma list_inv_Remove:
  assumes "list_inv strict l" "range_ok rng" "txList_Remove rng tx l = Some (r, l')"
  shows "list_inv strict l'"
proof -
  obtain ts where t: "rep (l_txs l) ts" "content l = by_nonce ts" "strictly_sorted (content l)" "set (content l) = set ts" "l_strict l = strict"
    using assms(1) by (rule list_invE)
  define n where "n = AccountNonce tx"
  obtain m where m: "sm_Remove n (l_txs l) = Some (n \<in> AccountNonce ` set ts, m)" "rep m (filter (\<lambda>t. AccountNonce t \<noteq> n) ts)"
    using rep_Remove [OF t(1)] by blast
  show ?thesis
  proof (cases "n \<in> AccountNonce ` set ts")
    case False
    with assms(1,3) m(1) show ?thesis by (simp add: txList_Remove_def n_def)
  next
    case True
    show ?thesis
    proof (cases strict)
      case False
      with assms(3) m(1) True t(5) have "l' = l\<lparr>l_txs := m\<rparr>" by (simp add: txList_Remove_def n_def)
      with list_inv_shrink [OF assms(1) m(2)] False t(4) show ?thesis by (metis filter_is_subset)
    next
      case st: True
      obtain invalids m' where f: "sm_Filter rng (\<lambda>t. n < AccountNonce t) m = (invalids, m')"
        "rep m' (filter (\<lambda>t. \<not> n < AccountNonce t) (filter (\<lambda>t. AccountNonce t \<noteq> n) ts))"
        using rep_Filter [OF m(2) assms(2)] by blast
      have l': "l' = l\<lparr>l_txs := m'\<rparr>" using assms(3) m(1) True t(5) st f(1) by (simp add: txList_Remove_def n_def)
      let ?bad = "\<lambda>t. AccountNonce t = n"
      have "\<exists>t \<in> set (content l). ?bad t" using True t(4) by auto
      then obtain t us vs where b: "content l = us @ t # vs" "?bad t" "\<forall>u \<in> set us. \<not> ?bad u"
        "takeWhile (\<lambda>u. \<not> ?bad u) (content l) = us" "dropWhile (\<lambda>u. \<not> ?bad u) (content l) = t # vs"
        "filter (\<lambda>u. \<not> ?bad u \<and> \<not> AccountNonce t < AccountNonce u) (content l) = us"
        "filter (\<lambda>u. \<not> ?bad u \<and> AccountNonce t < AccountNonce u) (content l) = filter (\<lambda>u. \<not> ?bad u) vs"
        by (rule first_bad [OF t(3)])
      have "by_nonce (filter (\<lambda>t. \<not> n < AccountNonce t) (filter (\<lambda>t. AccountNonce t \<noteq> n) ts)) = us"
        using b(2,6) by (simp add: t(2) filter_sort conj_commute)
      also have "us = take (length us) (content l)" by (simp add: b(1))
      finally show ?thesis using list_inv_shrink [OF assms(1) f(2)] t(4) unfolding l' by auto
    qed
  qed
qed


lemma gap_free_insert:
  assumes "gap_free (map AccountNonce s)" "strictly_sorted s"
    and n: "s = [] \<or> AccountNonce tx \<in> AccountNonce ` set s \<or> unat (AccountNonce tx) = Suc (unat (AccountNonce (last s)))"
  shows "gap_free (map AccountNonce (insort_key AccountNonce tx (filter (\<lambda>t. AccountNonce t \<noteq> AccountNonce tx) s)))"
proof (cases "AccountNonce tx \<in> AccountNonce ` set s")
  case True
  let ?s = "insort_key AccountNonce tx (filter (\<lambda>t. AccountNonce t \<noteq> AccountNonce tx) s)"
  have "distinct_nonces ?s = distinct_nonces (tx # filter (\<lambda>t. AccountNonce t \<noteq> AccountNonce tx) s)"
    by (rule mset_eq_imp_distinct_iff) (simp add: mset_insort)
  then have ss: "strictly_sorted ?s"
    using assms(2) distinct_nonces_filter [of s] by (auto simp: sorted_insort_key sorted_filter)
  have "map AccountNonce ?s = map AccountNonce s"
    by (rule sorted_distinct_set_unique) (use ss assms(2) True in \<open>auto simp: set_insort_key\<close>)
  with assms(1) show ?thesis by simp
next
  case False
  then have f: "filter (\<lambda>t. AccountNonce t \<noteq> AccountNonce tx) s = s" by (auto intro!: filter_True simp: image_iff)
  show ?thesis
  proof (cases "s = []")
    case False
    with n \<open>AccountNonce tx \<notin> AccountNonce ` set s\<close> have l: "unat (AccountNonce tx) = Suc (unat (AccountNonce (last s)))" by simp
    have "AccountNonce t \<le> AccountNonce (last s)" if "t \<in> set s" for t
      using assms(2) that False by (induction s) (auto split: if_splits)
    moreover have "AccountNonce (last s) < AccountNonce tx" using l by (simp add: word_less_nat_alt)
    ultimately have "\<forall>t \<in> set s. AccountNonce t < AccountNonce tx" using le_less_trans by blast
    then have "insort_key AccountNonce tx s = s @ [tx]" by (induction s) auto
    with assms(1) l False show ?thesis unfolding f by (simp add: gap_free_def successively_append_iff last_map)
  qed (simp add: gap_free_def)
qed

lemma Overlaps_iff: "rep (l_txs l) ts \<Longrightarrow> txList_Overlaps l tx \<longleftrightarrow> AccountNonce tx \<in> AccountNonce ` set ts"
  by (auto simp: txList_Overlaps_def sm_Get_def rep_def)

lemma list_inv_Add:
  assumes "list_inv strict l" "txList_Add tx bump l = (r, l')"
    and n: "strict \<Longrightarrow> content l = [] \<or> txList_Overlaps l tx \<or> unat (AccountNonce tx) = Suc (unat (AccountNonce (last (content l))))"
  shows "list_inv strict l'"
proof (cases "fst r")
  case False
  with assms(1,2) show ?thesis by (auto simp: txList_Add_def Let_def split: if_splits)
next
  case True
  obtain ts where t: "rep (l_txs l) ts" "content l = by_nonce ts" "strictly_sorted (content l)" "set (content l) = set ts" "l_strict l = strict"
    using assms(1) by (rule list_invE)
  have l': "l_txs l' = sm_Put tx (l_txs l)" "l_strict l' = strict" "max (l_costcap l) (Cost tx) = l_costcap l'"
    "max (l_gascap l) (tx_GasLimit tx) = l_gascap l'"
    using assms(2) True t(5) by (auto simp: txList_Add_def Let_def split: if_splits)
  obtain us where us: "rep (sm_Put tx (l_txs l)) us" "mset us = add_mset tx (mset (filter (\<lambda>t. AccountNonce t \<noteq> AccountNonce tx) ts))"
    using rep_Put [OF t(1)] by blast
  have b: "by_nonce us = insort_key AccountNonce tx (filter (\<lambda>t. AccountNonce t \<noteq> AccountNonce tx) (content l))"
    using insort_by_nonce [OF _ us(2)] us(1) by (simp add: rep_def t(2) filter_sort)
  have c: "content l' = by_nonce us" "sm_ok (l_txs l')" using rep_ok [OF us(1)] l'(1) by (auto simp: content_def)
  have "gap_free (map AccountNonce (content l'))" if strict
    unfolding c(1) b using assms(1) t(3) n [OF that] that Overlaps_iff [OF t(1), of tx] t(4)
    by (intro gap_free_insert) (auto simp: list_inv_def)
  moreover have "Cost u \<le> l_costcap l' \<and> tx_GasLimit u \<le> l_gascap l'" if "u \<in> set us" for u
  proof -
    have "u = tx \<or> u \<in> set (content l)" using that mset_eq_setD [of us "tx # filter (\<lambda>t. AccountNonce t \<noteq> AccountNonce tx) ts"] us(2) t(4) by auto
    with assms(1) show ?thesis unfolding l'(3,4) [symmetric] by (auto simp: list_inv_def list_ok_def le_max_iff_disj)
  qed
  ultimately show ?thesis using c l'(2) by (auto simp: list_inv_def list_ok_def)
qed

lemma list_inv_new: "list_inv strict (newTxList strict)"
  using rep_ok [OF rep_new] by (simp add: list_inv_def list_ok_def content_def newTxList_def gap_free_def)

lemma builds_inv: "builds strict l \<Longrightarrow> list_inv strict l"
proof (induction rule: builds.induct)
  case builds_new
  show ?case by (rule list_inv_new)
qed (blast intro: list_inv_Add list_inv_Forward list_inv_Filter list_inv_Cap list_inv_Remove list_inv_Ready list_inv_Flatten)+

section \<open>Properties\<close>


text \<open>A strict list with a cheap transaction at nonce 1 and one with a high gas limit at nonce 2.\<close>

definition small_list :: txList where
  "small_list = snd (txList_Add (tx_at 1) 10 (newTxList True))"

definition sample_list :: txList where
  "sample_list = snd (txList_Add (NewTransaction 2 7 (Some 1) 90000 (Some 2) []) 10 small_list)"

lemma content_samples:
  "content small_list = [tx_at 1]" "content sample_list = [tx_at 1, NewTransaction 2 7 (Some 1) 90000 (Some 2) []]"
  by code_simp+

lemma builds_sample: "builds True sample_list"
proof -
  have "builds True small_list"
    unfolding small_list_def by (rule builds_Add [OF builds_new, OF surjective_pairing]) (simp add: content_def newTxList_def txs_of_def newTxSortedMap_def)
  then show ?thesis
    unfolding sample_list_def by (rule builds_Add [OF _ surjective_pairing])
      (simp add: content_samples tx_at_def NewTransaction_def newTransaction_def)
qed


text \<open>
  \<^verbatim>\<open>Filter\<close> with its cached caps removes exactly the transactions whose cost or gas exceeds the limits; in a strict
  list it also removes everything after the first of them, and nothing else; the caps stay upper bounds.
\<close>

theorem Filter_exact:
  assumes "list_ok l" "range_ok rng" "range_ok rng'"
  shows "\<exists>removed invalids l'. txList_Filter rng rng' costLimit gasLimit l = ((removed, invalids), l') \<and> list_ok l' \<and>
     (let bad = (\<lambda>t. costLimit < Cost t \<or> gasLimit < tx_GasLimit t); s = content l in
      mset removed = mset (filter bad s) \<and>
      (if l_strict l
       then content l' = takeWhile (\<lambda>t. \<not> bad t) s \<and> mset invalids = mset (filter (\<lambda>t. \<not> bad t) (dropWhile (\<lambda>t. \<not> bad t) s))
       else content l' = filter (\<lambda>t. \<not> bad t) s \<and> invalids = []))"
  using assms by (rule Filter_correct)


theorem Filter_exact_witness:
  "\<exists>removed invalids l'. txList_Filter (map fst) (map fst) 100000 8000000 sample_list = ((removed, invalids), l') \<and>
     mset removed = {#NewTransaction 2 7 (Some 1) 90000 (Some 2) []#} \<and> content l' = [tx_at 1]"
proof -
  have "list_ok sample_list" "l_strict sample_list" using builds_inv [OF builds_sample] by (auto simp: list_inv_def)
  with Filter_exact [OF this(1) range_ok_fst range_ok_fst, of 100000 8000000] show ?thesis
    by (simp add: Let_def content_samples tx_at_def NewTransaction_def newTransaction_def Cost_def) blast
qed

end
