(* ===== verification/Tx_Priced.thy ===== *)
theory Tx_Priced
  imports Tx_List
begin

text \<open>
  The list of all transactions by price (\<^verbatim>\<open>txPricedList\<close> of \<^verbatim>\<open>core/tx_list.go\<close>), with \<^verbatim>\<open>txLookup\<close> and \<^verbatim>\<open>accountSet\<close> of
  \<^verbatim>\<open>core/tx_pool.go\<close>.  The list is lazy: a transaction that leaves the pool stays in the heap and is recognised as stale
  when it is met.  The list shares the table of all transactions with the pool, so its operations take the table as an
  argument; they also take the hash of a transaction, and whether its sender is a local account (\<^verbatim>\<open>containsTx\<close>).

  The theory proves that \<^verbatim>\<open>Cap\<close>, \<^verbatim>\<open>Discard\<close> and \<^verbatim>\<open>Underpriced\<close> answer as if the heap held only the live transactions.
\<close>

section \<open>The table of all transactions and the set of local accounts\<close>

record txLookup =
  lk_all :: "(Hash, Transaction) gomap"

definition newTxLookup :: txLookup where "newTxLookup = \<lparr>lk_all = []\<rparr>"

definition txLookup_Get :: "txLookup \<Rightarrow> Hash \<Rightarrow> Transaction option" where
  "txLookup_Get t h = map_of (lk_all t) h"

definition txLookup_Count :: "txLookup \<Rightarrow> nat" where
  "txLookup_Count t = length (lk_all t)"

definition txLookup_Add :: "(Transaction \<Rightarrow> Hash) \<Rightarrow> Transaction \<Rightarrow> txLookup \<Rightarrow> txLookup" where
  "txLookup_Add hash tx t = t\<lparr>lk_all := AList.update (hash tx) tx (lk_all t)\<rparr>"

definition txLookup_Remove :: "Hash \<Rightarrow> txLookup \<Rightarrow> txLookup" where
  "txLookup_Remove h t = t\<lparr>lk_all := AList.delete h (lk_all t)\<rparr>"

text \<open>\<^verbatim>\<open>Range\<close> with a function that accumulates a state and tells whether to go on.\<close>

fun range_loop :: "(Hash \<Rightarrow> Transaction \<Rightarrow> 's \<Rightarrow> bool \<times> 's) \<Rightarrow> (Hash, Transaction) gomap \<Rightarrow> Hash list \<Rightarrow> 's \<Rightarrow> 's" where
  "range_loop f t [] s = s"
| "range_loop f t (key # keys) s =
     (case map_of t key of
        None \<Rightarrow> range_loop f t keys s
      | Some v \<Rightarrow> let (continue, s) = f key v s in if \<not> continue then s else range_loop f t keys s)"

definition txLookup_Range :: "Hash range \<Rightarrow> (Hash \<Rightarrow> Transaction \<Rightarrow> 's \<Rightarrow> bool \<times> 's) \<Rightarrow> txLookup \<Rightarrow> 's \<Rightarrow> 's" where
  "txLookup_Range rng f t s = range_loop f (lk_all t) (rng (lk_all t)) s"

record accountSet =
  as_accounts :: "Address list"
  as_signer :: Signer
  as_cache :: "Address list option"

definition newAccountSet :: "Signer \<Rightarrow> accountSet" where
  "newAccountSet signer = \<lparr>as_accounts = [], as_signer = signer, as_cache = None\<rparr>"

definition as_contains :: "accountSet \<Rightarrow> Address \<Rightarrow> bool" where
  "as_contains a addr = List.member (as_accounts a) addr"

definition as_containsTx :: "(bytes \<Rightarrow> Hash) \<Rightarrow> (bytes \<Rightarrow> bytes \<Rightarrow> bytes option) \<Rightarrow> accountSet \<Rightarrow> Transaction \<Rightarrow> bool option" where
  "as_containsTx keccak recov a tx =
     do {
       r \<leftarrow> Signer_Sender keccak recov (as_signer a) tx;
       Some (case r of Inr addr \<Rightarrow> as_contains a addr | Inl _ \<Rightarrow> False)
     }"

definition as_add :: "Address \<Rightarrow> accountSet \<Rightarrow> accountSet" where
  "as_add addr a = a\<lparr>as_accounts := List.insert addr (as_accounts a), as_cache := None\<rparr>"

definition as_flatten :: "(Address list \<Rightarrow> Address list) \<Rightarrow> accountSet \<Rightarrow> Address list \<times> accountSet" where
  "as_flatten rng a =
     (case as_cache a of
        None \<Rightarrow> let accounts = rng (as_accounts a) in (accounts, a\<lparr>as_cache := Some accounts\<rparr>)
      | Some accounts \<Rightarrow> (accounts, a))"

section \<open>The list by price\<close>

definition price_less :: "Transaction \<Rightarrow> Transaction \<Rightarrow> bool" where
  "price_less a b =
     (if Price a < Price b then True else if Price b < Price a then False else AccountNonce b < AccountNonce a)"

interpretation prices: heap_order price_less
  by unfold_locales (auto simp: price_less_def split: if_splits)

record txPricedList =
  pl_items :: "Transaction list"
  pl_stales :: int

definition newTxPricedList :: txPricedList where
  "newTxPricedList = \<lparr>pl_items = [], pl_stales = 0\<rparr>"

definition pl_Put :: "Transaction \<Rightarrow> txPricedList \<Rightarrow> txPricedList" where
  "pl_Put tx l = l\<lparr>pl_items := heap_Push price_less (pl_items l) tx\<rparr>"

definition pl_Removed :: "Hash range \<Rightarrow> txLookup \<Rightarrow> txPricedList \<Rightarrow> txPricedList" where
  "pl_Removed rng all l =
     (let l = l\<lparr>pl_stales := pl_stales l + 1\<rparr> in
      if pl_stales l \<le> int (length (pl_items l) div 4) then l
      else
        let items = txLookup_Range rng (\<lambda>hash tx items. (True, items @ [tx])) all [] in
        \<lparr>pl_items = heap_Init price_less items, pl_stales = 0\<rparr>)"

function Cap_price_loop :: "(Transaction \<Rightarrow> Hash) \<Rightarrow> txLookup \<Rightarrow> (Transaction \<Rightarrow> bool) \<Rightarrow> int \<Rightarrow> Transaction list \<Rightarrow> int \<Rightarrow>
    Transaction list \<Rightarrow> Transaction list \<Rightarrow> (Transaction list \<times> int \<times> Transaction list \<times> Transaction list) option" where
  "Cap_price_loop hash all islocal threshold items stales drp save =
     (if 0 < length items then
        case heap_Pop price_less items of
          None \<Rightarrow> None
        | Some (tx, items) \<Rightarrow>
            if txLookup_Get all (hash tx) = None then Cap_price_loop hash all islocal threshold items (stales - 1) drp save
            else if threshold \<le> Price tx then Some (items, stales, drp, save @ [tx])
            else if islocal tx then Cap_price_loop hash all islocal threshold items stales drp (save @ [tx])
            else Cap_price_loop hash all islocal threshold items stales (drp @ [tx]) save
      else Some (items, stales, drp, save))"
  by auto
termination by (relation "measure (\<lambda>(hash, all, islocal, thr, items, stales, drp, save). length items)") (auto dest: heap_Pop_length)

definition push_all :: "Transaction list \<Rightarrow> Transaction list \<Rightarrow> Transaction list" where
  "push_all items save = foldl (heap_Push price_less) items save"

definition pl_Cap :: "(Transaction \<Rightarrow> Hash) \<Rightarrow> txLookup \<Rightarrow> (Transaction \<Rightarrow> bool) \<Rightarrow> int \<Rightarrow> txPricedList \<Rightarrow> (Transaction list \<times> txPricedList) option" where
  "pl_Cap hash all islocal threshold l =
     do {
       (items, stales, drp, save) \<leftarrow> Cap_price_loop hash all islocal threshold (pl_items l) (pl_stales l) [] [];
       Some (drp, \<lparr>pl_items = push_all items save, pl_stales = stales\<rparr>)
     }"

function drop_stale :: "(Transaction \<Rightarrow> Hash) \<Rightarrow> txLookup \<Rightarrow> Transaction list \<Rightarrow> int \<Rightarrow> (Transaction list \<times> int) option" where
  "drop_stale hash all items stales =
     (if 0 < length items then
        let head = items ! 0 in
        if txLookup_Get all (hash head) = None then
          case heap_Pop price_less items of
            None \<Rightarrow> None
          | Some (_, items) \<Rightarrow> drop_stale hash all items (stales - 1)
        else Some (items, stales)
      else Some (items, stales))"
  by auto
termination by (relation "measure (\<lambda>(hash, all, items, stales). length items)") (auto dest: heap_Pop_length)

definition pl_Underpriced :: "(Transaction \<Rightarrow> Hash) \<Rightarrow> txLookup \<Rightarrow> (Transaction \<Rightarrow> bool) \<Rightarrow> Transaction \<Rightarrow> txPricedList \<Rightarrow> (bool \<times> txPricedList) option" where
  "pl_Underpriced hash all islocal tx l =
     (if islocal tx then Some (False, l)
      else do {
        (items, stales) \<leftarrow> drop_stale hash all (pl_items l) (pl_stales l);
        let l = \<lparr>pl_items = items, pl_stales = stales\<rparr>;
        if length items = 0 then Some (False, l)
        else let cheapest = items ! 0 in Some (Price tx \<le> Price cheapest, l)
      })"

function Discard_loop :: "(Transaction \<Rightarrow> Hash) \<Rightarrow> txLookup \<Rightarrow> (Transaction \<Rightarrow> bool) \<Rightarrow> int \<Rightarrow> Transaction list \<Rightarrow> int \<Rightarrow>
    Transaction list \<Rightarrow> Transaction list \<Rightarrow> (Transaction list \<times> int \<times> Transaction list \<times> Transaction list) option" where
  "Discard_loop hash all islocal cnt items stales drp save =
     (if 0 < length items \<and> 0 < cnt then
        case heap_Pop price_less items of
          None \<Rightarrow> None
        | Some (tx, items) \<Rightarrow>
            if txLookup_Get all (hash tx) = None then Discard_loop hash all islocal cnt items (stales - 1) drp save
            else if islocal tx then Discard_loop hash all islocal cnt items stales drp (save @ [tx])
            else Discard_loop hash all islocal (cnt - 1) items stales (drp @ [tx]) save
      else Some (items, stales, drp, save))"
  by auto
termination by (relation "measure (\<lambda>(hash, all, islocal, cnt, items, stales, drp, save). length items)") (auto dest: heap_Pop_length)

text \<open>A negative \<^verbatim>\<open>count\<close> makes the allocation of the result panic.\<close>

definition pl_Discard :: "(Transaction \<Rightarrow> Hash) \<Rightarrow> txLookup \<Rightarrow> (Transaction \<Rightarrow> bool) \<Rightarrow> int \<Rightarrow> txPricedList \<Rightarrow> (Transaction list \<times> txPricedList) option" where
  "pl_Discard hash all islocal cnt l =
     (if cnt < 0 then None
      else do {
        (items, stales, drp, save) \<leftarrow> Discard_loop hash all islocal cnt (pl_items l) (pl_stales l) [] [];
        Some (drp, \<lparr>pl_items = push_all items save, pl_stales = stales\<rparr>)
      })"

declare Cap_price_loop.simps [simp del] drop_stale.simps [simp del] Discard_loop.simps [simp del]


section \<open>Live transactions\<close>

definition live :: "(Transaction \<Rightarrow> Hash) \<Rightarrow> txLookup \<Rightarrow> Transaction \<Rightarrow> bool" where
  "live hash all tx \<longleftrightarrow> txLookup_Get all (hash tx) \<noteq> None"

definition live_items :: "(Transaction \<Rightarrow> Hash) \<Rightarrow> txLookup \<Rightarrow> txPricedList \<Rightarrow> Transaction multiset" where
  "live_items hash all l = filter_mset (live hash all) (mset (pl_items l))"

lemma push_all_correct:
  "is_heap price_less items \<Longrightarrow> is_heap price_less (push_all items save) \<and> mset (push_all items save) = mset items + mset save"
proof (induction save arbitrary: items)
  case (Cons tx save)
  from Cons.IH [OF prices.push(1) [OF Cons.prems, of tx]] prices.push(2) [OF Cons.prems, of tx] show ?case
    by (simp add: push_all_def)
qed (simp add: push_all_def)

lemma cheaper_first:
  assumes "is_heap price_less items" "tx = items ! 0" "u \<in> set items"
  shows "Price tx \<le> Price u"
  using prices.least [OF assms(1,3)] assms(2) by (auto simp: price_less_def split: if_splits)

lemma Cap_price_loop_correct:
  assumes "is_heap price_less items"
  shows "\<exists>items' stales' d sv. Cap_price_loop hash all islocal thr items stales drp save = Some (items', stales', drp @ d, save @ sv) \<and>
     is_heap price_less items' \<and>
     mset d = filter_mset (\<lambda>t. live hash all t \<and> \<not> islocal t \<and> Price t < thr) (mset items) \<and>
     filter_mset (live hash all) (mset items' + mset sv) + mset d = filter_mset (live hash all) (mset items)"
  using assms
proof (induction "length items" arbitrary: items stales drp save rule: less_induct)
  case less
  show ?case
  proof (cases "items = []")
    case True
    with less.prems show ?thesis by (subst Cap_price_loop.simps) simp
  next
    case False
    then obtain h where h: "heap_Pop price_less items = Some (items ! 0, h)" "is_heap price_less h"
      "mset items = add_mset (items ! 0) (mset h)" "set items = insert (items ! 0) (set h)" "length items = Suc (length h)"
      by (rule prices.pop_cases [OF less.prems])
    define tx where "tx = items ! 0"
    note h = h [folded tx_def]
    note IH = less.hyps [OF _ h(2)]
    have unf: "Cap_price_loop hash all islocal thr items stales drp save =
        (if \<not> live hash all tx then Cap_price_loop hash all islocal thr h (stales - 1) drp save
         else if thr \<le> Price tx then Some (h, stales, drp, save @ [tx])
         else if islocal tx then Cap_price_loop hash all islocal thr h stales drp (save @ [tx])
         else Cap_price_loop hash all islocal thr h stales (drp @ [tx]) save)"
      using False h(1) by (subst Cap_price_loop.simps) (simp add: live_def)
    consider (stale) "\<not> live hash all tx" | (stop) "live hash all tx" "thr \<le> Price tx"
      | (local) "live hash all tx" "Price tx < thr" "islocal tx" | (drop) "live hash all tx" "Price tx < thr" "\<not> islocal tx"
      by fastforce
    then show ?thesis
    proof cases
      case stale
      with IH [of "stales - 1" drp save] h(5) show ?thesis unfolding unf h(3) by simp
    next
      case stop
      have "\<not> Price t < thr" if "t \<in> set items" for t
        using cheaper_first [OF less.prems tx_def that] stop(2) by simp
      then have "set_mset (filter_mset (\<lambda>t. live hash all t \<and> \<not> islocal t \<and> Price t < thr) (mset items)) = {}" by auto
      then have "filter_mset (\<lambda>t. live hash all t \<and> \<not> islocal t \<and> Price t < thr) (mset items) = {#}"
        by (simp only: set_mset_eq_empty_iff)
      with stop h(2,3) unf show ?thesis by (intro exI [of _ h] exI [of _ stales] exI [of _ "[]"] exI [of _ "[tx]"]) simp
    next
      case local
      with IH [of stales drp "save @ [tx]"] h(5) obtain items' stales' d sv where
        "Cap_price_loop hash all islocal thr h stales drp (save @ [tx]) = Some (items', stales', drp @ d, (save @ [tx]) @ sv)"
        "is_heap price_less items'" "mset d = filter_mset (\<lambda>t. live hash all t \<and> \<not> islocal t \<and> Price t < thr) (mset h)"
        "filter_mset (live hash all) (mset items' + mset sv) + mset d = filter_mset (live hash all) (mset h)" by auto
      with local show ?thesis unfolding unf h(3) by (intro exI [of _ items'] exI [of _ stales'] exI [of _ d] exI [of _ "tx # sv"]) simp
    next
      case drop
      with IH [of stales "drp @ [tx]" save] h(5) obtain items' stales' d sv where
        "Cap_price_loop hash all islocal thr h stales (drp @ [tx]) save = Some (items', stales', (drp @ [tx]) @ d, save @ sv)"
        "is_heap price_less items'" "mset d = filter_mset (\<lambda>t. live hash all t \<and> \<not> islocal t \<and> Price t < thr) (mset h)"
        "filter_mset (live hash all) (mset items' + mset sv) + mset d = filter_mset (live hash all) (mset h)" by auto
      with drop show ?thesis unfolding unf h(3) by (intro exI [of _ items'] exI [of _ stales'] exI [of _ "tx # d"] exI [of _ sv]) simp
    qed
  qed
qed

lemma Cap_correct:
  assumes "is_heap price_less (pl_items l)"
  shows "\<exists>d l'. pl_Cap hash all islocal thr l = Some (d, l') \<and> is_heap price_less (pl_items l') \<and>
     mset d = filter_mset (\<lambda>t. \<not> islocal t \<and> Price t < thr) (live_items hash all l) \<and>
     live_items hash all l' + mset d = live_items hash all l"
proof -
  obtain items stales d sv where c: "Cap_price_loop hash all islocal thr (pl_items l) (pl_stales l) [] [] = Some (items, stales, d, sv)"
    "is_heap price_less items" "mset d = filter_mset (\<lambda>t. live hash all t \<and> \<not> islocal t \<and> Price t < thr) (mset (pl_items l))"
    "filter_mset (live hash all) (mset items + mset sv) + mset d = filter_mset (live hash all) (mset (pl_items l))"
    using Cap_price_loop_correct [OF assms, of hash all islocal thr "pl_stales l" "[]" "[]"] by auto
  with push_all_correct [OF c(2), of sv] show ?thesis
    by (simp add: pl_Cap_def live_items_def filter_filter_mset)
qed


text \<open>What a run of the loop of \<^verbatim>\<open>Discard\<close> has done: \<open>d\<close> was dropped and \<open>sv\<close> set aside.\<close>

definition discarded :: "(Transaction \<Rightarrow> Hash) \<Rightarrow> txLookup \<Rightarrow> (Transaction \<Rightarrow> bool) \<Rightarrow> int \<Rightarrow> Transaction list \<Rightarrow> Transaction list \<Rightarrow>
    Transaction list \<Rightarrow> Transaction list \<Rightarrow> bool" where
  "discarded hash all islocal cnt items items' d sv \<longleftrightarrow>
     is_heap price_less items' \<and> set items' \<subseteq> set items \<and> (\<forall>t \<in> set d. live hash all t \<and> \<not> islocal t) \<and> (\<forall>t \<in> set sv. islocal t) \<and>
     filter_mset (live hash all) (mset items' + mset sv) + mset d = filter_mset (live hash all) (mset items) \<and>
     int (length d) = min cnt (int (size (filter_mset (\<lambda>t. live hash all t \<and> \<not> islocal t) (mset items)))) \<and>
     (\<forall>t \<in> set d. \<forall>u \<in> set items'. \<not> price_less u t)"

lemma Discard_loop_correct:
  assumes "is_heap price_less items" "0 \<le> cnt"
  shows "\<exists>items' stales' d sv. Discard_loop hash all islocal cnt items stales drp save = Some (items', stales', drp @ d, save @ sv) \<and>
     discarded hash all islocal cnt items items' d sv"
  using assms
proof (induction "length items" arbitrary: items stales drp save cnt rule: less_induct)
  case less
  show ?case
  proof (cases "items = [] \<or> cnt = 0")
    case True
    then have "Discard_loop hash all islocal cnt items stales drp save = Some (items, stales, drp @ [], save @ [])"
      by (subst Discard_loop.simps) auto
    moreover have "discarded hash all islocal cnt items items [] []" using True less.prems by (auto simp: discarded_def)
    ultimately show ?thesis by blast
  next
    case False
    then have "items \<noteq> []" by simp
    then obtain h where h: "heap_Pop price_less items = Some (items ! 0, h)" "is_heap price_less h"
      "mset items = add_mset (items ! 0) (mset h)" "set items = insert (items ! 0) (set h)" "length items = Suc (length h)"
      by (rule prices.pop_cases [OF less.prems(1)])
    define tx where "tx = items ! 0"
    note h = h [folded tx_def]
    have least: "\<not> price_less u tx" if "u \<in> set items" for u using prices.least [OF less.prems(1) that] by (simp add: tx_def)
    note IH = less.hyps [OF _ h(2)]
    have unf: "Discard_loop hash all islocal cnt items stales drp save =
        (if \<not> live hash all tx then Discard_loop hash all islocal cnt h (stales - 1) drp save
         else if islocal tx then Discard_loop hash all islocal cnt h stales drp (save @ [tx])
         else Discard_loop hash all islocal (cnt - 1) h stales (drp @ [tx]) save)"
      using False h(1) less.prems(2) by (subst Discard_loop.simps) (auto simp: live_def)
    consider (stale) "\<not> live hash all tx" | (local) "live hash all tx" "islocal tx" | (drop) "live hash all tx" "\<not> islocal tx" by blast
    then show ?thesis
    proof cases
      case stale
      then have "discarded hash all islocal cnt items items' d sv" if "discarded hash all islocal cnt h items' d sv" for items' d sv
        using that h(3,4) by (auto simp: discarded_def)
      with IH [of cnt "stales - 1" drp save] h(5) less.prems(2) stale show ?thesis unfolding unf by (simp, blast)
    next
      case local
      then have "discarded hash all islocal cnt items items' d (tx # sv)" if "discarded hash all islocal cnt h items' d sv" for items' d sv
        using that h(3,4) by (auto simp: discarded_def)
      with IH [of cnt stales drp "save @ [tx]"] h(5) less.prems(2) local show ?thesis unfolding unf
        by (simp, metis append_Cons)
    next
      case drop
      have "discarded hash all islocal cnt items items' (tx # d) sv" if "discarded hash all islocal (cnt - 1) h items' d sv" for items' d sv
        using that h(3,4) drop least False less.prems(2) by (auto simp: discarded_def)
      with IH [of "cnt - 1" stales "drp @ [tx]" save] h(5) less.prems(2) False drop show ?thesis unfolding unf
        by (simp, metis append_Cons)
    qed
  qed
qed

lemma drop_stale_correct:
  assumes "is_heap price_less items"
  shows "\<exists>items' stales'. drop_stale hash all items stales = Some (items', stales') \<and> is_heap price_less items' \<and>
     filter_mset (live hash all) (mset items') = filter_mset (live hash all) (mset items) \<and> (items' \<noteq> [] \<longrightarrow> live hash all (items' ! 0))"
  using assms
proof (induction "length items" arbitrary: items stales rule: less_induct)
  case less
  show ?case
  proof (cases "items = [] \<or> live hash all (items ! 0)")
    case True
    with less.prems show ?thesis by (subst drop_stale.simps) (auto simp: live_def)
  next
    case False
    then have "items \<noteq> []" by simp
    then obtain h where h: "heap_Pop price_less items = Some (items ! 0, h)" "is_heap price_less h"
      "mset items = add_mset (items ! 0) (mset h)" "set items = insert (items ! 0) (set h)" "length items = Suc (length h)"
      by (rule prices.pop_cases [OF less.prems])
    have "drop_stale hash all items stales = drop_stale hash all h (stales - 1)"
      using False h(1) by (subst drop_stale.simps) (simp add: live_def)
    with less.hyps [OF _ h(2), of "stales - 1"] h(3,5) False show ?thesis by simp
  qed
qed

section \<open>Properties\<close>

text \<open>
  C35.  \<^verbatim>\<open>Discard\<close> returns the cheapest remote transactions of the pool: without a panic it drops \<open>cnt\<close> of them, or all
  that there are; no remote transaction that is kept is cheaper than one that is dropped (by price, and then by the higher
  nonce); local transactions are never dropped, nothing else is lost, and stale entries do not matter.
\<close>

theorem Discard_cheapest:
  assumes "is_heap price_less (pl_items l)" "0 \<le> cnt"
  shows "\<exists>d l'. pl_Discard hash all islocal cnt l = Some (d, l') \<and> is_heap price_less (pl_items l') \<and>
     live_items hash all l' + mset d = live_items hash all l \<and> (\<forall>t \<in> set d. \<not> islocal t) \<and>
     int (length d) = min cnt (int (size (filter_mset (\<lambda>t. \<not> islocal t) (live_items hash all l)))) \<and>
     (\<forall>t \<in> set d. \<forall>u \<in># live_items hash all l'. \<not> islocal u \<longrightarrow> \<not> price_less u t)"
proof -
  obtain items stales d sv where c: "Discard_loop hash all islocal cnt (pl_items l) (pl_stales l) [] [] = Some (items, stales, d, sv)"
    "discarded hash all islocal cnt (pl_items l) items d sv"
    using Discard_loop_correct [OF assms, of hash all islocal "pl_stales l" "[]" "[]"] by auto
  have "is_heap price_less items" using c(2) by (simp add: discarded_def)
  note p = push_all_correct [OF this, of sv]
  then have "set (push_all items sv) = set items \<union> set sv" by (metis set_mset_mset set_mset_union)
  with p c assms(2) show ?thesis
    by (auto simp: pl_Discard_def live_items_def filter_filter_mset discarded_def)
qed

text \<open>Four transactions of different prices, of which the second has left the pool and the third is local.\<close>

definition priced_tx :: "uint64 \<Rightarrow> int \<Rightarrow> Transaction" where
  "priced_tx n p = NewTransaction n 7 (Some 0) 21000 (Some p) []"

definition nonce_hash :: "Transaction \<Rightarrow> Hash" where
  "nonce_hash tx = ucast (AccountNonce tx)"

definition sample_pool :: txLookup where
  "sample_pool = txLookup_Add nonce_hash (priced_tx 4 4) (txLookup_Add nonce_hash (priced_tx 3 2) (txLookup_Add nonce_hash (priced_tx 1 3) newTxLookup))"

definition sample_priced :: txPricedList where
  "sample_priced = pl_Put (priced_tx 4 4) (pl_Put (priced_tx 3 2) (pl_Put (priced_tx 2 1) (pl_Put (priced_tx 1 3) newTxPricedList)))"

lemma sample_heap: "is_heap price_less (pl_items sample_priced)"
  unfolding sample_priced_def pl_Put_def newTxPricedList_def by (simp add: prices.push(1) prices.invar_Nil)

lemma sample_live: "live_items nonce_hash sample_pool sample_priced = {#priced_tx 4 4, priced_tx 3 2, priced_tx 1 3#}"
  by code_simp

theorem Discard_cheapest_witness:
  "\<exists>d l'. pl_Discard nonce_hash sample_pool (\<lambda>t. AccountNonce t = 3) 1 sample_priced = Some (d, l') \<and> length d = 1 \<and>
     live_items nonce_hash sample_pool l' + mset d = {#priced_tx 4 4, priced_tx 3 2, priced_tx 1 3#}"
  using Discard_cheapest [OF sample_heap, of 1 nonce_hash sample_pool "\<lambda>t. AccountNonce t = 3"]
  unfolding sample_live by (auto simp: priced_tx_def NewTransaction_def newTransaction_def)

text \<open>
  \<^verbatim>\<open>Underpriced\<close> says of a remote transaction whether no live transaction of the pool is cheaper, and of a local one or
  for an empty pool that it is not; looking for the answer loses no live transaction.
\<close>

theorem Underpriced_correct:
  assumes "is_heap price_less (pl_items l)"
  shows "\<exists>l'. pl_Underpriced hash all islocal tx l =
       Some (\<not> islocal tx \<and> live_items hash all l \<noteq> {#} \<and> (\<forall>u \<in># live_items hash all l. Price tx \<le> Price u), l') \<and>
     is_heap price_less (pl_items l') \<and> live_items hash all l' = live_items hash all l"
proof (cases "islocal tx")
  case True
  with assms show ?thesis by (simp add: pl_Underpriced_def)
next
  case False
  obtain items stales where d: "drop_stale hash all (pl_items l) (pl_stales l) = Some (items, stales)" "is_heap price_less items"
    "filter_mset (live hash all) (mset items) = live_items hash all l" "items \<noteq> [] \<longrightarrow> live hash all (items ! 0)"
    using drop_stale_correct [OF assms, of hash all "pl_stales l"] by (auto simp: live_items_def)
  show ?thesis
  proof (cases "items = []")
    case True
    with False d show ?thesis by (simp add: pl_Underpriced_def live_items_def)
  next
    case ne: False
    have "items ! 0 \<in># live_items hash all l" unfolding d(3) [symmetric] using d(4) ne by simp
    moreover have "Price (items ! 0) \<le> Price u" if "u \<in># live_items hash all l" for u
      using cheaper_first [OF d(2) refl, of u] that unfolding d(3) [symmetric] by simp
    ultimately have "Price tx \<le> Price (items ! 0) \<longleftrightarrow> live_items hash all l \<noteq> {#} \<and> (\<forall>u \<in># live_items hash all l. Price tx \<le> Price u)"
      by force
    with False ne d show ?thesis by (simp add: pl_Underpriced_def live_items_def Let_def)
  qed
qed


theorem Underpriced_correct_witness:
  "\<exists>l'. pl_Underpriced nonce_hash sample_pool (\<lambda>t. AccountNonce t = 3) (priced_tx 9 2) sample_priced = Some (True, l')"
  using Underpriced_correct [OF sample_heap, of nonce_hash sample_pool "\<lambda>t. AccountNonce t = 3" "priced_tx 9 2"]
  unfolding sample_live by (auto simp: priced_tx_def NewTransaction_def newTransaction_def)

text \<open>The sender of a transaction is looked up without a panic.\<close>

lemma recoverPlain_total: "\<exists>r. recoverPlain keccak recov h R S V homestead = Some r"
proof -
  have short: "length (big_Bytes x) \<le> 32" if "1 \<le> x" "x < secp256k1N" for x
    unfolding big_Bytes_def using that by (intro length_bytes_of_nat) (simp add: secp256k1N_def nat_less_iff)
  have "\<not> (32 < length (big_Bytes R) \<or> 64 < length (big_Bytes S))" if "crypto_ValidateSignatureValues v R S homestead" for v
    using that short [of R] short [of S] by (auto simp: crypto_ValidateSignatureValues_def split: if_splits)
  then show ?thesis by (auto simp: recoverPlain_def Let_def split: option.splits)
qed

lemma containsTx_total: "\<exists>b. as_containsTx keccak recov a tx = Some b"
proof -
  have "\<exists>r. Signer_Sender keccak recov s tx = Some r" for s
    using recoverPlain_total by (cases s) (auto simp: Homestead_Sender_def)
  then obtain r where "Signer_Sender keccak recov (as_signer a) tx = Some r" by blast
  then show ?thesis by (simp add: as_containsTx_def)
qed

end
