(* ===== verification/Managed_State.thy ===== *)
theory Managed_State
  imports State_Correct
begin

text \<open>
  \<^verbatim>\<open>core/state/managed_state.go\<close>: a copy of the state that tracks the nonces of pending transactions, with \<^verbatim>\<open>StateDB.Copy\<close>
  of \<^verbatim>\<open>core/state/statedb.go\<close> on which it is built.  The mutex is left out: every method holds it from its first to its last
  access.  The pointer to the state object in an \<^verbatim>\<open>account\<close> is never read and left out too.
\<close>

section \<open>Copies of a state\<close>

definition deepCopy :: "stateObject \<Rightarrow> stateObject" where
  "deepCopy self =
     (newObject (address self) (data self))
       \<lparr>so_trie := so_trie self, so_code := so_code self, dirtyStorage := dirtyStorage self, originStorage := originStorage self,
        suicided := suicided self, dirtyCode := dirtyCode self, deleted := deleted self\<rparr>"

text \<open>
  The objects of the copy: the journaled ones that exist, and the dirty ones, where a missing object is a nil pointer.
  \<^verbatim>\<open>CopyTrie\<close> returns an independent trie with the same content.
\<close>

definition copied_object :: "StateDB \<Rightarrow> Address \<Rightarrow> stateObject option" where
  "copied_object self addr =
     (if dirties (journal self) addr \<noteq> None \<or> stateObjectsDirty self addr then map_option deepCopy (stateObjects self addr) else None)"

definition StateDB_Copy :: "Address list \<Rightarrow> StateDB \<Rightarrow> StateDB option" where
  "StateDB_Copy dirty self =
     (if list_ex (\<lambda>addr. stateObjectsDirty self addr \<and> stateObjects self addr = None) dirty then None
      else Some
        \<lparr>db = db self, acct_trie = acct_trie self, stateObjects = copied_object self,
         stateObjectsDirty = (\<lambda>addr. copied_object self addr \<noteq> None), dbErr = None, refund = refund self, thash = 0, bhash = 0,
         txIndex = 0, logs = logs self, logSize = logSize self, preimages = preimages self, journal = newJournal,
         validRevisions = [], nextRevisionId = 0\<rparr>)"


section \<open>Managed nonces\<close>

record account =
  nstart :: uint64
  nonces :: "bool list"

record ManagedState =
  ms_StateDB :: StateDB
  ms_accounts :: "Address \<rightharpoonup> account"

definition newAccount :: "stateObject \<Rightarrow> account" where
  "newAccount so = \<lparr>nstart = Nonce (data so), nonces = []\<rparr>"

definition ManageState :: "Address list \<Rightarrow> StateDB \<Rightarrow> ManagedState option" where
  "ManageState dirty statedb =
     map_option (\<lambda>s. \<lparr>ms_StateDB = s, ms_accounts = Map.empty\<rparr>) (StateDB_Copy dirty statedb)"

definition ms_SetState :: "StateDB \<Rightarrow> ManagedState \<Rightarrow> ManagedState" where
  "ms_SetState statedb ms = ms\<lparr>ms_StateDB := statedb\<rparr>"

definition hasAccount :: "ManagedState \<Rightarrow> Address \<Rightarrow> bool" where
  "hasAccount ms addr = (ms_accounts ms addr \<noteq> None)"

text \<open>The nonce up to which an account is tracked.\<close>

definition tracked :: "account \<Rightarrow> uint64" where
  "tracked a = of_nat (length (nonces a)) + nstart a"

definition getAccount :: "ManagedState \<Rightarrow> Address \<Rightarrow> account \<times> ManagedState" where
  "getAccount ms addr =
     (case ms_accounts ms addr of
        None \<Rightarrow>
          let (so, s) = GetOrNewStateObject (ms_StateDB ms) addr; a = newAccount so in
          (a, ms\<lparr>ms_StateDB := s, ms_accounts := (ms_accounts ms)(addr \<mapsto> a)\<rparr>)
      | Some a \<Rightarrow>
          let (so, s) = getStateObject (ms_StateDB ms) addr; ms = ms\<lparr>ms_StateDB := s\<rparr> in
          (case so of
             None \<Rightarrow> (a, ms)
           | Some so \<Rightarrow>
               if tracked a < Nonce (data so) then (newAccount so, ms\<lparr>ms_accounts := (ms_accounts ms)(addr \<mapsto> newAccount so)\<rparr>)
               else (a, ms)))"

text \<open>
  \<^verbatim>\<open>RemoveNonce\<close>: the difference wraps around for a nonce below the tracked start, and is then larger than any length.
\<close>

definition RemoveNonce :: "Address \<Rightarrow> uint64 \<Rightarrow> ManagedState \<Rightarrow> ManagedState" where
  "RemoveNonce addr n ms =
     (if hasAccount ms addr then
        let (a, ms) = getAccount ms addr in
        if n - nstart a \<le> of_nat (length (nonces a)) then
          ms\<lparr>ms_accounts := (ms_accounts ms)(addr \<mapsto> a\<lparr>nonces := take (unat (n - nstart a)) (nonces a)\<rparr>)\<rparr>
        else ms
      else ms)"

fun first_free :: "bool list \<Rightarrow> nat \<Rightarrow> nat option" where
  "first_free [] i = None"
| "first_free (nonce # ns) i = (if \<not> nonce then Some i else first_free ns (i + 1))"

definition NewNonce :: "Address \<Rightarrow> ManagedState \<Rightarrow> uint64 \<times> ManagedState" where
  "NewNonce addr ms =
     (let (a, ms) = getAccount ms addr in
      case first_free (nonces a) 0 of
        Some i \<Rightarrow> (nstart a + of_nat i, ms)
      | None \<Rightarrow>
          let a = a\<lparr>nonces := nonces a @ [True]\<rparr> in
          (of_nat (length (nonces a) - 1) + nstart a, ms\<lparr>ms_accounts := (ms_accounts ms)(addr \<mapsto> a)\<rparr>))"

definition ms_GetNonce :: "Address \<Rightarrow> ManagedState \<Rightarrow> uint64 \<times> ManagedState" where
  "ms_GetNonce addr ms =
     (if hasAccount ms addr then let (a, ms) = getAccount ms addr in (tracked a, ms)
      else let (n, s) = GetNonce (ms_StateDB ms) addr in (n, ms\<lparr>ms_StateDB := s\<rparr>))"

definition ms_SetNonce :: "Address \<Rightarrow> uint64 \<Rightarrow> ManagedState \<Rightarrow> ManagedState" where
  "ms_SetNonce addr nonce ms =
     (let (so, s) = GetOrNewStateObject (ms_StateDB ms) addr;
          s = so_SetNonce s so nonce in
      ms\<lparr>ms_StateDB := s, ms_accounts := (ms_accounts ms)(addr \<mapsto> newAccount (setNonce so nonce))\<rparr>)"

section \<open>The nonce that was set is the nonce that is read\<close>

text \<open>
  The nonce that the pool set last for an account is the nonce it reads.
\<close>

lemma ms_GetNonce_SetNonce:
  assumes "sdb_ok (ms_StateDB ms)"
  shows "fst (ms_GetNonce addr (ms_SetNonce addr n ms)) = n"
proof -
  obtain so s where g: "GetOrNewStateObject (ms_StateDB ms) addr = (so, s)" by fastforce
  have "address so = addr" using GetOrNewStateObject_correct [OF assms g] by simp
  then show ?thesis
    by (simp add: ms_GetNonce_def ms_SetNonce_def g hasAccount_def getAccount_def newAccount_def tracked_def so_SetNonce_def
        setStateObject_def setNonce_def getStateObject_def Let_def split: option.splits)
qed

end
