(* ===== verification/Tx_Pool.thy ===== *)
theory Tx_Pool
  imports Tx_Priced Managed_State Block_Types
begin

text \<open>
  \<^verbatim>\<open>core/tx_pool.go\<close>: the transaction pool.  Every account has a strict list of executable transactions (\<open>pending\<close>) and a list
  of transactions that wait for others (\<open>queue\<close>); all of them are also in one table by hash and one heap by price.

  What a call of the pool meets in its environment is the record \<open>Env\<close>: the hash and the sender of a transaction (under the
  signer of the pool), the time, and the order in which loops visit maps.  A list that hangs in \<open>pending\<close> or
  \<open>queue\<close> is a pointer in the code; the model writes it back after every operation on it.  A panic is \<open>None\<close>, and for the two
  loops that are not bounded by a list, so is a run that does not end.

  Not modelled: events, logging and metrics, the files behind the journal (the model keeps the list of what was inserted),
  and the lock, which every exported method holds from beginning to end.
\<close>

section \<open>Data\<close>

datatype pool_err =
    ErrKnownTransaction | ErrInvalidSender | ErrNonceTooLow | ErrUnderpriced | ErrReplaceUnderpriced | ErrInsufficientFunds
  | ErrIntrinsicGas | ErrGasLimit | ErrNegativeValue | ErrOversizedData | ErrOther core_err

datatype TxStatus = TxStatusUnknown | TxStatusQueued | TxStatusPending | TxStatusIncluded

text \<open>Durations and points in time are nanoseconds.\<close>

record TxPoolConfig =
  c_Locals :: "Address list"
  c_NoLocals :: bool
  c_Journal :: string
  c_Rejournal :: int
  c_PriceLimit :: uint64
  c_PriceBump :: uint64
  c_AccountSlots :: uint64
  c_GlobalSlots :: uint64
  c_AccountQueue :: uint64
  c_GlobalQueue :: uint64
  c_Lifetime :: int

definition DefaultTxPoolConfig :: TxPoolConfig where
  "DefaultTxPoolConfig =
     \<lparr>c_Locals = [], c_NoLocals = False, c_Journal = ''transactions.rlp'', c_Rejournal = 3600 * 10 ^ 9, c_PriceLimit = 1,
      c_PriceBump = 10, c_AccountSlots = 16, c_GlobalSlots = 4096, c_AccountQueue = 64, c_GlobalQueue = 1024,
      c_Lifetime = 3 * 3600 * 10 ^ 9\<rparr>"

definition config_sanitize :: "TxPoolConfig \<Rightarrow> TxPoolConfig" where
  "config_sanitize conf =
     (let conf = (if c_Rejournal conf < 10 ^ 9 then conf\<lparr>c_Rejournal := 10 ^ 9\<rparr> else conf);
          conf = (if c_PriceLimit conf < 1 then conf\<lparr>c_PriceLimit := c_PriceLimit DefaultTxPoolConfig\<rparr> else conf);
          conf = (if c_PriceBump conf < 1 then conf\<lparr>c_PriceBump := c_PriceBump DefaultTxPoolConfig\<rparr> else conf) in
      conf)"

type_synonym accountLists = "(Address, txList) gomap"

record PoolEnv =
  e_hash :: "Transaction \<Rightarrow> Hash"
  e_sender :: "Transaction \<Rightarrow> tx_err + Address"
  e_now :: int
  e_nonces :: "uint64 range"
  e_hashes :: "Hash range"
  e_accounts :: "accountLists \<Rightarrow> Address list"
  e_dirty :: "Address list \<Rightarrow> Address list"

record TxPool =
  config :: TxPoolConfig
  gasPrice :: int
  currentState :: StateDB
  pendingState :: ManagedState
  currentMaxGas :: uint64
  locals :: accountSet
  pool_journal :: "Transaction list option"
  pending :: accountLists
  queue :: accountLists
  beats :: "Address \<rightharpoonup> int"
  pool_all :: txLookup
  priced :: txPricedList
  homestead :: bool

text \<open>\<^verbatim>\<open>from, _ := types.Sender(pool.signer, tx)\<close>: with an error the address is zero.\<close>

definition from_of :: "PoolEnv \<Rightarrow> Transaction \<Rightarrow> Address" where
  "from_of e tx = (case e_sender e tx of Inr a \<Rightarrow> a | Inl _ \<Rightarrow> 0)"

definition is_local :: "PoolEnv \<Rightarrow> TxPool \<Rightarrow> Transaction \<Rightarrow> bool" where
  "is_local e p tx = (case e_sender e tx of Inr addr \<Rightarrow> as_contains (locals p) addr | Inl _ \<Rightarrow> False)"

section \<open>Steps shared by the operations\<close>

definition priced_Removed :: "PoolEnv \<Rightarrow> TxPool \<Rightarrow> TxPool" where
  "priced_Removed e p = p\<lparr>priced := pl_Removed (e_hashes e) (pool_all p) (priced p)\<rparr>"

text \<open>\<^verbatim>\<open>pool.all.Remove(hash); pool.priced.Removed()\<close>.\<close>

definition forget :: "PoolEnv \<Rightarrow> Hash \<Rightarrow> TxPool \<Rightarrow> TxPool" where
  "forget e h p = priced_Removed e (p\<lparr>pool_all := txLookup_Remove h (pool_all p)\<rparr>)"

text \<open>\<^verbatim>\<open>if pool.all.Get(hash) == nil { pool.all.Add(tx); pool.priced.Put(tx) }\<close>.\<close>

definition remember :: "PoolEnv \<Rightarrow> Hash \<Rightarrow> Transaction \<Rightarrow> TxPool \<Rightarrow> TxPool" where
  "remember e h tx p =
     (if txLookup_Get (pool_all p) h = None then
        p\<lparr>pool_all := txLookup_Add (e_hash e) tx (pool_all p), priced := pl_Put tx (priced p)\<rparr>
      else p)"

text \<open>A loop that forgets the transactions of a list; a nil pointer in the list panics.\<close>

fun forget_all :: "PoolEnv \<Rightarrow> Transaction option list \<Rightarrow> TxPool \<Rightarrow> TxPool option" where
  "forget_all e [] p = Some p"
| "forget_all e (None # txs) p = None"
| "forget_all e (Some tx # txs) p = forget_all e txs (forget e (e_hash e tx) p)"

definition state_nonce :: "Address \<Rightarrow> TxPool \<Rightarrow> uint64 \<times> TxPool" where
  "state_nonce addr p = (let (n, s) = GetNonce (currentState p) addr in (n, p\<lparr>currentState := s\<rparr>))"

definition state_balance :: "Address \<Rightarrow> TxPool \<Rightarrow> int \<times> TxPool" where
  "state_balance addr p = (let (n, s) = GetBalance (currentState p) addr in (n, p\<lparr>currentState := s\<rparr>))"

definition pending_nonce :: "Address \<Rightarrow> TxPool \<Rightarrow> uint64 \<times> TxPool" where
  "pending_nonce addr p = (let (n, s) = ms_GetNonce addr (pendingState p) in (n, p\<lparr>pendingState := s\<rparr>))"

definition set_pending_nonce :: "Address \<Rightarrow> uint64 \<Rightarrow> TxPool \<Rightarrow> TxPool" where
  "set_pending_nonce addr n p = p\<lparr>pendingState := ms_SetNonce addr n (pendingState p)\<rparr>"

text \<open>\<^verbatim>\<open>if nonce := tx.Nonce(); pool.pendingState.GetNonce(addr) > nonce { pool.pendingState.SetNonce(addr, nonce) }\<close>.\<close>

definition lower_pending_nonce :: "Address \<Rightarrow> uint64 \<Rightarrow> TxPool \<Rightarrow> TxPool" where
  "lower_pending_nonce addr nonce p =
     (let (n, p) = pending_nonce addr p in if nonce < n then set_pending_nonce addr nonce p else p)"

definition put_pending :: "Address \<Rightarrow> txList \<Rightarrow> TxPool \<Rightarrow> TxPool" where
  "put_pending addr l p = p\<lparr>pending := AList.update addr l (pending p)\<rparr>"

definition put_queue :: "Address \<Rightarrow> txList \<Rightarrow> TxPool \<Rightarrow> TxPool" where
  "put_queue addr l p = p\<lparr>queue := AList.update addr l (queue p)\<rparr>"

definition delete_pending :: "Address \<Rightarrow> TxPool \<Rightarrow> TxPool" where
  "delete_pending addr p = p\<lparr>pending := AList.delete addr (pending p), beats := (beats p)(addr := None)\<rparr>"

definition delete_queue :: "Address \<Rightarrow> TxPool \<Rightarrow> TxPool" where
  "delete_queue addr p = p\<lparr>queue := AList.delete addr (queue p)\<rparr>"

section \<open>Validation\<close>

text \<open>\<^verbatim>\<open>tx.Size()\<close>: the bytes that the encoder writes.\<close>

definition tx_Size :: "Transaction \<Rightarrow> nat" where
  "tx_Size tx = (case EncodeToBytes (tx_rlp tx) of Some (Inr b) \<Rightarrow> length b | _ \<Rightarrow> 0)"

definition validateTx :: "PoolEnv \<Rightarrow> Transaction \<Rightarrow> bool \<Rightarrow> TxPool \<Rightarrow> pool_err option \<times> TxPool" where
  "validateTx e tx loc p =
     (if 32 * 1024 < tx_Size tx then (Some ErrOversizedData, p)
      else if Amount tx < 0 then (Some ErrNegativeValue, p)
      else if currentMaxGas p < tx_GasLimit tx then (Some ErrGasLimit, p)
      else case e_sender e tx of
        Inl _ \<Rightarrow> (Some ErrInvalidSender, p)
      | Inr from \<Rightarrow>
          let loc = (loc \<or> as_contains (locals p) from) in
          if \<not> loc \<and> Price tx < gasPrice p then (Some ErrUnderpriced, p)
          else let (nonce, p) = state_nonce from p in
          if AccountNonce tx < nonce then (Some ErrNonceTooLow, p)
          else let (balance, p) = state_balance from p in
          if balance < Cost tx then (Some ErrInsufficientFunds, p)
          else case IntrinsicGas (Payload tx) (Recipient tx = None) (homestead p) of
            Inl err \<Rightarrow> (Some (ErrOther err), p)
          | Inr intrGas \<Rightarrow> if tx_GasLimit tx < intrGas then (Some ErrIntrinsicGas, p) else (None, p))"

section \<open>Moving transactions\<close>

definition enqueueTx :: "PoolEnv \<Rightarrow> Hash \<Rightarrow> Transaction \<Rightarrow> TxPool \<Rightarrow> (bool \<times> pool_err option) \<times> TxPool" where
  "enqueueTx e h tx p =
     (let from = from_of e tx;
          l = (case map_of (queue p) from of None \<Rightarrow> newTxList False | Some l \<Rightarrow> l);
          ((inserted, old), l) = txList_Add tx (c_PriceBump (config p)) l;
          p = put_queue from l p in
      if \<not> inserted then ((False, Some ErrReplaceUnderpriced), p)
      else
        let p = (case old of None \<Rightarrow> p | Some old \<Rightarrow> forget e (e_hash e old) p);
            p = remember e h tx p in
        ((old \<noteq> None, None), p))"

fun enqueue_all :: "PoolEnv \<Rightarrow> Transaction option list \<Rightarrow> TxPool \<Rightarrow> TxPool option" where
  "enqueue_all e [] p = Some p"
| "enqueue_all e (None # txs) p = None"
| "enqueue_all e (Some tx # txs) p = enqueue_all e txs (snd (enqueueTx e (e_hash e tx) tx p))"

definition journalTx :: "Address \<Rightarrow> Transaction \<Rightarrow> TxPool \<Rightarrow> TxPool" where
  "journalTx from tx p =
     (case pool_journal p of
        None \<Rightarrow> p
      | Some j \<Rightarrow> if \<not> as_contains (locals p) from then p else p\<lparr>pool_journal := Some (j @ [tx])\<rparr>)"

definition promoteTx :: "PoolEnv \<Rightarrow> Address \<Rightarrow> Hash \<Rightarrow> Transaction \<Rightarrow> TxPool \<Rightarrow> bool \<times> TxPool" where
  "promoteTx e addr h tx p =
     (let l = (case map_of (pending p) addr of None \<Rightarrow> newTxList True | Some l \<Rightarrow> l);
          ((inserted, old), l) = txList_Add tx (c_PriceBump (config p)) l;
          p = put_pending addr l p in
      if \<not> inserted then (False, forget e h p)
      else
        let p = (case old of None \<Rightarrow> p | Some old \<Rightarrow> forget e (e_hash e old) p);
            p = remember e h tx p;
            p = p\<lparr>beats := (beats p)(addr \<mapsto> e_now e)\<rparr> in
        (True, set_pending_nonce addr (AccountNonce tx + 1) p))"

fun promote_all :: "PoolEnv \<Rightarrow> Address \<Rightarrow> Transaction option list \<Rightarrow> TxPool \<Rightarrow> TxPool option" where
  "promote_all e addr [] p = Some p"
| "promote_all e addr (None # txs) p = None"
| "promote_all e addr (Some tx # txs) p = promote_all e addr txs (snd (promoteTx e addr (e_hash e tx) tx p))"

text \<open>The last part of \<^verbatim>\<open>removeTx\<close>: the transaction is in the future queue.\<close>

definition remove_future :: "PoolEnv \<Rightarrow> Address \<Rightarrow> Transaction \<Rightarrow> TxPool \<Rightarrow> TxPool option" where
  "remove_future e addr tx p =
     (case map_of (queue p) addr of
        None \<Rightarrow> Some p
      | Some future \<Rightarrow>
          do {
            (_, future) \<leftarrow> txList_Remove (e_nonces e) tx future;
            let p = put_queue addr future p;
            Some (if txList_Empty future then delete_queue addr p else p)
          })"

definition removeTx :: "PoolEnv \<Rightarrow> Hash \<Rightarrow> bool \<Rightarrow> TxPool \<Rightarrow> TxPool option" where
  "removeTx e h outofbound p =
     (case txLookup_Get (pool_all p) h of
        None \<Rightarrow> Some p
      | Some tx \<Rightarrow>
          let addr = from_of e tx;
              p = p\<lparr>pool_all := txLookup_Remove h (pool_all p)\<rparr>;
              p = (if outofbound then priced_Removed e p else p) in
          case map_of (pending p) addr of
            None \<Rightarrow> remove_future e addr tx p
          | Some pnd \<Rightarrow>
              do {
                ((removed, invalids), pnd) \<leftarrow> txList_Remove (e_nonces e) tx pnd;
                let p = put_pending addr pnd p;
                if removed then
                  do {
                    let p = (if txList_Empty pnd then delete_pending addr p else p);
                    p \<leftarrow> enqueue_all e (map Some invalids) p;
                    Some (lower_pending_nonce addr (AccountNonce tx) p)
                  }
                else remove_future e addr tx p
              })"

fun remove_all :: "PoolEnv \<Rightarrow> bool \<Rightarrow> Transaction list \<Rightarrow> TxPool \<Rightarrow> TxPool option" where
  "remove_all e outofbound [] p = Some p"
| "remove_all e outofbound (tx # txs) p = do { p \<leftarrow> removeTx e (e_hash e tx) outofbound p; remove_all e outofbound txs p }"


section \<open>Promotion\<close>

text \<open>The body of the loop over the accounts of \<^verbatim>\<open>promoteExecutables\<close>.\<close>

definition promote_account :: "PoolEnv \<Rightarrow> Address \<Rightarrow> TxPool \<Rightarrow> TxPool option" where
  "promote_account e addr p =
     (case map_of (queue p) addr of
        None \<Rightarrow> Some p
      | Some l \<Rightarrow>
          do {
            let (nonce, p) = state_nonce addr p;
            (old, l) \<leftarrow> txList_Forward nonce l;
            p \<leftarrow> forget_all e old (put_queue addr l p);
            let (balance, p) = state_balance addr p;
            let ((drops, _), l) = txList_Filter (e_nonces e) (e_nonces e) balance (currentMaxGas p) l;
            p \<leftarrow> forget_all e (map Some drops) (put_queue addr l p);
            let (nonce, p) = pending_nonce addr p;
            (ready, l) \<leftarrow> txList_Ready nonce l;
            p \<leftarrow> promote_all e addr ready (put_queue addr l p);
            (l, p) \<leftarrow> (if \<not> as_contains (locals p) addr then
                         do {
                           (drops, l) \<leftarrow> txList_Cap (sint (c_AccountQueue (config p))) l;
                           p \<leftarrow> forget_all e drops (put_queue addr l p);
                           Some (l, p)
                         }
                       else Some (l, p));
            Some (if txList_Empty l then delete_queue addr p else p)
          })"

fun promote_accounts :: "PoolEnv \<Rightarrow> Address list \<Rightarrow> TxPool \<Rightarrow> TxPool option" where
  "promote_accounts e [] p = Some p"
| "promote_accounts e (addr # addrs) p = do { p \<leftarrow> promote_account e addr p; promote_accounts e addrs p }"

text \<open>The number of transactions in a map of lists.\<close>

definition total_len :: "accountLists \<Rightarrow> uint64" where
  "total_len m = sum_list (map (\<lambda>(_, l). of_nat (txList_Len l)) m)"

text \<open>
  The priority queue of \<^verbatim>\<open>common/prque\<close> is a heap in which the highest priority comes first.  \<^verbatim>\<open>Less\<close> tests the sign of a
  64-bit difference; the priorities here are lengths, whose difference does not overflow.
\<close>

definition prque_less :: "Address \<times> nat \<Rightarrow> Address \<times> nat \<Rightarrow> bool" where
  "prque_less a b = (int (snd a) - int (snd b) > 0)"

interpretation prque: heap_order prque_less
  by unfold_locales (auto simp: prque_less_def)

fun spam_order :: "TxPool \<Rightarrow> accountLists \<Rightarrow> Address list \<Rightarrow> (Address \<times> nat) list \<Rightarrow> (Address \<times> nat) list" where
  "spam_order p m [] spammers = spammers"
| "spam_order p m (addr # addrs) spammers =
     (case map_of m addr of
        None \<Rightarrow> spam_order p m addrs spammers
      | Some l \<Rightarrow>
          spam_order p m addrs
            (if \<not> as_contains (locals p) addr \<and> c_AccountSlots (config p) < of_nat (txList_Len l)
             then heap_Push prque_less spammers (addr, txList_Len l) else spammers))"

text \<open>The loop that drops what \<^verbatim>\<open>list.Cap(list.Len() - 1)\<close> returned and lowers the tracked nonce.\<close>

fun drop_capped :: "PoolEnv \<Rightarrow> Address \<Rightarrow> Transaction option list \<Rightarrow> TxPool \<Rightarrow> TxPool option" where
  "drop_capped e addr [] p = Some p"
| "drop_capped e addr (None # txs) p = None"
| "drop_capped e addr (Some tx # txs) p =
     drop_capped e addr txs (lower_pending_nonce addr (AccountNonce tx) (forget e (e_hash e tx) p))"

fun cap_each :: "PoolEnv \<Rightarrow> Address list \<Rightarrow> uint64 \<Rightarrow> TxPool \<Rightarrow> (uint64 \<times> TxPool) option" where
  "cap_each e [] cnt p = Some (cnt, p)"
| "cap_each e (addr # addrs) cnt p =
     do {
       l \<leftarrow> map_of (pending p) addr;
       (drops, l) \<leftarrow> txList_Cap (int (txList_Len l) - 1) l;
       p \<leftarrow> drop_capped e addr drops (put_pending addr l p);
       cap_each e addrs (cnt - 1) p
     }"

text \<open>
  Both equalising loops: as long as there are too many transactions and the list of the last offender is still too long,
  take one transaction from every offender.
\<close>

partial_function (option) reduce_loop :: "PoolEnv \<Rightarrow> Address list \<Rightarrow> Address \<Rightarrow> (nat \<Rightarrow> bool) \<Rightarrow> uint64 \<Rightarrow> TxPool \<Rightarrow> (uint64 \<times> TxPool) option" where
  "reduce_loop e offenders ref too_long cnt p =
     (if c_GlobalSlots (config p) < cnt then
        do {
          l \<leftarrow> map_of (pending p) ref;
          if too_long (txList_Len l) then
            do { (cnt, p) \<leftarrow> cap_each e offenders cnt p; reduce_loop e offenders ref too_long cnt p }
          else Some (cnt, p)
        }
      else Some (cnt, p))"

function offender_loop :: "PoolEnv \<Rightarrow> (Address \<times> nat) list \<Rightarrow> Address list \<Rightarrow> uint64 \<Rightarrow> TxPool \<Rightarrow> (Address list \<times> uint64 \<times> TxPool) option" where
  "offender_loop e spammers offenders cnt p =
     (if c_GlobalSlots (config p) < cnt \<and> spammers \<noteq> [] then
        case heap_Pop prque_less spammers of
          None \<Rightarrow> None
        | Some ((offender, _), spammers) \<Rightarrow>
            if offenders \<noteq> [] then
              do {
                l \<leftarrow> map_of (pending p) offender;
                (cnt, p) \<leftarrow> reduce_loop e offenders (last offenders) (\<lambda>len. txList_Len l < len) cnt p;
                offender_loop e spammers (offenders @ [offender]) cnt p
              }
            else offender_loop e spammers (offenders @ [offender]) cnt p
      else Some (offenders, cnt, p))"
  by auto
termination by (relation "measure (\<lambda>(e, spammers, offenders, cnt, p). length spammers)") (auto dest: heap_Pop_length)

definition limit_pending :: "PoolEnv \<Rightarrow> TxPool \<Rightarrow> TxPool option" where
  "limit_pending e p =
     (let cnt = total_len (pending p) in
      if c_GlobalSlots (config p) < cnt then
        do {
          let spammers = spam_order p (pending p) (e_accounts e (pending p)) [];
          (offenders, cnt, p) \<leftarrow> offender_loop e spammers [] cnt p;
          if c_GlobalSlots (config p) < cnt \<and> offenders \<noteq> [] then
            map_option snd (reduce_loop e offenders (last offenders) (\<lambda>len. c_AccountSlots (config p) < of_nat len) cnt p)
          else Some p
        }
      else Some p)"

text \<open>Go's zero time, the heartbeat of an account that has none.\<close>

definition zero_time :: int where
  "zero_time = - 62135596800 * 10 ^ 9"

definition beat :: "TxPool \<Rightarrow> Address \<Rightarrow> int" where
  "beat p addr = (case beats p addr of None \<Rightarrow> zero_time | Some t \<Rightarrow> t)"

text \<open>The loop over the accounts from the last one on.\<close>

fun drop_queued :: "PoolEnv \<Rightarrow> uint64 \<Rightarrow> Address list \<Rightarrow> TxPool \<Rightarrow> TxPool option" where
  "drop_queued e drp [] p = Some p"
| "drop_queued e drp (addr # addrs) p =
     (if drp = 0 then Some p
      else do {
        l \<leftarrow> map_of (queue p) addr;
        let sz = of_nat (txList_Len l);
        let (txs, l) = txList_Flatten (e_nonces e) l;
        let p = put_queue addr l p;
        if sz \<le> drp then
          do { p \<leftarrow> remove_all e True txs p; drop_queued e (drp - sz) addrs p }
        else
          do { p \<leftarrow> remove_all e True (take (unat drp) (rev txs)) p;
               drop_queued e (drp - of_nat (length (take (unat drp) (rev txs)))) addrs p }
      })"

definition limit_queue :: "PoolEnv \<Rightarrow> TxPool \<Rightarrow> TxPool option" where
  "limit_queue e p =
     (let queued = total_len (queue p) in
      if c_GlobalQueue (config p) < queued then
        let addresses = filter (\<lambda>addr. \<not> as_contains (locals p) addr) (e_accounts e (queue p));
            addresses = sort_key (beat p) addresses in
        drop_queued e (queued - c_GlobalQueue (config p)) (rev addresses) p
      else Some p)"

definition promoteExecutables :: "PoolEnv \<Rightarrow> Address list option \<Rightarrow> TxPool \<Rightarrow> TxPool option" where
  "promoteExecutables e accounts p =
     do {
       let accounts = (case accounts of None \<Rightarrow> e_accounts e (queue p) | Some as \<Rightarrow> as);
       p \<leftarrow> promote_accounts e accounts p;
       p \<leftarrow> limit_pending e p;
       limit_queue e p
     }"

declare offender_loop.simps [simp del] reduce_loop.simps [code]

section \<open>Demotion\<close>

text \<open>The body of the loop of \<^verbatim>\<open>demoteUnexecutables\<close>.\<close>

definition demote_account :: "PoolEnv \<Rightarrow> Address \<Rightarrow> TxPool \<Rightarrow> TxPool option" where
  "demote_account e addr p =
     (case map_of (pending p) addr of
        None \<Rightarrow> Some p
      | Some l \<Rightarrow>
          do {
            let (nonce, p) = state_nonce addr p;
            (old, l) \<leftarrow> txList_Forward nonce l;
            p \<leftarrow> forget_all e old (put_pending addr l p);
            let (balance, p) = state_balance addr p;
            let ((drops, invalids), l) = txList_Filter (e_nonces e) (e_nonces e) balance (currentMaxGas p) l;
            p \<leftarrow> forget_all e (map Some drops) (put_pending addr l p);
            p \<leftarrow> enqueue_all e (map Some invalids) p;
            (l, p) \<leftarrow> (if 0 < txList_Len l \<and> sm_Get (l_txs l) nonce = None then
                         do {
                           (capped, l) \<leftarrow> txList_Cap 0 l;
                           p \<leftarrow> enqueue_all e capped (put_pending addr l p);
                           Some (l, p)
                         }
                       else Some (l, p));
            Some (if txList_Empty l then delete_pending addr p else p)
          })"

fun demote_accounts :: "PoolEnv \<Rightarrow> Address list \<Rightarrow> TxPool \<Rightarrow> TxPool option" where
  "demote_accounts e [] p = Some p"
| "demote_accounts e (addr # addrs) p = do { p \<leftarrow> demote_account e addr p; demote_accounts e addrs p }"

definition demoteUnexecutables :: "PoolEnv \<Rightarrow> TxPool \<Rightarrow> TxPool option" where
  "demoteUnexecutables e p = demote_accounts e (e_accounts e (pending p)) p"


section \<open>Adding transactions\<close>

text \<open>Making room in a full pool: an error, or the pool without the transactions that were discarded.\<close>

definition make_room :: "PoolEnv \<Rightarrow> Transaction \<Rightarrow> bool \<Rightarrow> TxPool \<Rightarrow> (pool_err option \<times> TxPool) option" where
  "make_room e tx loc p =
     (let slots = c_GlobalSlots (config p) + c_GlobalQueue (config p) in
      if slots \<le> of_nat (txLookup_Count (pool_all p)) then
        do {
          (underpriced, p) \<leftarrow>
            (if loc then Some (False, p)
             else do {
               (u, l) \<leftarrow> pl_Underpriced (e_hash e) (pool_all p) (is_local e p) tx (priced p);
               Some (u, p\<lparr>priced := l\<rparr>)
             });
          if underpriced then Some (Some ErrUnderpriced, p)
          else do {
            (drp, l) \<leftarrow> pl_Discard (e_hash e) (pool_all p) (is_local e p)
                          (int (txLookup_Count (pool_all p)) - sint (slots - 1)) (priced p);
            p \<leftarrow> remove_all e False drp (p\<lparr>priced := l\<rparr>);
            Some (None, p)
          }
        }
      else Some (None, p))"

text \<open>The transaction replaces a pending one: \<^verbatim>\<open>list.Overlaps(tx)\<close> holds for the list \<open>l\<close> of its sender.\<close>

definition replace_pending :: "PoolEnv \<Rightarrow> Transaction \<Rightarrow> Address \<Rightarrow> txList \<Rightarrow> TxPool \<Rightarrow> (bool \<times> pool_err option) \<times> TxPool" where
  "replace_pending e tx from l p =
     (let ((inserted, old), l) = txList_Add tx (c_PriceBump (config p)) l;
          p = put_pending from l p in
      if \<not> inserted then ((False, Some ErrReplaceUnderpriced), p)
      else
        let p = (case old of None \<Rightarrow> p | Some old \<Rightarrow> forget e (e_hash e old) p);
            p = p\<lparr>pool_all := txLookup_Add (e_hash e) tx (pool_all p), priced := pl_Put tx (priced p)\<rparr> in
        ((old \<noteq> None, None), journalTx from tx p))"

definition pool_add :: "PoolEnv \<Rightarrow> Transaction \<Rightarrow> bool \<Rightarrow> TxPool \<Rightarrow> ((bool \<times> pool_err option) \<times> TxPool) option" where
  "pool_add e tx loc p =
     (let h = e_hash e tx in
      if txLookup_Get (pool_all p) h \<noteq> None then Some ((False, Some ErrKnownTransaction), p)
      else let (err, p) = validateTx e tx loc p in
      if err \<noteq> None then Some ((False, err), p)
      else do {
        (err, p) \<leftarrow> make_room e tx loc p;
        if err \<noteq> None then Some ((False, err), p)
        else let from = from_of e tx in
        case (case map_of (pending p) from of None \<Rightarrow> None | Some l \<Rightarrow> if txList_Overlaps l tx then Some l else None) of
          Some l \<Rightarrow> Some (replace_pending e tx from l p)
        | None \<Rightarrow>
            let ((replace, err), p) = enqueueTx e h tx p in
            if err \<noteq> None then Some ((False, err), p)
            else
              let p = (if loc \<and> \<not> as_contains (locals p) from then p\<lparr>locals := as_add from (locals p)\<rparr> else p) in
              Some ((replace, None), journalTx from tx p)
      })"

definition addTx :: "PoolEnv \<Rightarrow> Transaction \<Rightarrow> bool \<Rightarrow> TxPool \<Rightarrow> (pool_err option \<times> TxPool) option" where
  "addTx e tx loc p =
     do {
       ((replace, err), p) \<leftarrow> pool_add e tx loc p;
       if err \<noteq> None then Some (err, p)
       else if \<not> replace then map_option (Pair None) (promoteExecutables e (Some [from_of e tx]) p)
       else Some (None, p)
     }"

definition AddLocal :: "PoolEnv \<Rightarrow> Transaction \<Rightarrow> TxPool \<Rightarrow> (pool_err option \<times> TxPool) option" where
  "AddLocal e tx p = addTx e tx (\<not> c_NoLocals (config p)) p"

definition AddRemote :: "PoolEnv \<Rightarrow> Transaction \<Rightarrow> TxPool \<Rightarrow> (pool_err option \<times> TxPool) option" where
  "AddRemote e tx p = addTx e tx False p"

fun add_loop :: "PoolEnv \<Rightarrow> bool \<Rightarrow> Transaction list \<Rightarrow> Address list \<Rightarrow> TxPool \<Rightarrow> (pool_err option list \<times> Address list \<times> TxPool) option" where
  "add_loop e loc [] dirty p = Some ([], dirty, p)"
| "add_loop e loc (tx # txs) dirty p =
     do {
       ((replace, err), p) \<leftarrow> pool_add e tx loc p;
       let dirty = (if err = None \<and> \<not> replace then List.insert (from_of e tx) dirty else dirty);
       (errs, dirty, p) \<leftarrow> add_loop e loc txs dirty p;
       Some (err # errs, dirty, p)
     }"

definition addTxsLocked :: "PoolEnv \<Rightarrow> Transaction list \<Rightarrow> bool \<Rightarrow> TxPool \<Rightarrow> (pool_err option list \<times> TxPool) option" where
  "addTxsLocked e txs loc p =
     do {
       (errs, dirty, p) \<leftarrow> add_loop e loc txs [] p;
       if dirty \<noteq> [] then map_option (Pair errs) (promoteExecutables e (Some (e_dirty e dirty)) p)
       else Some (errs, p)
     }"

definition AddLocals :: "PoolEnv \<Rightarrow> Transaction list \<Rightarrow> TxPool \<Rightarrow> (pool_err option list \<times> TxPool) option" where
  "AddLocals e txs p = addTxsLocked e txs (\<not> c_NoLocals (config p)) p"

definition AddRemotes :: "PoolEnv \<Rightarrow> Transaction list \<Rightarrow> TxPool \<Rightarrow> (pool_err option list \<times> TxPool) option" where
  "AddRemotes e txs p = addTxsLocked e txs False p"

section \<open>Price, eviction and a new head\<close>

definition SetGasPrice :: "PoolEnv \<Rightarrow> int \<Rightarrow> TxPool \<Rightarrow> TxPool option" where
  "SetGasPrice e newPrice p =
     do {
       let p = p\<lparr>gasPrice := newPrice\<rparr>;
       (drp, l) \<leftarrow> pl_Cap (e_hash e) (pool_all p) (is_local e p) newPrice (priced p);
       remove_all e False drp (p\<lparr>priced := l\<rparr>)
     }"

text \<open>\<^verbatim>\<open>time.Since\<close> saturates at the largest duration.\<close>

definition time_Since :: "PoolEnv \<Rightarrow> int \<Rightarrow> int" where
  "time_Since e t = min (e_now e - t) (2 ^ 63 - 1)"

fun evict_loop :: "PoolEnv \<Rightarrow> Address list \<Rightarrow> TxPool \<Rightarrow> TxPool option" where
  "evict_loop e [] p = Some p"
| "evict_loop e (addr # addrs) p =
     (case map_of (queue p) addr of
        None \<Rightarrow> evict_loop e addrs p
      | Some l \<Rightarrow>
          if as_contains (locals p) addr then evict_loop e addrs p
          else if c_Lifetime (config p) < time_Since e (beat p addr) then
            do {
              let (txs, l) = txList_Flatten (e_nonces e) l;
              p \<leftarrow> remove_all e True txs (put_queue addr l p);
              evict_loop e addrs p
            }
          else evict_loop e addrs p)"

definition evict :: "PoolEnv \<Rightarrow> TxPool \<Rightarrow> TxPool option" where
  "evict e p = evict_loop e (e_accounts e (queue p)) p"

fun nonces_loop :: "PoolEnv \<Rightarrow> Address list \<Rightarrow> TxPool \<Rightarrow> TxPool option" where
  "nonces_loop e [] p = Some p"
| "nonces_loop e (addr # addrs) p =
     (case map_of (pending p) addr of
        None \<Rightarrow> nonces_loop e addrs p
      | Some l \<Rightarrow>
          let (txs, l) = txList_Flatten (e_nonces e) l in
          if txs = [] then None
          else nonces_loop e addrs (set_pending_nonce addr (AccountNonce (last txs) + 1) (put_pending addr l p)))"

text \<open>A block as the pool sees it, and the chain it asks.\<close>

record PoolBlock =
  pb_header :: Header
  pb_txs :: "Transaction list"

record PoolChain =
  pc_GetBlock :: "Hash \<Rightarrow> uint64 \<Rightarrow> PoolBlock option"
  pc_StateAt :: "Hash \<Rightarrow> StateDB option"
  pc_keccak :: "bytes \<Rightarrow> Hash"

definition pb_number :: "PoolBlock \<Rightarrow> uint64" where
  "pb_number b = Uint64 (h_Number (pb_header b))"

definition pb_parent :: "PoolChain \<Rightarrow> PoolBlock \<Rightarrow> PoolBlock option" where
  "pb_parent c b = pc_GetBlock c (h_ParentHash (pb_header b)) (pb_number b - 1)"

text \<open>
  The three loops over the two branches.  The inner option is the return of \<^verbatim>\<open>reset\<close> at a branch without root; the
  outer \<open>None\<close> is a run that does not end.
\<close>

partial_function (option) unwind :: "PoolChain \<Rightarrow> (PoolBlock \<Rightarrow> bool) \<Rightarrow> PoolBlock \<Rightarrow> Transaction list \<Rightarrow> (PoolBlock \<times> Transaction list) option option" where
  "unwind c go_on b txs =
     (if go_on b then
        case pb_parent c b of
          None \<Rightarrow> Some None
        | Some b' \<Rightarrow> unwind c go_on b' (txs @ pb_txs b)
      else Some (Some (b, txs)))"

partial_function (option) unwind_both :: "PoolChain \<Rightarrow> PoolBlock \<Rightarrow> PoolBlock \<Rightarrow> Transaction list \<Rightarrow> Transaction list \<Rightarrow> (Transaction list \<times> Transaction list) option option" where
  "unwind_both c rem add dropped included =
     (if Header_Hash (pc_keccak c) (pb_header rem) \<noteq> Header_Hash (pc_keccak c) (pb_header add) then
        case pb_parent c rem of
          None \<Rightarrow> Some None
        | Some rem' \<Rightarrow>
            (case pb_parent c add of
               None \<Rightarrow> Some None
             | Some add' \<Rightarrow> unwind_both c rem' add' (dropped @ pb_txs rem) (included @ pb_txs add))
      else Some (Some (dropped, included)))"

declare unwind.simps [code] unwind_both.simps [code]

text \<open>
  The transactions to reinject.  The depth of the reorganisation is computed in floating point, which is exact for block
  numbers below \<open>2 ^ 53\<close>.  A head block that the chain does not have is a nil pointer.
\<close>

definition reinject_of :: "PoolChain \<Rightarrow> Header option \<Rightarrow> Header \<Rightarrow> Transaction list option option" where
  "reinject_of c oldHead newHead =
     (case oldHead of
        None \<Rightarrow> Some (Some [])
      | Some oldHead \<Rightarrow>
          if Header_Hash (pc_keccak c) oldHead = h_ParentHash newHead then Some (Some [])
          else if 64 < \<bar>uint (Uint64 (h_Number oldHead)) - uint (Uint64 (h_Number newHead))\<bar> then Some (Some [])
          else do {
            rem \<leftarrow> pc_GetBlock c (Header_Hash (pc_keccak c) oldHead) (Uint64 (h_Number oldHead));
            add \<leftarrow> pc_GetBlock c (Header_Hash (pc_keccak c) newHead) (Uint64 (h_Number newHead));
            r \<leftarrow> unwind c (\<lambda>b. pb_number add < pb_number b) rem [];
            case r of
              None \<Rightarrow> Some None
            | Some (rem, dropped) \<Rightarrow>
                do {
                  r \<leftarrow> unwind c (\<lambda>b. pb_number rem < pb_number b) add [];
                  case r of
                    None \<Rightarrow> Some None
                  | Some (add, included) \<Rightarrow>
                      do {
                        r \<leftarrow> unwind_both c rem add dropped included;
                        Some (map_option (\<lambda>(dropped, included). TxDifference (pc_keccak c) dropped included) r)
                      }
                }
          })"

text \<open>
  \<^verbatim>\<open>reset\<close> with a new head; \<open>dirty\<close> lists the dirty accounts of the new state, which is a fresh one without any.
\<close>

definition reset :: "PoolEnv \<Rightarrow> PoolChain \<Rightarrow> Header option \<Rightarrow> Header \<Rightarrow> TxPool \<Rightarrow> TxPool option" where
  "reset e c oldHead newHead p =
     do {
       r \<leftarrow> reinject_of c oldHead newHead;
       case r of
         None \<Rightarrow> Some p
       | Some reinject \<Rightarrow>
           (case pc_StateAt c (h_Root newHead) of
              None \<Rightarrow> Some p
            | Some st \<Rightarrow>
                do {
                  ms \<leftarrow> ManageState [] st;
                  let p = p\<lparr>currentState := st, pendingState := ms, currentMaxGas := h_GasLimit newHead\<rparr>;
                  (_, p) \<leftarrow> addTxsLocked e reinject False p;
                  p \<leftarrow> demoteUnexecutables e p;
                  p \<leftarrow> nonces_loop e (e_accounts e (pending p)) p;
                  promoteExecutables e None p
                })
     }"

text \<open>
  The case \<^verbatim>\<open>ev := <-pool.chainHeadCh\<close> of the event loop: the head that the loop remembers, and the pool.
\<close>

definition handle_head :: "PoolEnv \<Rightarrow> PoolChain \<Rightarrow> ChainConfig \<Rightarrow> Header \<Rightarrow> Header \<Rightarrow> TxPool \<Rightarrow> (Header \<times> TxPool) option" where
  "handle_head e c chainconfig head newHead p =
     (let p = (if IsHomestead chainconfig (h_Number newHead) then p\<lparr>homestead := True\<rparr> else p) in
      map_option (Pair newHead) (reset e c (Some head) newHead p))"

text \<open>
  \<^verbatim>\<open>NewTxPool\<close> up to the journal; \<open>st\<close> is what the two state pointers, nil in the code, hold before \<^verbatim>\<open>reset\<close> sets them.
\<close>

definition emptyTxPool :: "TxPoolConfig \<Rightarrow> ChainConfig \<Rightarrow> StateDB \<Rightarrow> TxPool" where
  "emptyTxPool conf chainconfig st =
     (let conf = config_sanitize conf; signer = NewEIP155Signer (ChainID chainconfig) in
      \<lparr>config = conf, gasPrice = uint (c_PriceLimit conf), currentState = st,
       pendingState = \<lparr>ms_StateDB = st, ms_accounts = Map.empty\<rparr>, currentMaxGas = 0,
       locals = foldl (\<lambda>s addr. as_add addr s) (newAccountSet signer) (c_Locals conf), pool_journal = None, pending = [], queue = [],
       beats = Map.empty, pool_all = newTxLookup, priced = newTxPricedList, homestead = False\<rparr>)"

definition NewTxPool :: "PoolEnv \<Rightarrow> PoolChain \<Rightarrow> TxPoolConfig \<Rightarrow> ChainConfig \<Rightarrow> StateDB \<Rightarrow> Header \<Rightarrow> TxPool option" where
  "NewTxPool e c conf chainconfig st head = reset e c None head (emptyTxPool conf chainconfig st)"

section \<open>Queries\<close>

text \<open>\<^verbatim>\<open>Flatten\<close> on every list of a map, with the caches it leaves behind.\<close>

fun flatten_lists :: "PoolEnv \<Rightarrow> Address list \<Rightarrow> accountLists \<Rightarrow> (Address, Transaction list) gomap \<times> accountLists" where
  "flatten_lists e [] m = ([], m)"
| "flatten_lists e (addr # addrs) m =
     (case map_of m addr of
        None \<Rightarrow> flatten_lists e addrs m
      | Some l \<Rightarrow>
          let (txs, l) = txList_Flatten (e_nonces e) l;
              (r, m) = flatten_lists e addrs (AList.update addr l m) in
          ((addr, txs) # r, m))"

definition Content :: "PoolEnv \<Rightarrow> TxPool \<Rightarrow> ((Address, Transaction list) gomap \<times> (Address, Transaction list) gomap) \<times> TxPool" where
  "Content e p =
     (let (pnd, m) = flatten_lists e (e_accounts e (pending p)) (pending p);
          (queued, q) = flatten_lists e (e_accounts e (queue p)) (queue p) in
      ((pnd, queued), p\<lparr>pending := m, queue := q\<rparr>))"

definition Pending :: "PoolEnv \<Rightarrow> TxPool \<Rightarrow> (Address, Transaction list) gomap \<times> TxPool" where
  "Pending e p = (let (pnd, m) = flatten_lists e (e_accounts e (pending p)) (pending p) in (pnd, p\<lparr>pending := m\<rparr>))"

definition pool_stats :: "TxPool \<Rightarrow> nat \<times> nat" where
  "pool_stats p = (sum_list (map (txList_Len \<circ> snd) (pending p)), sum_list (map (txList_Len \<circ> snd) (queue p)))"

definition pool_Get :: "TxPool \<Rightarrow> Hash \<Rightarrow> Transaction option" where
  "pool_Get p h = txLookup_Get (pool_all p) h"

definition pool_status :: "PoolEnv \<Rightarrow> TxPool \<Rightarrow> Hash \<Rightarrow> TxStatus" where
  "pool_status e p h =
     (case txLookup_Get (pool_all p) h of
        None \<Rightarrow> TxStatusUnknown
      | Some tx \<Rightarrow>
          (case map_of (pending p) (from_of e tx) of
             None \<Rightarrow> TxStatusQueued
           | Some l \<Rightarrow> if sm_Get (l_txs l) (AccountNonce tx) \<noteq> None then TxStatusPending else TxStatusQueued))"

definition pool_Status :: "PoolEnv \<Rightarrow> TxPool \<Rightarrow> Hash list \<Rightarrow> TxStatus list" where
  "pool_Status e p hashes = map (pool_status e p) hashes"

end
