(* ===== verification/Tx_Pool_Lists.thy ===== *)
theory Tx_Pool_Lists
  imports Tx_Pool Tx_List_Correct
begin

text \<open>
  What the operations on the list of an account do to the transactions in it, in the form in which the pool uses it: an
  operation takes some transactions out and leaves the others.
\<close>

definition splits :: "txList \<Rightarrow> Transaction list \<Rightarrow> txList \<Rightarrow> bool" where
  "splits l out l' \<longleftrightarrow> list_ok l' \<and> l_strict l' = l_strict l \<and> mset (content l) = mset out + mset (content l')"

lemma list_ok_distinct: "list_ok l \<Longrightarrow> distinct_nonces (content l)"
  by (erule list_okE) simp

lemma list_ok_distinct_txs: "list_ok l \<Longrightarrow> distinct (content l)"
  using list_ok_distinct by (auto simp: distinct_map)

lemma same_nonce: "list_ok l \<Longrightarrow> t \<in> set (content l) \<Longrightarrow> u \<in> set (content l) \<Longrightarrow> AccountNonce t = AccountNonce u \<Longrightarrow> t = u"
  using list_ok_distinct [of l] by (auto simp: distinct_map inj_on_def)

lemma splits_facts:
  assumes "list_ok l" "splits l out l'"
  shows "set (content l) = set out \<union> set (content l')" "set out \<inter> set (content l') = {}" "distinct out"
proof -
  have m: "mset (content l) = mset (out @ content l')" using assms(2) by (simp add: splits_def)
  have "distinct (out @ content l')" using mset_eq_imp_distinct_iff [OF m] list_ok_distinct_txs [OF assms(1)] by simp
  then show "set out \<inter> set (content l') = {}" "distinct out" by auto
  show "set (content l) = set out \<union> set (content l')" using mset_eq_setD [OF m] by simp
qed

lemma splits_trans: "splits l out l' \<Longrightarrow> splits l' out' l'' \<Longrightarrow> splits l (out @ out') l''"
  by (auto simp: splits_def)

lemma splitsI:
  assumes "list_ok l" "rep m us" "mset (content l) = mset out + mset us"
  shows "splits l out (l\<lparr>l_txs := m\<rparr>)"
proof -
  have "sm_ok m" "content (l\<lparr>l_txs := m\<rparr>) = by_nonce us" using rep_ok [OF assms(2)] by (auto simp: content_def)
  moreover have "set us \<subseteq> set (content l)" using mset_eq_setD [of "content l" "out @ us"] assms(3) by simp
  ultimately show ?thesis using assms(1,3) by (auto simp: splits_def list_ok_def)
qed

lemma Len_content: "list_ok l \<Longrightarrow> txList_Len l = length (content l)"
  by (erule list_okE) (simp add: txList_Len_def sm_Len_def rep_def)

lemma Empty_content: "list_ok l \<Longrightarrow> txList_Empty l \<longleftrightarrow> content l = []"
  by (simp add: txList_Empty_def Len_content)

lemma Forward_splits:
  assumes "list_ok l"
  shows "\<exists>r l'. txList_Forward n l = Some (map Some r, l') \<and> splits l r l' \<and> content l' = filter (\<lambda>t. \<not> AccountNonce t < n) (content l)"
proof -
  obtain ts where t: "rep (l_txs l) ts" "content l = by_nonce ts" using assms by (rule list_okE)
  obtain m where m: "sm_Forward n (l_txs l) = Some (map Some (filter (\<lambda>t. AccountNonce t < n) (by_nonce ts)), m)"
    "rep m (filter (\<lambda>t. \<not> AccountNonce t < n) ts)" using rep_Forward [OF t(1)] by blast
  have "mset (content l) = mset (filter (\<lambda>t. AccountNonce t < n) (by_nonce ts)) + mset (filter (\<lambda>t. \<not> AccountNonce t < n) ts)"
    by (simp add: t(2) filter_sort)
  with splitsI [OF assms m(2)] m rep_ok [OF m(2)] t(2) show ?thesis
    by (auto simp: txList_Forward_def content_def filter_sort)
qed

lemma filter_takeWhile_dropWhile: "filter P xs = takeWhile P xs @ filter P (dropWhile P xs)"
  by (induction xs) auto

lemma mset_filter_partition: "mset xs = mset (filter P xs) + mset (filter (\<lambda>x. \<not> P x) xs)"
  by (induction xs) auto

lemma Filter_splits:
  assumes "list_ok l" "range_ok rng" "range_ok rng'"
  shows "\<exists>removed invalids l'. txList_Filter rng rng' c g l = ((removed, invalids), l') \<and> splits l (removed @ invalids) l' \<and>
     (\<not> l_strict l \<longrightarrow> invalids = [])"
proof -
  define bad where "bad = (\<lambda>t. c < Cost t \<or> g < tx_GasLimit t)"
  obtain removed invalids l' where f: "txList_Filter rng rng' c g l = ((removed, invalids), l')" "list_ok l'"
    "mset removed = mset (filter bad (content l))"
    "if l_strict l then content l' = takeWhile (\<lambda>t. \<not> bad t) (content l) \<and>
        mset invalids = mset (filter (\<lambda>t. \<not> bad t) (dropWhile (\<lambda>t. \<not> bad t) (content l)))
     else content l' = filter (\<lambda>t. \<not> bad t) (content l) \<and> invalids = []"
    using Filter_correct [OF assms, of c g] unfolding Let_def bad_def by (elim exE conjE) blast
  have st: "l_strict l' = l_strict l"
    using f(1) by (auto simp: txList_Filter_def Let_def split: if_splits prod.splits)
  have "mset (filter (\<lambda>t. \<not> bad t) (content l)) = mset invalids + mset (content l')"
  proof (cases "l_strict l")
    case True
    with f(4) show ?thesis
      by (subst filter_takeWhile_dropWhile) (simp only: if_True mset_append add.commute)
  qed (use f(4) in simp)
  then have "mset (content l) = mset (removed @ invalids) + mset (content l')"
    unfolding mset_append f(3) add.assoc by (metis mset_filter_partition)
  with f(1,2,4) st show ?thesis by (auto simp: splits_def)
qed

lemma Ready_splits:
  assumes "list_ok l"
  shows "\<exists>r l'. txList_Ready n l = Some (map Some r, l') \<and> splits l r l'"
proof -
  obtain ts where t: "rep (l_txs l) ts" "content l = by_nonce ts" using assms by (rule list_okE)
  obtain m us where m: "sm_Ready n (l_txs l) = Some (map Some (ready_prefix n (by_nonce ts)), m)" "rep m us"
    "by_nonce us = drop (length (ready_prefix n (by_nonce ts))) (by_nonce ts)" using rep_Ready [OF t(1)] by blast
  have pre: "counting_up k s = take (length (counting_up k s)) s" for k s by (induction k s rule: counting_up.induct) auto
  have "ready_prefix n s = take (length (ready_prefix n s)) s" for s using pre by (auto simp: ready_prefix_def split: list.splits)
  then have "by_nonce ts = ready_prefix n (by_nonce ts) @ by_nonce us" unfolding m(3) by (metis append_take_drop_id)
  then have "mset (content l) = mset (ready_prefix n (by_nonce ts)) + mset us" unfolding t(2) by (metis mset_append mset_sort)
  with splitsI [OF assms m(2)] m(1) show ?thesis by (auto simp: txList_Ready_def)
qed

lemma Cap_splits:
  assumes "list_ok l" "0 \<le> n"
  shows "\<exists>r l'. txList_Cap n l = Some (map Some r, l') \<and> splits l r l' \<and> content l' = take (nat n) (content l) \<and> r = rev (drop (nat n) (content l))"
proof -
  obtain ts where t: "rep (l_txs l) ts" "content l = by_nonce ts" using assms(1) by (rule list_okE)
  obtain m vs where m: "sm_Cap n (l_txs l) = Some (map Some (rev (drop (nat n) (by_nonce ts))), m)" "rep m vs" "by_nonce vs = take (nat n) (by_nonce ts)"
    using rep_Cap [OF t(1), of "nat n"] assms(2) by auto
  have "mset (content l) = mset (rev (drop (nat n) (by_nonce ts))) + mset vs"
    unfolding t(2) by (metis append_take_drop_id m(3) mset_append mset_rev mset_sort add.commute)
  with splitsI [OF assms(1) m(2)] m rep_ok [OF m(2)] t(2) show ?thesis
    by (auto simp: txList_Cap_def content_def)
qed

lemma Flatten_splits:
  assumes "list_ok l" "range_ok rng"
  shows "\<exists>l'. txList_Flatten rng l = (content l, l') \<and> splits l [] l' \<and> content l' = content l"
proof -
  obtain ts where t: "rep (l_txs l) ts" "content l = by_nonce ts" using assms(1) by (rule list_okE)
  obtain m where m: "sm_Flatten rng (l_txs l) = (by_nonce ts, m)" "rep m ts" using rep_Flatten [OF t(1) assms(2)] by blast
  with splitsI [OF assms(1) m(2), of "[]"] rep_ok [OF m(2)] t(2) show ?thesis by (auto simp: txList_Flatten_def content_def)
qed

lemma Get_Some: "list_ok l \<Longrightarrow> sm_Get (l_txs l) n = Some t \<longleftrightarrow> t \<in> set (content l) \<and> AccountNonce t = n"
  by (erule list_okE) (simp add: sm_Get_def rep_def)

lemma Get_None: "list_ok l \<Longrightarrow> sm_Get (l_txs l) n = None \<longleftrightarrow> n \<notin> AccountNonce ` set (content l)"
  by (erule list_okE) (simp add: sm_Get_def rep_def)

lemma list_ok_new: "list_ok (newTxList s)" "content (newTxList s) = []" "l_strict (newTxList s) = s"
  using list_inv_new [of s] rep_ok [OF rep_new] by (auto simp: list_inv_def content_def newTxList_def)

text \<open>An insertion replaces the transaction with the same nonce, or is refused for its sake.\<close>

lemma Add_correct:
  assumes "list_ok l"
  shows "\<exists>inserted old l'. txList_Add tx bump l = ((inserted, old), l') \<and> list_ok l' \<and> l_strict l' = l_strict l \<and>
     (if inserted then old = sm_Get (l_txs l) (AccountNonce tx) \<and>
        set (content l') = insert tx {t \<in> set (content l). AccountNonce t \<noteq> AccountNonce tx}
      else old = None \<and> l' = l \<and> AccountNonce tx \<in> AccountNonce ` set (content l))"
proof -
  obtain inserted old l' where a: "txList_Add tx bump l = ((inserted, old), l')" by (metis surj_pair)
  show ?thesis
  proof (cases inserted)
    case False
    with a have "old = None" "l' = l" "sm_Get (l_txs l) (AccountNonce tx) \<noteq> None"
      by (auto simp: txList_Add_def Let_def split: if_splits option.splits)
    with a False assms show ?thesis by (auto simp: Get_None)
  next
    case True
    obtain ts where t: "rep (l_txs l) ts" "content l = by_nonce ts" using assms by (rule list_okE)
    have l': "l_txs l' = sm_Put tx (l_txs l)" "l_strict l' = l_strict l" "l_costcap l' = max (l_costcap l) (Cost tx)"
      "l_gascap l' = max (l_gascap l) (tx_GasLimit tx)" "old = sm_Get (l_txs l) (AccountNonce tx)"
      using a True by (auto simp: txList_Add_def Let_def split: if_splits)
    obtain us where us: "rep (sm_Put tx (l_txs l)) us" "mset us = add_mset tx (mset (filter (\<lambda>t. AccountNonce t \<noteq> AccountNonce tx) ts))"
      using rep_Put [OF t(1)] by blast
    have c: "content l' = by_nonce us" "sm_ok (l_txs l')" using rep_ok [OF us(1)] l'(1) by (auto simp: content_def)
    have u: "set us = insert tx {t \<in> set (content l). AccountNonce t \<noteq> AccountNonce tx}"
      using mset_eq_setD [of us "tx # filter (\<lambda>t. AccountNonce t \<noteq> AccountNonce tx) ts"] us(2) t(2) by auto
    then have "list_ok l'" using assms c by (auto simp: list_ok_def l' le_max_iff_disj)
    with a True l' c(1) u show ?thesis by auto
  qed
qed

lemma Remove_correct:
  assumes "list_ok l" "range_ok rng"
  shows "\<exists>removed invalids l'. txList_Remove rng tx l = Some ((removed, invalids), l') \<and>
     (if removed then \<exists>t. AccountNonce t = AccountNonce tx \<and> splits l (t # invalids) l' \<and> (\<not> l_strict l \<longrightarrow> invalids = [])
      else invalids = [] \<and> l' = l \<and> AccountNonce tx \<notin> AccountNonce ` set (content l))"
proof -
  define n where "n = AccountNonce tx"
  obtain ts where t: "rep (l_txs l) ts" "content l = by_nonce ts" using assms(1) by (rule list_okE)
  obtain m where m: "sm_Remove n (l_txs l) = Some (n \<in> AccountNonce ` set ts, m)" "rep m (filter (\<lambda>t. AccountNonce t \<noteq> n) ts)"
    using rep_Remove [OF t(1)] by blast
  show ?thesis
  proof (cases "n \<in> AccountNonce ` set ts")
    case False
    with m(1) t(2) show ?thesis by (auto simp: txList_Remove_def n_def)
  next
    case True
    then obtain u where u: "u \<in> set ts" "AccountNonce u = n" by auto
    have ms: "mset (content l) = add_mset u (mset (filter (\<lambda>t. AccountNonce t \<noteq> n) ts))"
      using mset_split [OF u(1)] t by (simp add: rep_def u(2))
    obtain invalids m' where f: "sm_Filter rng (\<lambda>t. n < AccountNonce t) m = (invalids, m')"
      "mset invalids = mset (filter (\<lambda>t. n < AccountNonce t) (filter (\<lambda>t. AccountNonce t \<noteq> n) ts))"
      "rep m' (filter (\<lambda>t. \<not> n < AccountNonce t) (filter (\<lambda>t. AccountNonce t \<noteq> n) ts))"
      using rep_Filter [OF m(2) assms(2)] by blast
    have p: "mset (filter (\<lambda>t. AccountNonce t \<noteq> n) ts) = mset invalids + mset (filter (\<lambda>t. \<not> n < AccountNonce t) (filter (\<lambda>t. AccountNonce t \<noteq> n) ts))"
      unfolding f(2) by (rule mset_filter_partition)
    have "splits l (u # invalids) (l\<lparr>l_txs := m'\<rparr>)"
      by (rule splitsI [OF assms(1) f(3)]) (unfold ms p, simp only: mset.simps union_mset_add_mset_left add_0_left)
    moreover have "splits l [u] (l\<lparr>l_txs := m\<rparr>)"
      by (rule splitsI [OF assms(1) m(2)]) (unfold ms, simp only: mset.simps union_mset_add_mset_left add_0_left)
    ultimately show ?thesis using m(1) True f(1) u(2) by (auto simp: txList_Remove_def n_def)
  qed
qed

end
