(* ===== verification/Tx_Pool_Inv.thy ===== *)
theory Tx_Pool_Inv
  imports Tx_Pool_Lists
begin

text \<open>
  The invariant of the transaction pool.  A transaction is in a pending list, in a queued list, or in flight: taken out of a
  list and still in the table.  No two transactions compete for the same sender and nonce, the table holds exactly these
  transactions under their hashes, and the heap by price holds all of them but those that an operation is about to drop.
\<close>

section \<open>Lists by account\<close>

definition members :: "accountLists \<Rightarrow> Transaction set" where
  "members m = {t. \<exists>a l. map_of m a = Some l \<and> t \<in> set (content l)}"

definition lists_ok :: "PoolEnv \<Rightarrow> bool \<Rightarrow> accountLists \<Rightarrow> bool" where
  "lists_ok e strict m \<longleftrightarrow> distinct (map fst m) \<and>
     (\<forall>a l. map_of m a = Some l \<longrightarrow> list_ok l \<and> l_strict l = strict \<and> (\<forall>t \<in> set (content l). e_sender e t = Inr a))"

text \<open>The list of an account, a new one if it has none.\<close>

definition list_of :: "bool \<Rightarrow> accountLists \<Rightarrow> Address \<Rightarrow> txList" where
  "list_of strict m a = (case map_of m a of None \<Rightarrow> newTxList strict | Some l \<Rightarrow> l)"

definition owned :: "PoolEnv \<Rightarrow> Address \<Rightarrow> txList \<Rightarrow> bool" where
  "owned e a l \<longleftrightarrow> list_ok l \<and> (\<forall>t \<in> set (content l). e_sender e t = Inr a)"

lemma owned_list_of: "lists_ok e s m \<Longrightarrow> owned e a (list_of s m a) \<and> l_strict (list_of s m a) = s"
  by (auto simp: lists_ok_def list_of_def owned_def list_ok_new split: option.splits)

lemma lists_okD: "lists_ok e s m \<Longrightarrow> map_of m a = Some l \<Longrightarrow> owned e a l \<and> l_strict l = s"
  by (auto simp: lists_ok_def owned_def)

lemma lists_ok_update: "lists_ok e s m \<Longrightarrow> owned e a l \<Longrightarrow> l_strict l = s \<Longrightarrow> lists_ok e s (AList.update a l m)"
  by (auto simp: lists_ok_def owned_def update_conv' distinct_update)

lemma lists_ok_delete: "lists_ok e s m \<Longrightarrow> lists_ok e s (AList.delete a m)"
  by (auto simp: lists_ok_def delete_conv' distinct_delete)

text \<open>The transactions of the other accounts.\<close>

definition others :: "accountLists \<Rightarrow> Address \<Rightarrow> Transaction set" where
  "others m a = {t. \<exists>b l. b \<noteq> a \<and> map_of m b = Some l \<and> t \<in> set (content l)}"

lemma members_split: "members m = others m a \<union> set (content (list_of s m a))"
proof -
  have "t \<in> members m \<longleftrightarrow> t \<in> others m a \<or> (\<exists>l. map_of m a = Some l \<and> t \<in> set (content l))" for t
    unfolding members_def others_def mem_Collect_eq by metis
  then show ?thesis by (cases "map_of m a") (auto simp: list_of_def list_ok_new)
qed

lemma others_disjoint: "lists_ok e s m \<Longrightarrow> others m a \<inter> set (content (list_of s m a)) = {}"
  using owned_list_of [of e s m a] lists_okD [of e s m] by (fastforce simp: others_def owned_def)

lemma members_update:
  assumes "lists_ok e s m"
  shows "members (AList.update a l m) = members m - set (content (list_of s m a)) \<union> set (content l)"
proof -
  have "members (AList.update a l m) = others (AList.update a l m) a \<union> set (content (list_of s (AList.update a l m) a))"
    by (rule members_split)
  also have "\<dots> = others m a \<union> set (content l)" by (auto simp: others_def list_of_def update_conv')
  also have "others m a = members m - set (content (list_of s m a))"
    using others_disjoint [OF assms, of a] members_split [of m a s] by blast
  finally show ?thesis .
qed

lemma members_delete:
  assumes "content (list_of s m a) = []"
  shows "members (AList.delete a m) = members m"
proof -
  have "others (AList.delete a m) a = others m a" by (auto simp: others_def delete_conv')
  then show ?thesis
    using assms members_split [of m a s] members_split [of "AList.delete a m" a s]
    by (simp add: list_of_def delete_conv' list_ok_new)
qed

lemma content_members: "map_of m a = Some l \<Longrightarrow> t \<in> set (content l) \<Longrightarrow> t \<in> members m"
  by (auto simp: members_def)

lemma members_content: "lists_ok e s m \<Longrightarrow> t \<in> members m \<Longrightarrow> e_sender e t = Inr a \<Longrightarrow> t \<in> set (content (list_of s m a))"
  by (auto simp: members_def lists_ok_def list_of_def)

lemma list_of_members: "t \<in> set (content (list_of s m a)) \<Longrightarrow> t \<in> members m"
  by (auto simp: members_def list_of_def list_ok_new split: option.splits)

lemma members_sender: "lists_ok e s m \<Longrightarrow> t \<in> members m \<Longrightarrow> e_sender e t = Inr (from_of e t)"
  by (auto simp: members_def lists_ok_def from_of_def)

section \<open>The table and the heap\<close>

definition env_ok :: "PoolEnv \<Rightarrow> bool" where
  "env_ok e \<longleftrightarrow> range_ok (e_nonces e) \<and>
     (\<forall>items. distinct (map fst items) \<longrightarrow> mset (e_hashes e items) = mset (map fst items)) \<and>
     (\<forall>m. distinct (map fst m) \<longrightarrow> mset (e_accounts e m) = mset (map fst m)) \<and> (\<forall>as. set (e_dirty e as) = set as)"

definition books :: "PoolEnv \<Rightarrow> Transaction set \<Rightarrow> Transaction set \<Rightarrow> TxPool \<Rightarrow> bool" where
  "books e S X p \<longleftrightarrow>
     distinct (map fst (lk_all (pool_all p))) \<and> (\<forall>h t. txLookup_Get (pool_all p) h = Some t \<longleftrightarrow> t \<in> S \<and> h = e_hash e t) \<and>
     is_heap price_less (pl_items (priced p)) \<and> S - X \<subseteq> set (pl_items (priced p))"

lemma books_hash: "books e S X p \<Longrightarrow> t \<in> S \<Longrightarrow> u \<in> S \<Longrightarrow> e_hash e t = e_hash e u \<Longrightarrow> t = u"
  unfolding books_def by (metis option.inject)

lemma books_Get: "books e S X p \<Longrightarrow> t \<in> S \<Longrightarrow> txLookup_Get (pool_all p) (e_hash e t) = Some t"
  by (simp add: books_def)

lemma range_loop_collect:
  "range_loop (\<lambda>hash tx items. (True, items @ [tx])) t ks s = s @ List.map_filter (map_of t) ks"
  by (induction ks arbitrary: s) (auto simp: List.map_filter_def split: option.splits)

text \<open>A rebuilt heap holds the whole table.\<close>

lemma books_Removed:
  assumes "books e S X p" "env_ok e"
  shows "books e S X (priced_Removed e p)"
proof -
  let ?all = "lk_all (pool_all p)"
  define items where "items = txLookup_Range (e_hashes e) (\<lambda>hash tx items. (True, items @ [tx])) (pool_all p) []"
  have k: "set (e_hashes e ?all) = fst ` set ?all"
    using assms mset_eq_setD [of "e_hashes e ?all" "map fst ?all"] by (auto simp: env_ok_def books_def)
  have "S \<subseteq> set items"
  proof
    fix t assume "t \<in> S"
    then have "map_of ?all (e_hash e t) = Some t" using assms(1) by (simp add: books_def txLookup_Get_def)
    moreover from this have "e_hash e t \<in> set (e_hashes e ?all)" unfolding k by (metis map_of_eq_None_iff option.distinct(1))
    ultimately show "t \<in> set items"
      by (auto simp: items_def txLookup_Range_def range_loop_collect List.map_filter_def intro!: image_eqI [of _ _ "e_hash e t"])
  qed
  moreover have "is_heap price_less (heap_Init price_less items)" "set (heap_Init price_less items) = set items"
    using prices.init [of items] mset_eq_setD [of "heap_Init price_less items" items] by auto
  ultimately show ?thesis
    using assms(1) by (auto simp: books_def priced_Removed_def pl_Removed_def Let_def items_def)
qed

lemma books_drop:
  assumes "books e S X p" "t \<in> S"
  shows "books e (S - {t}) X (p\<lparr>pool_all := txLookup_Remove (e_hash e t) (pool_all p)\<rparr>)"
  using assms books_hash [OF assms(1)] unfolding books_def txLookup_Get_def txLookup_Remove_def
  by (auto simp: delete_conv' distinct_delete split: if_splits)

lemma books_forget:
  assumes "books e S X p" "t \<in> S" "env_ok e"
  shows "books e (S - {t}) X (forget e (e_hash e t) p)"
  unfolding forget_def by (rule books_Removed [OF books_drop [OF assms(1,2)] assms(3)])

lemma books_add:
  assumes "books e S X p" "e_hash e t \<notin> e_hash e ` S"
  shows "books e (insert t S) X (p\<lparr>pool_all := txLookup_Add (e_hash e) t (pool_all p), priced := pl_Put t (priced p)\<rparr>)"
proof -
  have "is_heap price_less (pl_items (pl_Put t (priced p)))" "set (pl_items (pl_Put t (priced p))) = insert t (set (pl_items (priced p)))"
    using prices.push [of "pl_items (priced p)" t] assms(1) mset_eq_setD [of "heap_Push price_less (pl_items (priced p)) t" "t # pl_items (priced p)"]
    by (auto simp: books_def pl_Put_def)
  with assms show ?thesis
    by (auto simp: books_def txLookup_Get_def txLookup_Add_def update_conv' distinct_update split: if_splits)
qed

lemma remember_known: "books e S X p \<Longrightarrow> t \<in> S \<Longrightarrow> remember e (e_hash e t) t p = p"
  by (simp add: remember_def books_Get)

lemma books_remember:
  assumes "books e S X p" "e_hash e t \<notin> e_hash e ` S"
  shows "books e (insert t S) X (remember e (e_hash e t) t p)"
proof -
  have "txLookup_Get (pool_all p) (e_hash e t) = None" using assms by (cases "txLookup_Get (pool_all p) (e_hash e t)") (auto simp: books_def)
  with books_add [OF assms] show ?thesis by (simp add: remember_def)
qed

section \<open>The invariant\<close>

definition slot :: "PoolEnv \<Rightarrow> Transaction \<Rightarrow> (tx_err + Address) \<times> uint64" where
  "slot e t = (e_sender e t, AccountNonce t)"

definition known :: "TxPool \<Rightarrow> Transaction set" where
  "known p = members (pending p) \<union> members (queue p)"

definition pool_inv :: "PoolEnv \<Rightarrow> Transaction set \<Rightarrow> Transaction set \<Rightarrow> TxPool \<Rightarrow> bool" where
  "pool_inv e F X p \<longleftrightarrow>
     lists_ok e True (pending p) \<and> lists_ok e False (queue p) \<and> (\<forall>t \<in> F. e_sender e t = Inr (from_of e t)) \<and>
     members (pending p) \<inter> members (queue p) = {} \<and> F \<inter> known p = {} \<and>
     inj_on (slot e) (known p \<union> F) \<and> books e (known p \<union> F) X p"

lemma pool_invD:
  assumes "pool_inv e F X p"
  shows "lists_ok e True (pending p)" "lists_ok e False (queue p)" "t \<in> F \<Longrightarrow> e_sender e t = Inr (from_of e t)"
    "members (pending p) \<inter> members (queue p) = {}" "F \<inter> known p = {}"
    "inj_on (slot e) (known p \<union> F)" "books e (known p \<union> F) X p"
  using assms unfolding pool_inv_def by blast+

lemma books_cong: "pool_all p' = pool_all p \<Longrightarrow> priced p' = priced p \<Longrightarrow> books e S X p' = books e S X p"
  by (simp add: books_def)

lemma pool_inv_cong:
  assumes "pending p' = pending p" "queue p' = queue p" "pool_all p' = pool_all p" "priced p' = priced p"
  shows "pool_inv e F X p' = pool_inv e F X p"
  using assms books_cong [of p' p] by (simp add: pool_inv_def known_def)

text \<open>What the small steps leave alone.\<close>

lemma put_pending_frame [simp]:
  "pending (put_pending a l p) = AList.update a l (pending p)" "queue (put_pending a l p) = queue p"
  "pool_all (put_pending a l p) = pool_all p" "priced (put_pending a l p) = priced p" "config (put_pending a l p) = config p"
  "locals (put_pending a l p) = locals p"
  by (simp_all add: put_pending_def)

lemma put_queue_frame [simp]:
  "queue (put_queue a l p) = AList.update a l (queue p)" "pending (put_queue a l p) = pending p"
  "pool_all (put_queue a l p) = pool_all p" "priced (put_queue a l p) = priced p" "config (put_queue a l p) = config p"
  "locals (put_queue a l p) = locals p"
  by (simp_all add: put_queue_def)

lemma delete_frame [simp]:
  "queue (delete_queue a p) = AList.delete a (queue p)" "pending (delete_queue a p) = pending p"
  "pool_all (delete_queue a p) = pool_all p" "priced (delete_queue a p) = priced p" "config (delete_queue a p) = config p"
  "locals (delete_queue a p) = locals p"
  "pending (delete_pending a p) = AList.delete a (pending p)" "queue (delete_pending a p) = queue p"
  "pool_all (delete_pending a p) = pool_all p" "priced (delete_pending a p) = priced p" "config (delete_pending a p) = config p"
  "locals (delete_pending a p) = locals p"
  by (simp_all add: delete_queue_def delete_pending_def)

lemma forget_frame [simp]:
  "pending (forget e h p) = pending p" "queue (forget e h p) = queue p" "config (forget e h p) = config p" "locals (forget e h p) = locals p"
  "pending (priced_Removed e p) = pending p" "queue (priced_Removed e p) = queue p" "pool_all (priced_Removed e p) = pool_all p"
  "config (priced_Removed e p) = config p" "locals (priced_Removed e p) = locals p"
  by (simp_all add: forget_def priced_Removed_def)

lemma set_pending_nonce_frame [simp]:
  "pending (set_pending_nonce a n p) = pending p" "queue (set_pending_nonce a n p) = queue p"
  "pool_all (set_pending_nonce a n p) = pool_all p" "priced (set_pending_nonce a n p) = priced p"
  "config (set_pending_nonce a n p) = config p" "locals (set_pending_nonce a n p) = locals p"
  by (simp_all add: set_pending_nonce_def)

text \<open>Reading a nonce or a balance only fills a cache of the state.\<close>

definition same_lists :: "TxPool \<Rightarrow> TxPool \<Rightarrow> bool" where
  "same_lists p p' \<longleftrightarrow> pending p' = pending p \<and> queue p' = queue p \<and> pool_all p' = pool_all p \<and> priced p' = priced p \<and>
     config p' = config p \<and> locals p' = locals p"

lemma same_lists_inv: "same_lists p p' \<Longrightarrow> pool_inv e F X p' = pool_inv e F X p"
  by (rule pool_inv_cong) (auto simp: same_lists_def)

lemma state_reads:
  "state_nonce a p = (n, p') \<Longrightarrow> same_lists p p'" "state_balance a p = (b, p') \<Longrightarrow> same_lists p p'"
  "pending_nonce a p = (n, p') \<Longrightarrow> same_lists p p'" "same_lists p (lower_pending_nonce a n p)"
  by (auto simp: same_lists_def state_nonce_def state_balance_def pending_nonce_def lower_pending_nonce_def Let_def split: prod.splits)

section \<open>Moving transactions\<close>

lemma list_of_Some: "map_of m a = Some l \<Longrightarrow> list_of s m a = l"
  by (simp add: list_of_def)

text \<open>Taking transactions out of a list puts them in flight.\<close>

lemma owned_splits:
  assumes "owned e a l" "splits l out l'"
  shows "owned e a l'" "\<forall>t \<in> set out. e_sender e t = Inr a" "set (content l) = set out \<union> set (content l')"
    "set out \<inter> set (content l') = {}" "distinct out"
  using assms splits_facts [of l out l'] by (auto simp: owned_def splits_def)

lemma take_pending:
  assumes "pool_inv e F X p" "map_of (pending p) a = Some l" "splits l out l'"
  shows "pool_inv e (F \<union> set out) X (put_pending a l' p)" "set out \<inter> F = {}" "set out \<subseteq> members (pending p)"
proof -
  note inv = pool_invD [OF assms(1)]
  note o = owned_splits [OF conjunct1 [OF lists_okD [OF inv(1) assms(2)]] assms(3)]
  have sub: "set (content l) \<subseteq> members (pending p)" using content_members [OF assms(2)] by blast
  have m: "members (pending (put_pending a l' p)) = members (pending p) - set out"
    using members_update [OF inv(1), of a l'] o(3,4) sub list_of_Some [OF assms(2)] by auto
  have k: "known (put_pending a l' p) \<union> (F \<union> set out) = known p \<union> F"
    using m o(3) sub by (auto simp: known_def)
  show "set out \<inter> F = {}" "set out \<subseteq> members (pending p)" using o(3) sub inv(5) by (auto simp: known_def)
  have "l_strict l' = True" using assms(3) lists_okD [OF inv(1) assms(2)] by (simp add: splits_def)
  then have "lists_ok e True (pending (put_pending a l' p))" using lists_ok_update [OF inv(1) o(1)] by simp
  moreover have "\<forall>t \<in> F \<union> set out. e_sender e t = Inr (from_of e t)" using inv(3) o(2) by (auto simp: from_of_def)
  moreover have "(F \<union> set out) \<inter> known (put_pending a l' p) = {}" using m inv(4,5) o(3) sub by (auto simp: known_def)
  ultimately show "pool_inv e (F \<union> set out) X (put_pending a l' p)"
    unfolding pool_inv_def k using inv(2,4,6,7) m books_cong [of "put_pending a l' p" p] by auto
qed

lemma take_queue:
  assumes "pool_inv e F X p" "map_of (queue p) a = Some l" "splits l out l'"
  shows "pool_inv e (F \<union> set out) X (put_queue a l' p)" "set out \<inter> F = {}" "set out \<subseteq> members (queue p)"
proof -
  note inv = pool_invD [OF assms(1)]
  note o = owned_splits [OF conjunct1 [OF lists_okD [OF inv(2) assms(2)]] assms(3)]
  have sub: "set (content l) \<subseteq> members (queue p)" using content_members [OF assms(2)] by blast
  have m: "members (queue (put_queue a l' p)) = members (queue p) - set out"
    using members_update [OF inv(2), of a l'] o(3,4) sub list_of_Some [OF assms(2)] by auto
  have k: "known (put_queue a l' p) \<union> (F \<union> set out) = known p \<union> F"
    using m o(3) sub by (auto simp: known_def)
  show "set out \<inter> F = {}" "set out \<subseteq> members (queue p)" using o(3) sub inv(5) by (auto simp: known_def)
  have "l_strict l' = False" using assms(3) lists_okD [OF inv(2) assms(2)] by (simp add: splits_def)
  then have "lists_ok e False (queue (put_queue a l' p))" using lists_ok_update [OF inv(2) o(1)] by simp
  moreover have "\<forall>t \<in> F \<union> set out. e_sender e t = Inr (from_of e t)" using inv(3) o(2) by (auto simp: from_of_def)
  moreover have "(F \<union> set out) \<inter> known (put_queue a l' p) = {}" using m inv(4,5) o(3) sub by (auto simp: known_def)
  ultimately show "pool_inv e (F \<union> set out) X (put_queue a l' p)"
    unfolding pool_inv_def k using inv(1,4,6,7) m books_cong [of "put_queue a l' p" p] by auto
qed

text \<open>A transaction in flight is forgotten, or goes to the list of its account, where its place is free.\<close>

lemma shrink_flight:
  assumes "pool_inv e F X p" "t \<in> F" "pending p' = pending p" "queue p' = queue p" "books e (known p \<union> F - {t}) X p'"
  shows "pool_inv e (F - {t}) X p'"
proof -
  note inv = pool_invD [OF assms(1)]
  have k: "known p' = known p" "known p \<union> (F - {t}) = known p \<union> F - {t}" using assms(2-4) inv(5) by (auto simp: known_def)
  have "inj_on (slot e) (known p \<union> F - {t})" using inv(6) by (rule inj_on_subset) auto
  with inv assms(3-5) k show ?thesis unfolding pool_inv_def by auto
qed

lemma drop_flight:
  assumes "pool_inv e F X p" "t \<in> F"
  shows "pool_inv e (F - {t}) X (p\<lparr>pool_all := txLookup_Remove (e_hash e t) (pool_all p)\<rparr>)"
  by (rule shrink_flight [OF assms]) (use assms books_drop [OF pool_invD(7) [OF assms(1)]] in auto)

lemma Removed_inv: "pool_inv e F X p \<Longrightarrow> env_ok e \<Longrightarrow> pool_inv e F X (priced_Removed e p)"
  using books_Removed [of e "known p \<union> F" X p] by (auto simp: pool_inv_def known_def)

lemma forget_flight:
  assumes "pool_inv e F X p" "t \<in> F" "env_ok e"
  shows "pool_inv e (F - {t}) X (forget e (e_hash e t) p)"
  unfolding forget_def by (rule Removed_inv [OF drop_flight [OF assms(1,2)] assms(3)])

text \<open>The place of a transaction in flight is free in both lists.\<close>

lemma slot_free:
  assumes "pool_inv e F X p" "t \<in> F" "e_sender e t = Inr a"
  shows "AccountNonce t \<notin> AccountNonce ` set (content (list_of True (pending p) a))"
    "AccountNonce t \<notin> AccountNonce ` set (content (list_of False (queue p) a))"
proof -
  note inv = pool_invD [OF assms(1)]
  have "u \<in> known p \<Longrightarrow> e_sender e u = Inr a \<Longrightarrow> AccountNonce t \<noteq> AccountNonce u" for u
    using inj_onD [OF inv(6), of t u] inv(5) assms(2,3) by (auto simp: slot_def)
  moreover have "e_sender e u = Inr a" if "u \<in> set (content (list_of True (pending p) a)) \<or> u \<in> set (content (list_of False (queue p) a))" for u
    using that owned_list_of [OF inv(1), of a] owned_list_of [OF inv(2), of a] by (auto simp: owned_def)
  ultimately show "AccountNonce t \<notin> AccountNonce ` set (content (list_of True (pending p) a))"
    "AccountNonce t \<notin> AccountNonce ` set (content (list_of False (queue p) a))"
    using list_of_members by (fastforce simp: known_def)+
qed

lemma Add_free:
  assumes "owned e a l" "e_sender e t = Inr a" "AccountNonce t \<notin> AccountNonce ` set (content l)"
  shows "\<exists>l'. txList_Add t bump l = ((True, None), l') \<and> owned e a l' \<and> l_strict l' = l_strict l \<and> set (content l') = insert t (set (content l))"
proof -
  have ok: "list_ok l" using assms(1) by (simp add: owned_def)
  obtain r old l' where "txList_Add t bump l = ((r, old), l')" "list_ok l'" "l_strict l' = l_strict l"
    "if r then old = sm_Get (l_txs l) (AccountNonce t) \<and> set (content l') = insert t {u \<in> set (content l). AccountNonce u \<noteq> AccountNonce t}
      else old = None \<and> l' = l \<and> AccountNonce t \<in> AccountNonce ` set (content l)"
    using Add_correct [OF ok, of t bump] by blast
  moreover have "{u \<in> set (content l). AccountNonce u \<noteq> AccountNonce t} = set (content l)" using assms(3) by (auto simp: image_iff)
  ultimately show ?thesis using assms by (cases r) (auto simp: owned_def Get_None [OF ok])
qed

lemma enqueue_flight:
  assumes "pool_inv e F X p" "t \<in> F"
  shows "\<exists>l. enqueueTx e (e_hash e t) t p = ((False, None), put_queue (from_of e t) l p) \<and>
     pool_inv e (F - {t}) X (put_queue (from_of e t) l p)"
proof -
  note inv = pool_invD [OF assms(1)]
  define a where "a = from_of e t"
  have a: "e_sender e t = Inr a" using inv(3) assms(2) by (simp add: a_def)
  define l where "l = list_of False (queue p) a"
  have ow: "owned e a l" "l_strict l = False" using owned_list_of [OF inv(2)] by (auto simp: l_def)
  obtain l' where l': "txList_Add t (c_PriceBump (config p)) l = ((True, None), l')" "owned e a l'" "l_strict l' = l_strict l"
    "set (content l') = insert t (set (content l))"
    using Add_free [OF ow(1) a] slot_free(2) [OF assms a] unfolding l_def by blast
  let ?p = "put_queue a l' p"
  have b: "books e (known p \<union> F) X ?p" using inv(7) books_cong [of ?p p] by simp
  have e: "enqueueTx e (e_hash e t) t p = ((False, None), ?p)"
    using l'(1) remember_known [OF b, of t] assms(2) by (simp add: enqueueTx_def list_of_def [symmetric] a_def [symmetric] l_def [symmetric] Let_def)
  have m: "members (queue ?p) = insert t (members (queue p))"
    using members_update [OF inv(2), of a l'] l'(4) list_of_members [of _ False "queue p" a] by (auto simp: l_def)
  have k: "known ?p = insert t (known p)" by (auto simp: known_def m [simplified])
  have k': "known ?p \<union> (F - {t}) = known p \<union> F" using assms(2) by (auto simp: k)
  have "lists_ok e False (queue ?p)" using lists_ok_update [OF inv(2) l'(2)] l'(3) ow(2) by simp
  moreover have "members (pending p) \<inter> members (queue ?p) = {}" using m inv(4,5) assms(2) by (auto simp: known_def)
  moreover have "(F - {t}) \<inter> known ?p = {}" using inv(5) by (auto simp: k)
  ultimately have "pool_inv e (F - {t}) X ?p" unfolding pool_inv_def k' using inv b by auto
  with e show ?thesis by (auto simp: a_def)
qed

lemma promote_flight:
  assumes "pool_inv e F X p" "t \<in> F" "e_sender e t = Inr a"
  shows "\<exists>p'. promoteTx e a (e_hash e t) t p = (True, p') \<and> pool_inv e (F - {t}) X p' \<and>
     queue p' = queue p \<and> config p' = config p \<and> locals p' = locals p \<and> pool_all p' = pool_all p"
proof -
  note inv = pool_invD [OF assms(1)]
  define l where "l = list_of True (pending p) a"
  have ow: "owned e a l" "l_strict l = True" using owned_list_of [OF inv(1)] by (auto simp: l_def)
  obtain l' where l': "txList_Add t (c_PriceBump (config p)) l = ((True, None), l')" "owned e a l'" "l_strict l' = l_strict l"
    "set (content l') = insert t (set (content l))"
    using Add_free [OF ow(1) assms(3)] slot_free(1) [OF assms] unfolding l_def by blast
  let ?p = "put_pending a l' p"
  have b: "books e (known p \<union> F) X ?p" using inv(7) books_cong [of ?p p] by simp
  define p' where "p' = set_pending_nonce a (AccountNonce t + 1) (?p\<lparr>beats := (beats ?p)(a \<mapsto> e_now e)\<rparr>)"
  have e: "promoteTx e a (e_hash e t) t p = (True, p')"
    using l'(1) remember_known [OF b, of t] assms(2) by (simp add: promoteTx_def p'_def list_of_def [symmetric] l_def [symmetric] Let_def)
  have m: "members (pending ?p) = insert t (members (pending p))"
    using members_update [OF inv(1), of a l'] l'(4) list_of_members [of _ True "pending p" a] by (auto simp: l_def)
  have k: "known ?p = insert t (known p)" by (auto simp: known_def m [simplified])
  have k': "known ?p \<union> (F - {t}) = known p \<union> F" using assms(2) by (auto simp: k)
  have "lists_ok e True (pending ?p)" using lists_ok_update [OF inv(1) l'(2)] l'(3) ow(2) by simp
  moreover have "members (pending ?p) \<inter> members (queue p) = {}" using m inv(4,5) assms(2) by (auto simp: known_def)
  moreover have "(F - {t}) \<inter> known ?p = {}" using inv(5) by (auto simp: k)
  ultimately have "pool_inv e (F - {t}) X ?p" unfolding pool_inv_def k' using inv b by auto
  moreover have "pool_inv e (F - {t}) X p' = pool_inv e (F - {t}) X ?p" by (rule pool_inv_cong) (simp_all add: p'_def)
  ultimately show ?thesis using e by (auto simp: p'_def)
qed

text \<open>An empty list may go.\<close>

lemma delete_pending_inv:
  assumes "pool_inv e F X p" "content (list_of True (pending p) a) = []"
  shows "pool_inv e F X (delete_pending a p)"
  using assms lists_ok_delete [of e True "pending p" a] members_delete [OF assms(2)] books_cong [of "delete_pending a p" p]
  by (auto simp: pool_inv_def known_def)

lemma delete_queue_inv:
  assumes "pool_inv e F X p" "content (list_of False (queue p) a) = []"
  shows "pool_inv e F X (delete_queue a p)"
  using assms lists_ok_delete [of e False "queue p" a] members_delete [OF assms(2)] books_cong [of "delete_queue a p" p]
  by (auto simp: pool_inv_def known_def)

section \<open>Loops over transactions in flight\<close>

lemma forget_all_flight:
  assumes "pool_inv e F X p" "set ts \<subseteq> F" "distinct ts" "env_ok e"
  shows "\<exists>p'. forget_all e (map Some ts) p = Some p' \<and> pool_inv e (F - set ts) X p' \<and>
     pending p' = pending p \<and> queue p' = queue p \<and> config p' = config p \<and> locals p' = locals p"
  using assms
proof (induction ts arbitrary: p F)
  case (Cons t ts)
  have "pool_inv e (F - {t}) X (forget e (e_hash e t) p)" using forget_flight Cons.prems by auto
  from Cons.IH [OF this] Cons.prems show ?case by (auto simp: Diff_insert2 [symmetric])
qed simp

lemma enqueue_all_flight:
  assumes "pool_inv e F X p" "set ts \<subseteq> F" "distinct ts"
  shows "\<exists>p'. enqueue_all e (map Some ts) p = Some p' \<and> pool_inv e (F - set ts) X p' \<and>
     pending p' = pending p \<and> pool_all p' = pool_all p \<and> config p' = config p \<and> locals p' = locals p"
  using assms
proof (induction ts arbitrary: p F)
  case (Cons t ts)
  obtain l where l: "enqueueTx e (e_hash e t) t p = ((False, None), put_queue (from_of e t) l p)"
    "pool_inv e (F - {t}) X (put_queue (from_of e t) l p)" using enqueue_flight [OF Cons.prems(1)] Cons.prems(2) by auto
  from Cons.IH [OF l(2)] Cons.prems l(1) show ?case by (auto simp: Diff_insert2 [symmetric])
qed simp

lemma promote_all_flight:
  assumes "pool_inv e F X p" "set ts \<subseteq> F" "distinct ts" "\<forall>t \<in> set ts. e_sender e t = Inr a"
  shows "\<exists>p'. promote_all e a (map Some ts) p = Some p' \<and> pool_inv e (F - set ts) X p' \<and>
     queue p' = queue p \<and> pool_all p' = pool_all p \<and> config p' = config p \<and> locals p' = locals p"
  using assms
proof (induction ts arbitrary: p F)
  case (Cons t ts)
  obtain p1 where p1: "promoteTx e a (e_hash e t) t p = (True, p1)" "pool_inv e (F - {t}) X p1" "queue p1 = queue p"
    "config p1 = config p" "locals p1 = locals p" "pool_all p1 = pool_all p" using promote_flight [OF Cons.prems(1), of t a] Cons.prems(2,4) by auto
  from Cons.IH [OF p1(2)] Cons.prems p1 show ?case by (auto simp: Diff_insert2 [symmetric])
qed simp

section \<open>Removing a transaction\<close>

definition removed_from :: "TxPool \<Rightarrow> Hash \<Rightarrow> TxPool \<Rightarrow> bool" where
  "removed_from p h p' \<longleftrightarrow> config p' = config p \<and> locals p' = locals p \<and>
     pool_all p' = txLookup_Remove h (pool_all p)"

lemma remove_future_flight:
  assumes "pool_inv e {} X p" "t \<in> members (queue p)" "env_ok e" "map_of (queue p) (from_of e t) = Some l"
  shows "\<exists>l'. txList_Remove (e_nonces e) t l = Some ((True, []), l') \<and> splits l [t] l' \<and>
     pool_inv e {t} X (put_queue (from_of e t) l' p)"
proof -
  note inv = pool_invD [OF assms(1)]
  note ow = lists_okD [OF inv(2) assms(4)]
  have t: "t \<in> set (content l)"
    using members_content [OF inv(2) assms(2) members_sender [OF inv(2) assms(2)]] list_of_Some [OF assms(4)] by simp
  have ok: "list_ok l" "range_ok (e_nonces e)" using ow assms(3) by (auto simp: owned_def env_ok_def)
  obtain r invalids l' where r: "txList_Remove (e_nonces e) t l = Some ((r, invalids), l')"
    "if r then \<exists>u. AccountNonce u = AccountNonce t \<and> splits l (u # invalids) l' \<and> (\<not> l_strict l \<longrightarrow> invalids = [])
      else invalids = [] \<and> l' = l \<and> AccountNonce t \<notin> AccountNonce ` set (content l)"
    using Remove_correct [OF ok, of t] by blast
  then obtain u where u: r "AccountNonce u = AccountNonce t" "splits l (u # invalids) l'" "invalids = []"
    using t ow by (auto split: if_splits)
  have "u = t" using same_nonce [OF ok(1) _ t u(2)] splits_facts(1) [OF ok(1) u(3)] by auto
  with take_queue(1) [OF assms(1,4) u(3)] r(1) u show ?thesis by auto
qed

text \<open>The table without a transaction, with or without a note to the heap.\<close>

definition untable :: "PoolEnv \<Rightarrow> bool \<Rightarrow> Hash \<Rightarrow> TxPool \<Rightarrow> TxPool" where
  "untable e outofbound h p =
     (let p = p\<lparr>pool_all := txLookup_Remove h (pool_all p)\<rparr> in if outofbound then priced_Removed e p else p)"

lemma untable_put: "untable e ob h (put_pending a l p) = put_pending a l (untable e ob h p)"
  "untable e ob h (put_queue a l p) = put_queue a l (untable e ob h p)"
  by (simp_all add: untable_def put_pending_def put_queue_def priced_Removed_def Let_def)

lemma untable_frame [simp]:
  "pending (untable e ob h p) = pending p" "queue (untable e ob h p) = queue p" "config (untable e ob h p) = config p"
  "locals (untable e ob h p) = locals p" "pool_all (untable e ob h p) = txLookup_Remove h (pool_all p)"
  by (simp_all add: untable_def priced_Removed_def Let_def)

lemma untable_flight: "pool_inv e F X p \<Longrightarrow> t \<in> F \<Longrightarrow> env_ok e \<Longrightarrow> pool_inv e (F - {t}) X (untable e ob (e_hash e t) p)"
  using drop_flight [of e F X p t] Removed_inv by (auto simp: untable_def Let_def)

lemma remove_queued:
  assumes "pool_inv e {} X p" "t \<in> members (queue p)" "env_ok e"
  shows "\<exists>p'. remove_future e (from_of e t) t (untable e ob (e_hash e t) p) = Some p' \<and> pool_inv e {} X p' \<and>
     removed_from p (e_hash e t) p' \<and> pending p' = pending p \<and>
     (\<exists>l l'. map_of (queue p) (from_of e t) = Some l \<and> splits l [t] l' \<and>
        queue p' = (if txList_Empty l' then AList.delete (from_of e t) (queue p) else AList.update (from_of e t) l' (queue p)))"
proof -
  note inv = pool_invD [OF assms(1)]
  define a where "a = from_of e t"
  obtain l where l: "map_of (queue p) a = Some l"
    using assms(2) members_sender [OF inv(2) assms(2)] inv(2) by (auto simp: members_def lists_ok_def a_def)
  obtain l' where l': "txList_Remove (e_nonces e) t l = Some ((True, []), l')" "splits l [t] l'" "pool_inv e {t} X (put_queue a l' p)"
    using remove_future_flight [OF assms] l unfolding a_def by blast
  define q where "q = put_queue a l' (untable e ob (e_hash e t) p)"
  have q: "pool_inv e {} X q" using untable_flight [OF l'(3) _ assms(3), of t ob] by (simp add: q_def untable_put)
  have "list_ok l'" using l'(2) by (simp add: splits_def)
  then have "txList_Empty l' \<Longrightarrow> content (list_of False (queue q) a) = []" by (simp add: Empty_content list_of_def q_def update_conv')
  then have "pool_inv e {} X (if txList_Empty l' then delete_queue a q else q)" using q delete_queue_inv by auto
  moreover have "remove_future e a t (untable e ob (e_hash e t) p) = Some (if txList_Empty l' then delete_queue a q else q)"
    using l l'(1) by (simp add: remove_future_def q_def Let_def)
  ultimately show ?thesis using l l'(2) by (auto simp: a_def [symmetric] removed_from_def q_def delete_update_same)
qed

lemma removeTx_unfold:
  "removeTx e h ob p =
     (case txLookup_Get (pool_all p) h of
        None \<Rightarrow> Some p
      | Some tx \<Rightarrow>
          case map_of (pending p) (from_of e tx) of
            None \<Rightarrow> remove_future e (from_of e tx) tx (untable e ob h p)
          | Some pnd \<Rightarrow>
              Option.bind (txList_Remove (e_nonces e) tx pnd) (\<lambda>((removed, invalids), pnd).
                let p = put_pending (from_of e tx) pnd (untable e ob h p) in
                if removed then
                  Option.bind (enqueue_all e (map Some invalids) (if txList_Empty pnd then delete_pending (from_of e tx) p else p))
                    (\<lambda>p. Some (lower_pending_nonce (from_of e tx) (AccountNonce tx) p))
                else remove_future e (from_of e tx) tx p))"
  unfolding removeTx_def untable_def Let_def by (cases ob) (simp_all cong: option.case_cong)

text \<open>A queued transaction is not found in the pending list, which the removal leaves as it is.\<close>

lemma update_same: "distinct (map fst m) \<Longrightarrow> map_of m a = Some l \<Longrightarrow> AList.update a l m = m"
  by (induction m) (auto split: if_splits)

lemma put_same: "lists_ok e s m \<Longrightarrow> map_of m a = Some l \<Longrightarrow> AList.update a l m = m"
  by (rule update_same) (simp_all add: lists_ok_def)

lemma removeTx_queued:
  assumes "pool_inv e {} X p" "t \<in> members (queue p)" "env_ok e"
  shows "removeTx e (e_hash e t) ob p = remove_future e (from_of e t) t (untable e ob (e_hash e t) p)"
proof -
  note inv = pool_invD [OF assms(1)]
  have g: "txLookup_Get (pool_all p) (e_hash e t) = Some t" using books_Get [OF inv(7)] assms(2) by (simp add: known_def)
  show ?thesis
  proof (cases "map_of (pending p) (from_of e t)")
    case (Some l)
    note ow = lists_okD [OF inv(1) Some]
    have "AccountNonce t \<noteq> AccountNonce u" if "u \<in> set (content l)" for u
      using inj_onD [OF inv(6), of t u] that content_members [OF Some that] inv(4) assms(2) ow members_sender [OF inv(2) assms(2)]
      by (auto simp: slot_def owned_def known_def)
    then have "AccountNonce t \<notin> AccountNonce ` set (content l)" by auto
    moreover have "list_ok l" "range_ok (e_nonces e)" using ow assms(3) by (auto simp: owned_def env_ok_def)
    moreover have "\<not> (\<exists>u invalids l'. AccountNonce u = AccountNonce t \<and> splits l (u # invalids) l')"
      using splits_facts(1) [OF \<open>list_ok l\<close>] \<open>AccountNonce t \<notin> AccountNonce ` set (content l)\<close> by (metis image_eqI list.set_intros(1) UnI1)
    ultimately have "txList_Remove (e_nonces e) t l = Some ((False, []), l)"
      using Remove_correct [of l "e_nonces e" t] by (auto split: if_splits)
    moreover have "put_pending (from_of e t) l (untable e ob (e_hash e t) p) = untable e ob (e_hash e t) p"
      using put_same [OF inv(1) Some] by (simp add: put_pending_def)
    ultimately show ?thesis using g Some by (simp add: removeTx_unfold Let_def)
  qed (simp add: removeTx_unfold g)
qed

lemma removeTx_pending:
  assumes "pool_inv e {} X p" "t \<in> members (pending p)" "env_ok e"
  shows "\<exists>p'. removeTx e (e_hash e t) ob p = Some p' \<and> pool_inv e {} X p' \<and> removed_from p (e_hash e t) p'"
proof -
  note inv = pool_invD [OF assms(1)]
  define a where "a = from_of e t"
  have g: "txLookup_Get (pool_all p) (e_hash e t) = Some t" using books_Get [OF inv(7)] assms(2) by (simp add: known_def)
  obtain l where l: "map_of (pending p) a = Some l" "t \<in> set (content l)"
    using assms(2) members_sender [OF inv(1) assms(2)] inv(1) by (auto simp: members_def lists_ok_def a_def)
  have ok: "list_ok l" "range_ok (e_nonces e)" using lists_okD [OF inv(1) l(1)] assms(3) by (auto simp: owned_def env_ok_def)
  obtain r invalids l' where r: "txList_Remove (e_nonces e) t l = Some ((r, invalids), l')"
    "if r then \<exists>u. AccountNonce u = AccountNonce t \<and> splits l (u # invalids) l' \<and> (\<not> l_strict l \<longrightarrow> invalids = [])
      else invalids = [] \<and> l' = l \<and> AccountNonce t \<notin> AccountNonce ` set (content l)"
    using Remove_correct [OF ok, of t] by blast
  then obtain u where u: r "AccountNonce u = AccountNonce t" "splits l (u # invalids) l'" using l(2) by (auto split: if_splits)
  have [simp]: "u = t" using same_nonce [OF ok(1) _ l(2) u(2)] splits_facts(1) [OF ok(1) u(3)] by auto
  have d: "distinct (t # invalids)" using splits_facts(3) [OF ok(1) u(3)] by simp
  define q where "q = put_pending a l' (untable e ob (e_hash e t) p)"
  have "pool_inv e (insert t (set invalids)) X (put_pending a l' p)" using take_pending(1) [OF assms(1) l(1) u(3)] by simp
  then have q: "pool_inv e (set invalids) X q"
    using untable_flight [of e "insert t (set invalids)" X "put_pending a l' p" t ob] assms(3) d by (simp add: q_def untable_put)
  have "list_ok l'" using u(3) by (simp add: splits_def)
  then have "txList_Empty l' \<Longrightarrow> content (list_of True (pending q) a) = []" by (simp add: Empty_content list_of_def q_def update_conv')
  then have "pool_inv e (set invalids) X (if txList_Empty l' then delete_pending a q else q)" using q delete_pending_inv by auto
  from enqueue_all_flight [OF this subset_refl] d obtain p' where
    p': "enqueue_all e (map Some invalids) (if txList_Empty l' then delete_pending a q else q) = Some p'" "pool_inv e {} X p'"
    "pool_all p' = pool_all q" "config p' = config q" "locals p' = locals q" by auto
  have "removeTx e (e_hash e t) ob p = Some (lower_pending_nonce a (AccountNonce t) p')"
    using g l(1) r(1) u(1) p'(1) by (cases "txList_Empty l'") (simp_all add: removeTx_unfold Let_def flip: a_def q_def)
  moreover have sl: "same_lists p' (lower_pending_nonce a (AccountNonce t) p')" by (rule state_reads)
  moreover have "pool_inv e {} X (lower_pending_nonce a (AccountNonce t) p')" using same_lists_inv [OF sl] p'(2) by simp
  ultimately show ?thesis using p'(3-5) by (simp add: same_lists_def removed_from_def q_def)
qed

lemma removeTx_inv:
  assumes "pool_inv e {} X p" "env_ok e"
  shows "\<exists>p'. removeTx e h ob p = Some p' \<and> pool_inv e {} X p' \<and> removed_from p h p'"
proof (cases "txLookup_Get (pool_all p) h")
  case None
  then have "h \<notin> set (map fst (lk_all (pool_all p)))" by (simp add: txLookup_Get_def map_of_eq_None_iff)
  then have "txLookup_Remove h (pool_all p) = pool_all p" by (simp add: txLookup_Remove_def delete_idem)
  with None assms show ?thesis by (simp add: removeTx_unfold removed_from_def)
next
  case (Some t)
  then have t: "t \<in> known p" "h = e_hash e t" using pool_invD(7) [OF assms(1)] by (auto simp: books_def)
  show ?thesis
  proof (cases "t \<in> members (pending p)")
    case True
    then show ?thesis using removeTx_pending [OF assms(1) _ assms(2)] t(2) by blast
  next
    case False
    then have "t \<in> members (queue p)" using t(1) by (simp add: known_def)
    then show ?thesis
      using removeTx_queued [OF assms(1) _ assms(2), of t ob] remove_queued [OF assms(1) _ assms(2), of t ob] t(2) by auto
  qed
qed

end
