(* ===== verification/Tx_Pool_Steps.thy ===== *)
theory Tx_Pool_Steps
  imports Tx_Pool_Inv
begin

text \<open>
  Every operation of the pool returns, without a panic, and keeps the invariant: removal, promotion, demotion and the
  enforcement of the limits.  The two loops that shorten the lists of the largest accounts end, and never shorten an empty
  list, because the accounts they treat keep equal lengths.
\<close>

section \<open>Removing many\<close>

lemma removed_from_size: "removed_from p h p' \<Longrightarrow> txLookup_Count (pool_all p') \<le> txLookup_Count (pool_all p)"
  by (simp add: removed_from_def txLookup_Count_def txLookup_Remove_def AList.delete_eq)

lemma Get_Remove: "txLookup_Get (txLookup_Remove h t) g = (if g = h then None else txLookup_Get t g)"
  by (simp add: txLookup_Get_def txLookup_Remove_def delete_conv')

lemma remove_all_inv:
  assumes "pool_inv e {} X p" "env_ok e"
  shows "\<exists>p'. remove_all e ob ts p = Some p' \<and> pool_inv e {} X p' \<and> config p' = config p \<and> locals p' = locals p \<and>
     txLookup_Count (pool_all p') \<le> txLookup_Count (pool_all p) \<and>
     (\<forall>g. txLookup_Get (pool_all p') g = (if g \<in> e_hash e ` set ts then None else txLookup_Get (pool_all p) g))"
  using assms(1)
proof (induction ts arbitrary: p)
  case (Cons t ts)
  obtain p1 where p1: "removeTx e (e_hash e t) ob p = Some p1" "pool_inv e {} X p1" "removed_from p (e_hash e t) p1"
    using removeTx_inv [OF Cons.prems assms(2)] by blast
  with Cons.IH [OF p1(2)] removed_from_size [OF p1(3)] show ?case
    by (fastforce simp: removed_from_def Get_Remove)
qed simp

text \<open>Once the dropped transactions have left the pool, the heap is complete again.\<close>

lemma heap_complete:
  assumes "pool_inv e {} X p" "\<forall>t \<in> X. txLookup_Get (pool_all p) (e_hash e t) = None"
  shows "pool_inv e {} {} p"
proof -
  have "t \<notin> X" if "t \<in> known p" for t
    using books_Get [OF pool_invD(7) [OF assms(1)], of t] that assms(2) by auto
  then have "known p - X = known p" by auto
  with assms(1) show ?thesis by (simp add: pool_inv_def books_def)
qed

lemma set_priced_inv:
  assumes "pool_inv e {} {} p" "is_heap price_less (pl_items l)" "known p - X \<subseteq> set (pl_items l)"
  shows "pool_inv e {} X (p\<lparr>priced := l\<rparr>)"
  using assms by (auto simp: pool_inv_def books_def known_def)

section \<open>Promotion and demotion of an account\<close>

text \<open>One step of the body of a loop over accounts: take transactions out of the list and forget them.\<close>

lemma queue_forget:
  assumes "pool_inv e {} X p" "map_of (queue p) a = Some l" "splits l ts l'" "env_ok e"
  shows "\<exists>p'. forget_all e (map Some ts) (put_queue a l' p) = Some p' \<and> pool_inv e {} X p' \<and>
     queue p' = AList.update a l' (queue p) \<and> pending p' = pending p \<and> config p' = config p \<and> locals p' = locals p"
proof -
  note tq = take_queue [OF assms(1-3)]
  have "distinct ts" using owned_splits(5) [OF _ assms(3)] lists_okD [OF pool_invD(2) [OF assms(1)] assms(2)] by auto
  with forget_all_flight [OF tq(1) _ _ assms(4), of ts] show ?thesis by auto
qed

lemma pending_forget:
  assumes "pool_inv e {} X p" "map_of (pending p) a = Some l" "splits l ts l'" "env_ok e"
  shows "\<exists>p'. forget_all e (map Some ts) (put_pending a l' p) = Some p' \<and> pool_inv e {} X p' \<and>
     pending p' = AList.update a l' (pending p) \<and> queue p' = queue p \<and> config p' = config p \<and> locals p' = locals p"
proof -
  note tq = take_pending [OF assms(1-3)]
  have "distinct ts" using owned_splits(5) [OF _ assms(3)] lists_okD [OF pool_invD(1) [OF assms(1)] assms(2)] by auto
  with forget_all_flight [OF tq(1) _ _ assms(4), of ts] show ?thesis by auto
qed

lemma pending_enqueue:
  assumes "pool_inv e {} X p" "map_of (pending p) a = Some l" "splits l ts l'"
  shows "\<exists>p'. enqueue_all e (map Some ts) (put_pending a l' p) = Some p' \<and> pool_inv e {} X p' \<and>
     pending p' = AList.update a l' (pending p) \<and> config p' = config p \<and> locals p' = locals p"
proof -
  note tq = take_pending [OF assms(1-3)]
  have "distinct ts" using owned_splits(5) [OF _ assms(3)] lists_okD [OF pool_invD(1) [OF assms(1)] assms(2)] by auto
  with enqueue_all_flight [OF tq(1), of ts] show ?thesis by auto
qed

text \<open>\<^verbatim>\<open>Filter\<close> takes out two groups: the first is forgotten, the second goes back to the queue.\<close>

lemma pending_filter:
  assumes "pool_inv e {} X p" "map_of (pending p) a = Some l" "splits l (drops @ invalids) l'" "env_ok e"
  shows "\<exists>p1 p2. forget_all e (map Some drops) (put_pending a l' p) = Some p1 \<and> enqueue_all e (map Some invalids) p1 = Some p2 \<and>
     pool_inv e {} X p2 \<and> pending p2 = AList.update a l' (pending p) \<and> config p2 = config p \<and> locals p2 = locals p"
proof -
  note tq = take_pending [OF assms(1-3)]
  have d: "distinct (drops @ invalids)"
    using owned_splits(5) [OF _ assms(3)] lists_okD [OF pool_invD(1) [OF assms(1)] assms(2)] by auto
  have "\<exists>p1. forget_all e (map Some drops) (put_pending a l' p) = Some p1 \<and>
      pool_inv e ({} \<union> set (drops @ invalids) - set drops) X p1 \<and> pending p1 = pending (put_pending a l' p) \<and> queue p1 = queue (put_pending a l' p) \<and>
      config p1 = config (put_pending a l' p) \<and> locals p1 = locals (put_pending a l' p)"
    by (rule forget_all_flight [OF tq(1)]) (use d assms(4) in auto)
  moreover have "{} \<union> set (drops @ invalids) - set drops = set invalids" using d by auto
  ultimately obtain p1 where p1: "forget_all e (map Some drops) (put_pending a l' p) = Some p1" "pool_inv e (set invalids) X p1"
    "pending p1 = AList.update a l' (pending p)" "config p1 = config p" "locals p1 = locals p" by auto
  with enqueue_all_flight [OF p1(2) subset_refl] d show ?thesis by auto
qed

lemma empty_content: "list_ok l \<Longrightarrow> txList_Empty l \<Longrightarrow> content l = []"
  by (simp add: Empty_content)

definition account_queue_ok :: "TxPool \<Rightarrow> bool" where
  "account_queue_ok p \<longleftrightarrow> 0 \<le> sint (c_AccountQueue (config p))"

text \<open>The last step: an empty list is deleted.\<close>

lemma finish_queue:
  assumes "pool_inv e {} X p" "map_of (queue p) a = Some l"
  shows "pool_inv e {} X (if txList_Empty l then delete_queue a p else p)"
proof -
  have "list_ok l" using lists_okD [OF pool_invD(2) [OF assms(1)] assms(2)] by (simp add: owned_def)
  then have "txList_Empty l \<Longrightarrow> content (list_of False (queue p) a) = []" by (simp add: Empty_content list_of_def assms(2))
  with assms(1) delete_queue_inv show ?thesis by auto
qed

lemma finish_pending:
  assumes "pool_inv e {} X p" "map_of (pending p) a = Some l"
  shows "pool_inv e {} X (if txList_Empty l then delete_pending a p else p)"
proof -
  have "list_ok l" using lists_okD [OF pool_invD(1) [OF assms(1)] assms(2)] by (simp add: owned_def)
  then have "txList_Empty l \<Longrightarrow> content (list_of True (pending p) a) = []" by (simp add: Empty_content list_of_def assms(2))
  with assms(1) delete_pending_inv show ?thesis by auto
qed

lemma env_range: "env_ok e \<Longrightarrow> range_ok (e_nonces e)"
  by (simp add: env_ok_def)

lemma splits_ok: "splits l out l' \<Longrightarrow> list_ok l'"
  by (simp add: splits_def)

text \<open>The limit on the queue of an account applies to remote accounts only.\<close>

definition cap_queue :: "PoolEnv \<Rightarrow> Address \<Rightarrow> txList \<Rightarrow> TxPool \<Rightarrow> (txList \<times> TxPool) option" where
  "cap_queue e addr l p =
     (if \<not> as_contains (locals p) addr then
        do {
          (drops, l) \<leftarrow> txList_Cap (sint (c_AccountQueue (config p))) l;
          p \<leftarrow> forget_all e drops (put_queue addr l p);
          Some (l, p)
        }
      else Some (l, p))"

lemma cap_queue_inv:
  assumes "pool_inv e {} X p" "map_of (queue p) a = Some l" "account_queue_ok p" "env_ok e"
  shows "\<exists>l' p'. cap_queue e a l p = Some (l', p') \<and> pool_inv e {} X p' \<and> map_of (queue p') a = Some l' \<and> config p' = config p \<and> locals p' = locals p"
proof (cases "as_contains (locals p) a")
  case False
  have ok: "list_ok l" using lists_okD [OF pool_invD(2) [OF assms(1)] assms(2)] by (simp add: owned_def)
  obtain r l' where r: "txList_Cap (sint (c_AccountQueue (config p))) l = Some (map Some r, l')" "splits l r l'"
    using Cap_splits [OF ok] assms(3) unfolding account_queue_ok_def by blast
  obtain p' where "forget_all e (map Some r) (put_queue a l' p) = Some p'" "pool_inv e {} X p'" "queue p' = AList.update a l' (queue p)"
    "config p' = config p" "locals p' = locals p" using queue_forget [OF assms(1,2) r(2) assms(4)] by blast
  with False r(1) show ?thesis by (simp add: cap_queue_def update_conv')
qed (use assms in \<open>simp add: cap_queue_def\<close>)

lemma promote_account_unfold:
  "promote_account e a p =
     (case map_of (queue p) a of
        None \<Rightarrow> Some p
      | Some l \<Rightarrow>
          do {
            (old, l) \<leftarrow> txList_Forward (fst (state_nonce a p)) l;
            p \<leftarrow> forget_all e old (put_queue a l (snd (state_nonce a p)));
            let (b, p) = state_balance a p;
            let r = txList_Filter (e_nonces e) (e_nonces e) b (currentMaxGas p) l;
            p \<leftarrow> forget_all e (map Some (fst (fst r))) (put_queue a (snd r) p);
            let (n, p) = pending_nonce a p;
            (ready, l) \<leftarrow> txList_Ready n (snd r);
            p \<leftarrow> promote_all e a ready (put_queue a l p);
            (l, p) \<leftarrow> cap_queue e a l p;
            Some (if txList_Empty l then delete_queue a p else p)
          })"
  unfolding promote_account_def cap_queue_def Let_def by (simp add: case_prod_beta cong: option.case_cong)

lemma queue_ready:
  assumes "pool_inv e {} X p" "map_of (queue p) a = Some l" "splits l ts l'"
  shows "\<exists>p'. promote_all e a (map Some ts) (put_queue a l' p) = Some p' \<and> pool_inv e {} X p' \<and>
     queue p' = AList.update a l' (queue p) \<and> config p' = config p \<and> locals p' = locals p"
proof -
  note tq = take_queue [OF assms(1-3)]
  have ow: "owned e a l" using lists_okD [OF pool_invD(2) [OF assms(1)] assms(2)] by simp
  have "\<forall>t \<in> set ts. e_sender e t = Inr a" "distinct ts" using owned_splits(2,5) [OF ow assms(3)] by auto
  with promote_all_flight [OF tq(1), of ts a] show ?thesis by auto
qed

lemma promote_account_inv:
  assumes "pool_inv e {} X p" "account_queue_ok p" "env_ok e"
  shows "\<exists>p'. promote_account e a p = Some p' \<and> pool_inv e {} X p' \<and> config p' = config p \<and> locals p' = locals p"
proof (cases "map_of (queue p) a")
  case None
  with assms show ?thesis by (simp add: promote_account_unfold)
next
  case (Some l)
  obtain n p0 where n: "state_nonce a p = (n, p0)" by fastforce
  note s0 = state_reads(1) [OF n]
  have i0: "pool_inv e {} X p0" "map_of (queue p0) a = Some l" "config p0 = config p" "locals p0 = locals p"
    using same_lists_inv [OF s0] s0 assms(1) Some by (auto simp: same_lists_def)
  have l: "list_ok l" using lists_okD [OF pool_invD(2) [OF assms(1)] Some] by (simp add: owned_def)
  obtain old l1 where f1: "txList_Forward n l = Some (map Some old, l1)" "splits l old l1" using Forward_splits [OF l] by blast
  obtain p1 where p1: "forget_all e (map Some old) (put_queue a l1 p0) = Some p1" "pool_inv e {} X p1"
    "queue p1 = AList.update a l1 (queue p0)" "config p1 = config p0" "locals p1 = locals p0"
    using queue_forget [OF i0(1,2) f1(2) assms(3)] by blast
  obtain b p2 where b: "state_balance a p1 = (b, p2)" by fastforce
  note s2 = state_reads(2) [OF b]
  have i2: "pool_inv e {} X p2" "map_of (queue p2) a = Some l1" "config p2 = config p" "locals p2 = locals p"
    using same_lists_inv [OF s2] s2 p1 i0 by (auto simp: same_lists_def update_conv')
  have ns: "\<not> l_strict l1" using f1(2) lists_okD [OF pool_invD(2) [OF assms(1)] Some] by (simp add: splits_def)
  obtain drops l3 where f3: "txList_Filter (e_nonces e) (e_nonces e) b (currentMaxGas p2) l1 = ((drops, []), l3)" "splits l1 drops l3"
    using Filter_splits [OF splits_ok [OF f1(2)] env_range [OF assms(3)] env_range [OF assms(3)], of b "currentMaxGas p2"] ns by auto
  obtain p3 where p3: "forget_all e (map Some drops) (put_queue a l3 p2) = Some p3" "pool_inv e {} X p3"
    "queue p3 = AList.update a l3 (queue p2)" "config p3 = config p2" "locals p3 = locals p2"
    using queue_forget [OF i2(1,2) f3(2) assms(3)] by blast
  obtain m p4 where m: "pending_nonce a p3 = (m, p4)" by fastforce
  note s4 = state_reads(3) [OF m]
  have i4: "pool_inv e {} X p4" "map_of (queue p4) a = Some l3" "config p4 = config p" "locals p4 = locals p"
    using same_lists_inv [OF s4] s4 p3 i2 by (auto simp: same_lists_def update_conv')
  obtain ready l5 where f5: "txList_Ready m l3 = Some (map Some ready, l5)" "splits l3 ready l5"
    using Ready_splits [OF splits_ok [OF f3(2)]] by blast
  obtain p5 where p5: "promote_all e a (map Some ready) (put_queue a l5 p4) = Some p5" "pool_inv e {} X p5"
    "queue p5 = AList.update a l5 (queue p4)" "config p5 = config p4" "locals p5 = locals p4"
    using queue_ready [OF i4(1,2) f5(2)] by blast
  have q5: "map_of (queue p5) a = Some l5" "account_queue_ok p5" using p5 i4 assms(2) by (simp_all add: update_conv' account_queue_ok_def)
  obtain l6 p6 where p6: "cap_queue e a l5 p5 = Some (l6, p6)" "pool_inv e {} X p6" "map_of (queue p6) a = Some l6"
    "config p6 = config p5" "locals p6 = locals p5" using cap_queue_inv [OF p5(2) q5 assms(3)] by blast
  have "promote_account e a p = Some (if txList_Empty l6 then delete_queue a p6 else p6)"
    using Some n f1(1) p1(1) b f3(1) p3(1) m f5(1) p5(1) p6(1) by (simp add: promote_account_unfold)
  with finish_queue [OF p6(2,3)] p6 p5 i4 show ?thesis by auto
qed

lemma promote_accounts_inv:
  assumes "pool_inv e {} X p" "account_queue_ok p" "env_ok e"
  shows "\<exists>p'. promote_accounts e as p = Some p' \<and> pool_inv e {} X p' \<and> config p' = config p \<and> locals p' = locals p"
  using assms(1,2)
proof (induction as arbitrary: p)
  case (Cons a as)
  obtain p1 where p1: "promote_account e a p = Some p1" "pool_inv e {} X p1" "config p1 = config p" "locals p1 = locals p"
    using promote_account_inv [OF Cons.prems assms(3)] by blast
  with Cons.IH [OF p1(2)] Cons.prems(2) show ?case by (auto simp: account_queue_ok_def)
qed simp

text \<open>When the first nonce of an account is missing, all its transactions go back to the queue.\<close>

definition postpone :: "PoolEnv \<Rightarrow> Address \<Rightarrow> uint64 \<Rightarrow> txList \<Rightarrow> TxPool \<Rightarrow> (txList \<times> TxPool) option" where
  "postpone e addr nonce l p =
     (if 0 < txList_Len l \<and> sm_Get (l_txs l) nonce = None then
        do {
          (capped, l) \<leftarrow> txList_Cap 0 l;
          p \<leftarrow> enqueue_all e capped (put_pending addr l p);
          Some (l, p)
        }
      else Some (l, p))"

lemma postpone_inv:
  assumes "pool_inv e {} X p" "map_of (pending p) a = Some l"
  shows "\<exists>l' p'. postpone e a n l p = Some (l', p') \<and> pool_inv e {} X p' \<and> pending p' = AList.update a l' (pending p) \<and>
     (content l' = [] \<or> n \<in> AccountNonce ` set (content l')) \<and> config p' = config p \<and> locals p' = locals p"
proof -
  have ok: "list_ok l" using lists_okD [OF pool_invD(1) [OF assms(1)] assms(2)] by (simp add: owned_def)
  show ?thesis
  proof (cases "0 < txList_Len l \<and> sm_Get (l_txs l) n = None")
    case True
    obtain r l' where r: "txList_Cap 0 l = Some (map Some r, l')" "splits l r l'" "content l' = []" using Cap_splits [OF ok, of 0] by auto
    obtain p' where "enqueue_all e (map Some r) (put_pending a l' p) = Some p'" "pool_inv e {} X p'"
      "pending p' = AList.update a l' (pending p)" "config p' = config p" "locals p' = locals p" using pending_enqueue [OF assms r(2)] by blast
    with True r show ?thesis by (simp add: postpone_def)
  next
    case False
    then have "content l = [] \<or> n \<in> AccountNonce ` set (content l)" using Get_None [OF ok, of n] Len_content [OF ok] by auto
    with False assms put_same [OF pool_invD(1) [OF assms(1)] assms(2)] show ?thesis by (auto simp: postpone_def)
  qed
qed

lemma demote_account_unfold:
  "demote_account e a p =
     (case map_of (pending p) a of
        None \<Rightarrow> Some p
      | Some l \<Rightarrow>
          do {
            (old, l) \<leftarrow> txList_Forward (fst (state_nonce a p)) l;
            p1 \<leftarrow> forget_all e old (put_pending a l (snd (state_nonce a p)));
            let (b, p2) = state_balance a p1;
            let r = txList_Filter (e_nonces e) (e_nonces e) b (currentMaxGas p2) l;
            p3 \<leftarrow> forget_all e (map Some (fst (fst r))) (put_pending a (snd r) p2);
            p4 \<leftarrow> enqueue_all e (map Some (snd (fst r))) p3;
            (l, p5) \<leftarrow> postpone e a (fst (state_nonce a p)) (snd r) p4;
            Some (if txList_Empty l then delete_pending a p5 else p5)
          })"
  unfolding demote_account_def postpone_def Let_def by (simp add: case_prod_beta cong: option.case_cong)

lemma demote_account_inv:
  assumes "pool_inv e {} X p" "env_ok e"
  shows "\<exists>p'. demote_account e a p = Some p' \<and> pool_inv e {} X p' \<and> config p' = config p \<and> locals p' = locals p \<and>
     (\<forall>l. map_of (pending p') a = Some l \<longrightarrow> content l \<noteq> []) \<and> (\<forall>b. b \<noteq> a \<longrightarrow> map_of (pending p') b = map_of (pending p) b)"
proof (cases "map_of (pending p) a")
  case None
  with assms show ?thesis by (simp add: demote_account_unfold)
next
  case (Some l)
  obtain n p0 where n: "state_nonce a p = (n, p0)" by fastforce
  note s0 = state_reads(1) [OF n]
  have i0: "pool_inv e {} X p0" "map_of (pending p0) a = Some l" "pending p0 = pending p" "config p0 = config p" "locals p0 = locals p"
    using same_lists_inv [OF s0] s0 assms(1) Some by (auto simp: same_lists_def)
  have l: "list_ok l" using lists_okD [OF pool_invD(1) [OF assms(1)] Some] by (simp add: owned_def)
  obtain old l1 where f1: "txList_Forward n l = Some (map Some old, l1)" "splits l old l1" using Forward_splits [OF l] by blast
  obtain p1 where p1: "forget_all e (map Some old) (put_pending a l1 p0) = Some p1" "pool_inv e {} X p1"
    "pending p1 = AList.update a l1 (pending p0)" "config p1 = config p0" "locals p1 = locals p0"
    using pending_forget [OF i0(1,2) f1(2) assms(2)] by blast
  obtain b p2 where b: "state_balance a p1 = (b, p2)" by fastforce
  note s2 = state_reads(2) [OF b]
  have i2: "pool_inv e {} X p2" "map_of (pending p2) a = Some l1" "pending p2 = AList.update a l1 (pending p)" "config p2 = config p" "locals p2 = locals p"
    using same_lists_inv [OF s2] s2 p1 i0 by (auto simp: same_lists_def update_conv')
  obtain drops invalids l3 where f3: "txList_Filter (e_nonces e) (e_nonces e) b (currentMaxGas p2) l1 = ((drops, invalids), l3)"
    "splits l1 (drops @ invalids) l3"
    using Filter_splits [OF splits_ok [OF f1(2)] env_range [OF assms(2)] env_range [OF assms(2)], of b "currentMaxGas p2"] by blast
  obtain p3 p4 where p4: "forget_all e (map Some drops) (put_pending a l3 p2) = Some p3" "enqueue_all e (map Some invalids) p3 = Some p4"
    "pool_inv e {} X p4" "pending p4 = AList.update a l3 (pending p2)" "config p4 = config p2" "locals p4 = locals p2"
    using pending_filter [OF i2(1,2) f3(2) assms(2)] by blast
  have q4: "map_of (pending p4) a = Some l3" using p4(4) by (simp add: update_conv')
  obtain l5 p5 where p5: "postpone e a n l3 p4 = Some (l5, p5)" "pool_inv e {} X p5" "pending p5 = AList.update a l5 (pending p4)"
    "config p5 = config p4" "locals p5 = locals p4" using postpone_inv [OF p4(3) q4, of n] by blast
  have q5: "map_of (pending p5) a = Some l5" using p5(3) by (simp add: update_conv')
  have ok5: "list_ok l5" using lists_okD [OF pool_invD(1) [OF p5(2)] q5] by (simp add: owned_def)
  have "demote_account e a p = Some (if txList_Empty l5 then delete_pending a p5 else p5)"
    using Some n f1(1) p1(1) b f3(1) p4(1,2) p5(1) by (simp add: demote_account_unfold)
  moreover have "map_of (pending p5) c = map_of (pending p) c" if "c \<noteq> a" for c
    using that p5(3) p4(4) i2(3) by (simp add: update_conv')
  ultimately show ?thesis using finish_pending [OF p5(2) q5] p5 p4 i2 q5 Empty_content [OF ok5]
    by (auto simp: delete_conv')
qed

lemma demote_accounts_inv:
  assumes "pool_inv e {} X p" "env_ok e"
  shows "\<exists>p'. demote_accounts e as p = Some p' \<and> pool_inv e {} X p' \<and> config p' = config p \<and> locals p' = locals p \<and>
     (\<forall>a l. map_of (pending p') a = Some l \<longrightarrow> (a \<in> set as \<longrightarrow> content l \<noteq> []) \<and> (a \<notin> set as \<longrightarrow> map_of (pending p) a = Some l))"
  using assms(1)
proof (induction as arbitrary: p)
  case (Cons a as)
  obtain p1 where p1: "demote_account e a p = Some p1" "pool_inv e {} X p1" "config p1 = config p" "locals p1 = locals p"
    "\<forall>l. map_of (pending p1) a = Some l \<longrightarrow> content l \<noteq> []" "\<forall>b. b \<noteq> a \<longrightarrow> map_of (pending p1) b = map_of (pending p) b"
    using demote_account_inv [OF Cons.prems assms(2)] by blast
  obtain p2 where p2: "demote_accounts e as p1 = Some p2" "pool_inv e {} X p2" "config p2 = config p1" "locals p2 = locals p1"
    "\<forall>a l. map_of (pending p2) a = Some l \<longrightarrow> (a \<in> set as \<longrightarrow> content l \<noteq> []) \<and> (a \<notin> set as \<longrightarrow> map_of (pending p1) a = Some l)"
    using Cons.IH [OF p1(2)] by blast
  have "(c \<in> set (a # as) \<longrightarrow> content l \<noteq> []) \<and> (c \<notin> set (a # as) \<longrightarrow> map_of (pending p) c = Some l)"
    if "map_of (pending p2) c = Some l" for c l
    using p2(5) that p1(5,6) by (cases "c = a"; cases "c \<in> set as") fastforce+
  with p1 p2 show ?case by auto
qed simp

lemma accounts_listed: "env_ok e \<Longrightarrow> lists_ok e s m \<Longrightarrow> set (e_accounts e m) = dom (map_of m) \<and> distinct (e_accounts e m)"
  using mset_eq_setD [of "e_accounts e m" "map fst m"] mset_eq_imp_distinct_iff [of "e_accounts e m" "map fst m"]
  by (auto simp: env_ok_def lists_ok_def dom_map_of_conv_image_fst)

lemma demoteUnexecutables_inv:
  assumes "pool_inv e {} X p" "env_ok e"
  shows "\<exists>p'. demoteUnexecutables e p = Some p' \<and> pool_inv e {} X p' \<and> config p' = config p \<and> locals p' = locals p \<and>
     (\<forall>a l. map_of (pending p') a = Some l \<longrightarrow> content l \<noteq> [])"
proof -
  obtain p' where p': "demote_accounts e (e_accounts e (pending p)) p = Some p'" "pool_inv e {} X p'" "config p' = config p" "locals p' = locals p"
    "\<forall>a l. map_of (pending p') a = Some l \<longrightarrow> (a \<in> set (e_accounts e (pending p)) \<longrightarrow> content l \<noteq> []) \<and>
       (a \<notin> set (e_accounts e (pending p)) \<longrightarrow> map_of (pending p) a = Some l)"
    using demote_accounts_inv [OF assms] by blast
  moreover have "set (e_accounts e (pending p)) = dom (map_of (pending p))"
    using accounts_listed [OF assms(2) pool_invD(1) [OF assms(1)]] by simp
  ultimately show ?thesis unfolding demoteUnexecutables_def by (metis domI)
qed

end
