(* ===== verification/Tx_Pool_Limits.thy ===== *)
theory Tx_Pool_Limits
  imports Tx_Pool_Steps
begin

text \<open>
  The limits of the pool.  When there are too many pending transactions, the largest remote accounts lose transactions
  until the total fits or none of them has more than its guaranteed share; when there are too many queued ones, remote
  accounts lose them until the total fits or only local ones are left.
\<close>

section \<open>Lengths\<close>

definition llen :: "accountLists \<Rightarrow> Address \<Rightarrow> nat" where
  "llen m a = (case map_of m a of None \<Rightarrow> 0 | Some l \<Rightarrow> txList_Len l)"

lemma total_len_Cons [simp]: "total_len ((a, l) # m) = of_nat (txList_Len l) + total_len m"
  by (simp add: total_len_def)

lemma total_len_update:
  "distinct (map fst m) \<Longrightarrow> total_len (AList.update a l m) = total_len m + of_nat (txList_Len l) - of_nat (llen m a)"
  by (induction m) (auto simp: llen_def total_len_def map_of_eq_None_iff split: option.splits)

lemma llen_update [simp]: "llen (AList.update a l m) b = (if b = a then txList_Len l else llen m b)"
  by (simp add: llen_def update_conv')

lemma total_len_delete: "distinct (map fst m) \<Longrightarrow> total_len (AList.delete a m) = total_len m - of_nat (llen m a)"
proof (induction m)
  case (Cons x m)
  then show ?case by (cases x; cases "fst x = a") (auto simp: llen_def map_of_eq_None_iff delete_idem split: option.splits)
qed (simp add: llen_def total_len_def)

lemma llen_delete [simp]: "llen (AList.delete a m) b = (if b = a then 0 else llen m b)"
  by (simp add: llen_def delete_conv')

lemma splits_Len:
  assumes "list_ok l" "splits l out l'"
  shows "txList_Len l = length out + txList_Len l'"
  using assms Len_content [of l] Len_content [of l'] mset_eq_length [of "content l" "out @ content l'"]
  by (simp add: splits_def)

section \<open>Shortening the lists of the largest accounts\<close>

text \<open>What the loops leave alone.\<close>

definition limited :: "PoolEnv \<Rightarrow> TxPool \<Rightarrow> TxPool \<Rightarrow> bool" where
  "limited e p p' \<longleftrightarrow> pool_inv e {} {} p' \<and> queue p' = queue p \<and> config p' = config p \<and> locals p' = locals p \<and>
     dom (map_of (pending p')) = dom (map_of (pending p))"

lemma limited_trans: "limited e p p' \<Longrightarrow> limited e p' p'' \<Longrightarrow> limited e p p''"
  by (simp add: limited_def)

lemma cap_one:
  assumes "pool_inv e {} {} p" "map_of (pending p) a = Some l" "0 < txList_Len l" "env_ok e"
  shows "\<exists>drops l' p'. txList_Cap (int (txList_Len l) - 1) l = Some (drops, l') \<and> drop_capped e a drops (put_pending a l' p) = Some p' \<and>
     limited e p p' \<and> (\<forall>b. llen (pending p') b = llen (pending p) b - (if b = a then 1 else 0)) \<and>
     total_len (pending p') = total_len (pending p) - 1"
proof -
  note inv = pool_invD [OF assms(1)]
  have ok: "list_ok l" using lists_okD [OF inv(1) assms(2)] by (simp add: owned_def)
  have len: "txList_Len l = length (content l)" by (rule Len_content [OF ok])
  obtain r l' where r: "txList_Cap (int (txList_Len l) - 1) l = Some (map Some r, l')" "splits l r l'"
    "r = rev (drop (nat (int (txList_Len l) - 1)) (content l))"
    using Cap_splits [OF ok, of "int (txList_Len l) - 1"] assms(3) by auto
  have "nat (int (txList_Len l) - 1) = txList_Len l - 1" by linarith
  then have "length r = 1" using r(3) len assms(3) by (cases "content l") simp_all
  then obtain t where t: "r = [t]" by (cases r) auto
  have i: "pool_inv e {t} {} (put_pending a l' p)" using take_pending(1) [OF assms(1,2) r(2)] by (simp add: t)
  define q where "q = forget e (e_hash e t) (put_pending a l' p)"
  define p' where "p' = lower_pending_nonce a (AccountNonce t) q"
  have s: "same_lists q p'" unfolding p'_def by (rule state_reads)
  have q: "pool_inv e {} {} q" using forget_flight [OF i _ assms(4), of t] by (simp add: q_def)
  have pend: "pending p' = AList.update a l' (pending p)" using s by (simp add: same_lists_def q_def)
  have "limited e p p'"
    using same_lists_inv [OF s] q s assms(2) by (auto simp: limited_def same_lists_def q_def update_conv' domI)
  moreover have L: "txList_Len l = Suc (txList_Len l')" using splits_Len [OF ok r(2)] by (simp add: t)
  moreover have ll: "llen (pending p) a = txList_Len l" by (simp add: llen_def assms(2))
  moreover have "total_len (pending p') = total_len (pending p) - 1"
    using total_len_update [of "pending p" a l'] inv(1) ll L by (simp add: pend lists_ok_def)
  ultimately show ?thesis using r(1) t by (auto simp: p'_def [symmetric] q_def [symmetric] pend)
qed

lemma cap_each_correct:
  assumes "pool_inv e {} {} p" "distinct as" "\<forall>a \<in> set as. 0 < llen (pending p) a" "env_ok e" "cnt = total_len (pending p)"
  shows "\<exists>p'. cap_each e as cnt p = Some (total_len (pending p'), p') \<and> limited e p p' \<and>
     (\<forall>b. llen (pending p') b = llen (pending p) b - (if b \<in> set as then 1 else 0))"
  using assms
proof (induction as arbitrary: p cnt)
  case Nil
  then show ?case by (simp add: limited_def)
next
  case (Cons a as)
  obtain l where l: "map_of (pending p) a = Some l" "0 < txList_Len l" using Cons.prems(3) by (auto simp: llen_def split: option.splits)
  obtain drops l' p1 where c: "txList_Cap (int (txList_Len l) - 1) l = Some (drops, l')" "drop_capped e a drops (put_pending a l' p) = Some p1"
    "limited e p p1" "\<forall>b. llen (pending p1) b = llen (pending p) b - (if b = a then 1 else 0)" "total_len (pending p1) = total_len (pending p) - 1"
    using cap_one [OF Cons.prems(1) l Cons.prems(4)] by blast
  have i: "pool_inv e {} {} p1" using c(3) by (simp add: limited_def)
  have long: "\<forall>b \<in> set as. 0 < llen (pending p1) b" using Cons.prems(2,3) c(4) by auto
  obtain p2 where p2: "cap_each e as (total_len (pending p1)) p1 = Some (total_len (pending p2), p2)" "limited e p1 p2"
    "\<forall>b. llen (pending p2) b = llen (pending p1) b - (if b \<in> set as then 1 else 0)"
    using Cons.IH [OF i _ long Cons.prems(4) refl] Cons.prems(2) by auto
  have "cap_each e (a # as) cnt p = Some (total_len (pending p2), p2)" using l(1) c(1,2,5) p2(1) Cons.prems(5) by simp
  moreover have "llen (pending p2) b = llen (pending p) b - (if b \<in> set (a # as) then 1 else 0)" for b
    using p2(3) c(4) Cons.prems(2) by auto
  ultimately show ?case using limited_trans [OF c(3) p2(2)] by blast
qed

text \<open>
  The accounts that a loop treats have lists of the same length \<open>L\<close>, so all of them are long enough as long as the last one is.
\<close>

lemma reduce_loop_correct:
  assumes "pool_inv e {} {} p" "distinct as" "as \<noteq> []" "\<forall>a \<in> set as. a \<in> dom (map_of (pending p)) \<and> llen (pending p) a = L"
    "env_ok e" "\<not> too_long 0"
  shows "\<exists>p' L'. reduce_loop e as (last as) too_long (total_len (pending p)) p = Some (total_len (pending p'), p') \<and> limited e p p' \<and>
     (\<forall>b. llen (pending p') b = (if b \<in> set as then L' else llen (pending p) b)) \<and> L' \<le> L \<and>
     (L' < L \<longrightarrow> too_long (Suc L')) \<and> (total_len (pending p') \<le> c_GlobalSlots (config p) \<or> \<not> too_long L')"
  using assms(1,4)
proof (induction L arbitrary: p rule: less_induct)
  case (less L)
  have l: "last as \<in> set as" using assms(3) by simp
  obtain k where k: "map_of (pending p) (last as) = Some k" "txList_Len k = L" using less.prems(2) l by (auto simp: llen_def)
  show ?case
  proof (cases "c_GlobalSlots (config p) < total_len (pending p) \<and> too_long L")
    case False
    then have "reduce_loop e as (last as) too_long (total_len (pending p)) p = Some (total_len (pending p), p)"
      using k by (subst reduce_loop.simps) auto
    with False less.prems show ?thesis by (intro exI [of _ p] exI [of _ L]) (auto simp: limited_def not_less)
  next
    case True
    then have pos: "0 < L" using assms(6) by (cases L) auto
    then have "\<forall>a \<in> set as. 0 < llen (pending p) a" using less.prems(2) by simp
    from cap_each_correct [OF less.prems(1) assms(2) this assms(5) refl] obtain p1 where
      c: "cap_each e as (total_len (pending p)) p = Some (total_len (pending p1), p1)" "limited e p p1"
      "\<forall>b. llen (pending p1) b = llen (pending p) b - (if b \<in> set as then 1 else 0)" by blast
    have "\<forall>a \<in> set as. a \<in> dom (map_of (pending p1)) \<and> llen (pending p1) a = L - 1"
      using less.prems(2) c(2,3) by (auto simp: limited_def)
    moreover have "pool_inv e {} {} p1" using c(2) by (simp add: limited_def)
    ultimately obtain p2 L2 where p2: "reduce_loop e as (last as) too_long (total_len (pending p1)) p1 = Some (total_len (pending p2), p2)"
      "limited e p1 p2" "\<forall>b. llen (pending p2) b = (if b \<in> set as then L2 else llen (pending p1) b)" "L2 \<le> L - 1"
      "L2 < L - 1 \<longrightarrow> too_long (Suc L2)" "total_len (pending p2) \<le> c_GlobalSlots (config p1) \<or> \<not> too_long L2"
      using less.IH [of "L - 1" p1] pos by auto
    have "reduce_loop e as (last as) too_long (total_len (pending p)) p = Some (total_len (pending p2), p2)"
      using True k c(1) p2(1) by (subst reduce_loop.simps) simp
    moreover have "L2 < L \<longrightarrow> too_long (Suc L2)" using p2(4,5) True pos by (cases "L2 = L - 1") auto
    ultimately show ?thesis
      using limited_trans [OF c(2) p2(2)] p2(3,4,6) c(2,3) by (intro exI [of _ p2] exI [of _ L2]) (auto simp: limited_def)
  qed
qed

text \<open>The loop over the priority queue: \<open>sp\<close> are the accounts still to come, by length, \<open>os\<close> those already treated.\<close>

definition spam_ok :: "TxPool \<Rightarrow> (Address \<times> nat) list \<Rightarrow> Address list \<Rightarrow> bool" where
  "spam_ok p sp os \<longleftrightarrow> is_heap prque_less sp \<and> distinct (map fst sp @ os) \<and>
     (\<forall>(a, k) \<in> set sp. a \<in> dom (map_of (pending p)) \<and> llen (pending p) a = k) \<and> set os \<subseteq> dom (map_of (pending p))"

definition level :: "TxPool \<Rightarrow> (Address \<times> nat) list \<Rightarrow> Address list \<Rightarrow> nat \<Rightarrow> bool" where
  "level p sp os L \<longleftrightarrow> (\<forall>a \<in> set os. llen (pending p) a = L) \<and> (\<forall>(a, k) \<in> set sp. k \<le> L)"

lemma spam_pop:
  assumes "spam_ok p sp os" "sp \<noteq> []"
  obtains a k sp' where "heap_Pop prque_less sp = Some ((a, k), sp')" "spam_ok p sp' (os @ [a])" "(a, k) \<in> set sp"
    "set sp = insert (a, k) (set sp')" "\<forall>(b, j) \<in> set sp. j \<le> k" "a \<in> dom (map_of (pending p))" "llen (pending p) a = k"
proof -
  have h: "is_heap prque_less sp" using assms(1) by (simp add: spam_ok_def)
  obtain sp' where p: "heap_Pop prque_less sp = Some (sp ! 0, sp')" "is_heap prque_less sp'" "mset sp = add_mset (sp ! 0) (mset sp')"
    "set sp = insert (sp ! 0) (set sp')" using prque.pop_cases [OF h assms(2)] by blast
  obtain a k where ak: "sp ! 0 = (a, k)" by fastforce
  have "mset (map fst sp @ os) = mset (map fst sp' @ os @ [a])" using arg_cong [OF p(3), of "image_mset fst"] by (simp add: ak)
  then have "distinct (map fst sp' @ os @ [a])" using assms(1) mset_eq_imp_distinct_iff unfolding spam_ok_def by blast
  moreover have "j \<le> k" if "(b, j) \<in> set sp" for b j using prque.least [OF h that] by (simp add: ak prque_less_def)
  ultimately show thesis
    using assms(1) p ak by (intro that [of a k sp']) (auto simp: spam_ok_def)
qed

text \<open>Equalising the accounts that were treated with the next one.\<close>

lemma equalise:
  assumes inv: "pool_inv e {} {} p" and env: "env_ok e" and os: "os \<noteq> []" and sp: "spam_ok p sp' (os @ [a])"
    and L: "\<forall>b \<in> set os. llen (pending p) b = L" "k \<le> L" and below: "\<forall>(b, j) \<in> set sp'. j \<le> k" and k: "llen (pending p) a = k"
  shows "\<exists>p'. reduce_loop e os (last os) (\<lambda>len. k < len) (total_len (pending p)) p = Some (total_len (pending p'), p') \<and> limited e p p' \<and>
     spam_ok p' sp' (os @ [a]) \<and> (c_GlobalSlots (config p) < total_len (pending p') \<longrightarrow> level p' sp' (os @ [a]) k) \<and>
     (\<forall>b. b \<notin> set os \<longrightarrow> llen (pending p') b = llen (pending p) b) \<and> (\<forall>b \<in> set os. k \<le> llen (pending p') b) \<and>
     (\<forall>b. llen (pending p') b \<le> llen (pending p) b)"
proof -
  have "distinct os" "\<forall>b \<in> set os. b \<in> dom (map_of (pending p)) \<and> llen (pending p) b = L" using sp L by (auto simp: spam_ok_def)
  from reduce_loop_correct [OF inv this(1) os this(2) env, of "\<lambda>len. k < len"] obtain p' L' where
    r: "reduce_loop e os (last os) (\<lambda>len. k < len) (total_len (pending p)) p = Some (total_len (pending p'), p')" "limited e p p'"
    "\<forall>b. llen (pending p') b = (if b \<in> set os then L' else llen (pending p) b)" "L' \<le> L" "L' < L \<longrightarrow> k < Suc L'"
    "total_len (pending p') \<le> c_GlobalSlots (config p) \<or> \<not> k < L'" by auto
  have "L' = k" if "c_GlobalSlots (config p) < total_len (pending p')" using r(4-6) L(2) that by (cases "L' < L") auto
  moreover have out: "a \<notin> set os" "\<forall>(b, j) \<in> set sp'. b \<notin> set os" using sp by (auto simp: spam_ok_def)
  ultimately have "c_GlobalSlots (config p) < total_len (pending p') \<longrightarrow> level p' sp' (os @ [a]) k"
    using r(3) k below by (auto simp: level_def)
  moreover have "spam_ok p' sp' (os @ [a])" using sp r(2,3) out by (auto simp: spam_ok_def limited_def)
  moreover have "k \<le> L'" using r(4,5) L(2) by (cases "L' < L") auto
  moreover have "\<forall>b. llen (pending p') b \<le> llen (pending p) b" using r(3,4) L(1) by auto
  ultimately show ?thesis using r(1-3) by auto
qed

lemma offender_loop_correct:
  assumes "pool_inv e {} {} p" "env_ok e" "spam_ok p sp os" "c_GlobalSlots (config p) < total_len (pending p) \<longrightarrow> (\<exists>L. level p sp os L)"
    "(\<forall>b \<in> set os. K \<le> llen (pending p) b) \<and> (\<forall>(b, k) \<in> set sp. K \<le> k)"
  shows "\<exists>os' p'. offender_loop e sp os (total_len (pending p)) p = Some (os', total_len (pending p'), p') \<and> limited e p p' \<and>
     distinct os' \<and> set os' \<subseteq> dom (map_of (pending p')) \<and> set os \<subseteq> set os' \<and> set os' \<subseteq> set os \<union> fst ` set sp \<and>
     (\<forall>b. b \<notin> set os' \<longrightarrow> llen (pending p') b = llen (pending p) b) \<and> (\<forall>b \<in> set os'. K \<le> llen (pending p') b) \<and>
     (\<forall>b. llen (pending p') b \<le> llen (pending p) b) \<and>
     (c_GlobalSlots (config p) < total_len (pending p') \<longrightarrow> fst ` set sp \<subseteq> set os' \<and> (\<exists>L. \<forall>a \<in> set os'. llen (pending p') a = L))"
  using assms(1,3,4,5)
proof (induction "length sp" arbitrary: sp os p rule: less_induct)
  case less
  show ?case
  proof (cases "c_GlobalSlots (config p) < total_len (pending p) \<and> sp \<noteq> []")
    case False
    then have "offender_loop e sp os (total_len (pending p)) p = Some (os, total_len (pending p), p)" by (subst offender_loop.simps) auto
    with False less.prems show ?thesis by (auto simp: spam_ok_def limited_def level_def)
  next
    case True
    then obtain L where L: "level p sp os L" using less.prems(3) by blast
    obtain a k sp' where a: "heap_Pop prque_less sp = Some ((a, k), sp')" "spam_ok p sp' (os @ [a])" "(a, k) \<in> set sp"
      "set sp = insert (a, k) (set sp')" "\<forall>(b, j) \<in> set sp. j \<le> k" "a \<in> dom (map_of (pending p))" "llen (pending p) a = k"
      using spam_pop [OF less.prems(2)] True by blast
    obtain l where l: "map_of (pending p) a = Some l" "txList_Len l = k" using a(6,7) by (auto simp: llen_def)
    have "\<exists>p1. (if os \<noteq> [] then reduce_loop e os (last os) (\<lambda>len. k < len) (total_len (pending p)) p else Some (total_len (pending p), p)) =
        Some (total_len (pending p1), p1) \<and> limited e p p1 \<and> spam_ok p1 sp' (os @ [a]) \<and>
        (c_GlobalSlots (config p) < total_len (pending p1) \<longrightarrow> level p1 sp' (os @ [a]) k) \<and>
        (\<forall>b. b \<notin> set os \<longrightarrow> llen (pending p1) b = llen (pending p) b) \<and> (\<forall>b \<in> set os. k \<le> llen (pending p1) b) \<and> (\<forall>b. llen (pending p1) b \<le> llen (pending p) b)"
    proof (cases "os = []")
      case True
      with less.prems(1) a show ?thesis by (auto simp: level_def limited_def)
    next
      case False
      have "\<forall>b \<in> set os. llen (pending p) b = L" "k \<le> L" using L a(3) by (auto simp: level_def)
      with equalise [OF less.prems(1) assms(2) False a(2) this _ a(7)] a(4,5) False show ?thesis by auto
    qed
    then obtain p1 where p1: "(if os \<noteq> [] then reduce_loop e os (last os) (\<lambda>len. k < len) (total_len (pending p)) p else Some (total_len (pending p), p)) =
        Some (total_len (pending p1), p1)" "limited e p p1" "spam_ok p1 sp' (os @ [a])"
      "c_GlobalSlots (config p) < total_len (pending p1) \<longrightarrow> level p1 sp' (os @ [a]) k"
      "\<forall>b. b \<notin> set os \<longrightarrow> llen (pending p1) b = llen (pending p) b" "\<forall>b \<in> set os. k \<le> llen (pending p1) b" "\<forall>b. llen (pending p1) b \<le> llen (pending p) b" by blast
    have "K \<le> k" using less.prems(4) a(3) by auto
    moreover have "llen (pending p1) a = k" using p1(5) a(2,7) by (auto simp: spam_ok_def)
    ultimately have K: "(\<forall>b \<in> set (os @ [a]). K \<le> llen (pending p1) b) \<and> (\<forall>(b, k) \<in> set sp'. K \<le> k)"
      using p1(6) less.prems(4) a(4) by (auto intro: le_trans)
    have unf: "offender_loop e sp os (total_len (pending p)) p = offender_loop e sp' (os @ [a]) (total_len (pending p1)) p1"
      using True a(1) l p1(1) by (subst offender_loop.simps) (auto split: if_splits)
    have cfg: "config p1 = config p" "pool_inv e {} {} p1" using p1(2) by (auto simp: limited_def)
    have lev: "c_GlobalSlots (config p1) < total_len (pending p1) \<longrightarrow> (\<exists>L. level p1 sp' (os @ [a]) L)" using p1(4) cfg(1) by auto
    obtain os' p' where r: "offender_loop e sp' (os @ [a]) (total_len (pending p1)) p1 = Some (os', total_len (pending p'), p')" "limited e p1 p'"
      "distinct os'" "set os' \<subseteq> dom (map_of (pending p'))" "set (os @ [a]) \<subseteq> set os'" "set os' \<subseteq> set (os @ [a]) \<union> fst ` set sp'"
      "\<forall>b. b \<notin> set os' \<longrightarrow> llen (pending p') b = llen (pending p1) b" "\<forall>b \<in> set os'. K \<le> llen (pending p') b"
      "\<forall>b. llen (pending p') b \<le> llen (pending p1) b"
      "c_GlobalSlots (config p1) < total_len (pending p') \<longrightarrow> fst ` set sp' \<subseteq> set os' \<and> (\<exists>L. \<forall>a \<in> set os'. llen (pending p') a = L)"
      using less.hyps [OF heap_Pop_length [OF a(1)] cfg(2) p1(3) lev K] by (elim exE conjE) (rule that)
    have "llen (pending p') b = llen (pending p) b" if "b \<notin> set os'" for b
      using r(5,7) p1(5) that by auto
    moreover have "\<forall>b. llen (pending p') b \<le> llen (pending p) b" using r(9) p1(7) by (blast intro: le_trans)
    ultimately show ?thesis using r(1-6,8,10) limited_trans [OF p1(2) r(2)] a(4) cfg(1) unfolding unf by auto
  qed
qed

definition spammer :: "TxPool \<Rightarrow> accountLists \<Rightarrow> Address \<Rightarrow> bool" where
  "spammer p m a \<longleftrightarrow> a \<in> dom (map_of m) \<and> \<not> as_contains (locals p) a \<and> c_AccountSlots (config p) < of_nat (llen m a)"

lemma spam_order_correct:
  assumes "is_heap prque_less sp"
  shows "is_heap prque_less (spam_order p m as sp) \<and>
     mset (spam_order p m as sp) = mset sp + mset (map (\<lambda>a. (a, llen m a)) (filter (spammer p m) as))"
  using assms
proof (induction as arbitrary: sp)
  case (Cons a as)
  have push: "is_heap prque_less (heap_Push prque_less sp x)" "mset (heap_Push prque_less sp x) = add_mset x (mset sp)" for x
    using prque.push [OF Cons.prems] by auto
  show ?case
  proof (cases "map_of m a")
    case None
    then show ?thesis using Cons by (simp add: spammer_def domIff)
  next
    case (Some l)
    then have "spammer p m a \<longleftrightarrow> \<not> as_contains (locals p) a \<and> c_AccountSlots (config p) < of_nat (txList_Len l)" "llen m a = txList_Len l"
      by (auto simp: spammer_def llen_def)
    then show ?thesis using Some Cons.IH [OF Cons.prems] Cons.IH [OF push(1)] push(2) by simp
  qed
qed simp

lemma spam_order_ok:
  assumes "pool_inv e {} {} p" "env_ok e"
  defines "sp \<equiv> spam_order p (pending p) (e_accounts e (pending p)) []"
  shows "spam_ok p sp []" "set sp = (\<lambda>a. (a, llen (pending p) a)) ` {a. spammer p (pending p) a}"
proof -
  let ?as = "filter (spammer p (pending p)) (e_accounts e (pending p))"
  have acc: "set (e_accounts e (pending p)) = dom (map_of (pending p))" "distinct (e_accounts e (pending p))"
    using accounts_listed [OF assms(2) pool_invD(1) [OF assms(1)]] by auto
  have h: "is_heap prque_less sp" and m: "mset sp = mset (map (\<lambda>a. (a, llen (pending p) a)) ?as)"
    using spam_order_correct [of "[]" p "pending p" "e_accounts e (pending p)"] prque.invar_Nil by (auto simp: sp_def)
  have s: "set sp = (\<lambda>a. (a, llen (pending p) a)) ` set ?as" using mset_eq_setD [OF m] by simp
  then show "set sp = (\<lambda>a. (a, llen (pending p) a)) ` {a. spammer p (pending p) a}" using acc(1) by (auto simp: spammer_def)
  have "mset (map fst sp) = mset (map fst (map (\<lambda>a. (a, llen (pending p) a)) ?as))" using arg_cong [OF m, of "image_mset fst"] by (simp only: mset_map)
  then have "mset (map fst sp) = mset ?as" by (simp add: comp_def del: mset_filter)
  then have "distinct (map fst sp)" using mset_eq_imp_distinct_iff acc(2) by (metis distinct_filter)
  with h s acc(1) show "spam_ok p sp []" by (auto simp: spam_ok_def)
qed

text \<open>
  The limit on pending transactions.  The total fits, or no remote account has more than its guaranteed slots; a local
  account loses nothing, and no account loses one of its guaranteed slots.
\<close>

definition pending_limited :: "TxPool \<Rightarrow> TxPool \<Rightarrow> bool" where
  "pending_limited p p' \<longleftrightarrow>
     (total_len (pending p') \<le> c_GlobalSlots (config p) \<or> (\<forall>a. \<not> spammer p (pending p') a)) \<and>
     (\<forall>a. llen (pending p') a = llen (pending p) a \<or>
        spammer p (pending p) a \<and> unat (c_AccountSlots (config p)) \<le> llen (pending p') a) \<and>
     (\<forall>a. llen (pending p') a \<le> llen (pending p) a)"

lemma of_nat_less: "x < of_nat n \<Longrightarrow> unat (x :: uint64) < n"
  by (simp add: word_less_nat_alt unat_of_nat)

lemma final_reduce:
  assumes "pool_inv e {} {} p" "env_ok e" "distinct os" "os \<noteq> []" "set os \<subseteq> dom (map_of (pending p))" "\<forall>a \<in> set os. llen (pending p) a = L"
  defines "slots \<equiv> c_AccountSlots (config p)"
  shows "\<exists>p' cnt. reduce_loop e os (last os) (\<lambda>len. slots < of_nat len) (total_len (pending p)) p = Some (cnt, p') \<and> limited e p p' \<and>
     (\<forall>b. b \<notin> set os \<longrightarrow> llen (pending p') b = llen (pending p) b) \<and>
     (\<forall>b \<in> set os. llen (pending p') b = L \<or> unat slots \<le> llen (pending p') b) \<and> (\<forall>b. llen (pending p') b \<le> llen (pending p) b) \<and>
     (total_len (pending p') \<le> c_GlobalSlots (config p) \<or> (\<forall>b \<in> set os. \<not> slots < of_nat (llen (pending p') b)))"
proof -
  have "\<forall>a \<in> set os. a \<in> dom (map_of (pending p)) \<and> llen (pending p) a = L" using assms(5,6) by blast
  from reduce_loop_correct [OF assms(1,3,4) this assms(2), of "\<lambda>len. slots < of_nat len"] obtain p' L' where
    r: "reduce_loop e os (last os) (\<lambda>len. slots < of_nat len) (total_len (pending p)) p = Some (total_len (pending p'), p')" "limited e p p'"
    "\<forall>b. llen (pending p') b = (if b \<in> set os then L' else llen (pending p) b)" "L' \<le> L" "L' < L \<longrightarrow> slots < of_nat (Suc L')"
    "total_len (pending p') \<le> c_GlobalSlots (config p) \<or> \<not> slots < of_nat L'" by auto
  have "L' = L \<or> unat slots \<le> L'" using r(4,5) of_nat_less [of slots "Suc L'"] by (cases "L' < L") auto
  moreover have "\<forall>b. llen (pending p') b \<le> llen (pending p) b" using r(3,4) assms(6) by auto
  ultimately show ?thesis using r by (intro exI [of _ p'] exI [of _ "total_len (pending p')"]) auto
qed

lemma limit_pending_correct:
  assumes "pool_inv e {} {} p" "env_ok e"
  shows "\<exists>p'. limit_pending e p = Some p' \<and> limited e p p' \<and> pending_limited p p'"
proof (cases "c_GlobalSlots (config p) < total_len (pending p)")
  case False
  with assms(1) show ?thesis by (auto simp: limit_pending_def limited_def pending_limited_def Let_def)
next
  case True
  define slots where "slots = c_AccountSlots (config p)"
  define sp where "sp = spam_order p (pending p) (e_accounts e (pending p)) []"
  have sp: "spam_ok p sp []" "set sp = (\<lambda>a. (a, llen (pending p) a)) ` {a. spammer p (pending p) a}"
    using spam_order_ok [OF assms] by (auto simp: sp_def)
  have "level p sp [] (Max (insert 0 (snd ` set sp)))" by (auto simp: level_def intro!: Max_ge image_eqI)
  then have lev: "c_GlobalSlots (config p) < total_len (pending p) \<longrightarrow> (\<exists>L. level p sp [] L)" by blast
  have K: "(\<forall>b \<in> set []. Suc (unat slots) \<le> llen (pending p) b) \<and> (\<forall>(b, k) \<in> set sp. Suc (unat slots) \<le> k)"
    using sp(2) of_nat_less by (auto simp: spammer_def slots_def Suc_le_eq)
  obtain os p1 where o: "offender_loop e sp [] (total_len (pending p)) p = Some (os, total_len (pending p1), p1)" "limited e p p1"
    "distinct os" "set os \<subseteq> dom (map_of (pending p1))" "set [] \<subseteq> set os" "set os \<subseteq> set [] \<union> fst ` set sp"
    "\<forall>b. b \<notin> set os \<longrightarrow> llen (pending p1) b = llen (pending p) b" "\<forall>b \<in> set os. Suc (unat slots) \<le> llen (pending p1) b"
    "\<forall>b. llen (pending p1) b \<le> llen (pending p) b"
    "c_GlobalSlots (config p) < total_len (pending p1) \<longrightarrow> fst ` set sp \<subseteq> set os \<and> (\<exists>L. \<forall>a \<in> set os. llen (pending p1) a = L)"
    using offender_loop_correct [OF assms sp(1) lev K] by (elim exE conjE) (rule that)
  have i1: "pool_inv e {} {} p1" "config p1 = config p" "locals p1 = locals p" "dom (map_of (pending p1)) = dom (map_of (pending p))"
    using o(2) by (auto simp: limited_def)
  have off: "spammer p (pending p) b" if "b \<in> set os" for b using that o(6) sp(2) by auto
  show ?thesis
  proof (cases "c_GlobalSlots (config p) < total_len (pending p1) \<and> os \<noteq> []")
    case False
    have "limit_pending e p = Some p1" using True False o(1) i1(2) by (auto simp: limit_pending_def sp_def [symmetric])
    moreover have "\<not> spammer p (pending p1) a" if "c_GlobalSlots (config p) < total_len (pending p1)" for a
      using o(7,10) sp(2) that False i1(4) by (auto simp: spammer_def)
    moreover have "llen (pending p1) a = llen (pending p) a \<or> spammer p (pending p) a \<and> unat slots \<le> llen (pending p1) a" for a
      using o(7,8) off by (cases "a \<in> set os") (auto intro: Suc_leD)
    ultimately show ?thesis using o(2,9) unfolding pending_limited_def slots_def by (meson not_less)
  next
    case big: True
    then obtain L where L: "\<forall>a \<in> set os. llen (pending p1) a = L" "fst ` set sp \<subseteq> set os" using o(10) by blast
    obtain p2 cnt where r: "reduce_loop e os (last os) (\<lambda>len. slots < of_nat len) (total_len (pending p1)) p1 = Some (cnt, p2)" "limited e p1 p2"
      "\<forall>b. b \<notin> set os \<longrightarrow> llen (pending p2) b = llen (pending p1) b"
      "\<forall>b \<in> set os. llen (pending p2) b = L \<or> unat slots \<le> llen (pending p2) b" "\<forall>b. llen (pending p2) b \<le> llen (pending p1) b"
      "total_len (pending p2) \<le> c_GlobalSlots (config p) \<or> (\<forall>b \<in> set os. \<not> slots < of_nat (llen (pending p2) b))"
      using final_reduce [OF i1(1) assms(2) o(3) _ o(4) L(1)] big i1(2) by (auto simp: slots_def)
    have lp: "limit_pending e p = Some p2" using True big o(1) r(1) i1(2) by (simp add: limit_pending_def sp_def [symmetric] slots_def)
    have all: "a \<in> set os" if "spammer p (pending p) a" for a using L(2) sp(2) that by (auto simp: image_image)
    have "dom (map_of (pending p2)) = dom (map_of (pending p))" using r(2) i1(4) by (simp add: limited_def)
    then have "\<not> spammer p (pending p2) a" if "\<not> total_len (pending p2) \<le> c_GlobalSlots (config p)" for a
      using r(3,6) o(7) all [of a] that by (cases "a \<in> set os") (auto simp: spammer_def slots_def)
    moreover have "llen (pending p2) a = llen (pending p) a \<or> spammer p (pending p) a \<and> unat slots \<le> llen (pending p2) a" for a
      using r(3,4) o(7,8) L(1) off by (cases "a \<in> set os") (auto intro: Suc_leD)
    moreover have "\<forall>a. llen (pending p2) a \<le> llen (pending p) a" using r(5) o(9) by (blast intro: le_trans)
    ultimately show ?thesis using lp limited_trans [OF o(2) r(2)] unfolding pending_limited_def slots_def by blast
  qed
qed

section \<open>Dropping queued transactions\<close>

definition unqueued :: "PoolEnv \<Rightarrow> Address \<Rightarrow> nat \<Rightarrow> TxPool \<Rightarrow> TxPool \<Rightarrow> bool" where
  "unqueued e a n p p' \<longleftrightarrow> pool_inv e {} {} p' \<and> config p' = config p \<and> locals p' = locals p \<and> pending p' = pending p \<and>
     (\<forall>b. b \<noteq> a \<longrightarrow> map_of (queue p') b = map_of (queue p) b) \<and> llen (queue p') a = llen (queue p) a - n \<and> n \<le> llen (queue p) a \<and>
     total_len (queue p') = total_len (queue p) - of_nat n"

lemma unqueued_trans: "unqueued e a n p p' \<Longrightarrow> unqueued e a k p' p'' \<Longrightarrow> unqueued e a (n + k) p p''"
  by (auto simp: unqueued_def)

lemma unqueue_one:
  assumes "pool_inv e {} {} p" "t \<in> members (queue p)" "env_ok e" "e_sender e t = Inr a"
  shows "\<exists>p'. removeTx e (e_hash e t) ob p = Some p' \<and> unqueued e a 1 p p' \<and> members (queue p') = members (queue p) - {t}"
proof -
  note inv = pool_invD [OF assms(1)]
  have a: "from_of e t = a" using assms(4) by (simp add: from_of_def)
  obtain p' l l' where r: "removeTx e (e_hash e t) ob p = Some p'" "pool_inv e {} {} p'" "removed_from p (e_hash e t) p'" "pending p' = pending p"
    "map_of (queue p) a = Some l" "splits l [t] l'" "queue p' = (if txList_Empty l' then AList.delete a (queue p) else AList.update a l' (queue p))"
    using remove_queued [OF assms(1-3), of ob] removeTx_queued [OF assms(1-3), of ob] unfolding a by metis
  have d: "distinct (map fst (queue p))" using inv(2) by (simp add: lists_ok_def)
  have ow: "owned e a l" using lists_okD [OF inv(2) r(5)] by simp
  have ok: "list_ok l" "list_ok l'" using ow r(6) by (auto simp: owned_def splits_def)
  have len: "llen (queue p) a = Suc (txList_Len l')" using splits_Len [OF ok(1) r(6)] r(5) by (simp add: llen_def)
  have "members (queue p') = members (AList.update a l' (queue p))"
    using members_delete [of False "AList.update a l' (queue p)" a] r(7) Empty_content [OF ok(2)]
    by (auto simp: delete_update_same list_of_def update_conv')
  also have "\<dots> = members (queue p) - {t}"
    using members_update [OF inv(2), of a l'] list_of_Some [OF r(5)] splits_facts(1,2) [OF ok(1) r(6)] content_members [OF r(5)] by auto
  finally have m: "members (queue p') = members (queue p) - {t}" .
  have "unqueued e a 1 p p'"
    using r(2,3,4,7) len d total_len_update [of "queue p" a l'] total_len_delete [of "queue p" a]
    by (auto simp: unqueued_def removed_from_def txList_Empty_def update_conv' delete_conv')
  with r(1) m show ?thesis by blast
qed

lemma unqueue_all:
  assumes "pool_inv e {} {} p" "set ts \<subseteq> members (queue p)" "distinct ts" "env_ok e" "\<forall>t \<in> set ts. e_sender e t = Inr a"
  shows "\<exists>p'. remove_all e ob ts p = Some p' \<and> unqueued e a (length ts) p p'"
  using assms
proof (induction ts arbitrary: p)
  case Nil
  then show ?case by (simp add: unqueued_def)
next
  case (Cons t ts)
  obtain p1 where p1: "removeTx e (e_hash e t) ob p = Some p1" "unqueued e a 1 p p1" "members (queue p1) = members (queue p) - {t}"
    using unqueue_one [OF Cons.prems(1) _ Cons.prems(4), of t a ob] Cons.prems(2,5) by auto
  have "pool_inv e {} {} p1" using p1(2) by (simp add: unqueued_def)
  then obtain p2 where "remove_all e ob ts p1 = Some p2" "unqueued e a (length ts) p1 p2"
    using Cons.IH [of p1] Cons.prems(2-5) p1(3) by auto
  with p1 unqueued_trans [OF p1(2)] show ?case by auto
qed

text \<open>Taking the transactions of a queue in order, and removing some of them.\<close>

lemma drop_some:
  assumes "pool_inv e {} {} p" "map_of (queue p) a = Some l" "env_ok e"
  shows "\<exists>l'. txList_Flatten (e_nonces e) l = (content l, l') \<and>
     (\<forall>ts. set ts \<subseteq> set (content l) \<longrightarrow> distinct ts \<longrightarrow> (\<exists>p'. remove_all e ob ts (put_queue a l' p) = Some p' \<and> unqueued e a (length ts) p p'))"
proof -
  note inv = pool_invD [OF assms(1)]
  have ow: "owned e a l" using lists_okD [OF inv(2) assms(2)] by simp
  then have ok: "list_ok l" by (simp add: owned_def)
  obtain l' where f: "txList_Flatten (e_nonces e) l = (content l, l')" "splits l [] l'" "content l' = content l"
    using Flatten_splits [OF ok env_range [OF assms(3)]] by blast
  define q where "q = put_queue a l' p"
  have L: "txList_Len l' = txList_Len l" using splits_Len [OF ok f(2)] by simp
  have qi: "pool_inv e {} {} q" using take_queue(1) [OF assms(1,2) f(2)] by (simp add: q_def)
  have q: "unqueued e a 0 p q"
    using qi assms(2) total_len_update [of "queue p" a l'] inv(2) L
    by (auto simp: unqueued_def q_def update_conv' llen_def lists_ok_def)
  have "\<exists>p'. remove_all e ob ts q = Some p' \<and> unqueued e a (length ts) p p'" if "set ts \<subseteq> set (content l)" "distinct ts" for ts
  proof -
    have "map_of (queue q) a = Some l'" by (simp add: q_def update_conv')
    then have "set ts \<subseteq> members (queue q)" using that(1) f(3) content_members by fastforce
    moreover have "\<forall>t \<in> set ts. e_sender e t = Inr a" using ow that(1) by (auto simp: owned_def)
    ultimately show ?thesis using unqueue_all [OF qi _ that(2) assms(3)] unqueued_trans [OF q] by fastforce
  qed
  with f(1) show ?thesis by (auto simp: q_def)
qed

definition requeued :: "PoolEnv \<Rightarrow> Address set \<Rightarrow> TxPool \<Rightarrow> TxPool \<Rightarrow> bool" where
  "requeued e A p p' \<longleftrightarrow> pool_inv e {} {} p' \<and> config p' = config p \<and> locals p' = locals p \<and> pending p' = pending p \<and>
     (\<forall>b. b \<notin> A \<longrightarrow> map_of (queue p') b = map_of (queue p) b)"

lemma drop_queued_correct:
  assumes "pool_inv e {} {} p" "distinct as" "set as \<subseteq> dom (map_of (queue p))" "env_ok e"
  shows "\<exists>p'. drop_queued e drp as p = Some p' \<and> requeued e (set as) p p' \<and>
     (total_len (queue p') = total_len (queue p) - drp \<or> (\<forall>a \<in> set as. llen (queue p') a = 0))"
  using assms
proof (induction as arbitrary: p drp)
  case Nil
  then show ?case by (simp add: requeued_def)
next
  case (Cons a as)
  show ?case
  proof (cases "drp = 0")
    case True
    then show ?thesis using Cons.prems(1) by (auto simp: requeued_def)
  next
    case False
    obtain l where l: "map_of (queue p) a = Some l" using Cons.prems(3) by auto
    have ok: "list_ok l" using lists_okD [OF pool_invD(2) [OF Cons.prems(1)] l] by (simp add: owned_def)
    have len: "txList_Len l = length (content l)" "llen (queue p) a = length (content l)" using Len_content [OF ok] l by (auto simp: llen_def)
    define ts where "ts = (if of_nat (txList_Len l) \<le> drp then content l else take (unat drp) (rev (content l)))"
    obtain l' where f: "txList_Flatten (e_nonces e) l = (content l, l')"
      "\<forall>ts. set ts \<subseteq> set (content l) \<longrightarrow> distinct ts \<longrightarrow> (\<exists>p'. remove_all e True ts (put_queue a l' p) = Some p' \<and> unqueued e a (length ts) p p')"
      using drop_some [OF Cons.prems(1) l Cons.prems(4)] by blast
    have "set ts \<subseteq> set (content l)" "distinct ts"
      using list_ok_distinct_txs [OF ok] set_take_subset [of "unat drp" "rev (content l)"] by (auto simp: ts_def)
    then obtain p1 where p1: "remove_all e True ts (put_queue a l' p) = Some p1" "unqueued e a (length ts) p p1" using f(2) by blast
    have same: "map_of (queue p1) b = map_of (queue p) b" if "b \<in> set as" for b
      using p1(2) Cons.prems(2) that unfolding unqueued_def by (metis distinct.simps(2))
    have i1: "pool_inv e {} {} p1" "set as \<subseteq> dom (map_of (queue p1))"
      using p1(2) same Cons.prems(3) by (simp_all add: unqueued_def dom_def subset_iff)
    have all: "length ts = length (content l) \<or> drp = of_nat (length ts)"
      using of_nat_less [of drp "length (content l)"] len by (auto simp: ts_def not_le min_def)
    obtain p2 where p2: "drop_queued e (drp - of_nat (length ts)) as p1 = Some p2" "requeued e (set as) p1 p2"
      "total_len (queue p2) = total_len (queue p1) - (drp - of_nat (length ts)) \<or> (\<forall>b \<in> set as. llen (queue p2) b = 0)"
      using Cons.IH [OF i1(1) _ i1(2) Cons.prems(4)] Cons.prems(2) by auto
    have d: "drop_queued e drp (a # as) p = Some p2"
      using False l f(1) p1(1) p2(1) len(1) by (auto simp: ts_def Let_def split: if_splits)
    have rq: "requeued e (set (a # as)) p p2" using p1(2) p2(2) by (auto simp: requeued_def unqueued_def)
    show ?thesis
    proof (cases "drp = of_nat (length ts)")
      case True
      then have "p2 = p1" using p2(1) by (cases as) auto
      with d rq True p1(2) show ?thesis by (auto simp: unqueued_def)
    next
      case False
      then have "llen (queue p1) a = 0" using all p1(2) len(2) by (auto simp: unqueued_def)
      moreover have "map_of (queue p2) a = map_of (queue p1) a" using p2(2) Cons.prems(2) by (simp add: requeued_def)
      ultimately have "llen (queue p2) a = 0" by (simp add: llen_def)
      moreover have "total_len (queue p1) = total_len (queue p) - of_nat (length ts)" using p1(2) by (simp add: unqueued_def)
      ultimately have "total_len (queue p2) = total_len (queue p) - drp \<or> (\<forall>b \<in> set (a # as). llen (queue p2) b = 0)"
        using p2(3) by auto
      with d rq show ?thesis by blast
    qed
  qed
qed

text \<open>The limit on queued transactions: the total fits, or remote accounts have none; local accounts keep theirs.\<close>

definition queue_limited :: "TxPool \<Rightarrow> TxPool \<Rightarrow> bool" where
  "queue_limited p p' \<longleftrightarrow>
     (total_len (queue p') \<le> c_GlobalQueue (config p) \<or> (\<forall>a. \<not> as_contains (locals p) a \<longrightarrow> llen (queue p') a = 0)) \<and>
     (\<forall>a. as_contains (locals p) a \<longrightarrow> map_of (queue p') a = map_of (queue p) a)"

lemma limit_queue_correct:
  assumes "pool_inv e {} {} p" "env_ok e"
  shows "\<exists>p'. limit_queue e p = Some p' \<and> pool_inv e {} {} p' \<and> config p' = config p \<and> locals p' = locals p \<and> pending p' = pending p \<and> queue_limited p p'"
proof (cases "c_GlobalQueue (config p) < total_len (queue p)")
  case False
  with assms(1) show ?thesis by (auto simp: limit_queue_def queue_limited_def Let_def)
next
  case True
  define as where "as = rev (sort_key (beat p) (filter (\<lambda>a. \<not> as_contains (locals p) a) (e_accounts e (queue p))))"
  have acc: "set (e_accounts e (queue p)) = dom (map_of (queue p))" "distinct (e_accounts e (queue p))"
    using accounts_listed [OF assms(2) pool_invD(2) [OF assms(1)]] by auto
  have as: "distinct as" "set as = {a \<in> dom (map_of (queue p)). \<not> as_contains (locals p) a}" using acc by (auto simp: as_def)
  obtain p' where p': "drop_queued e (total_len (queue p) - c_GlobalQueue (config p)) as p = Some p'" "requeued e (set as) p p'"
    "total_len (queue p') = total_len (queue p) - (total_len (queue p) - c_GlobalQueue (config p)) \<or> (\<forall>a \<in> set as. llen (queue p') a = 0)"
    using drop_queued_correct [OF assms(1) as(1) _ assms(2)] as(2) by blast
  have "limit_queue e p = Some p'" using True p'(1) by (simp add: limit_queue_def Let_def as_def)
  moreover have "llen (queue p') a = 0" if "\<forall>a \<in> set as. llen (queue p') a = 0" "\<not> as_contains (locals p) a" for a
  proof (cases "a \<in> set as")
    case False
    then have "map_of (queue p') a = None" using p'(2) as(2) that(2) by (auto simp: requeued_def)
    then show ?thesis by (simp add: llen_def)
  qed (use that in simp)
  ultimately show ?thesis using p'(2,3) as(2) by (auto simp: requeued_def queue_limited_def)
qed

end
