(* ===== verification/Tx_Pool_Ops.thy ===== *)
theory Tx_Pool_Ops
  imports Tx_Pool_Limits
begin

text \<open>
  The exported operations of the pool: adding transactions, changing the price limit, eviction, and the reset to a new head.
  Each of them returns and keeps the invariant.
\<close>

section \<open>Promotion with its limits\<close>

definition within_limits :: "TxPool \<Rightarrow> bool" where
  "within_limits p \<longleftrightarrow>
     (total_len (pending p) \<le> c_GlobalSlots (config p) \<or> (\<forall>a. \<not> spammer p (pending p) a)) \<and>
     (total_len (queue p) \<le> c_GlobalQueue (config p) \<or> (\<forall>a. \<not> as_contains (locals p) a \<longrightarrow> llen (queue p) a = 0))"

lemma promoteExecutables_inv:
  assumes "pool_inv e {} {} p" "account_queue_ok p" "env_ok e"
  shows "\<exists>p'. promoteExecutables e accounts p = Some p' \<and> pool_inv e {} {} p' \<and> config p' = config p \<and> locals p' = locals p \<and> within_limits p'"
proof -
  define as where "as = (case accounts of None \<Rightarrow> e_accounts e (queue p) | Some as \<Rightarrow> as)"
  obtain p1 where p1: "promote_accounts e as p = Some p1" "pool_inv e {} {} p1" "config p1 = config p" "locals p1 = locals p"
    using promote_accounts_inv [OF assms] by blast
  obtain p2 where p2: "limit_pending e p1 = Some p2" "limited e p1 p2" "pending_limited p1 p2"
    using limit_pending_correct [OF p1(2) assms(3)] by blast
  have i2: "pool_inv e {} {} p2" "config p2 = config p1" "locals p2 = locals p1" using p2(2) by (auto simp: limited_def)
  obtain p3 where p3: "limit_queue e p2 = Some p3" "pool_inv e {} {} p3" "config p3 = config p2" "locals p3 = locals p2"
    "pending p3 = pending p2" "queue_limited p2 p3" using limit_queue_correct [OF i2(1) assms(3)] by blast
  have "promoteExecutables e accounts p = Some p3" using p1(1) p2(1) p3(1) by (simp add: promoteExecutables_def as_def)
  moreover have "within_limits p3"
    using p2(3) p3(3-6) i2(2,3) by (simp add: within_limits_def pending_limited_def queue_limited_def spammer_def)
  ultimately show ?thesis using p1 p3 i2 by auto
qed

section \<open>The heap by price\<close>

text \<open>The operations on the heap lose only what they return, and stale entries.\<close>

lemma known_live: "pool_inv e {} X p \<Longrightarrow> t \<in> known p \<Longrightarrow> live (e_hash e) (pool_all p) t"
  using books_Get [OF pool_invD(7), of e "{}" X p t] by (simp add: live_def)

lemma known_heap: "pool_inv e {} {} p \<Longrightarrow> is_heap price_less (pl_items (priced p)) \<and> known p \<subseteq> set (pl_items (priced p))"
  by (auto simp: pool_inv_def books_def)

lemma live_subset:
  assumes "pool_inv e {} {} p" "filter_mset (live (e_hash e) (pool_all p)) A + mset d = filter_mset (live (e_hash e) (pool_all p)) (mset (pl_items (priced p)))"
  shows "known p - set d \<subseteq> set_mset A"
proof
  fix t assume t: "t \<in> known p - set d"
  then have "t \<in># filter_mset (live (e_hash e) (pool_all p)) (mset (pl_items (priced p)))"
    using known_live [OF assms(1)] known_heap [OF assms(1)] by auto
  then show "t \<in># A" using t unfolding assms(2) [symmetric] by auto
qed

lemma Underpriced_inv:
  assumes "pool_inv e {} {} p"
  shows "\<exists>u l. pl_Underpriced (e_hash e) (pool_all p) islocal tx (priced p) = Some (u, l) \<and> pool_inv e {} {} (p\<lparr>priced := l\<rparr>)"
proof (cases "islocal tx")
  case True
  with assms show ?thesis by (auto simp: pl_Underpriced_def)
next
  case False
  obtain items stales where d: "drop_stale (e_hash e) (pool_all p) (pl_items (priced p)) (pl_stales (priced p)) = Some (items, stales)"
    "is_heap price_less items"
    "filter_mset (live (e_hash e) (pool_all p)) (mset items) = filter_mset (live (e_hash e) (pool_all p)) (mset (pl_items (priced p)))"
    using drop_stale_correct [of "pl_items (priced p)" "e_hash e" "pool_all p" "pl_stales (priced p)"] known_heap [OF assms] by blast
  have "known p \<subseteq> set items" using live_subset [OF assms, of "mset items" "[]"] d(3) by simp
  then have "pool_inv e {} {} (p\<lparr>priced := \<lparr>pl_items = items, pl_stales = stales\<rparr>\<rparr>)" using set_priced_inv [OF assms] d(2) by simp
  with False d(1) show ?thesis by (auto simp: pl_Underpriced_def Let_def)
qed

lemma Discard_inv:
  assumes "pool_inv e {} {} p" "0 \<le> cnt"
  shows "\<exists>d l. pl_Discard (e_hash e) (pool_all p) islocal cnt (priced p) = Some (d, l) \<and> pool_inv e {} (set d) (p\<lparr>priced := l\<rparr>)"
proof -
  have h: "is_heap price_less (pl_items (priced p))" using known_heap [OF assms(1)] by simp
  obtain items stales d sv where c: "Discard_loop (e_hash e) (pool_all p) islocal cnt (pl_items (priced p)) (pl_stales (priced p)) [] [] = Some (items, stales, d, sv)"
    "discarded (e_hash e) (pool_all p) islocal cnt (pl_items (priced p)) items d sv"
    using Discard_loop_correct [OF h assms(2), of "e_hash e" "pool_all p" islocal "pl_stales (priced p)" "[]" "[]"] by auto
  have "is_heap price_less items" using c(2) by (simp add: discarded_def)
  note p = push_all_correct [OF this, of sv]
  have "known p - set d \<subseteq> set_mset (mset items + mset sv)" using live_subset [OF assms(1)] c(2) unfolding discarded_def by blast
  then have "known p - set d \<subseteq> set (push_all items sv)" using p by (metis set_mset_mset)
  then show ?thesis using c(1) assms p set_priced_inv [OF assms(1), of "\<lparr>pl_items = push_all items sv, pl_stales = stales\<rparr>" "set d"]
    by (simp add: pl_Discard_def)
qed

lemma Cap_inv:
  assumes "pool_inv e {} {} p"
  shows "\<exists>d l. pl_Cap (e_hash e) (pool_all p) islocal thr (priced p) = Some (d, l) \<and> pool_inv e {} (set d) (p\<lparr>priced := l\<rparr>)"
proof -
  obtain d l where c: "pl_Cap (e_hash e) (pool_all p) islocal thr (priced p) = Some (d, l)" "is_heap price_less (pl_items l)"
    "live_items (e_hash e) (pool_all p) l + mset d = live_items (e_hash e) (pool_all p) (priced p)"
    using Cap_correct known_heap [OF assms] by blast
  have "known p - set d \<subseteq> set (pl_items l)" using live_subset [OF assms, of "mset (pl_items l)" d] c(3) by (simp add: live_items_def)
  with c(1,2) set_priced_inv [OF assms] show ?thesis by blast
qed

text \<open>After the transactions that the heap gave up have been removed, the heap is complete again.\<close>

lemma remove_dropped:
  assumes "pool_inv e {} (set d) p" "env_ok e"
  shows "\<exists>p'. remove_all e ob d p = Some p' \<and> pool_inv e {} {} p' \<and> config p' = config p \<and> locals p' = locals p \<and>
     txLookup_Count (pool_all p') \<le> txLookup_Count (pool_all p) \<and>
     (\<forall>g. txLookup_Get (pool_all p') g = (if g \<in> e_hash e ` set d then None else txLookup_Get (pool_all p) g))"
proof -
  obtain p' where p': "remove_all e ob d p = Some p'" "pool_inv e {} (set d) p'" "config p' = config p" "locals p' = locals p"
     "txLookup_Count (pool_all p') \<le> txLookup_Count (pool_all p)"
     "\<forall>g. txLookup_Get (pool_all p') g = (if g \<in> e_hash e ` set d then None else txLookup_Get (pool_all p) g)"
    using remove_all_inv [OF assms] by blast
  have "pool_inv e {} {} p'" by (rule heap_complete [OF p'(2)]) (use p'(6) in auto)
  with p' show ?thesis by blast
qed

lemma SetGasPrice_inv:
  assumes "pool_inv e {} {} p" "env_ok e"
  shows "\<exists>p'. SetGasPrice e thr p = Some p' \<and> pool_inv e {} {} p' \<and> config p' = config p \<and> locals p' = locals p"
proof -
  define q where "q = p\<lparr>gasPrice := thr\<rparr>"
  have q: "pool_inv e {} {} q" using assms(1) pool_inv_cong [of q p] by (simp add: q_def)
  obtain d l where d: "pl_Cap (e_hash e) (pool_all q) (is_local e q) thr (priced q) = Some (d, l)" "pool_inv e {} (set d) (q\<lparr>priced := l\<rparr>)"
    using Cap_inv [OF q] by blast
  with remove_dropped [OF d(2) assms(2), of False] show ?thesis by (auto simp: SetGasPrice_def q_def)
qed

section \<open>Adding a transaction\<close>

lemma validateTx_reads:
  assumes "validateTx e tx loc p = (err, p')"
  shows "same_lists p p'" "err = None \<Longrightarrow> e_sender e tx = Inr (from_of e tx)"
proof -
  obtain n p1 where n: "state_nonce (from_of e tx) p = (n, p1)" by fastforce
  obtain b p2 where b: "state_balance (from_of e tx) p1 = (b, p2)" by fastforce
  have "same_lists p p" "same_lists p p1" "same_lists p p2"
    using state_reads(1) [OF n] state_reads(2) [OF b] by (auto simp: same_lists_def)
  then show "same_lists p p'"
    using assms n b by (auto simp: validateTx_def from_of_def Let_def split: if_splits sum.splits)
  show "err = None \<Longrightarrow> e_sender e tx = Inr (from_of e tx)"
    using assms by (auto simp: validateTx_def from_of_def Let_def split: if_splits sum.splits)
qed

lemma sint_slots:
  assumes "(slots :: uint64) \<le> of_nat n" "n < 2 ^ 63"
  shows "sint (slots - 1) \<le> int n"
proof (cases "slots = 0")
  case False
  then have "unat (slots - 1) = unat slots - 1" by (rule unat_minus_one)
  moreover have "unat slots \<le> n" using assms by (simp add: word_le_nat_alt unat_of_nat_small)
  moreover have "sint (slots - 1) \<le> uint (slots - 1)"
    using take_bit_int_less_eq_self_iff [of 64 "uint (slots - 1)"]
    by (auto simp: sint_uint signed_take_bit_eq_take_bit_minus)
  ultimately show ?thesis by (simp add: uint_nat)
qed simp

lemma make_room_inv:
  assumes "pool_inv e {} {} p" "env_ok e" "txLookup_Count (pool_all p) < 2 ^ 63"
  shows "\<exists>err p'. make_room e tx loc p = Some (err, p') \<and> pool_inv e {} {} p' \<and> config p' = config p \<and> locals p' = locals p \<and>
     txLookup_Count (pool_all p') \<le> txLookup_Count (pool_all p) \<and>
     (\<forall>g. txLookup_Get (pool_all p) g = None \<longrightarrow> txLookup_Get (pool_all p') g = None)"
proof -
  define slots where "slots = c_GlobalSlots (config p) + c_GlobalQueue (config p)"
  define n where "n = txLookup_Count (pool_all p)"
  show ?thesis
  proof (cases "slots \<le> of_nat n")
    case False
    with assms(1) show ?thesis by (auto simp: make_room_def Let_def slots_def n_def)
  next
    case True
    define u where "u = (if loc then Some (False, p) else do { (u, l) \<leftarrow> pl_Underpriced (e_hash e) (pool_all p) (is_local e p) tx (priced p); Some (u, p\<lparr>priced := l\<rparr>) })"
    obtain b l where b: "u = Some (b, p\<lparr>priced := l\<rparr>)" "pool_inv e {} {} (p\<lparr>priced := l\<rparr>)"
    proof (cases loc)
      case True
      then show ?thesis using that [of False "priced p"] assms(1) by (simp add: u_def)
    next
      case False
      then show ?thesis using that Underpriced_inv [OF assms(1), of "is_local e p" tx] by (auto simp: u_def)
    qed
    define q where "q = p\<lparr>priced := l\<rparr>"
    have "0 \<le> int n - sint (slots - 1)" using sint_slots [OF True] assms(3) by (simp add: n_def)
    then obtain d l' where d: "pl_Discard (e_hash e) (pool_all q) (is_local e q) (int n - sint (slots - 1)) (priced q) = Some (d, l')"
      "pool_inv e {} (set d) (q\<lparr>priced := l'\<rparr>)" using Discard_inv b(2) unfolding q_def by blast
    obtain p' where p': "remove_all e False d (q\<lparr>priced := l'\<rparr>) = Some p'" "pool_inv e {} {} p'" "config p' = config p" "locals p' = locals p"
      "txLookup_Count (pool_all p') \<le> txLookup_Count (pool_all p)"
      "\<forall>g. txLookup_Get (pool_all p') g = (if g \<in> e_hash e ` set d then None else txLookup_Get (pool_all p) g)"
      using remove_dropped [OF d(2) assms(2), of False] by (auto simp: q_def)
    have "make_room e tx loc p = (if b then Some (Some ErrUnderpriced, q) else Some (None, p'))"
      using True b(1) d(1) p'(1) by (simp add: make_room_def u_def [symmetric] slots_def [symmetric] n_def [symmetric] q_def [symmetric]) (simp add: q_def n_def slots_def)
    then show ?thesis using p' b(2) by (cases b) (auto simp: q_def)
  qed
qed

text \<open>A new transaction takes a place, from the transaction that had it before or as a free one.\<close>

definition forget_old :: "PoolEnv \<Rightarrow> Transaction option \<Rightarrow> TxPool \<Rightarrow> TxPool" where
  "forget_old e old p = (case old of None \<Rightarrow> p | Some t \<Rightarrow> forget e (e_hash e t) p)"

lemma forget_old_frame [simp]:
  "pending (forget_old e old p) = pending p" "queue (forget_old e old p) = queue p" "config (forget_old e old p) = config p"
  "locals (forget_old e old p) = locals p"
  by (simp_all add: forget_old_def split: option.splits)

lemma remember_frame [simp]:
  "pending (remember e h t p) = pending p" "queue (remember e h t p) = queue p" "config (remember e h t p) = config p"
  "locals (remember e h t p) = locals p"
  by (simp_all add: remember_def)

lemma length_update: "length (AList.update k v al) \<le> Suc (length al)"
  by (induction al) auto

lemma Count_Add: "txLookup_Count (txLookup_Add h t tb) \<le> Suc (txLookup_Count tb)"
  by (simp add: txLookup_Count_def txLookup_Add_def length_update)

lemma Count_new:
  "txLookup_Count (pool_all (remember e h t (forget_old e old p))) \<le> Suc (txLookup_Count (pool_all p))"
proof -
  have "txLookup_Count (pool_all (forget_old e old p)) \<le> txLookup_Count (pool_all p)"
    by (auto simp: forget_old_def forget_def txLookup_Count_def txLookup_Remove_def priced_Removed_def AList.delete_eq split: option.splits)
  moreover have "txLookup_Count (pool_all (remember e h t q)) \<le> Suc (txLookup_Count (pool_all q))" for q
    using Count_Add [of "e_hash e" t "pool_all q"] by (simp add: remember_def)
  ultimately show ?thesis by (meson Suc_le_mono le_trans)
qed

lemma books_replace:
  assumes "books e S X p" "set_option old \<subseteq> S" "e_hash e t \<notin> e_hash e ` S" "env_ok e"
  shows "books e (insert t (S - set_option old)) X (remember e (e_hash e t) t (forget_old e old p))"
    "txLookup_Get (pool_all (forget_old e old p)) (e_hash e t) = None"
proof -
  have b: "books e (S - set_option old) X (forget_old e old p)"
    using assms books_forget [OF assms(1) _ assms(4)] by (cases old) (auto simp: forget_old_def)
  have h: "e_hash e t \<notin> e_hash e ` (S - set_option old)" using assms(3) by auto
  show "books e (insert t (S - set_option old)) X (remember e (e_hash e t) t (forget_old e old p))" by (rule books_remember [OF b h])
  show "txLookup_Get (pool_all (forget_old e old p)) (e_hash e t) = None"
    using b h by (cases "txLookup_Get (pool_all (forget_old e old p)) (e_hash e t)") (auto simp: books_def)
qed

lemma fresh_hash: "pool_inv e F X p \<Longrightarrow> txLookup_Get (pool_all p) (e_hash e t) = None \<Longrightarrow> e_hash e t \<notin> e_hash e ` (known p \<union> F)"
  using pool_invD(7) [of e F X p] books_Get by fastforce

lemma replace_inv:
  assumes "pool_inv e {} {} p" "e_sender e t = Inr a" "\<And>u. u \<in> known p \<Longrightarrow> slot e u = slot e t \<Longrightarrow> u \<in> D"
    and p': "lists_ok e True (pending p')" "lists_ok e False (queue p')" "members (pending p') \<inter> members (queue p') = {}"
      "known p' = insert t (known p - D)" "books e (insert t (known p - D)) {} p'"
  shows "pool_inv e {} {} p'"
proof -
  have "inj_on (slot e) (known p - D)" using pool_invD(6) [OF assms(1)] by (auto intro: inj_on_subset)
  then have "inj_on (slot e) (insert t (known p - D))" using assms(3) by (auto simp: inj_on_def)
  with p' show ?thesis by (simp add: pool_inv_def)
qed

text \<open>The list after an insertion, with the transaction that it replaced.\<close>

lemma Add_cases:
  assumes "owned e a l" "e_sender e t = Inr a"
  obtains (refused) "txList_Add t bump l = ((False, None), l)" "AccountNonce t \<in> AccountNonce ` set (content l)"
  | (placed) old l' where "txList_Add t bump l = ((True, old), l')" "owned e a l'" "l_strict l' = l_strict l"
      "set_option old = {u \<in> set (content l). AccountNonce u = AccountNonce t}" "set (content l') = insert t (set (content l) - set_option old)"
proof -
  have ok: "list_ok l" using assms(1) by (simp add: owned_def)
  obtain r old l' where r: "txList_Add t bump l = ((r, old), l')" "list_ok l'" "l_strict l' = l_strict l"
    "if r then old = sm_Get (l_txs l) (AccountNonce t) \<and> set (content l') = insert t {u \<in> set (content l). AccountNonce u \<noteq> AccountNonce t}
      else old = None \<and> l' = l \<and> AccountNonce t \<in> AccountNonce ` set (content l)"
    using Add_correct [OF ok, of t bump] by blast
  show thesis
  proof (cases r)
    case False
    with r refused show thesis by simp
  next
    case True
    have "set_option old = {u \<in> set (content l). AccountNonce u = AccountNonce t}"
    proof (cases old)
      case None
      then show ?thesis using r(4) True Get_None [OF ok, of "AccountNonce t"] by (auto simp: image_iff)
    next
      case (Some x)
      then show ?thesis using r(4) True Get_Some [OF ok, of "AccountNonce t" x] same_nonce [OF ok] by auto
    qed
    moreover from this have "set (content l') = insert t (set (content l) - set_option old)" using r(4) True by auto
    moreover have "owned e a l'" using r(2,4) True assms by (auto simp: owned_def)
    ultimately show thesis using placed [of old l'] r(1,3) True by simp
  qed
qed

lemma enqueue_new:
  assumes "pool_inv e {} {} p" "e_sender e t = Inr a" "txLookup_Get (pool_all p) (e_hash e t) = None" "env_ok e"
    and free: "AccountNonce t \<notin> AccountNonce ` set (content (list_of True (pending p) a))"
  shows "\<exists>r err p'. enqueueTx e (e_hash e t) t p = ((r, err), p') \<and> pool_inv e {} {} p' \<and> config p' = config p \<and> locals p' = locals p \<and>
     txLookup_Count (pool_all p') \<le> Suc (txLookup_Count (pool_all p)) \<and> (if err = None then t \<in> known p' else p' = p)"
proof -
  note inv = pool_invD [OF assms(1)]
  have a: "from_of e t = a" using assms(2) by (simp add: from_of_def)
  define l where "l = list_of False (queue p) a"
  have ow: "owned e a l" "l_strict l = False" using owned_list_of [OF inv(2)] by (auto simp: l_def)
  have sub: "set (content l) \<subseteq> members (queue p)" using list_of_members by (auto simp: l_def)
  show ?thesis
  proof (cases rule: Add_cases [OF ow(1) assms(2), where bump = "c_PriceBump (config p)"])
    case 1
    note refused = 1
    then have "content l \<noteq> []" by auto
    then have "map_of (queue p) a = Some l" by (auto simp: l_def list_of_def list_ok_new split: option.splits)
    then have "put_queue a l p = p" using put_same [OF inv(2)] by (simp add: put_queue_def)
    then have "enqueueTx e (e_hash e t) t p = ((False, Some ErrReplaceUnderpriced), p)"
      using refused(1) by (simp add: enqueueTx_def a list_of_def [symmetric] l_def [symmetric] Let_def)
    with assms(1) show ?thesis by auto
  next
    case (2 old l')
    note placed = 2
    define p1 where "p1 = put_queue a l' p"
    define p' where "p' = remember e (e_hash e t) t (forget_old e old p1)"
    have e: "enqueueTx e (e_hash e t) t p = ((old \<noteq> None, None), p')"
      using placed(1) by (simp add: enqueueTx_def a list_of_def [symmetric] l_def [symmetric] Let_def p'_def p1_def forget_old_def)
    have D: "set_option old \<subseteq> members (queue p)" using placed(4) sub by auto
    have m: "members (queue p') = insert t (members (queue p) - set_option old)"
      using members_update [OF inv(2), of a l'] placed(4,5) sub by (auto simp: p'_def p1_def l_def)
    have k: "known p' = insert t (known p - set_option old)"
      using m D inv(4) by (auto simp: known_def p'_def p1_def)
    have "books e (known p) {} p1" using inv(7) books_cong [of p1 p] by (simp add: p1_def)
    then have b: "books e (insert t (known p - set_option old)) {} p'"
      using books_replace(1) [of e "known p" "{}" p1 old t] D fresh_hash [OF assms(1,3)] assms(4) by (auto simp: p'_def known_def)
    have "t \<notin> known p" using fresh_hash [OF assms(1,3)] by auto
    then have dis: "members (pending p') \<inter> members (queue p') = {}" using m inv(4) by (auto simp: p'_def p1_def known_def)
    have taken: "u \<in> set_option old" if "u \<in> known p" "slot e u = slot e t" for u
    proof -
      have u: "e_sender e u = Inr a" "AccountNonce u = AccountNonce t" using that(2) assms(2) by (auto simp: slot_def)
      have "u \<notin> members (pending p)" using members_content [OF inv(1) _ u(1)] free u(2) by (metis image_eqI)
      then have "u \<in> set (content l)" using that(1) members_content [OF inv(2) _ u(1)] by (auto simp: known_def l_def)
      with u(2) placed(4) show ?thesis by simp
    qed
    have "pool_inv e {} {} p'"
      by (rule replace_inv [OF assms(1,2) taken _ _ dis k b])
        (use inv(1) lists_ok_update [OF inv(2) placed(2)] placed(3) ow(2) in \<open>auto simp: p'_def p1_def\<close>)
    moreover have "txLookup_Count (pool_all p') \<le> Suc (txLookup_Count (pool_all p))"
      using Count_new [of e "e_hash e t" t old p1] by (simp add: p'_def p1_def)
    ultimately show ?thesis using e k by (auto simp: p'_def p1_def)
  qed
qed

lemma remember_new:
  "txLookup_Get (pool_all p) (e_hash e t) = None \<Longrightarrow>
     remember e (e_hash e t) t p = p\<lparr>pool_all := txLookup_Add (e_hash e) t (pool_all p), priced := pl_Put t (priced p)\<rparr>"
  by (simp add: remember_def)

lemma journalTx_frame [simp]:
  "pending (journalTx a t p) = pending p" "queue (journalTx a t p) = queue p" "config (journalTx a t p) = config p"
  "locals (journalTx a t p) = locals p" "pool_all (journalTx a t p) = pool_all p" "priced (journalTx a t p) = priced p"
  by (simp_all add: journalTx_def split: option.splits)

lemma journalTx_inv [simp]: "pool_inv e F X (journalTx a t p) = pool_inv e F X p"
  by (rule pool_inv_cong) simp_all

lemma replace_pending_new:
  assumes "pool_inv e {} {} p" "e_sender e t = Inr a" "txLookup_Get (pool_all p) (e_hash e t) = None" "env_ok e"
    "map_of (pending p) a = Some l" "txList_Overlaps l t"
  shows "\<exists>r err p'. replace_pending e t a l p = ((r, err), p') \<and> pool_inv e {} {} p' \<and> config p' = config p \<and> locals p' = locals p \<and>
     txLookup_Count (pool_all p') \<le> Suc (txLookup_Count (pool_all p)) \<and> (if err = None then t \<in> known p' else p' = p)"
proof -
  note inv = pool_invD [OF assms(1)]
  have ow: "owned e a l" "l_strict l = True" using lists_okD [OF inv(1) assms(5)] by auto
  have sub: "set (content l) \<subseteq> members (pending p)" using content_members [OF assms(5)] by auto
  have ov: "AccountNonce t \<in> AccountNonce ` set (content l)"
    using assms(6) ow(1) Get_None [of l "AccountNonce t"] by (auto simp: txList_Overlaps_def owned_def)
  show ?thesis
  proof (cases rule: Add_cases [OF ow(1) assms(2), where bump = "c_PriceBump (config p)"])
    case 1
    then have "replace_pending e t a l p = ((False, Some ErrReplaceUnderpriced), p)"
      using put_same [OF inv(1) assms(5)] by (simp add: replace_pending_def put_pending_def)
    with assms(1) show ?thesis by auto
  next
    case (2 old l')
    note placed = 2
    define p1 where "p1 = put_pending a l' p"
    define p' where "p' = remember e (e_hash e t) t (forget_old e old p1)"
    have D: "set_option old \<subseteq> members (pending p)" using placed(4) sub by auto
    have b1: "books e (known p) {} p1" using inv(7) books_cong [of p1 p] by (simp add: p1_def)
    note rep = books_replace [of e "known p" "{}" p1 old t, OF b1 _ _ assms(4)]
    have b: "books e (insert t (known p - set_option old)) {} p'" "txLookup_Get (pool_all (forget_old e old p1)) (e_hash e t) = None"
      using rep D fresh_hash [OF assms(1,3)] by (auto simp: p'_def known_def)
    have e: "replace_pending e t a l p = ((old \<noteq> None, None), journalTx a t p')"
      using placed(1) remember_new [OF b(2)] by (simp add: replace_pending_def Let_def p'_def p1_def forget_old_def)
    have m: "members (pending p') = insert t (members (pending p) - set_option old)"
      using members_update [OF inv(1), of a l'] list_of_Some [OF assms(5)] placed(4,5) sub by (auto simp: p'_def p1_def)
    have k: "known p' = insert t (known p - set_option old)"
      using m D inv(4) by (auto simp: known_def p'_def p1_def)
    have "t \<notin> known p" using fresh_hash [OF assms(1,3)] by auto
    then have dis: "members (pending p') \<inter> members (queue p') = {}" using m inv(4) by (auto simp: p'_def p1_def known_def)
    obtain x where x: "x \<in> set (content l)" "AccountNonce x = AccountNonce t" using ov by auto
    have taken: "u \<in> set_option old" if "u \<in> known p" "slot e u = slot e t" for u
    proof -
      have "slot e u = slot e x" using that(2) x ow(1) assms(2) by (auto simp: slot_def owned_def)
      then have "u = x" using inj_onD [OF inv(6)] that(1) x(1) sub by (auto simp: known_def)
      with x placed(4) show ?thesis by simp
    qed
    have "pool_inv e {} {} p'"
      by (rule replace_inv [OF assms(1,2) taken _ _ dis k b(1)])
        (use inv(2) lists_ok_update [OF inv(1) placed(2)] placed(3) ow(2) in \<open>auto simp: p'_def p1_def\<close>)
    moreover have "txLookup_Count (pool_all p') \<le> Suc (txLookup_Count (pool_all p))"
      using Count_new [of e "e_hash e t" t old p1] by (simp add: p'_def p1_def)
    moreover have "known (journalTx a t p') = known p'" by (simp add: known_def)
    ultimately show ?thesis using e k by (auto simp: p'_def p1_def)
  qed
qed

text \<open>Adding a transaction: an error leaves the pool with at most what it had, and success leaves the transaction in it.\<close>

lemma pool_add_inv:
  assumes "pool_inv e {} {} p" "env_ok e" "txLookup_Count (pool_all p) < 2 ^ 63"
  shows "\<exists>r err p'. pool_add e tx loc p = Some ((r, err), p') \<and> pool_inv e {} {} p' \<and> config p' = config p \<and>
     txLookup_Count (pool_all p') \<le> Suc (txLookup_Count (pool_all p)) \<and> (err = None \<longrightarrow> tx \<in> known p')"
proof (cases "txLookup_Get (pool_all p) (e_hash e tx)")
  case (Some x)
  with assms(1) show ?thesis by (auto simp: pool_add_def)
next
  case None
  obtain err p1 where v: "validateTx e tx loc p = (err, p1)" by fastforce
  note s1 = validateTx_reads(1) [OF v]
  have i1: "pool_inv e {} {} p1" "config p1 = config p" "pool_all p1 = pool_all p" using same_lists_inv [OF s1] assms(1) s1 by (auto simp: same_lists_def)
  show ?thesis
  proof (cases "err = None")
    case False
    then show ?thesis using None v i1 by (auto simp: pool_add_def)
  next
    case ok: True
    define a where "a = from_of e tx"
    have a: "e_sender e tx = Inr a" using validateTx_reads(2) [OF v ok] by (simp add: a_def)
    obtain err2 p2 where r: "make_room e tx loc p1 = Some (err2, p2)" "pool_inv e {} {} p2" "config p2 = config p1" "locals p2 = locals p1"
      "txLookup_Count (pool_all p2) \<le> txLookup_Count (pool_all p1)" "\<forall>g. txLookup_Get (pool_all p1) g = None \<longrightarrow> txLookup_Get (pool_all p2) g = None"
      using make_room_inv [OF i1(1) assms(2), of tx loc] assms(3) i1(3) by auto
    have fresh: "txLookup_Get (pool_all p2) (e_hash e tx) = None" using r(6) None i1(3) by simp
    define rest where "rest = (case (case map_of (pending p2) a of None \<Rightarrow> None | Some l \<Rightarrow> if txList_Overlaps l tx then Some l else None) of
          Some l \<Rightarrow> Some (replace_pending e tx a l p2)
        | None \<Rightarrow>
            let ((replace, err), p) = enqueueTx e (e_hash e tx) tx p2 in
            if err \<noteq> None then Some ((False, err), p)
            else
              let p = (if loc \<and> \<not> as_contains (locals p) a then p\<lparr>locals := as_add a (locals p)\<rparr> else p) in
              Some ((replace, None), journalTx a tx p))"
    have unf: "pool_add e tx loc p = (if err2 \<noteq> None then Some ((False, err2), p2) else rest)"
      unfolding pool_add_def rest_def a_def Let_def using None v ok r(1) by simp
    have "\<exists>r err p'. rest = Some ((r, err), p') \<and> pool_inv e {} {} p' \<and> config p' = config p2 \<and>
       txLookup_Count (pool_all p') \<le> Suc (txLookup_Count (pool_all p2)) \<and> (err = None \<longrightarrow> tx \<in> known p')"
    proof (cases "\<exists>l. map_of (pending p2) a = Some l \<and> txList_Overlaps l tx")
      case True
      then obtain l where l: "map_of (pending p2) a = Some l" "txList_Overlaps l tx" by blast
      with replace_pending_new [OF r(2) a fresh assms(2) l] show ?thesis by (auto simp: rest_def split: if_splits)
    next
      case False
      have free: "AccountNonce tx \<notin> AccountNonce ` set (content (list_of True (pending p2) a))"
      proof (cases "map_of (pending p2) a")
        case (Some l)
        then have "list_ok l" "\<not> txList_Overlaps l tx" using False lists_okD [OF pool_invD(1) [OF r(2)] Some] by (auto simp: owned_def)
        then show ?thesis using Get_None [of l "AccountNonce tx"] Some by (simp add: txList_Overlaps_def list_of_def)
      qed (simp add: list_of_def list_ok_new)
      obtain r' err' p3 where q: "enqueueTx e (e_hash e tx) tx p2 = ((r', err'), p3)" "pool_inv e {} {} p3" "config p3 = config p2"
        "txLookup_Count (pool_all p3) \<le> Suc (txLookup_Count (pool_all p2))" "if err' = None then tx \<in> known p3 else p3 = p2"
        using enqueue_new [OF r(2) a fresh assms(2) free] by blast
      define p4 where "p4 = journalTx a tx (if loc \<and> \<not> as_contains (locals p3) a then p3\<lparr>locals := as_add a (locals p3)\<rparr> else p3)"
      have "rest = Some (if err' \<noteq> None then ((False, err'), p3) else ((r', None), p4))"
        using False q(1) by (auto simp: rest_def p4_def Let_def split: option.splits)
      moreover have "pool_inv e {} {} p4" "config p4 = config p3" "pool_all p4 = pool_all p3" "known p4 = known p3"
        using q(2) pool_inv_cong [of p4 p3] by (auto simp: p4_def known_def)
      ultimately show ?thesis using q by (cases err') auto
    qed
    then show ?thesis using unf r i1 by (cases err2) (auto intro: le_trans)
  qed
qed

section \<open>Batches\<close>

lemma addTx_inv:
  assumes "pool_inv e {} {} p" "account_queue_ok p" "env_ok e" "txLookup_Count (pool_all p) < 2 ^ 63"
  shows "\<exists>err p'. addTx e tx loc p = Some (err, p') \<and> pool_inv e {} {} p' \<and> config p' = config p"
proof -
  obtain r err p1 where a: "pool_add e tx loc p = Some ((r, err), p1)" "pool_inv e {} {} p1" "config p1 = config p"
    using pool_add_inv [OF assms(1,3,4)] by blast
  have "account_queue_ok p1" using assms(2) a(3) by (simp add: account_queue_ok_def)
  from promoteExecutables_inv [OF a(2) this assms(3), of "Some [from_of e tx]"] a show ?thesis by (auto simp: addTx_def)
qed

lemma add_loop_inv:
  assumes "pool_inv e {} {} p" "env_ok e" "txLookup_Count (pool_all p) + length txs \<le> 2 ^ 63"
  shows "\<exists>errs dirty' p'. add_loop e loc txs dirty p = Some (errs, dirty', p') \<and> pool_inv e {} {} p' \<and> config p' = config p \<and> length errs = length txs"
  using assms(1,3)
proof (induction txs arbitrary: p dirty)
  case (Cons tx txs)
  obtain r err p1 where a: "pool_add e tx loc p = Some ((r, err), p1)" "pool_inv e {} {} p1" "config p1 = config p"
    "txLookup_Count (pool_all p1) \<le> Suc (txLookup_Count (pool_all p))" using pool_add_inv [OF Cons.prems(1) assms(2)] Cons.prems(2) by fastforce
  have "txLookup_Count (pool_all p1) + length txs \<le> 2 ^ 63" using a(4) Cons.prems(2) by simp
  from Cons.IH [OF a(2) this, of "if err = None \<and> \<not> r then List.insert (from_of e tx) dirty else dirty"] a(1,3) show ?case by auto
qed simp

lemma addTxsLocked_inv:
  assumes "pool_inv e {} {} p" "account_queue_ok p" "env_ok e" "txLookup_Count (pool_all p) + length txs \<le> 2 ^ 63"
  shows "\<exists>errs p'. addTxsLocked e txs loc p = Some (errs, p') \<and> pool_inv e {} {} p' \<and> config p' = config p \<and> length errs = length txs"
proof -
  obtain errs dirty p1 where a: "add_loop e loc txs [] p = Some (errs, dirty, p1)" "pool_inv e {} {} p1" "config p1 = config p" "length errs = length txs"
    using add_loop_inv [OF assms(1,3,4)] by blast
  have "account_queue_ok p1" using assms(2) a(3) by (simp add: account_queue_ok_def)
  from promoteExecutables_inv [OF a(2) this assms(3), of "Some (e_dirty e dirty)"] a show ?thesis by (auto simp: addTxsLocked_def)
qed

section \<open>Eviction\<close>

lemma evict_loop_inv:
  assumes "pool_inv e {} {} p" "env_ok e"
  shows "\<exists>p'. evict_loop e as p = Some p' \<and> pool_inv e {} {} p' \<and> config p' = config p \<and> locals p' = locals p"
  using assms(1)
proof (induction as arbitrary: p)
  case (Cons a as)
  show ?case
  proof (cases "map_of (queue p) a")
    case None
    then show ?thesis using Cons.IH [OF Cons.prems] by simp
  next
    case (Some l)
    have ok: "list_ok l" using lists_okD [OF pool_invD(2) [OF Cons.prems] Some] by (simp add: owned_def)
    obtain l' where l': "txList_Flatten (e_nonces e) l = (content l, l')"
      "\<forall>ts. set ts \<subseteq> set (content l) \<longrightarrow> distinct ts \<longrightarrow> (\<exists>p'. remove_all e True ts (put_queue a l' p) = Some p' \<and> unqueued e a (length ts) p p')"
      using drop_some [OF Cons.prems Some assms(2)] by blast
    obtain p1 where p1: "remove_all e True (content l) (put_queue a l' p) = Some p1" "unqueued e a (length (content l)) p p1"
      using l'(2) list_ok_distinct_txs [OF ok] by blast
    have i1: "pool_inv e {} {} p1" "config p1 = config p" "locals p1 = locals p" using p1(2) by (auto simp: unqueued_def)
    show ?thesis using Cons.IH [OF Cons.prems] Cons.IH [OF i1(1)] Some l'(1) p1(1) i1 by auto
  qed
qed simp

lemma evict_inv:
  assumes "pool_inv e {} {} p" "env_ok e"
  shows "\<exists>p'. evict e p = Some p' \<and> pool_inv e {} {} p' \<and> config p' = config p \<and> locals p' = locals p"
  using evict_loop_inv [OF assms] by (simp add: evict_def)

section \<open>A new head\<close>

text \<open>
  What the pool relies on of the chain: a block is found under its number, and numbers are far from wrapping around.
\<close>

definition chain_ok :: "PoolChain \<Rightarrow> bool" where
  "chain_ok c \<longleftrightarrow> (\<forall>h n b. pc_GetBlock c h n = Some b \<longrightarrow> pb_number b = n \<and> unat n < 2 ^ 63)"

definition has_block :: "PoolChain \<Rightarrow> Header \<Rightarrow> bool" where
  "has_block c h \<longleftrightarrow> pc_GetBlock c (Header_Hash (pc_keccak c) h) (Uint64 (h_Number h)) \<noteq> None"

lemma pb_parent_number:
  assumes "chain_ok c" "pb_parent c b = Some b'"
  shows "unat (pb_number b') < unat (pb_number b)"
proof -
  have n: "pb_number b' = pb_number b - 1" "unat (pb_number b - 1) < 2 ^ 63" using assms by (auto simp: chain_ok_def pb_parent_def)
  then have "pb_number b \<noteq> 0" by (auto simp: unsigned_minus_1_eq_mask mask_eq_exp_minus_1)
  then have "unat (pb_number b - 1) = unat (pb_number b) - 1" "unat (pb_number b) \<noteq> 0" by (auto simp: unat_minus_one unat_eq_0)
  with n(1) show ?thesis by simp
qed

lemma unwind_returns:
  assumes "chain_ok c"
  shows "\<exists>r. unwind c go_on b txs = Some r"
proof (induction "unat (pb_number b)" arbitrary: b txs rule: less_induct)
  case less
  show ?case
  proof (cases "go_on b \<and> pb_parent c b \<noteq> None")
    case True
    then obtain b' where b': "pb_parent c b = Some b'" by auto
    from less [OF pb_parent_number [OF assms b']] True b' show ?thesis by (subst unwind.simps) simp
  qed (subst unwind.simps, auto)
qed

lemma unwind_both_returns:
  assumes "chain_ok c"
  shows "\<exists>r. unwind_both c rem add dropped included = Some r"
proof (induction "unat (pb_number rem)" arbitrary: rem add dropped included rule: less_induct)
  case less
  show ?case
  proof (cases "pb_parent c rem = None \<or> pb_parent c add = None")
    case True
    then show ?thesis by (subst unwind_both.simps) (auto split: option.splits)
  next
    case False
    then obtain r' a' where p: "pb_parent c rem = Some r'" "pb_parent c add = Some a'" by auto
    from less [OF pb_parent_number [OF assms p(1)]] p show ?thesis by (subst unwind_both.simps) simp
  qed
qed

lemma reinject_of_returns:
  assumes "chain_ok c" "\<forall>h. oldHead = Some h \<longrightarrow> has_block c h" "oldHead \<noteq> None \<longrightarrow> has_block c newHead"
  shows "\<exists>r. reinject_of c oldHead newHead = Some r"
proof (cases oldHead)
  case (Some h)
  then obtain rem add where b: "pc_GetBlock c (Header_Hash (pc_keccak c) h) (Uint64 (h_Number h)) = Some rem"
    "pc_GetBlock c (Header_Hash (pc_keccak c) newHead) (Uint64 (h_Number newHead)) = Some add" using assms(2,3) by (auto simp: has_block_def)
  obtain r1 where r1: "unwind c (\<lambda>b. pb_number add < pb_number b) rem [] = Some r1" using unwind_returns [OF assms(1)] by blast
  show ?thesis
  proof (cases r1)
    case None
    with Some b r1 show ?thesis by (auto simp: reinject_of_def)
  next
    case (Some x)
    obtain rem' dropped where x: "x = (rem', dropped)" by fastforce
    obtain r2 where r2: "unwind c (\<lambda>b. pb_number rem' < pb_number b) add [] = Some r2" using unwind_returns [OF assms(1)] by blast
    show ?thesis
    proof (cases r2)
      case None
      with \<open>oldHead = Some h\<close> Some x b r1 r2 show ?thesis by (auto simp: reinject_of_def)
    next
      case (Some y)
      obtain add' included where y: "y = (add', included)" by fastforce
      obtain r3 where r3: "unwind_both c rem' add' dropped included = Some r3" using unwind_both_returns [OF assms(1)] by blast
      with \<open>oldHead = Some h\<close> \<open>r1 = Some x\<close> Some x y b r1 r2 show ?thesis by (auto simp: reinject_of_def)
    qed
  qed
qed (simp add: reinject_of_def)

lemma nonces_loop_inv:
  assumes "pool_inv e {} {} p" "env_ok e" "\<forall>a l. map_of (pending p) a = Some l \<longrightarrow> content l \<noteq> []"
  shows "\<exists>p'. nonces_loop e as p = Some p' \<and> pool_inv e {} {} p' \<and> config p' = config p \<and> locals p' = locals p"
  using assms(1,3)
proof (induction as arbitrary: p)
  case (Cons a as)
  show ?case
  proof (cases "map_of (pending p) a")
    case None
    then show ?thesis using Cons.IH [OF Cons.prems] by simp
  next
    case (Some l)
    have ok: "list_ok l" using lists_okD [OF pool_invD(1) [OF Cons.prems(1)] Some] by (simp add: owned_def)
    obtain l' where l': "txList_Flatten (e_nonces e) l = (content l, l')" "splits l [] l'" "content l' = content l"
      using Flatten_splits [OF ok env_range [OF assms(2)]] by blast
    define q where "q = set_pending_nonce a (AccountNonce (last (content l)) + 1) (put_pending a l' p)"
    have "pool_inv e {} {} (put_pending a l' p)" using take_pending(1) [OF Cons.prems(1) Some l'(2)] by simp
    then have q: "pool_inv e {} {} q" using pool_inv_cong [of q "put_pending a l' p"] by (simp add: q_def)
    have "\<forall>b k. map_of (pending q) b = Some k \<longrightarrow> content k \<noteq> []" using Cons.prems(2) Some l'(3) by (auto simp: q_def update_conv')
    from Cons.IH [OF q this] Some l'(1) Cons.prems(2) show ?thesis by (auto simp: q_def)
  qed
qed simp

text \<open>What a reset needs: the chain, the blocks of both heads, and room for the transactions of the abandoned branch.\<close>

definition reset_ok :: "PoolChain \<Rightarrow> Header option \<Rightarrow> Header \<Rightarrow> TxPool \<Rightarrow> bool" where
  "reset_ok c oldHead newHead p \<longleftrightarrow> chain_ok c \<and> (\<forall>h. oldHead = Some h \<longrightarrow> has_block c h \<and> has_block c newHead) \<and>
     (\<forall>txs. reinject_of c oldHead newHead = Some (Some txs) \<longrightarrow> txLookup_Count (pool_all p) + length txs \<le> 2 ^ 63)"

lemma ManageState_fresh: "\<exists>ms. ManageState [] st = Some ms"
  by (simp add: ManageState_def StateDB_Copy_def)

lemma reset_inv:
  assumes "pool_inv e {} {} p" "account_queue_ok p" "env_ok e" "reset_ok c oldHead newHead p"
  shows "\<exists>p'. reset e c oldHead newHead p = Some p' \<and> pool_inv e {} {} p' \<and> config p' = config p"
proof -
  obtain r where r: "reinject_of c oldHead newHead = Some r"
    using reinject_of_returns [of c oldHead newHead] assms(4) by (auto simp: reset_ok_def)
  show ?thesis
  proof (cases "r = None \<or> pc_StateAt c (h_Root newHead) = None")
    case True
    then have "reset e c oldHead newHead p = Some p" using r by (auto simp: reset_def split: option.splits)
    with assms(1) show ?thesis by simp
  next
    case False
    then obtain txs st where t: "r = Some txs" "pc_StateAt c (h_Root newHead) = Some st" by auto
    obtain ms where ms: "ManageState [] st = Some ms" using ManageState_fresh by blast
    define q where "q = p\<lparr>currentState := st, pendingState := ms, currentMaxGas := h_GasLimit newHead\<rparr>"
    have q: "pool_inv e {} {} q" "account_queue_ok q" "config q = config p"
      using assms(1,2) pool_inv_cong [of q p] by (auto simp: q_def account_queue_ok_def)
    have "txLookup_Count (pool_all q) + length txs \<le> 2 ^ 63" using assms(4) r t(1) by (auto simp: reset_ok_def q_def)
    then obtain errs p1 where p1: "addTxsLocked e txs False q = Some (errs, p1)" "pool_inv e {} {} p1" "config p1 = config q"
      using addTxsLocked_inv [OF q(1,2) assms(3)] by blast
    obtain p2 where p2: "demoteUnexecutables e p1 = Some p2" "pool_inv e {} {} p2" "config p2 = config p1"
      "\<forall>a l. map_of (pending p2) a = Some l \<longrightarrow> content l \<noteq> []" using demoteUnexecutables_inv [OF p1(2) assms(3)] by blast
    obtain p3 where p3: "nonces_loop e (e_accounts e (pending p2)) p2 = Some p3" "pool_inv e {} {} p3" "config p3 = config p2"
      using nonces_loop_inv [OF p2(2) assms(3) p2(4)] by blast
    have "account_queue_ok p3" using q(2) p1(3) p2(3) p3(3) by (simp add: account_queue_ok_def)
    then obtain p4 where p4: "promoteExecutables e None p3 = Some p4" "pool_inv e {} {} p4" "config p4 = config p3"
      using promoteExecutables_inv [OF p3(2) _ assms(3)] by blast
    have "reset e c oldHead newHead p = Some p4"
      using r t ms p1(1) p2(1) p3(1) p4(1) by (simp add: reset_def q_def)
    with p4 p3 p2 p1 q show ?thesis by auto
  qed
qed

lemma emptyTxPool_inv: "pool_inv e {} {} (emptyTxPool conf cc st)"
  by (simp add: pool_inv_def emptyTxPool_def Let_def lists_ok_def members_def known_def books_def newTxLookup_def newTxPricedList_def
      txLookup_Get_def prices.invar_Nil)

section \<open>Queries\<close>

lemma flatten_lists_inv:
  assumes "lists_ok e s m" "env_ok e"
  shows "\<exists>r m'. flatten_lists e as m = (r, m') \<and> lists_ok e s m' \<and> members m' = members m"
  using assms(1)
proof (induction as arbitrary: m)
  case (Cons a as)
  show ?case
  proof (cases "map_of m a")
    case None
    then show ?thesis using Cons.IH [OF Cons.prems] by simp
  next
    case (Some l)
    note ow = lists_okD [OF Cons.prems Some]
    obtain l' where l': "txList_Flatten (e_nonces e) l = (content l, l')" "splits l [] l'" "content l' = content l"
      using Flatten_splits [of l "e_nonces e"] ow env_range [OF assms(2)] by (auto simp: owned_def)
    have "owned e a l'" "l_strict l' = s" using ow l'(2,3) by (auto simp: owned_def splits_def)
    then have u: "lists_ok e s (AList.update a l' m)" using lists_ok_update [OF Cons.prems] by blast
    have "members (AList.update a l' m) = members m"
      using members_update [OF Cons.prems, of a l'] l'(3) list_of_Some [OF Some, of s] content_members [OF Some] by auto
    with Cons.IH [OF u] Some l'(1) show ?thesis by (auto split: prod.splits)
  qed
qed simp

lemma set_lists_inv:
  assumes "pool_inv e {} {} p" "lists_ok e True m" "members m = members (pending p)" "lists_ok e False q" "members q = members (queue p)"
  shows "pool_inv e {} {} (p\<lparr>pending := m, queue := q\<rparr>)"
  using assms books_cong [of "p\<lparr>pending := m, queue := q\<rparr>" p] by (simp add: pool_inv_def known_def)

lemma queries_inv:
  assumes "pool_inv e {} {} p" "env_ok e"
  shows "pool_inv e {} {} (snd (Content e p))" "pool_inv e {} {} (snd (Pending e p))"
    "config (snd (Content e p)) = config p" "config (snd (Pending e p)) = config p"
proof -
  note inv = pool_invD [OF assms(1)]
  obtain r m where m: "flatten_lists e (e_accounts e (pending p)) (pending p) = (r, m)" "lists_ok e True m" "members m = members (pending p)"
    using flatten_lists_inv [OF inv(1) assms(2)] by blast
  obtain r' q where q: "flatten_lists e (e_accounts e (queue p)) (queue p) = (r', q)" "lists_ok e False q" "members q = members (queue p)"
    using flatten_lists_inv [OF inv(2) assms(2)] by blast
  show "pool_inv e {} {} (snd (Content e p))" "pool_inv e {} {} (snd (Pending e p))"
    using set_lists_inv [OF assms(1) m(2,3) q(2,3)] set_lists_inv [OF assms(1) m(2,3) inv(2) refl] m(1) q(1)
    by (simp_all add: Content_def Pending_def)
  show "config (snd (Content e p)) = config p" "config (snd (Pending e p)) = config p"
    using m(1) q(1) by (simp_all add: Content_def Pending_def)
qed

end
