(* ===== verification/Tx_Pool_Correct.thy ===== *)
theory Tx_Pool_Correct
  imports Tx_Pool_Ops
begin

text \<open>
  The transaction pool as its users see it: every pool that a sequence of calls can reach is consistent, no call panics or
  runs forever, the status of a transaction is reported correctly, and the limits are kept without taking from an account
  what it is guaranteed.
\<close>

section \<open>Counting\<close>

lemma lists_ok_Cons:
  assumes "lists_ok e s ((a, l) # m)"
  shows "lists_ok e s m" "members ((a, l) # m) = set (content l) \<union> members m" "set (content l) \<inter> members m = {}" "list_ok l" "map_of m a = None"
proof -
  have d: "distinct (map fst m)" "map_of m a = None" using assms by (auto simp: lists_ok_def map_of_eq_None_iff)
  have M: "map_of ((a, l) # m) b = (if b = a then Some l else map_of m b)" for b by simp
  have m: "map_of ((a, l) # m) b = Some k" if "map_of m b = Some k" for b k using that d(2) by auto
  then show *: "lists_ok e s m" using assms d(1) unfolding lists_ok_def by blast
  show "members ((a, l) # m) = set (content l) \<union> members m" using d(2) unfolding members_def M by (auto split: if_splits) (metis option.distinct(1))+
  have "e_sender e t = Inr a" if "t \<in> set (content l)" for t using lists_okD [OF assms, of a l] that by (auto simp: owned_def)
  moreover have "e_sender e t \<noteq> Inr a" if "t \<in> members m" for t
    using that * d(2) lists_okD [OF *] by (fastforce simp: members_def owned_def)
  ultimately show "set (content l) \<inter> members m = {}" by blast
  show "list_ok l" "map_of m a = None" using lists_okD [OF assms, of a l] d(2) by (auto simp: owned_def)
qed

definition tally :: "accountLists \<Rightarrow> nat" where
  "tally m = sum_list (map (txList_Len \<circ> snd) m)"

lemma tally_members:
  assumes "lists_ok e s m"
  shows "finite (members m) \<and> tally m = card (members m)"
  using assms
proof (induction m)
  case Nil
  then show ?case by (simp add: members_def tally_def)
next
  case (Cons x m)
  obtain a l where x: "x = (a, l)" by fastforce
  note c = lists_ok_Cons [OF Cons.prems [unfolded x]]
  have "card (set (content l)) = txList_Len l" using distinct_card [OF list_ok_distinct_txs [OF c(4)]] Len_content [OF c(4)] by simp
  with Cons.IH [OF c(1)] c(2,3) show ?case by (simp add: x tally_def card_Un_disjoint)
qed

lemma total_len_of_nat: "total_len m = of_nat (tally m)"
  by (induction m) (auto simp: total_len_def tally_def)

lemma llen_le_tally: "llen m a \<le> tally m"
  by (induction m) (auto simp: llen_def tally_def split: option.splits)

lemma books_Count:
  assumes "books e S X p" "finite S"
  shows "txLookup_Count (pool_all p) = card S"
proof -
  let ?m = "lk_all (pool_all p)"
  have "distinct (map fst ?m)" using assms(1) by (simp add: books_def)
  then have "length ?m = card (dom (map_of ?m))" by (metis distinct_card dom_map_of_conv_image_fst length_map set_map)
  also have "dom (map_of ?m) = e_hash e ` S" using assms(1) unfolding books_def txLookup_Get_def dom_def by auto
  also have "card \<dots> = card S" using books_hash [OF assms(1)] by (intro card_image) (auto simp: inj_on_def)
  finally show ?thesis by (simp add: txLookup_Count_def)
qed

lemma stats_Count:
  assumes "pool_inv e {} X p"
  shows "tally (pending p) + tally (queue p) = txLookup_Count (pool_all p)"
proof -
  note inv = pool_invD [OF assms]
  have "finite (members (pending p))" "finite (members (queue p))" "tally (pending p) = card (members (pending p))" "tally (queue p) = card (members (queue p))"
    using tally_members [OF inv(1)] tally_members [OF inv(2)] by auto
  moreover from this have "txLookup_Count (pool_all p) = card (known p)" using books_Count [OF inv(7)] by (simp add: known_def)
  ultimately show ?thesis using inv(4) by (simp add: known_def card_Un_disjoint)
qed

section \<open>Sequences of calls\<close>

datatype pool_call =
    Call_AddLocal Transaction | Call_AddRemote Transaction | Call_AddLocals "Transaction list" | Call_AddRemotes "Transaction list"
  | Call_SetGasPrice int | Call_evict | Call_head PoolChain ChainConfig Header Header | Call_Content | Call_Pending

fun run_call :: "PoolEnv \<Rightarrow> pool_call \<Rightarrow> TxPool \<Rightarrow> TxPool option" where
  "run_call e (Call_AddLocal tx) p = map_option snd (AddLocal e tx p)"
| "run_call e (Call_AddRemote tx) p = map_option snd (AddRemote e tx p)"
| "run_call e (Call_AddLocals txs) p = map_option snd (AddLocals e txs p)"
| "run_call e (Call_AddRemotes txs) p = map_option snd (AddRemotes e txs p)"
| "run_call e (Call_SetGasPrice thr) p = SetGasPrice e thr p"
| "run_call e Call_evict p = evict e p"
| "run_call e (Call_head c cc head newHead) p = map_option snd (handle_head e c cc head newHead p)"
| "run_call e Call_Content p = Some (snd (Content e p))"
| "run_call e Call_Pending p = Some (snd (Pending e p))"

text \<open>
  What a call may assume: the table cannot grow beyond \<open>2 ^ 63\<close> entries, and the chain has the blocks of both heads.
\<close>

fun call_ok :: "pool_call \<Rightarrow> TxPool \<Rightarrow> bool" where
  "call_ok (Call_AddLocal tx) p = (txLookup_Count (pool_all p) < 2 ^ 63)"
| "call_ok (Call_AddRemote tx) p = (txLookup_Count (pool_all p) < 2 ^ 63)"
| "call_ok (Call_AddLocals txs) p = (txLookup_Count (pool_all p) + length txs \<le> 2 ^ 63)"
| "call_ok (Call_AddRemotes txs) p = (txLookup_Count (pool_all p) + length txs \<le> 2 ^ 63)"
| "call_ok (Call_head c cc head newHead) p = reset_ok c (Some head) newHead p"
| "call_ok _ p = True"

text \<open>The environment of a call: the signer and the hash function stay, the time and the iteration orders vary.\<close>

definition env_for :: "(Transaction \<Rightarrow> Hash) \<Rightarrow> (Transaction \<Rightarrow> tx_err + Address) \<Rightarrow> PoolEnv \<Rightarrow> bool" where
  "env_for hash sender e \<longleftrightarrow> env_ok e \<and> e_hash e = hash \<and> e_sender e = sender"

inductive reachable :: "(Transaction \<Rightarrow> Hash) \<Rightarrow> (Transaction \<Rightarrow> tx_err + Address) \<Rightarrow> TxPool \<Rightarrow> bool" for hash sender where
  reachable_new: "env_for hash sender e \<Longrightarrow> chain_ok c \<Longrightarrow> 0 \<le> sint (c_AccountQueue conf) \<Longrightarrow>
    NewTxPool e c conf cc st head = Some p \<Longrightarrow> reachable hash sender p"
| reachable_call: "reachable hash sender p \<Longrightarrow> env_for hash sender e \<Longrightarrow> call_ok call p \<Longrightarrow> run_call e call p = Some p' \<Longrightarrow>
    reachable hash sender p'"

lemma pool_inv_env: "e_hash e = e_hash e' \<Longrightarrow> e_sender e = e_sender e' \<Longrightarrow> pool_inv e F X p = pool_inv e' F X p"
  by (simp add: pool_inv_def lists_ok_def books_def from_of_def slot_def inj_on_def)

lemma run_call_inv:
  assumes "pool_inv e {} {} p" "account_queue_ok p" "env_ok e" "call_ok call p"
  shows "\<exists>p'. run_call e call p = Some p' \<and> pool_inv e {} {} p' \<and> account_queue_ok p'"
proof -
  have *: "\<exists>p'. run_call e call p = Some p' \<and> pool_inv e {} {} p' \<and> config p' = config p"
  proof (cases call)
    case (Call_AddLocal tx)
    with addTx_inv [OF assms(1-3), of tx] assms(4) show ?thesis by (fastforce simp: AddLocal_def)
  next
    case (Call_AddRemote tx)
    with addTx_inv [OF assms(1-3), of tx] assms(4) show ?thesis by (fastforce simp: AddRemote_def)
  next
    case (Call_AddLocals txs)
    with addTxsLocked_inv [OF assms(1-3), of txs] assms(4) show ?thesis by (fastforce simp: AddLocals_def)
  next
    case (Call_AddRemotes txs)
    with addTxsLocked_inv [OF assms(1-3), of txs] assms(4) show ?thesis by (fastforce simp: AddRemotes_def)
  next
    case (Call_SetGasPrice thr)
    with SetGasPrice_inv [OF assms(1,3), of thr] show ?thesis by auto
  next
    case Call_evict
    with evict_inv [OF assms(1,3)] show ?thesis by auto
  next
    case (Call_head c cc head newHead)
    define q where "q = (if IsHomestead cc (h_Number newHead) then p\<lparr>homestead := True\<rparr> else p)"
    have q: "pool_inv e {} {} q" "account_queue_ok q" "config q = config p" "reset_ok c (Some head) newHead q"
      using assms pool_inv_cong [of q p] Call_head by (auto simp: q_def account_queue_ok_def reset_ok_def)
    from reset_inv [OF q(1,2) assms(3) q(4)] q(3) Call_head show ?thesis by (auto simp: handle_head_def q_def [symmetric] Let_def)
  next
    case Call_Content
    with queries_inv [OF assms(1,3)] show ?thesis by simp
  next
    case Call_Pending
    with queries_inv [OF assms(1,3)] show ?thesis by simp
  qed
  then show ?thesis using assms(2) by (auto simp: account_queue_ok_def)
qed

lemma reachable_inv:
  assumes "reachable hash sender p"
  shows "env_for hash sender e \<Longrightarrow> pool_inv e {} {} p \<and> account_queue_ok p"
  using assms
proof (induction arbitrary: e rule: reachable.induct)
  case (reachable_new e' c conf cc st head p)
  let ?q = "emptyTxPool conf cc st"
  have c: "config ?q = config_sanitize conf" by (simp add: emptyTxPool_def Let_def)
  have q: "account_queue_ok ?q" using reachable_new.hyps(3) by (simp add: account_queue_ok_def c config_sanitize_def Let_def)
  have r: "reset_ok c None head ?q" using reachable_new.hyps(2)
    by (auto simp: reset_ok_def reinject_of_def emptyTxPool_def Let_def newTxLookup_def txLookup_Count_def)
  have "env_ok e'" using reachable_new.hyps(1) by (simp add: env_for_def)
  from reset_inv [OF emptyTxPool_inv q this r] reachable_new.hyps(4)
  have "pool_inv e' {} {} p" "config p = config ?q" by (auto simp: NewTxPool_def)
  with q pool_inv_env [of e e'] reachable_new.hyps(1) reachable_new.prems show ?case by (auto simp: env_for_def account_queue_ok_def)
next
  case (reachable_call p e' call p')
  have i: "pool_inv e' {} {} p" "account_queue_ok p" "env_ok e'"
    using reachable_call.IH reachable_call.hyps(2) by (auto simp: env_for_def)
  from run_call_inv [OF i reachable_call.hyps(3)] reachable_call.hyps(4) have "pool_inv e' {} {} p'" "account_queue_ok p'" by auto
  with pool_inv_env [of e e'] reachable_call.hyps(2) reachable_call.prems show ?case by (auto simp: env_for_def)
qed

section \<open>Properties\<close>

text \<open>Maps visited in the order of their association lists.\<close>

definition plain_env :: "(Transaction \<Rightarrow> Hash) \<Rightarrow> (Transaction \<Rightarrow> tx_err + Address) \<Rightarrow> PoolEnv" where
  "plain_env hash sender =
     \<lparr>e_hash = hash, e_sender = sender, e_now = 0, e_nonces = map fst, e_hashes = map fst, e_accounts = map fst, e_dirty = (\<lambda>as. as)\<rparr>"

lemma env_for_plain: "env_for hash sender (plain_env hash sender)"
  by (simp add: env_for_def env_ok_def plain_env_def range_ok_def)

lemma pool_stats_tally: "pool_stats p = (tally (pending p), tally (queue p))"
  by (simp add: pool_stats_def tally_def)

text \<open>
  C9.  Every pool that a sequence of calls can build is consistent: the table answers exactly for the transactions in
  the lists, under their hashes; none of them is both pending and queued; no two of them have the same sender and nonce; all
  of them are in the heap by price; and pending and queued transactions together are as many as the table counts.
\<close>

theorem pool_consistent:
  assumes "reachable hash sender p"
  shows "(\<forall>h tx. pool_Get p h = Some tx \<longleftrightarrow> tx \<in> known p \<and> h = hash tx) \<and>
     members (pending p) \<inter> members (queue p) = {} \<and> inj_on (\<lambda>t. (sender t, AccountNonce t)) (known p) \<and>
     known p \<subseteq> set (pl_items (priced p)) \<and> fst (pool_stats p) + snd (pool_stats p) = txLookup_Count (pool_all p)"
proof -
  let ?e = "plain_env hash sender"
  have i: "pool_inv ?e {} {} p" using reachable_inv [OF assms env_for_plain] by simp
  note inv = pool_invD [OF i]
  have "slot ?e = (\<lambda>t. (sender t, AccountNonce t))" "e_hash ?e = hash" by (auto simp: slot_def plain_env_def)
  with inv(4,6,7) stats_Count [OF i] show ?thesis by (simp add: books_def pool_Get_def pool_stats_tally)
qed


text \<open>
  C34.  The status of a transaction is reported correctly, although the code only compares nonces: a transaction of the
  pool is reported as pending exactly if it is in a pending list.
\<close>

theorem pool_status_correct:
  assumes "reachable hash sender p" "env_for hash sender e"
  shows "pool_status e p h =
     (case pool_Get p h of
        None \<Rightarrow> TxStatusUnknown
      | Some tx \<Rightarrow> if tx \<in> members (pending p) then TxStatusPending else TxStatusQueued)"
proof (cases "pool_Get p h")
  case None
  then show ?thesis by (simp add: pool_status_def pool_Get_def)
next
  case (Some tx)
  have i: "pool_inv e {} {} p" using reachable_inv [OF assms] by simp
  note inv = pool_invD [OF i]
  have k: "tx \<in> known p" using Some inv(7) by (simp add: pool_Get_def books_def)
  define a where "a = from_of e tx"
  have a: "e_sender e tx = Inr a" using k members_sender [OF inv(1)] members_sender [OF inv(2)] by (auto simp: known_def a_def)
  have "(case map_of (pending p) a of None \<Rightarrow> False | Some l \<Rightarrow> sm_Get (l_txs l) (AccountNonce tx) \<noteq> None) \<longleftrightarrow> tx \<in> members (pending p)"
  proof (cases "map_of (pending p) a")
    case None
    then show ?thesis using a lists_okD [OF inv(1)] by (fastforce simp: members_def owned_def)
  next
    case (Some l)
    have ow: "owned e a l" using lists_okD [OF inv(1) Some] by simp
    have "tx \<in> members (pending p)" if "u \<in> set (content l)" "AccountNonce u = AccountNonce tx" for u
    proof -
      have "slot e u = slot e tx" "u \<in> members (pending p)" using that ow a content_members [OF Some] by (auto simp: slot_def owned_def)
      then show ?thesis using inj_onD [OF inv(6), of u tx] k by (auto simp: known_def)
    qed
    moreover have "tx \<in> set (content l)" if "tx \<in> members (pending p)"
      using members_content [OF inv(1) that a] list_of_Some [OF Some] by simp
    ultimately show ?thesis using Some ow Get_None [of l "AccountNonce tx"] by (auto simp: owned_def)
  qed
  then show ?thesis using Some by (auto simp: pool_status_def pool_Get_def a_def [symmetric] split: option.splits)
qed

lemma tally_sum: "distinct (map fst m) \<Longrightarrow> tally m = (\<Sum>a \<in> dom (map_of m). llen m a)"
proof (induction m)
  case (Cons x m)
  obtain a l where x: "x = (a, l)" by fastforce
  have a: "a \<notin> dom (map_of m)" using Cons.prems x by (auto simp: dom_map_of_conv_image_fst)
  then have "(\<Sum>b \<in> dom (map_of m). llen (x # m) b) = (\<Sum>b \<in> dom (map_of m). llen m b)" by (intro sum.cong) (auto simp: x llen_def)
  moreover have "llen (x # m) a = txList_Len l" "tally (x # m) = txList_Len l + tally m" by (simp_all add: x llen_def tally_def)
  ultimately have "tally (x # m) = (\<Sum>b \<in> insert a (dom (map_of m)). llen (x # m) b)"
    using Cons a by (simp add: finite_dom_map_of)
  also have "insert a (dom (map_of m)) = dom (map_of (x # m))" by (auto simp: x)
  finally show ?case .
qed (simp add: tally_def)

text \<open>
  C11.  The limit on pending transactions: afterwards they fit the limit, or no remote account has more than its slots;
  no account gains transactions, none loses one of its guaranteed slots, and local accounts lose nothing.
\<close>

theorem pending_limit_fair:
  assumes "pool_inv e {} {} p" "env_ok e" "fst (pool_stats p) < 2 ^ 64"
  shows "\<exists>p'. limit_pending e p = Some p' \<and>
     (fst (pool_stats p') \<le> unat (c_GlobalSlots (config p)) \<or>
      (\<forall>a. \<not> as_contains (locals p) a \<longrightarrow> llen (pending p') a \<le> unat (c_AccountSlots (config p)))) \<and>
     (\<forall>a. llen (pending p') a \<le> llen (pending p) a \<and>
        min (llen (pending p) a) (unat (c_AccountSlots (config p))) \<le> llen (pending p') a \<and>
        (as_contains (locals p) a \<longrightarrow> llen (pending p') a = llen (pending p) a))"
proof -
  obtain p' where p': "limit_pending e p = Some p'" "limited e p p'" "pending_limited p p'" using limit_pending_correct [OF assms(1,2)] by blast
  have le: "llen (pending p') a \<le> llen (pending p) a" for a using p'(3) by (simp add: pending_limited_def)
  have d: "distinct (map fst (pending p))" "distinct (map fst (pending p'))" "dom (map_of (pending p')) = dom (map_of (pending p))"
    using pool_invD(1) [OF assms(1)] p'(2) pool_invD(1) [of e "{}" "{}" p'] by (auto simp: limited_def lists_ok_def)
  have "tally (pending p') \<le> tally (pending p)" unfolding tally_sum [OF d(1)] tally_sum [OF d(2)] d(3) by (rule sum_mono) (rule le)
  then have small: "tally (pending p') < 2 ^ 64" using assms(3) by (simp add: pool_stats_tally)
  have "llen (pending p') a < 2 ^ 64" for a using llen_le_tally [of "pending p'" a] small by simp
  then have w: "unat (of_nat (llen (pending p') a) :: uint64) = llen (pending p') a" for a by (rule unat_of_nat_small)
  have "fst (pool_stats p') \<le> unat (c_GlobalSlots (config p)) \<or>
      (\<forall>a. \<not> as_contains (locals p) a \<longrightarrow> llen (pending p') a \<le> unat (c_AccountSlots (config p)))"
  proof (cases "total_len (pending p') \<le> c_GlobalSlots (config p)")
    case True
    then show ?thesis using small by (simp add: total_len_of_nat word_le_nat_alt unat_of_nat_small pool_stats_tally)
  next
    case False
    then have ns: "\<not> spammer p (pending p') a" for a using p'(3) by (simp add: pending_limited_def)
    have "llen (pending p') a \<le> unat (c_AccountSlots (config p))" if "\<not> as_contains (locals p) a" for a
    proof (cases "map_of (pending p') a")
      case None
      then show ?thesis by (simp add: llen_def)
    next
      case (Some l)
      then show ?thesis using ns [of a] that w [of a] by (auto simp: spammer_def word_less_nat_alt not_less)
    qed
    then show ?thesis by blast
  qed
  moreover have "min (llen (pending p) a) (unat (c_AccountSlots (config p))) \<le> llen (pending p') a \<and>
      (as_contains (locals p) a \<longrightarrow> llen (pending p') a = llen (pending p) a)" for a
    using p'(3) by (auto simp: pending_limited_def spammer_def dest: spec [of _ a])
  ultimately show ?thesis using p'(1) le by blast
qed

section \<open>Witnesses\<close>

text \<open>
  A pool of the deployed network at its genesis block, whose environment hashes a transaction to its nonce and gives every
  transaction the same sender.
\<close>

definition demo_pool_env :: PoolEnv where
  "demo_pool_env = plain_env (\<lambda>t. ucast (AccountNonce t)) (\<lambda>t. Inr 1)"

definition demo_pool_head :: Header where
  "demo_pool_head =
     \<lparr>h_ParentHash = 0, h_UncleHash = 0, h_Coinbase = 0, h_Root = 0, h_TxHash = 0, h_ReceiptHash = 0, h_Bloom = replicate 256 0,
      h_Difficulty = 1, h_Number = 0, h_GasLimit = 8000000, h_GasUsed = 0, h_Time = 0, h_Extra = [], h_MixDigest = 0, h_Nonce = replicate 8 0\<rparr>"

definition demo_pool_funds :: StateDB where
  "demo_pool_funds = AddBalance (New void_backend emptyTrie) 1 1000000"

definition demo_pool_chain :: PoolChain where
  "demo_pool_chain = \<lparr>pc_GetBlock = (\<lambda>_ _. None), pc_StateAt = (\<lambda>_. Some demo_pool_funds), pc_keccak = (\<lambda>_. 0)\<rparr>"

definition demo_pool_tx :: "uint64 \<Rightarrow> Transaction" where
  "demo_pool_tx n = NewTransaction n 7 (Some 1) 30000 (Some 2) []"

lemma demo_pool_env_for: "env_for (e_hash demo_pool_env) (e_sender demo_pool_env) demo_pool_env"
  by (simp add: demo_pool_env_def plain_env_def env_for_plain [unfolded plain_env_def])

lemma demo_pool_chain_ok: "chain_ok demo_pool_chain"
  by (simp add: chain_ok_def demo_pool_chain_def)

text \<open>The new pool is empty.\<close>

lemma demo_pool_new:
  "\<exists>p. NewTxPool demo_pool_env demo_pool_chain DefaultTxPoolConfig genesis_config demo_pool_funds demo_pool_head = Some p \<and>
     txLookup_Count (pool_all p) = 0 \<and> reachable (e_hash demo_pool_env) (e_sender demo_pool_env) p"
proof -
  obtain ms where ms: "ManageState [] demo_pool_funds = Some ms" using ManageState_fresh by blast
  define p where "p = (emptyTxPool DefaultTxPoolConfig genesis_config demo_pool_funds)
    \<lparr>currentState := demo_pool_funds, pendingState := ms, currentMaxGas := h_GasLimit demo_pool_head\<rparr>"
  have e: "pending p = []" "queue p = []" "txLookup_Count (pool_all p) = 0"
    by (simp_all add: p_def emptyTxPool_def Let_def newTxLookup_def txLookup_Count_def)
  have acc: "e_accounts demo_pool_env [] = []" by (simp add: demo_pool_env_def plain_env_def)
  have "demoteUnexecutables demo_pool_env p = Some p" "promoteExecutables demo_pool_env None p = Some p"
    using e acc by (simp_all add: demoteUnexecutables_def promoteExecutables_def limit_pending_def limit_queue_def total_len_def Let_def)
  then have n: "NewTxPool demo_pool_env demo_pool_chain DefaultTxPoolConfig genesis_config demo_pool_funds demo_pool_head = Some p"
    using ms e acc by (simp add: NewTxPool_def reset_def reinject_of_def demo_pool_chain_def addTxsLocked_def flip: p_def)
  with reachable_new [OF demo_pool_env_for demo_pool_chain_ok _ n] e(3) show ?thesis by (auto simp: DefaultTxPoolConfig_def)
qed

lemma demo_pool_add:
  "\<exists>p p'. NewTxPool demo_pool_env demo_pool_chain DefaultTxPoolConfig genesis_config demo_pool_funds demo_pool_head = Some p \<and>
     run_call demo_pool_env (Call_AddRemotes [demo_pool_tx 0, demo_pool_tx 1, demo_pool_tx 5]) p = Some p' \<and>
     reachable (e_hash demo_pool_env) (e_sender demo_pool_env) p \<and>
     call_ok (Call_AddRemotes [demo_pool_tx 0, demo_pool_tx 1, demo_pool_tx 5]) p \<and> reachable (e_hash demo_pool_env) (e_sender demo_pool_env) p'"
proof -
  let ?call = "Call_AddRemotes [demo_pool_tx 0, demo_pool_tx 1, demo_pool_tx 5]"
  obtain p where p: "NewTxPool demo_pool_env demo_pool_chain DefaultTxPoolConfig genesis_config demo_pool_funds demo_pool_head = Some p"
    "txLookup_Count (pool_all p) = 0" "reachable (e_hash demo_pool_env) (e_sender demo_pool_env) p" using demo_pool_new by blast
  then have c: "call_ok ?call p" by simp
  have i: "pool_inv demo_pool_env {} {} p" "account_queue_ok p" "env_ok demo_pool_env"
    using reachable_inv [OF p(3) demo_pool_env_for] demo_pool_env_for by (auto simp: env_for_def)
  from run_call_inv [OF i c] obtain p' where "run_call demo_pool_env ?call p = Some p'" by blast
  with p c reachable_call [OF p(3) demo_pool_env_for c] show ?thesis by blast
qed

theorem pool_consistent_witness:
  "\<exists>p p'. NewTxPool demo_pool_env demo_pool_chain DefaultTxPoolConfig genesis_config demo_pool_funds demo_pool_head = Some p \<and>
     run_call demo_pool_env (Call_AddRemotes [demo_pool_tx 0, demo_pool_tx 1, demo_pool_tx 5]) p = Some p' \<and>
     fst (pool_stats p') + snd (pool_stats p') = txLookup_Count (pool_all p')"
  using demo_pool_add pool_consistent by blast


theorem pool_status_correct_witness:
  "\<exists>p p'. NewTxPool demo_pool_env demo_pool_chain DefaultTxPoolConfig genesis_config demo_pool_funds demo_pool_head = Some p \<and>
     run_call demo_pool_env (Call_AddRemotes [demo_pool_tx 0, demo_pool_tx 1, demo_pool_tx 5]) p = Some p' \<and>
     (pool_status demo_pool_env p' 1 = TxStatusUnknown \<longleftrightarrow> pool_Get p' 1 = None)"
proof -
  obtain p p' where p: "NewTxPool demo_pool_env demo_pool_chain DefaultTxPoolConfig genesis_config demo_pool_funds demo_pool_head = Some p"
    "run_call demo_pool_env (Call_AddRemotes [demo_pool_tx 0, demo_pool_tx 1, demo_pool_tx 5]) p = Some p'"
    "reachable (e_hash demo_pool_env) (e_sender demo_pool_env) p'" using demo_pool_add by blast
  with pool_status_correct [OF p(3) demo_pool_env_for, of 1] show ?thesis by (auto split: option.splits)
qed

text \<open>A pool with one slot whose only account has two pending transactions.\<close>

definition crowded_pool :: TxPool where
  "crowded_pool =
     (emptyTxPool (DefaultTxPoolConfig\<lparr>c_AccountSlots := 1, c_GlobalSlots := 1\<rparr>) genesis_config demo_pool_funds)
       \<lparr>pending := [(1, sample_list)], pool_all := \<lparr>lk_all = map (\<lambda>t. (e_hash demo_pool_env t, t)) (content sample_list)\<rparr>,
        priced := \<lparr>pl_items = heap_Init price_less (content sample_list), pl_stales = 0\<rparr>\<rparr>"

lemma crowded_inv: "pool_inv demo_pool_env {} {} crowded_pool"
proof -
  let ?ts = "content sample_list"
  have l: "list_ok sample_list" "l_strict sample_list" using builds_inv [OF builds_sample] by (auto simp: list_inv_def)
  have p: "pending crowded_pool = [(1, sample_list)]" "queue crowded_pool = []" by (simp_all add: crowded_pool_def emptyTxPool_def Let_def)
  have k: "members [(1, sample_list)] = set ?ts" "members [] = {}" by (auto simp: members_def)
  have h: "is_heap price_less (heap_Init price_less ?ts)" "set (heap_Init price_less ?ts) = set ?ts" using prices.init [of ?ts] by auto
  have n: "map (\<lambda>t. e_hash demo_pool_env t) ?ts = [1, 2]" "map AccountNonce ?ts = [1, 2]"
    by (simp_all add: content_samples tx_at_def NewTransaction_def newTransaction_def demo_pool_env_def plain_env_def)
  have lk: "map_of (map (\<lambda>t. (f t, t)) ts) h = Some t \<longleftrightarrow> t \<in> set ts \<and> h = f t" if "distinct (map f ts)"
    for f :: "Transaction \<Rightarrow> Hash" and ts h t using that by (induction ts) auto
  have "lists_ok demo_pool_env True [(1, sample_list)]" "lists_ok demo_pool_env False []"
    using l by (auto simp: lists_ok_def demo_pool_env_def plain_env_def)
  moreover have "inj_on (slot demo_pool_env) (set ?ts)" using n(2) distinct_map [of AccountNonce ?ts] by (auto simp: inj_on_def slot_def)
  moreover have "books demo_pool_env (set ?ts) {} crowded_pool"
    using lk [of "e_hash demo_pool_env" ?ts] n(1) h by (simp add: books_def crowded_pool_def txLookup_Get_def comp_def)
  ultimately show ?thesis by (simp add: pool_inv_def known_def p k)
qed

theorem pending_limit_fair_witness:
  "\<exists>p'. limit_pending demo_pool_env crowded_pool = Some p' \<and> llen (pending p') 1 = 1"
proof -
  have c: "c_GlobalSlots (config crowded_pool) = 1" "c_AccountSlots (config crowded_pool) = 1" "pending crowded_pool = [(1, sample_list)]"
    "\<not> as_contains (locals crowded_pool) 1"
    by (simp_all add: crowded_pool_def emptyTxPool_def config_sanitize_def DefaultTxPoolConfig_def newAccountSet_def NewEIP155Signer_def as_contains_def Let_def)
  have "list_ok sample_list" using builds_inv [OF builds_sample] by (simp add: list_inv_def)
  then have l: "llen (pending crowded_pool) 1 = 2" "fst (pool_stats crowded_pool) < 2 ^ 64"
    using Len_content [of sample_list] by (simp_all add: llen_def c pool_stats_def content_samples)
  have "env_ok demo_pool_env" using demo_pool_env_for by (simp add: env_for_def)
  from pending_limit_fair [OF crowded_inv this l(2)] obtain p' where p': "limit_pending demo_pool_env crowded_pool = Some p'"
    "fst (pool_stats p') \<le> unat (c_GlobalSlots (config crowded_pool)) \<or>
      (\<forall>a. \<not> as_contains (locals crowded_pool) a \<longrightarrow> llen (pending p') a \<le> unat (c_AccountSlots (config crowded_pool)))"
    "min (llen (pending crowded_pool) 1) (unat (c_AccountSlots (config crowded_pool))) \<le> llen (pending p') 1" by blast
  then have "fst (pool_stats p') \<le> 1 \<or> llen (pending p') 1 \<le> 1" "1 \<le> llen (pending p') 1" using c l(1) by auto
  with p'(1) show ?thesis using llen_le_tally [of "pending p'" 1] by (auto simp: pool_stats_tally)
qed

end
