(* ===== verification/Spec2Isabelle.thy ===== *)
theory Spec2Isabelle
  imports State_Correct VM_Analysis VM_Arith Rlp_Raw Trie_Correct Bloom VM_Safety Transition_Correct Ethash_Correct Ethash_Rules_Correct Tx_List_Correct Tx_Priced Tx_Pool_Correct
begin

text \<open>
  Verification of the execution core of the Ethereum client in
  \<^verbatim>\<open>src/docker-geth-network-master/monitored-geth-client/go-ethereum-master\<close> (geth 1.8.17 with a constant mining
  difficulty), which the private network of the repository runs.  All file names below are relative to that directory.

  \<^bold>\<open>The program.\<close>  A block arrives or is mined; \<^verbatim>\<open>consensus/ethash\<close> checks its header, uncles and seal.  Its
  transactions are applied one by one (\<^verbatim>\<open>core/state_transition.go\<close>): the sender buys gas from the pool of the
  block, the EVM (\<^verbatim>\<open>core/vm\<close>) runs the called contract, and the unused gas is refunded.  The EVM changes the
  world through \<^verbatim>\<open>core/state\<close>, which records every change in a journal so that a failed call can be undone, and
  keeps accounts and storage in Merkle Patricia tries (\<^verbatim>\<open>trie\<close>) whose nodes are RLP-encoded (\<^verbatim>\<open>rlp\<close>).  The logs
  of the receipts are indexed by a bloom filter (\<^verbatim>\<open>core/types\<close>).  Transactions that wait for a block are kept in
  the transaction pool (\<^verbatim>\<open>core/tx_pool.go\<close>).

  \<^bold>\<open>Conventions\<close> (theory \<open>Prelude\<close>).  A Go integer is a word of its width where it can wrap; a \<^verbatim>\<open>big.Int\<close> is an
  \<open>int\<close>; a byte slice is a list of bytes; a panic (an index or slice out of range, a nil dereference, an explicit
  \<^verbatim>\<open>panic\<close>) is \<open>None\<close>; an error value is a constructor of a datatype.  Code outside of the repository or behind an
  interface (Keccak, the elliptic curves, the node database, the chain reader) is an argument of the definitions.

  \<^bold>\<open>Common and parameters.\<close>  \<open>Common_Types\<close> (\<^verbatim>\<open>common/types.go\<close>, \<^verbatim>\<open>common/bytes.go\<close>), \<open>Common_Math\<close>
  (\<^verbatim>\<open>common/math\<close>) and \<open>Params\<close> (\<^verbatim>\<open>params\<close>) hold conversions, 256-bit arithmetic, constants and the fork schedule,
  with the check that two fork schedules are compatible.  \<open>Network\<close> is the genesis configuration of the deployed
  network, used by the witnesses.

  \<^bold>\<open>World state.\<close>  \<open>State_Object\<close> and \<open>State_DB\<close> translate \<^verbatim>\<open>core/state/state_object.go\<close>, \<^verbatim>\<open>statedb.go\<close> and
  \<^verbatim>\<open>journal.go\<close>: caches, dirty markers, the journal entries and their reverts.  \<open>State_Refine\<close> states what a client
  may observe (\<open>world\<close>) and proves the effect of every operation on it; \<open>State_Snapshot\<close> states the contract of
  snapshots as the locale \<open>snapshot_state\<close>, interpreted on the code; \<open>State_Correct\<close> proves that any sequence of
  calls of the interface gives the answers of a machine that copies the whole world at every snapshot.

  \<^bold>\<open>Trie.\<close>  \<open>Trie_Interface\<close> is the contract between state and trie (locale \<open>kv_store\<close>), interpreted on the trie
  that \<open>State_Object\<close> sees and on the Merkle Patricia trie itself.  \<open>Trie_Encoding\<close> and \<open>Trie_Node\<close> translate
  \<^verbatim>\<open>trie/encoding.go\<close>, \<^verbatim>\<open>trie/trie.go\<close> and the node types.  \<open>Trie_Pure\<close> is the tree with all references resolved and
  its canonical form; \<open>Trie_Correct\<close> proves that the code, with its lazily loaded nodes, computes the operations of
  a map, keeps the canonical form, and that the tree depends on the content only.  Lookup, insertion and deletion
  are partial functions: \<open>None\<close> is a panic or a run that does not end, and the theorems show that there is neither on
  a canonical trie.

  \<^bold>\<open>RLP.\<close>  \<open>Rlp_Encode\<close> is the one-pass encoder of \<^verbatim>\<open>rlp/encode.go\<close>, \<open>Rlp_Spec\<close> the recursive encoding and the proof
  that they agree; \<open>Rlp_Raw\<close> is \<^verbatim>\<open>rlp/raw.go\<close> with its round trips.

  \<^bold>\<open>Virtual machine.\<close>  \<open>Opcodes\<close>, \<open>VM_Data\<close> (stack, memory, contract, jump analysis), \<open>VM_Precompiles\<close>, \<open>VM_Calls\<close>
  (\<^verbatim>\<open>evm.go\<close>), \<open>VM_Instructions\<close>, \<open>VM_Gas\<close>, \<open>VM_JumpTable\<close> and \<open>VM_Interpreter\<close> translate the files of \<^verbatim>\<open>core/vm\<close> of
  these names.  \<open>VM_Analysis\<close> proves the jump-destination bitmap, \<open>VM_Arith\<close> that the instructions on truncated big
  integers are word arithmetic.  The theories \<open>Safety_*\<close> and \<open>VM_Safety\<close> prove, for the instruction sets before
  Constantinople, an invariant of the execution frame and that every instruction keeps it; hence that no run panics,
  that the loop ends within its gas and the nesting within the depth limit, that gas is never created and that a
  failed call leaves no trace.  The interpreter takes fuel: the loop gets one step more than the gas of the contract,
  which suffices because every iteration costs gas, and 1025 levels of nested calls, which suffices because the depth
  is limited to 1024.  The hypotheses bound the gas by \<open>2 ^ 62\<close> and sizes by \<open>2 ^ 40\<close> (memory that a machine cannot have),
  and ask that code hashes identify the length of the code.

  \<^bold>\<open>Transactions.\<close>  \<open>Transition\<close> and \<open>Transition_Correct\<close> treat \<^verbatim>\<open>core/gaspool.go\<close> and \<^verbatim>\<open>core/state_transition.go\<close>: the
  accounting of gas, rejected messages, and that a failed transaction costs its fee and has no other effect.

  \<^bold>\<open>Consensus.\<close>  \<open>Block_Types\<close> holds headers; \<open>Ethash_Algo\<close> and \<open>Ethash_Correct\<close> the hash of the proof of work, for
  every interleaving of the goroutines that generate the dataset (below 4 GiB, where its 32-bit offsets do not wrap);
  \<open>Ethash_Rules\<close> and \<open>Ethash_Rules_Correct\<close> the rules for headers, uncles, seals, rewards and gas limits.

  \<^bold>\<open>Logs.\<close>  \<open>Bloom\<close> proves that the log filter of \<^verbatim>\<open>core/types/bloom9.go\<close> has no false negatives.

  \<^bold>\<open>Pending transactions.\<close>  \<open>Tx_Types\<close> translates transactions and their signatures (\<^verbatim>\<open>core/types/transaction.go\<close>,
  \<^verbatim>\<open>transaction_signing.go\<close>): signing and recovering the sender are inverse, and a signature for one chain is refused on
  every other.  \<open>Go_Heap\<close> is the heap of Go's standard library, with the locale \<open>min_queue\<close> for what its clients rely on
  and \<open>heap_order\<close> for what they provide; \<open>Tx_List\<close> translates the lists of \<^verbatim>\<open>core/tx_list.go\<close> and interprets \<open>heap_order\<close> on
  the order of nonces.  \<open>Tx_Sorted\<close> proves that the map with its heap index and cached order refines a sorted
  list, for every iteration order of Go's maps (a parameter of every loop); \<open>Tx_List_Correct\<close> that the cached caps are
  sound and a strict list has no gaps; \<open>Tx_Priced\<close> that the list by price answers as if it held no stale entries.
  \<open>Managed_State\<close> (\<^verbatim>\<open>core/state/managed_state.go\<close>) tracks the nonces of pending transactions.  \<open>Tx_Pool\<close> translates the pool,
  \<^verbatim>\<open>core/tx_pool.go\<close>: validation, insertion, promotion, demotion, the limits, eviction and the reset to a new head.  The record
  \<open>PoolEnv\<close> holds what a call meets: the hash and the sender of a transaction, the time and the iteration orders.  The two
  loops that a list does not bound are partial functions, shown to end.  \<open>Tx_Pool_Lists\<close> states the list operations as splits of a
  list; \<open>Tx_Pool_Inv\<close> the invariant, in which a transaction is pending, queued or in flight between lists, and the small steps
  that keep it; \<open>Tx_Pool_Steps\<close>, \<open>Tx_Pool_Limits\<close> and \<open>Tx_Pool_Ops\<close> follow it through every operation; \<open>Tx_Pool_Correct\<close>
  concludes that every reachable pool is consistent, that no call panics or runs forever, and that the limits are fair.  The
  hypotheses bound the number of transactions by \<open>2 ^ 63\<close> and ask that the chain finds blocks under their numbers.
  \<^bold>\<open>Not modelled.\<close>  Hashing and committing of tries and the state root (they write to the database under hashes), the
  reflection-driven RLP decoder, the block chain database and reorganisation, sealing and mining (concurrent
  search driven by channels), the networking (\<^verbatim>\<open>p2p\<close>, \<^verbatim>\<open>eth\<close>, \<^verbatim>\<open>les\<close>), key management and cryptography, the command
  line, RPC and monitoring code, the services that this network does not use (\<^verbatim>\<open>swarm\<close>, \<^verbatim>\<open>whisper\<close>, \<^verbatim>\<open>clique\<close>), and the
  simulator outside of the client, which only starts processes.  The instruction set of Constantinople is
  defined but the safety theorems exclude it: it is not active in the network.
\<close>

end
